(* ===== verification/OS_Prelude.thy ===== *)
theory OS_Prelude
  imports Main "HOL-Library.Word" "HOL-Library.Monad_Syntax"
begin

text \<open>
  The vocabulary every component theory shares: the C integer types at their widths, the
  \<open>ASSERT\<close> macro of \<open>kernel/debug.h\<close>, reads and writes of C arrays, and the list and
  option lemmas the component proofs rest on.

  A C function that may not come back to its caller has an \<open>option\<close> result. \<open>None\<close> is the
  value of a call that never returns: an \<open>ASSERT\<close> or \<open>PANIC\<close> that fails (the code then spins
  for ever in \<open>panic_spin\<close> with interrupts off), or an access outside the object a pointer
  points into. An error the code reports to its caller (-1, NULL, false) is an ordinary value.
\<close>

type_synonym u8 = "8 word"
type_synonym u16 = "16 word"
type_synonym u32 = "32 word"

named_theorems c_simps \<comment> \<open>unfolding of the C-level primitives\<close>
named_theorems len_simps \<comment> \<open>operations keep the length of their object\<close>

subsection \<open>Assertions\<close>

definition ASSERT :: "bool \<Rightarrow> unit option" where
  "ASSERT c = (if c then Some () else None)"

lemma ASSERT_simps [simp, c_simps]:
  "ASSERT True = Some ()"
  "ASSERT False = None"
  by (simp_all add: ASSERT_def)

lemma ASSERT_eq_Some [simp]: "ASSERT c = Some u \<longleftrightarrow> c"
  by (simp add: ASSERT_def)

lemma ASSERT_eq_None [simp]: "ASSERT c = None \<longleftrightarrow> \<not> c"
  by (simp add: ASSERT_def)

lemma bind_ASSERT [simp]: "Option.bind (ASSERT c) f = (if c then f () else None)"
  by (simp add: ASSERT_def)

lemma bind_Some_id [simp]: "Option.bind m Some = m"
  by (cases m) auto

lemmas bind_conv = Option.bind_eq_Some_conv

subsection \<open>Arrays\<close>

definition rd :: "'a list \<Rightarrow> nat \<Rightarrow> 'a option" where
  "rd xs i = (if i < length xs then Some (xs ! i) else None)"

definition wr :: "'a list \<Rightarrow> nat \<Rightarrow> 'a \<Rightarrow> 'a list option" where
  "wr xs i v = (if i < length xs then Some (xs[i := v]) else None)"

lemma rd_in [simp]: "i < length xs \<Longrightarrow> rd xs i = Some (xs ! i)"
  by (simp add: rd_def)

lemma rd_out [simp]: "length xs \<le> i \<Longrightarrow> rd xs i = None"
  by (simp add: rd_def)

lemma wr_in [simp]: "i < length xs \<Longrightarrow> wr xs i v = Some (xs[i := v])"
  by (simp add: wr_def)

lemma wr_out [simp]: "length xs \<le> i \<Longrightarrow> wr xs i v = None"
  by (simp add: wr_def)

lemma rd_eq_Some: "rd xs i = Some v \<longleftrightarrow> i < length xs \<and> xs ! i = v"
  by (auto simp: rd_def)

lemma wr_eq_Some: "wr xs i v = Some ys \<longleftrightarrow> i < length xs \<and> ys = xs[i := v]"
  by (auto simp: wr_def)

lemma length_wr [len_simps]: "wr xs i v = Some ys \<Longrightarrow> length ys = length xs"
  by (auto simp: wr_eq_Some)

text \<open>The bytes \<open>n\<close> long at offset \<open>a\<close>, and the same bytes replaced.\<close>

definition bytes_at :: "nat \<Rightarrow> nat \<Rightarrow> 'a list \<Rightarrow> 'a list" where
  "bytes_at a n xs = take n (drop a xs)"

definition put_bytes :: "'a list \<Rightarrow> nat \<Rightarrow> 'a list \<Rightarrow> 'a list" where
  "put_bytes xs a ys = take a xs @ ys @ drop (a + length ys) xs"

lemma length_put_bytes [simp]: "a + length ys \<le> length xs \<Longrightarrow> length (put_bytes xs a ys) = length xs"
  by (simp add: put_bytes_def)

lemma length_bytes_at [simp]: "a + n \<le> length xs \<Longrightarrow> length (bytes_at a n xs) = n"
  by (simp add: bytes_at_def)

lemma nth_put_bytes:
  assumes "a + length ys \<le> length xs" and "i < length xs"
  shows "put_bytes xs a ys ! i = (if a \<le> i \<and> i < a + length ys then ys ! (i - a) else xs ! i)"
  using assms by (auto simp: put_bytes_def nth_append)

lemma nth_bytes_at [simp]: "i < n \<Longrightarrow> a + n \<le> length xs \<Longrightarrow> bytes_at a n xs ! i = xs ! (a + i)"
  by (simp add: bytes_at_def)

lemma bytes_at_put_bytes_same:
  "a + length ys \<le> length xs \<Longrightarrow> bytes_at a (length ys) (put_bytes xs a ys) = ys"
  by (simp add: bytes_at_def put_bytes_def)

lemma bytes_at_put_bytes_disjoint:
  assumes "a + length ys \<le> length xs" and "b + n \<le> length xs"
    and "b + n \<le> a \<or> a + length ys \<le> b"
  shows "bytes_at b n (put_bytes xs a ys) = bytes_at b n xs"
  by (rule nth_equalityI) (use assms in \<open>auto simp: nth_put_bytes\<close>)

lemma put_bytes_Nil [simp]: "put_bytes xs a [] = xs"
  by (simp add: put_bytes_def)

lemma put_bytes_adj:
  "a + length ys + length zs \<le> length xs \<Longrightarrow>
   put_bytes (put_bytes xs a ys) (a + length ys) zs = put_bytes xs a (ys @ zs)"
  by (simp add: put_bytes_def) (metis add.assoc add.commute)

lemma put_bytes_single: "a < length xs \<Longrightarrow> put_bytes xs a [v] = xs[a := v]"
  by (simp add: put_bytes_def upd_conv_take_nth_drop)

lemma put_bytes_Cons:
  "a + Suc (length ys) \<le> length xs \<Longrightarrow>
   put_bytes (xs[a := y]) (Suc a) ys = put_bytes xs a (y # ys)"
  using put_bytes_adj [of a "[y]" ys xs] by (simp add: put_bytes_single)

subsection \<open>Conversions\<close>

text \<open>\<open>DIV_ROUND_UP(X, STEP)\<close> of \<open>kernel/global.h\<close>, on 32-bit unsigned values.\<close>

definition DIV_ROUND_UP :: "u32 \<Rightarrow> u32 \<Rightarrow> u32" where
  "DIV_ROUND_UP x step = (x + step - 1) div step"

lemma DIV_ROUND_UP_nat:
  assumes "0 < unat step" and "unat x + unat step \<le> 2 ^ 32"
  shows "unat (DIV_ROUND_UP x step) = (unat x + unat step - 1) div unat step"
proof -
  have 1: "x + step - 1 = x + (step - 1)" by simp
  have "unat (step - 1) = unat step - 1"
    using assms(1) by (metis unat_minus_one unat_0 less_irrefl)
  moreover have "unat (x + (step - 1)) = unat x + unat (step - 1)"
    using assms calculation by (subst unat_add_lem [THEN iffD1]) auto
  ultimately have "unat (x + step - 1) = unat x + unat step - 1"
    using assms unfolding 1 by simp
  then show ?thesis by (simp add: DIV_ROUND_UP_def unat_div_distrib)
qed

lemma unat_add_small: "unat a + unat b < 2 ^ 32 \<Longrightarrow> unat (a + b :: u32) = unat a + unat b"
  using unat_add_lem [of a b] by simp

lemma unat_mult_small: "unat a * unat b < 2 ^ 32 \<Longrightarrow> unat (a * b :: u32) = unat a * unat b"
  using unat_mult_lem [of a b] by simp

lemma unat_u16: "unat (x :: u16) < 65536"
  using unsigned_less [of x, where 'a = nat] by simp

lemma unat_u32: "unat (x :: u32) < 2 ^ 32"
  using unsigned_less [of x, where 'a = nat] by simp

lemma unat_u8: "unat (x :: u8) < 256"
  using unsigned_less [of x, where 'a = nat] by simp

lemma unat_zext [simp]: "unat (ucast (x :: u16) :: u32) = unat x" "unat (ucast (y :: u8) :: u32) = unat y"
  "unat (ucast (y :: u8) :: u16) = unat y"
  unfolding unsigned_ucast_eq
  by (rule take_bit_nat_eq_self, use unat_u16 [of x] unat_u8 [of y] in simp)+

end
