(* ===== verification/CString.thy ===== *)
theory CString
  imports OS_Prelude
begin

text \<open>
  \<open>lib/string.c\<close>. Memory is one array of bytes and a pointer an index into it; index 0 is
  \<open>NULL\<close>. A loop that advances a pointer is a recursive function over the index; reading or
  writing past the end of memory is \<open>None\<close>. Plain \<open>char\<close> is signed (gcc on x86), so the
  comparisons read bytes with \<open>sint\<close>, while the \<open>uint8_t\<close> a character is compared with in
  \<open>strchr\<close>, \<open>strrchr\<close> and \<open>strchrs\<close> is read with \<open>uint\<close>.

  The read-only loops take two memories, so that the file system can compare a string of a
  sector buffer with a string of another object.
\<close>

type_synonym mem = "u8 list"
type_synonym addr = nat

definition NULL :: addr where
  "NULL = 0"

subsection \<open>The functions\<close>

fun memset_loop :: "mem \<Rightarrow> addr \<Rightarrow> u8 \<Rightarrow> nat \<Rightarrow> mem option" where
  "memset_loop m dst value 0 = Some m"
| "memset_loop m dst value (Suc n) = do {
     m \<leftarrow> wr m dst value;
     memset_loop m (dst + 1) value n }"

definition memset :: "mem \<Rightarrow> addr \<Rightarrow> u8 \<Rightarrow> nat \<Rightarrow> mem option" where
  "memset m dst0 value n = do {
     ASSERT (dst0 \<noteq> NULL);
     memset_loop m dst0 value n }"

fun memcpy_loop :: "mem \<Rightarrow> addr \<Rightarrow> addr \<Rightarrow> nat \<Rightarrow> mem option" where
  "memcpy_loop m dst src 0 = Some m"
| "memcpy_loop m dst src (Suc n) = do {
     c \<leftarrow> rd m src;
     m \<leftarrow> wr m dst c;
     memcpy_loop m (dst + 1) (src + 1) n }"

definition memcpy :: "mem \<Rightarrow> addr \<Rightarrow> addr \<Rightarrow> nat \<Rightarrow> mem option" where
  "memcpy m dst0 src0 n = do {
     ASSERT (dst0 \<noteq> NULL \<and> src0 \<noteq> NULL);
     memcpy_loop m dst0 src0 n }"

fun memcmp_loop :: "mem \<Rightarrow> addr \<Rightarrow> mem \<Rightarrow> addr \<Rightarrow> nat \<Rightarrow> int option" where
  "memcmp_loop ma a mb b 0 = Some 0"
| "memcmp_loop ma a mb b (Suc n) = do {
     x \<leftarrow> rd ma a;
     y \<leftarrow> rd mb b;
     if x \<noteq> y then Some (if sint x > sint y then 1 else -1)
     else memcmp_loop ma (a + 1) mb (b + 1) n }"

definition memcmp :: "mem \<Rightarrow> addr \<Rightarrow> addr \<Rightarrow> nat \<Rightarrow> int option" where
  "memcmp m a0 b0 n = do {
     ASSERT (a0 \<noteq> NULL \<and> b0 \<noteq> NULL);
     memcmp_loop m a0 m b0 n }"

function strcpy_loop :: "mem \<Rightarrow> addr \<Rightarrow> addr \<Rightarrow> mem option" where
  "strcpy_loop m dst src = do {
     c \<leftarrow> rd m src;
     m \<leftarrow> wr m dst c;
     if c \<noteq> 0 then strcpy_loop m (dst + 1) (src + 1) else Some m }"
  by pat_completeness auto
termination
  by (relation "measure (\<lambda>(m, dst, src). length m - src)") (auto simp: rd_eq_Some wr_eq_Some)

declare strcpy_loop.simps [simp del]

definition strcpy :: "mem \<Rightarrow> addr \<Rightarrow> addr \<Rightarrow> (addr \<times> mem) option" where
  "strcpy m dst0 src0 = do {
     ASSERT (dst0 \<noteq> NULL \<and> src0 \<noteq> NULL);
     m \<leftarrow> strcpy_loop m dst0 src0;
     Some (dst0, m) }"

text \<open>\<open>while (*p ++);\<close> leaves \<open>p\<close> one past the terminating zero.\<close>

function str_past :: "mem \<Rightarrow> addr \<Rightarrow> addr option" where
  "str_past m p = do {
     c \<leftarrow> rd m p;
     if c \<noteq> 0 then str_past m (p + 1) else Some (p + 1) }"
  by pat_completeness auto
termination
  by (relation "measure (\<lambda>(m, p). length m - p)") (auto simp: rd_eq_Some)

declare str_past.simps [simp del]

definition strlen :: "mem \<Rightarrow> addr \<Rightarrow> nat option" where
  "strlen m str = do {
     ASSERT (str \<noteq> NULL);
     p \<leftarrow> str_past m str;
     Some (p - str - 1) }"

function strcmp_loop :: "mem \<Rightarrow> addr \<Rightarrow> mem \<Rightarrow> addr \<Rightarrow> int option" where
  "strcmp_loop ma a mb b = do {
     x \<leftarrow> rd ma a;
     y \<leftarrow> rd mb b;
     if x \<noteq> 0 \<and> x = y then strcmp_loop ma (a + 1) mb (b + 1)
     else Some (if sint x < sint y then -1 else if sint x > sint y then 1 else 0) }"
  by pat_completeness auto
termination
  by (relation "measure (\<lambda>(ma, a, mb, b). length ma - a)") (auto simp: rd_eq_Some)

declare strcmp_loop.simps [simp del]

definition strcmp :: "mem \<Rightarrow> addr \<Rightarrow> addr \<Rightarrow> int option" where
  "strcmp m a b = do {
     ASSERT (a \<noteq> NULL \<and> b \<noteq> NULL);
     strcmp_loop m a m b }"

function strchr_loop :: "mem \<Rightarrow> addr \<Rightarrow> u8 \<Rightarrow> addr option" where
  "strchr_loop m str ch = do {
     c \<leftarrow> rd m str;
     if c \<noteq> 0 then (if sint c = uint ch then Some str else strchr_loop m (str + 1) ch)
     else Some NULL }"
  by pat_completeness auto
termination
  by (relation "measure (\<lambda>(m, str, ch). length m - str)") (auto simp: rd_eq_Some)

declare strchr_loop.simps [simp del]

definition strchr :: "mem \<Rightarrow> addr \<Rightarrow> u8 \<Rightarrow> addr option" where
  "strchr m str ch = do {
     ASSERT (str \<noteq> NULL);
     strchr_loop m str ch }"

function strrchr_loop :: "mem \<Rightarrow> addr \<Rightarrow> u8 \<Rightarrow> addr \<Rightarrow> addr option" where
  "strrchr_loop m str ch last_char = do {
     c \<leftarrow> rd m str;
     if c \<noteq> 0 then strrchr_loop m (str + 1) ch (if sint c = uint ch then str else last_char)
     else Some last_char }"
  by pat_completeness auto
termination
  by (relation "measure (\<lambda>(m, str, ch, last_char). length m - str)") (auto simp: rd_eq_Some)

declare strrchr_loop.simps [simp del]

definition strrchr :: "mem \<Rightarrow> addr \<Rightarrow> u8 \<Rightarrow> addr option" where
  "strrchr m str ch = do {
     ASSERT (str \<noteq> NULL);
     strrchr_loop m str ch NULL }"

definition strcat :: "mem \<Rightarrow> addr \<Rightarrow> addr \<Rightarrow> (addr \<times> mem) option" where
  "strcat m dst0 src0 = do {
     ASSERT (dst0 \<noteq> NULL \<and> src0 \<noteq> NULL);
     str \<leftarrow> str_past m dst0;
     m \<leftarrow> strcpy_loop m (str - 1) src0;
     Some (dst0, m) }"

function strchrs_loop :: "mem \<Rightarrow> addr \<Rightarrow> u8 \<Rightarrow> nat \<Rightarrow> nat option" where
  "strchrs_loop m p ch ch_cnt = do {
     c \<leftarrow> rd m p;
     if c \<noteq> 0 then strchrs_loop m (p + 1) ch (if sint c = uint ch then ch_cnt + 1 else ch_cnt)
     else Some ch_cnt }"
  by pat_completeness auto
termination
  by (relation "measure (\<lambda>(m, p, ch, ch_cnt). length m - p)") (auto simp: rd_eq_Some)

declare strchrs_loop.simps [simp del]

definition strchrs :: "mem \<Rightarrow> addr \<Rightarrow> u8 \<Rightarrow> nat option" where
  "strchrs m str ch = do {
     ASSERT (str \<noteq> NULL);
     strchrs_loop m str ch 0 }"

subsection \<open>Zero-terminated strings\<close>

definition cstr_at :: "mem \<Rightarrow> addr \<Rightarrow> u8 list \<Rightarrow> bool" where
  "cstr_at m a s \<longleftrightarrow> a + length s < length m \<and> bytes_at a (length s) m = s \<and>
     m ! (a + length s) = 0 \<and> 0 \<notin> set s"

lemma cstr_at_Nil [simp]: "cstr_at m a [] \<longleftrightarrow> a < length m \<and> m ! a = 0"
  by (auto simp: cstr_at_def bytes_at_def)

lemma cstr_at_Cons [simp]:
  "cstr_at m a (c # s) \<longleftrightarrow> a < length m \<and> m ! a = c \<and> c \<noteq> 0 \<and> cstr_at m (Suc a) s"
proof (cases "a < length m")
  case True
  have "drop a m = m ! a # drop (Suc a) m" using True by (simp add: Cons_nth_drop_Suc)
  then have "bytes_at a (Suc (length s)) m = m ! a # bytes_at (Suc a) (length s) m"
    by (simp add: bytes_at_def)
  then show ?thesis using True by (auto simp: cstr_at_def)
qed (simp add: cstr_at_def)

lemma cstr_at_len: "cstr_at m a s \<Longrightarrow> a + length s < length m"
  by (simp add: cstr_at_def)

lemma cstr_at_nth: "cstr_at m a s \<Longrightarrow> i < length s \<Longrightarrow> m ! (a + i) = s ! i"
  unfolding cstr_at_def by (metis nth_bytes_at less_imp_le)

lemma cstr_at_cong:
  assumes "cstr_at m a s" and "length m' = length m"
    and "\<And>i. a \<le> i \<Longrightarrow> i \<le> a + length s \<Longrightarrow> m' ! i = m ! i"
  shows "cstr_at m' a s"
proof -
  have "bytes_at a (length s) m' = bytes_at a (length s) m"
    by (rule nth_equalityI) (use assms cstr_at_len [OF assms(1)] in auto)
  with assms show ?thesis by (auto simp: cstr_at_def)
qed

lemma cstr_at_update: "cstr_at m a s \<Longrightarrow> d < a \<or> a + length s < d \<Longrightarrow> cstr_at (m[d := v]) a s"
  by (erule cstr_at_cong) (auto simp: nth_list_update)

lemma cstr_at_put_bytes:
  "cstr_at m a s \<Longrightarrow> d + length ys \<le> length m \<Longrightarrow> d + length ys \<le> a \<or> a + length s < d \<Longrightarrow>
   cstr_at (put_bytes m d ys) a s"
  by (frule cstr_at_len, erule cstr_at_cong) (auto simp: nth_put_bytes)

lemma cstr_at_put_here:
  "d + length s < length m \<Longrightarrow> 0 \<notin> set s \<Longrightarrow> cstr_at (put_bytes m d (s @ [0])) d s"
  unfolding cstr_at_def
  by (auto simp: nth_put_bytes intro!: nth_equalityI) (auto simp: nth_put_bytes nth_append)

subsection \<open>What the functions compute\<close>

lemma memset_loop_eq:
  "d + n \<le> length m \<Longrightarrow> memset_loop m d v n = Some (put_bytes m d (replicate n v))"
  by (induction n arbitrary: m d) (auto simp: put_bytes_Cons)

lemma memcpy_loop_eq:
  "d + n \<le> length m \<Longrightarrow> s + n \<le> length m \<Longrightarrow> d \<le> s \<or> s + n \<le> d \<Longrightarrow>
   memcpy_loop m d s n = Some (put_bytes m d (bytes_at s n m))"
proof (induction n arbitrary: m d s)
  case (Suc n)
  let ?m = "m[d := m ! s]"
  have "drop s m = m ! s # drop (Suc s) m" using Suc.prems by (simp add: Cons_nth_drop_Suc)
  then have b: "bytes_at s (Suc n) m = m ! s # bytes_at (Suc s) n m" by (simp add: bytes_at_def)
  have "bytes_at (Suc s) n ?m = bytes_at (Suc s) n m"
    by (rule nth_equalityI) (use Suc.prems in \<open>auto simp: nth_list_update\<close>)
  with Suc b show ?case by (auto simp: put_bytes_Cons)
qed (simp add: bytes_at_def)

lemma str_past_eq: "cstr_at m a s \<Longrightarrow> str_past m a = Some (a + length s + 1)"
  by (induction s arbitrary: a) (subst str_past.simps, simp)+

lemma strlen_eq:
  "cstr_at m a s \<Longrightarrow> a \<noteq> NULL \<Longrightarrow> strlen m a = Some (length s)"
  by (simp add: strlen_def str_past_eq)

lemma strcpy_loop_eq:
  "cstr_at m s t \<Longrightarrow> d + length t < length m \<Longrightarrow> d \<le> s \<or> s + length t < d \<Longrightarrow>
   strcpy_loop m d s = Some (put_bytes m d (t @ [0]))"
proof (induction t arbitrary: m d s)
  case Nil
  then show ?case by (subst strcpy_loop.simps) (simp add: put_bytes_single)
next
  case (Cons c t)
  let ?m = "m[d := c]"
  have "cstr_at ?m (Suc s) t"
    by (rule cstr_at_update) (use Cons.prems in auto)
  with Cons.IH [of ?m "Suc s" "Suc d"] Cons.prems
  have "strcpy_loop ?m (Suc d) (Suc s) = Some (put_bytes ?m (Suc d) (t @ [0]))" by auto
  also have "put_bytes ?m (Suc d) (t @ [0]) = put_bytes m d (c # t @ [0])"
    by (rule put_bytes_Cons) (use Cons.prems in simp)
  finally show ?case using Cons.prems by (subst strcpy_loop.simps) simp
qed

lemma strcpy_eq:
  assumes "cstr_at m src t" and "dst \<noteq> NULL" and "src \<noteq> NULL"
    and "dst + length t < length m" and "dst \<le> src \<or> src + length t < dst"
  shows "\<exists>m'. strcpy m dst src = Some (dst, m') \<and> m' = put_bytes m dst (t @ [0]) \<and> cstr_at m' dst t"
  using assms strcpy_loop_eq [of m src t dst] cstr_at_put_here [of dst t m]
  by (simp add: strcpy_def cstr_at_def)

text \<open>
  \<open>strcat\<close> of two zero-terminated strings leaves their concatenation at the destination,
  zero-terminated, changes no byte outside it, and returns the destination, when there is room and
  the strings do not overlap.
\<close>

theorem strcat_correct:
  assumes s: "cstr_at m dst s" and t: "cstr_at m src t" and nn: "dst \<noteq> NULL" "src \<noteq> NULL"
    and room: "dst + length s + length t < length m"
    and sep: "dst + length s < src \<or> src + length t < dst"
  shows "\<exists>m'. strcat m dst src = Some (dst, m') \<and> cstr_at m' dst (s @ t) \<and> length m' = length m \<and>
    (\<forall>i < length m. i < dst \<or> dst + length s + length t < i \<longrightarrow> m' ! i = m ! i)"
proof -
  let ?d = "dst + length s"
  let ?m = "put_bytes m ?d (t @ [0])"
  have c: "strcpy_loop m ?d src = Some ?m"
    by (rule strcpy_loop_eq [OF t room]) (use sep in auto)
  have "0 \<notin> set (s @ t)" using s t by (simp add: cstr_at_def)
  have "cstr_at ?m dst (s @ t)"
    unfolding cstr_at_def
  proof (intro conjI)
    show "bytes_at dst (length (s @ t)) ?m = s @ t"
      by (rule nth_equalityI)
        (use room cstr_at_nth [OF s] in \<open>auto simp: nth_put_bytes nth_append\<close>)
  qed (use room \<open>0 \<notin> set (s @ t)\<close> in \<open>auto simp: nth_put_bytes nth_append\<close>)
  with c nn room show ?thesis
    by (auto simp: strcat_def str_past_eq [OF s] nth_put_bytes)
qed

theorem strcat_correct_witness:
  "\<exists>m'. strcat [0, 0x61, 0, 7, 7, 0x62, 0x63, 0] 1 5 = Some (1, m') \<and> cstr_at m' 1 [0x61, 0x62, 0x63]"
  using strcat_correct [of "[0, 0x61, 0, 7, 7, 0x62, 0x63, 0]" 1 "[0x61]" 5 "[0x62, 0x63]"]
  by (auto simp: NULL_def)

text \<open>The sign \<open>strcmp\<close> gives two strings.\<close>

fun str_order :: "u8 list \<Rightarrow> u8 list \<Rightarrow> int" where
  "str_order [] [] = 0"
| "str_order [] (y # ys) = (if 0 < sint y then -1 else 1)"
| "str_order (x # xs) [] = (if 0 < sint x then 1 else -1)"
| "str_order (x # xs) (y # ys) =
     (if x = y then str_order xs ys else if sint x < sint y then -1 else 1)"

lemma sint_ne_0: "x \<noteq> 0 \<Longrightarrow> sint (x :: u8) \<noteq> 0"
  by (metis sint_0 uint_sint word_uint_eq_iff)

lemma sint_neq: "x \<noteq> y \<Longrightarrow> sint (x :: u8) \<noteq> sint y"
  by (metis uint_sint word_uint_eq_iff)

lemma strcmp_loop_eq:
  "cstr_at ma a s \<Longrightarrow> cstr_at mb b t \<Longrightarrow> strcmp_loop ma a mb b = Some (str_order s t)"
proof (induction s t arbitrary: a b rule: str_order.induct)
  case (4 x xs y ys)
  then show ?case
    by (subst strcmp_loop.simps) (auto simp: dest: sint_neq)
qed (subst strcmp_loop.simps, auto dest: sint_ne_0 sint_neq)+

lemma str_order_0: "str_order s t = 0 \<longleftrightarrow> s = t"
  by (induction s t rule: str_order.induct) auto

lemma str_order_swap: "0 \<notin> set s \<Longrightarrow> 0 \<notin> set t \<Longrightarrow> str_order t s = - str_order s t"
  by (induction s t rule: str_order.induct) (auto dest!: sint_ne_0 dest: sint_neq)

text \<open>
  \<open>strcmp\<close> returns 0 exactly on equal strings, and exchanging the arguments changes the sign of
  its result.
\<close>

theorem strcmp_correct:
  assumes "cstr_at m a s" and "cstr_at m b t" and "a \<noteq> NULL" and "b \<noteq> NULL"
  shows "\<exists>r. strcmp m a b = Some r \<and> strcmp m b a = Some (- r) \<and> (r = 0 \<longleftrightarrow> s = t)"
proof -
  have "0 \<notin> set s" "0 \<notin> set t" using assms by (auto simp: cstr_at_def)
  then have "str_order t s = - str_order s t" by (rule str_order_swap)
  moreover have "strcmp m a b = Some (str_order s t)" "strcmp m b a = Some (str_order t s)"
    using assms by (simp_all add: strcmp_def strcmp_loop_eq)
  ultimately show ?thesis using str_order_0 [of s t] by simp
qed

theorem strcmp_correct_witness:
  "\<exists>r. strcmp [0, 0x61, 0x80, 0, 0x61, 0x62, 0] 1 4 = Some r \<and>
    strcmp [0, 0x61, 0x80, 0, 0x61, 0x62, 0] 4 1 = Some (- r) \<and> r \<noteq> 0"
  using strcmp_correct [of "[0, 0x61, 0x80, 0, 0x61, 0x62, 0]" 1 "[0x61, 0x80]" 4 "[0x61, 0x62]"]
  by (simp add: NULL_def)

lemma char_eq: "sint (c :: u8) = uint ch \<longleftrightarrow> c = ch \<and> uint (ch :: u8) < 128"
proof -
  have s: "sint c = (uint c + 128) mod 256 - 128"
    using int_word_sint [where 'a = 8, of "uint c"] by simp
  have b: "0 \<le> uint c" "uint c < 256" "0 \<le> uint ch" "uint ch < 256"
    using uint_lt2p [of c] uint_lt2p [of ch] by auto
  have "sint c = uint ch \<longleftrightarrow> uint c = uint ch \<and> uint ch < 128"
  proof (cases "uint c < 128")
    case True
    then show ?thesis using s b by auto
  next
    case False
    then have "(uint c + 128) mod 256 = uint c - 128"
      using b by (simp add: mod_pos_geq)
    then have "sint c = uint c - 256" using s by simp
    then show ?thesis using b False by linarith
  qed
  then show ?thesis by (simp add: word_uint_eq_iff)
qed

lemma strchr_loop_eq:
  "cstr_at m a s \<Longrightarrow> uint ch < 128 \<Longrightarrow>
   strchr_loop m a ch = Some (if ch \<in> set s then a + length (takeWhile (\<lambda>c. c \<noteq> ch) s) else NULL)"
  by (induction s arbitrary: a) (subst strchr_loop.simps, auto simp: char_eq NULL_def)+

text \<open>The position of the last \<open>ch\<close>, as the scan keeps it.\<close>

fun last_pos :: "addr \<Rightarrow> u8 \<Rightarrow> u8 list \<Rightarrow> addr \<Rightarrow> addr" where
  "last_pos a ch [] r = r"
| "last_pos a ch (c # s) r = last_pos (Suc a) ch s (if c = ch then a else r)"

lemma strrchr_loop_eq:
  "cstr_at m a s \<Longrightarrow> uint ch < 128 \<Longrightarrow> strrchr_loop m a ch r = Some (last_pos a ch s r)"
  by (induction s arbitrary: a r) (subst strrchr_loop.simps, auto simp: char_eq)+

lemma last_pos_notin [simp]: "ch \<notin> set s \<Longrightarrow> last_pos a ch s r = r"
  by (induction s arbitrary: a r) auto

lemma last_pos_split: "ch \<notin> set t \<Longrightarrow> last_pos a ch (s @ ch # t) r = a + length s"
  by (induction s arbitrary: a r) auto

text \<open>
  \<open>strrchr\<close> of a 7-bit character returns the address of its last occurrence, or NULL when there
  is none. (A character from 128 on is never found: the string's \<open>char\<close> is signed.)
\<close>

theorem strrchr_correct:
  assumes "cstr_at m a s" and "uint ch < 128" and "a \<noteq> NULL"
  shows "if ch \<in> set s
    then \<exists>s1 s2. s = s1 @ ch # s2 \<and> ch \<notin> set s2 \<and> strrchr m a ch = Some (a + length s1)
    else strrchr m a ch = Some NULL"
proof (cases "ch \<in> set s")
  case True
  then obtain s1 s2 where s: "s = s1 @ ch # s2" "ch \<notin> set s2" by (metis split_list_last)
  moreover from assms s have "strrchr m a ch = Some (a + length s1)"
    by (simp add: strrchr_def strrchr_loop_eq last_pos_split)
  ultimately show ?thesis using True by auto
qed (use assms in \<open>simp add: strrchr_def strrchr_loop_eq\<close>)

theorem strrchr_correct_witness:
  "\<exists>s1 s2. [0x61, 0x2f, 0x62, 0x2f, 0x63 :: u8] = s1 @ 0x2f # s2 \<and> 0x2f \<notin> set s2 \<and>
    strrchr [0, 0x61, 0x2f, 0x62, 0x2f, 0x63, 0] 1 0x2f = Some (1 + length s1)"
  using strrchr_correct [of "[0, 0x61, 0x2f, 0x62, 0x2f, 0x63, 0]" 1 "[0x61, 0x2f, 0x62, 0x2f, 0x63]"
      "0x2f"]
  by (simp add: NULL_def)

lemma strchrs_loop_eq:
  "cstr_at m a s \<Longrightarrow> uint ch < 128 \<Longrightarrow> strchrs_loop m a ch n = Some (n + count_list s ch)"
  by (induction s arbitrary: a n) (subst strchrs_loop.simps, auto simp: char_eq)+

end
