(* ===== verification/Kernel_Bitmap.thy ===== *)
theory Kernel_Bitmap
  imports CString
begin

text \<open>
  \<open>lib/kernel/bitmap.c\<close>. A bitmap is its length in bytes and the memory its \<open>bits\<close> pointer
  points to; that memory may go on past the bitmap, as the bitmaps of the memory pools do.
\<close>

unbundle bit_operations_syntax

record bitmap =
  btmp_bytes_len :: nat
  bits :: "u8 list"

definition BITMAP_MASK :: u8 where
  "BITMAP_MASK = 1"

subsection \<open>Operations\<close>

definition bitmap_init :: "bitmap \<Rightarrow> bitmap option" where
  "bitmap_init btmp = do {
     b \<leftarrow> memset_loop (bits btmp) 0 0 (btmp_bytes_len btmp);
     Some (btmp\<lparr>bits := b\<rparr>) }"

definition bitmap_scan_test :: "bitmap \<Rightarrow> nat \<Rightarrow> bool option" where
  "bitmap_scan_test btmp bit_idx =
     (let byte_idx = bit_idx div 8; bit_odd = bit_idx mod 8
      in do {
        b \<leftarrow> rd (bits btmp) bit_idx;
        Some (b AND push_bit bit_odd BITMAP_MASK \<noteq> 0) })"

text \<open>The three loops of \<open>bitmap_scan\<close>.\<close>

function scan_byte :: "bitmap \<Rightarrow> nat \<Rightarrow> nat option" where
  "scan_byte btmp idx_byte = do {
     b \<leftarrow> rd (bits btmp) idx_byte;
     if b = 0xff \<and> idx_byte < btmp_bytes_len btmp then scan_byte btmp (idx_byte + 1)
     else Some idx_byte }"
  by pat_completeness auto
termination
  by (relation "measure (\<lambda>(btmp, i). btmp_bytes_len btmp - i)") auto

declare scan_byte.simps [simp del]

function scan_bit :: "u8 \<Rightarrow> nat \<Rightarrow> nat" where
  "scan_bit b idx_bit =
     (if push_bit idx_bit BITMAP_MASK AND b \<noteq> 0 then scan_bit b (idx_bit + 1) else idx_bit)"
  by pat_completeness auto
termination
proof (relation "measure (\<lambda>(b, i). 8 - i)")
  fix b :: u8 and i :: nat
  assume nz: "push_bit i BITMAP_MASK AND b \<noteq> 0"
  have "i < 8"
  proof (rule ccontr)
    assume "\<not> i < 8"
    then have "push_bit i BITMAP_MASK = 0"
      by (simp add: BITMAP_MASK_def exp_eq_zero_iff)
    with nz show False by simp
  qed
  then show "((b, i + 1), (b, i)) \<in> measure (\<lambda>(b, i). 8 - i)" by auto
qed simp

declare scan_bit.simps [simp del]

fun scan_run :: "bitmap \<Rightarrow> nat \<Rightarrow> nat \<Rightarrow> nat \<Rightarrow> nat \<Rightarrow> int option" where
  "scan_run btmp cnt 0 next_bit count = Some (-1)"
| "scan_run btmp cnt (Suc bit_left) next_bit count = do {
     used \<leftarrow> bitmap_scan_test btmp next_bit;
     let count = (if \<not> used then count + 1 else 0);
     if count = cnt then Some (int next_bit - int cnt + 1)
     else scan_run btmp cnt bit_left (next_bit + 1) count }"

definition bitmap_scan :: "bitmap \<Rightarrow> nat \<Rightarrow> int option" where
  "bitmap_scan btmp cnt = do {
     idx_byte \<leftarrow> scan_byte btmp 0;
     ASSERT (idx_byte < btmp_bytes_len btmp);
     if idx_byte = btmp_bytes_len btmp then Some (-1)
     else do {
       b \<leftarrow> rd (bits btmp) idx_byte;
       let idx_bit = scan_bit b 0;
       let bit_idx_start = idx_byte * 8 + idx_bit;
       if cnt = 1 then Some (int bit_idx_start)
       else scan_run btmp cnt (btmp_bytes_len btmp * 8 - bit_idx_start) (bit_idx_start + 1) 1 } }"

definition bitmap_set :: "bitmap \<Rightarrow> nat \<Rightarrow> int \<Rightarrow> bitmap option" where
  "bitmap_set btmp bit_idx value = do {
     ASSERT (value = 0 \<or> value = 1);
     let byte_idx = bit_idx div 8;
     let bit_odd = bit_idx mod 8;
     b \<leftarrow> rd (bits btmp) byte_idx;
     new \<leftarrow> wr (bits btmp) byte_idx
       (if value \<noteq> 0 then b OR push_bit bit_odd BITMAP_MASK
        else b AND NOT (push_bit bit_odd BITMAP_MASK));
     Some (btmp\<lparr>bits := new\<rparr>) }"

definition bm_bit :: "bitmap \<Rightarrow> nat \<Rightarrow> bool" where
  "bm_bit btmp i = bit (bits btmp ! (i div 8)) (i mod 8)"

definition bm_size :: "bitmap \<Rightarrow> nat" where
  "bm_size btmp = 8 * btmp_bytes_len btmp"

definition bm_wf :: "bitmap \<Rightarrow> bool" where
  "bm_wf btmp \<longleftrightarrow> btmp_bytes_len btmp \<le> length (bits btmp)"

lemma mask_and_iff: "(push_bit i BITMAP_MASK AND b \<noteq> 0) = bit (b :: u8) i"
  by (simp add: BITMAP_MASK_def and_exp_eq_0_iff_not_bit and.commute)

lemma mask_and_iff': "(b AND push_bit i BITMAP_MASK \<noteq> 0) = bit (b :: u8) i"
  by (simp add: BITMAP_MASK_def and_exp_eq_0_iff_not_bit)

lemma scan_bit_spec:
  "\<not> bit b (scan_bit b i) \<and> i \<le> scan_bit b i \<and> (\<forall>j. i \<le> j \<and> j < scan_bit b i \<longrightarrow> bit b j)"
proof (induction b i rule: scan_bit.induct)
  case (1 b i)
  show ?case
  proof (cases "bit b i")
    case True
    then have eq: "scan_bit b i = scan_bit b (i + 1)"
      by (subst scan_bit.simps) (simp add: mask_and_iff)
    from True have "push_bit i BITMAP_MASK AND b \<noteq> 0" by (simp add: mask_and_iff)
    from 1 [OF this] True show ?thesis unfolding eq
      by (metis Suc_eq_plus1 Suc_leD not_less_eq_eq order_antisym_conv)
  next
    case False
    then have "scan_bit b i = i" by (subst scan_bit.simps) (simp add: mask_and_iff)
    with False show ?thesis by auto
  qed
qed

lemma all_bits_ff: "(\<forall>j < 8. bit (b :: u8) j) \<longleftrightarrow> b = 0xff"
proof
  assume a: "\<forall>j < 8. bit b j"
  show "b = 0xff"
  proof (rule bit_eqI)
    fix n assume "possible_bit TYPE(8 word) n"
    then have "n < 8" by simp
    with a have "bit b n" by blast
    moreover have "bit (0xff :: u8) n"
      using \<open>n < 8\<close> bit_mask_iff [where 'a = "8 word", of 8 n] by (simp add: mask_eq_exp_minus_1)
    ultimately show "bit b n = bit (0xff :: u8) n" by simp
  qed
next
  assume b: "b = 0xff"
  have "bit (0xff :: u8) n \<longleftrightarrow> n < 8" for n
    using bit_mask_iff [where 'a = "8 word", of 8 n] by (auto simp: mask_eq_exp_minus_1)
  with b show "\<forall>j < 8. bit b j" by blast
qed

lemma scan_byte_step:
  "i < length (bits btmp) \<Longrightarrow> scan_byte btmp i =
     (if bits btmp ! i = 0xff \<and> i < btmp_bytes_len btmp then scan_byte btmp (i + 1) else Some i)"
  by (subst scan_byte.simps) simp

lemma scan_byte_result:
  "scan_byte btmp i = Some k \<Longrightarrow>
   i \<le> k \<and> k < length (bits btmp) \<and> (bits btmp ! k \<noteq> 0xff \<or> btmp_bytes_len btmp \<le> k) \<and>
   (\<forall>j. i \<le> j \<and> j < k \<longrightarrow> bits btmp ! j = 0xff)"
proof (induction btmp i rule: scan_byte.induct)
  case (1 btmp i)
  from "1.prems" have i: "i < length (bits btmp)"
    by (subst (asm) scan_byte.simps) (auto simp: bind_conv rd_eq_Some)
  show ?case
  proof (cases "bits btmp ! i = 0xff \<and> i < btmp_bytes_len btmp")
    case True
    with i "1.prems" have "scan_byte btmp (i + 1) = Some k"
      by (subst (asm) scan_byte.simps) simp
    from "1.IH" [OF _ True [unfolded atomize_conj] this] i True show ?thesis
      by simp (metis Suc_leI le_neq_implies_less)
  next
    case False
    with i "1.prems" have "k = i" by (subst (asm) scan_byte.simps) (auto split: if_splits)
    with False i show ?thesis by auto
  qed
qed

lemma scan_byte_None:
  "scan_byte btmp i = None \<Longrightarrow> i \<le> j \<Longrightarrow> j < btmp_bytes_len btmp \<Longrightarrow> j < length (bits btmp) \<Longrightarrow>
   bits btmp ! j = 0xff"
proof (induction btmp i rule: scan_byte.induct)
  case (1 btmp i)
  then have i: "i < length (bits btmp)" by simp
  with "1.prems"(1) have c: "bits btmp ! i = 0xff \<and> i < btmp_bytes_len btmp"
    and n: "scan_byte btmp (i + 1) = None"
    by (auto simp: scan_byte_step split: if_splits)
  show ?case
  proof (cases "i = j")
    case False
    with "1.prems" have "i + 1 \<le> j" by simp
    from "1.IH" [OF rd_in [OF i] c n this "1.prems"(3,4)] show ?thesis .
  qed (use c in auto)
qed

lemma byte_bit_eq: "j < 8 \<Longrightarrow> bm_bit btmp (8 * i + j) = bit (bits btmp ! i) j"
  by (simp add: bm_bit_def)

lemma bm_bit_byte_ff:
  "bits btmp ! (i div 8) = 0xff \<Longrightarrow> bm_bit btmp i"
  using all_bits_ff [of "bits btmp ! (i div 8)"] unfolding bm_bit_def by (meson mod_less_divisor zero_less_numeral)

lemma bitmap_scan_one:
  assumes wf: "bm_wf btmp" and i: "i < bm_size btmp" and free: "\<not> bm_bit btmp i"
  shows "\<exists>k. bitmap_scan btmp 1 = Some (int k) \<and> k \<le> i \<and> \<not> bm_bit btmp k \<and> (\<forall>j < k. bm_bit btmp j)"
proof -
  have len: "i div 8 < btmp_bytes_len btmp" "i div 8 < length (bits btmp)"
    using i wf by (auto simp: bm_size_def bm_wf_def)
  have ne: "bits btmp ! (i div 8) \<noteq> 0xff" using free bm_bit_byte_ff by blast
  then obtain kb where kb: "scan_byte btmp 0 = Some kb"
    using scan_byte_None [of btmp 0 "i div 8"] len by (cases "scan_byte btmp 0") auto
  note r = scan_byte_result [OF kb]
  have kb_le: "kb \<le> i div 8" using r ne by (meson not_le zero_le)
  let ?b = "bits btmp ! kb"
  have b: "?b \<noteq> 0xff" using r kb_le len by auto
  let ?s = "scan_bit ?b 0"
  have s: "\<not> bit ?b ?s" "\<forall>j < ?s. bit ?b j" using scan_bit_spec [of ?b 0] by auto
  have s8: "?s < 8" using b s(2) all_bits_ff [of ?b] by (meson le_less_linear order_less_le_trans)
  let ?k = "8 * kb + ?s"
  have "bitmap_scan btmp 1 = Some (int ?k)"
    using kb kb_le len r by (simp add: bitmap_scan_def Let_def mult.commute)
  moreover have "\<not> bm_bit btmp ?k" using s s8 by (simp add: byte_bit_eq)
  moreover have below: "bm_bit btmp j" if "j < ?k" for j
  proof (cases "j div 8 < kb")
    case True
    then show ?thesis using r bm_bit_byte_ff by auto
  next
    case False
    with that s8 have d: "j div 8 = kb" by (simp add: div_nat_eqI less_mult_imp_div_less)
    then have "j mod 8 < ?s" using that by (metis add_less_cancel_left mult_div_mod_eq)
    with s(2) d show ?thesis by (simp add: bm_bit_def)
  qed
  moreover have "?k \<le> i" using below free by (meson not_le)
  ultimately show ?thesis by blast
qed

lemma set_bit_eq:
  "bit ((b :: u8) OR push_bit n BITMAP_MASK) j \<longleftrightarrow> bit b j \<or> (j = n \<and> n < 8)"
  "bit ((b :: u8) AND NOT (push_bit n BITMAP_MASK)) j \<longleftrightarrow> bit b j \<and> j \<noteq> n"
  by (auto simp: BITMAP_MASK_def bit_simps dest: bit_imp_le_length)

lemma bitmap_set_one:
  assumes i: "i div 8 < length (bits btmp)" and v: "v = 0 \<or> v = 1"
  shows "\<exists>b. bitmap_set btmp i v = Some (btmp\<lparr>bits := b\<rparr>) \<and> length b = length (bits btmp) \<and>
    (\<forall>j. j div 8 < length (bits btmp) \<longrightarrow>
       bm_bit (btmp\<lparr>bits := b\<rparr>) j = (if j = i then v = 1 else bm_bit btmp j))"
proof -
  let ?b0 = "bits btmp ! (i div 8)"
  let ?nb = "if v \<noteq> 0 then ?b0 OR push_bit (i mod 8) BITMAP_MASK
             else ?b0 AND NOT (push_bit (i mod 8) BITMAP_MASK)"
  let ?b = "(bits btmp)[i div 8 := ?nb]"
  have "bitmap_set btmp i v = Some (btmp\<lparr>bits := ?b\<rparr>)"
    using i v by (auto simp: bitmap_set_def Let_def)
  moreover have "bm_bit (btmp\<lparr>bits := ?b\<rparr>) j = (if j = i then v = 1 else bm_bit btmp j)"
    if "j div 8 < length (bits btmp)" for j
  proof (cases "j div 8 = i div 8")
    case True
    then have "j mod 8 = i mod 8 \<longleftrightarrow> j = i" by (metis mult_div_mod_eq)
    with True that v show ?thesis by (auto simp: bm_bit_def set_bit_eq)
  next
    case False
    then show ?thesis by (auto simp: bm_bit_def)
  qed
  ultimately show ?thesis by (intro exI [of _ ?b]) simp
qed

lemma bitmap_scan_test_reads:
  assumes "n < length (bits btmp)"
  shows "bitmap_scan_test btmp n = Some (bm_bit btmp (8 * n + n mod 8))"
  using assms by (simp add: bitmap_scan_test_def byte_bit_eq mask_and_iff')

subsection \<open>Properties\<close>

text \<open>
  C11: the way the kernel allocates one unit, \<open>bitmap_scan\<close> for one bit and then \<open>bitmap_set\<close> of the
  bit found: if some bit is free, the scan returns the free bit with the lowest index, the set
  makes exactly that bit used, and the bitmap keeps its length.
\<close>

theorem bitmap_alloc_first_fit:
  assumes "bm_wf btmp" and "i < bm_size btmp" and "\<not> bm_bit btmp i"
  shows "\<exists>k b. bitmap_scan btmp 1 = Some (int k) \<and> k \<le> i \<and> \<not> bm_bit btmp k \<and>
    (\<forall>j < k. bm_bit btmp j) \<and> bitmap_set btmp k 1 = Some b \<and> bm_size b = bm_size btmp \<and> bm_wf b \<and>
    (\<forall>j < bm_size btmp. bm_bit b j = (j = k \<or> bm_bit btmp j))"
proof -
  from bitmap_scan_one [OF assms] obtain k where k: "bitmap_scan btmp 1 = Some (int k)" "k \<le> i"
    "\<not> bm_bit btmp k" "\<forall>j < k. bm_bit btmp j" by blast
  have r: "j div 8 < length (bits btmp)" if "j < bm_size btmp" for j
    using that assms(1) by (auto simp: bm_size_def bm_wf_def)
  from bitmap_set_one [OF r, of k 1] k(2) assms(2) obtain b where
    b: "bitmap_set btmp k 1 = Some (btmp\<lparr>bits := b\<rparr>)" "length b = length (bits btmp)"
      "\<forall>j. j div 8 < length (bits btmp) \<longrightarrow> bm_bit (btmp\<lparr>bits := b\<rparr>) j = (if j = k then True else bm_bit btmp j)"
    by auto
  show ?thesis
    using k b r assms(1) by (intro exI [of _ k] exI [of _ "btmp\<lparr>bits := b\<rparr>"]) (auto simp: bm_size_def bm_wf_def)
qed

theorem bitmap_alloc_first_fit_witness:
  "\<exists>k b. bitmap_scan \<lparr>btmp_bytes_len = 2, bits = [0xff, 0xf7]\<rparr> 1 = Some (int k) \<and> k \<le> 11 \<and>
    bitmap_set \<lparr>btmp_bytes_len = 2, bits = [0xff, 0xf7]\<rparr> k 1 = Some b \<and> bm_wf b"
proof -
  let ?b = "\<lparr>btmp_bytes_len = 2, bits = [0xff, 0xf7]\<rparr>"
  have "bm_wf ?b" "11 < bm_size ?b" "\<not> bm_bit ?b 11" by code_simp+
  from bitmap_alloc_first_fit [OF this] show ?thesis by blast
qed

text \<open>
  A full bitmap stops the kernel. The \<open>return -1\<close> that the callers test for cannot be reached:
  whatever the count, the scan of a bitmap with no free bit fails its \<open>ASSERT\<close> (or reads
  past the bitmap's memory) and does not return.
\<close>

theorem bitmap_scan_full_stops:
  assumes wf: "bm_wf btmp" and full: "\<forall>i < bm_size btmp. bm_bit btmp i"
  shows "bitmap_scan btmp cnt = None"
proof (cases "scan_byte btmp 0")
  case (Some kb)
  note r = scan_byte_result [OF Some]
  have "\<not> kb < btmp_bytes_len btmp"
  proof
    assume k: "kb < btmp_bytes_len btmp"
    have "bit (bits btmp ! kb) j" if "j < 8" for j
      using full [rule_format, of "8 * kb + j"] k that by (simp add: byte_bit_eq bm_size_def)
    with r k all_bits_ff show False by auto
  qed
  with Some show ?thesis by (simp add: bitmap_scan_def)
qed (simp add: bitmap_scan_def)

theorem bitmap_scan_full_stops_witness:
  "bitmap_scan \<lparr>btmp_bytes_len = 1, bits = [0xff, 0]\<rparr> 1 = None"
  by (rule bitmap_scan_full_stops) (simp add: bm_wf_def, code_simp)

text \<open>
  a scan for more than one bit can return a run that contains a used bit, because
  \<open>bitmap_scan_test\<close> indexes the bytes of the bitmap with the number of a bit.
\<close>

theorem bitmap_scan_overlaps:
  "\<exists>btmp. bm_wf btmp \<and> bitmap_scan btmp 2 = Some 1 \<and> \<not> bm_bit btmp 1 \<and> bm_bit btmp 2"
proof -
  let ?b = "\<lparr>btmp_bytes_len = 4, bits = [5, 0, 0, 0 :: u8]\<rparr>"
  have "bitmap_scan ?b 2 = Some 1" by code_simp
  moreover have "bm_wf ?b \<and> \<not> bm_bit ?b 1 \<and> bm_bit ?b 2" by code_simp
  ultimately show ?thesis by blast
qed

end
