(* ===== verification/Kernel_Stdio.thy ===== *)
theory Kernel_Stdio
  imports CString
begin

text \<open>
  \<open>lib/stdio.c\<close> and the formatting half of \<open>lib/kernel/stdio-kernel.c\<close>. The output buffer, the
  format and the strings the arguments point to all lie in one memory; a \<open>va_list\<close> is the list
  of the 32-bit words not read yet, and reading past its end is \<open>None\<close>.
\<close>

type_synonym va_list = "u32 list"

definition va_arg :: "va_list \<Rightarrow> (u32 \<times> va_list) option" where
  "va_arg ap = (case ap of [] \<Rightarrow> None | x # ap \<Rightarrow> Some (x, ap))"

subsection \<open>The functions\<close>

text \<open>
  \<open>itoa\<close> recurses on the quotient, so for base 1 it does not return and for base 0 the division
  faults: both are \<open>None\<close>.
\<close>

definition digit_char :: "u32 \<Rightarrow> u8" where
  "digit_char m = (if m < 10 then ucast (m + 0x30) else ucast (m - 10 + 0x41))"

partial_function (option) itoa :: "u32 \<Rightarrow> addr \<Rightarrow> u8 \<Rightarrow> mem \<Rightarrow> (addr \<times> mem) option" where
  "itoa value buf_ptr base mem =
     (if base = 0 then None
      else let m = value mod ucast base; i = value div ucast base
        in Option.bind (if i \<noteq> 0 then itoa i buf_ptr base mem else Some (buf_ptr, mem))
          (\<lambda>(buf_ptr, mem). Option.bind (wr mem buf_ptr (digit_char m))
            (\<lambda>mem. Some (buf_ptr + 1, mem))))"

lemma itoa_length_pair: "itoa v p b m = Some y \<Longrightarrow> length (snd y) = length m"
proof (erule itoa.raw_induct [rotated, where P = "\<lambda>v p b m y. length (snd y) = length m"])
  fix f v p b m and y :: "addr \<times> mem"
  assume "\<And>v p b m y. f v p b m = Some y \<Longrightarrow> length (snd y) = length m"
    and "(if b = 0 then None
      else let k = v mod ucast b; i = v div ucast b
        in Option.bind (if i \<noteq> 0 then f i p b m else Some (p, m))
          (\<lambda>(p, m). Option.bind (wr m p (digit_char k)) (\<lambda>m. Some (p + 1, m)))) = Some y"
  then show "length (snd y) = length m"
    by (fastforce simp: bind_conv wr_eq_Some Let_def split: if_splits)
qed

lemma itoa_length: "itoa v p b m = Some (q, m') \<Longrightarrow> length m' = length m"
  by (drule itoa_length_pair) simp

lemma strcpy_loop_length: "strcpy_loop m d s = Some m' \<Longrightarrow> length m' = length m"
proof (induction m d s arbitrary: m' rule: strcpy_loop.induct)
  case (1 m d s)
  then show ?case
    by (subst (asm) (2) strcpy_loop.simps) (auto simp: bind_conv wr_eq_Some rd_eq_Some split: if_splits)
qed

lemma strcpy_length: "strcpy m d s = Some (r, m') \<Longrightarrow> length m' = length m"
  by (auto simp: strcpy_def bind_conv dest: strcpy_loop_length split: if_splits)

function vsprintf_loop :: "mem \<Rightarrow> addr \<Rightarrow> addr \<Rightarrow> u8 \<Rightarrow> va_list \<Rightarrow> (addr \<times> mem) option" where
  "vsprintf_loop m buf_ptr index_ptr index_char ap =
     (if index_char = 0 then Some (buf_ptr, m)
      else if index_char \<noteq> 0x25 \<comment> \<open>percent\<close> then do {
        m \<leftarrow> wr m buf_ptr index_char;
        c \<leftarrow> rd m (index_ptr + 1);
        vsprintf_loop m (buf_ptr + 1) (index_ptr + 1) c ap }
      else do {
        index_char \<leftarrow> rd m (index_ptr + 1);
        if index_char = 0x73 \<comment> \<open>s\<close> then do {
          (w, ap) \<leftarrow> va_arg ap;
          let arg_str = unat w;
          (r, m) \<leftarrow> strcpy m buf_ptr arg_str;
          n \<leftarrow> strlen m arg_str;
          c \<leftarrow> rd m (index_ptr + 2);
          vsprintf_loop m (buf_ptr + n) (index_ptr + 2) c ap }
        else if index_char = 0x63 \<comment> \<open>c\<close> then do {
          (w, ap) \<leftarrow> va_arg ap;
          m \<leftarrow> wr m buf_ptr (ucast w);
          c \<leftarrow> rd m (index_ptr + 2);
          vsprintf_loop m (buf_ptr + 1) (index_ptr + 2) c ap }
        else if index_char = 0x78 \<comment> \<open>x\<close> then do {
          (arg_int, ap) \<leftarrow> va_arg ap;
          (buf_ptr, m) \<leftarrow> itoa arg_int buf_ptr 16 m;
          c \<leftarrow> rd m (index_ptr + 2);
          vsprintf_loop m buf_ptr (index_ptr + 2) c ap }
        else if index_char = 0x64 \<comment> \<open>d\<close> then do {
          (arg_int, ap) \<leftarrow> va_arg ap;
          (buf_ptr, m, arg_int) \<leftarrow>
            (if sint arg_int < 0 then do {
               m \<leftarrow> wr m buf_ptr 0x2d;
               Some (buf_ptr + 1, m, 0 - arg_int) }
             else Some (buf_ptr, m, arg_int));
          (buf_ptr, m) \<leftarrow> itoa arg_int buf_ptr 10 m;
          c \<leftarrow> rd m (index_ptr + 2);
          vsprintf_loop m buf_ptr (index_ptr + 2) c ap }
        else vsprintf_loop m buf_ptr (index_ptr + 1) index_char ap })"
  by pat_completeness auto
termination
  by (relation "measure (\<lambda>(m, buf_ptr, index_ptr, index_char, ap). length m - index_ptr)")
    (auto simp: rd_eq_Some wr_eq_Some bind_conv dest!: strcpy_length itoa_length split: if_splits)

declare vsprintf_loop.simps [simp del]

definition vsprintf :: "mem \<Rightarrow> addr \<Rightarrow> addr \<Rightarrow> va_list \<Rightarrow> (nat \<times> mem) option" where
  "vsprintf m str format ap = do {
     index_char \<leftarrow> rd m format;
     (buf_ptr, m) \<leftarrow> vsprintf_loop m str format index_char ap;
     n \<leftarrow> strlen m str;
     Some (n, m) }"

definition sprintf :: "mem \<Rightarrow> addr \<Rightarrow> addr \<Rightarrow> va_list \<Rightarrow> (nat \<times> mem) option" where
  "sprintf m buf format args = vsprintf m buf format args"

text \<open>
  \<open>printf\<close> and \<open>printk\<close> format into a zeroed local buffer of 1024 bytes, here at address \<open>buf\<close>;
  the bytes they hand to \<open>write\<close> and \<open>console_put_str\<close> are the result.
\<close>

definition printf :: "mem \<Rightarrow> addr \<Rightarrow> addr \<Rightarrow> va_list \<Rightarrow> (u8 list \<times> mem) option" where
  "printf m buf format args = do {
     m \<leftarrow> memset_loop m buf 0 1024;
     (r, m) \<leftarrow> vsprintf m buf format args;
     n \<leftarrow> strlen m buf;
     Some (bytes_at buf n m, m) }"

subsection \<open>Numbers\<close>

function digits_of :: "nat \<Rightarrow> nat \<Rightarrow> u8 list" where
  "digits_of b n =
     (if n < b \<or> b < 2 then [digit_char (word_of_nat n)]
      else digits_of b (n div b) @ [digit_char (word_of_nat (n mod b))])"
  by pat_completeness auto
termination
  by (relation "measure snd") auto

declare digits_of.simps [simp del]

definition digit_value :: "u8 \<Rightarrow> nat" where
  "digit_value c = (if unat c < 0x41 then unat c - 0x30 else unat c - 0x41 + 10)"

definition number_of_digits :: "nat \<Rightarrow> u8 list \<Rightarrow> nat" where
  "number_of_digits b cs = foldl (\<lambda>a c. a * b + digit_value c) 0 cs"

lemma digit_char_value: "n < 36 \<Longrightarrow> digit_value (digit_char (word_of_nat n)) = n \<and> digit_char (word_of_nat n) \<noteq> 0"
proof -
  have "\<forall>n \<in> set [0..<36]. digit_value (digit_char (word_of_nat n)) = n \<and> digit_char (word_of_nat n) \<noteq> 0"
    by code_simp
  then show "n < 36 \<Longrightarrow> ?thesis" by simp
qed

lemma number_of_digits_of: "2 \<le> b \<Longrightarrow> b \<le> 36 \<Longrightarrow> number_of_digits b (digits_of b n) = n"
proof (induction b n rule: digits_of.induct)
  case (1 b n)
  show ?case
  proof (cases "n < b")
    case True
    then show ?thesis using 1 digit_char_value [of n]
      by (subst digits_of.simps) (simp add: number_of_digits_def)
  next
    case False
    have "n mod b < 36" using 1 mod_less_divisor [of b n] by linarith
    with False 1 show ?thesis using digit_char_value [of "n mod b"]
      by (subst digits_of.simps) (simp add: number_of_digits_def)
  qed
qed

lemma digits_of_nonzero: "2 \<le> b \<Longrightarrow> b \<le> 36 \<Longrightarrow> 0 \<notin> set (digits_of b n)"
proof (induction b n rule: digits_of.induct)
  case (1 b n)
  have "n mod b < 36" using 1 mod_less_divisor [of b n] by linarith
  with 1 show ?case using digit_char_value [of "n mod b"] digit_char_value [of n]
    by (subst digits_of.simps) auto
qed

lemma digits_of_length: "2 \<le> b \<Longrightarrow> n < b ^ k \<Longrightarrow> 0 < k \<Longrightarrow> length (digits_of b n) \<le> k"
proof (induction k arbitrary: n)
  case (Suc k)
  show ?case
  proof (cases "n < b")
    case True
    then show ?thesis by (subst digits_of.simps) simp
  next
    case False
    then have "0 < k" using Suc.prems by (cases k) auto
    moreover have "n div b < b ^ k" using Suc.prems
      by (simp add: less_mult_imp_div_less mult.commute)
    ultimately have "length (digits_of b (n div b)) \<le> k" using Suc by auto
    with False Suc.prems show ?thesis by (subst digits_of.simps) simp
  qed
qed simp

lemma unat_ucast_8_32 [simp]: "unat (ucast (b :: u8) :: u32) = unat b"
  using unsigned_less [of b, where 'a = nat]
  by (simp add: unsigned_ucast_eq take_bit_nat_eq_self_iff)

lemma itoa_eq:
  assumes "2 \<le> unat b"
  shows "p + length (digits_of (unat b) (unat v)) \<le> length m \<Longrightarrow>
    itoa v p b m = Some (p + length (digits_of (unat b) (unat v)), put_bytes m p (digits_of (unat b) (unat v)))"
proof (induction "unat v" arbitrary: v rule: less_induct)
  case less
  let ?b = "ucast b :: u32"
  have b0: "b \<noteq> 0" using assms by auto
  have md: "v mod ?b = word_of_nat (unat v mod unat b)"
    by (rule word_unat_eq_iff [THEN iffD2])
      (use unsigned_less [of v, where 'a = nat] in
        \<open>simp add: unat_mod_distrib unat_of_nat order.strict_trans1 [OF mod_less_eq_dividend]\<close>)
  have dv: "unat (v div ?b) = unat v div unat b"
    by (simp add: unat_div_distrib)
  show ?case
  proof (cases "unat v < unat b")
    case True
    then have "v div ?b = 0" by (simp add: dv unat_eq_zero flip: unat_eq_zero)
    with less.prems True b0 md show ?thesis
      by (subst itoa.simps) (simp add: Let_def digits_of.simps [of "unat b" "unat v"] put_bytes_single)
  next
    case False
    let ?d = "digits_of (unat b) (unat v div unat b)"
    have nz: "v div ?b \<noteq> 0" using False assms
      by (metis dv div_eq_0_iff unat_0 not_numeral_le_zero)
    have lt: "unat (v div ?b) < unat v" using False assms by (simp add: dv)
    have D: "digits_of (unat b) (unat v) = ?d @ [digit_char (word_of_nat (unat v mod unat b))]"
      using False assms by (simp add: digits_of.simps [of "unat b" "unat v"])
    have "itoa (v div ?b) p b m = Some (p + length ?d, put_bytes m p ?d)"
      using less.hyps [OF lt] less.prems D by (simp add: dv)
    with less.prems nz b0 md D show ?thesis
      by (subst itoa.simps)
        (simp add: Let_def put_bytes_adj [of p ?d, symmetric] put_bytes_single [symmetric])
  qed
qed

text \<open>
  For every 32-bit value and every base from 2 to 36, \<open>itoa\<close> returns, having written at the
  buffer pointer between 1 and 32 digits that denote the value in that base, and nothing else; the
  pointer then points after the last digit. No zero is among the bytes written.
\<close>

theorem itoa_correct:
  assumes "2 \<le> unat b" and "unat b \<le> 36" and "p + 32 \<le> length m"
  shows "\<exists>ds. itoa v p b m = Some (p + length ds, put_bytes m p ds) \<and>
    number_of_digits (unat b) ds = unat v \<and> 0 < length ds \<and> length ds \<le> 32 \<and> 0 \<notin> set ds"
proof -
  let ?ds = "digits_of (unat b) (unat v)"
  have "unat v < unat b ^ 32"
  proof -
    have "unat v < 2 ^ 32" using unsigned_less [of v, where 'a = nat] by simp
    also have "\<dots> \<le> unat b ^ 32" using assms(1) by (rule power_mono) simp
    finally show ?thesis .
  qed
  then have "length ?ds \<le> 32" using assms by (intro digits_of_length) auto
  moreover have "0 < length ?ds" by (subst digits_of.simps) auto
  ultimately show ?thesis
    using assms itoa_eq [of b p v m] number_of_digits_of digits_of_nonzero by auto
qed

theorem itoa_correct_witness:
  "\<exists>ds. itoa 0xbeef 2 16 (replicate 40 7) = Some (2 + length ds, put_bytes (replicate 40 7) 2 ds) \<and>
    number_of_digits 16 ds = 0xbeef"
  using itoa_correct [of 16 2 "replicate 40 7" "0xbeef"] by auto

subsection \<open>Formatted output\<close>

text \<open>
  The bytes a format and its arguments stand for. The strings of \<open>%s\<close> lie below address
  \<open>lim\<close>, where the output buffer starts. A conversion the code does not know is dropped with
  its percent sign only: the letter after it is then an ordinary character.
\<close>

definition arg_cstr :: "mem \<Rightarrow> nat \<Rightarrow> u32 \<Rightarrow> u8 list option" where
  "arg_cstr m lim w =
     (let s = takeWhile (\<lambda>c. c \<noteq> 0) (drop (unat w) m)
      in if w \<noteq> 0 \<and> unat w + length s < lim then Some s else None)"

fun fmt_out :: "mem \<Rightarrow> nat \<Rightarrow> u8 list \<Rightarrow> va_list \<Rightarrow> u8 list option" where
  "fmt_out m lim [] ap = Some []"
| "fmt_out m lim (c # F) ap =
     (if c \<noteq> 0x25 then map_option (Cons c) (fmt_out m lim F ap)
      else case F of [] \<Rightarrow> Some [] | d # G \<Rightarrow>
        if d = 0x73 then
          (case ap of [] \<Rightarrow> None | w # ap \<Rightarrow>
            (case arg_cstr m lim w of None \<Rightarrow> None
             | Some s \<Rightarrow> map_option (append s) (fmt_out m lim G ap)))
        else if d = 0x63 then
          (case ap of [] \<Rightarrow> None | w # ap \<Rightarrow> map_option (Cons (ucast w)) (fmt_out m lim G ap))
        else if d = 0x78 then
          (case ap of [] \<Rightarrow> None
           | w # ap \<Rightarrow> map_option (append (digits_of 16 (unat w))) (fmt_out m lim G ap))
        else if d = 0x64 then
          (case ap of [] \<Rightarrow> None
           | w # ap \<Rightarrow> map_option (append (if sint w < 0 then 0x2d # digits_of 10 (unat (- w))
                                    else digits_of 10 (unat w))) (fmt_out m lim G ap))
        else fmt_out m lim F ap)"

text \<open>Memory \<open>m'\<close> is \<open>m\<close> with \<open>O\<close> written at \<open>p\<close>, and perhaps a zero after it.\<close>

definition wrote :: "mem \<Rightarrow> addr \<Rightarrow> u8 list \<Rightarrow> mem \<Rightarrow> bool" where
  "wrote m p out m' \<longleftrightarrow> length m' = length m \<and> p + length out < length m \<and>
     (\<forall>i < length m. i \<noteq> p + length out \<longrightarrow>
        m' ! i = (if p \<le> i \<and> i < p + length out then out ! (i - p) else m ! i)) \<and>
     (m' ! (p + length out) = m ! (p + length out) \<or> m' ! (p + length out) = 0)"

lemma wrote_Nil: "p < length m \<Longrightarrow> wrote m p [] m"
  by (simp add: wrote_def)

lemma wrote_put: "p + length out < length m \<Longrightarrow> wrote m p out (put_bytes m p out)"
  by (auto simp: wrote_def nth_put_bytes)

lemma wrote_put0: "p + length out < length m \<Longrightarrow> wrote m p out (put_bytes m p (out @ [0]))"
  by (auto simp: wrote_def nth_put_bytes nth_append)

lemma wrote_update: "p + 1 < length m \<Longrightarrow> wrote m p [c] (m[p := c])"
  using wrote_put [of p "[c]" m] by (simp add: put_bytes_single)

lemma wrote_trans:
  assumes a: "wrote m p xs m1" and b: "wrote m1 (p + length xs) ys m2"
  shows "wrote m p (xs @ ys) m2"
  unfolding wrote_def
proof (intro conjI allI impI)
  fix i assume i: "i < length m" "i \<noteq> p + length (xs @ ys)"
  then show "m2 ! i = (if p \<le> i \<and> i < p + length (xs @ ys) then (xs @ ys) ! (i - p) else m ! i)"
    using a b unfolding wrote_def
    by (cases "i = p + length xs") (auto simp: nth_append)
next
  show "m2 ! (p + length (xs @ ys)) = m ! (p + length (xs @ ys)) \<or> m2 ! (p + length (xs @ ys)) = 0"
    using a b unfolding wrote_def by (cases ys) (auto simp: add.assoc)
qed (use a b in \<open>auto simp: wrote_def\<close>)

lemma wrote_below: "wrote m p xs m' \<Longrightarrow> i < p \<Longrightarrow> m' ! i = m ! i"
  by (auto simp: wrote_def)

lemma arg_cstr_at:
  assumes "arg_cstr m lim w = Some s" and "lim \<le> length m"
  shows "w \<noteq> 0 \<and> cstr_at m (unat w) s \<and> unat w + length s < lim"
proof -
  let ?t = "takeWhile (\<lambda>c. c \<noteq> 0) (drop (unat w) m)"
  from assms have s: "s = ?t" "w \<noteq> 0" "unat w + length ?t < lim"
    by (auto simp: arg_cstr_def Let_def split: if_splits)
  have "length ?t < length (drop (unat w) m)" using s(3) assms(2) by simp
  then have "drop (unat w) m ! length ?t = 0" using nth_length_takeWhile by fastforce
  then have "m ! (unat w + length ?t) = 0" using s(3) assms(2) by simp
  moreover have "take (length ?t) (drop (unat w) m) = ?t"
    by (metis takeWhile_eq_take)
  moreover have "0 \<notin> set ?t" by (auto dest: set_takeWhileD)
  ultimately show ?thesis using s assms(2) by (simp add: cstr_at_def bytes_at_def)
qed

text \<open>
  The loop has come to \<open>index_ptr\<close> with the bytes \<open>xs\<close> of this round written: the rest of the
  format adds the rest of the output.
\<close>

definition vs_done :: "mem \<Rightarrow> nat \<Rightarrow> u8 list \<Rightarrow> va_list \<Rightarrow> bool" where
  "vs_done m0 lim F ap \<longleftrightarrow> (\<forall>m p f out. fmt_out m0 lim F ap = Some out \<and> length m = length m0 \<and>
     (\<forall>i < lim. m ! i = m0 ! i) \<and> lim \<le> p \<and> lim \<le> length m0 \<and> cstr_at m0 f F \<and>
     f + length F < lim \<and> p + length out < length m \<longrightarrow>
     (\<exists>m'. vsprintf_loop m p f (m ! f) ap = Some (p + length out, m') \<and> wrote m p out m'))"

lemma vs_doneD:
  "vs_done m0 lim F ap \<Longrightarrow> fmt_out m0 lim F ap = Some out \<Longrightarrow> length m = length m0 \<Longrightarrow>
   \<forall>i < lim. m ! i = m0 ! i \<Longrightarrow> lim \<le> p \<Longrightarrow> lim \<le> length m0 \<Longrightarrow> cstr_at m0 f F \<Longrightarrow>
   f + length F < lim \<Longrightarrow> p + length out < length m \<Longrightarrow>
   \<exists>m'. vsprintf_loop m p f (m ! f) ap = Some (p + length out, m') \<and> wrote m p out m'"
  unfolding vs_done_def by blast

lemma vs_step:
  assumes dn: "vs_done m0 lim G ap" and out: "fmt_out m0 lim G ap = Some rest"
    and w: "wrote m p xs m1" and base: "length m = length m0" "\<forall>i < lim. m ! i = m0 ! i"
      "lim \<le> p" "lim \<le> length m0" "cstr_at m0 g G" "g + length G < lim"
      "p + length xs + length rest < length m"
  shows "\<exists>m'. vsprintf_loop m1 (p + length xs) g (m1 ! g) ap = Some (p + length (xs @ rest), m') \<and>
    wrote m p (xs @ rest) m'"
proof -
  have m1: "length m1 = length m0" "\<forall>i < lim. m1 ! i = m0 ! i"
    using w base wrote_below [OF w] by (auto simp: wrote_def)
  have "lim \<le> p + length xs" "p + length xs + length rest < length m1"
    using base m1 by auto
  from vs_doneD [OF dn out m1 this(1) base(4,5,6) this(2)]
  obtain m' where "vsprintf_loop m1 (p + length xs) g (m1 ! g) ap =
      Some (p + length xs + length rest, m')" "wrote m1 (p + length xs) rest m'" by blast
  with wrote_trans [OF w] show ?thesis by (auto simp: add.assoc)
qed

lemma vs_loop_0: "vsprintf_loop m p f 0 ap = Some (p, m)"
  by (subst vsprintf_loop.simps) simp

lemma vs_done_Nil: "vs_done m0 lim [] ap"
  unfolding vs_done_def
proof (intro allI impI, elim conjE)
  fix m p f out
  assume "fmt_out m0 lim [] ap = Some out" "length m = length m0" "\<forall>i < lim. m ! i = m0 ! i"
    "cstr_at m0 f []" "f + length [] < lim" "p + length out < length m"
  then have "out = []" "m ! f = 0" "p < length m" by auto
  then show "\<exists>m'. vsprintf_loop m p f (m ! f) ap = Some (p + length out, m') \<and> wrote m p out m'"
    using wrote_Nil [of p m] by (simp add: vs_loop_0)
qed

lemma vs_done_Cons:
  assumes IH: "\<And>G ap. length G \<le> length F \<Longrightarrow> vs_done m0 lim G ap"
  shows "vs_done m0 lim (c # F) ap"
  unfolding vs_done_def
  proof (intro allI impI, elim conjE)
    fix m p f out
    assume fo: "fmt_out m0 lim (c # F) ap = Some out" and len: "length m = length m0"
      and ag: "\<forall>i < lim. m ! i = m0 ! i" and lp: "lim \<le> p" and ll: "lim \<le> length m0"
      and cs: "cstr_at m0 f (c # F)" and fl: "f + length (c # F) < lim" and po: "p + length out < length m"
    note base = len ag lp ll
    have c: "m ! f = c" "c \<noteq> 0" and f1: "cstr_at m0 (f + 1) F" "f + 1 + length F < lim" "f + 1 < length m"
      using cs fl ag ll len by auto
    show "\<exists>m'. vsprintf_loop m p f (m ! f) ap = Some (p + length out, m') \<and> wrote m p out m'"
    proof (cases "c = 0x25")
      case False
      with fo obtain rest where rest: "fmt_out m0 lim F ap = Some rest" "out = c # rest" by auto
      have w: "wrote m p [c] (m[p := c])" using po rest by (intro wrote_update) auto
      from vs_step [OF IH [OF order_refl] rest(1) w base f1(1,2)] po rest
      obtain m' where "vsprintf_loop (m[p := c]) (p + 1) (f + 1) (m[p := c] ! (f + 1)) ap = Some (p + length out, m')"
        "wrote m p out m'" by auto
      then show ?thesis using False c f1 po rest by (subst vsprintf_loop.simps) auto
    next
      case True
      show ?thesis
      proof (cases F)
        case Nil
        then have "out = []" "m ! (f + 1) = 0" using fo True f1 ag by auto
        then show ?thesis using c True f1 po
          by (subst vsprintf_loop.simps) (auto simp: vs_loop_0 intro: wrote_Nil)
      next
        case F: (Cons d G)
        have d: "m ! (f + 1) = d" "d \<noteq> 0" and f2: "cstr_at m0 (f + 2) G" "f + 2 + length G < lim" "f + 2 < length m"
          using f1 F ag len ll by (auto dest: cstr_at_len)
        have GF: "length G \<le> length F" using F by simp
        note step = vs_step [OF IH [OF GF] _ _ base f2(1,2)]
        have rd: "rd m (f + 1) = Some d" using d f1 by simp
        have rd2: "rd m1 (f + 2) = Some (m1 ! (f + 2))" if "wrote m p xs m1" for m1 xs
          using that f2 by (simp add: wrote_def)
        consider "d = 0x73" | "d = 0x63" | "d = 0x78" | "d = 0x64" | "d \<noteq> 0x73 \<and> d \<noteq> 0x63 \<and> d \<noteq> 0x78 \<and> d \<noteq> 0x64"
          by blast
        then show ?thesis
        proof cases
          case 1
          then obtain w ap1 s rest where ap: "ap = w # ap1" and s: "arg_cstr m0 lim w = Some s"
            and rest: "fmt_out m0 lim G ap1 = Some rest" and out: "out = s @ rest"
            using fo True F by (auto split: list.splits option.splits)
          let ?m1 = "put_bytes m p (s @ [0])"
          have w0: "w \<noteq> 0" "unat w + length s < lim" and sm0: "cstr_at m0 (unat w) s"
            using arg_cstr_at [OF s ll] by auto
          have sm: "cstr_at m (unat w) s" by (rule cstr_at_cong [OF sm0 len]) (use ag w0 in auto)
          have cpy: "strcpy m p (unat w) = Some (p, ?m1)" and s1: "cstr_at ?m1 (unat w) s"
            using strcpy_eq [OF sm, of p] cstr_at_put_bytes [OF sm, of p "s @ [0]"] w0 lp po out
            by (auto simp: NULL_def unat_eq_0)
          have "strlen ?m1 (unat w) = Some (length s)"
            using strlen_eq [OF s1] w0 by (auto simp: NULL_def unat_eq_0)
          moreover have wr: "wrote m p s ?m1" using po out by (intro wrote_put0) simp
          ultimately show ?thesis
            using step [OF rest wr] True c rd 1 ap cpy rd2 [OF wr] po out
            by (subst vsprintf_loop.simps) (auto simp: va_arg_def add.assoc)
        next
          case 2
          then obtain w ap1 rest where ap: "ap = w # ap1"
            and rest: "fmt_out m0 lim G ap1 = Some rest" and out: "out = ucast w # rest"
            using fo True F by (auto split: list.splits)
          have wr: "wrote m p [ucast w] (m[p := ucast w])" using po out by (intro wrote_update) simp
          then show ?thesis
            using step [OF rest wr] True c rd 2 ap rd2 [OF wr] po out
            by (subst vsprintf_loop.simps) (auto simp: va_arg_def)
        next
          case 3
          then obtain w ap1 rest where ap: "ap = w # ap1"
            and rest: "fmt_out m0 lim G ap1 = Some rest" and out: "out = digits_of 16 (unat w) @ rest"
            using fo True F by (auto split: list.splits)
          let ?ds = "digits_of 16 (unat w)"
          have it: "itoa w p 16 m = Some (p + length ?ds, put_bytes m p ?ds)"
            using itoa_eq [of 16 p w m] po out by simp
          have wr: "wrote m p ?ds (put_bytes m p ?ds)" using po out by (intro wrote_put) simp
          then show ?thesis
            using step [OF rest wr] True c rd 3 ap it rd2 [OF wr] po out
            by (subst vsprintf_loop.simps) (auto simp: va_arg_def)
        next
          case 4
          then obtain w ap1 rest where ap: "ap = w # ap1" and rest: "fmt_out m0 lim G ap1 = Some rest"
            and out: "out = (if sint w < 0 then 0x2d # digits_of 10 (unat (- w)) else digits_of 10 (unat w)) @ rest"
            using fo True F by (auto split: list.splits)
          show ?thesis
          proof (cases "sint w < 0")
            case False
            let ?ds = "digits_of 10 (unat w)"
            have it: "itoa w p 10 m = Some (p + length ?ds, put_bytes m p ?ds)"
              using itoa_eq [of 10 p w m] po out False by simp
            have wr: "wrote m p ?ds (put_bytes m p ?ds)" using po out False by (intro wrote_put) simp
            then show ?thesis
              using step [OF rest wr] True c rd 4 ap it rd2 [OF wr] po out False
              by (subst vsprintf_loop.simps) (auto simp: va_arg_def)
          next
            case neg: True
            let ?ds = "digits_of 10 (unat (- w))"
            let ?m1 = "put_bytes (m[p := 0x2d]) (p + 1) ?ds"
            have it: "itoa (- w) (p + 1) 10 (m[p := 0x2d]) = Some (p + 1 + length ?ds, ?m1)"
              using itoa_eq [of 10 "p + 1" "- w" "m[p := 0x2d]"] po out neg by simp
            have wr: "wrote m p (0x2d # ?ds) ?m1"
              using wrote_put [of p "0x2d # ?ds" m] po out neg by (simp add: put_bytes_Cons)
            then show ?thesis
              using step [OF rest wr] True c rd 4 ap it rd2 [OF wr] po out neg
              by (subst vsprintf_loop.simps) (auto simp: va_arg_def)
          qed
        next
          case 5
          then have "fmt_out m0 lim F ap = Some out" using fo True F by simp
          from vs_step [OF IH [OF order_refl] this wrote_Nil base f1(1,2)] po
          obtain m' where "vsprintf_loop m p (f + 1) (m ! (f + 1)) ap = Some (p + length out, m')" "wrote m p out m'"
            by auto
          then show ?thesis using 5 True c rd d by (subst vsprintf_loop.simps) auto
        qed
      qed
    qed
  qed


lemma vs_done_all: "vs_done m lim F ap"
proof (induction F arbitrary: ap rule: length_induct)
  case (1 F)
  show ?case
  proof (cases F)
    case (Cons c G)
    then show ?thesis using 1 by (auto intro!: vs_done_Cons simp: less_Suc_eq_le)
  qed (simp add: vs_done_Nil)
qed

text \<open>
  C15: \<open>vsprintf\<close> writes the expansion of the format (\<open>%s\<close>, \<open>%c\<close>, \<open>%x\<close>, \<open>%d\<close>) and returns its length,
  provided the byte after the place of the last character was already zero; nothing below the
  buffer changes.
\<close>

theorem vsprintf_correct:
  assumes "fmt_out m str F ap = Some out" and "0 \<notin> set out" and "cstr_at m f F"
    and "f + length F < str" and "str + length out < length m"
    and "m ! (str + length out) = 0"
  shows "\<exists>m'. vsprintf m str f ap = Some (length out, m') \<and> cstr_at m' str out \<and>
    (\<forall>i < str. m' ! i = m ! i)"
proof -
  have "vs_done m str F ap" by (rule vs_done_all)
  with assms obtain m' where l: "vsprintf_loop m str f (m ! f) ap = Some (str + length out, m')"
    and w: "wrote m str out m'"
    using vs_doneD [of m str F ap out m str f] by auto
  have "bytes_at str (length out) m' = out"
    by (rule nth_equalityI) (use w assms in \<open>auto simp: wrote_def\<close>)
  then have c: "cstr_at m' str out" using w assms by (auto simp: wrote_def cstr_at_def)
  have "f < length m" using assms by (auto dest: cstr_at_len)
  moreover have "str \<noteq> NULL" using assms by (auto simp: NULL_def)
  ultimately show ?thesis
    using l c strlen_eq [OF c] wrote_below [OF w] by (auto simp: vsprintf_def)
qed

theorem vsprintf_correct_witness:
  "\<exists>m'. vsprintf ([0, 0x78, 0x3d, 0x25, 0x64, 0] @ replicate 10 0) 6 1 [42] = Some (4, m') \<and>
    cstr_at m' 6 [0x78, 0x3d, 0x34, 0x32]"
proof -
  let ?m = "[0, 0x78, 0x3d, 0x25, 0x64, 0] @ replicate 10 (0 :: u8)"
  let ?out = "[0x78, 0x3d, 0x34, 0x32] :: u8 list"
  have "fmt_out ?m 6 [0x78, 0x3d, 0x25, 0x64] [42] = Some ?out" by code_simp
  moreover have "0 \<notin> set ?out" "cstr_at ?m 1 [0x78, 0x3d, 0x25, 0x64]" by code_simp+
  ultimately show ?thesis
    using vsprintf_correct [of ?m 6 "[0x78, 0x3d, 0x25, 0x64]" "[42]" ?out 1] by (auto simp: nth_append)
qed

text \<open>
  \<open>vsprintf\<close> writes no terminating zero: on a buffer that is not zeroed beforehand it returns
  too long a length, and the string in the buffer runs on into the old bytes.
\<close>

theorem vsprintf_not_terminated:
  "fmt_out [0, 0x61, 0, 0x7a, 0x7a, 0] 3 [0x61] [] = Some [0x61] \<and>
   vsprintf [0, 0x61, 0, 0x7a, 0x7a, 0] 3 1 [] = Some (2, [0, 0x61, 0, 0x61, 0x7a, 0])"
  by code_simp

end
