(* ===== verification/Kernel_Interrupt.thy ===== *)
theory Kernel_Interrupt
  imports OS_Prelude
begin

text \<open>
  \<open>kernel/interrupt.c\<close>: the interrupt flag of \<open>eflags\<close>, the interrupt descriptor table and the
  table of registered handlers. A function pointer is its 32-bit address; the entry points that
  \<open>kernel/kernel.S\<close> defines (\<open>intr_entry_table\<close>, \<open>syscall_handler\<close>) are parameters.
\<close>

unbundle bit_operations_syntax

subsection \<open>The interrupt flag\<close>

record cpu =
  eflags :: u32

datatype intr_status = INTR_OFF | INTR_ON

definition EFLAGS_IF :: u32 where
  "EFLAGS_IF = 0x200"

text \<open>The instructions \<open>sti\<close> and \<open>cli\<close> set and clear the IF bit.\<close>

definition sti :: "'z cpu_scheme \<Rightarrow> 'z cpu_scheme" where
  "sti s = s\<lparr>eflags := eflags s OR EFLAGS_IF\<rparr>"

definition cli :: "'z cpu_scheme \<Rightarrow> 'z cpu_scheme" where
  "cli s = s\<lparr>eflags := eflags s AND NOT EFLAGS_IF\<rparr>"

definition intr_get_status :: "'z cpu_scheme \<Rightarrow> intr_status" where
  "intr_get_status s = (if EFLAGS_IF AND eflags s \<noteq> 0 then INTR_ON else INTR_OFF)"

definition intr_enable :: "'z cpu_scheme \<Rightarrow> intr_status \<times> 'z cpu_scheme" where
  "intr_enable s =
     (if INTR_ON = intr_get_status s then (INTR_ON, s) else (INTR_OFF, sti s))"

definition intr_disable :: "'z cpu_scheme \<Rightarrow> intr_status \<times> 'z cpu_scheme" where
  "intr_disable s =
     (if INTR_ON = intr_get_status s then (INTR_ON, cli s) else (INTR_OFF, s))"

definition intr_set_status :: "intr_status \<Rightarrow> 'z cpu_scheme \<Rightarrow> intr_status \<times> 'z cpu_scheme" where
  "intr_set_status status s = (if status = INTR_ON then intr_enable s else intr_disable s)"

lemma EFLAGS_IF_exp: "EFLAGS_IF = push_bit 9 1"
  by (simp add: EFLAGS_IF_def)

lemma EFLAGS_IF_bit: "bit EFLAGS_IF n \<longleftrightarrow> n = 9"
  by (auto simp only: EFLAGS_IF_exp bit_push_bit_iff bit_1_iff possible_bit_word) simp_all

lemma if_mask: "(EFLAGS_IF AND x \<noteq> 0) = bit x 9"
proof -
  have "EFLAGS_IF = 2 ^ 9" by (simp add: EFLAGS_IF_def)
  then show ?thesis by (metis and.commute and_exp_eq_0_iff_not_bit)
qed

lemma eflags_sti_cli:
  assumes "bit x 9"
  shows "x AND NOT EFLAGS_IF OR EFLAGS_IF = x"
  using assms by (intro bit_eqI) (auto simp: bit_simps EFLAGS_IF_bit)

lemma status_simps [simp]:
  "intr_get_status (sti s) = INTR_ON"
  "intr_get_status (cli s) = INTR_OFF"
  unfolding intr_get_status_def if_mask
  by (simp_all add: sti_def cli_def bit_simps EFLAGS_IF_bit)

lemma status_update:
  "eflags s' = eflags s \<Longrightarrow> intr_get_status s' = intr_get_status s"
  by (simp add: intr_get_status_def)

lemma intr_disable_status [simp]:
  "fst (intr_disable s) = intr_get_status s"
  "intr_get_status (snd (intr_disable s)) = INTR_OFF"
  by (cases "intr_get_status s"; simp add: intr_disable_def; fail)+

text \<open>
  What a critical section does: interrupts are off inside, and putting the saved status back
  gives the flags the caller had, however the section changed the rest of the state.
\<close>

lemma critical_section_eflags:
  assumes "intr_disable s = (old, s1)" and "eflags s2 = eflags s1"
  shows "eflags (snd (intr_set_status old s2)) = eflags s"
proof (cases "intr_get_status s")
  case INTR_OFF
  with assms have "old = INTR_OFF" "s1 = s" by (auto simp: intr_disable_def)
  with assms INTR_OFF show ?thesis
    by (simp add: intr_set_status_def intr_disable_def status_update [of s2 s])
next
  case INTR_ON
  with assms have o: "old = INTR_ON" "s1 = cli s" by (auto simp: intr_disable_def)
  have b: "bit (eflags s) 9" using INTR_ON by (simp add: intr_get_status_def if_mask split: if_splits)
  have "intr_get_status s2 = INTR_OFF" using assms o by (metis status_simps(2) status_update)
  with assms o b show ?thesis
    by (simp add: intr_set_status_def intr_enable_def sti_def cli_def eflags_sti_cli)
qed

lemma set_status_flags: "snd (intr_set_status o' s) = s\<lparr>eflags := eflags (snd (intr_set_status o' s))\<rparr>"
  by (simp add: intr_set_status_def intr_enable_def intr_disable_def sti_def cli_def)

lemma disable_flags: "snd (intr_disable s) = s\<lparr>eflags := eflags (snd (intr_disable s))\<rparr>"
  by (simp add: intr_disable_def cli_def)

text \<open>So a section \<open>f\<close> that leaves the flags alone is, with its brackets, just \<open>f\<close>.\<close>

lemma critical_section:
  assumes "intr_disable s = (old, s1)"
    and "\<And>x e. f (x\<lparr>eflags := e\<rparr>) = (f x)\<lparr>eflags := e\<rparr>" and "\<And>x. eflags (f x) = eflags x"
  shows "snd (intr_set_status old (f s1)) = f s"
proof -
  have "snd (intr_set_status old (f s1)) = (f s1)\<lparr>eflags := eflags s\<rparr>"
    by (subst set_status_flags) (simp add: critical_section_eflags [OF assms(1)] assms(3))
  also have "\<dots> = f (s1\<lparr>eflags := eflags s\<rparr>)" by (simp add: assms(2))
  also have "s1\<lparr>eflags := eflags s\<rparr> = s"
  proof -
    obtain x where "s1 = s\<lparr>eflags := x\<rparr>" using disable_flags [of s] assms(1) by (metis snd_conv)
    then show ?thesis by simp
  qed
  finally show ?thesis .
qed

subsection \<open>Gates\<close>

record gate_desc =
  func_offset_low_word :: u16
  selector :: u16
  dcount :: u8
  attribute :: u8
  func_offset_high_word :: u16

definition SELECTOR_K_CODE :: u16 where
  "SELECTOR_K_CODE = 8"

definition IDT_DESC_ATTR_DPL0 :: u8 where
  "IDT_DESC_ATTR_DPL0 = push_bit 7 1 + push_bit 5 0 + 0xE"

definition IDT_DESC_ATTR_DPL3 :: u8 where
  "IDT_DESC_ATTR_DPL3 = push_bit 7 1 + push_bit 5 3 + 0xE"

definition make_idt_desc :: "u8 \<Rightarrow> u32 \<Rightarrow> gate_desc" where
  "make_idt_desc attr function =
     \<lparr>func_offset_low_word = ucast (function AND 0x0000ffff),
      selector = SELECTOR_K_CODE,
      dcount = 0,
      attribute = attr,
      func_offset_high_word = ucast (drop_bit 16 (function AND 0xffff0000))\<rparr>"

text \<open>How the processor reads a gate: the entry address and the privilege that may call it.\<close>

definition gate_target :: "gate_desc \<Rightarrow> u32" where
  "gate_target g = push_bit 16 (ucast (func_offset_high_word g)) OR ucast (func_offset_low_word g)"

definition gate_dpl :: "gate_desc \<Rightarrow> u8" where
  "gate_dpl g = drop_bit 5 (attribute g) AND 3"

lemma bit_ffff: "bit (0xffff :: u32) n \<longleftrightarrow> n < 16"
  using bit_mask_iff [where 'a = "32 word", of 16 n] by (auto simp: mask_eq_exp_minus_1)

lemma bit_ffff0000: "bit (0xffff0000 :: u32) n \<longleftrightarrow> 16 \<le> n \<and> n < 32"
proof -
  have "(0xffff0000 :: u32) = push_bit 16 0xffff" by simp
  then show ?thesis by (auto simp only: bit_push_bit_iff bit_ffff possible_bit_word) auto
qed

lemma gate_target_make [simp]: "gate_target (make_idt_desc attr f) = f"
  unfolding gate_target_def make_idt_desc_def gate_desc.simps
  by (rule bit_eqI, simp only: bit_or_iff bit_push_bit_iff bit_unsigned_iff bit_and_iff
      bit_drop_bit_eq bit_ffff bit_ffff0000 possible_bit_word comp_def) auto

lemma gate_dpl_make [simp]:
  "gate_dpl (make_idt_desc IDT_DESC_ATTR_DPL0 f) = 0"
  "gate_dpl (make_idt_desc IDT_DESC_ATTR_DPL3 f) = 3"
  by (simp_all add: gate_dpl_def make_idt_desc_def IDT_DESC_ATTR_DPL0_def IDT_DESC_ATTR_DPL3_def)

subsection \<open>The tables\<close>

text \<open>
  \<open>idt\<close> holds the gates, \<open>idt_table\<close> the handlers the entry stubs call, \<open>intr_name\<close> the names
  of the exceptions; \<open>ports\<close> is the sequence of bytes written with \<open>outb\<close> and \<open>idtr\<close> the
  register \<open>lidt\<close> loads.
\<close>

record intr_state = cpu +
  idt :: "gate_desc list"
  idt_table :: "u32 list"
  intr_name :: "string list"
  ports :: "(u16 \<times> u8) list"
  idtr :: "64 word"

definition IDT_DESC_CNT :: nat where
  "IDT_DESC_CNT = 0x81"

definition outb :: "u16 \<Rightarrow> u8 \<Rightarrow> 'z intr_state_scheme \<Rightarrow> 'z intr_state_scheme" where
  "outb port data s = s\<lparr>ports := ports s @ [(port, data)]\<rparr>"

definition pic_init :: "'z intr_state_scheme \<Rightarrow> 'z intr_state_scheme" where
  "pic_init s =
     (let s = outb 0x20 0x11 s; s = outb 0x21 0x20 s; s = outb 0x21 0x04 s; s = outb 0x21 0x01 s;
          s = outb 0xa0 0x11 s; s = outb 0xa1 0x28 s; s = outb 0xa1 0x02 s; s = outb 0xa1 0x01 s;
          s = outb 0x21 0xf8 s; s = outb 0xa1 0xbf s
      in s)"

text \<open>The loops \<open>for (i = 0; i < IDT_DESC_CNT; i ++)\<close>, with the iterations left as argument.\<close>

fun idt_desc_loop :: "u32 list \<Rightarrow> nat \<Rightarrow> nat \<Rightarrow> gate_desc list \<Rightarrow> gate_desc list option" where
  "idt_desc_loop intr_entry_table i 0 tab = Some tab"
| "idt_desc_loop intr_entry_table i (Suc k) tab = do {
     f \<leftarrow> rd intr_entry_table i;
     tab \<leftarrow> wr tab i (make_idt_desc IDT_DESC_ATTR_DPL0 f);
     idt_desc_loop intr_entry_table (i + 1) k tab }"

definition idt_desc_init ::
  "u32 list \<Rightarrow> u32 \<Rightarrow> 'z intr_state_scheme \<Rightarrow> 'z intr_state_scheme option" where
  "idt_desc_init intr_entry_table syscall_handler s = do {
     tab \<leftarrow> idt_desc_loop intr_entry_table 0 IDT_DESC_CNT (idt s);
     tab \<leftarrow> wr tab (IDT_DESC_CNT - 1) (make_idt_desc IDT_DESC_ATTR_DPL3 syscall_handler);
     Some (s\<lparr>idt := tab\<rparr>) }"

fun exception_loop :: "u32 \<Rightarrow> nat \<Rightarrow> nat \<Rightarrow> u32 list \<Rightarrow> string list \<Rightarrow> (u32 list \<times> string list) option" where
  "exception_loop general i 0 tab names = Some (tab, names)"
| "exception_loop general i (Suc k) tab names = do {
     tab \<leftarrow> wr tab i general;
     names \<leftarrow> wr names i ''unknow'';
     exception_loop general (i + 1) k tab names }"

definition exception_names :: "(nat \<times> string) list" where
  "exception_names =
     [(0, ''#DE Divide Error''), (1, ''#DB Debug Exception''), (2, ''NMI Interrupt''),
      (3, ''#BP Breakpoint Exception''), (4, ''#OF Overflow Exception''),
      (5, ''#BR BOUND Range Exceeded Exception''), (6, ''#UD Invalid Opcode Exception''),
      (7, ''#NM Device Not Available Exception''), (8, ''#DF Double Fault Exception''),
      (9, ''Coprocessor Segment Overrun''), (10, ''#TS Invalid TSS Exception''),
      (11, ''#NP Segment Not Present''), (12, ''#SS Stack Fault Exception''),
      (13, ''#GP General Protection Exception''), (14, ''#PF Page-Fault Exception''),
      (16, ''#MF x87 FPU Floating-Point Error''), (17, ''#AC Alignment Check Exception''),
      (18, ''#MC Machine-Check Exception''), (19, ''#XF SIMD Floating-Point Exception'')]"

definition exception_init :: "u32 \<Rightarrow> 'z intr_state_scheme \<Rightarrow> 'z intr_state_scheme option" where
  "exception_init general_intr_handler s = do {
     (tab, names) \<leftarrow> exception_loop general_intr_handler 0 IDT_DESC_CNT (idt_table s) (intr_name s);
     Some (s\<lparr>idt_table := tab,
             intr_name := foldl (\<lambda>ns (i, n). ns[i := n]) names exception_names\<rparr>) }"

definition register_handler :: "u8 \<Rightarrow> u32 \<Rightarrow> 'z intr_state_scheme \<Rightarrow> 'z intr_state_scheme option" where
  "register_handler vector_no function s = do {
     tab \<leftarrow> wr (idt_table s) (unat vector_no) function;
     Some (s\<lparr>idt_table := tab\<rparr>) }"

text \<open>\<open>lidt\<close> takes the size of the table less one and its address, here \<open>idt_addr\<close>.\<close>

definition idt_init ::
  "u32 list \<Rightarrow> u32 \<Rightarrow> u32 \<Rightarrow> u32 \<Rightarrow> 'z intr_state_scheme \<Rightarrow> 'z intr_state_scheme option" where
  "idt_init intr_entry_table syscall_handler general_intr_handler idt_addr s = do {
     s \<leftarrow> idt_desc_init intr_entry_table syscall_handler s;
     s \<leftarrow> exception_init general_intr_handler s;
     let s = pic_init s;
     Some (s\<lparr>idtr := (word_of_nat (8 * IDT_DESC_CNT - 1)) OR push_bit 16 (ucast idt_addr)\<rparr>) }"

text \<open>
  An exception nobody registered a handler for stops the machine; the spurious interrupts of
  IRQ 7 and IRQ 15 are dropped.
\<close>

definition general_intr_handler :: "u8 \<Rightarrow> 's \<Rightarrow> 's option" where
  "general_intr_handler vec_nr s = (if vec_nr = 0x27 \<or> vec_nr = 0x2f then Some s else None)"

lemma idt_desc_loop_eq:
  "i + k \<le> length es \<Longrightarrow> i + k \<le> length tab \<Longrightarrow>
   \<exists>t. idt_desc_loop es i k tab = Some t \<and> length t = length tab \<and>
     (\<forall>j < length tab. t ! j = (if i \<le> j \<and> j < i + k then make_idt_desc IDT_DESC_ATTR_DPL0 (es ! j) else tab ! j))"
proof (induction k arbitrary: i tab)
  case (Suc k)
  let ?t = "tab[i := make_idt_desc IDT_DESC_ATTR_DPL0 (es ! i)]"
  from Suc.IH [of "i + 1" ?t] Suc.prems obtain t where
    "idt_desc_loop es (i + 1) k ?t = Some t" "length t = length tab"
    "\<forall>j < length tab. t ! j = (if i + 1 \<le> j \<and> j < i + 1 + k then make_idt_desc IDT_DESC_ATTR_DPL0 (es ! j) else ?t ! j)"
    by auto
  with Suc.prems show ?case by (auto simp: nth_list_update)
qed auto

lemma exception_loop_eq:
  "i + k \<le> length tab \<Longrightarrow> i + k \<le> length names \<Longrightarrow>
   \<exists>t ns. exception_loop g i k tab names = Some (t, ns) \<and> length t = length tab \<and> length ns = length names \<and>
     (\<forall>j < length tab. t ! j = (if i \<le> j \<and> j < i + k then g else tab ! j))"
proof (induction k arbitrary: i tab names)
  case (Suc k)
  let ?t = "tab[i := g]" and ?n = "names[i := ''unknow'']"
  from Suc.IH [of "i + 1" ?t ?n] Suc.prems obtain t ns where
    "exception_loop g (i + 1) k ?t ?n = Some (t, ns)" "length t = length tab" "length ns = length names"
    "\<forall>j < length tab. t ! j = (if i + 1 \<le> j \<and> j < i + 1 + k then g else ?t ! j)"
    by auto
  with Suc.prems show ?case by (auto simp: nth_list_update)
qed auto

text \<open>
  \<open>idt_init\<close> makes every vector's gate lead to its entry stub, callable by the kernel only,
  except vector 0x80, which leads to the system-call entry and may be called from user mode;
  every vector's handler is the general one, and the interrupt flag is not touched.
\<close>

theorem idt_init_installs:
  assumes "length es = IDT_DESC_CNT" and "length (idt s) = IDT_DESC_CNT"
    and "length (idt_table s) = IDT_DESC_CNT" and "length (intr_name s) = IDT_DESC_CNT"
    and "v < IDT_DESC_CNT"
  shows "\<exists>s'. idt_init es sysc gen a s = Some s' \<and> eflags s' = eflags s \<and>
    gate_target (idt s' ! v) = (if v = 0x80 then sysc else es ! v) \<and>
    gate_dpl (idt s' ! v) = (if v = 0x80 then 3 else 0) \<and> idt_table s' ! v = gen"
proof -
  from idt_desc_loop_eq [of 0 IDT_DESC_CNT es "idt s"] assms obtain t where
    t: "idt_desc_loop es 0 IDT_DESC_CNT (idt s) = Some t" "length t = IDT_DESC_CNT"
    "\<forall>j < IDT_DESC_CNT. t ! j = make_idt_desc IDT_DESC_ATTR_DPL0 (es ! j)" by auto
  from exception_loop_eq [of 0 IDT_DESC_CNT "idt_table s" "intr_name s" gen] assms obtain tb ns where
    x: "exception_loop gen 0 IDT_DESC_CNT (idt_table s) (intr_name s) = Some (tb, ns)"
    "\<forall>j < IDT_DESC_CNT. tb ! j = gen" by auto
  have c: "IDT_DESC_CNT = 0x81" by (simp add: IDT_DESC_CNT_def)
  show ?thesis
    using t x assms(5)
    by (auto simp: idt_init_def idt_desc_init_def exception_init_def pic_init_def outb_def
        Let_def c nth_list_update)
qed

theorem idt_init_installs_witness:
  "\<exists>s'. idt_init (map word_of_nat [0..<0x81]) 7 9 0xc0001000
      \<lparr>eflags = 2, idt = replicate 0x81 (make_idt_desc 0 0), idt_table = replicate 0x81 0,
       intr_name = replicate 0x81 [], ports = [], idtr = 0\<rparr> = Some s' \<and>
    gate_target (idt s' ! 0x80) = 7 \<and> gate_dpl (idt s' ! 0x80) = 3"
  using idt_init_installs [of "map word_of_nat [0..<0x81]"
      "\<lparr>eflags = 2, idt = replicate 0x81 (make_idt_desc 0 0), idt_table = replicate 0x81 0,
       intr_name = replicate 0x81 [], ports = [], idtr = 0\<rparr>" "0x80" 7 9 "0xc0001000"]
  by (auto simp: IDT_DESC_CNT_def)

text \<open>
  \<open>register_handler\<close> replaces the handler of its vector and no other, and does not touch the
  gates; there is no check of the vector, so one past the table is a write outside it.
\<close>

theorem register_handler_only_its_vector:
  assumes "length (idt_table s) = IDT_DESC_CNT"
  shows "if unat v < IDT_DESC_CNT
    then \<exists>s'. register_handler v f s = Some s' \<and> idt_table s' ! unat v = f \<and>
           (\<forall>u < IDT_DESC_CNT. u \<noteq> unat v \<longrightarrow> idt_table s' ! u = idt_table s ! u) \<and> idt s' = idt s
    else register_handler v f s = None"
  using assms by (auto simp: register_handler_def)

theorem register_handler_only_its_vector_witness:
  "\<exists>s'. register_handler 0x20 7
      \<lparr>eflags = 2, idt = [], idt_table = replicate 0x81 0, intr_name = [], ports = [], idtr = 0\<rparr> = Some s' \<and>
    idt_table s' ! 0x20 = 7"
  using register_handler_only_its_vector [of
      "\<lparr>eflags = 2, idt = [], idt_table = replicate 0x81 0, intr_name = [], ports = [], idtr = 0\<rparr>" "0x20" 7]
  by (auto simp: IDT_DESC_CNT_def)

end
