(* ===== verification/Kernel_List.thy ===== *)
theory Kernel_List
  imports CString Kernel_Interrupt
begin

text \<open>
  \<open>lib/kernel/list.c\<close>: doubly linked lists of nodes embedded in other structures. The state is the
  processor's flags and a heap of nodes; reading or writing a node that is not there (a NULL or
  a dangling pointer) is \<open>None\<close>. A list is named by the address of its \<open>struct list\<close>, whose
  \<open>head\<close> node is at that address and whose \<open>tail\<close> node follows it.

  A walk along \<open>next\<close> pointers need not end, so the loops are partial functions.
\<close>

record list_elem =
  prev :: addr
  "next" :: addr

record node_heap = cpu +
  nodes :: "addr \<rightharpoonup> list_elem"

definition list_head :: "addr \<Rightarrow> addr" where
  "list_head plist = plist"

definition list_tail :: "addr \<Rightarrow> addr" where
  "list_tail plist = plist + 8"

definition set_prev :: "addr \<Rightarrow> addr \<Rightarrow> 'z node_heap_scheme \<Rightarrow> 'z node_heap_scheme option" where
  "set_prev a v s = do {
     n \<leftarrow> nodes s a;
     Some (s\<lparr>nodes := (nodes s)(a \<mapsto> n\<lparr>prev := v\<rparr>)\<rparr>) }"

definition set_next :: "addr \<Rightarrow> addr \<Rightarrow> 'z node_heap_scheme \<Rightarrow> 'z node_heap_scheme option" where
  "set_next a v s = do {
     n \<leftarrow> nodes s a;
     Some (s\<lparr>nodes := (nodes s)(a \<mapsto> n\<lparr>next := v\<rparr>)\<rparr>) }"

definition get_prev :: "addr \<Rightarrow> 'z node_heap_scheme \<Rightarrow> addr option" where
  "get_prev a s = map_option prev (nodes s a)"

definition get_next :: "addr \<Rightarrow> 'z node_heap_scheme \<Rightarrow> addr option" where
  "get_next a s = map_option next (nodes s a)"

subsection \<open>Operations\<close>

definition list_init :: "addr \<Rightarrow> 'z node_heap_scheme \<Rightarrow> 'z node_heap_scheme option" where
  "list_init l s = do {
     s \<leftarrow> set_prev (list_head l) NULL s;
     s \<leftarrow> set_next (list_head l) (list_tail l) s;
     s \<leftarrow> set_prev (list_tail l) (list_head l) s;
     set_next (list_tail l) NULL s }"

definition list_insert_before :: "addr \<Rightarrow> addr \<Rightarrow> 'z node_heap_scheme \<Rightarrow> 'z node_heap_scheme option" where
  "list_insert_before before elem s = do {
     let (old_status, s) = intr_disable s;
     p \<leftarrow> get_prev before s;
     s \<leftarrow> set_next p elem s;
     p \<leftarrow> get_prev before s;
     s \<leftarrow> set_prev elem p s;
     s \<leftarrow> set_next elem before s;
     s \<leftarrow> set_prev before elem s;
     Some (snd (intr_set_status old_status s)) }"

definition list_push :: "addr \<Rightarrow> addr \<Rightarrow> 'z node_heap_scheme \<Rightarrow> 'z node_heap_scheme option" where
  "list_push plist elem s = do {
     first \<leftarrow> get_next (list_head plist) s;
     list_insert_before first elem s }"

definition list_append :: "addr \<Rightarrow> addr \<Rightarrow> 'z node_heap_scheme \<Rightarrow> 'z node_heap_scheme option" where
  "list_append plist elem s = list_insert_before (list_tail plist) elem s"

definition list_remove :: "addr \<Rightarrow> 'z node_heap_scheme \<Rightarrow> 'z node_heap_scheme option" where
  "list_remove pelem s = do {
     let (old_status, s) = intr_disable s;
     p \<leftarrow> get_prev pelem s;
     n \<leftarrow> get_next pelem s;
     s \<leftarrow> set_next p n s;
     n \<leftarrow> get_next pelem s;
     p \<leftarrow> get_prev pelem s;
     s \<leftarrow> set_prev n p s;
     Some (snd (intr_set_status old_status s)) }"

definition list_pop :: "addr \<Rightarrow> 'z node_heap_scheme \<Rightarrow> (addr \<times> 'z node_heap_scheme) option" where
  "list_pop plist s = do {
     elem \<leftarrow> get_next (list_head plist) s;
     s \<leftarrow> list_remove elem s;
     Some (elem, s) }"

partial_function (option) elem_find_loop ::
  "addr \<Rightarrow> addr \<Rightarrow> addr \<Rightarrow> 'z node_heap_scheme \<Rightarrow> bool option" where
  "elem_find_loop plist obj_elem elem s =
     (if elem = list_tail plist then Some False
      else if elem = obj_elem then Some True
      else Option.bind (get_next elem s) (\<lambda>n. elem_find_loop plist obj_elem n s))"

definition elem_find :: "addr \<Rightarrow> addr \<Rightarrow> 'z node_heap_scheme \<Rightarrow> bool option" where
  "elem_find plist obj_elem s = do {
     elem \<leftarrow> get_next (list_head plist) s;
     elem_find_loop plist obj_elem elem s }"

definition list_empty :: "addr \<Rightarrow> 'z node_heap_scheme \<Rightarrow> bool option" where
  "list_empty plist s = do {
     n \<leftarrow> get_next (list_head plist) s;
     Some (n = list_tail plist) }"

text \<open>
  The callback of \<open>list_traversal\<close> may change the state (\<open>mount_partition\<close> does), and may itself
  not return.
\<close>

partial_function (option) traversal_loop ::
  "addr \<Rightarrow> (addr \<Rightarrow> int \<Rightarrow> 'z node_heap_scheme \<Rightarrow> (bool \<times> 'z node_heap_scheme) option) \<Rightarrow> int \<Rightarrow>
   addr \<Rightarrow> 'z node_heap_scheme \<Rightarrow> (addr \<times> 'z node_heap_scheme) option" where
  "traversal_loop plist func arg elem s =
     (if elem = list_tail plist then Some (NULL, s)
      else Option.bind (func elem arg s) (\<lambda>(hit, s).
        if hit then Some (elem, s)
        else Option.bind (get_next elem s) (\<lambda>n. traversal_loop plist func arg n s)))"

definition list_traversal ::
  "addr \<Rightarrow> (addr \<Rightarrow> int \<Rightarrow> 'z node_heap_scheme \<Rightarrow> (bool \<times> 'z node_heap_scheme) option) \<Rightarrow> int \<Rightarrow>
   'z node_heap_scheme \<Rightarrow> (addr \<times> 'z node_heap_scheme) option" where
  "list_traversal plist func arg s = do {
     elem \<leftarrow> get_next (list_head plist) s;
     empty \<leftarrow> list_empty plist s;
     if empty then Some (NULL, s) else traversal_loop plist func arg elem s }"

partial_function (option) list_len_loop ::
  "addr \<Rightarrow> addr \<Rightarrow> u32 \<Rightarrow> 'z node_heap_scheme \<Rightarrow> u32 option" where
  "list_len_loop plist elem len s =
     (if elem = list_tail plist then Some len
      else Option.bind (get_next elem s) (\<lambda>n. list_len_loop plist n (len + 1) s))"

definition list_len :: "addr \<Rightarrow> 'z node_heap_scheme \<Rightarrow> u32 option" where
  "list_len plist s = do {
     elem \<leftarrow> get_next (list_head plist) s;
     list_len_loop plist elem 0 s }"

subsection \<open>The contract of a queue of elements\<close>

text \<open>Operations repeated: the elements of a list appended one by one, and \<open>n\<close> elements popped.\<close>

fun append_all :: "('e \<Rightarrow> 's \<Rightarrow> 's option) \<Rightarrow> 'e list \<Rightarrow> 's \<Rightarrow> 's option" where
  "append_all op [] s = Some s"
| "append_all op (e # es) s = Option.bind (op e s) (append_all op es)"

fun pop_n :: "('s \<Rightarrow> ('e \<times> 's) option) \<Rightarrow> nat \<Rightarrow> 's \<Rightarrow> ('e list \<times> 's) option" where
  "pop_n op 0 s = Some ([], s)"
| "pop_n op (Suc n) s = Option.bind (op s)
     (\<lambda>(e, s). map_option (\<lambda>(es, s). (e # es, s)) (pop_n op n s))"

text \<open>
  What the kernel relies on when it keeps elements in a list: \<open>rep s xs\<close> says that state \<open>s\<close>
  holds the elements \<open>xs\<close> in this order, \<open>fresh s e\<close> that \<open>e\<close> is an element that may be linked in.
\<close>

locale elem_queue =
  fixes rep :: "'s \<Rightarrow> 'e list \<Rightarrow> bool"
    and fresh :: "'s \<Rightarrow> 'e \<Rightarrow> bool"
    and append_op :: "'e \<Rightarrow> 's \<Rightarrow> 's option"
    and push_op :: "'e \<Rightarrow> 's \<Rightarrow> 's option"
    and pop_op :: "'s \<Rightarrow> ('e \<times> 's) option"
    and find_op :: "'e \<Rightarrow> 's \<Rightarrow> bool option"
    and empty_op :: "'s \<Rightarrow> bool option"
  assumes append_law: "rep s xs \<Longrightarrow> fresh s e \<Longrightarrow> e \<notin> set xs \<Longrightarrow>
      \<exists>s'. append_op e s = Some s' \<and> rep s' (xs @ [e]) \<and> fresh s' = fresh s"
    and push_law: "rep s xs \<Longrightarrow> fresh s e \<Longrightarrow> e \<notin> set xs \<Longrightarrow>
      \<exists>s'. push_op e s = Some s' \<and> rep s' (e # xs) \<and> fresh s' = fresh s"
    and pop_law: "rep s (e # xs) \<Longrightarrow> \<exists>s'. pop_op s = Some (e, s') \<and> rep s' xs \<and> fresh s' = fresh s"
    and find_law: "rep s xs \<Longrightarrow> fresh s e \<Longrightarrow> find_op e s = Some (e \<in> set xs)"
    and empty_law: "rep s xs \<Longrightarrow> empty_op s = Some (xs = [])"
    and rep_distinct: "rep s xs \<Longrightarrow> distinct xs"
    and rep_fresh: "rep s xs \<Longrightarrow> e \<in> set xs \<Longrightarrow> fresh s e"
begin

text \<open>\<open>ASSERT(!elem_find(l, e)); list_append(l, e)\<close>, as the scheduler does before every insertion.\<close>

definition checked_append :: "'e \<Rightarrow> 's \<Rightarrow> 's option" where
  "checked_append e s = do {
     b \<leftarrow> find_op e s;
     ASSERT (\<not> b);
     append_op e s }"

lemma checked_append_ok:
  "rep s xs \<Longrightarrow> fresh s e \<Longrightarrow>
   (if e \<in> set xs then checked_append e s = None
    else \<exists>s'. checked_append e s = Some s' \<and> rep s' (xs @ [e]) \<and> fresh s' = fresh s)"
  using append_law [of s xs e] by (auto simp: checked_append_def find_law)

lemma append_all_rep:
  "rep s xs \<Longrightarrow> distinct (xs @ es) \<Longrightarrow> \<forall>e \<in> set es. fresh s e \<Longrightarrow>
   \<exists>s'. append_all append_op es s = Some s' \<and> rep s' (xs @ es) \<and> fresh s' = fresh s"
proof (induction es arbitrary: s xs)
  case (Cons e es)
  then obtain s1 where s1: "append_op e s = Some s1" "rep s1 (xs @ [e])" "fresh s1 = fresh s"
    using append_law [of s xs e] by auto
  from Cons.IH [OF s1(2)] Cons.prems s1 show ?case by auto
qed auto

lemma pop_n_rep:
  "rep s (es @ ys) \<Longrightarrow> \<exists>s'. pop_n pop_op (length es) s = Some (es, s') \<and> rep s' ys \<and> fresh s' = fresh s"
proof (induction es arbitrary: s)
  case (Cons e es)
  then obtain s1 where s1: "pop_op s = Some (e, s1)" "rep s1 (es @ ys)" "fresh s1 = fresh s"
    using pop_law [of s e "es @ ys"] by auto
  from Cons.IH [OF s1(2)] s1 show ?case by auto
qed auto

text \<open>First in, first out: elements appended come out in their order, after those already there.\<close>

lemma fifo:
  assumes "rep s xs" and "distinct (xs @ es)" and "\<forall>e \<in> set es. fresh s e"
  shows "\<exists>s1 s2. append_all append_op es s = Some s1 \<and> pop_n pop_op (length (xs @ es)) s1 = Some (xs @ es, s2) \<and> rep s2 []"
proof -
  obtain s1 where s1: "append_all append_op es s = Some s1" "rep s1 (xs @ es)"
    using append_all_rep [OF assms] by blast
  then obtain s2 where "pop_n pop_op (length (xs @ es)) s1 = Some (xs @ es, s2)" "rep s2 []"
    using pop_n_rep [of s1 "xs @ es" "[]"] by auto
  with s1 show ?thesis by blast
qed

lemma push_pop:
  "rep s xs \<Longrightarrow> fresh s e \<Longrightarrow> e \<notin> set xs \<Longrightarrow>
   \<exists>s1 s2. push_op e s = Some s1 \<and> pop_op s1 = Some (e, s2) \<and> rep s2 xs"
  by (metis push_law pop_law)

end

text \<open>A queue that also gives up an element from any place, as the free lists of the heap do.\<close>

locale elem_list = elem_queue +
  fixes remove_op :: "'b \<Rightarrow> 'a \<Rightarrow> 'a option"
  assumes remove_law: "rep s (xs @ e # ys) \<Longrightarrow>
      \<exists>s'. remove_op e s = Some s' \<and> rep s' (xs @ ys) \<and> fresh s' = fresh s"
begin

lemma remove_member:
  assumes "rep s xs" and "e \<in> set xs"
  shows "\<exists>s'. remove_op e s = Some s' \<and> rep s' (remove1 e xs) \<and> fresh s' = fresh s"
proof -
  obtain ys zs where xs: "xs = ys @ e # zs" "e \<notin> set ys" using assms(2) by (meson split_list_first)
  then have "remove1 e xs = ys @ zs" by (simp add: remove1_append)
  with remove_law [of s ys e zs] assms(1) xs show ?thesis by auto
qed

lemma append_remove:
  assumes "rep s xs" and "fresh s e" and "e \<notin> set xs"
  shows "\<exists>s1 s2. append_op e s = Some s1 \<and> remove_op e s1 = Some s2 \<and> rep s2 xs"
  using append_law [OF assms] remove_law [of _ xs e "[]"] by fastforce

end

text \<open>
  The same contract met by plain lists. The components that keep their elements in a kernel list
  are modelled over these; the pointer lists below meet it too, so nothing they rely on is lost.
\<close>

definition q_append :: "'e \<Rightarrow> 'e list \<Rightarrow> 'e list option" where
  "q_append e xs = Some (xs @ [e])"

definition q_push :: "'e \<Rightarrow> 'e list \<Rightarrow> 'e list option" where
  "q_push e xs = Some (e # xs)"

definition q_pop :: "'e list \<Rightarrow> ('e \<times> 'e list) option" where
  "q_pop xs = (case xs of [] \<Rightarrow> None | e # xs \<Rightarrow> Some (e, xs))"

definition q_remove :: "'e \<Rightarrow> 'e list \<Rightarrow> 'e list option" where
  "q_remove e xs = (if e \<in> set xs then Some (remove1 e xs) else None)"

definition q_find :: "'e \<Rightarrow> 'e list \<Rightarrow> bool option" where
  "q_find e xs = Some (e \<in> set xs)"

definition q_empty :: "'e list \<Rightarrow> bool option" where
  "q_empty xs = Some (xs = [])"

lemmas q_defs = q_append_def q_push_def q_pop_def q_remove_def q_find_def q_empty_def

interpretation lq: elem_list "\<lambda>s xs. s = xs \<and> distinct xs" "\<lambda>s e. True" q_append q_push q_pop q_find
    q_empty q_remove
  by unfold_locales (auto simp: q_defs remove1_append)

subsection \<open>Well-formed lists\<close>

text \<open>
  Two neighbours of a list point at each other. \<open>dll s l xs\<close> says that the nodes of the list at
  \<open>l\<close> are, in order, \<open>xs\<close>, between the two sentinels.
\<close>

definition link :: "(addr \<rightharpoonup> list_elem) \<Rightarrow> addr \<Rightarrow> addr \<Rightarrow> bool" where
  "link h a b = (map_option next (h a) = Some b \<and> map_option prev (h b) = Some a)"

definition chain :: "addr \<Rightarrow> addr list \<Rightarrow> addr list" where
  "chain l xs = list_head l # xs @ [list_tail l]"

definition dll :: "'z node_heap_scheme \<Rightarrow> addr \<Rightarrow> addr list \<Rightarrow> bool" where
  "dll s l xs = (distinct (chain l xs) \<and> successively (link (nodes s)) (chain l xs))"

definition linkable :: "addr \<Rightarrow> 'z node_heap_scheme \<Rightarrow> addr \<Rightarrow> bool" where
  "linkable l s e = (e \<in> dom (nodes s) \<and> e \<noteq> list_head l \<and> e \<noteq> list_tail l)"

lemma chain_simps [simp]: "chain l xs \<noteq> []" "hd (chain l xs) = list_head l" "last (chain l xs) = list_tail l"
  by (simp_all add: chain_def)

lemma linkD:
  assumes "link h a b"
  obtains n m where "h a = Some n" "h b = Some m" "next n = b" "prev m = a"
  using assms by (auto simp: link_def)

text \<open>A link survives when \<open>next\<close> of its left end and \<open>prev\<close> of its right end do.\<close>

lemma successively_keep:
  assumes "successively P xs"
    and "\<And>x y. x \<in> set (butlast xs) \<Longrightarrow> y \<in> set (tl xs) \<Longrightarrow> P x y \<Longrightarrow> Q x y"
  shows "successively Q xs"
  using assms
proof (induction xs)
  case (Cons x xs)
  show ?case
  proof (cases xs)
    case (Cons y ys)
    have "successively Q xs"
      by (rule Cons.IH) (use Cons.prems local.Cons in \<open>auto split: if_splits\<close>)
    then show ?thesis using Cons.prems local.Cons by auto
  qed simp
qed simp

lemma in_tl: "x \<in> set (tl xs) \<Longrightarrow> x \<in> set xs"
  by (cases xs) auto

lemma links_frame:
  assumes "successively (link h) xs"
    and "\<And>x. x \<in> set (butlast xs) \<Longrightarrow> map_option next (h' x) = map_option next (h x)"
    and "\<And>x. x \<in> set (tl xs) \<Longrightarrow> map_option prev (h' x) = map_option prev (h x)"
  shows "successively (link h') xs"
  by (rule successively_keep [OF assms(1)]) (use assms(2,3) in \<open>auto simp: link_def\<close>)

lemma links_same:
  assumes "successively (link h) xs" and "\<And>x. x \<in> set xs \<Longrightarrow> h' x = h x"
  shows "successively (link h') xs"
  by (rule links_frame [OF assms(1)]) (use assms(2) in \<open>auto dest: in_set_butlastD in_tl\<close>)

lemma links_split:
  "successively (link h) (xs @ a # ys) \<longleftrightarrow>
   successively (link h) (xs @ [a]) \<and> successively (link h) (a # ys)"
  by (auto simp: successively_append_iff)

lemma eflags_nodes [simp]:
  "nodes (sti s) = nodes s" "nodes (cli s) = nodes s"
  "nodes (snd (intr_disable s)) = nodes s" "nodes (snd (intr_set_status st s)) = nodes s"
  by (simp_all add: sti_def cli_def intr_disable_def intr_set_status_def intr_enable_def)

lemma insert_before_run:
  assumes "link (nodes s) a b" and "e \<in> dom (nodes s)" and "a \<noteq> b" "e \<noteq> a" "e \<noteq> b"
  shows "\<exists>s' na nb. list_insert_before b e s = Some s' \<and> eflags s' = eflags s \<and>
    nodes s a = Some na \<and> nodes s b = Some nb \<and>
    nodes s' = (nodes s)(a \<mapsto> na\<lparr>next := e\<rparr>, e \<mapsto> \<lparr>prev = a, next = b\<rparr>, b \<mapsto> nb\<lparr>prev := e\<rparr>)"
proof -
  obtain old s1 where d: "intr_disable s = (old, s1)" by fastforce
  then have n1: "nodes s1 = nodes s" by (metis eflags_nodes(3) snd_conv)
  obtain na nb where ab: "nodes s a = Some na" "nodes s b = Some nb" "prev nb = a"
    using assms(1) by (auto elim: linkD)
  obtain ne where e: "nodes s e = Some ne" using assms(2) by auto
  let ?h = "(nodes s)(a \<mapsto> na\<lparr>next := e\<rparr>, e \<mapsto> \<lparr>prev = a, next = b\<rparr>, b \<mapsto> nb\<lparr>prev := e\<rparr>)"
  have "list_insert_before b e s = Some (snd (intr_set_status old (s1\<lparr>nodes := ?h\<rparr>)))"
    using d n1 ab e assms(3-)
    by (cases ne) (simp add: list_insert_before_def get_prev_def set_next_def set_prev_def)
  moreover have "eflags (snd (intr_set_status old (s1\<lparr>nodes := ?h\<rparr>))) = eflags s"
    by (rule critical_section_eflags [OF d]) simp
  ultimately show ?thesis using ab by auto
qed

lemma remove_run:
  assumes "link (nodes s) a e" and "link (nodes s) e b" and "a \<noteq> e" "e \<noteq> b" "a \<noteq> b"
  shows "\<exists>s' na nb. list_remove e s = Some s' \<and> eflags s' = eflags s \<and>
    nodes s a = Some na \<and> nodes s b = Some nb \<and>
    nodes s' = (nodes s)(a \<mapsto> na\<lparr>next := b\<rparr>, b \<mapsto> nb\<lparr>prev := a\<rparr>)"
proof -
  obtain old s1 where d: "intr_disable s = (old, s1)" by fastforce
  then have n1: "nodes s1 = nodes s" by (metis eflags_nodes(3) snd_conv)
  obtain na ne nb where ab: "nodes s a = Some na" "nodes s b = Some nb"
      "nodes s e = Some ne" "prev ne = a" "next ne = b"
    using assms(1,2) by (auto elim!: linkD)
  let ?h = "(nodes s)(a \<mapsto> na\<lparr>next := b\<rparr>, b \<mapsto> nb\<lparr>prev := a\<rparr>)"
  have "list_remove e s = Some (snd (intr_set_status old (s1\<lparr>nodes := ?h\<rparr>)))"
    using d n1 ab assms(3-)
    by (simp add: list_remove_def get_prev_def get_next_def set_next_def set_prev_def)
  moreover have "eflags (snd (intr_set_status old (s1\<lparr>nodes := ?h\<rparr>))) = eflags s"
    by (rule critical_section_eflags [OF d]) simp
  ultimately show ?thesis using ab by auto
qed

text \<open>
  Linking \<open>e\<close> in before the node \<open>b\<close>, wherever \<open>b\<close> is in the list, and taking a node out. Nodes
  of no list involved stay as they are.
\<close>

lemma links_insert:
  assumes "successively (link h) (ps @ a # b # qs)" and "distinct (ps @ a # b # qs)"
    and "e \<notin> set (ps @ a # b # qs)" and "h a = Some na" "h b = Some nb"
    and "h' = h(a \<mapsto> na\<lparr>next := e\<rparr>, e \<mapsto> \<lparr>prev = a, next = b\<rparr>, b \<mapsto> nb\<lparr>prev := e\<rparr>)"
  shows "successively (link h') (ps @ a # e # b # qs)"
proof -
  have l: "successively (link h) (ps @ [a])" and r: "successively (link h) (b # qs)"
    using assms(1) by (auto simp: successively_append_iff successively_Cons)
  have "successively (link h') (ps @ [a])"
    by (rule links_frame [OF l]) (use assms(2-) in \<open>auto dest: in_tl\<close>)
  moreover have "successively (link h') (b # qs)"
    by (rule links_frame [OF r]) (use assms(2-) in \<open>auto dest: in_set_butlastD split: if_splits\<close>)
  moreover have "link h' a e" "link h' e b" using assms(2-) by (auto simp: link_def)
  ultimately show ?thesis by (auto simp: successively_append_iff)
qed

lemma links_remove:
  assumes "successively (link h) (ps @ a # e # b # qs)" and "distinct (ps @ a # e # b # qs)"
    and "h a = Some na" "h b = Some nb"
    and "h' = h(a \<mapsto> na\<lparr>next := b\<rparr>, b \<mapsto> nb\<lparr>prev := a\<rparr>)"
  shows "successively (link h') (ps @ a # b # qs)"
proof -
  have l: "successively (link h) (ps @ [a])" and r: "successively (link h) (b # qs)"
    using assms(1) by (auto simp: successively_append_iff successively_Cons)
  have "successively (link h') (ps @ [a])"
    by (rule links_frame [OF l]) (use assms(2-) in \<open>auto dest: in_tl\<close>)
  moreover have "successively (link h') (b # qs)"
    by (rule links_frame [OF r]) (use assms(2-) in \<open>auto dest: in_set_butlastD split: if_splits\<close>)
  moreover have "link h' a b" using assms(2-) by (auto simp: link_def)
  ultimately show ?thesis by (auto simp: successively_append_iff)
qed

text \<open>Every position of a list has a node before it and, but for the last, one after it.\<close>

lemma chain_split_before:
  "\<exists>ps a. chain l (xs @ ys) = ps @ a # (ys @ [list_tail l]) \<and> list_head l # xs = ps @ [a]"
  by (rule exI [of _ "butlast (list_head l # xs)"], rule exI [of _ "last (list_head l # xs)"])
    (simp add: chain_def butlast_append)

definition keeps :: "addr \<Rightarrow> addr list \<Rightarrow> 'z node_heap_scheme \<Rightarrow> 'z node_heap_scheme \<Rightarrow> bool" where
  "keeps l xs s s' = (eflags s' = eflags s \<and> dom (nodes s') = dom (nodes s) \<and>
     (\<forall>c. c \<notin> set (chain l xs) \<longrightarrow> nodes s' c = nodes s c))"

lemma list_insert_at:
  assumes "dll s l (xs @ ys)" and "linkable l s e" and "e \<notin> set (xs @ ys)"
    and "b = hd (ys @ [list_tail l])"
  shows "\<exists>s'. list_insert_before b e s = Some s' \<and> dll s' l (xs @ e # ys) \<and> keeps l (xs @ e # ys) s s'"
proof -
  obtain ps a where c: "chain l (xs @ ys) = ps @ a # (ys @ [list_tail l])" "list_head l # xs = ps @ [a]"
    using chain_split_before by blast
  obtain qs where q: "ys @ [list_tail l] = b # qs" using assms(4) by (cases "ys @ [list_tail l]") auto
  have e: "e \<notin> set (chain l (xs @ ys))" using assms by (auto simp: chain_def linkable_def)
  have d: "distinct (ps @ a # b # qs)" "successively (link (nodes s)) (ps @ a # b # qs)"
    using assms(1) c q by (auto simp: dll_def)
  then have ab: "link (nodes s) a b" "a \<noteq> b" by (auto simp: successively_append_iff)
  from insert_before_run [OF ab(1), of e] e c q ab assms(2) obtain s' na nb where r:
      "list_insert_before b e s = Some s'" "eflags s' = eflags s" "nodes s a = Some na" "nodes s b = Some nb"
      "nodes s' = (nodes s)(a \<mapsto> na\<lparr>next := e\<rparr>, e \<mapsto> \<lparr>prev = a, next = b\<rparr>, b \<mapsto> nb\<lparr>prev := e\<rparr>)"
    by (auto simp: linkable_def)
  have c': "chain l (xs @ e # ys) = ps @ a # e # b # qs"
    using c(2) q by (metis append.assoc append_Cons append_Nil chain_def)
  have "dll s' l (xs @ e # ys)"
    unfolding dll_def c' using links_insert [OF d(2,1) _ r(3,4,5)] d e c q by auto
  moreover have "keeps l (xs @ e # ys) s s'"
    unfolding keeps_def c' using r assms(2) by (auto simp: linkable_def)
  ultimately show ?thesis using r(1) by blast
qed

lemma list_remove_at:
  assumes "dll s l (xs @ e # ys)"
  shows "\<exists>s'. list_remove e s = Some s' \<and> dll s' l (xs @ ys) \<and> keeps l (xs @ e # ys) s s'"
proof -
  obtain ps a where c: "chain l (xs @ e # ys) = ps @ a # ((e # ys) @ [list_tail l])"
      "list_head l # xs = ps @ [a]"
    using chain_split_before by blast
  obtain b qs where q: "ys @ [list_tail l] = b # qs" by (cases "ys @ [list_tail l]") auto
  have d: "distinct (ps @ a # e # b # qs)" "successively (link (nodes s)) (ps @ a # e # b # qs)"
    using assms(1) c q by (auto simp: dll_def)
  then have ab: "link (nodes s) a e" "link (nodes s) e b" "a \<noteq> e" "e \<noteq> b" "a \<noteq> b"
    by (auto simp: successively_append_iff)
  from remove_run [OF ab] obtain s' na nb where r:
      "list_remove e s = Some s'" "eflags s' = eflags s" "nodes s a = Some na" "nodes s b = Some nb"
      "nodes s' = (nodes s)(a \<mapsto> na\<lparr>next := b\<rparr>, b \<mapsto> nb\<lparr>prev := a\<rparr>)"
    by auto
  have c': "chain l (xs @ ys) = ps @ a # b # qs"
    using c(2) q by (metis append.assoc append_Cons append_Nil chain_def)
  have "dll s' l (xs @ ys)"
    unfolding dll_def c' using links_remove [OF d(2,1) r(3,4,5)] d by auto
  moreover have "keeps l (xs @ e # ys) s s'"
    unfolding keeps_def using c q r by auto
  ultimately show ?thesis using r(1) by blast
qed

text \<open>An operation on one list leaves a list that shares no node with it as it was.\<close>

lemma dll_frame:
  assumes "dll s m zs" and "keeps l xs s s'" and "set (chain l xs) \<inter> set (chain m zs) = {}"
  shows "dll s' m zs"
  unfolding dll_def
proof (intro conjI links_same [of "nodes s" "chain m zs" "nodes s'"])
  fix x assume "x \<in> set (chain m zs)"
  then show "nodes s' x = nodes s x" using assms(2,3) by (auto simp: keeps_def)
qed (use assms(1) in \<open>auto simp: dll_def\<close>)

lemma keeps_linkable: "keeps l xs s s' \<Longrightarrow> linkable l s' = linkable l s"
  by (rule ext) (simp add: keeps_def linkable_def)

lemma dll_member:
  assumes "dll s l xs" and "e \<in> set xs"
  shows "linkable l s e"
proof -
  obtain ys zs where xs: "xs = ys @ e # zs" using assms(2) by (meson split_list)
  then obtain b qs where q: "zs @ [list_tail l] = b # qs" by (cases "zs @ [list_tail l]") auto
  have c: "chain l xs = (list_head l # ys) @ e # b # qs" using xs q by (simp add: chain_def)
  have "link (nodes s) e b" using assms(1) 
    unfolding dll_def c by (auto simp: successively_append_iff simp del: append_Cons)
  moreover have "e \<noteq> list_head l" "e \<noteq> list_tail l" using assms by (auto simp: dll_def chain_def)
  ultimately show ?thesis by (auto simp: linkable_def elim: linkD)
qed

lemma dll_first:
  assumes "dll s l xs"
  shows "get_next (list_head l) s = Some (hd (xs @ [list_tail l]))"
  using assms by (cases xs) (auto simp: dll_def chain_def get_next_def link_def)

lemma dll_tail_links:
  assumes "dll s l xs"
  shows "successively (link (nodes s)) (xs @ [list_tail l])" "list_tail l \<notin> set xs"
  using assms by (auto simp: dll_def chain_def successively_Cons)

lemma step_along:
  "successively (link (nodes s)) ((x # xs) @ [t]) \<Longrightarrow> get_next x s = Some (hd (xs @ [t]))"
  by (cases xs) (auto simp: get_next_def link_def)

lemma tail_along:
  "successively (link h) ((x # xs) @ [t]) \<Longrightarrow> successively (link h) (xs @ [t])"
  by (cases xs) auto

lemma elem_find_loop_eq:
  assumes "successively (link (nodes s)) (xs @ [list_tail l])" and "list_tail l \<notin> set xs"
    and "e \<noteq> list_tail l"
  shows "elem_find_loop l e (hd (xs @ [list_tail l])) s = Some (e \<in> set xs)"
  using assms
proof (induction xs)
  case Nil
  then show ?case by (subst elem_find_loop.simps) simp
next
  case (Cons x xs)
  note step_along [OF Cons.prems(1), simp]
  from Cons.IH [OF tail_along [OF Cons.prems(1)]] Cons.prems show ?case
    by (subst elem_find_loop.simps) auto
qed

lemma list_len_loop_eq:
  assumes "successively (link (nodes s)) (xs @ [list_tail l])" and "list_tail l \<notin> set xs"
  shows "list_len_loop l (hd (xs @ [list_tail l])) n s = Some (n + word_of_nat (length xs))"
  using assms
proof (induction xs arbitrary: n)
  case Nil
  then show ?case by (subst list_len_loop.simps) simp
next
  case (Cons x xs)
  note step_along [OF Cons.prems(1), simp]
  from Cons.IH [OF tail_along [OF Cons.prems(1)], of "n + 1"] Cons.prems show ?case
    by (subst list_len_loop.simps) (simp add: add.assoc)
qed

text \<open>A traversal whose callback only looks at the element stops at the first hit.\<close>

lemma traversal_loop_eq:
  assumes "successively (link (nodes s)) (xs @ [list_tail l])" and "list_tail l \<notin> set xs"
    and "\<And>e. e \<in> set xs \<Longrightarrow> func e arg s = Some (P e, s)"
  shows "traversal_loop l func arg (hd (xs @ [list_tail l])) s =
    Some (case find P xs of None \<Rightarrow> NULL | Some e \<Rightarrow> e, s)"
  using assms
proof (induction xs)
  case Nil
  then show ?case by (subst traversal_loop.simps) simp
next
  case (Cons x xs)
  note step_along [OF Cons.prems(1), simp]
  from Cons.IH [OF tail_along [OF Cons.prems(1)]] Cons.prems show ?case
    by (subst traversal_loop.simps) auto
qed

lemma list_traversal_eq:
  assumes "dll s l xs" and "\<And>e. e \<in> set xs \<Longrightarrow> func e arg s = Some (P e, s)"
  shows "list_traversal l func arg s = Some (case find P xs of None \<Rightarrow> NULL | Some e \<Rightarrow> e, s)"
  using dll_first [OF assms(1)] dll_tail_links [OF assms(1)]
    traversal_loop_eq [OF dll_tail_links [OF assms(1)], of func arg P] assms(2)
  by (cases xs) (auto simp: list_traversal_def list_empty_def)

lemma list_empty_eq: "dll s l xs \<Longrightarrow> list_empty l s = Some (xs = [])"
  using dll_first [of s l xs] dll_tail_links [of s l xs]
  by (cases xs) (auto simp: list_empty_def)

lemma list_append_eq:
  assumes "dll s l xs" and "linkable l s e" and "e \<notin> set xs"
  shows "\<exists>s'. list_append l e s = Some s' \<and> dll s' l (xs @ [e]) \<and> keeps l (xs @ [e]) s s'"
  using list_insert_at [of s l xs "[]" e "list_tail l"] assms by (simp add: list_append_def)

lemma list_push_eq:
  assumes "dll s l xs" and "linkable l s e" and "e \<notin> set xs"
  shows "\<exists>s'. list_push l e s = Some s' \<and> dll s' l (e # xs) \<and> keeps l (e # xs) s s'"
  using list_insert_at [of s l "[]" xs e "hd (xs @ [list_tail l])"] assms dll_first [OF assms(1)]
  by (simp add: list_push_def)

lemma list_pop_eq:
  assumes "dll s l (e # xs)"
  shows "\<exists>s'. list_pop l s = Some (e, s') \<and> dll s' l xs \<and> keeps l (e # xs) s s'"
  using list_remove_at [of s l "[]" e xs] assms dll_first [OF assms] by (auto simp: list_pop_def)

interpretation dl: elem_list "\<lambda>s. dll s l" "linkable l" "list_append l" "list_push l" "list_pop l"
    "elem_find l" "list_empty l" list_remove
proof (unfold_locales, goal_cases)
  case (1 s xs e) then show ?case using list_append_eq keeps_linkable by blast
next
  case (2 s xs e) then show ?case using list_push_eq keeps_linkable by blast
next
  case (3 s e xs) then show ?case using list_pop_eq keeps_linkable by blast
next
  case (4 s xs e)
  then show ?case
    using dll_first elem_find_loop_eq dll_tail_links by (fastforce simp: elem_find_def linkable_def)
next
  case (5 s xs) then show ?case by (rule list_empty_eq)
next
  case (6 s xs) then show ?case by (simp add: dll_def chain_def)
next
  case (7 s xs e) then show ?case by (rule dll_member)
next
  case (8 s xs e ys) then show ?case using list_remove_at keeps_linkable by blast
qed

lemma list_init_eq:
  assumes "list_head l \<in> dom (nodes s)" and "list_tail l \<in> dom (nodes s)"
  shows "\<exists>s'. list_init l s = Some s' \<and> dll s' l [] \<and> keeps l [] s s' \<and>
    get_next (list_tail l) s' = Some NULL \<and> get_prev (list_head l) s' = Some NULL"
proof -
  have ne: "list_head l \<noteq> list_tail l" by (simp add: list_head_def list_tail_def)
  obtain nh nt where n: "nodes s (list_head l) = Some nh" "nodes s (list_tail l) = Some nt"
    using assms by auto
  show ?thesis
    using n ne by (auto simp: list_init_def set_prev_def set_next_def dll_def chain_def link_def
        keeps_def get_next_def get_prev_def)
qed

subsection \<open>Properties\<close>

text \<open>
  C9: inserting before any node of a well-formed list (an element or the tail sentinel) puts the
  new node at that place, keeps the list well formed, gives back the caller's interrupt flag, and
  leaves every other list of the heap as it was.
\<close>

theorem list_insert_before_inserts:
  assumes "dll s l (xs @ ys)" and "linkable l s e" and "e \<notin> set (xs @ ys)"
    and "dll s m zs" and "set (chain l (xs @ e # ys)) \<inter> set (chain m zs) = {}"
  shows "\<exists>s'. list_insert_before (hd (ys @ [list_tail l])) e s = Some s' \<and>
    dll s' l (xs @ e # ys) \<and> dll s' m zs \<and> eflags s' = eflags s"
  using list_insert_at [OF assms(1-3) refl] dll_frame [OF assms(4) _ assms(5)]
  by (auto simp: keeps_def)

definition demo_heap :: node_heap where
  "demo_heap = \<lparr>eflags = 0x202,
     nodes = [100 \<mapsto> \<lparr>prev = 0, next = 300\<rparr>, 300 \<mapsto> \<lparr>prev = 100, next = 108\<rparr>, 108 \<mapsto> \<lparr>prev = 300, next = 0\<rparr>,
              200 \<mapsto> \<lparr>prev = 0, next = 208\<rparr>, 208 \<mapsto> \<lparr>prev = 200, next = 0\<rparr>,
              400 \<mapsto> \<lparr>prev = 7, next = 7\<rparr>, 500 \<mapsto> \<lparr>prev = 7, next = 7\<rparr>]\<rparr>"

lemma demo_heap_lists: "dll demo_heap 100 [300]" "dll demo_heap 200 []"
  by (simp_all add: dll_def demo_heap_def chain_def link_def list_head_def list_tail_def)

lemma demo_heap_linkable: "linkable 100 demo_heap 400" "linkable 100 demo_heap 500"
  by (simp_all add: demo_heap_def linkable_def list_head_def list_tail_def)

theorem list_insert_before_inserts_witness:
  "\<exists>s'. list_insert_before 300 400 demo_heap = Some s' \<and> dll s' 100 [400, 300] \<and> dll s' 200 [] \<and>
    eflags s' = eflags demo_heap"
proof -
  have d: "set (chain 100 ([] @ 400 # [300])) \<inter> set (chain 200 []) = {}"
    by (simp add: chain_def list_head_def list_tail_def)
  have "dll demo_heap 100 ([] @ [300])" "400 \<notin> set ([] @ [300 :: addr])"
    using demo_heap_lists(1) by simp_all
  from list_insert_before_inserts [OF this(1) demo_heap_linkable(1) this(2) demo_heap_lists(2) d]
  show ?thesis by (simp only: append_Nil append_Cons list.sel)
qed

text \<open>
  Elements appended to a list and then popped come out in the order they went in, after the
  elements that were there before; the list is empty afterwards.
\<close>

theorem list_first_in_first_out:
  assumes "dll s l xs" and "distinct (xs @ es)" and "\<forall>e \<in> set es. linkable l s e"
  shows "\<exists>s1 s2. append_all (list_append l) es s = Some s1 \<and>
    pop_n (list_pop l) (length (xs @ es)) s1 = Some (xs @ es, s2) \<and> list_empty l s2 = Some True"
  using dl.fifo [OF assms] by (auto dest: list_empty_eq)

theorem list_first_in_first_out_witness:
  "\<exists>s1 s2. append_all (list_append 100) [400, 500] demo_heap = Some s1 \<and>
    pop_n (list_pop 100) 3 s1 = Some ([300, 400, 500], s2) \<and> list_empty 100 s2 = Some True"
  using list_first_in_first_out [of demo_heap 100 "[300]" "[400, 500]"]
    demo_heap_lists demo_heap_linkable by (simp add: eval_nat_numeral del: pop_n.simps append_all.simps)

text \<open>
  \<open>list_remove\<close> takes a node out from any place of its list without being told the list, and
  the searches agree with the abstract list: \<open>elem_find\<close> with membership, \<open>list_len\<close> with the
  length, \<open>list_traversal\<close> with the first element the callback accepts.
\<close>

theorem list_remove_and_search:
  assumes "dll s l (xs @ e # ys)" and "\<And>a t. func a arg t = Some (P a, t)"
  shows "\<exists>s'. list_remove e s = Some s' \<and> dll s' l (xs @ ys) \<and>
    elem_find l e s = Some True \<and> elem_find l e s' = Some False \<and>
    list_len l s' = Some (word_of_nat (length (xs @ ys))) \<and>
    list_traversal l func arg s' =
      Some (case find P (xs @ ys) of None \<Rightarrow> NULL | Some a \<Rightarrow> a, s')"
proof -
  have ef: "linkable l s e" "distinct (xs @ e # ys)"
    using dll_member [OF assms(1)] assms(1) by (auto simp: dll_def chain_def)
  obtain s' where s': "list_remove e s = Some s'" "dll s' l (xs @ ys)" "linkable l s' e"
    using list_remove_at [OF assms(1)] keeps_linkable ef(1) by metis
  have "elem_find l e s = Some True" "elem_find l e s' = Some False"
    using dl.find_law [OF assms(1) ef(1)] dl.find_law [OF s'(2,3)] ef(2) by auto
  moreover have "list_len l s' = Some (word_of_nat (length (xs @ ys)))"
    using dll_first [OF s'(2)] list_len_loop_eq [OF dll_tail_links [OF s'(2)], of 0]
    by (simp add: list_len_def)
  ultimately show ?thesis using s' list_traversal_eq [OF s'(2), of func arg P] assms(2) by auto
qed

theorem list_remove_and_search_witness:
  "\<exists>s'. list_remove 300 demo_heap = Some s' \<and> dll s' 100 [] \<and>
    elem_find 100 300 demo_heap = Some True \<and> elem_find 100 300 s' = Some False \<and>
    list_len 100 s' = Some 0 \<and> list_traversal 100 (\<lambda>a arg t. Some (a = 300, t)) 0 s' = Some (NULL, s')"
  using list_remove_and_search [of demo_heap 100 "[]" 300 "[]" "\<lambda>a arg t. Some (a = 300, t)" 0 "\<lambda>a. a = 300"]
    demo_heap_lists by auto

end
