(* ===== verification/Kernel_Paging.thy ===== *)
theory Kernel_Paging
  imports Kernel_Interrupt
begin

text \<open>
  The paging part of \<open>kernel/memory.c\<close>: the pointers \<open>pte_ptr\<close> and \<open>pde_ptr\<close> to the entries of the
  current page tables, through the last page-directory entry, which points to the directory
  itself; \<open>addr_v2p\<close>; and the change a page-table entry makes.

  The machine: physical memory is a function from the physical address of a 32-bit word to the
  word, \<open>cr3\<close> the physical address of the page directory, and \<open>mmu_walk\<close> the two-level translation
  of the processor (a missing present bit is a page fault, for which no handler is registered:
  \<open>None\<close>).
\<close>

unbundle bit_operations_syntax

record mmu =
  cr3 :: u32
  ram :: "u32 \<Rightarrow> u32"

definition PG_SIZE :: u32 where
  "PG_SIZE = 4096"

definition PG_P_1 :: u32 where "PG_P_1 = 1"
definition PG_RW_W :: u32 where "PG_RW_W = 2"
definition PG_US_U :: u32 where "PG_US_U = 4"

definition PDE_IDX :: "u32 \<Rightarrow> u32" where
  "PDE_IDX addr = drop_bit 22 (addr AND 0xffc00000)"

definition PTE_IDX :: "u32 \<Rightarrow> u32" where
  "PTE_IDX addr = drop_bit 12 (addr AND 0x003ff000)"

subsection \<open>The processor\<close>

definition pde_at :: "mmu \<Rightarrow> u32 \<Rightarrow> u32" where
  "pde_at m va = (cr3 m AND 0xfffff000) + 4 * PDE_IDX va"

definition pte_at :: "mmu \<Rightarrow> u32 \<Rightarrow> u32" where
  "pte_at m va = (ram m (pde_at m va) AND 0xfffff000) + 4 * PTE_IDX va"

definition mmu_walk :: "mmu \<Rightarrow> u32 \<Rightarrow> u32 option" where
  "mmu_walk m va =
     (if ram m (pde_at m va) AND 1 = 0 \<or> ram m (pte_at m va) AND 1 = 0 then None
      else Some ((ram m (pte_at m va) AND 0xfffff000) + (va AND 0xfff)))"

definition load32 :: "u32 \<Rightarrow> mmu \<Rightarrow> u32 option" where
  "load32 va m = map_option (ram m) (mmu_walk m va)"

definition store32 :: "u32 \<Rightarrow> u32 \<Rightarrow> mmu \<Rightarrow> mmu option" where
  "store32 va v m = do {
     pa \<leftarrow> mmu_walk m va;
     Some (m\<lparr>ram := (ram m)(pa := v)\<rparr>) }"

text \<open>\<open>memset(va, 0, 4 * n)\<close> on word-aligned addresses.\<close>

fun memset0 :: "u32 \<Rightarrow> nat \<Rightarrow> mmu \<Rightarrow> mmu option" where
  "memset0 va 0 m = Some m"
| "memset0 va (Suc n) m = do {
     m \<leftarrow> store32 va 0 m;
     memset0 (va + 4) n m }"

subsection \<open>Pointers to page-table entries\<close>

definition pte_ptr :: "u32 \<Rightarrow> u32" where
  "pte_ptr vaddr = 0xffc00000 + drop_bit 10 (vaddr AND 0xffc00000) + PTE_IDX vaddr * 4"

definition pde_ptr :: "u32 \<Rightarrow> u32" where
  "pde_ptr vaddr = 0xfffff000 + PDE_IDX vaddr * 4"

definition addr_v2p :: "u32 \<Rightarrow> mmu \<Rightarrow> u32 option" where
  "addr_v2p vaddr m = do {
     pte \<leftarrow> load32 (pte_ptr vaddr) m;
     Some ((pte AND 0xfffff000) + (vaddr AND 0x00000fff)) }"

definition page_table_pte_remove :: "u32 \<Rightarrow> mmu \<Rightarrow> mmu option" where
  "page_table_pte_remove vaddr m = do {
     pte \<leftarrow> load32 (pte_ptr vaddr) m;
     store32 (pte_ptr vaddr) (pte AND NOT PG_P_1) m }"

subsection \<open>Bits of addresses\<close>

lemma bit_masks:
  "bit (0xffc00000 :: u32) n \<longleftrightarrow> 22 \<le> n \<and> n < 32"
  "bit (0x003ff000 :: u32) n \<longleftrightarrow> 12 \<le> n \<and> n < 22"
  "bit (0xfffff000 :: u32) n \<longleftrightarrow> 12 \<le> n \<and> n < 32"
  "bit (0xfff :: u32) n \<longleftrightarrow> n < 12"
proof -
  have m: "bit (mask k :: u32) i \<longleftrightarrow> i < 32 \<and> i < k" for k i
    by (auto simp: bit_mask_iff)
  have e: "(0xffc00000 :: u32) = push_bit 22 (mask 10)" "(0x003ff000 :: u32) = push_bit 12 (mask 10)"
    "(0xfffff000 :: u32) = push_bit 12 (mask 20)" "(0xfff :: u32) = mask 12"
    by (simp_all add: mask_eq_exp_minus_1)
  show "bit (0xffc00000 :: u32) n \<longleftrightarrow> 22 \<le> n \<and> n < 32" "bit (0x003ff000 :: u32) n \<longleftrightarrow> 12 \<le> n \<and> n < 22"
    "bit (0xfffff000 :: u32) n \<longleftrightarrow> 12 \<le> n \<and> n < 32" "bit (0xfff :: u32) n \<longleftrightarrow> n < 12"
    unfolding e by (auto simp only: bit_push_bit_iff m possible_bit_word, simp_all)
qed

text \<open>The masks above are to be read bit by bit, not as numbers.\<close>

declare bit_numeral_word_iff [simp del]

lemma bit_drop_and: "bit (drop_bit k (x AND m :: u32)) n \<longleftrightarrow> bit x (n + k) \<and> bit m (n + k)"
  by (simp add: bit_simps add.commute)

lemma bit_idx:
  "bit (PDE_IDX va) n \<longleftrightarrow> n < 10 \<and> bit va (n + 22)"
  "bit (PTE_IDX va) n \<longleftrightarrow> n < 10 \<and> bit va (n + 12)"
  unfolding PDE_IDX_def PTE_IDX_def bit_drop_and bit_masks
  by (auto simp: add.commute dest: bit_imp_le_length)

lemma times4: "4 * (x :: u32) = push_bit 2 x" "x * 4 = push_bit 2 x"
  by (simp_all add: push_bit_eq_mult)

lemma bit_off:
  "bit (4 * PTE_IDX va) n \<longleftrightarrow> 2 \<le> n \<and> n < 12 \<and> bit va (n + 10)"
  "bit (4 * PDE_IDX va) n \<longleftrightarrow> 2 \<le> n \<and> n < 12 \<and> bit va (n + 20)"
  by (auto simp: times4 bit_simps bit_idx add.commute)

lemma add_eq_or: "(\<And>n. \<not> bit a n \<or> \<not> bit b n) \<Longrightarrow> (a :: u32) + b = a OR b"
  by (rule disjunctive_add_eq_or) (auto intro!: bit_eqI simp: bit_simps)

lemma bit_frame_plus_pte: "bit ((f AND 0xfffff000) + 4 * PTE_IDX va) n \<longleftrightarrow>
    n < 32 \<and> (if n < 12 then 2 \<le> n \<and> bit va (n + 10) else bit f n)"
  by (subst add_eq_or) (auto simp: bit_simps bit_masks bit_off dest: bit_imp_le_length)

lemma bit_frame_plus_pde: "bit ((f AND 0xfffff000) + 4 * PDE_IDX va) n \<longleftrightarrow>
    n < 32 \<and> (if n < 12 then 2 \<le> n \<and> bit va (n + 20) else bit f n)"
  by (subst add_eq_or) (auto simp: bit_simps bit_masks bit_off dest: bit_imp_le_length)

lemma bit_frame_plus_off: "bit ((f AND 0xfffff000) + (va AND 0xfff)) n \<longleftrightarrow>
    n < 32 \<and> (if n < 12 then bit (va :: u32) n else bit f n)"
  by (subst add_eq_or) (auto simp: bit_simps bit_masks dest: bit_imp_le_length)

lemma bit_table: "bit (0xffc00000 + drop_bit 10 (va AND 0xffc00000) :: u32) n \<longleftrightarrow>
    n < 32 \<and> (22 \<le> n \<or> 12 \<le> n \<and> bit va (n + 10))"
proof -
  have "0xffc00000 + drop_bit 10 (va AND 0xffc00000) = 0xffc00000 OR drop_bit 10 (va AND 0xffc00000)"
    by (rule add_eq_or) (auto simp: bit_drop_and bit_masks simp del: drop_bit_and)
  then show ?thesis
    by (auto simp: bit_or_iff bit_drop_and bit_masks simp del: drop_bit_and dest: bit_imp_le_length)
qed

lemma bit_pte_ptr: "bit (pte_ptr va) n \<longleftrightarrow>
    n < 32 \<and> (22 \<le> n \<or> 2 \<le> n \<and> bit va (n + 10))"
  unfolding pte_ptr_def mult.commute [of "PTE_IDX va"]
  by (subst add_eq_or [of "_ + _"]) (auto simp: bit_or_iff bit_table bit_off simp del: drop_bit_and dest: bit_imp_le_length)

lemma bit_pde_ptr: "bit (pde_ptr va) n \<longleftrightarrow>
    n < 32 \<and> (12 \<le> n \<or> 2 \<le> n \<and> bit va (n + 20))"
  unfolding pde_ptr_def mult.commute [of "PDE_IDX va"]
  by (subst add_eq_or) (auto simp: bit_simps bit_masks bit_off dest: bit_imp_le_length)

subsection \<open>The recursive mapping\<close>

text \<open>
  \<open>self_mapped\<close>: the last entry of the page directory is present and points to the directory, as
  \<open>loader.S\<close> and \<open>create_page_dir\<close> set it up. Then \<open>pde_ptr\<close> and \<open>pte_ptr\<close> are virtual addresses of
  the very entries the processor reads.
\<close>

definition frame_of :: "u32 \<Rightarrow> u32" where
  "frame_of x = x AND 0xfffff000"

definition self_mapped :: "mmu \<Rightarrow> bool" where
  "self_mapped m \<longleftrightarrow> (let e = ram m (frame_of (cr3 m) + 4 * 0x3ff)
     in e AND 1 \<noteq> 0 \<and> frame_of e = frame_of (cr3 m))"

definition pde_present :: "mmu \<Rightarrow> u32 \<Rightarrow> bool" where
  "pde_present m va \<longleftrightarrow> ram m (pde_at m va) AND 1 \<noteq> 0"

definition pte_present :: "mmu \<Rightarrow> u32 \<Rightarrow> bool" where
  "pte_present m va \<longleftrightarrow> ram m (pte_at m va) AND 1 \<noteq> 0"

lemma bit_frame_of: "bit (frame_of x) n \<longleftrightarrow> 12 \<le> n \<and> bit x n"
  by (auto simp: frame_of_def bit_and_iff bit_masks dest: bit_imp_le_length)

lemma idx_of_ptr [simp]:
  "PDE_IDX (pte_ptr va) = 0x3ff" "PDE_IDX (pde_ptr va) = 0x3ff"
  "PTE_IDX (pde_ptr va) = 0x3ff" "PTE_IDX (pte_ptr va) = PDE_IDX va"
  "pte_ptr va AND 0xfff = 4 * PTE_IDX va" "pde_ptr va AND 0xfff = 4 * PDE_IDX va"
proof -
  have "(0x3ff :: u32) = mask 10" by (simp add: mask_eq_exp_minus_1)
  then have b: "bit (0x3ff :: u32) n \<longleftrightarrow> n < 10" for n by (auto simp only: bit_mask_iff possible_bit_word) simp_all
  show "PDE_IDX (pte_ptr va) = 0x3ff" "PDE_IDX (pde_ptr va) = 0x3ff" "PTE_IDX (pde_ptr va) = 0x3ff"
    by (rule bit_eqI, auto simp: b bit_idx bit_pte_ptr bit_pde_ptr)+
  show "PTE_IDX (pte_ptr va) = PDE_IDX va"
    by (rule bit_eqI) (auto simp: bit_idx bit_pte_ptr add.assoc)
  show "pte_ptr va AND 0xfff = 4 * PTE_IDX va" "pde_ptr va AND 0xfff = 4 * PDE_IDX va"
    by (rule bit_eqI, auto simp: bit_and_iff bit_masks bit_off bit_pte_ptr bit_pde_ptr)+
qed

lemma walk_simps:
  "mmu_walk m va = (if pde_present m va \<and> pte_present m va
     then Some (frame_of (ram m (pte_at m va)) + (va AND 0xfff)) else None)"
  by (simp add: mmu_walk_def pde_present_def pte_present_def frame_of_def)

lemma self_slot:
  assumes "self_mapped m"
  shows "pde_at m (pte_ptr va) = frame_of (cr3 m) + 4 * 0x3ff"
    and "pde_at m (pde_ptr va) = frame_of (cr3 m) + 4 * 0x3ff"
    and "pte_at m (pte_ptr va) = pde_at m va"
    and "pte_at m (pde_ptr va) = frame_of (cr3 m) + 4 * 0x3ff"
    and "pde_present m (pte_ptr va)" and "pde_present m (pde_ptr va)" and "pte_present m (pde_ptr va)"
    and "pte_present m (pte_ptr va) = pde_present m va"
  using assms
  by (auto simp: self_mapped_def Let_def pde_at_def pte_at_def frame_of_def pde_present_def pte_present_def)

lemma walk_pte_ptr:
  "self_mapped m \<Longrightarrow> mmu_walk m (pte_ptr va) = (if pde_present m va then Some (pte_at m va) else None)"
  by (simp add: walk_simps self_slot) (simp add: pte_at_def frame_of_def)

lemma walk_pde_ptr: "self_mapped m \<Longrightarrow> mmu_walk m (pde_ptr va) = Some (pde_at m va)"
  by (simp add: walk_simps self_slot) (simp add: pde_at_def self_mapped_def Let_def frame_of_def)

lemma load_pde: "self_mapped m \<Longrightarrow> load32 (pde_ptr va) m = Some (ram m (pde_at m va))"
  by (simp add: load32_def walk_pde_ptr)

lemma load_pte:
  "self_mapped m \<Longrightarrow> load32 (pte_ptr va) m = (if pde_present m va then Some (ram m (pte_at m va)) else None)"
  by (simp add: load32_def walk_pte_ptr)

lemma store_pde:
  "self_mapped m \<Longrightarrow> store32 (pde_ptr va) v m = Some (m\<lparr>ram := (ram m)(pde_at m va := v)\<rparr>)"
  by (simp add: store32_def walk_pde_ptr)

lemma store_pte:
  "self_mapped m \<Longrightarrow> pde_present m va \<Longrightarrow>
   store32 (pte_ptr va) v m = Some (m\<lparr>ram := (ram m)(pte_at m va := v)\<rparr>)"
  by (simp add: store32_def walk_pte_ptr)

lemma addr_v2p_walk:
  "self_mapped m \<Longrightarrow> mmu_walk m va = Some pa \<Longrightarrow> addr_v2p va m = Some pa"
  by (auto simp: addr_v2p_def load_pte walk_simps frame_of_def split: if_splits)

subsection \<open>Changing one entry\<close>

lemma slots_distinct:
  "frame_of a + 4 * PTE_IDX x = frame_of b + 4 * PTE_IDX y \<longleftrightarrow> frame_of a = frame_of b \<and> PTE_IDX x = PTE_IDX y"
  (is "?l = ?r \<longleftrightarrow> ?f \<and> ?p")
proof
  assume eq: "?l = ?r"
  have bl: "bit ?l n = bit ?r n" for n by (simp only: eq)
  note b = bl [unfolded frame_of_def bit_frame_plus_pte]
  have ?f
  proof (rule bit_eqI)
    fix n show "bit (frame_of a) n = bit (frame_of b) n"
      using b [of n] by (auto simp: bit_frame_of dest: bit_imp_le_length)
  qed
  moreover have ?p
  proof (rule bit_eqI)
    fix n
    show "bit (PTE_IDX x) n = bit (PTE_IDX y) n"
      using b [of "n + 2"] by (auto simp: bit_idx add.commute)
  qed
  ultimately show "?f \<and> ?p" by simp
qed auto

lemma slot_dir:
  "frame_of a + 4 * PTE_IDX x = frame_of b + 4 * PDE_IDX y \<Longrightarrow> frame_of a = frame_of b"
proof -
  assume eq: "frame_of a + 4 * PTE_IDX x = frame_of b + 4 * PDE_IDX y"
  have bl: "bit (frame_of a + 4 * PTE_IDX x) n = bit (frame_of b + 4 * PDE_IDX y) n" for n
    by (simp only: eq)
  note b = bl [unfolded frame_of_def bit_frame_plus_pte bit_frame_plus_pde]
  show "frame_of a = frame_of b"
  proof (rule bit_eqI)
    fix n show "bit (frame_of a) n = bit (frame_of b) n"
      using b [of n] by (auto simp: bit_frame_of dest: bit_imp_le_length)
  qed
qed

lemma pte_at_frame: "pte_at m va = frame_of (ram m (pde_at m va)) + 4 * PTE_IDX va"
  by (simp add: pte_at_def frame_of_def)

lemma pde_at_frame: "pde_at m va = frame_of (cr3 m) + 4 * PDE_IDX va"
  by (simp add: pde_at_def frame_of_def)

text \<open>
  The page table of \<open>va\<close> is its own: it is not the directory, and no directory entry for other
  addresses leads to it. (Entries 0 and 768 of the kernel's directory share one table on purpose.)
\<close>

definition own_table :: "mmu \<Rightarrow> u32 \<Rightarrow> bool" where
  "own_table m va \<longleftrightarrow> frame_of (ram m (pde_at m va)) \<noteq> frame_of (cr3 m) \<and>
     (\<forall>x. pde_present m x \<and> PDE_IDX x \<noteq> PDE_IDX va \<longrightarrow>
        frame_of (ram m (pde_at m x)) \<noteq> frame_of (ram m (pde_at m va)))"

definition same_page :: "u32 \<Rightarrow> u32 \<Rightarrow> bool" where
  "same_page x y \<longleftrightarrow> PDE_IDX x = PDE_IDX y \<and> PTE_IDX x = PTE_IDX y"

lemma set_pte_walk:
  assumes "own_table m va" and "pde_present m va"
    and "m' = m\<lparr>ram := (ram m)(pte_at m va := v)\<rparr>"
  shows "mmu_walk m' x =
    (if same_page x va then (if v AND 1 = 0 then None else Some (frame_of v + (x AND 0xfff)))
     else mmu_walk m x)"
proof -
  have d: "pte_at m va \<noteq> pde_at m y" for y
    using assms(1) slot_dir unfolding pte_at_frame pde_at_frame own_table_def by blast
  have pde: "pde_at m' y = pde_at m y" for y by (simp add: assms(3) pde_at_def)
  have rp: "ram m' (pde_at m y) = ram m (pde_at m y)" for y using d [of y] assms(3) by auto
  have pte: "pte_at m' y = pte_at m y" for y by (simp add: pte_at_def pde rp)
  show ?thesis
  proof (cases "same_page x va")
    case True
    then have "pde_at m x = pde_at m va" "PTE_IDX x = PTE_IDX va"
      by (simp_all add: same_page_def pde_at_def)
    then have "pte_at m x = pte_at m va" "pde_present m' x"
      using assms(2) by (simp_all add: pte_at_def pde_present_def pde rp)
    moreover have "ram m' (pte_at m va) = v" using assms(3) by simp
    ultimately show ?thesis using True by (simp add: walk_simps pte_present_def pte)
  next
    case False
    show ?thesis
    proof (cases "pde_present m x")
      case True
      have "pte_at m x \<noteq> pte_at m va"
      proof
        assume "pte_at m x = pte_at m va"
        then have f: "frame_of (ram m (pde_at m x)) = frame_of (ram m (pde_at m va))" "PTE_IDX x = PTE_IDX va"
          unfolding pte_at_frame slots_distinct by auto
        with assms(1) True have "PDE_IDX x = PDE_IDX va" unfolding own_table_def by metis
        with f False show False by (simp add: same_page_def)
      qed
      then have "ram m' (pte_at m x) = ram m (pte_at m x)" using assms(3) by simp
      then show ?thesis using False by (simp add: walk_simps pte_present_def pte pde rp pde_present_def)
    next
      case np: False
      then have "\<not> pde_present m' x" by (simp add: pde_present_def pde rp)
      with np False show ?thesis by (simp add: walk_simps)
    qed
  qed
qed

lemma set_pte_tables:
  assumes "own_table m va" and "m' = m\<lparr>ram := (ram m)(pte_at m va := v)\<rparr>"
  shows "pde_present m' x = pde_present m x" "own_table m' x = own_table m x"
    "self_mapped m' = self_mapped m" "pde_at m' x = pde_at m x"
    "ram m' (pde_at m x) = ram m (pde_at m x)"
proof -
  have d: "pte_at m va \<noteq> pde_at m y" for y
    using assms(1) slot_dir unfolding pte_at_frame pde_at_frame own_table_def by blast
  have pde: "pde_at m' y = pde_at m y" for y by (simp add: assms(2) pde_at_def)
  have rp: "ram m' (pde_at m y) = ram m (pde_at m y)" for y using d [of y] assms(2) by auto
  show pp: "pde_present m' x = pde_present m x" for x by (simp add: pde_present_def pde rp)
  show "own_table m' x = own_table m x" by (simp add: own_table_def pde rp pp) (simp add: assms(2))
  have s: "frame_of (cr3 m) + 4 * 0x3ff = pde_at m (pte_ptr 0)" by (simp add: pde_at_frame)
  show "self_mapped m' = self_mapped m" unfolding self_mapped_def
    using s rp [of "pte_ptr 0"] assms(2) by (simp add: Let_def)
  show "pde_at m' x = pde_at m x" "ram m' (pde_at m x) = ram m (pde_at m x)" using pde rp by auto
qed

lemma dir_slots_distinct:
  "frame_of a + 4 * PDE_IDX x = frame_of a + 4 * PDE_IDX y \<longleftrightarrow> PDE_IDX x = PDE_IDX y"
proof
  assume eq: "frame_of a + 4 * PDE_IDX x = frame_of a + 4 * PDE_IDX y"
  have bl: "bit (frame_of a + 4 * PDE_IDX x) n = bit (frame_of a + 4 * PDE_IDX y) n" for n
    by (simp only: eq)
  note b = bl [unfolded frame_of_def bit_frame_plus_pde]
  show "PDE_IDX x = PDE_IDX y"
  proof (rule bit_eqI)
    fix n show "bit (PDE_IDX x) n = bit (PDE_IDX y) n"
      using b [of "n + 2"] by (auto simp: bit_idx add.commute)
  qed
qed auto

subsection \<open>Properties\<close>

text \<open>
  C13: with the recursive mapping in place, \<open>addr_v2p\<close> computes by software exactly the physical
  address the processor translates a mapped virtual address to, and \<open>pte_ptr\<close> and \<open>pde_ptr\<close> are
  virtual addresses of the page-table entry and the directory entry the processor consults.
\<close>

theorem recursive_mapping_correct:
  assumes "self_mapped m" and "mmu_walk m va = Some pa"
  shows "addr_v2p va m = Some pa \<and> mmu_walk m (pde_ptr va) = Some (pde_at m va) \<and>
    mmu_walk m (pte_ptr va) = Some (pte_at m va)"
proof -
  have "pde_present m va" using assms(2) by (simp add: walk_simps split: if_splits)
  then show ?thesis
    using addr_v2p_walk [OF assms] walk_pde_ptr [OF assms(1)] walk_pte_ptr [OF assms(1), of va] by simp
qed

text \<open>
  \<open>page_table_pte_remove\<close> unmaps the page it is given and no other: afterwards an access to that
  page faults, and every other address of the space is translated as before.
\<close>

theorem page_table_pte_remove_unmaps:
  assumes "self_mapped m" and "own_table m va" and "pde_present m va"
  shows "\<exists>m'. page_table_pte_remove va m = Some m' \<and>
    (\<forall>x. mmu_walk m' x = (if same_page x va then None else mmu_walk m x))"
proof -
  let ?v = "ram m (pte_at m va) AND NOT PG_P_1"
  let ?m = "m\<lparr>ram := (ram m)(pte_at m va := ?v)\<rparr>"
  have "page_table_pte_remove va m = Some ?m"
    using assms by (simp add: page_table_pte_remove_def load_pte store_pte)
  moreover have "?v AND 1 = 0"
    by (rule bit_eqI) (auto simp: bit_simps PG_P_1_def)
  ultimately show ?thesis using set_pte_walk [OF assms(2,3) refl, of ?v] by simp
qed

definition demo_mmu :: mmu where
  "demo_mmu = \<lparr>cr3 = 0x100000, ram = (\<lambda>_. 0)(0x100ffc := 0x100007, 0x100c00 := 0x101007, 0x101400 := 0x200007)\<rparr>"

lemma demo_mmu_dir: "ram demo_mmu (pde_at demo_mmu x) =
    (if PDE_IDX x = 0x3ff then 0x100007 else if PDE_IDX x = 0x300 then 0x101007 else 0)"
proof -
  have f: "frame_of (0x100000 :: u32) = 0x100000" by (simp add: frame_of_def)
  have a: "pde_at demo_mmu x = 0x100000 + 4 * PDE_IDX x"
    using pde_at_frame [of demo_mmu x] f by (simp add: demo_mmu_def)
  have i: "PDE_IDX 0xffc00000 = 0x3ff" "PDE_IDX 0xc0000000 = 0x300" by (simp_all add: PDE_IDX_def)
  have 1: "0x100000 + 4 * PDE_IDX x = 0x100ffc \<longleftrightarrow> PDE_IDX x = 0x3ff"
    using dir_slots_distinct [of "0x100000" x "0xffc00000"] by (simp add: f i)
  have 2: "0x100000 + 4 * PDE_IDX x = 0x100c00 \<longleftrightarrow> PDE_IDX x = 0x300"
    using dir_slots_distinct [of "0x100000" x "0xc0000000"] by (simp add: f i)
  have "0x100000 + 4 * PDE_IDX x \<noteq> 0x101400"
    using slot_dir [of "0x101000" "0x100000" "0x100000" x] by (auto simp: frame_of_def PTE_IDX_def)
  with 1 2 show ?thesis unfolding a by (simp add: demo_mmu_def)
qed

lemma demo_mmu_ok:
  "self_mapped demo_mmu" "own_table demo_mmu 0xc0100000" "pde_present demo_mmu 0xc0100000"
  "mmu_walk demo_mmu 0xc0100abc = Some 0x200abc"
proof -
  have i: "PDE_IDX 0xc0100000 = 0x300" "PDE_IDX 0xc0100abc = 0x300" "PTE_IDX 0xc0100abc = 0x100"
    by (simp_all add: PDE_IDX_def PTE_IDX_def)
  show "self_mapped demo_mmu" by (simp add: self_mapped_def demo_mmu_def frame_of_def)
  show "own_table demo_mmu 0xc0100000"
    unfolding own_table_def pde_present_def demo_mmu_dir i by (auto simp: demo_mmu_def frame_of_def)
  show p: "pde_present demo_mmu 0xc0100000" unfolding pde_present_def demo_mmu_dir i by simp
  have q: "pde_present demo_mmu 0xc0100abc" unfolding pde_present_def demo_mmu_dir i by simp
  have "pte_at demo_mmu 0xc0100abc = 0x101400"
    unfolding pte_at_frame demo_mmu_dir i by (simp add: frame_of_def)
  then show "mmu_walk demo_mmu 0xc0100abc = Some 0x200abc"
    using q by (simp add: walk_simps pte_present_def) (simp add: demo_mmu_def frame_of_def)
qed

theorem recursive_mapping_correct_witness:
  "addr_v2p 0xc0100abc demo_mmu = Some 0x200abc"
  using recursive_mapping_correct [of demo_mmu "0xc0100abc" "0x200abc"] demo_mmu_ok by blast

theorem page_table_pte_remove_unmaps_witness:
  "\<exists>m'. page_table_pte_remove 0xc0100000 demo_mmu = Some m' \<and> mmu_walk m' 0xc0100abc = None"
proof -
  have "same_page 0xc0100abc 0xc0100000" by (simp add: same_page_def PDE_IDX_def PTE_IDX_def)
  then show ?thesis
    using page_table_pte_remove_unmaps [of demo_mmu "0xc0100000"] demo_mmu_ok by metis
qed

end
