(* ===== verification/Kernel_Thread.thy ===== *)
theory Kernel_Thread
  imports Kernel_List Kernel_Bitmap Kernel_Paging
begin

text \<open>
  \<open>thread/thread.c\<close>, with the parts of \<open>userprog/process.c\<close> and \<open>userprog/tss.c\<close> a task switch
  runs and the clock interrupt of \<open>device/timer.c\<close>. The state is one record for the whole kernel;
  a task is named by the address of its \<open>task_struct\<close>, and \<open>running\<close> is what \<open>running_thread()\<close>
  computes from the stack pointer.

  The kernel's lists are plain lists (their contract is in \<open>Kernel_List\<close>), holding tasks
  in place of the tags embedded in them.

  A function that switches to another task does not come back until the task is switched to again.
  What is left for it to do is a frame on the task's kernel stack \<open>kstack\<close>; the functions push it
  before they call \<open>schedule\<close>, and \<open>Kernel_Sync\<close> runs the frames of the running task one by one.
\<close>

type_synonym task = u32

datatype task_status =
  TASK_RUNNING | TASK_READY | TASK_BLOCKED | TASK_WAITING | TASK_HANGING | TASK_DIED

record virtual_addr =
  vaddr_bitmap :: bitmap
  vaddr_start :: u32

record mem_block_desc =
  block_size :: u32
  blocks_per_arena :: u32
  free_list :: "u32 list"

record task_struct =
  self_kstack :: u32
  pid :: u16
  status :: task_status
  priority :: u8
  name :: "u8 list"
  ticks :: u8
  elapsed_ticks :: u32
  fd_table :: "u32 list"
  pgdir :: u32
  userprog_vaddr :: virtual_addr
  u_block_desc :: "mem_block_desc list"
  cwd_inode_nr :: u32
  parent_pid :: u16
  stack_magic :: u32

record semaphore =
  "value" :: u8
  waiters :: "task list"

record lock =
  holder :: task
  holder_repeat_nr :: u32

datatype frame =
    Intr_restore intr_status    \<comment> \<open>the end of \<open>thread_block\<close> and \<open>thread_yield\<close>\<close>
  | Iret u32                    \<comment> \<open>return from the clock interrupt, with the flags it found\<close>
  | Kernel_thread               \<comment> \<open>the first instructions of a new thread\<close>
  | Idle | Idle_hlt             \<comment> \<open>the two halves of the idle thread's loop\<close>
  | Thread_yield
  | Sema_down u32 | Sema_loop u32 intr_status | Sema_up u32
  | Lock_acquire u32 | Lock_got u32 | Lock_repeat u32
  | Lock_release u32 | Lock_clear u32 | Lock_clear_repeat u32

record kstate = cpu +
  running :: task
  tasks :: "task \<rightharpoonup> task_struct"
  thread_ready_list :: "task list"
  thread_all_list :: "task list"
  main_thread :: task
  idle_thread :: task
  total_ticks :: u32
  mmu :: mmu
  tss_esp0 :: u32
  semas :: "u32 \<rightharpoonup> semaphore"
  locks :: "u32 \<rightharpoonup> lock"
  kstack :: "task \<Rightarrow> frame list"

definition stack_magic_value :: u32 where
  "stack_magic_value = 0x20050102"

definition upd_task :: "task \<Rightarrow> (task_struct \<Rightarrow> task_struct) \<Rightarrow> 'z kstate_scheme \<Rightarrow> 'z kstate_scheme option" where
  "upd_task t f s = do {
     p \<leftarrow> tasks s t;
     Some (s\<lparr>tasks := (tasks s)(t \<mapsto> f p)\<rparr>) }"

definition push_frame :: "frame \<Rightarrow> 'z kstate_scheme \<Rightarrow> 'z kstate_scheme" where
  "push_frame f s = s\<lparr>kstack := (kstack s)(running s := f # kstack s (running s))\<rparr>"

subsection \<open>Switching tasks\<close>

definition update_tss_esp :: "task \<Rightarrow> 'z kstate_scheme \<Rightarrow> 'z kstate_scheme" where
  "update_tss_esp pthread s = s\<lparr>tss_esp0 := pthread + PG_SIZE\<rparr>"

definition page_dir_activate :: "task \<Rightarrow> 'z kstate_scheme \<Rightarrow> 'z kstate_scheme option" where
  "page_dir_activate p_thread s = do {
     p \<leftarrow> tasks s p_thread;
     pagedir_phy_addr \<leftarrow> (if pgdir p \<noteq> 0 then addr_v2p (pgdir p) (mmu s) else Some 0x100000);
     Some (s\<lparr>mmu := (mmu s)\<lparr>cr3 := pagedir_phy_addr\<rparr>\<rparr>) }"

definition process_activate :: "task \<Rightarrow> 'z kstate_scheme \<Rightarrow> 'z kstate_scheme option" where
  "process_activate p_thread s = do {
     ASSERT (p_thread \<noteq> 0);
     s \<leftarrow> page_dir_activate p_thread s;
     p \<leftarrow> tasks s p_thread;
     Some (if pgdir p \<noteq> 0 then update_tss_esp p_thread s else s) }"

text \<open>
  \<open>switch_to\<close> leaves the outgoing task's stack as it is and continues on the other's: the frames
  of both are in \<open>kstack\<close>, so only the stack pointer moves.
\<close>

definition switch_to :: "task \<Rightarrow> task \<Rightarrow> 'z kstate_scheme \<Rightarrow> 'z kstate_scheme" where
  "switch_to cur nxt s = s\<lparr>running := nxt\<rparr>"

definition thread_unblock :: "task \<Rightarrow> 'z kstate_scheme \<Rightarrow> 'z kstate_scheme option" where
  "thread_unblock pthread s = do {
     let (old_status, s) = intr_disable s;
     p \<leftarrow> tasks s pthread;
     ASSERT (status p = TASK_BLOCKED \<or> status p = TASK_WAITING \<or> status p = TASK_HANGING);
     s \<leftarrow> (if status p \<noteq> TASK_READY then do {
             found \<leftarrow> q_find pthread (thread_ready_list s);
             ASSERT (\<not> found);
             found \<leftarrow> q_find pthread (thread_ready_list s);
             if found then None \<comment> \<open>PANIC\<close>
             else do {
               l \<leftarrow> q_push pthread (thread_ready_list s);
               upd_task pthread (\<lambda>p. p\<lparr>status := TASK_READY\<rparr>) (s\<lparr>thread_ready_list := l\<rparr>) } }
           else Some s);
     Some (snd (intr_set_status old_status s)) }"

definition schedule :: "'z kstate_scheme \<Rightarrow> 'z kstate_scheme option" where
  "schedule s = do {
     ASSERT (intr_get_status s = INTR_OFF);
     let cur = running s;
     p \<leftarrow> tasks s cur;
     s \<leftarrow> (if status p = TASK_RUNNING then do {
             found \<leftarrow> q_find cur (thread_ready_list s);
             ASSERT (\<not> found);
             l \<leftarrow> q_append cur (thread_ready_list s);
             upd_task cur (\<lambda>p. p\<lparr>ticks := priority p, status := TASK_READY\<rparr>)
               (s\<lparr>thread_ready_list := l\<rparr>) }
           else Some s);
     empty \<leftarrow> q_empty (thread_ready_list s);
     s \<leftarrow> (if empty then thread_unblock (idle_thread s) s else Some s);
     empty \<leftarrow> q_empty (thread_ready_list s);
     ASSERT (\<not> empty);
     (thread_tag, l) \<leftarrow> q_pop (thread_ready_list s);
     s \<leftarrow> upd_task thread_tag (\<lambda>p. p\<lparr>status := TASK_RUNNING\<rparr>) (s\<lparr>thread_ready_list := l\<rparr>);
     s \<leftarrow> process_activate thread_tag s;
     Some (switch_to cur thread_tag s) }"

definition thread_block :: "task_status \<Rightarrow> 'z kstate_scheme \<Rightarrow> 'z kstate_scheme option" where
  "thread_block stat s = do {
     ASSERT (stat = TASK_BLOCKED \<or> stat = TASK_WAITING \<or> stat = TASK_HANGING);
     let (old_status, s) = intr_disable s;
     s \<leftarrow> upd_task (running s) (\<lambda>p. p\<lparr>status := stat\<rparr>) s;
     schedule (push_frame (Intr_restore old_status) s) }"

definition thread_yield :: "'z kstate_scheme \<Rightarrow> 'z kstate_scheme option" where
  "thread_yield s = do {
     let cur = running s;
     let (old_status, s) = intr_disable s;
     found \<leftarrow> q_find cur (thread_ready_list s);
     ASSERT (\<not> found);
     l \<leftarrow> q_append cur (thread_ready_list s);
     s \<leftarrow> upd_task cur (\<lambda>p. p\<lparr>status := TASK_READY\<rparr>) (s\<lparr>thread_ready_list := l\<rparr>);
     schedule (push_frame (Intr_restore old_status) s) }"

definition intr_timer_handler :: "'z kstate_scheme \<Rightarrow> 'z kstate_scheme option" where
  "intr_timer_handler s = do {
     let cur_thread = running s;
     p \<leftarrow> tasks s cur_thread;
     ASSERT (stack_magic p = stack_magic_value);
     s \<leftarrow> upd_task cur_thread (\<lambda>p. p\<lparr>elapsed_ticks := elapsed_ticks p + 1\<rparr>) s;
     let s = s\<lparr>total_ticks := total_ticks s + 1\<rparr>;
     if ticks p = 0 then schedule s
     else upd_task cur_thread (\<lambda>p. p\<lparr>ticks := ticks p - 1\<rparr>) s }"

subsection \<open>The scheduler's invariant\<close>

text \<open>
  \<open>sched_pre\<close> is what \<open>schedule\<close> needs, \<open>sched_ok\<close> what holds between any two steps: the ready list
  holds exactly the ready tasks, each once; exactly the task on the processor is running; the idle
  thread, when it is not on the processor and not ready, is blocked; every page directory is mapped
  in every address space a switch can load.
\<close>

definition st :: "'z kstate_scheme \<Rightarrow> task \<Rightarrow> task_status option" where
  "st s t = map_option status (tasks s t)"

definition dirs_ok :: "'z kstate_scheme \<Rightarrow> bool" where
  "dirs_ok s \<longleftrightarrow> (\<exists>D. cr3 (mmu s) \<in> D \<and> 0x100000 \<in> D \<and>
     (\<forall>c \<in> D. \<forall>t p. tasks s t = Some p \<and> pgdir p \<noteq> 0 \<longrightarrow>
        (\<exists>pa \<in> D. addr_v2p (pgdir p) ((mmu s)\<lparr>cr3 := c\<rparr>) = Some pa)))"

definition tasks_ok :: "'z kstate_scheme \<Rightarrow> bool" where
  "tasks_ok s \<longleftrightarrow> distinct (thread_ready_list s) \<and>
     (\<forall>t. t \<in> set (thread_ready_list s) \<longleftrightarrow> st s t = Some TASK_READY) \<and>
     (\<forall>t. st s t = Some TASK_RUNNING \<longrightarrow> t = running s) \<and> running s \<in> dom (tasks s) \<and>
     st s (idle_thread s) \<in> {Some TASK_RUNNING, Some TASK_READY, Some TASK_BLOCKED} \<and>
     tasks s 0 = None \<and> (\<forall>t p. tasks s t = Some p \<longrightarrow> stack_magic p = stack_magic_value) \<and> dirs_ok s"

definition sched_ok :: "'z kstate_scheme \<Rightarrow> bool" where
  "sched_ok s \<longleftrightarrow> tasks_ok s \<and> st s (running s) = Some TASK_RUNNING"

text \<open>What the scheduler never touches.\<close>

definition same_sync :: "'z kstate_scheme \<Rightarrow> 'z kstate_scheme \<Rightarrow> bool" where
  "same_sync s s' \<longleftrightarrow> locks s' = locks s \<and> semas s' = semas s \<and> kstack s' = kstack s \<and>
     idle_thread s' = idle_thread s \<and> dom (tasks s') = dom (tasks s) \<and>
     thread_all_list s' = thread_all_list s \<and> main_thread s' = main_thread s"

lemma same_sync_refl [simp]: "same_sync s s"
  by (simp add: same_sync_def)

lemma same_sync_trans: "same_sync s s' \<Longrightarrow> same_sync s' s'' \<Longrightarrow> same_sync s s''"
  by (simp add: same_sync_def)

lemma upd_task_Some: "tasks s t = Some p \<Longrightarrow> upd_task t f s = Some (s\<lparr>tasks := (tasks s)(t \<mapsto> f p)\<rparr>)"
  by (simp add: upd_task_def)

lemma st_eq_Some: "st s t = Some v \<longleftrightarrow> (\<exists>p. tasks s t = Some p \<and> status p = v)"
  by (auto simp: st_def)

lemma st_dom: "st s t = Some v \<Longrightarrow> t \<in> dom (tasks s)"
  by (auto simp: st_def)

lemma flags_only [simp]:
  "running (snd (intr_disable s)) = running s" "running (snd (intr_set_status o' s)) = running s"
  "tasks (snd (intr_disable s)) = tasks s" "tasks (snd (intr_set_status o' s)) = tasks s"
  "thread_ready_list (snd (intr_disable s)) = thread_ready_list s"
  "thread_ready_list (snd (intr_set_status o' s)) = thread_ready_list s"
  "mmu (snd (intr_disable s)) = mmu s" "mmu (snd (intr_set_status o' s)) = mmu s"
  "idle_thread (snd (intr_disable s)) = idle_thread s" "idle_thread (snd (intr_set_status o' s)) = idle_thread s"
  "kstack (snd (intr_disable s)) = kstack s" "kstack (snd (intr_set_status o' s)) = kstack s"
  "locks (snd (intr_disable s)) = locks s" "locks (snd (intr_set_status o' s)) = locks s"
  "semas (snd (intr_disable s)) = semas s" "semas (snd (intr_set_status o' s)) = semas s"
  "thread_all_list (snd (intr_disable s)) = thread_all_list s"
  "thread_all_list (snd (intr_set_status o' s)) = thread_all_list s"
  "main_thread (snd (intr_disable s)) = main_thread s" "main_thread (snd (intr_set_status o' s)) = main_thread s"
  by (subst disable_flags, simp; fail | subst set_status_flags, simp; fail)+

lemma flags_st [simp]: "st (snd (intr_disable s)) t = st s t" "st (snd (intr_set_status o' s)) t = st s t"
  by (simp_all add: st_def)

lemma flags_tasks_ok [simp]:
  "tasks_ok (snd (intr_disable s)) = tasks_ok s" "tasks_ok (snd (intr_set_status o' s)) = tasks_ok s"
  by (simp_all add: tasks_ok_def dirs_ok_def)

lemma intr_off_same:
  "intr_get_status s = INTR_OFF \<Longrightarrow> intr_disable s = (INTR_OFF, s)"
  by (simp add: intr_disable_def)

lemma thread_unblock_ok:
  assumes "st s t \<in> {Some TASK_BLOCKED, Some TASK_WAITING, Some TASK_HANGING}"
    and "t \<notin> set (thread_ready_list s)"
  shows "\<exists>p. thread_unblock t s = Some (s\<lparr>thread_ready_list := t # thread_ready_list s,
           tasks := (tasks s)(t \<mapsto> p\<lparr>status := TASK_READY\<rparr>)\<rparr>) \<and> tasks s t = Some p"
proof -
  obtain p where p: "tasks s t = Some p" "status p \<in> {TASK_BLOCKED, TASK_WAITING, TASK_HANGING}"
    using assms(1) by (auto simp: st_eq_Some)
  obtain o1 s1 where d: "intr_disable s = (o1, s1)" by fastforce
  then have s1: "tasks s1 = tasks s" "thread_ready_list s1 = thread_ready_list s"
    by (metis flags_only(3) snd_conv, metis flags_only(5) snd_conv)
  let ?f = "\<lambda>x :: 'a kstate_scheme. x\<lparr>thread_ready_list := t # thread_ready_list x,
     tasks := (tasks x)(t \<mapsto> p\<lparr>status := TASK_READY\<rparr>)\<rparr>"
  have "thread_unblock t s = Some (snd (intr_set_status o1 (?f s1)))"
    using p assms(2) by (auto simp: thread_unblock_def d q_defs upd_task_def s1)
  also have "snd (intr_set_status o1 (?f s1)) = ?f s"
    by (rule critical_section [OF d]) simp_all
  finally show ?thesis using p by blast
qed


lemma process_activate_ok:
  assumes "dirs_ok s" and "t \<in> dom (tasks s)" and "t \<noteq> 0"
  shows "\<exists>c e. process_activate t s = Some (s\<lparr>mmu := (mmu s)\<lparr>cr3 := c\<rparr>, tss_esp0 := e\<rparr>) \<and>
    dirs_ok (s\<lparr>mmu := (mmu s)\<lparr>cr3 := c\<rparr>, tss_esp0 := e\<rparr>)"
proof -
  obtain D where D: "cr3 (mmu s) \<in> D" "0x100000 \<in> D"
    "\<forall>c \<in> D. \<forall>t p. tasks s t = Some p \<and> pgdir p \<noteq> 0 \<longrightarrow>
        (\<exists>pa \<in> D. addr_v2p (pgdir p) ((mmu s)\<lparr>cr3 := c\<rparr>) = Some pa)"
    using assms(1) unfolding dirs_ok_def by blast
  obtain p where p: "tasks s t = Some p" using assms(2) by auto
  have ok: "dirs_ok (s\<lparr>mmu := (mmu s)\<lparr>cr3 := c\<rparr>, tss_esp0 := e\<rparr>)" if "c \<in> D" for c e
    unfolding dirs_ok_def by (rule exI [of _ D]) (use D that in simp)
  show ?thesis
  proof (cases "pgdir p = 0")
    case True
    have "process_activate t s = Some (s\<lparr>mmu := (mmu s)\<lparr>cr3 := 0x100000\<rparr>, tss_esp0 := tss_esp0 s\<rparr>)"
      using p True assms(3) by (simp add: process_activate_def page_dir_activate_def)
    with ok [OF D(2)] show ?thesis by blast
  next
    case False
    have "(mmu s)\<lparr>cr3 := cr3 (mmu s)\<rparr> = mmu s" by simp
    then obtain pa where pa: "pa \<in> D" "addr_v2p (pgdir p) (mmu s) = Some pa"
      using D(1,3) p False by metis
    have "process_activate t s = Some (s\<lparr>mmu := (mmu s)\<lparr>cr3 := pa\<rparr>, tss_esp0 := t + PG_SIZE\<rparr>)"
      using p False pa assms(3) by (simp add: process_activate_def page_dir_activate_def update_tss_esp_def)
    with ok [OF pa(1)] show ?thesis by blast
  qed
qed

text \<open>
  A change of tasks that leaves \<open>pgdir\<close> and \<open>stack_magic\<close> alone: the part of the invariant that is
  not about statuses survives.
\<close>

lemma dirs_ok_upd:
  assumes "dirs_ok s" and "mmu s' = mmu s"
    and "\<And>t p'. tasks s' t = Some p' \<Longrightarrow> \<exists>p. tasks s t = Some p \<and> pgdir p' = pgdir p"
  shows "dirs_ok s'"
proof -
  obtain D where D: "cr3 (mmu s) \<in> D" "0x100000 \<in> D"
    "\<And>c t p. c \<in> D \<Longrightarrow> tasks s t = Some p \<Longrightarrow> pgdir p \<noteq> 0 \<Longrightarrow>
        \<exists>pa \<in> D. addr_v2p (pgdir p) ((mmu s)\<lparr>cr3 := c\<rparr>) = Some pa"
    using assms(1) unfolding dirs_ok_def by blast
  have "\<exists>pa \<in> D. addr_v2p (pgdir p') ((mmu s')\<lparr>cr3 := c\<rparr>) = Some pa"
    if "c \<in> D" "tasks s' t = Some p'" "pgdir p' \<noteq> 0" for c t p'
    using assms(3) [OF that(2)] D(3) [OF that(1)] that(3) assms(2) by auto
  then show ?thesis unfolding dirs_ok_def using D(1,2) assms(2) by (intro exI [of _ D]) auto
qed

lemma st_upd [simp]: "st (s\<lparr>tasks := (tasks s)(t \<mapsto> p)\<rparr>) u = (if u = t then Some (status p) else st s u)"
  by (simp add: st_def)

lemma st_ready [simp]: "st (s\<lparr>thread_ready_list := l\<rparr>) = st s"
  by (rule ext) (simp add: st_def)

text \<open>A task goes to the front or the back of the ready list and becomes ready.\<close>

lemma tasks_ok_enqueue:
  assumes ok: "tasks_ok s" and p: "tasks s t = Some p" and nr: "t \<notin> set (thread_ready_list s)"
    and l: "l = t # thread_ready_list s \<or> l = thread_ready_list s @ [t]"
    and p': "status p' = TASK_READY" "pgdir p' = pgdir p" "stack_magic p' = stack_magic p"
  shows "tasks_ok (s\<lparr>thread_ready_list := l, tasks := (tasks s)(t \<mapsto> p')\<rparr>)" (is "tasks_ok ?s")
proof -
  have d: "dirs_ok ?s"
    by (rule dirs_ok_upd [of s]) (use ok p p' in \<open>auto simp: tasks_ok_def split: if_splits\<close>)
  have s: "st ?s u = (if u = t then Some TASK_READY else st s u)" for u
    using p' by (simp add: st_def)
  show ?thesis
    unfolding tasks_ok_def s using ok p nr l p' d by (auto simp: tasks_ok_def split: if_splits)
qed

text \<open>The task \<open>schedule\<close> chooses, and the ready list it leaves.\<close>

definition next_task :: "'z kstate_scheme \<Rightarrow> task" where
  "next_task s =
     (if st s (running s) = Some TASK_RUNNING then hd (thread_ready_list s @ [running s])
      else if thread_ready_list s = [] then idle_thread s else hd (thread_ready_list s))"

definition next_ready :: "'z kstate_scheme \<Rightarrow> task list" where
  "next_ready s =
     (if st s (running s) = Some TASK_RUNNING then tl (thread_ready_list s @ [running s])
      else tl (thread_ready_list s))"

definition scheduled :: "'z kstate_scheme \<Rightarrow> 'z kstate_scheme \<Rightarrow> bool" where
  "scheduled s s' \<longleftrightarrow> same_sync s s' \<and> eflags s' = eflags s \<and> running s' = next_task s \<and>
     thread_ready_list s' = next_ready s \<and> total_ticks s' = total_ticks s \<and>
     (\<forall>t. st s' t = (if t = next_task s then Some TASK_RUNNING
        else if t = running s \<and> st s t = Some TASK_RUNNING then Some TASK_READY else st s t))"

text \<open>First the running task, if it is still runnable, goes to the back of the ready list.\<close>

definition requeue :: "'z kstate_scheme \<Rightarrow> task_struct \<Rightarrow> 'z kstate_scheme" where
  "requeue s p =
     (if status p = TASK_RUNNING
      then s\<lparr>thread_ready_list := thread_ready_list s @ [running s],
             tasks := (tasks s)(running s \<mapsto> p\<lparr>ticks := priority p, status := TASK_READY\<rparr>)\<rparr>
      else s)"

lemma requeue_simps [simp]:
  "running (requeue s p) = running s" "eflags (requeue s p) = eflags s" "mmu (requeue s p) = mmu s"
  "idle_thread (requeue s p) = idle_thread s" "total_ticks (requeue s p) = total_ticks s"
  by (simp_all add: requeue_def)

lemma requeue_ok:
  assumes "tasks_ok s" and "tasks s (running s) = Some p"
  shows "tasks_ok (requeue s p)" and "\<forall>t. st (requeue s p) t \<noteq> Some TASK_RUNNING"
    and "same_sync s (requeue s p)"
proof -
  have "running s \<notin> set (thread_ready_list s)" if "status p = TASK_RUNNING"
    using that assms by (auto simp: tasks_ok_def st_eq_Some)
  then show "tasks_ok (requeue s p)"
    using tasks_ok_enqueue [OF assms, of _ "p\<lparr>ticks := priority p, status := TASK_READY\<rparr>"] assms(1)
    by (simp add: requeue_def)
  show "\<forall>t. st (requeue s p) t \<noteq> Some TASK_RUNNING"
    using assms by (auto simp: requeue_def st_def tasks_ok_def)
  show "same_sync s (requeue s p)" using assms(2) by (auto simp: requeue_def same_sync_def)
qed

lemma wake_idle:
  assumes "tasks_ok s" and "\<forall>t. st s t \<noteq> Some TASK_RUNNING"
  shows "\<exists>s'. (if thread_ready_list s = [] then thread_unblock (idle_thread s) s else Some s) = Some s' \<and>
    tasks_ok s' \<and> (\<forall>t. st s' t \<noteq> Some TASK_RUNNING) \<and> same_sync s s' \<and> eflags s' = eflags s \<and>
    running s' = running s \<and> total_ticks s' = total_ticks s \<and>
    thread_ready_list s' = (if thread_ready_list s = [] then [idle_thread s] else thread_ready_list s) \<and>
    (\<forall>t. t \<noteq> hd (thread_ready_list s') \<longrightarrow> st s' t = st s t)"
proof (cases "thread_ready_list s = []")
  case True
  have i: "st s (idle_thread s) = Some TASK_BLOCKED"
    using assms True unfolding tasks_ok_def by (metis empty_iff empty_set insertE)
  then obtain p where p: "tasks s (idle_thread s) = Some p"
    "thread_unblock (idle_thread s) s = Some (s\<lparr>thread_ready_list := idle_thread s # thread_ready_list s,
           tasks := (tasks s)(idle_thread s \<mapsto> p\<lparr>status := TASK_READY\<rparr>)\<rparr>)"
    using thread_unblock_ok [of s "idle_thread s"] True by auto
  have "tasks_ok (s\<lparr>thread_ready_list := idle_thread s # thread_ready_list s,
           tasks := (tasks s)(idle_thread s \<mapsto> p\<lparr>status := TASK_READY\<rparr>)\<rparr>)"
    by (rule tasks_ok_enqueue [OF assms(1) p(1)]) (use True in simp_all)
  with p True assms(2) show ?thesis by (auto simp: same_sync_def st_def)
qed (use assms in simp)

definition dispatch :: "task \<Rightarrow> task list \<Rightarrow> 'z kstate_scheme \<Rightarrow> 'z kstate_scheme option" where
  "dispatch t l s = do {
     s \<leftarrow> upd_task t (\<lambda>p. p\<lparr>status := TASK_RUNNING\<rparr>) (s\<lparr>thread_ready_list := l\<rparr>);
     s \<leftarrow> process_activate t s;
     Some (switch_to (running s) t s) }"

lemma dispatch_ok:
  assumes ok: "tasks_ok s" and nr: "\<forall>t. st s t \<noteq> Some TASK_RUNNING"
    and r: "thread_ready_list s = t # l"
  shows "\<exists>s'. dispatch t l s = Some s' \<and> sched_ok s' \<and> same_sync s s' \<and> eflags s' = eflags s \<and>
    running s' = t \<and> thread_ready_list s' = l \<and> total_ticks s' = total_ticks s \<and>
    (\<forall>u. st s' u = (if u = t then Some TASK_RUNNING else st s u))"
proof -
  have "st s t = Some TASK_READY" using ok r by (auto simp: tasks_ok_def)
  then obtain p where p: "tasks s t = Some p" "status p = TASK_READY" by (auto simp: st_eq_Some)
  let ?s = "s\<lparr>thread_ready_list := l, tasks := (tasks s)(t \<mapsto> p\<lparr>status := TASK_RUNNING\<rparr>)\<rparr>"
  have d: "dirs_ok ?s"
    by (rule dirs_ok_upd [of s]) (use ok p in \<open>auto simp: tasks_ok_def split: if_splits\<close>)
  have t0: "t \<noteq> 0" using ok p by (auto simp: tasks_ok_def)
  obtain c e where a: "process_activate t ?s = Some (?s\<lparr>mmu := (mmu ?s)\<lparr>cr3 := c\<rparr>, tss_esp0 := e\<rparr>)"
    "dirs_ok (?s\<lparr>mmu := (mmu ?s)\<lparr>cr3 := c\<rparr>, tss_esp0 := e\<rparr>)"
    using process_activate_ok [OF d _ t0] by auto
  let ?s' = "?s\<lparr>mmu := (mmu ?s)\<lparr>cr3 := c\<rparr>, tss_esp0 := e, running := t\<rparr>"
  have run: "dispatch t l s = Some ?s'"
    using a(1) p(1) by (simp add: dispatch_def upd_task_def switch_to_def)
  have st': "st ?s' u = (if u = t then Some TASK_RUNNING else st s u)" for u by (simp add: st_def)
  have d': "dirs_ok ?s'" using a(2) by (simp add: dirs_ok_def)
  have sync: "same_sync s ?s'" using p by (auto simp: same_sync_def)
  have "tasks_ok ?s'"
    unfolding tasks_ok_def st' using ok nr r p d' by (auto simp: tasks_ok_def split: if_splits)
  with run st' sync show ?thesis by (simp add: sched_ok_def)
qed

lemma schedule_ok:
  assumes ok: "tasks_ok s" and off: "intr_get_status s = INTR_OFF"
  shows "\<exists>s'. schedule s = Some s' \<and> sched_ok s' \<and> scheduled s s'"
proof -
  obtain p where p: "tasks s (running s) = Some p" using ok by (auto simp: tasks_ok_def)
  note rq = requeue_ok [OF ok p]
  obtain s2 where s2: "(if thread_ready_list (requeue s p) = [] then thread_unblock (idle_thread s) (requeue s p)
       else Some (requeue s p)) = Some s2" "tasks_ok s2" "\<forall>t. st s2 t \<noteq> Some TASK_RUNNING"
      "same_sync (requeue s p) s2" "eflags s2 = eflags s" "running s2 = running s" "total_ticks s2 = total_ticks s"
      "thread_ready_list s2 = (if thread_ready_list (requeue s p) = [] then [idle_thread s]
         else thread_ready_list (requeue s p))"
      "\<forall>t. t \<noteq> hd (thread_ready_list s2) \<longrightarrow> st s2 t = st (requeue s p) t"
    using wake_idle [OF rq(1,2), unfolded requeue_simps] by blast
  have rl: "thread_ready_list s2 = next_task s # next_ready s"
    unfolding s2(8) by (cases "thread_ready_list s") (auto simp: requeue_def next_task_def next_ready_def st_def p)
  from dispatch_ok [OF s2(2,3) rl] obtain s' where s': "dispatch (next_task s) (next_ready s) s2 = Some s'" "sched_ok s'" "same_sync s2 s'"
      "eflags s' = eflags s2" "running s' = next_task s" "thread_ready_list s' = next_ready s"
      "total_ticks s' = total_ticks s2" "\<forall>u. st s' u = (if u = next_task s then Some TASK_RUNNING else st s2 u)"
    by blast
  have nr: "running s \<notin> set (thread_ready_list s)" if "status p = TASK_RUNNING"
    using that ok p by (auto simp: tasks_ok_def st_eq_Some)
  have first: "(if status p = TASK_RUNNING then do {
             found \<leftarrow> q_find (running s) (thread_ready_list s);
             ASSERT (\<not> found);
             l \<leftarrow> q_append (running s) (thread_ready_list s);
             upd_task (running s) (\<lambda>p. p\<lparr>ticks := priority p, status := TASK_READY\<rparr>)
               (s\<lparr>thread_ready_list := l\<rparr>) }
           else Some s) = Some (requeue s p)"
    using nr p by (simp add: q_defs upd_task_def requeue_def)
  have "schedule s = Some s'"
    unfolding schedule_def Let_def p off
    using s'(1) s2(1) rl
    by (cases "thread_ready_list (requeue s p) = []")
      (simp_all add: first q_empty_def q_pop_def dispatch_def switch_to_def)
  moreover have "scheduled s s'"
    unfolding scheduled_def
  proof (intro conjI allI)
    show "same_sync s s'" using rq(3) s2(4) s'(3) same_sync_trans by blast
    fix t
    have "st s2 t = st (requeue s p) t" if "t \<noteq> next_task s" using s2(9) rl that by auto
    then show "st s' t = (if t = next_task s then Some TASK_RUNNING
        else if t = running s \<and> st s t = Some TASK_RUNNING then Some TASK_READY else st s t)"
      using s'(8) p by (auto simp: requeue_def st_def)
  qed (use s2 s' in auto)
  ultimately show ?thesis using s'(2) by blast
qed

text \<open>Blocking and yielding are a change of status, a frame on the stack, and \<open>schedule\<close>.\<close>

lemma tasks_ok_kstack [simp]: "tasks_ok (s\<lparr>kstack := k\<rparr>) = tasks_ok s"
  by (simp add: tasks_ok_def dirs_ok_def st_def)

lemma tasks_ok_eflags [simp]: "tasks_ok (s\<lparr>eflags := e\<rparr>) = tasks_ok s"
  by (simp add: tasks_ok_def dirs_ok_def st_def)

lemma st_more [simp]:
  "st (s\<lparr>kstack := k\<rparr>) = st s" "st (s\<lparr>eflags := e\<rparr>) = st s"
  by (rule ext, simp add: st_def)+

lemma tasks_ok_block:
  assumes ok: "sched_ok s" and p: "tasks s (running s) = Some p"
  shows "tasks_ok (s\<lparr>tasks := (tasks s)(running s \<mapsto> p\<lparr>status := TASK_BLOCKED\<rparr>)\<rparr>)" (is "tasks_ok ?s")
proof -
  have r: "st s (running s) = Some TASK_RUNNING" using ok by (simp add: sched_ok_def)
  have a: "distinct (thread_ready_list s)" "\<And>t. t \<in> set (thread_ready_list s) \<longleftrightarrow> st s t = Some TASK_READY"
    "\<And>t. st s t = Some TASK_RUNNING \<Longrightarrow> t = running s"
    "st s (idle_thread s) \<in> {Some TASK_RUNNING, Some TASK_READY, Some TASK_BLOCKED}"
    "tasks s 0 = None" "\<And>t p. tasks s t = Some p \<Longrightarrow> stack_magic p = stack_magic_value" "dirs_ok s"
    using ok unfolding sched_ok_def tasks_ok_def by blast+
  have d: "dirs_ok ?s"
    by (rule dirs_ok_upd [OF a(7)]) (use p in \<open>auto split: if_splits\<close>)
  have s: "st ?s t = (if t = running s then Some TASK_BLOCKED else st s t)" for t by simp
  have "stack_magic p = stack_magic_value" "running s \<noteq> 0" using a(5,6) p by auto
  then show ?thesis
    unfolding tasks_ok_def s using a(1,4,5,6) d r
    by (intro conjI allI) (auto simp: a(2) dest: a(3))
qed

lemma intr_get_status_kstate [simp]:
  "intr_get_status (s\<lparr>tasks := T\<rparr>) = intr_get_status s" "intr_get_status (s\<lparr>kstack := k\<rparr>) = intr_get_status s"
  "intr_get_status (s\<lparr>thread_ready_list := l\<rparr>) = intr_get_status s"
  "intr_get_status (s\<lparr>total_ticks := n\<rparr>) = intr_get_status s"
  by (simp_all add: intr_get_status_def)

definition switched :: "'z kstate_scheme \<Rightarrow> 'z kstate_scheme \<Rightarrow> task_status \<Rightarrow> task \<Rightarrow> bool" where
  "switched s s' stat nxt \<longleftrightarrow> sched_ok s' \<and> intr_get_status s' = INTR_OFF \<and> running s' = nxt \<and>
     locks s' = locks s \<and> semas s' = semas s \<and> idle_thread s' = idle_thread s \<and>
     dom (tasks s') = dom (tasks s) \<and>
     kstack s' = (kstack s)(running s := Intr_restore (intr_get_status s) # kstack s (running s)) \<and>
     (\<forall>t. st s' t = (if t = nxt then Some TASK_RUNNING else if t = running s then Some stat else st s t))"

lemma thread_block_ok:
  assumes ok: "sched_ok s"
  shows "\<exists>s'. thread_block TASK_BLOCKED s = Some s' \<and>
    switched s s' TASK_BLOCKED (if thread_ready_list s = [] then idle_thread s else hd (thread_ready_list s))"
proof -
  obtain p where p: "tasks s (running s) = Some p" using ok by (auto simp: sched_ok_def tasks_ok_def)
  obtain o1 s1 where d: "intr_disable s = (o1, s1)" by fastforce
  have s1: "s1 = s\<lparr>eflags := eflags s1\<rparr>" "intr_get_status s1 = INTR_OFF" "o1 = intr_get_status s"
    using disable_flags [of s] intr_disable_status [of s] unfolding d by (simp_all only: fst_conv snd_conv)
  let ?b = "s1\<lparr>tasks := (tasks s1)(running s1 \<mapsto> p\<lparr>status := TASK_BLOCKED\<rparr>)\<rparr>"
  let ?s2 = "push_frame (Intr_restore o1) ?b"
  have f: "running s1 = running s" "tasks s1 = tasks s" "thread_ready_list s1 = thread_ready_list s"
      "idle_thread s1 = idle_thread s" "locks s1 = locks s" "semas s1 = semas s" "kstack s1 = kstack s"
    by (subst s1(1), simp)+
  have "sched_ok s1" using ok s1(1) by (metis sched_ok_def tasks_ok_eflags st_more(2) f(1))
  then have ok2: "tasks_ok ?s2" using tasks_ok_block [of s1 p] p f by (simp add: push_frame_def)
  have off: "intr_get_status ?s2 = INTR_OFF" using s1 by (simp add: push_frame_def)
  have b: "thread_block TASK_BLOCKED s = schedule ?s2"
    using p f by (simp add: thread_block_def d upd_task_def)
  have st2: "st ?s2 t = (if t = running s then Some TASK_BLOCKED else st s t)" for t
    using f by (simp add: push_frame_def st_def)
  have nt: "next_task ?s2 = (if thread_ready_list s = [] then idle_thread s else hd (thread_ready_list s))"
    using f st2 by (simp add: next_task_def push_frame_def)
  from schedule_ok [OF ok2 off] obtain s' where s': "schedule ?s2 = Some s'" "sched_ok s'" "scheduled ?s2 s'"
    by blast
  have same: "same_sync ?s2 s'" "eflags s' = eflags ?s2" "running s' = next_task ?s2"
      "\<forall>t. st s' t = (if t = next_task ?s2 then Some TASK_RUNNING
        else if t = running ?s2 \<and> st ?s2 t = Some TASK_RUNNING then Some TASK_READY else st ?s2 t)"
    using s'(3) unfolding scheduled_def by blast+
  have e: "eflags s' = eflags s1" using same(2) by (simp add: push_frame_def)
  then have "intr_get_status s' = INTR_OFF" using s1(2) status_update by metis
  moreover have "kstack s' = (kstack s)(running s := Intr_restore o1 # kstack s (running s))"
      "locks s' = locks s" "semas s' = semas s" "idle_thread s' = idle_thread s" "dom (tasks s') = dom (tasks s)"
    using same(1) f p by (auto simp: same_sync_def push_frame_def)
  moreover have "running ?s2 = running s" using f by (simp add: push_frame_def)
  ultimately have "switched s s' TASK_BLOCKED (next_task ?s2)"
    unfolding switched_def using s'(2) same(3,4) st2 s1(3) by simp
  then show ?thesis using b s'(1) nt by auto
qed

lemma running_not_ready: "sched_ok s \<Longrightarrow> running s \<notin> set (thread_ready_list s)"
  by (simp add: sched_ok_def tasks_ok_def)

lemma running_st: "sched_ok s \<Longrightarrow> st s (running s) = Some TASK_RUNNING"
  by (simp add: sched_ok_def)

lemma ready_st: "sched_ok s \<Longrightarrow> t \<in> set (thread_ready_list s) \<Longrightarrow> st s t = Some TASK_READY"
  unfolding sched_ok_def tasks_ok_def by blast

lemma sched_ok_running: "sched_ok s \<Longrightarrow> \<exists>p. tasks s (running s) = Some p \<and> status p = TASK_RUNNING"
  by (simp add: sched_ok_def st_eq_Some)

lemma thread_yield_ok:
  assumes ok: "sched_ok s"
  shows "\<exists>s'. thread_yield s = Some s' \<and>
    switched s s' TASK_READY (hd (thread_ready_list s @ [running s])) \<and>
    thread_ready_list s' = tl (thread_ready_list s @ [running s])"
proof -
  obtain p where p: "tasks s (running s) = Some p" using sched_ok_running [OF ok] by blast
  note nr = running_not_ready [OF ok]
  obtain o1 s1 where d: "intr_disable s = (o1, s1)" by fastforce
  have s1: "s1 = s\<lparr>eflags := eflags s1\<rparr>" "intr_get_status s1 = INTR_OFF" "o1 = intr_get_status s"
    using disable_flags [of s] intr_disable_status [of s] unfolding d by (simp_all only: fst_conv snd_conv)
  let ?b = "s1\<lparr>thread_ready_list := thread_ready_list s1 @ [running s],
              tasks := (tasks s1)(running s \<mapsto> p\<lparr>status := TASK_READY\<rparr>)\<rparr>"
  let ?s2 = "push_frame (Intr_restore o1) ?b"
  have f: "running s1 = running s" "tasks s1 = tasks s" "thread_ready_list s1 = thread_ready_list s"
      "idle_thread s1 = idle_thread s" "locks s1 = locks s" "semas s1 = semas s" "kstack s1 = kstack s"
    by (subst s1(1), simp)+
  have "tasks_ok s1" using ok s1(1) by (metis sched_ok_def tasks_ok_eflags)
  then have "tasks_ok ?b"
    using tasks_ok_enqueue [of s1 "running s" p _ "p\<lparr>status := TASK_READY\<rparr>"] p f nr by simp
  then have ok2: "tasks_ok ?s2" by (simp add: push_frame_def)
  have off: "intr_get_status ?s2 = INTR_OFF" using s1 by (simp add: push_frame_def)
  have b: "thread_yield s = schedule ?s2"
    using p f nr by (simp add: thread_yield_def d upd_task_def q_defs Let_def)
  have st2: "st ?s2 t = (if t = running s then Some TASK_READY else st s t)" for t
    using f by (simp add: push_frame_def st_def)
  have nt: "next_task ?s2 = hd (thread_ready_list s @ [running s])"
      "next_ready ?s2 = tl (thread_ready_list s @ [running s])"
    using f st2 by (simp_all add: next_task_def next_ready_def push_frame_def)
  from schedule_ok [OF ok2 off] obtain s' where s': "schedule ?s2 = Some s'" "sched_ok s'" "scheduled ?s2 s'"
    by blast
  have same: "same_sync ?s2 s'" "eflags s' = eflags ?s2" "running s' = next_task ?s2"
      "\<forall>t. st s' t = (if t = next_task ?s2 then Some TASK_RUNNING
        else if t = running ?s2 \<and> st ?s2 t = Some TASK_RUNNING then Some TASK_READY else st ?s2 t)"
      "thread_ready_list s' = next_ready ?s2"
    using s'(3) unfolding scheduled_def by blast+
  have e: "eflags s' = eflags s1" using same(2) by (simp add: push_frame_def)
  then have "intr_get_status s' = INTR_OFF" using s1(2) status_update by metis
  moreover have "kstack s' = (kstack s)(running s := Intr_restore o1 # kstack s (running s))"
      "locks s' = locks s" "semas s' = semas s" "idle_thread s' = idle_thread s" "dom (tasks s') = dom (tasks s)"
    using same(1) f p by (auto simp: same_sync_def push_frame_def)
  moreover have "running ?s2 = running s" using f by (simp add: push_frame_def)
  ultimately have "switched s s' TASK_READY (next_task ?s2)"
    unfolding switched_def using s'(2) same(3,4) st2 s1(3) by simp
  then show ?thesis using b s'(1) nt same(5) by metis
qed

lemma sched_ok_fields:
  assumes ok: "sched_ok s" and p: "tasks s t = Some p"
    and p': "status p' = status p" "pgdir p' = pgdir p" "stack_magic p' = stack_magic p"
  shows "sched_ok (s\<lparr>tasks := (tasks s)(t \<mapsto> p')\<rparr>)" "st (s\<lparr>tasks := (tasks s)(t \<mapsto> p')\<rparr>) = st s"
proof -
  let ?s = "s\<lparr>tasks := (tasks s)(t \<mapsto> p')\<rparr>"
  show s: "st ?s = st s" using p p' by (auto simp: st_def fun_eq_iff)
  have "dirs_ok s" using ok by (simp add: sched_ok_def tasks_ok_def)
  then have d: "dirs_ok ?s" by (rule dirs_ok_upd) (use p p' in \<open>auto split: if_splits\<close>)
  have m: "\<And>u q. tasks s u = Some q \<Longrightarrow> stack_magic q = stack_magic_value" "tasks s 0 = None"
      "running s \<in> dom (tasks s)"
    using ok unfolding sched_ok_def tasks_ok_def by blast+
  then have "\<forall>u q. tasks ?s u = Some q \<longrightarrow> stack_magic q = stack_magic_value"
    using p p'(3) by simp
  moreover have "tasks ?s 0 = None" "running s \<in> dom (tasks ?s)" using m p by auto
  ultimately show "sched_ok ?s" using ok d s by (simp add: sched_ok_def tasks_ok_def)
qed

lemma sched_ok_total [simp]: "sched_ok (s\<lparr>total_ticks := n\<rparr>) = sched_ok s" "st (s\<lparr>total_ticks := n\<rparr>) = st s"
  by (simp_all add: sched_ok_def tasks_ok_def dirs_ok_def st_def fun_eq_iff)

lemma intr_timer_handler_ok:
  assumes ok: "sched_ok s" and off: "intr_get_status s = INTR_OFF"
  shows "\<exists>s'. intr_timer_handler s = Some s' \<and> sched_ok s' \<and> same_sync s s' \<and> eflags s' = eflags s \<and>
    total_ticks s' = total_ticks s + 1 \<and>
    running s' = (if ticks (the (tasks s (running s))) = 0 then hd (thread_ready_list s @ [running s]) else running s) \<and>
    (\<forall>t. st s' t = (if t = running s' then Some TASK_RUNNING else if t = running s then Some TASK_READY else st s t))"
proof -
  obtain p where p: "tasks s (running s) = Some p" "status p = TASK_RUNNING" using sched_ok_running [OF ok] by blast
  have m: "stack_magic p = stack_magic_value" using ok p by (auto simp: sched_ok_def tasks_ok_def)
  let ?p = "p\<lparr>elapsed_ticks := elapsed_ticks p + 1\<rparr>"
  let ?s1 = "s\<lparr>tasks := (tasks s)(running s \<mapsto> ?p), total_ticks := total_ticks s + 1\<rparr>"
  have o1: "sched_ok ?s1" "st ?s1 = st s"
    using sched_ok_fields [OF ok p(1), of ?p] by simp_all
  have r: "st s (running s) = Some TASK_RUNNING" using ok by (simp add: sched_ok_def)
  show ?thesis
  proof (cases "ticks p = 0")
    case True
    have "intr_timer_handler s = schedule ?s1" using p m True by (simp add: intr_timer_handler_def upd_task_def)
    moreover have "tasks_ok ?s1" "intr_get_status ?s1 = INTR_OFF" using o1 off by (simp_all add: sched_ok_def)
    then obtain s' where s': "schedule ?s1 = Some s'" "sched_ok s'" "scheduled ?s1 s'" using schedule_ok by blast
    have "same_sync s ?s1" using p by (auto simp: same_sync_def)
    moreover have "next_task ?s1 = hd (thread_ready_list s @ [running s])"
      using r o1 by (simp add: next_task_def)
    ultimately show ?thesis
      using s' o1(2) r p True same_sync_trans [of s ?s1 s'] by (auto simp: scheduled_def)
  next
    case False
    let ?q = "?p\<lparr>ticks := ticks ?p - 1\<rparr>"
    let ?s' = "?s1\<lparr>tasks := (tasks ?s1)(running s \<mapsto> ?q)\<rparr>"
    have "intr_timer_handler s = Some ?s'" using p m False by (simp add: intr_timer_handler_def upd_task_def)
    moreover have "sched_ok ?s'" "st ?s' = st s"
      using sched_ok_fields [OF o1(1), of "running s" ?p ?q] o1(2) by simp_all
    moreover have "same_sync s ?s'" using p by (auto simp: same_sync_def)
    ultimately show ?thesis using p False r by auto
  qed
qed

subsection \<open>Properties\<close>

fun schedules :: "nat \<Rightarrow> 'z kstate_scheme \<Rightarrow> 'z kstate_scheme option" where
  "schedules 0 s = Some s"
| "schedules (Suc n) s = Option.bind (schedule s) (schedules n)"

lemma schedule_rotates:
  assumes "sched_ok s" and "intr_get_status s = INTR_OFF"
  shows "\<exists>s'. schedule s = Some s' \<and> sched_ok s' \<and> intr_get_status s' = INTR_OFF \<and>
    running s' # thread_ready_list s' = rotate1 (running s # thread_ready_list s)"
proof -
  obtain s' where s': "schedule s = Some s'" "sched_ok s'" "scheduled s s'"
    using schedule_ok assms by (metis sched_ok_def)
  have "st s (running s) = Some TASK_RUNNING" using assms(1) by (simp add: sched_ok_def)
  then have "running s' # thread_ready_list s' = thread_ready_list s @ [running s]"
    using s'(3) by (simp add: scheduled_def next_task_def next_ready_def)
  moreover have "intr_get_status s' = INTR_OFF"
    using s'(3) assms(2) status_update by (metis scheduled_def)
  ultimately show ?thesis using s' by auto
qed

text \<open>
  C5: scheduling runnable tasks is a round robin. From any consistent state \<open>schedule\<close> returns, keeps
  the state consistent (none of its \<open>ASSERT\<close>s fails), and turns the ring made of the task on the
  processor and the ready list by one place; so the ready task at place i is on the processor after
  exactly i + 1 time slices.
\<close>

theorem schedule_round_robin:
  assumes "sched_ok s" and "intr_get_status s = INTR_OFF"
  shows "(\<exists>s'. schedules n s = Some s' \<and> sched_ok s' \<and>
      running s' # thread_ready_list s' = rotate n (running s # thread_ready_list s)) \<and>
    (\<forall>i < length (thread_ready_list s). \<exists>s'. schedules (Suc i) s = Some s' \<and>
      running s' = thread_ready_list s ! i)"
proof -
  have all: "\<exists>s'. schedules n s = Some s' \<and> sched_ok s' \<and>
      running s' # thread_ready_list s' = rotate n (running s # thread_ready_list s)"
    if "sched_ok s" "intr_get_status s = INTR_OFF" for n and s :: "'a kstate_scheme"
    using that
  proof (induction n arbitrary: s)
    case (Suc n)
    obtain s1 where s1: "schedule s = Some s1" "sched_ok s1" "intr_get_status s1 = INTR_OFF"
        "running s1 # thread_ready_list s1 = rotate1 (running s # thread_ready_list s)"
      using schedule_rotates [OF Suc.prems] by blast
    from Suc.IH [OF s1(2,3)] s1 show ?case by (auto simp: rotate1_rotate_swap)
  qed simp
  have "\<exists>s'. schedules (Suc i) s = Some s' \<and> running s' = thread_ready_list s ! i"
    if "i < length (thread_ready_list s)" for i
  proof -
    obtain s' where s': "schedules (Suc i) s = Some s'"
        "running s' # thread_ready_list s' = rotate (Suc i) (running s # thread_ready_list s)"
      using all [OF assms, of "Suc i"] by blast
    have "running s' = hd (rotate (Suc i) (running s # thread_ready_list s))" using s'(2) by (metis list.sel(1))
    also have "\<dots> = (running s # thread_ready_list s) ! (Suc i mod length (running s # thread_ready_list s))"
      by (rule hd_rotate_conv_nth) simp
    also have "\<dots> = thread_ready_list s ! i" using that by simp
    finally show ?thesis using s'(1) by blast
  qed
  with all [OF assms] show ?thesis by blast
qed


definition demo_task :: "u8 \<Rightarrow> task_status \<Rightarrow> task_struct" where
  "demo_task k stat = \<lparr>self_kstack = 0, pid = 1, status = stat, priority = 31, name = [], ticks = k,
     elapsed_ticks = 0, fd_table = [], pgdir = 0,
     userprog_vaddr = \<lparr>vaddr_bitmap = \<lparr>btmp_bytes_len = 0, bits = []\<rparr>, vaddr_start = 0\<rparr>, u_block_desc = [],
     cwd_inode_nr = 0, parent_pid = 0, stack_magic = stack_magic_value\<rparr>"

definition demo_kernel :: kstate where
  "demo_kernel = \<lparr>eflags = 2, running = 0xc009e000,
     tasks = [0xc009e000 \<mapsto> demo_task 0 TASK_RUNNING, 0xc0101000 \<mapsto> demo_task 5 TASK_READY,
              0xc0102000 \<mapsto> demo_task 5 TASK_BLOCKED],
     thread_ready_list = [0xc0101000], thread_all_list = [0xc009e000, 0xc0101000, 0xc0102000],
     main_thread = 0xc009e000, idle_thread = 0xc0102000, total_ticks = 7,
     mmu = \<lparr>cr3 = 0x100000, ram = \<lambda>_. 0\<rparr>, tss_esp0 = 0,
     semas = [0xc0200004 \<mapsto> \<lparr>value = 1, waiters = []\<rparr>],
     locks = [0xc0200000 \<mapsto> \<lparr>holder = 0, holder_repeat_nr = 0\<rparr>],
     kstack = (\<lambda>_. [])(0xc0101000 := [Kernel_thread], 0xc0102000 := [Intr_restore INTR_OFF, Idle_hlt])\<rparr>"

lemma demo_kernel_ok: "sched_ok demo_kernel" "intr_get_status demo_kernel = INTR_OFF"
proof -
  have "dirs_ok demo_kernel"
    unfolding dirs_ok_def
    by (rule exI [of _ "{0x100000}"]) (auto simp: demo_kernel_def demo_task_def split: if_splits)
  then show "sched_ok demo_kernel"
    by (auto simp: sched_ok_def tasks_ok_def demo_kernel_def demo_task_def st_def split: if_splits)
  show "intr_get_status demo_kernel = INTR_OFF"
    by (simp add: intr_get_status_def demo_kernel_def EFLAGS_IF_def)
qed

theorem schedule_round_robin_witness:
  "\<exists>s'. schedules 1 demo_kernel = Some s' \<and> running s' = 0xc0101000"
  using schedule_round_robin [OF demo_kernel_ok] by (auto simp: demo_kernel_def)


end
