(* ===== verification/Kernel_Sync.thy ===== *)
theory Kernel_Sync
  imports Kernel_Thread
begin

text \<open>
  \<open>thread/sync.c\<close>: semaphores and locks, and the interleaving of the tasks that use them.

  A lock is named by its address; its semaphore is embedded at offset 4. The statements of
  \<open>lock_acquire\<close> and \<open>lock_release\<close> that touch shared memory are separate frames, because with
  interrupts on the clock may switch tasks between any two of them; \<open>sema_down\<close> and
  \<open>sema_up\<close> run with interrupts off, so each is one frame up to the point where it blocks.

  \<open>kstep\<close> is the step relation: the running task executes the frame on top of its stack, or starts
  an operation, or the clock interrupts it.
\<close>

definition lock_sema :: "u32 \<Rightarrow> u32" where
  "lock_sema plock = plock + 4"

lemma lock_sema_inj [simp]: "lock_sema p = lock_sema q \<longleftrightarrow> p = q"
  by (simp add: lock_sema_def)

subsection \<open>Semaphores\<close>

definition sema_init :: "u32 \<Rightarrow> u8 \<Rightarrow> 'z kstate_scheme \<Rightarrow> 'z kstate_scheme" where
  "sema_init psema v s = s\<lparr>semas := (semas s)(psema \<mapsto> \<lparr>value = v, waiters = []\<rparr>)\<rparr>"

text \<open>The loop of \<open>sema_down\<close> and what follows it, entered with interrupts off.\<close>

definition sema_loop :: "u32 \<Rightarrow> intr_status \<Rightarrow> 'z kstate_scheme \<Rightarrow> 'z kstate_scheme option" where
  "sema_loop psema old_status s = do {
     sem \<leftarrow> semas s psema;
     if value sem = 0 then do {
       found \<leftarrow> q_find (running s) (waiters sem);
       ASSERT (\<not> found);
       found \<leftarrow> q_find (running s) (waiters sem);
       if found then None \<comment> \<open>PANIC\<close>
       else do {
         w \<leftarrow> q_append (running s) (waiters sem);
         thread_block TASK_BLOCKED (push_frame (Sema_loop psema old_status)
           (s\<lparr>semas := (semas s)(psema \<mapsto> sem\<lparr>waiters := w\<rparr>)\<rparr>)) } }
     else do {
       let sem = sem\<lparr>value := value sem - 1\<rparr>;
       ASSERT (value sem = 0);
       Some (snd (intr_set_status old_status (s\<lparr>semas := (semas s)(psema \<mapsto> sem)\<rparr>))) } }"

definition sema_down :: "u32 \<Rightarrow> 'z kstate_scheme \<Rightarrow> 'z kstate_scheme option" where
  "sema_down psema s = (let (old_status, s) = intr_disable s in sema_loop psema old_status s)"

definition sema_up :: "u32 \<Rightarrow> 'z kstate_scheme \<Rightarrow> 'z kstate_scheme option" where
  "sema_up psema s = do {
     let (old_status, s) = intr_disable s;
     sem \<leftarrow> semas s psema;
     ASSERT (value sem = 0);
     empty \<leftarrow> q_empty (waiters sem);
     s \<leftarrow> (if \<not> empty then do {
             (thread_blocked, w) \<leftarrow> q_pop (waiters sem);
             thread_unblock thread_blocked (s\<lparr>semas := (semas s)(psema \<mapsto> sem\<lparr>waiters := w\<rparr>)\<rparr>) }
           else Some s);
     sem \<leftarrow> semas s psema;
     let sem = sem\<lparr>value := value sem + 1\<rparr>;
     ASSERT (value sem = 1);
     Some (snd (intr_set_status old_status (s\<lparr>semas := (semas s)(psema \<mapsto> sem)\<rparr>))) }"

subsection \<open>Locks\<close>

definition upd_lock :: "u32 \<Rightarrow> (lock \<Rightarrow> lock) \<Rightarrow> 'z kstate_scheme \<Rightarrow> 'z kstate_scheme option" where
  "upd_lock plock f s = do {
     l \<leftarrow> locks s plock;
     Some (s\<lparr>locks := (locks s)(plock \<mapsto> f l)\<rparr>) }"

definition lock_init :: "u32 \<Rightarrow> 'z kstate_scheme \<Rightarrow> 'z kstate_scheme" where
  "lock_init plock s = sema_init (lock_sema plock) 1
     (s\<lparr>locks := (locks s)(plock \<mapsto> \<lparr>holder = 0, holder_repeat_nr = 0\<rparr>)\<rparr>)"

definition push_frames :: "frame list \<Rightarrow> 'z kstate_scheme \<Rightarrow> 'z kstate_scheme" where
  "push_frames fs s = s\<lparr>kstack := (kstack s)(running s := fs @ kstack s (running s))\<rparr>"

definition lock_acquire :: "u32 \<Rightarrow> 'z kstate_scheme \<Rightarrow> 'z kstate_scheme option" where
  "lock_acquire plock s = do {
     l \<leftarrow> locks s plock;
     if holder l \<noteq> running s
     then Some (push_frames [Sema_down (lock_sema plock), Lock_got plock, Lock_repeat plock] s)
     else upd_lock plock (\<lambda>l. l\<lparr>holder_repeat_nr := holder_repeat_nr l + 1\<rparr>) s }"

definition lock_got :: "u32 \<Rightarrow> 'z kstate_scheme \<Rightarrow> 'z kstate_scheme option" where
  "lock_got plock s = upd_lock plock (\<lambda>l. l\<lparr>holder := running s\<rparr>) s"

definition lock_repeat :: "u32 \<Rightarrow> 'z kstate_scheme \<Rightarrow> 'z kstate_scheme option" where
  "lock_repeat plock s = do {
     l \<leftarrow> locks s plock;
     ASSERT (holder_repeat_nr l = 0);
     upd_lock plock (\<lambda>l. l\<lparr>holder_repeat_nr := 1\<rparr>) s }"

definition lock_release :: "u32 \<Rightarrow> 'z kstate_scheme \<Rightarrow> 'z kstate_scheme option" where
  "lock_release plock s = do {
     l \<leftarrow> locks s plock;
     ASSERT (holder l = running s);
     if holder_repeat_nr l > 1
     then upd_lock plock (\<lambda>l. l\<lparr>holder_repeat_nr := holder_repeat_nr l - 1\<rparr>) s
     else do {
       ASSERT (holder_repeat_nr l = 1);
       Some (push_frames [Lock_clear plock, Lock_clear_repeat plock, Sema_up (lock_sema plock)] s) } }"

subsection \<open>Steps\<close>

fun exec_frame :: "frame \<Rightarrow> 'z kstate_scheme \<Rightarrow> 'z kstate_scheme option" where
  "exec_frame (Intr_restore old_status) s = Some (snd (intr_set_status old_status s))"
| "exec_frame (Iret flags) s = Some (s\<lparr>eflags := flags\<rparr>)"
| "exec_frame Kernel_thread s = Some (snd (intr_enable s))"
| "exec_frame Idle s = thread_block TASK_BLOCKED (push_frame Idle_hlt s)"
| "exec_frame Idle_hlt s = Some (push_frame Idle (sti s))"
| "exec_frame Thread_yield s = thread_yield s"
| "exec_frame (Sema_down psema) s = sema_down psema s"
| "exec_frame (Sema_loop psema old_status) s = sema_loop psema old_status s"
| "exec_frame (Sema_up psema) s = sema_up psema s"
| "exec_frame (Lock_acquire plock) s = lock_acquire plock s"
| "exec_frame (Lock_got plock) s = lock_got plock s"
| "exec_frame (Lock_repeat plock) s = lock_repeat plock s"
| "exec_frame (Lock_release plock) s = lock_release plock s"
| "exec_frame (Lock_clear plock) s = upd_lock plock (\<lambda>l. l\<lparr>holder := 0\<rparr>) s"
| "exec_frame (Lock_clear_repeat plock) s = upd_lock plock (\<lambda>l. l\<lparr>holder_repeat_nr := 0\<rparr>) s"

definition pop_frame :: "frame list \<Rightarrow> 'z kstate_scheme \<Rightarrow> 'z kstate_scheme" where
  "pop_frame fs s = s\<lparr>kstack := (kstack s)(running s := fs)\<rparr>"

text \<open>
  A task outside any operation may start one: acquire any lock (nested fewer than 2^32 - 1 deep),
  release a lock it holds, give up the processor, or switch its interrupts on and off. The clock
  interrupts whenever the flag is on: the processor saves the flags and clears the bit.
\<close>

definition clock_interrupt :: "'z kstate_scheme \<Rightarrow> 'z kstate_scheme option" where
  "clock_interrupt s = intr_timer_handler (push_frame (Iret (eflags s)) (cli s))"

definition may_acquire :: "u32 \<Rightarrow> 'z kstate_scheme \<Rightarrow> bool" where
  "may_acquire plock s = (case locks s plock of None \<Rightarrow> False
     | Some l \<Rightarrow> holder l = running s \<longrightarrow> holder_repeat_nr l \<noteq> - 1)"

definition may_release :: "u32 \<Rightarrow> 'z kstate_scheme \<Rightarrow> bool" where
  "may_release plock s = (case locks s plock of None \<Rightarrow> False | Some l \<Rightarrow> holder l = running s)"

inductive kstep :: "'z kstate_scheme \<Rightarrow> 'z kstate_scheme \<Rightarrow> bool" where
  frame: "kstack s (running s) = f # fs \<Longrightarrow> exec_frame f (pop_frame fs s) = Some s' \<Longrightarrow> kstep s s'"
| acquire: "kstack s (running s) = [] \<Longrightarrow> may_acquire p s \<Longrightarrow> kstep s (push_frame (Lock_acquire p) s)"
| release: "kstack s (running s) = [] \<Longrightarrow> may_release p s \<Longrightarrow> kstep s (push_frame (Lock_release p) s)"
| yield: "kstack s (running s) = [] \<Longrightarrow> kstep s (push_frame Thread_yield s)"
| flags: "kstack s (running s) = [] \<Longrightarrow> kstep s (snd (intr_set_status o' s))"
| clock: "intr_get_status s = INTR_ON \<Longrightarrow> clock_interrupt s = Some s' \<Longrightarrow> kstep s s'"

inductive kreach :: "'z kstate_scheme \<Rightarrow> 'z kstate_scheme \<Rightarrow> bool" where
  start: "kreach s s"
| more: "kreach s s' \<Longrightarrow> kstep s' s'' \<Longrightarrow> kreach s s''"

subsection \<open>What is on a kernel stack\<close>

text \<open>
  \<open>calm\<close> stacks are those a task can be interrupted at; \<open>parked\<close> ones are those of a task that is
  not on the processor. \<open>L\<close> is the set of locks, \<open>i\<close> says whether the task is the idle thread.
\<close>

inductive calm :: "u32 set \<Rightarrow> bool \<Rightarrow> frame list \<Rightarrow> bool" for L where
  "calm L False []"
| "calm L False [Thread_yield]"
| "p \<in> L \<Longrightarrow> calm L False [Lock_acquire p]"
| "p \<in> L \<Longrightarrow> calm L False [Sema_down (lock_sema p), Lock_got p, Lock_repeat p]"
| "p \<in> L \<Longrightarrow> calm L False [Lock_got p, Lock_repeat p]"
| "p \<in> L \<Longrightarrow> calm L False [Lock_repeat p]"
| "p \<in> L \<Longrightarrow> calm L False [Lock_release p]"
| "p \<in> L \<Longrightarrow> calm L False [Lock_clear p, Lock_clear_repeat p, Sema_up (lock_sema p)]"
| "p \<in> L \<Longrightarrow> calm L False [Lock_clear_repeat p, Sema_up (lock_sema p)]"
| "p \<in> L \<Longrightarrow> calm L False [Sema_up (lock_sema p)]"
| "calm L True [Idle]"
| "calm L True [Idle_hlt]"

inductive waiting :: "u32 set \<Rightarrow> frame list \<Rightarrow> bool" for L where
  "p \<in> L \<Longrightarrow> waiting L [Sema_loop (lock_sema p) old, Lock_got p, Lock_repeat p]"

inductive parked :: "u32 set \<Rightarrow> bool \<Rightarrow> frame list \<Rightarrow> bool" for L where
  "waiting L fs \<Longrightarrow> parked L False (Intr_restore INTR_OFF # fs)"
| "parked L False [Intr_restore old]"
| "parked L False [Kernel_thread]"
| "calm L i fs \<Longrightarrow> parked L i (Iret flags # fs)"
| "parked L True [Intr_restore old, Idle_hlt]"
| "parked L True [Kernel_thread, Idle]"

inductive_simps calm_simps [simp]:
  "calm L i []" "calm L i (Intr_restore old # fs)" "calm L i (Iret flags # fs)"
  "calm L i (Kernel_thread # fs)" "calm L i (Idle # fs)" "calm L i (Idle_hlt # fs)"
  "calm L i (Thread_yield # fs)" "calm L i (Sema_down q # fs)" "calm L i (Sema_loop q old # fs)"
  "calm L i (Sema_up q # fs)" "calm L i (Lock_acquire p # fs)" "calm L i (Lock_got p # fs)"
  "calm L i (Lock_repeat p # fs)" "calm L i (Lock_release p # fs)" "calm L i (Lock_clear p # fs)"
  "calm L i (Lock_clear_repeat p # fs)"

inductive_simps waiting_simps [simp]:
  "waiting L []" "waiting L (Intr_restore old # fs)" "waiting L (Iret flags # fs)"
  "waiting L (Kernel_thread # fs)" "waiting L (Idle # fs)" "waiting L (Idle_hlt # fs)"
  "waiting L (Thread_yield # fs)" "waiting L (Sema_down q # fs)" "waiting L (Sema_loop q old # fs)"
  "waiting L (Sema_up q # fs)" "waiting L (Lock_acquire p # fs)" "waiting L (Lock_got p # fs)"
  "waiting L (Lock_repeat p # fs)" "waiting L (Lock_release p # fs)" "waiting L (Lock_clear p # fs)"
  "waiting L (Lock_clear_repeat p # fs)"

inductive_simps parked_simps [simp]:
  "parked L i []" "parked L i (Intr_restore old # fs)" "parked L i (Iret flags # fs)"
  "parked L i (Kernel_thread # fs)" "parked L i (Idle # fs)" "parked L i (Idle_hlt # fs)"
  "parked L i (Thread_yield # fs)" "parked L i (Sema_down q # fs)" "parked L i (Sema_loop q old # fs)"
  "parked L i (Sema_up q # fs)" "parked L i (Lock_acquire p # fs)" "parked L i (Lock_got p # fs)"
  "parked L i (Lock_repeat p # fs)" "parked L i (Lock_release p # fs)" "parked L i (Lock_clear p # fs)"
  "parked L i (Lock_clear_repeat p # fs)"

text \<open>How far a task is in its operation on lock \<open>p\<close>.\<close>

datatype phase = Outside | Acquiring | Waiting | Granted | Half_held | Releasing | Leaving | Cleared | Dropped

fun phase_of :: "u32 \<Rightarrow> frame list \<Rightarrow> phase" where
  "phase_of p (Iret flags # fs) = phase_of p fs"
| "phase_of p (Intr_restore old # fs) = phase_of p fs"
| "phase_of p (Sema_down q # fs) = (if q = lock_sema p then Waiting else Outside)"
| "phase_of p (Sema_loop q old # fs) = (if q = lock_sema p then Waiting else Outside)"
| "phase_of p (Sema_up q # fs) = (if q = lock_sema p then Dropped else Outside)"
| "phase_of p (Lock_acquire q # fs) = (if q = p then Acquiring else Outside)"
| "phase_of p (Lock_got q # fs) = (if q = p then Granted else Outside)"
| "phase_of p (Lock_repeat q # fs) = (if q = p then Half_held else Outside)"
| "phase_of p (Lock_release q # fs) = (if q = p then Releasing else Outside)"
| "phase_of p (Lock_clear q # fs) = (if q = p then Leaving else Outside)"
| "phase_of p (Lock_clear_repeat q # fs) = (if q = p then Cleared else Outside)"
| "phase_of p _ = Outside"

text \<open>What the lock's owner finds in the lock at each phase.\<close>

definition owner_ok :: "lock \<Rightarrow> task \<Rightarrow> phase \<Rightarrow> bool" where
  "owner_ok l t ph = (case ph of
     Outside \<Rightarrow> holder l = t \<and> holder_repeat_nr l \<noteq> 0
   | Acquiring \<Rightarrow> holder l = t \<and> holder_repeat_nr l \<noteq> 0 \<and> holder_repeat_nr l \<noteq> - 1
   | Waiting \<Rightarrow> False
   | Granted \<Rightarrow> holder l = 0 \<and> holder_repeat_nr l = 0
   | Half_held \<Rightarrow> holder l = t \<and> holder_repeat_nr l = 0
   | Releasing \<Rightarrow> holder l = t \<and> holder_repeat_nr l \<noteq> 0
   | Leaving \<Rightarrow> holder l = t \<and> holder_repeat_nr l = 1
   | Cleared \<Rightarrow> holder l = 0 \<and> holder_repeat_nr l = 1
   | Dropped \<Rightarrow> holder l = 0 \<and> holder_repeat_nr l = 0)"

text \<open>
  A lock's invariant, for its owner \<open>ow\<close> (None when it is free), the tasks \<open>D\<close> in their phases
  \<open>ph\<close>, of which those in \<open>B\<close> are blocked. The last line says no wake-up is lost: while tasks wait, either the
  lock is held or one of those woken up is still on its way to it.
\<close>

definition lock_ok ::
  "task option \<Rightarrow> lock \<Rightarrow> semaphore \<Rightarrow> (task \<Rightarrow> phase) \<Rightarrow> task set \<Rightarrow> task set \<Rightarrow> bool" where
  "lock_ok ow l sem ph D B \<longleftrightarrow> 0 \<notin> D \<and>
     (ow = None \<longrightarrow> value sem = 1 \<and> holder l = 0 \<and> holder_repeat_nr l = 0) \<and>
     (\<forall>t. ow = Some t \<longrightarrow> value sem = 0 \<and> t \<in> D \<and> owner_ok l t (ph t)) \<and>
     (\<forall>t \<in> D. ow \<noteq> Some t \<longrightarrow> ph t \<in> {Outside, Acquiring, Waiting}) \<and>
     distinct (waiters sem) \<and>
     (\<forall>t. t \<in> set (waiters sem) \<longleftrightarrow> t \<in> D \<and> t \<in> B \<and> ph t = Waiting) \<and>
     (waiters sem \<noteq> [] \<longrightarrow> value sem = 0 \<or> (\<exists>t \<in> D. t \<notin> B \<and> ph t = Waiting))"

subsection \<open>Transitions of one lock\<close>

lemma lock_ok_cong:
  assumes "lock_ok ow l sem ph D B" and "\<And>t. t \<in> D \<Longrightarrow> ph' t = ph t"
    and "\<And>t. t \<in> D \<Longrightarrow> ph t = Waiting \<Longrightarrow> t \<in> B' \<longleftrightarrow> t \<in> B"
  shows "lock_ok ow l sem ph' D B'"
proof -
  have w: "t \<in> D \<and> t \<in> B' \<and> ph' t = Waiting \<longleftrightarrow> t \<in> D \<and> t \<in> B \<and> ph t = Waiting"
      "t \<in> D \<and> t \<notin> B' \<and> ph' t = Waiting \<longleftrightarrow> t \<in> D \<and> t \<notin> B \<and> ph t = Waiting" for t
    using assms(2,3) by auto
  have "(\<exists>t \<in> D. t \<notin> B' \<and> ph' t = Waiting) \<longleftrightarrow> (\<exists>t \<in> D. t \<notin> B \<and> ph t = Waiting)"
    using w(2) by blast
  then show ?thesis using assms(1) unfolding lock_ok_def by (simp add: w(1) assms(2) del: insert_iff)
qed

lemma owner_is_holder:
  assumes "lock_ok ow l sem ph D B" and "t \<in> D" and "holder l = t"
  shows "ow = Some t \<and> value sem = 0 \<and> owner_ok l t (ph t)"
proof (cases ow)
  case None
  then show ?thesis using assms by (auto simp: lock_ok_def)
next
  case (Some u)
  then have "owner_ok l u (ph u)" "value sem = 0" using assms(1) by (auto simp: lock_ok_def)
  moreover have "t \<noteq> 0" using assms by (auto simp: lock_ok_def)
  ultimately show ?thesis using Some assms(3) by (auto simp: owner_ok_def split: phase.splits)
qed

lemma owner_by_phase:
  assumes "lock_ok ow l sem ph D B" and "t \<in> D" and "ph t \<notin> {Outside, Acquiring, Waiting}"
  shows "ow = Some t \<and> value sem = 0 \<and> owner_ok l t (ph t)"
  using assms unfolding lock_ok_def by blast

lemma trans_start_acquire:
  assumes "lock_ok ow l sem ph D B" and "t \<in> D" and "ph t = Outside"
    and "holder l = t \<Longrightarrow> holder_repeat_nr l \<noteq> - 1"
  shows "lock_ok ow l sem (ph(t := Acquiring)) D B"
  using assms unfolding lock_ok_def by (auto simp: owner_ok_def) (metis phase.distinct(3))

lemma trans_wait:
  assumes "lock_ok ow l sem ph D B" and "t \<in> D" and "ph t = Acquiring" and "holder l \<noteq> t" and "t \<notin> B"
  shows "lock_ok ow l sem (ph(t := Waiting)) D B"
  using assms unfolding lock_ok_def by (auto simp: owner_ok_def)

lemma trans_again:
  assumes "lock_ok ow l sem ph D B" and "t \<in> D" and "ph t = Acquiring" and "holder l = t"
  shows "lock_ok ow (l\<lparr>holder_repeat_nr := holder_repeat_nr l + 1\<rparr>) sem (ph(t := Outside)) D B"
proof -
  note o = owner_is_holder [OF assms(1,2,4)]
  then have "holder_repeat_nr l \<noteq> - 1" using assms(3) by (simp add: owner_ok_def)
  then have "holder_repeat_nr l + 1 \<noteq> 0" by (metis add_eq_0_iff2)
  then show ?thesis using assms o unfolding lock_ok_def by (auto simp: owner_ok_def)
qed

lemma trans_take:
  assumes "lock_ok ow l sem ph D B" and "t \<in> D" and "ph t = Waiting" and "value sem \<noteq> 0" and "t \<notin> B"
  shows "ow = None \<and> value sem = 1 \<and> lock_ok (Some t) l (sem\<lparr>value := 0\<rparr>) (ph(t := Granted)) D B"
  using assms unfolding lock_ok_def by (auto simp: owner_ok_def)

lemma trans_block:
  assumes "lock_ok ow l sem ph D B" and "t \<in> D" and "ph t = Waiting" and "value sem = 0" and "t \<notin> B"
  shows "lock_ok ow l (sem\<lparr>waiters := waiters sem @ [t]\<rparr>) ph D (insert t B)"
  using assms unfolding lock_ok_def by auto

lemma trans_got:
  assumes "lock_ok ow l sem ph D B" and "t \<in> D" and "ph t = Granted"
  shows "lock_ok ow (l\<lparr>holder := t\<rparr>) sem (ph(t := Half_held)) D B"
proof -
  have "ow = Some t" using owner_by_phase [OF assms(1,2)] assms(3) by simp
  then show ?thesis using assms unfolding lock_ok_def by (auto simp: owner_ok_def)
qed

lemma trans_repeat:
  assumes "lock_ok ow l sem ph D B" and "t \<in> D" and "ph t = Half_held"
  shows "holder_repeat_nr l = 0 \<and> lock_ok ow (l\<lparr>holder_repeat_nr := 1\<rparr>) sem (ph(t := Outside)) D B"
proof -
  have "ow = Some t" "owner_ok l t (ph t)" using owner_by_phase [OF assms(1,2)] assms(3) by auto
  then show ?thesis using assms unfolding lock_ok_def by (auto simp: owner_ok_def)
qed

lemma trans_start_release:
  assumes "lock_ok ow l sem ph D B" and "t \<in> D" and "ph t = Outside" and "holder l = t"
  shows "lock_ok ow l sem (ph(t := Releasing)) D B"
  using assms owner_is_holder [OF assms(1,2,4)] unfolding lock_ok_def by (auto simp: owner_ok_def)

lemma trans_releasing:
  assumes "lock_ok ow l sem ph D B" and "t \<in> D" and "ph t = Releasing"
  shows "holder l = t" and "holder_repeat_nr l \<noteq> 0"
    and "1 < holder_repeat_nr l \<Longrightarrow>
      lock_ok ow (l\<lparr>holder_repeat_nr := holder_repeat_nr l - 1\<rparr>) sem (ph(t := Outside)) D B"
    and "holder_repeat_nr l = 1 \<Longrightarrow> lock_ok ow l sem (ph(t := Leaving)) D B"
proof -
  have o: "ow = Some t" "owner_ok l t (ph t)" using owner_by_phase [OF assms(1,2)] assms(3) by auto
  then show h: "holder l = t" "holder_repeat_nr l \<noteq> 0" using assms(3) by (auto simp: owner_ok_def)
  show "lock_ok ow l sem (ph(t := Leaving)) D B" if "holder_repeat_nr l = 1"
    using assms o h that unfolding lock_ok_def by (auto simp: owner_ok_def)
  show "lock_ok ow (l\<lparr>holder_repeat_nr := holder_repeat_nr l - 1\<rparr>) sem (ph(t := Outside)) D B"
    if "1 < holder_repeat_nr l"
  proof -
    have "holder_repeat_nr l - 1 \<noteq> 0" using that by auto
    then show ?thesis using assms o h unfolding lock_ok_def by (auto simp: owner_ok_def)
  qed
qed

lemma trans_clear:
  assumes "lock_ok ow l sem ph D B" and "t \<in> D" and "ph t = Leaving"
  shows "lock_ok ow (l\<lparr>holder := 0\<rparr>) sem (ph(t := Cleared)) D B"
proof -
  have "ow = Some t" "owner_ok l t (ph t)" using owner_by_phase [OF assms(1,2)] assms(3) by auto
  then show ?thesis using assms unfolding lock_ok_def by (auto simp: owner_ok_def)
qed

lemma trans_clear_repeat:
  assumes "lock_ok ow l sem ph D B" and "t \<in> D" and "ph t = Cleared"
  shows "lock_ok ow (l\<lparr>holder_repeat_nr := 0\<rparr>) sem (ph(t := Dropped)) D B"
proof -
  have "ow = Some t" "owner_ok l t (ph t)" using owner_by_phase [OF assms(1,2)] assms(3) by auto
  then show ?thesis using assms unfolding lock_ok_def by (auto simp: owner_ok_def)
qed

lemma trans_up:
  assumes "lock_ok ow l sem ph D B" and "t \<in> D" and "ph t = Dropped"
  shows "value sem = 0"
    and "waiters sem = [] \<Longrightarrow> lock_ok None l (sem\<lparr>value := 1\<rparr>) (ph(t := Outside)) D B"
    and "waiters sem = u # w \<Longrightarrow>
      lock_ok None l (sem\<lparr>waiters := w, value := 1\<rparr>) (ph(t := Outside)) D (B - {u})"
proof -
  have o: "ow = Some t" "owner_ok l t (ph t)" using owner_by_phase [OF assms(1,2)] assms(3) by auto
  then show "value sem = 0" using assms(1) by (auto simp: lock_ok_def)
  show "lock_ok None l (sem\<lparr>value := 1\<rparr>) (ph(t := Outside)) D B" if "waiters sem = []"
    using assms o that unfolding lock_ok_def by (auto simp: owner_ok_def)
  show "lock_ok None l (sem\<lparr>waiters := w, value := 1\<rparr>) (ph(t := Outside)) D (B - {u})"
    if "waiters sem = u # w"
  proof -
    have a: "0 \<notin> D" "\<forall>t' \<in> D. t' \<noteq> t \<longrightarrow> ph t' \<in> {Outside, Acquiring, Waiting}" "distinct (u # w)"
        "\<And>t'. t' \<in> set (u # w) \<longleftrightarrow> t' \<in> D \<and> t' \<in> B \<and> ph t' = Waiting"
      using assms(1) that o(1) unfolding lock_ok_def by auto
    have "u \<in> D" "ph u = Waiting" "u \<noteq> t" "t \<notin> set w" using a(4) [of u] a(4) [of t] assms(3) by auto
    then show ?thesis
      using a o(2) assms(3) unfolding lock_ok_def owner_ok_def by auto
  qed
qed

subsection \<open>The invariant\<close>

definition on_proc :: "u32 set \<Rightarrow> bool \<Rightarrow> bool \<Rightarrow> frame list \<Rightarrow> bool" where
  "on_proc L off i fs \<longleftrightarrow> calm L i fs \<or> off \<and> (parked L i fs \<or> \<not> i \<and> waiting L fs)"

definition blocked :: "'z kstate_scheme \<Rightarrow> task set" where
  "blocked s = {t. st s t = Some TASK_BLOCKED \<and> t \<noteq> idle_thread s}"

definition stacks_ok :: "'z kstate_scheme \<Rightarrow> bool" where
  "stacks_ok s \<longleftrightarrow>
     on_proc (dom (locks s)) (intr_get_status s = INTR_OFF) (running s = idle_thread s) (kstack s (running s)) \<and>
     (\<forall>t \<in> dom (tasks s). t \<noteq> running s \<longrightarrow> parked (dom (locks s)) (t = idle_thread s) (kstack s t)) \<and>
     (\<forall>t \<in> blocked s. \<exists>fs. waiting (dom (locks s)) fs \<and> kstack s t = Intr_restore INTR_OFF # fs)"

definition locks_ok :: "(u32 \<Rightarrow> task option) \<Rightarrow> 'z kstate_scheme \<Rightarrow> bool" where
  "locks_ok own s \<longleftrightarrow> (\<forall>p l. locks s p = Some l \<longrightarrow>
     (\<exists>sem. semas s (lock_sema p) = Some sem \<and>
        lock_ok (own p) l sem (\<lambda>t. phase_of p (kstack s t)) (dom (tasks s)) (blocked s)))"

definition sync_ok :: "(u32 \<Rightarrow> task option) \<Rightarrow> 'z kstate_scheme \<Rightarrow> bool" where
  "sync_ok own s \<longleftrightarrow> sched_ok s \<and> stacks_ok s \<and> locks_ok own s"

lemma sched_ok_more [simp]:
  "sched_ok (s\<lparr>kstack := k\<rparr>) = sched_ok s" "sched_ok (s\<lparr>semas := m\<rparr>) = sched_ok s"
  "sched_ok (s\<lparr>locks := l\<rparr>) = sched_ok s" "sched_ok (s\<lparr>eflags := e\<rparr>) = sched_ok s"
  by (simp_all add: sched_ok_def tasks_ok_def dirs_ok_def st_def)

lemma blocked_more [simp]:
  "blocked (s\<lparr>kstack := k\<rparr>) = blocked s" "blocked (s\<lparr>semas := m\<rparr>) = blocked s"
  "blocked (s\<lparr>locks := l\<rparr>) = blocked s" "blocked (s\<lparr>eflags := e\<rparr>) = blocked s"
  by (simp_all add: blocked_def st_def)

lemma intr_get_status_more [simp]:
  "intr_get_status (s\<lparr>semas := m\<rparr>) = intr_get_status s" "intr_get_status (s\<lparr>locks := l\<rparr>) = intr_get_status s"
  by (simp_all add: intr_get_status_def)

lemma sched_ok_flags [simp]: "sched_ok (snd (intr_set_status o' s)) = sched_ok s"
    "sched_ok (snd (intr_disable s)) = sched_ok s"
  by (subst set_status_flags, simp, subst disable_flags, simp)

lemma blocked_flags [simp]: "blocked (snd (intr_set_status o' s)) = blocked s"
    "blocked (snd (intr_disable s)) = blocked s"
  by (subst set_status_flags, simp, subst disable_flags, simp)

lemma intr_set_status_status [simp]: "intr_get_status (snd (intr_set_status o' s)) = o'"
  by (cases o'; cases "intr_get_status s"; simp add: intr_set_status_def intr_enable_def intr_disable_def)

lemma running_not_blocked: "sched_ok s \<Longrightarrow> running s \<notin> blocked s"
  by (simp add: blocked_def sched_ok_def)

lemma running_dom: "sched_ok s \<Longrightarrow> running s \<in> dom (tasks s)"
  by (auto simp: sched_ok_def st_eq_Some)

lemma blocked_dom: "t \<in> blocked s \<Longrightarrow> t \<in> dom (tasks s)"
  by (auto simp: blocked_def st_eq_Some)

lemma phase_waiting_unique: "phase_of p fs = Waiting \<Longrightarrow> phase_of q fs = Waiting \<Longrightarrow> p = q"
  by (induction p fs rule: phase_of.induct) (auto split: if_splits)

text \<open>Only the running task's stack changes in a step, and at most one lock.\<close>

lemma locks_ok_step:
  assumes ok: "locks_ok own s" and D: "dom (tasks s') = dom (tasks s)"
    and ks: "kstack s' = (kstack s)(running s := fs')"
    and p0: "locks s' p0 = Some l'" "semas s' (lock_sema p0) = Some sem'"
      "lock_ok ow' l' sem' ((\<lambda>t. phase_of p0 (kstack s t))(running s := phase_of p0 fs')) (dom (tasks s)) (blocked s')"
    and other: "\<And>p. p \<noteq> p0 \<Longrightarrow> locks s' p = locks s p \<and> semas s' (lock_sema p) = semas s (lock_sema p) \<and>
      phase_of p fs' = phase_of p (kstack s (running s))"
    and blk: "\<And>p t. p \<noteq> p0 \<Longrightarrow> phase_of p (kstack s t) = Waiting \<Longrightarrow> t \<in> blocked s' \<longleftrightarrow> t \<in> blocked s"
  shows "locks_ok (own(p0 := ow')) s'"
  unfolding locks_ok_def
proof (intro allI impI)
  fix p l assume l: "locks s' p = Some l"
  have ph: "(\<lambda>t. phase_of p (kstack s' t)) = (\<lambda>t. phase_of p (kstack s t))(running s := phase_of p fs')"
    by (simp add: ks fun_eq_iff)
  show "\<exists>sem. semas s' (lock_sema p) = Some sem \<and>
    lock_ok ((own(p0 := ow')) p) l sem (\<lambda>t. phase_of p (kstack s' t)) (dom (tasks s')) (blocked s')"
  proof (cases "p = p0")
    case True
    then show ?thesis using p0 l ph D by simp
  next
    case False
    then obtain sem where "semas s (lock_sema p) = Some sem"
        "lock_ok (own p) l sem (\<lambda>t. phase_of p (kstack s t)) (dom (tasks s)) (blocked s)"
      using ok l other unfolding locks_ok_def by metis
    then show ?thesis
      using False other blk D unfolding ph by (auto elim!: lock_ok_cong)
  qed
qed

lemma locks_ok_same:
  assumes ok: "locks_ok own s" and D: "dom (tasks s') = dom (tasks s)"
    and ks: "kstack s' = (kstack s)(running s := fs')" and "locks s' = locks s" and "semas s' = semas s"
    and ph: "\<And>p. phase_of p fs' = phase_of p (kstack s (running s))"
    and blk: "\<And>t. phase_of p (kstack s t) = Waiting \<Longrightarrow> t \<in> blocked s' \<longleftrightarrow> t \<in> blocked s"
    and B: "blocked s' = blocked s"
  shows "locks_ok own s'"
proof -
  have "(\<lambda>t. phase_of p (kstack s' t)) = (\<lambda>t. phase_of p (kstack s t))" for p
    using ph by (auto simp: ks fun_eq_iff)
  then show ?thesis using assms by (simp add: locks_ok_def)
qed

lemma stacks_ok_stay:
  assumes ok: "stacks_ok s" "sched_ok s" and D: "dom (tasks s') = dom (tasks s)"
    and ks: "kstack s' = (kstack s)(running s := fs')" and r: "running s' = running s"
    and i: "idle_thread s' = idle_thread s" and L: "dom (locks s') = dom (locks s)"
    and B: "blocked s' \<subseteq> blocked s"
    and p: "on_proc (dom (locks s)) (intr_get_status s' = INTR_OFF) (running s = idle_thread s) fs'"
  shows "stacks_ok s'"
proof -
  have "running s \<notin> blocked s" using running_not_blocked [OF ok(2)] .
  then show ?thesis
    unfolding stacks_ok_def r i L D using ok(1) p B by (auto simp: stacks_ok_def ks)
qed

lemma stacks_ok_switch:
  assumes ok: "stacks_ok s" "sched_ok s" and D: "dom (tasks s') = dom (tasks s)"
    and ks: "kstack s' = (kstack s)(running s := fs')" and r: "sched_ok s'"
    and i: "idle_thread s' = idle_thread s" and L: "dom (locks s') = dom (locks s)"
    and off: "intr_get_status s' = INTR_OFF"
    and B: "blocked s' \<subseteq> insert (running s) (blocked s)"
    and c: "running s \<in> blocked s' \<Longrightarrow> \<exists>fs. waiting (dom (locks s)) fs \<and> fs' = Intr_restore INTR_OFF # fs"
    and p: "parked (dom (locks s)) (running s = idle_thread s) fs'"
  shows "stacks_ok s'"
proof -
  have "running s' \<in> dom (tasks s)" using running_dom [OF r] D by simp
  then have "parked (dom (locks s)) (running s' = idle_thread s) (kstack s' (running s'))"
    using ok(1) p by (auto simp: ks stacks_ok_def)
  moreover have "\<exists>fs. waiting (dom (locks s)) fs \<and> kstack s' t = Intr_restore INTR_OFF # fs"
    if "t \<in> blocked s'" for t
  proof (cases "t = running s")
    case True
    then show ?thesis using c that by (simp add: ks)
  next
    case False
    then show ?thesis using B ok(1) that by (auto simp: ks stacks_ok_def)
  qed
  ultimately show ?thesis
    unfolding stacks_ok_def i L D using ok(1) p off by (auto simp: stacks_ok_def ks on_proc_def)
qed

text \<open>What a switch does to the set of blocked tasks.\<close>

lemma switched_blocked_gen:
  assumes "switched c s' stat n" and "n \<notin> blocked c" and "n = idle_thread c \<or> n \<noteq> running c \<or> stat \<noteq> TASK_BLOCKED"
    and "running c \<notin> blocked c"
  shows "blocked s' = (if stat = TASK_BLOCKED \<and> running c \<noteq> idle_thread c
    then insert (running c) (blocked c) else blocked c)"
proof -
  have e: "st s' t = (if t = n then Some TASK_RUNNING else if t = running c then Some stat else st c t)"
    and i: "idle_thread s' = idle_thread c" for t
    using assms(1) unfolding switched_def by blast+
  have r: "running c = idle_thread c \<or> st c (running c) \<noteq> Some TASK_BLOCKED"
      "n = idle_thread c \<or> st c n \<noteq> Some TASK_BLOCKED"
    using assms(2,4) unfolding blocked_def by blast+
  show ?thesis
  proof (rule set_eqI)
    fix t
    have b: "t \<in> blocked s' \<longleftrightarrow> st s' t = Some TASK_BLOCKED \<and> t \<noteq> idle_thread c"
        "t \<in> blocked c \<longleftrightarrow> st c t = Some TASK_BLOCKED \<and> t \<noteq> idle_thread c"
      by (simp_all add: blocked_def i)
    show "t \<in> blocked s' \<longleftrightarrow> t \<in> (if stat = TASK_BLOCKED \<and> running c \<noteq> idle_thread c
      then insert (running c) (blocked c) else blocked c)"
    proof (cases "t = n")
      case True
      have "t \<notin> blocked s'" unfolding b e using True by simp
      then show ?thesis using True assms(2,3) by auto
    next
      case nn: False
      show ?thesis
      proof (cases "t = running c")
        case True
        have "t \<in> blocked s' \<longleftrightarrow> stat = TASK_BLOCKED \<and> t \<noteq> idle_thread c" unfolding b(1) e using nn True by simp
        then show ?thesis using True assms(4) by auto
      next
        case False
        have "t \<in> blocked s' \<longleftrightarrow> t \<in> blocked c" unfolding b e using nn False by simp
        then show ?thesis using False by simp
      qed
    qed
  qed
qed

lemma switched_blocked:
  assumes ok: "sched_ok c"
    and sw: "switched c s' TASK_BLOCKED (if thread_ready_list c = [] then idle_thread c else hd (thread_ready_list c))"
  shows "blocked s' = (if running c = idle_thread c then blocked c else insert (running c) (blocked c))"
proof -
  let ?n = "if thread_ready_list c = [] then idle_thread c else hd (thread_ready_list c)"
  have r: "st c (hd (thread_ready_list c)) = Some TASK_READY" if "thread_ready_list c \<noteq> []"
    using that ready_st [OF ok] by simp
  then have "?n \<notin> blocked c" by (auto simp: blocked_def)
  moreover have "?n = idle_thread c \<or> ?n \<noteq> running c"
    using running_not_ready [OF ok] by (metis hd_in_set)
  ultimately show ?thesis using switched_blocked_gen [OF sw] running_not_blocked [OF ok] by auto
qed

lemma switched_ready_blocked:
  assumes ok: "sched_ok c"
    and sw: "switched c s' TASK_READY (hd (thread_ready_list c @ [running c]))"
  shows "blocked s' = blocked c"
proof -
  have "hd (thread_ready_list c @ [running c]) \<notin> blocked c"
    using ready_st [OF ok] running_st [OF ok]
    by (cases "thread_ready_list c") (simp_all add: blocked_def)
  then show ?thesis using switched_blocked_gen [OF sw] running_not_blocked [OF ok] by auto
qed

subsection \<open>Every frame runs, and keeps the invariant\<close>

lemma sync_ok_lock:
  assumes "sync_ok own s" and "p \<in> dom (locks s)"
  obtains l sem where "locks s p = Some l" "semas s (lock_sema p) = Some sem"
    "lock_ok (own p) l sem (\<lambda>t. phase_of p (kstack s t)) (dom (tasks s)) (blocked s)"
  using assms unfolding sync_ok_def locks_ok_def by blast

lemma sync_ok_dest:
  assumes "sync_ok own s"
  shows "sched_ok s" "stacks_ok s" "locks_ok own s" "running s \<in> dom (tasks s)" "running s \<notin> blocked s"
    "on_proc (dom (locks s)) (intr_get_status s = INTR_OFF) (running s = idle_thread s) (kstack s (running s))"
  using assms running_dom running_not_blocked unfolding sync_ok_def stacks_ok_def by blast+

text \<open>A step in which the task stays on the processor and no lock changes.\<close>

lemma sync_quiet:
  assumes ok: "sync_ok own s" and k: "kstack s (running s) = fs"
    and s': "running s' = running s" "tasks s' = tasks s" "idle_thread s' = idle_thread s" "sched_ok s'"
      "kstack s' = (kstack s)(running s := fs')" "locks s' = locks s" "semas s' = semas s"
    and p: "on_proc (dom (locks s)) (intr_get_status s' = INTR_OFF) (running s = idle_thread s) fs'"
    and ph: "\<And>q. phase_of q fs' = phase_of q fs"
  shows "sync_ok own s'"
proof -
  have b: "blocked s' = blocked s" by (simp add: blocked_def st_def s')
  have "locks_ok own s'"
    by (rule locks_ok_same [OF sync_ok_dest(3) [OF ok], where fs' = fs']) (use s' b ph k in simp_all)
  moreover have "stacks_ok s'"
    by (rule stacks_ok_stay [OF sync_ok_dest(2,1) [OF ok], where fs' = fs']) (use s' b p in simp_all)
  ultimately show ?thesis using s'(4) by (simp add: sync_ok_def)
qed

text \<open>A step in which the task stays on the processor and one lock moves.\<close>

lemma sync_lock_step:
  assumes ok: "sync_ok own s" and k: "kstack s (running s) = fs" and pL: "p \<in> dom (locks s)"
    and s': "running s' = running s" "tasks s' = tasks s" "idle_thread s' = idle_thread s" "sched_ok s'"
      "kstack s' = (kstack s)(running s := fs')" "locks s' = (locks s)(p \<mapsto> l')"
      "semas s' = (semas s)(lock_sema p \<mapsto> sem')"
    and pr: "on_proc (dom (locks s)) (intr_get_status s' = INTR_OFF) (running s = idle_thread s) fs'"
    and ph: "\<And>q. q \<noteq> p \<Longrightarrow> phase_of q fs' = phase_of q fs"
    and l: "lock_ok ow' l' sem' ((\<lambda>t. phase_of p (kstack s t))(running s := phase_of p fs'))
      (dom (tasks s)) (blocked s)"
  shows "sync_ok (own(p := ow')) s'"
proof -
  have b: "blocked s' = blocked s" by (simp add: blocked_def st_def s')
  have "locks_ok (own(p := ow')) s'"
    by (rule locks_ok_step [OF sync_ok_dest(3) [OF ok], of s' fs' p l' sem'])
      (use s' b ph k l in simp_all)
  moreover have "stacks_ok s'"
    by (rule stacks_ok_stay [OF sync_ok_dest(2,1) [OF ok], where fs' = fs']) (use s' b pr pL in auto)
  ultimately show ?thesis using s'(4) by (simp add: sync_ok_def)
qed

lemma pop_frame_simps [simp]:
  "running (pop_frame fs s) = running s" "tasks (pop_frame fs s) = tasks s" "locks (pop_frame fs s) = locks s"
  "semas (pop_frame fs s) = semas s" "idle_thread (pop_frame fs s) = idle_thread s"
  "thread_ready_list (pop_frame fs s) = thread_ready_list s"
  "kstack (pop_frame fs s) = (kstack s)(running s := fs)" "sched_ok (pop_frame fs s) = sched_ok s"
  "blocked (pop_frame fs s) = blocked s" "intr_get_status (pop_frame fs s) = intr_get_status s"
  "st (pop_frame fs s) = st s"
  by (simp_all add: pop_frame_def)

lemma frame_simple:
  assumes ok: "sync_ok own s" and k: "kstack s (running s) = f # fs"
    and f: "f \<in> {Kernel_thread, Idle_hlt} \<or> (\<exists>o'. f = Intr_restore o') \<or> (\<exists>e. f = Iret e)"
  shows "\<exists>s'. exec_frame f (pop_frame fs s) = Some s' \<and> sync_ok own s'"
proof -
  note d = sync_ok_dest [OF ok]
  note pr = d(6) [unfolded k on_proc_def]
  consider (restore) o' where "f = Intr_restore o'" | (iret) e where "f = Iret e"
    | (kt) "f = Kernel_thread" | (hlt) "f = Idle_hlt" using f by blast
  then show ?thesis
  proof cases
    case restore
    have "sync_ok own (snd (intr_set_status o' (pop_frame fs s)))"
    proof (rule sync_quiet [OF ok k, of _ fs])
      show "on_proc (dom (locks s)) (intr_get_status (snd (intr_set_status o' (pop_frame fs s))) = INTR_OFF)
          (running s = idle_thread s) fs"
        using pr restore by (auto simp: on_proc_def)
    qed (use d restore in simp_all)
    then show ?thesis using restore by simp
  next
    case iret
    have "sync_ok own ((pop_frame fs s)\<lparr>eflags := e\<rparr>)"
    proof (rule sync_quiet [OF ok k, of _ fs])
      show "on_proc (dom (locks s)) (intr_get_status ((pop_frame fs s)\<lparr>eflags := e\<rparr>) = INTR_OFF)
          (running s = idle_thread s) fs"
        using pr iret by (auto simp: on_proc_def)
    qed (use d iret in simp_all)
    then show ?thesis using iret by simp
  next
    case kt
    have en: "snd (intr_enable (pop_frame fs s)) = snd (intr_set_status INTR_ON (pop_frame fs s))"
      by (simp add: intr_set_status_def)
    have "sync_ok own (snd (intr_set_status INTR_ON (pop_frame fs s)))"
    proof (rule sync_quiet [OF ok k, of _ fs])
      show "on_proc (dom (locks s)) (intr_get_status (snd (intr_set_status INTR_ON (pop_frame fs s))) = INTR_OFF)
          (running s = idle_thread s) fs"
        using pr kt by (auto simp: on_proc_def)
    qed (use d pr kt in auto)
    then show ?thesis using kt en by simp
  next
    case hlt
    have f: "fs = []" "running s = idle_thread s" using pr hlt by auto
    have "sync_ok own (push_frame Idle (sti (pop_frame fs s)))"
    proof (rule sync_quiet [OF ok k, of _ "[Idle]"])
      show "kstack (push_frame Idle (sti (pop_frame fs s))) = (kstack s)(running s := [Idle])"
        using f by (simp add: push_frame_def sti_def)
    qed (use d hlt f in \<open>auto simp: on_proc_def push_frame_def sti_def\<close>)
    then show ?thesis using hlt by simp
  qed
qed

lemma word_one: "(x :: u32) \<noteq> 0 \<Longrightarrow> \<not> 1 < x \<Longrightarrow> x = 1"
  by unat_arith

lemma frame_acquire:
  assumes ok: "sync_ok own s" and k: "kstack s (running s) = Lock_acquire p # fs"
  shows "\<exists>s' own'. exec_frame (Lock_acquire p) (pop_frame fs s) = Some s' \<and> sync_ok own' s'"
proof -
  note d = sync_ok_dest [OF ok]
  have f: "fs = []" "p \<in> dom (locks s)" "running s \<noteq> idle_thread s"
    using d(6) unfolding k on_proc_def by auto
  obtain l sem where l: "locks s p = Some l" "semas s (lock_sema p) = Some sem"
      "lock_ok (own p) l sem (\<lambda>t. phase_of p (kstack s t)) (dom (tasks s)) (blocked s)"
    using sync_ok_lock [OF ok f(2)] .
  have ph: "phase_of p (kstack s (running s)) = Acquiring" by (simp add: k)
  show ?thesis
  proof (cases "holder l = running s")
    case True
    let ?l = "l\<lparr>holder_repeat_nr := holder_repeat_nr l + 1\<rparr>"
    let ?s' = "(pop_frame fs s)\<lparr>locks := (locks s)(p \<mapsto> ?l)\<rparr>"
    have "sync_ok (own(p := own p)) ?s'"
    proof (rule sync_lock_step [OF ok k f(2), where fs' = "[]" and l' = ?l and sem' = sem])
      show "lock_ok (own p) ?l sem ((\<lambda>t. phase_of p (kstack s t))(running s := phase_of p []))
        (dom (tasks s)) (blocked s)"
        using trans_again [OF l(3) d(4) ph True] by simp
      show "semas ?s' = (semas s)(lock_sema p \<mapsto> sem)" using l(2) by (auto simp: fun_eq_iff)
    qed (use d f in \<open>auto simp: on_proc_def\<close>)
    then show ?thesis using True l by (auto simp: lock_acquire_def upd_lock_def)
  next
    case False
    let ?fs = "[Sema_down (lock_sema p), Lock_got p, Lock_repeat p]"
    let ?s' = "push_frames ?fs (pop_frame fs s)"
    have "sync_ok (own(p := own p)) ?s'"
    proof (rule sync_lock_step [OF ok k f(2), where fs' = ?fs and l' = l and sem' = sem])
      show "lock_ok (own p) l sem ((\<lambda>t. phase_of p (kstack s t))(running s := phase_of p ?fs))
        (dom (tasks s)) (blocked s)"
        using trans_wait [OF l(3) d(4) ph False d(5)] by simp
      show "semas ?s' = (semas s)(lock_sema p \<mapsto> sem)" "locks ?s' = (locks s)(p \<mapsto> l)"
        using l(1,2) by (auto simp: fun_eq_iff push_frames_def)
    qed (use d f in \<open>auto simp: on_proc_def push_frames_def\<close>)
    then show ?thesis using False l by (auto simp: lock_acquire_def)
  qed
qed

lemma frame_release:
  assumes ok: "sync_ok own s" and k: "kstack s (running s) = Lock_release p # fs"
  shows "\<exists>s' own'. exec_frame (Lock_release p) (pop_frame fs s) = Some s' \<and> sync_ok own' s'"
proof -
  note d = sync_ok_dest [OF ok]
  have f: "fs = []" "p \<in> dom (locks s)" "running s \<noteq> idle_thread s"
    using d(6) unfolding k on_proc_def by auto
  obtain l sem where l: "locks s p = Some l" "semas s (lock_sema p) = Some sem"
      "lock_ok (own p) l sem (\<lambda>t. phase_of p (kstack s t)) (dom (tasks s)) (blocked s)"
    using sync_ok_lock [OF ok f(2)] .
  have ph: "phase_of p (kstack s (running s)) = Releasing" by (simp add: k)
  note tr = trans_releasing [OF l(3) d(4) ph]
  show ?thesis
  proof (cases "1 < holder_repeat_nr l")
    case True
    let ?l = "l\<lparr>holder_repeat_nr := holder_repeat_nr l - 1\<rparr>"
    let ?s' = "(pop_frame fs s)\<lparr>locks := (locks s)(p \<mapsto> ?l)\<rparr>"
    have "sync_ok (own(p := own p)) ?s'"
    proof (rule sync_lock_step [OF ok k f(2), where fs' = "[]" and l' = ?l and sem' = sem])
      show "lock_ok (own p) ?l sem ((\<lambda>t. phase_of p (kstack s t))(running s := phase_of p []))
        (dom (tasks s)) (blocked s)"
        using tr(3) [OF True] by simp
      show "semas ?s' = (semas s)(lock_sema p \<mapsto> sem)" using l(2) by (auto simp: fun_eq_iff)
    qed (use d f in \<open>auto simp: on_proc_def\<close>)
    then show ?thesis using True tr(1) l by (auto simp: lock_release_def upd_lock_def)
  next
    case False
    then have one: "holder_repeat_nr l = 1" using tr(2) word_one by blast
    let ?fs = "[Lock_clear p, Lock_clear_repeat p, Sema_up (lock_sema p)]"
    let ?s' = "push_frames ?fs (pop_frame fs s)"
    have "sync_ok (own(p := own p)) ?s'"
    proof (rule sync_lock_step [OF ok k f(2), where fs' = ?fs and l' = l and sem' = sem])
      show "lock_ok (own p) l sem ((\<lambda>t. phase_of p (kstack s t))(running s := phase_of p ?fs))
        (dom (tasks s)) (blocked s)"
        using tr(4) [OF one] by simp
      show "semas ?s' = (semas s)(lock_sema p \<mapsto> sem)" "locks ?s' = (locks s)(p \<mapsto> l)"
        using l(1,2) by (auto simp: fun_eq_iff push_frames_def)
    qed (use d f in \<open>auto simp: on_proc_def push_frames_def\<close>)
    then show ?thesis using one tr(1) l by (auto simp: lock_release_def)
  qed
qed

text \<open>The frames that write one field of the lock they name.\<close>

lemma frame_upd_lock:
  assumes ok: "sync_ok own s" and k: "kstack s (running s) = f # fs" and pL: "locks s p = Some l"
    and cl: "calm (dom (locks s)) (running s = idle_thread s) fs"
    and ph: "\<And>q. q \<noteq> p \<Longrightarrow> phase_of q fs = phase_of q (f # fs)"
    and tr: "\<And>sem. lock_ok (own p) l sem (\<lambda>t. phase_of p (kstack s t)) (dom (tasks s)) (blocked s) \<Longrightarrow>
      lock_ok (own p) (g l) sem ((\<lambda>t. phase_of p (kstack s t))(running s := phase_of p fs))
        (dom (tasks s)) (blocked s)"
  shows "\<exists>s'. upd_lock p g (pop_frame fs s) = Some s' \<and> sync_ok own s'"
proof -
  note d = sync_ok_dest [OF ok]
  have dp: "p \<in> dom (locks s)" using pL by auto
  obtain sem where l: "semas s (lock_sema p) = Some sem"
      "lock_ok (own p) l sem (\<lambda>t. phase_of p (kstack s t)) (dom (tasks s)) (blocked s)"
    using sync_ok_lock [OF ok dp] pL by auto
  let ?s' = "(pop_frame fs s)\<lparr>locks := (locks s)(p \<mapsto> g l)\<rparr>"
  have "sync_ok (own(p := own p)) ?s'"
  proof (rule sync_lock_step [OF ok k dp, where fs' = fs and l' = "g l" and sem' = sem])
    show "semas ?s' = (semas s)(lock_sema p \<mapsto> sem)" using l(1) by (auto simp: fun_eq_iff)
  qed (use d cl ph tr l in \<open>auto simp: on_proc_def\<close>)
  then show ?thesis using pL by (simp add: upd_lock_def)
qed

lemma frame_lock_fields:
  assumes ok: "sync_ok own s" and k: "kstack s (running s) = f # fs"
    and f: "f \<in> {Lock_got p, Lock_repeat p, Lock_clear p, Lock_clear_repeat p}"
  shows "\<exists>s'. exec_frame f (pop_frame fs s) = Some s' \<and> sync_ok own s'"
proof -
  note d = sync_ok_dest [OF ok]
  have pr: "calm (dom (locks s)) (running s = idle_thread s) (f # fs)"
    using d(6) f unfolding k on_proc_def by auto
  then have p: "p \<in> dom (locks s)" and cl: "calm (dom (locks s)) (running s = idle_thread s) fs"
    and ph: "\<And>q. q \<noteq> p \<Longrightarrow> phase_of q fs = phase_of q (f # fs)"
    using f by auto
  obtain l sem where l: "locks s p = Some l" "semas s (lock_sema p) = Some sem"
      "lock_ok (own p) l sem (\<lambda>t. phase_of p (kstack s t)) (dom (tasks s)) (blocked s)"
    using sync_ok_lock [OF ok p] .
  note step = frame_upd_lock [OF ok k l(1) cl ph]
  consider "f = Lock_got p" | "f = Lock_repeat p" | "f = Lock_clear p" | "f = Lock_clear_repeat p" using f by blast
  then show ?thesis
  proof cases
    case 1
    then have "phase_of p (kstack s (running s)) = Granted" "phase_of p fs = Half_held" using k pr by auto
    then show ?thesis using step [of "\<lambda>l. l\<lparr>holder := running s\<rparr>"] trans_got [OF _ d(4)] 1 by (simp add: lock_got_def)
  next
    case 2
    then have a: "phase_of p (kstack s (running s)) = Half_held" "phase_of p fs = Outside" using k pr by auto
    then show ?thesis
      using step [of "\<lambda>l. l\<lparr>holder_repeat_nr := 1\<rparr>"] trans_repeat [OF _ d(4)] trans_repeat [OF l(3) d(4)] 2 l(1)
      by (simp add: lock_repeat_def)
  next
    case 3
    then have "phase_of p (kstack s (running s)) = Leaving" "phase_of p fs = Cleared" using k pr by auto
    then show ?thesis using step [of "\<lambda>l. l\<lparr>holder := 0\<rparr>"] trans_clear [OF _ d(4)] 3 by simp
  next
    case 4
    then have "phase_of p (kstack s (running s)) = Cleared" "phase_of p fs = Dropped" using k pr by auto
    then show ?thesis using step [of "\<lambda>l. l\<lparr>holder_repeat_nr := 0\<rparr>"] trans_clear_repeat [OF _ d(4)] 4 by simp
  qed
qed

lemma semas_twice [simp]: "s\<lparr>semas := a, tasks := b, semas := c\<rparr> = s\<lparr>tasks := b, semas := c\<rparr>"
  by simp

lemma thread_unblock_sched_ok:
  assumes "sched_ok s" and "u \<in> blocked s"
  shows "\<exists>s'. thread_unblock u s = Some s' \<and> sched_ok s' \<and> blocked s' = blocked s - {u} \<and>
    running s' = running s \<and> eflags s' = eflags s \<and> kstack s' = kstack s \<and> locks s' = locks s \<and>
    semas s' = semas s \<and> idle_thread s' = idle_thread s \<and> dom (tasks s') = dom (tasks s)"
proof -
  have st: "st s u = Some TASK_BLOCKED" using assms(2) by (simp add: blocked_def)
  have nr: "u \<notin> set (thread_ready_list s)" using ready_st [OF assms(1)] st by auto
  obtain p where p: "thread_unblock u s = Some (s\<lparr>thread_ready_list := u # thread_ready_list s,
           tasks := (tasks s)(u \<mapsto> p\<lparr>status := TASK_READY\<rparr>)\<rparr>)" "tasks s u = Some p"
    using thread_unblock_ok [of s u] st nr by auto
  let ?s = "s\<lparr>thread_ready_list := u # thread_ready_list s, tasks := (tasks s)(u \<mapsto> p\<lparr>status := TASK_READY\<rparr>)\<rparr>"
  have "tasks_ok ?s"
    by (rule tasks_ok_enqueue [OF _ p(2) nr]) (use assms(1) in \<open>simp_all add: sched_ok_def\<close>)
  moreover have "u \<noteq> running s" using st running_st [OF assms(1)] by auto
  then have "st ?s (running s) = Some TASK_RUNNING" using running_st [OF assms(1)] by (simp add: st_def)
  ultimately have "sched_ok ?s" by (simp add: sched_ok_def)
  moreover have "blocked ?s = blocked s - {u}" by (auto simp: blocked_def st_def)
  ultimately show ?thesis using p by auto
qed

lemma frame_sema_up:
  assumes ok: "sync_ok own s" and k: "kstack s (running s) = Sema_up q # fs"
  shows "\<exists>s' own'. exec_frame (Sema_up q) (pop_frame fs s) = Some s' \<and> sync_ok own' s'"
proof -
  note d = sync_ok_dest [OF ok]
  obtain p where f: "q = lock_sema p" "fs = []" "p \<in> dom (locks s)" "running s \<noteq> idle_thread s"
    using d(6) unfolding k on_proc_def by auto
  obtain l sem where l: "locks s p = Some l" "semas s (lock_sema p) = Some sem"
      "lock_ok (own p) l sem (\<lambda>t. phase_of p (kstack s t)) (dom (tasks s)) (blocked s)"
    using sync_ok_lock [OF ok f(3)] .
  have ph: "phase_of p (kstack s (running s)) = Dropped" by (simp add: k f)
  note tr = trans_up [OF l(3) d(4) ph]
  obtain o1 c where dis: "intr_disable (pop_frame fs s) = (o1, c)" by fastforce
  then have e: "c = (pop_frame fs s)\<lparr>eflags := eflags c\<rparr>"
    using disable_flags [of "pop_frame fs s"] by (simp only: snd_conv)
  have c: "running c = running s" "tasks c = tasks s" "locks c = locks s" "semas c = semas s"
      "idle_thread c = idle_thread s" "kstack c = (kstack s)(running s := [])" "sched_ok c" "blocked c = blocked s"
    by (subst e, simp add: f(2) d(1))+
  have fin: "sync_ok (own(p := None)) (snd (intr_set_status o1 (c'\<lparr>semas := (semas c')(lock_sema p \<mapsto> sem')\<rparr>)))"
    if c': "sched_ok c'" "running c' = running s" "kstack c' = (kstack s)(running s := [])"
      "locks c' = locks s" "idle_thread c' = idle_thread s" "dom (tasks c') = dom (tasks s)"
      "blocked c' \<subseteq> blocked s" "\<And>t. t \<in> blocked s \<Longrightarrow> t \<notin> blocked c' \<Longrightarrow> phase_of p (kstack s t) = Waiting"
      "\<And>r. r \<noteq> p \<Longrightarrow> semas c' (lock_sema r) = semas s (lock_sema r)"
      "lock_ok None l sem' ((\<lambda>t. phase_of p (kstack s t))(running s := Outside)) (dom (tasks s)) (blocked c')"
    for c' sem'
  proof -
    let ?s' = "snd (intr_set_status o1 (c'\<lparr>semas := (semas c')(lock_sema p \<mapsto> sem')\<rparr>))"
    have "locks_ok (own(p := None)) ?s'"
    proof (rule locks_ok_step [OF d(3), where fs' = "[]" and l' = l and sem' = sem'])
      fix r t assume "r \<noteq> p" "phase_of r (kstack s t) = Waiting"
      then have "phase_of p (kstack s t) \<noteq> Waiting" using phase_waiting_unique by blast
      then show "t \<in> blocked ?s' \<longleftrightarrow> t \<in> blocked s" using c'(7,8) by auto
    qed (use c' l(1) k f in auto)
    moreover have "stacks_ok ?s'"
      by (rule stacks_ok_stay [OF d(2,1), where fs' = "[]"]) (use c' f in \<open>auto simp: on_proc_def\<close>)
    ultimately show ?thesis using c'(1) by (simp add: sync_ok_def)
  qed
  show ?thesis
  proof (cases "waiters sem")
    case Nil
    have "sync_ok (own(p := None)) (snd (intr_set_status o1 (c\<lparr>semas := (semas c)(lock_sema p \<mapsto> sem\<lparr>value := 1\<rparr>)\<rparr>)))"
      by (rule fin) (use c tr(2) [OF Nil] in auto)
    then show ?thesis
      using tr(1) l(2) Nil c by (auto simp: sema_up_def dis f(1) q_defs)
  next
    case (Cons u w)
    let ?c = "c\<lparr>semas := (semas c)(lock_sema p \<mapsto> sem\<lparr>waiters := w\<rparr>)\<rparr>"
    have "u \<in> blocked s" and uw: "phase_of p (kstack s u) = Waiting"
      using l(3) Cons unfolding lock_ok_def by auto
    then have "sched_ok ?c" "u \<in> blocked ?c" using c by simp_all
    then obtain c1 where c1: "thread_unblock u ?c = Some c1" "sched_ok c1" "blocked c1 = blocked s - {u}"
        "running c1 = running s" "kstack c1 = (kstack s)(running s := [])" "locks c1 = locks s"
        "semas c1 = (semas c)(lock_sema p \<mapsto> sem\<lparr>waiters := w\<rparr>)" "idle_thread c1 = idle_thread s"
        "dom (tasks c1) = dom (tasks s)"
      using thread_unblock_sched_ok [of ?c u] c by auto
    let ?sem = "sem\<lparr>waiters := w, value := 1\<rparr>"
    have "sync_ok (own(p := None)) (snd (intr_set_status o1 (c1\<lparr>semas := (semas c1)(lock_sema p \<mapsto> ?sem)\<rparr>)))"
      by (rule fin) (use c1 c uw tr(3) [OF Cons] in auto)
    moreover have "sema_up q (pop_frame fs s) =
        Some (snd (intr_set_status o1 (c1\<lparr>semas := (semas c1)(lock_sema p \<mapsto> ?sem)\<rparr>)))"
      using tr(1) l(2) Cons c c1(1,7) by (simp add: sema_up_def dis f(1) q_defs)
    ultimately show ?thesis by auto
  qed
qed

text \<open>A task that blocks or yields: the switch of \<open>thread_block_ok\<close> and \<open>thread_yield_ok\<close>.\<close>

lemma sync_switch:
  assumes ok: "sync_ok own s" and L: "locks c = locks s" "idle_thread c = idle_thread s" "running c = running s"
      "dom (tasks c) = dom (tasks s)" "kstack c = (kstack s)(running s := fs)"
    and sw: "switched c s' stat n"
    and B: "blocked s' \<subseteq> insert (running s) (blocked s)"
    and w: "running s \<in> blocked s' \<Longrightarrow> waiting (dom (locks s)) fs \<and> intr_get_status c = INTR_OFF"
    and p: "parked (dom (locks s)) (running s = idle_thread s) (Intr_restore (intr_get_status c) # fs)"
    and lk: "locks_ok own' s'"
  shows "sync_ok own' s'"
proof -
  have s': "sched_ok s'" "intr_get_status s' = INTR_OFF" "locks s' = locks s" "idle_thread s' = idle_thread s"
      "dom (tasks s') = dom (tasks s)"
      "kstack s' = (kstack s)(running s := Intr_restore (intr_get_status c) # fs)"
    using sw L unfolding switched_def by simp_all
  have "stacks_ok s'"
    by (rule stacks_ok_switch [OF sync_ok_dest(2,1) [OF ok], where fs' = "Intr_restore (intr_get_status c) # fs"])
      (use s' B w p in auto)
  then show ?thesis using s'(1) lk by (simp add: sync_ok_def)
qed

lemma sema_loop_ok:
  assumes ok: "sync_ok own s" and k: "kstack s (running s) = f # fs"
    and f: "f = Sema_down (lock_sema p) \<or> f = Sema_loop (lock_sema p) o1"
    and fs: "fs = [Lock_got p, Lock_repeat p]" and p: "p \<in> dom (locks s)" and i: "running s \<noteq> idle_thread s"
    and c: "c = (pop_frame fs s)\<lparr>eflags := e\<rparr>" and off: "intr_get_status c = INTR_OFF"
  shows "\<exists>s' own'. sema_loop (lock_sema p) o1 c = Some s' \<and> sync_ok own' s'"
proof -
  note d = sync_ok_dest [OF ok]
  obtain l sem where l: "locks s p = Some l" "semas s (lock_sema p) = Some sem"
      "lock_ok (own p) l sem (\<lambda>t. phase_of p (kstack s t)) (dom (tasks s)) (blocked s)"
    using sync_ok_lock [OF ok p] .
  have ph: "phase_of p (kstack s (running s)) = Waiting" using f by (auto simp: k)
  show ?thesis
  proof (cases "value sem = 0")
    case False
    note tr = trans_take [OF l(3) d(4) ph False d(5)]
    let ?s' = "snd (intr_set_status o1 (c\<lparr>semas := (semas c)(lock_sema p \<mapsto> sem\<lparr>value := 0\<rparr>)\<rparr>))"
    have "sync_ok (own(p := Some (running s))) ?s'"
    proof (rule sync_lock_step [OF ok k p, where fs' = fs and l' = l and sem' = "sem\<lparr>value := 0\<rparr>"])
      show "lock_ok (Some (running s)) l (sem\<lparr>value := 0\<rparr>)
        ((\<lambda>t. phase_of p (kstack s t))(running s := phase_of p fs)) (dom (tasks s)) (blocked s)"
        using tr fs by simp
      show "locks ?s' = (locks s)(p \<mapsto> l)" using l(1) c by (auto simp: fun_eq_iff)
    qed (use d f fs i p c in \<open>auto simp: on_proc_def\<close>)
    then show ?thesis using tr l(2) c by (auto simp: sema_loop_def Let_def)
  next
    case True
    note tr = trans_block [OF l(3) d(4) ph True d(5)]
    have nw: "running s \<notin> set (waiters sem)" using l(3) d(5) unfolding lock_ok_def by auto
    let ?w = "sem\<lparr>waiters := waiters sem @ [running s]\<rparr>"
    let ?c = "push_frame (Sema_loop (lock_sema p) o1) (c\<lparr>semas := (semas c)(lock_sema p \<mapsto> ?w)\<rparr>)"
    let ?fs = "Sema_loop (lock_sema p) o1 # fs"
    have cc: "sched_ok ?c" "running ?c = running s" "kstack ?c = (kstack s)(running s := ?fs)" "locks ?c = locks s"
        "idle_thread ?c = idle_thread s" "dom (tasks ?c) = dom (tasks s)" "intr_get_status ?c = INTR_OFF"
        "blocked ?c = blocked s" "semas ?c = (semas s)(lock_sema p \<mapsto> ?w)"
      using d(1) off by (simp_all add: c push_frame_def)
    obtain s' where s': "thread_block TASK_BLOCKED ?c = Some s'"
        "switched ?c s' TASK_BLOCKED
          (if thread_ready_list ?c = [] then idle_thread ?c else hd (thread_ready_list ?c))"
      using thread_block_ok [OF cc(1)] by blast
    have b: "blocked s' = insert (running s) (blocked s)"
      using switched_blocked [OF cc(1) s'(2)] cc i by simp
    have e: "locks s' = locks s" "semas s' = (semas s)(lock_sema p \<mapsto> ?w)" "dom (tasks s') = dom (tasks s)"
        "kstack s' = (kstack s)(running s := Intr_restore INTR_OFF # ?fs)"
      using s'(2) cc unfolding switched_def by simp_all
    have "locks_ok (own(p := own p)) s'"
    proof (rule locks_ok_step [OF d(3) e(3,4), where l' = l and sem' = ?w])
      show "lock_ok (own p) l ?w ((\<lambda>t. phase_of p (kstack s t))(running s := phase_of p (Intr_restore INTR_OFF # ?fs)))
        (dom (tasks s)) (blocked s')"
        using tr ph b by (simp add: fun_upd_idem)
      fix q t assume q: "q \<noteq> p" "phase_of q (kstack s t) = Waiting"
      then have "t \<noteq> running s" using ph phase_waiting_unique by blast
      then show "t \<in> blocked s' \<longleftrightarrow> t \<in> blocked s" using b by simp
    qed (use e l(1) f k fs in auto)
    then have "sync_ok (own(p := own p)) s'"
      by (intro sync_switch [OF ok cc(4,5,2,6,3) s'(2)]) (use b cc(7) fs p i in auto)
    moreover have "sema_loop (lock_sema p) o1 c = Some s'"
      using True l(2) nw s'(1) c by (simp add: sema_loop_def q_defs)
    ultimately show ?thesis by blast
  qed
qed

lemma frame_sema:
  assumes ok: "sync_ok own s" and k: "kstack s (running s) = f # fs"
    and f: "f = Sema_down q \<or> f = Sema_loop q o1"
  shows "\<exists>s' own'. exec_frame f (pop_frame fs s) = Some s' \<and> sync_ok own' s'"
proof -
  note d = sync_ok_dest [OF ok]
  obtain p where p: "q = lock_sema p" "fs = [Lock_got p, Lock_repeat p]" "p \<in> dom (locks s)"
      "running s \<noteq> idle_thread s" "f = Sema_loop q o1 \<Longrightarrow> intr_get_status s = INTR_OFF"
    using d(6) f unfolding k on_proc_def by (auto simp del: domIff domI) blast+
  from f show ?thesis
  proof
    assume fd: "f = Sema_down q"
    obtain old c where dis: "intr_disable (pop_frame fs s) = (old, c)" by fastforce
    have e: "c = (pop_frame fs s)\<lparr>eflags := eflags c\<rparr>" "intr_get_status c = INTR_OFF"
      using disable_flags [of "pop_frame fs s"] intr_disable_status(2) [of "pop_frame fs s"]
      unfolding dis by (simp_all only: snd_conv)
    show ?thesis
      using sema_loop_ok [OF ok k _ p(2,3,4) e] fd p(1) by (simp add: sema_down_def dis)
  next
    assume fl: "f = Sema_loop q o1"
    have e: "pop_frame fs s = (pop_frame fs s)\<lparr>eflags := eflags (pop_frame fs s)\<rparr>" by simp
    show ?thesis
      using sema_loop_ok [OF ok k _ p(2,3,4) e] fl p(1,5) by simp
  qed
qed

lemma frame_idle_yield:
  assumes ok: "sync_ok own s" and k: "kstack s (running s) = f # fs" and f: "f = Idle \<or> f = Thread_yield"
  shows "\<exists>s'. exec_frame f (pop_frame fs s) = Some s' \<and> sync_ok own s'"
proof -
  note d = sync_ok_dest [OF ok]
  note pr = d(6) [unfolded k on_proc_def]
  from f show ?thesis
  proof
    assume f: "f = Idle"
    then have i: "running s = idle_thread s" "fs = []" using pr by auto
    let ?c = "push_frame Idle_hlt (pop_frame fs s)"
    have cc: "sched_ok ?c" "running ?c = running s" "kstack ?c = (kstack s)(running s := [Idle_hlt])"
        "locks ?c = locks s" "idle_thread ?c = idle_thread s" "dom (tasks ?c) = dom (tasks s)"
        "blocked ?c = blocked s" "semas ?c = semas s"
      using d(1) i by (simp_all add: push_frame_def)
    obtain s' where s': "thread_block TASK_BLOCKED ?c = Some s'"
        "switched ?c s' TASK_BLOCKED
          (if thread_ready_list ?c = [] then idle_thread ?c else hd (thread_ready_list ?c))"
      using thread_block_ok [OF cc(1)] by blast
    have b: "blocked s' = blocked s" using switched_blocked [OF cc(1) s'(2)] cc i by simp
    have e: "locks s' = locks s" "semas s' = semas s" "dom (tasks s') = dom (tasks s)"
        "kstack s' = (kstack s)(running s := [Intr_restore (intr_get_status ?c), Idle_hlt])"
      using s'(2) cc unfolding switched_def by simp_all
    have "locks_ok own s'" by (rule locks_ok_same [OF d(3) e(3,4,1,2)]) (use b k f in simp_all)
    then have "sync_ok own s'"
      by (intro sync_switch [OF ok cc(4,5,2,6,3) s'(2)]) (use b d(5) i in auto)
    then show ?thesis using s'(1) f by auto
  next
    assume f: "f = Thread_yield"
    then have i: "running s \<noteq> idle_thread s" "fs = []" using pr by auto
    let ?c = "pop_frame fs s"
    have cc: "sched_ok ?c" "running ?c = running s" "kstack ?c = (kstack s)(running s := [])"
        "locks ?c = locks s" "idle_thread ?c = idle_thread s" "dom (tasks ?c) = dom (tasks s)"
        "blocked ?c = blocked s" "semas ?c = semas s"
      using d(1) i by simp_all
    obtain s' where s': "thread_yield ?c = Some s'"
        "switched ?c s' TASK_READY (hd (thread_ready_list ?c @ [running ?c]))"
      using thread_yield_ok [OF cc(1)] by blast
    have b: "blocked s' = blocked s" using switched_ready_blocked [OF cc(1) s'(2)] cc by simp
    have e: "locks s' = locks s" "semas s' = semas s" "dom (tasks s') = dom (tasks s)"
        "kstack s' = (kstack s)(running s := [Intr_restore (intr_get_status ?c)])"
      using s'(2) cc i(2) unfolding switched_def by simp_all
    have "locks_ok own s'" by (rule locks_ok_same [OF d(3) e(3,4,1,2)]) (use b k f in simp_all)
    then have "sync_ok own s'"
      by (intro sync_switch [OF ok cc(4,5,2,6,3) s'(2)]) (use b d(5) i in auto)
    then show ?thesis using s'(1) f by auto
  qed
qed

lemma frame_runs:
  assumes ok: "sync_ok own s" and k: "kstack s (running s) = f # fs"
  shows "\<exists>s' own'. exec_frame f (pop_frame fs s) = Some s' \<and> sync_ok own' s'"
proof (cases f)
  case (Sema_up q) then show ?thesis using frame_sema_up [OF ok] k by simp
next
  case (Lock_acquire p) then show ?thesis using frame_acquire [OF ok] k by simp
next
  case (Lock_release p) then show ?thesis using frame_release [OF ok] k by simp
next
  case (Sema_down q) then show ?thesis using frame_sema [OF ok k] by blast
next
  case (Sema_loop q o1) then show ?thesis using frame_sema [OF ok k] by blast
next
  case (Lock_got p) then show ?thesis using frame_lock_fields [OF ok k, of p] by auto
next
  case (Lock_repeat p) then show ?thesis using frame_lock_fields [OF ok k, of p] by auto
next
  case (Lock_clear p) then show ?thesis using frame_lock_fields [OF ok k, of p] by auto
next
  case (Lock_clear_repeat p) then show ?thesis using frame_lock_fields [OF ok k, of p] by auto
next
  case Idle then show ?thesis using frame_idle_yield [OF ok k] by blast
next
  case Thread_yield then show ?thesis using frame_idle_yield [OF ok k] by blast
qed (use frame_simple [OF ok k] in blast)+

lemma clock_runs:
  assumes ok: "sync_ok own s" and on: "intr_get_status s = INTR_ON"
  shows "\<exists>s'. clock_interrupt s = Some s' \<and> sync_ok own s'"
proof -
  note d = sync_ok_dest [OF ok]
  let ?c = "push_frame (Iret (eflags s)) (cli s)"
  let ?fs = "Iret (eflags s) # kstack s (running s)"
  have cc: "sched_ok ?c" "running ?c = running s" "kstack ?c = (kstack s)(running s := ?fs)" "locks ?c = locks s"
      "idle_thread ?c = idle_thread s" "dom (tasks ?c) = dom (tasks s)" "semas ?c = semas s"
      "thread_ready_list ?c = thread_ready_list s" "st ?c = st s"
    using d(1) by (simp_all add: push_frame_def cli_def)
  have off: "intr_get_status ?c = INTR_OFF" by (simp add: push_frame_def)
  obtain s' where s': "intr_timer_handler ?c = Some s'" "sched_ok s'" "same_sync ?c s'" "eflags s' = eflags ?c"
      "running s' = (if ticks (the (tasks ?c (running ?c))) = 0 then hd (thread_ready_list ?c @ [running ?c]) else running ?c)"
      "\<And>t. st s' t = (if t = running s' then Some TASK_RUNNING else if t = running ?c then Some TASK_READY else st ?c t)"
    using intr_timer_handler_ok [OF cc(1) off] by blast
  have e: "locks s' = locks s" "semas s' = semas s" "dom (tasks s') = dom (tasks s)" "idle_thread s' = idle_thread s"
      "kstack s' = (kstack s)(running s := ?fs)"
    using s'(3) cc unfolding same_sync_def by simp_all
  have "running s' \<notin> blocked s"
    using s'(5) cc(2,8) ready_st [OF d(1)] running_st [OF d(1)]
    by (cases "thread_ready_list s") (auto simp: blocked_def)
  have b: "blocked s' = blocked s"
  proof (rule set_eqI)
    fix t
    have bt: "t \<in> blocked s' \<longleftrightarrow> st s' t = Some TASK_BLOCKED \<and> t \<noteq> idle_thread s"
        "t \<in> blocked s \<longleftrightarrow> st s t = Some TASK_BLOCKED \<and> t \<noteq> idle_thread s"
      by (simp_all add: blocked_def e)
    show "t \<in> blocked s' \<longleftrightarrow> t \<in> blocked s"
    proof (cases "t = running s'")
      case True
      have "t \<notin> blocked s'" unfolding bt(1) s'(6) using True by simp
      then show ?thesis using True \<open>running s' \<notin> blocked s\<close> by simp
    next
      case nr: False
      show ?thesis
      proof (cases "t = running s")
        case True
        have "t \<notin> blocked s'" unfolding bt(1) s'(6) using True nr cc(2) by simp
        then show ?thesis using True d(5) by simp
      next
        case False
        show ?thesis unfolding bt s'(6) using nr False cc(2,9) by simp
      qed
    qed
  qed
  have calm: "calm (dom (locks s)) (running s = idle_thread s) (kstack s (running s))"
    using d(6) on by (simp add: on_proc_def)
  have "locks_ok own s'" by (rule locks_ok_same [OF d(3) e(3,5,1,2)]) (use b in simp_all)
  moreover have "stacks_ok s'"
    by (rule stacks_ok_switch [OF d(2,1) e(3,5) s'(2) e(4)])
      (use e b d(5) calm off s'(4) status_update [of s' ?c] in auto)
  ultimately show ?thesis using s'(1,2) by (simp add: clock_interrupt_def sync_ok_def)
qed

lemma start_op:
  assumes ok: "sync_ok own s" and k: "kstack s (running s) = []"
    and g: "g = Thread_yield \<or> (\<exists>p. g = Lock_acquire p \<and> may_acquire p s) \<or> (\<exists>p. g = Lock_release p \<and> may_release p s)"
  shows "\<exists>own'. sync_ok own' (push_frame g s)"
proof -
  note d = sync_ok_dest [OF ok]
  have i: "running s \<noteq> idle_thread s" using d(6) unfolding k on_proc_def by auto
  consider (y) "g = Thread_yield" | (acq) p where "g = Lock_acquire p" "may_acquire p s"
    | (rel) p where "g = Lock_release p" "may_release p s" using g by blast
  then show ?thesis
  proof cases
    case y
    have "sync_ok own (push_frame g s)"
      by (rule sync_quiet [OF ok k, where fs' = "[g]"]) (use d i k y in \<open>auto simp: push_frame_def on_proc_def\<close>)
    then show ?thesis by blast
  next
    case acq
    then obtain l where l: "locks s p = Some l" "holder l = running s \<Longrightarrow> holder_repeat_nr l \<noteq> - 1"
      by (auto simp: may_acquire_def split: option.splits)
    then have p: "p \<in> dom (locks s)" by auto
    obtain sem where sem: "semas s (lock_sema p) = Some sem"
        "lock_ok (own p) l sem (\<lambda>t. phase_of p (kstack s t)) (dom (tasks s)) (blocked s)"
      using sync_ok_lock [OF ok p] l(1) by auto
    have "sync_ok (own(p := own p)) (push_frame g s)"
    proof (rule sync_lock_step [OF ok k p, where fs' = "[g]" and l' = l and sem' = sem])
      show "lock_ok (own p) l sem ((\<lambda>t. phase_of p (kstack s t))(running s := phase_of p [g]))
        (dom (tasks s)) (blocked s)"
        using trans_start_acquire [OF sem(2) d(4) _ l(2)] k acq by simp
    qed (use d i k acq p l sem in \<open>auto simp: push_frame_def on_proc_def fun_eq_iff\<close>)
    then show ?thesis by blast
  next
    case rel
    then obtain l where l: "locks s p = Some l" "holder l = running s"
      by (auto simp: may_release_def split: option.splits)
    then have p: "p \<in> dom (locks s)" by auto
    obtain sem where sem: "semas s (lock_sema p) = Some sem"
        "lock_ok (own p) l sem (\<lambda>t. phase_of p (kstack s t)) (dom (tasks s)) (blocked s)"
      using sync_ok_lock [OF ok p] l(1) by auto
    have "sync_ok (own(p := own p)) (push_frame g s)"
    proof (rule sync_lock_step [OF ok k p, where fs' = "[g]" and l' = l and sem' = sem])
      show "lock_ok (own p) l sem ((\<lambda>t. phase_of p (kstack s t))(running s := phase_of p [g]))
        (dom (tasks s)) (blocked s)"
        using trans_start_release [OF sem(2) d(4) _ l(2)] k rel by simp
    qed (use d i k rel p l sem in \<open>auto simp: push_frame_def on_proc_def fun_eq_iff\<close>)
    then show ?thesis by blast
  qed
qed

lemma sync_ok_step:
  assumes "kstep s s'" and "sync_ok own s"
  shows "\<exists>own'. sync_ok own' s'"
  using assms
proof cases
  case (frame f fs)
  then show ?thesis using frame_runs [OF assms(2)] by fastforce
next
  case (flags o')
  have "sync_ok own (snd (intr_set_status o' s))"
    by (rule sync_quiet [OF assms(2) flags(2), where fs' = "[]"])
      (use sync_ok_dest [OF assms(2)] flags in \<open>auto simp: on_proc_def\<close>)
  then show ?thesis using flags by blast
next
  case clock
  then show ?thesis using clock_runs [OF assms(2)] by auto
qed (use start_op [OF assms(2)] in blast)+

lemma sync_ok_reach: "kreach s s' \<Longrightarrow> sync_ok own s \<Longrightarrow> \<exists>own'. sync_ok own' s'"
proof (induction rule: kreach.induct)
  case (more s s' s'')
  then show ?case using sync_ok_step by blast
qed blast

subsection \<open>Uncontended use\<close>

text \<open>
  The parts of the kernel that use a lock around straight-line code are modelled by running
  \<open>lock_acquire\<close> and \<open>lock_release\<close> to their end in one go; a lock held by another task, where the
  caller would be suspended, is \<open>None\<close> there. The lemma says this is one of the runs of \<open>kstep\<close>.
\<close>

definition sema_down_now :: "u32 \<Rightarrow> 'z kstate_scheme \<Rightarrow> 'z kstate_scheme option" where
  "sema_down_now psema s = do {
     sem \<leftarrow> semas s psema;
     if value sem = 0 then None else sema_down psema s }"

definition lock_acquire_now :: "u32 \<Rightarrow> 'z kstate_scheme \<Rightarrow> 'z kstate_scheme option" where
  "lock_acquire_now plock s = do {
     l \<leftarrow> locks s plock;
     if holder l \<noteq> running s then do {
       s \<leftarrow> sema_down_now (lock_sema plock) s;
       s \<leftarrow> lock_got plock s;
       lock_repeat plock s }
     else upd_lock plock (\<lambda>l. l\<lparr>holder_repeat_nr := holder_repeat_nr l + 1\<rparr>) s }"

definition lock_release_now :: "u32 \<Rightarrow> 'z kstate_scheme \<Rightarrow> 'z kstate_scheme option" where
  "lock_release_now plock s = do {
     l \<leftarrow> locks s plock;
     ASSERT (holder l = running s);
     if holder_repeat_nr l > 1
     then upd_lock plock (\<lambda>l. l\<lparr>holder_repeat_nr := holder_repeat_nr l - 1\<rparr>) s
     else do {
       ASSERT (holder_repeat_nr l = 1);
       s \<leftarrow> upd_lock plock (\<lambda>l. l\<lparr>holder := 0\<rparr>) s;
       s \<leftarrow> upd_lock plock (\<lambda>l. l\<lparr>holder_repeat_nr := 0\<rparr>) s;
       sema_up (lock_sema plock) s } }"

text \<open>Taking a free lock and giving it back, as state changes.\<close>

definition held_by :: "u32 \<Rightarrow> task \<Rightarrow> 'z kstate_scheme \<Rightarrow> 'z kstate_scheme" where
  "held_by p t s = s\<lparr>locks := (locks s)(p \<mapsto> \<lparr>holder = t, holder_repeat_nr = 1\<rparr>),
     semas := (semas s)(lock_sema p \<mapsto> \<lparr>value = 0, waiters = []\<rparr>)\<rparr>"

definition lock_free :: "u32 \<Rightarrow> 'z kstate_scheme \<Rightarrow> bool" where
  "lock_free p s \<longleftrightarrow> locks s p = Some \<lparr>holder = 0, holder_repeat_nr = 0\<rparr> \<and>
     semas s (lock_sema p) = Some \<lparr>value = 1, waiters = []\<rparr>"

lemma sema_down_free:
  assumes "semas s q = Some \<lparr>value = 1, waiters = w\<rparr>"
  shows "sema_down q s = Some (s\<lparr>semas := (semas s)(q \<mapsto> \<lparr>value = 0, waiters = w\<rparr>)\<rparr>)"
proof -
  obtain o1 c where d: "intr_disable s = (o1, c)" by fastforce
  then have e: "c = s\<lparr>eflags := eflags c\<rparr>" using disable_flags [of s] by (simp only: snd_conv)
  have m: "semas c = semas s" by (subst e) simp
  let ?f = "\<lambda>x :: 'a kstate_scheme. x\<lparr>semas := (semas x)(q \<mapsto> \<lparr>value = 0, waiters = w\<rparr>)\<rparr>"
  have "sema_down q s = Some (snd (intr_set_status o1 (?f c)))"
    using assms m by (simp add: sema_down_def sema_loop_def d)
  also have "snd (intr_set_status o1 (?f c)) = ?f s" by (rule critical_section [OF d]) simp_all
  finally show ?thesis .
qed

lemma sema_up_free:
  assumes "semas s q = Some \<lparr>value = 0, waiters = []\<rparr>"
  shows "sema_up q s = Some (s\<lparr>semas := (semas s)(q \<mapsto> \<lparr>value = 1, waiters = []\<rparr>)\<rparr>)"
proof -
  obtain o1 c where d: "intr_disable s = (o1, c)" by fastforce
  then have e: "c = s\<lparr>eflags := eflags c\<rparr>" using disable_flags [of s] by (simp only: snd_conv)
  have m: "semas c = semas s" by (subst e) simp
  let ?f = "\<lambda>x :: 'a kstate_scheme. x\<lparr>semas := (semas x)(q \<mapsto> \<lparr>value = 1, waiters = []\<rparr>)\<rparr>"
  have "sema_up q s = Some (snd (intr_set_status o1 (?f c)))"
    using assms m by (simp add: sema_up_def d q_defs)
  also have "snd (intr_set_status o1 (?f c)) = ?f s" by (rule critical_section [OF d]) simp_all
  finally show ?thesis .
qed

lemma lock_acquire_now_free:
  assumes "lock_free p s" and "running s \<noteq> 0"
  shows "lock_acquire_now p s = Some (held_by p (running s) s)"
  using assms
  by (simp add: lock_acquire_now_def lock_free_def sema_down_now_def sema_down_free lock_got_def lock_repeat_def
      upd_lock_def held_by_def)

lemma lock_release_now_held:
  assumes "locks s p = Some \<lparr>holder = running s, holder_repeat_nr = 1\<rparr>"
    and "semas s (lock_sema p) = Some \<lparr>value = 0, waiters = []\<rparr>"
  shows "lock_release_now p s = Some (s\<lparr>locks := (locks s)(p \<mapsto> \<lparr>holder = 0, holder_repeat_nr = 0\<rparr>),
     semas := (semas s)(lock_sema p \<mapsto> \<lparr>value = 1, waiters = []\<rparr>)\<rparr>)"
  using assms by (simp add: lock_release_now_def upd_lock_def sema_up_free)

subsection \<open>Properties\<close>

text \<open>
  A task is inside a lock from the moment it has taken the semaphore until the moment it gives it
  back, whatever the \<open>holder\<close> field says at that moment.
\<close>

definition inside :: "'z kstate_scheme \<Rightarrow> u32 \<Rightarrow> task \<Rightarrow> bool" where
  "inside s p t \<longleftrightarrow> t \<in> dom (tasks s) \<and> (\<exists>l. locks s p = Some l \<and>
     (holder l = t \<or> phase_of p (kstack s t) \<notin> {Outside, Acquiring, Waiting}))"

lemma inside_owner:
  assumes "sync_ok own s" and "inside s p t"
  shows "own p = Some t \<and> (\<exists>sem. semas s (lock_sema p) = Some sem \<and> value sem = 0)"
proof -
  obtain l where l: "locks s p = Some l" "t \<in> dom (tasks s)"
      "holder l = t \<or> phase_of p (kstack s t) \<notin> {Outside, Acquiring, Waiting}"
    using assms(2) by (auto simp: inside_def)
  obtain sem where sem: "semas s (lock_sema p) = Some sem"
      "lock_ok (own p) l sem (\<lambda>t. phase_of p (kstack s t)) (dom (tasks s)) (blocked s)"
    using sync_ok_lock [OF assms(1), of p] l(1) by auto
  show ?thesis
    using l(3) owner_is_holder [OF sem(2) l(2)] owner_by_phase [OF sem(2) l(2)] sem(1) by blast
qed

text \<open>
  C2: mutual exclusion. However the tasks that use the kernel's locks are interleaved by blocking,
  yielding and clock interrupts at any point between two statements, at most one task is inside a
  lock, and while one is, the lock's semaphore is 0.
\<close>

theorem lock_mutual_exclusion:
  assumes "sync_ok own s0" and "kreach s0 s" and "inside s p t" and "inside s p u"
  shows "t = u \<and> (\<exists>sem. semas s (lock_sema p) = Some sem \<and> value sem = 0)"
proof -
  obtain own' where ok: "sync_ok own' s" using sync_ok_reach [OF assms(2,1)] by blast
  show ?thesis using inside_owner [OF ok assms(3)] inside_owner [OF ok assms(4)] by auto
qed

text \<open>
  C1: no \<open>ASSERT\<close> or \<open>PANIC\<close> of \<open>thread.c\<close> and \<open>sync.c\<close> can fail. In every state reached by tasks that
  release only locks they hold, whatever the running task has to execute next returns, and so does
  the clock interrupt; the state it leaves satisfies the scheduler's invariant again.
\<close>

theorem kernel_never_panics:
  assumes "sync_ok own s0" and "kreach s0 s"
  shows "sched_ok s \<and>
    (case kstack s (running s) of [] \<Rightarrow> True | f # fs \<Rightarrow> exec_frame f (pop_frame fs s) \<noteq> None) \<and>
    (intr_get_status s = INTR_ON \<longrightarrow> clock_interrupt s \<noteq> None)"
proof -
  obtain own' where ok: "sync_ok own' s" using sync_ok_reach [OF assms(2,1)] by blast
  have "exec_frame f (pop_frame fs s) \<noteq> None" if "kstack s (running s) = f # fs" for f fs
    using frame_runs [OF ok that] by auto
  moreover have "clock_interrupt s \<noteq> None" if "intr_get_status s = INTR_ON"
    using clock_runs [OF ok that] by auto
  ultimately show ?thesis
    using sync_ok_dest(1) [OF ok] by (cases "kstack s (running s)") auto
qed

text \<open>
  C3: no wake-up is lost. In every reachable state a task blocked on a lock is in that lock's list of
  waiters, and while a lock has waiters, either some task holds it (and will wake one), or a task that
  was woken up is ready and on its way to take it.
\<close>

theorem no_lost_wakeup:
  assumes "sync_ok own s0" and "kreach s0 s" and "t \<in> blocked s"
  shows "\<exists>p sem. semas s (lock_sema p) = Some sem \<and> t \<in> set (waiters sem) \<and>
    ((\<exists>u. inside s p u) \<or> (\<exists>u. u \<in> dom (tasks s) \<and> u \<notin> blocked s \<and> phase_of p (kstack s u) = Waiting))"
proof -
  obtain own' where ok: "sync_ok own' s" using sync_ok_reach [OF assms(2,1)] by blast
  obtain fs where fs: "waiting (dom (locks s)) fs" "kstack s t = Intr_restore INTR_OFF # fs"
    using sync_ok_dest(2) [OF ok] assms(3) unfolding stacks_ok_def by blast
  obtain p old where q: "p \<in> dom (locks s)" "fs = [Sema_loop (lock_sema p) old, Lock_got p, Lock_repeat p]"
    using fs(1) by (rule waiting.cases) blast
  then have p: "p \<in> dom (locks s)" "phase_of p (kstack s t) = Waiting" using fs(2) by simp_all
  obtain l sem where l: "locks s p = Some l" "semas s (lock_sema p) = Some sem"
      "lock_ok (own' p) l sem (\<lambda>t. phase_of p (kstack s t)) (dom (tasks s)) (blocked s)"
    using sync_ok_lock [OF ok p(1)] .
  have w: "t \<in> set (waiters sem)" using l(3) p(2) assms(3) blocked_dom [OF assms(3)] unfolding lock_ok_def by blast
  then have "waiters sem \<noteq> []" by auto
  with l(3) consider "value sem = 0" | "\<exists>u \<in> dom (tasks s). u \<notin> blocked s \<and> phase_of p (kstack s u) = Waiting"
    unfolding lock_ok_def by blast
  then show ?thesis
  proof cases
    case 1
    obtain u where u: "own' p = Some u" using 1 l(3) unfolding lock_ok_def by (cases "own' p") auto
    then have o: "u \<in> dom (tasks s)" "owner_ok l u (phase_of p (kstack s u))" using l(3) unfolding lock_ok_def by auto
    then have "inside s p u" using l(1) by (auto simp: inside_def owner_ok_def split: phase.splits)
    then show ?thesis using l(2) w by blast
  next
    case 2
    then show ?thesis using l(2) w by blast
  qed
qed

text \<open>A state with one task holding a lock and another blocked on it.\<close>

definition demo_contended :: kstate where
  "demo_contended = demo_kernel\<lparr>
     tasks := [0xc009e000 \<mapsto> demo_task 3 TASK_RUNNING, 0xc0101000 \<mapsto> demo_task 5 TASK_BLOCKED,
               0xc0102000 \<mapsto> demo_task 5 TASK_BLOCKED],
     thread_ready_list := [],
     semas := [0xc0200004 \<mapsto> \<lparr>value = 0, waiters = [0xc0101000]\<rparr>],
     locks := [0xc0200000 \<mapsto> \<lparr>holder = 0xc009e000, holder_repeat_nr = 1\<rparr>],
     kstack := (\<lambda>_. [])(0xc0101000 := [Intr_restore INTR_OFF, Sema_loop 0xc0200004 INTR_ON,
         Lock_got 0xc0200000, Lock_repeat 0xc0200000],
       0xc0102000 := [Intr_restore INTR_OFF, Idle_hlt])\<rparr>"

lemma demo_contended_ok: "sync_ok ((\<lambda>_. None)(0xc0200000 := Some 0xc009e000)) demo_contended"
proof -
  have ls: "lock_sema 0xc0200000 = 0xc0200004" by (simp add: lock_sema_def)
  have dirs: "dirs_ok demo_contended"
    unfolding dirs_ok_def
    by (rule exI [of _ "{0x100000}"]) (auto simp: demo_contended_def demo_kernel_def demo_task_def split: if_splits)
  have b: "blocked demo_contended = {0xc0101000}"
    by (auto simp: blocked_def st_def demo_contended_def demo_kernel_def demo_task_def split: if_splits)
  have sched: "sched_ok demo_contended"
    using dirs by (auto simp: sched_ok_def tasks_ok_def demo_contended_def demo_kernel_def demo_task_def st_def
        split: if_splits)
  have w: "waiting {0xc0200000} [Sema_loop 0xc0200004 INTR_ON, Lock_got 0xc0200000, Lock_repeat 0xc0200000]"
    using ls by auto
  have dl: "dom (locks demo_contended) = {0xc0200000}" by (simp add: demo_contended_def)
  have stacks: "stacks_ok demo_contended"
    unfolding stacks_ok_def b dl using w
    by (auto simp: demo_contended_def demo_kernel_def on_proc_def split: if_splits)
  have "locks_ok ((\<lambda>_. None)(0xc0200000 := Some 0xc009e000)) demo_contended"
    unfolding locks_ok_def b
    by (auto simp: demo_contended_def demo_kernel_def ls lock_ok_def owner_ok_def split: if_splits)
  with sched stacks show ?thesis by (simp add: sync_ok_def)
qed

lemma demo_inside: "inside demo_contended 0xc0200000 0xc009e000"
  by (simp add: inside_def demo_contended_def)

theorem lock_mutual_exclusion_witness:
  "\<exists>sem. semas demo_contended (lock_sema 0xc0200000) = Some sem \<and> value sem = 0"
  using lock_mutual_exclusion [OF demo_contended_ok kreach.start demo_inside demo_inside] by simp

theorem kernel_never_panics_witness:
  "sched_ok (push_frame (Lock_release 0xc0200000) demo_contended) \<and>
   exec_frame (Lock_release 0xc0200000) (pop_frame [] (push_frame (Lock_release 0xc0200000) demo_contended)) \<noteq> None"
proof -
  have "kreach demo_contended (push_frame (Lock_release 0xc0200000) demo_contended)"
    by (rule kreach.more [OF kreach.start kstep.release])
      (simp_all add: demo_contended_def demo_kernel_def may_release_def)
  from kernel_never_panics [OF demo_contended_ok this] show ?thesis
    by (simp add: push_frame_def demo_contended_def demo_kernel_def)
qed

theorem no_lost_wakeup_witness:
  "\<exists>p sem. semas demo_contended (lock_sema p) = Some sem \<and> 0xc0101000 \<in> set (waiters sem)"
proof -
  have "0xc0101000 \<in> blocked demo_contended"
    by (simp add: blocked_def st_def demo_contended_def demo_kernel_def demo_task_def)
  from no_lost_wakeup [OF demo_contended_ok kreach.start this] show ?thesis by blast
qed

end
