(* ===== verification/Device_Ioqueue.thy ===== *)
theory Device_Ioqueue
  imports Kernel_Sync
begin

text \<open>
  \<open>device/ioqueue.c\<close>: the ring buffer between the keyboard interrupt and the readers of the
  keyboard. \<open>head\<close> and \<open>tail\<close> are positions in \<open>buf\<close>; one place stays free, so that equal positions mean
  empty.

  \<open>ioq_getchar\<close> and \<open>ioq_putchar\<close> wait in a loop. Up to the first wait they are one atomic
  step (interrupts are off); a caller that has to wait is suspended, and goes on at the head of the
  loop, after \<open>lock_release\<close>, when it is woken up.
\<close>

definition bufsize :: nat where
  "bufsize = 64"

record ioqueue =
  ioq_lock :: u32
  producer :: task
  consumer :: task
  buf :: "u8 list"
  head :: nat
  tail :: nat

datatype 'a outcome = Returned 'a | Suspended

definition ioqueue_init :: "u32 \<Rightarrow> ioqueue \<Rightarrow> 'z kstate_scheme \<Rightarrow> ioqueue \<times> 'z kstate_scheme" where
  "ioqueue_init plock ioq s =
     (ioq\<lparr>ioq_lock := plock, producer := 0, consumer := 0, head := 0, tail := 0\<rparr>, lock_init plock s)"

definition next_pos :: "nat \<Rightarrow> nat" where
  "next_pos pos = (pos + 1) mod bufsize"

definition ioq_full :: "ioqueue \<Rightarrow> 'z kstate_scheme \<Rightarrow> bool option" where
  "ioq_full ioq s = do {
     ASSERT (intr_get_status s = INTR_OFF);
     Some (next_pos (head ioq) = tail ioq) }"

definition ioq_empty :: "ioqueue \<Rightarrow> 'z kstate_scheme \<Rightarrow> bool option" where
  "ioq_empty ioq s = do {
     ASSERT (intr_get_status s = INTR_OFF);
     Some (head ioq = tail ioq) }"

text \<open>\<open>ioq_wait\<close> and \<open>wakeup\<close> on the field their argument points to.\<close>

definition ioq_wait :: "task \<Rightarrow> 'z kstate_scheme \<Rightarrow> (task \<times> 'z kstate_scheme) option" where
  "ioq_wait waiter s = do {
     ASSERT (waiter = 0);
     let waiter = running s;
     s \<leftarrow> thread_block TASK_BLOCKED s;
     Some (waiter, s) }"

definition wakeup :: "task \<Rightarrow> 'z kstate_scheme \<Rightarrow> (task \<times> 'z kstate_scheme) option" where
  "wakeup waiter s = do {
     ASSERT (waiter \<noteq> 0);
     s \<leftarrow> thread_unblock waiter s;
     Some (0, s) }"

definition ioq_getchar ::
  "ioqueue \<Rightarrow> 'z kstate_scheme \<Rightarrow> (u8 outcome \<times> ioqueue \<times> 'z kstate_scheme) option" where
  "ioq_getchar ioq s = do {
     ASSERT (intr_get_status s = INTR_OFF);
     empty \<leftarrow> ioq_empty ioq s;
     if empty then do {
       s \<leftarrow> lock_acquire_now (ioq_lock ioq) s;
       (c, s) \<leftarrow> ioq_wait (consumer ioq) s;
       Some (Suspended, ioq\<lparr>consumer := c\<rparr>, s) }
     else do {
       byte \<leftarrow> rd (buf ioq) (tail ioq);
       let ioq = ioq\<lparr>tail := next_pos (tail ioq)\<rparr>;
       (p, s) \<leftarrow> (if producer ioq \<noteq> 0 then wakeup (producer ioq) s else Some (producer ioq, s));
       Some (Returned byte, ioq\<lparr>producer := p\<rparr>, s) } }"

definition ioq_putchar ::
  "ioqueue \<Rightarrow> u8 \<Rightarrow> 'z kstate_scheme \<Rightarrow> (unit outcome \<times> ioqueue \<times> 'z kstate_scheme) option" where
  "ioq_putchar ioq byte s = do {
     ASSERT (intr_get_status s = INTR_OFF);
     full \<leftarrow> ioq_full ioq s;
     if full then do {
       s \<leftarrow> lock_acquire_now (ioq_lock ioq) s;
       (p, s) \<leftarrow> ioq_wait (producer ioq) s;
       Some (Suspended, ioq\<lparr>producer := p\<rparr>, s) }
     else do {
       b \<leftarrow> wr (buf ioq) (head ioq) byte;
       let ioq = ioq\<lparr>buf := b, head := next_pos (head ioq)\<rparr>;
       (c, s) \<leftarrow> (if consumer ioq \<noteq> 0 then wakeup (consumer ioq) s else Some (consumer ioq, s));
       Some (Returned (), ioq\<lparr>consumer := c\<rparr>, s) } }"

text \<open>The continuation of a suspended call: release the lock, then the loop again.\<close>

definition ioq_getchar_resume ::
  "ioqueue \<Rightarrow> 'z kstate_scheme \<Rightarrow> (u8 outcome \<times> ioqueue \<times> 'z kstate_scheme) option" where
  "ioq_getchar_resume ioq s = do {
     s \<leftarrow> lock_release_now (ioq_lock ioq) s;
     ioq_getchar ioq s }"

definition ioq_putchar_resume ::
  "ioqueue \<Rightarrow> u8 \<Rightarrow> 'z kstate_scheme \<Rightarrow> (unit outcome \<times> ioqueue \<times> 'z kstate_scheme) option" where
  "ioq_putchar_resume ioq byte s = do {
     s \<leftarrow> lock_release_now (ioq_lock ioq) s;
     ioq_putchar ioq byte s }"

subsection \<open>The contract of a bounded buffer\<close>

text \<open>
  \<open>abs q\<close> is the contents of the buffer, oldest first. \<open>offer\<close> puts an element in if there is room,
  and otherwise drops it, as the keyboard does; \<open>poll\<close> takes one if there is one.
\<close>

locale bounded_buffer =
  fixes ok :: "'q \<Rightarrow> bool" and abs :: "'q \<Rightarrow> 'e list" and cap :: nat
    and put_op :: "'e \<Rightarrow> 'q \<Rightarrow> 'q option" and get_op :: "'q \<Rightarrow> ('e \<times> 'q) option"
  assumes put_law: "ok q \<Longrightarrow> length (abs q) < cap \<Longrightarrow>
      \<exists>q'. put_op e q = Some q' \<and> ok q' \<and> abs q' = abs q @ [e]"
    and put_full: "ok q \<Longrightarrow> length (abs q) = cap \<Longrightarrow> put_op e q = None"
    and get_law: "ok q \<Longrightarrow> abs q = e # es \<Longrightarrow> \<exists>q'. get_op q = Some (e, q') \<and> ok q' \<and> abs q' = es"
    and get_empty: "ok q \<Longrightarrow> abs q = [] \<Longrightarrow> get_op q = None"
    and bound: "ok q \<Longrightarrow> length (abs q) \<le> cap"
begin

lemma offer: "ok q \<Longrightarrow>
    (case put_op e q of None \<Rightarrow> length (abs q) = cap
     | Some q' \<Rightarrow> ok q' \<and> length (abs q) < cap \<and> abs q' = abs q @ [e])"
  using put_law [of q e] put_full [of q e] bound [of q] by (cases "length (abs q) < cap") force+

lemma poll: "ok q \<Longrightarrow>
    (case get_op q of None \<Rightarrow> abs q = [] | Some (e, q') \<Rightarrow> ok q' \<and> abs q = e # abs q')"
  using get_law [of q] get_empty [of q] by (cases "abs q") force+

end

text \<open>A run of a buffer: elements offered, and polls, with what the polls returned.\<close>

datatype 'e event = Offer 'e | Poll

fun buffer_run ::
  "('e \<Rightarrow> 'q \<Rightarrow> 'q option) \<Rightarrow> ('q \<Rightarrow> ('e \<times> 'q) option) \<Rightarrow> 'e event list \<Rightarrow> 'q \<Rightarrow> 'e list \<times> 'q" where
  "buffer_run put get [] q = ([], q)"
| "buffer_run put get (Offer e # es) q =
     (case put e q of None \<Rightarrow> buffer_run put get es q | Some q' \<Rightarrow> buffer_run put get es q')"
| "buffer_run put get (Poll # es) q =
     (case get q of None \<Rightarrow> buffer_run put get es q
      | Some (e, q') \<Rightarrow> (let (out, q'') = buffer_run put get es q' in (e # out, q'')))"

definition spec_put :: "nat \<Rightarrow> 'e \<Rightarrow> 'e list \<Rightarrow> 'e list option" where
  "spec_put cap e q = (if length q < cap then Some (q @ [e]) else None)"

definition spec_get :: "'e list \<Rightarrow> ('e \<times> 'e list) option" where
  "spec_get q = (case q of [] \<Rightarrow> None | e # q \<Rightarrow> Some (e, q))"

lemma spec_simps [simp]:
  "spec_get [] = None" "spec_get (e # q) = Some (e, q)"
  "length q < cap \<Longrightarrow> spec_put cap e q = Some (q @ [e])" "cap \<le> length q \<Longrightarrow> spec_put cap e q = None"
  by (simp_all add: spec_get_def spec_put_def)

context bounded_buffer begin

lemma run_refines:
  "ok q \<Longrightarrow> buffer_run put_op get_op es q = (out, q') \<Longrightarrow>
   ok q' \<and> buffer_run (spec_put cap) spec_get es (abs q) = (out, abs q')"
proof (induction es arbitrary: q out)
  case (Cons ev es)
  show ?case
  proof (cases ev)
    case (Offer e)
    show ?thesis
    proof (cases "put_op e q")
      case None
      then have "length (abs q) = cap" using offer [OF Cons.prems(1), of e] by simp
      then show ?thesis using Cons Offer None by simp
    next
      case (Some q1)
      then have "ok q1" "length (abs q) < cap" "abs q1 = abs q @ [e]" using offer [OF Cons.prems(1), of e] by auto
      then show ?thesis using Cons.IH [of q1 out] Cons.prems Offer Some by simp
    qed
  next
    case Poll
    show ?thesis
    proof (cases "get_op q")
      case None
      then have "abs q = []" using poll [OF Cons.prems(1)] by simp
      then show ?thesis using Cons.IH [of q out] Cons.prems Poll None by simp
    next
      case (Some p)
      then obtain e q1 where q1: "get_op q = Some (e, q1)" "ok q1" "abs q = e # abs q1"
        using poll [OF Cons.prems(1)] by (cases p) auto
      then obtain out1 where "buffer_run put_op get_op es q1 = (out1, q')" "out = e # out1"
        using Cons.prems Poll by (auto split: prod.splits)
      then show ?thesis using Cons.IH [of q1 out1] q1 Poll by simp
    qed
  qed
qed simp

end

subsection \<open>The ring buffer meets it\<close>

definition ioq_count :: "ioqueue \<Rightarrow> nat" where
  "ioq_count ioq = (if tail ioq \<le> head ioq then head ioq - tail ioq else head ioq + bufsize - tail ioq)"

definition ioq_contents :: "ioqueue \<Rightarrow> u8 list" where
  "ioq_contents ioq = map (\<lambda>i. buf ioq ! ((tail ioq + i) mod bufsize)) [0..<ioq_count ioq]"

text \<open>Nobody waits to write, and a reader that waits can be woken up.\<close>

definition ring_ok :: "ioqueue \<times> 'z kstate_scheme \<Rightarrow> bool" where
  "ring_ok q \<longleftrightarrow> (case q of (ioq, s) \<Rightarrow>
     length (buf ioq) = bufsize \<and> head ioq < bufsize \<and> tail ioq < bufsize \<and> producer ioq = 0 \<and>
     intr_get_status s = INTR_OFF \<and>
     (consumer ioq \<noteq> 0 \<longrightarrow> st s (consumer ioq) = Some TASK_BLOCKED \<and>
        consumer ioq \<notin> set (thread_ready_list s)))"

text \<open>What the keyboard handler does (write unless full), and a reader that does not want to wait.\<close>

definition try_putchar :: "u8 \<Rightarrow> ioqueue \<times> 'z kstate_scheme \<Rightarrow> (ioqueue \<times> 'z kstate_scheme) option" where
  "try_putchar c q = (case q of (ioq, s) \<Rightarrow>
     (case ioq_full ioq s of Some False \<Rightarrow>
        (case ioq_putchar ioq c s of Some (Returned r, ioq, s) \<Rightarrow> Some (ioq, s) | _ \<Rightarrow> None)
      | _ \<Rightarrow> None))"

definition try_getchar :: "ioqueue \<times> 'z kstate_scheme \<Rightarrow> (u8 \<times> ioqueue \<times> 'z kstate_scheme) option" where
  "try_getchar q = (case q of (ioq, s) \<Rightarrow>
     (case ioq_empty ioq s of Some False \<Rightarrow>
        (case ioq_getchar ioq s of Some (Returned c, ioq, s) \<Rightarrow> Some (c, ioq, s) | _ \<Rightarrow> None)
      | _ \<Rightarrow> None))"

lemma full_iff:
  assumes "head ioq < bufsize" and "tail ioq < bufsize"
  shows "next_pos (head ioq) = tail ioq \<longleftrightarrow> ioq_count ioq = bufsize - 1"
  using assms by (auto simp: next_pos_def ioq_count_def bufsize_def mod_Suc)

lemma count_less: "head ioq < bufsize \<Longrightarrow> tail ioq < bufsize \<Longrightarrow> ioq_count ioq \<le> bufsize - 1"
  by (auto simp: ioq_count_def bufsize_def)

lemma put_count:
  assumes "head ioq < bufsize" and "tail ioq < bufsize" and "next_pos (head ioq) \<noteq> tail ioq"
  shows "ioq_count (ioq\<lparr>buf := b, head := next_pos (head ioq)\<rparr>) = ioq_count ioq + 1"
  using assms by (auto simp: next_pos_def ioq_count_def bufsize_def mod_Suc)

lemma pos_of_head:
  assumes "head ioq < bufsize" and "tail ioq < bufsize"
  shows "(tail ioq + ioq_count ioq) mod bufsize = head ioq"
  using assms by (auto simp: ioq_count_def bufsize_def)

lemma pos_distinct:
  assumes "head ioq < bufsize" and "tail ioq < bufsize" and "i < ioq_count ioq"
  shows "(tail ioq + i) mod bufsize \<noteq> head ioq"
proof -
  have "tail ioq + i < 2 * 64" using assms by (auto simp: ioq_count_def bufsize_def split: if_splits)
  then show ?thesis
    using assms by (cases "tail ioq + i < 64") (auto simp: ioq_count_def bufsize_def mod_if split: if_splits)
qed

lemma put_contents:
  assumes "length (buf ioq) = bufsize" and "head ioq < bufsize" and "tail ioq < bufsize"
    and "next_pos (head ioq) \<noteq> tail ioq"
  shows "ioq_contents (ioq\<lparr>buf := (buf ioq)[head ioq := c], head := next_pos (head ioq)\<rparr>) = ioq_contents ioq @ [c]"
  unfolding ioq_contents_def put_count [OF assms(2-4)]
  using pos_of_head [OF assms(2,3)] assms(1,2) pos_distinct [OF assms(2,3), symmetric] by simp

lemma get_contents:
  assumes "head ioq < bufsize" and "tail ioq < bufsize" and "head ioq \<noteq> tail ioq"
  shows "ioq_contents ioq = buf ioq ! tail ioq # ioq_contents (ioq\<lparr>tail := next_pos (tail ioq)\<rparr>)"
proof -
  have c: "ioq_count ioq = Suc (ioq_count (ioq\<lparr>tail := next_pos (tail ioq)\<rparr>))"
    using assms by (auto simp: next_pos_def ioq_count_def bufsize_def mod_Suc)
  have "(tail ioq + Suc i) mod bufsize = (next_pos (tail ioq) + i) mod bufsize" for i
    by (simp add: next_pos_def mod_simps)
  then show ?thesis
    unfolding ioq_contents_def c using assms(2)
    by (simp add: upt_conv_Cons map_Suc_upt [symmetric] del: upt_Suc)
qed

lemma contents_simps [simp]:
  "ioq_contents (ioq\<lparr>consumer := c\<rparr>) = ioq_contents ioq" "ioq_contents (ioq\<lparr>producer := c\<rparr>) = ioq_contents ioq"
  "length (ioq_contents ioq) = ioq_count ioq"
  by (simp_all add: ioq_contents_def ioq_count_def)

lemma contents_Nil: "tail ioq < bufsize \<Longrightarrow> ioq_contents ioq = [] \<longleftrightarrow> head ioq = tail ioq"
  by (auto simp: ioq_contents_def ioq_count_def)

lemma ioq_putchar_ok:
  assumes ok: "ring_ok (ioq, s)" and nf: "next_pos (head ioq) \<noteq> tail ioq"
  shows "\<exists>ioq' s'. ioq_putchar ioq c s = Some (Returned (), ioq', s') \<and> ring_ok (ioq', s') \<and>
    ioq_contents ioq' = ioq_contents ioq @ [c] \<and> consumer ioq' = 0"
proof -
  let ?q = "ioq\<lparr>buf := (buf ioq)[head ioq := c], head := next_pos (head ioq)\<rparr>"
  have r: "length (buf ioq) = bufsize" "head ioq < bufsize" "tail ioq < bufsize" "producer ioq = 0"
      "intr_get_status s = INTR_OFF"
    using ok by (auto simp: ring_ok_def)
  have n: "next_pos (head ioq) < bufsize" by (simp add: next_pos_def bufsize_def)
  have put: "ioq_contents ?q = ioq_contents ioq @ [c]" by (rule put_contents [OF r(1,2,3) nf])
  show ?thesis
  proof (cases "consumer ioq = 0")
    case True
    then show ?thesis using r n nf put by (simp add: ioq_putchar_def ioq_full_def ring_ok_def)
  next
    case False
    then have w: "st s (consumer ioq) = Some TASK_BLOCKED" "consumer ioq \<notin> set (thread_ready_list s)"
      using ok by (auto simp: ring_ok_def)
    obtain p where p: "thread_unblock (consumer ioq) s = Some (s\<lparr>thread_ready_list := consumer ioq # thread_ready_list s,
           tasks := (tasks s)(consumer ioq \<mapsto> p\<lparr>status := TASK_READY\<rparr>)\<rparr>)"
      using thread_unblock_ok [of s "consumer ioq"] w by auto
    then show ?thesis
      using r n nf put False by (simp add: ioq_putchar_def ioq_full_def wakeup_def ring_ok_def)
  qed
qed

lemma ioq_getchar_ok:
  assumes ok: "ring_ok (ioq, s)" and ne: "head ioq \<noteq> tail ioq"
  shows "\<exists>ioq'. ioq_getchar ioq s = Some (Returned (buf ioq ! tail ioq), ioq', s) \<and> ring_ok (ioq', s) \<and>
    ioq_contents ioq = buf ioq ! tail ioq # ioq_contents ioq'"
  using ok get_contents [of ioq] ne
  by (auto simp: ring_ok_def ioq_getchar_def ioq_empty_def) (simp_all add: next_pos_def bufsize_def)

interpretation ring: bounded_buffer ring_ok "\<lambda>(ioq, s). ioq_contents ioq" "bufsize - 1" try_putchar try_getchar
proof (unfold_locales, goal_cases)
  case (1 q e)
  obtain ioq s where q: "q = (ioq, s)" by fastforce
  have r: "head ioq < bufsize" "tail ioq < bufsize" "intr_get_status s = INTR_OFF" using 1 q by (auto simp: ring_ok_def)
  then have nf: "next_pos (head ioq) \<noteq> tail ioq" using 1 q full_iff [of ioq] by simp
  then show ?case using ioq_putchar_ok [of ioq s e] 1 q r by (auto simp: try_putchar_def ioq_full_def)
next
  case (2 q e)
  obtain ioq s where q: "q = (ioq, s)" by fastforce
  have r: "head ioq < bufsize" "tail ioq < bufsize" "intr_get_status s = INTR_OFF" using 2 q by (auto simp: ring_ok_def)
  then show ?case using 2 q full_iff [of ioq] by (simp add: try_putchar_def ioq_full_def)
next
  case (3 q e es)
  obtain ioq s where q: "q = (ioq, s)" by fastforce
  have r: "tail ioq < bufsize" "intr_get_status s = INTR_OFF" using 3 q by (auto simp: ring_ok_def)
  then have ne: "head ioq \<noteq> tail ioq" using 3 q contents_Nil [of ioq] by auto
  then show ?case using ioq_getchar_ok [of ioq s] 3 q r by (auto simp: try_getchar_def ioq_empty_def)
next
  case (4 q)
  obtain ioq s where q: "q = (ioq, s)" by fastforce
  have r: "tail ioq < bufsize" "intr_get_status s = INTR_OFF" using 4 q by (auto simp: ring_ok_def)
  then show ?case using 4 q contents_Nil [of ioq] by (simp add: try_getchar_def ioq_empty_def)
next
  case (5 q)
  then show ?case using count_less by (auto simp: ring_ok_def)
qed

subsection \<open>Properties\<close>

text \<open>
  C10: the ring buffer is a first-in first-out queue of 63 characters. Whatever sequence of characters is
  offered (as the keyboard does, dropping those that find the buffer full) and polled, the polls
  return what a plain queue of that capacity returns, the positions wrapping as often as they may.
\<close>

theorem ring_buffer_is_bounded_fifo:
  assumes "ring_ok (ioq, s)" and "buffer_run try_putchar try_getchar es (ioq, s) = (out, (ioq', s'))"
  shows "buffer_run (spec_put 63) spec_get es (ioq_contents ioq) = (out, ioq_contents ioq')"
  using ring.run_refines [OF assms] by (simp add: bufsize_def)

definition demo_ioq :: ioqueue where
  "demo_ioq = \<lparr>ioq_lock = 0xc0200000, producer = 0, consumer = 0, buf = replicate 64 0, head = 63, tail = 63\<rparr>"

theorem ring_buffer_is_bounded_fifo_witness:
  "\<exists>q'. buffer_run try_putchar try_getchar [Offer 0x61, Offer 0x62, Poll] (demo_ioq, demo_kernel) = ([0x61], q') \<and>
    ioq_contents (fst q') = [0x62]"
proof -
  have ok: "ring_ok (demo_ioq, demo_kernel)"
    using demo_kernel_ok by (simp add: ring_ok_def demo_ioq_def bufsize_def)
  have e: "ioq_contents demo_ioq = []" by (simp add: ioq_contents_def ioq_count_def demo_ioq_def)
  obtain out ioq' s' where r: "buffer_run try_putchar try_getchar [Offer 0x61, Offer 0x62, Poll] (demo_ioq, demo_kernel)
      = (out, (ioq', s'))" by (metis prod.exhaust)
  from ring_buffer_is_bounded_fifo [OF ok r] show ?thesis unfolding r e by simp
qed

end
