(* ===== verification/Device_Keyboard.thy ===== *)
theory Device_Keyboard
  imports Device_Ioqueue
begin

text \<open>
  \<open>device/keyboard.c\<close>: the interrupt handler that turns scan codes into characters. Its state is
  the five flags about the keys that are held down, and the keyboard's ring buffer.
\<close>

unbundle bit_operations_syntax

record kbd =
  ctrl_status :: bool
  shift_status :: bool
  alt_status :: bool
  caps_lock_status :: bool
  ext_scancode :: bool

definition shift_l_make :: u16 where "shift_l_make = 0x2a"
definition shift_r_make :: u16 where "shift_r_make = 0x36"
definition alt_l_make :: u16 where "alt_l_make = 0x38"
definition alt_r_make :: u16 where "alt_r_make = 0xe038"
definition ctrl_l_make :: u16 where "ctrl_l_make = 0x1d"
definition ctrl_r_make :: u16 where "ctrl_r_make = 0xe01d"
definition caps_lock_make :: u16 where "caps_lock_make = 0x3a"

lemmas make_defs = shift_l_make_def shift_r_make_def alt_l_make_def alt_r_make_def ctrl_l_make_def
  ctrl_r_make_def caps_lock_make_def

definition keymap :: "(u8 \<times> u8) list" where
  "keymap = [
      (0x00, 0x00), (0x1b, 0x1b), (0x31, 0x21), (0x32, 0x40), (0x33, 0x23), (0x34, 0x24),
      (0x35, 0x25), (0x36, 0x5e), (0x37, 0x26), (0x38, 0x2a), (0x39, 0x28), (0x30, 0x29),
      (0x2d, 0x5f), (0x3d, 0x2b), (0x08, 0x08), (0x09, 0x09), (0x71, 0x51), (0x77, 0x57),
      (0x65, 0x45), (0x72, 0x52), (0x74, 0x54), (0x79, 0x59), (0x75, 0x55), (0x69, 0x49),
      (0x6f, 0x4f), (0x70, 0x50), (0x5b, 0x7b), (0x5d, 0x7d), (0x0d, 0x0d), (0x00, 0x00),
      (0x61, 0x41), (0x73, 0x53), (0x64, 0x44), (0x66, 0x46), (0x67, 0x47), (0x68, 0x48),
      (0x6a, 0x4a), (0x6b, 0x4b), (0x6c, 0x4c), (0x3b, 0x3a), (0x27, 0x22), (0x60, 0x7e),
      (0x00, 0x00), (0x5c, 0x7c), (0x7a, 0x5a), (0x78, 0x58), (0x63, 0x43), (0x76, 0x56),
      (0x62, 0x42), (0x6e, 0x4e), (0x6d, 0x4d), (0x2c, 0x3c), (0x2e, 0x3e), (0x2f, 0x3f),
      (0x00, 0x00), (0x2a, 0x2a), (0x00, 0x00), (0x20, 0x20), (0x00, 0x00)]"

subsection \<open>The handler\<close>

text \<open>The branch for a break code, and the branches for a make code.\<close>

definition key_up :: "u16 \<Rightarrow> kbd \<Rightarrow> kbd" where
  "key_up make_code k =
     (if make_code = ctrl_l_make \<or> make_code = ctrl_r_make then k\<lparr>ctrl_status := False\<rparr>
      else if make_code = shift_l_make \<or> make_code = shift_r_make then k\<lparr>shift_status := False\<rparr>
      else if make_code = alt_l_make \<or> make_code = alt_r_make then k\<lparr>alt_status := False\<rparr>
      else k)"

definition two_symbol_key :: "u16 \<Rightarrow> bool" where
  "two_symbol_key scancode \<longleftrightarrow> scancode < 0x0e \<or> scancode = 0x29 \<or> scancode = 0x1a \<or> scancode = 0x1b \<or>
     scancode = 0x2b \<or> scancode = 0x27 \<or> scancode = 0x28 \<or> scancode = 0x33 \<or> scancode = 0x34 \<or> scancode = 0x35"

definition shifted :: "u16 \<Rightarrow> kbd \<Rightarrow> bool" where
  "shifted scancode k =
     (if two_symbol_key scancode then shift_status k
      else if shift_status k \<and> caps_lock_status k then False
      else shift_status k \<or> caps_lock_status k)"

definition modifier_down :: "u16 \<Rightarrow> kbd \<Rightarrow> kbd" where
  "modifier_down scancode k =
     (if scancode = ctrl_l_make \<or> scancode = ctrl_r_make then k\<lparr>ctrl_status := True\<rparr>
      else if scancode = shift_l_make \<or> scancode = shift_r_make then k\<lparr>shift_status := True\<rparr>
      else if scancode = alt_l_make \<or> scancode = alt_r_make then k\<lparr>alt_status := True\<rparr>
      else if scancode = caps_lock_make then k\<lparr>caps_lock_status := \<not> caps_lock_status k\<rparr>
      else k)"

text \<open>
  \<open>inb\<close> is the byte read from the controller. The handler runs with interrupts off; when it
  puts a character into the buffer it has checked that there is room, so it is never suspended.
\<close>

definition intr_keyboard_handler ::
  "u8 \<Rightarrow> kbd \<Rightarrow> ioqueue \<Rightarrow> 'z kstate_scheme \<Rightarrow> (kbd \<times> ioqueue \<times> 'z kstate_scheme) option" where
  "intr_keyboard_handler inb k kbd_buf s =
     (let ctrl_down_last = ctrl_status k; scancode = ucast inb :: u16 in
      if scancode = 0xe0 then Some (k\<lparr>ext_scancode := True\<rparr>, kbd_buf, s)
      else let (scancode, k) =
          (if ext_scancode k then (0xe000 OR scancode, k\<lparr>ext_scancode := False\<rparr>) else (scancode, k)) in
        if scancode AND 0x0080 \<noteq> 0 then Some (key_up (scancode AND 0xff7f) k, kbd_buf, s)
        else if (scancode > 0 \<and> scancode < 0x3b) \<or> scancode = alt_r_make \<or> scancode = ctrl_r_make then do {
          let shift = shifted scancode k;
          let scancode = scancode AND 0x00ff;
          (plain, upper) \<leftarrow> rd keymap (unat scancode);
          let cur_char = (if shift then upper else plain);
          if cur_char \<noteq> 0 then do {
            let cur_char = (if ctrl_down_last \<and> cur_char = 0x6c \<or> ctrl_down_last \<and> cur_char = 0x75
              then cur_char - 0x61 else cur_char);
            full \<leftarrow> ioq_full kbd_buf s;
            if \<not> full then do {
              (r, kbd_buf, s) \<leftarrow> ioq_putchar kbd_buf cur_char s;
              Some (k, kbd_buf, s) }
            else Some (k, kbd_buf, s) }
          else Some (modifier_down scancode k, kbd_buf, s) }
        else Some (k, kbd_buf, s))"

text \<open>\<open>keyboard_init\<close> on the keyboard's part of the state; the handler is registered at vector 0x21.\<close>

definition keyboard_init ::
  "u32 \<Rightarrow> ioqueue \<Rightarrow> 'y intr_state_scheme \<Rightarrow> u32 \<Rightarrow> 'z kstate_scheme \<Rightarrow>
   (ioqueue \<times> 'y intr_state_scheme \<times> 'z kstate_scheme) option" where
  "keyboard_init plock kbd_buf i handler s = do {
     let (kbd_buf, s) = ioqueue_init plock kbd_buf s;
     i \<leftarrow> register_handler 0x21 handler i;
     Some (kbd_buf, i, s) }"

subsection \<open>What a key means\<close>

text \<open>
  The character of a key, said without the handler's list of keys: a letter is upper case when shift and
  caps lock differ, any other key has its second symbol when shift is down; control with l or u
  gives a code below the letters.
\<close>

definition is_letter :: "u8 \<Rightarrow> bool" where
  "is_letter c \<longleftrightarrow> 0x61 \<le> c \<and> c \<le> 0x7a"

definition key_symbol :: "nat \<Rightarrow> bool \<Rightarrow> bool \<Rightarrow> u8" where
  "key_symbol n shift caps =
     (let (plain, upper) = keymap ! n in
      if is_letter plain then (if shift \<noteq> caps then plain - 0x20 else plain)
      else if shift then upper else plain)"

definition key_char :: "nat \<Rightarrow> bool \<Rightarrow> bool \<Rightarrow> bool \<Rightarrow> u8" where
  "key_char n shift caps ctrl =
     (let c = key_symbol n shift caps in if ctrl \<and> (c = 0x6c \<or> c = 0x75) then c - 0x61 else c)"

definition shift_choice :: "u16 \<Rightarrow> bool \<Rightarrow> bool \<Rightarrow> bool" where
  "shift_choice scancode shift caps =
     (if two_symbol_key scancode then shift else if shift \<and> caps then False else shift \<or> caps)"

lemma keymap_classified:
  "\<forall>n \<in> set [0..<59]. \<forall>shift \<in> {False, True}. \<forall>caps \<in> {False, True}.
     (if shift_choice (word_of_nat n) shift caps then snd (keymap ! n) else fst (keymap ! n)) =
       key_symbol n shift caps"
  by code_simp

lemma keymap_zero:
  "\<forall>n \<in> set [0..<59]. (fst (keymap ! n) = 0) = (snd (keymap ! n) = 0)"
  by code_simp

lemma length_keymap: "length keymap = 59"
  by (simp add: keymap_def)

lemma shifted_choice: "shifted c k = shift_choice c (shift_status k) (caps_lock_status k)"
  by (simp add: shifted_def shift_choice_def)

lemma symbol_eq:
  assumes "n < 59"
  shows "(if shifted (word_of_nat n) k then snd (keymap ! n) else fst (keymap ! n)) =
    key_symbol n (shift_status k) (caps_lock_status k)"
  unfolding shifted_choice
  using keymap_classified [rule_format, of n "shift_status k" "caps_lock_status k"] assms by simp

lemma small_code:
  assumes "n < 0x3b" and "0 < n"
  shows "(ucast (word_of_nat n :: u8) :: u16) = word_of_nat n" "(word_of_nat n :: u16) \<noteq> 0xe0"
    "(word_of_nat n :: u16) AND 0x80 = 0" "(word_of_nat n :: u16) AND 0xff = word_of_nat n"
    "unat (word_of_nat n :: u16) = n" "0 < (word_of_nat n :: u16)" "(word_of_nat n :: u16) < 0x3b"
proof -
  have u: "unat (word_of_nat n :: u8) = n" "unat (word_of_nat n :: u16) = n"
    using assms by (simp_all add: unat_of_nat)
  have "unat (ucast (word_of_nat n :: u8) :: u16) = unat (word_of_nat n :: u16)"
    using u assms by (simp add: unsigned_ucast_eq take_bit_nat_eq_self)
  then show "(ucast (word_of_nat n :: u8) :: u16) = word_of_nat n" by (rule unsigned_word_eqI)
  have all: "\<forall>n \<in> set [1..<0x3b]. (word_of_nat n :: u16) \<noteq> 0xe0 \<and> (word_of_nat n :: u16) AND 0x80 = 0 \<and>
     (word_of_nat n :: u16) AND 0xff = word_of_nat n \<and> 0 < (word_of_nat n :: u16) \<and> (word_of_nat n :: u16) < 0x3b"
    by code_simp
  then show "(word_of_nat n :: u16) \<noteq> 0xe0" "(word_of_nat n :: u16) AND 0x80 = 0"
    "(word_of_nat n :: u16) AND 0xff = word_of_nat n" "0 < (word_of_nat n :: u16)" "(word_of_nat n :: u16) < 0x3b"
    using assms by auto
  show "unat (word_of_nat n :: u16) = n" by (rule u)
qed

subsection \<open>Properties\<close>

text \<open>
  Pressing a key that has a symbol puts exactly that symbol at the end of the keyboard buffer when
  there is room, and leaves the buffer alone when it is full; the modifier flags do not change. The
  symbol is the right one for every key of the map, whatever combination of shift, caps lock and
  control is in force.
\<close>

theorem key_press_types_symbol:
  assumes "0 < n" and "n < 0x3b" and "fst (keymap ! n) \<noteq> 0" and "\<not> ext_scancode k" and "ring_ok (q, s)"
  shows "\<exists>q' s'. intr_keyboard_handler (word_of_nat n) k q s = Some (k, q', s') \<and> ring_ok (q', s') \<and>
    ioq_contents q' = (if length (ioq_contents q) = 63 then ioq_contents q
      else ioq_contents q @ [key_char n (shift_status k) (caps_lock_status k) (ctrl_status k)])"
proof -
  note c = small_code [OF assms(2,1)]
  let ?w = "word_of_nat n :: u16"
  let ?sym = "key_symbol n (shift_status k) (caps_lock_status k)"
  let ?ch = "key_char n (shift_status k) (caps_lock_status k) (ctrl_status k)"
  have r: "head q < bufsize" "tail q < bufsize" "intr_get_status s = INTR_OFF" using assms(5) by (auto simp: ring_ok_def)
  have n59: "n < 59" using assms(2) by simp
  have cur: "(if shifted ?w k then snd (keymap ! n) else fst (keymap ! n)) = ?sym" by (rule symbol_eq [OF n59])
  have nz: "?sym \<noteq> 0"
    using keymap_zero [rule_format, of n] assms(3) n59 unfolding cur [symmetric] by simp
  have rd: "rd keymap (unat (?w AND 0xff)) = Some (keymap ! n)"
    using c(4,5) n59 by (simp add: length_keymap)
  have h: "intr_keyboard_handler (word_of_nat n) k q s =
    (if next_pos (head q) = tail q then Some (k, q, s)
     else Option.bind (ioq_putchar q ?ch s) (\<lambda>(r, q, s). Some (k, q, s)))"
    unfolding intr_keyboard_handler_def Let_def c(1)
    using c(2,3,6,7) assms(4) rd cur nz r(3)
    by (simp add: ioq_full_def split_beta key_char_def Let_def)
  have full: "next_pos (head q) = tail q \<longleftrightarrow> length (ioq_contents q) = 63"
    using full_iff [OF r(1,2)] by (simp add: bufsize_def)
  show ?thesis
  proof (cases "next_pos (head q) = tail q")
    case True
    then show ?thesis using h full assms(5) by simp
  next
    case False
    then show ?thesis using ioq_putchar_ok [OF assms(5) False, of ?ch] h full by auto
  qed
qed

theorem key_press_types_symbol_witness:
  "\<exists>q' s'. intr_keyboard_handler (word_of_nat 0x1e) \<lparr>ctrl_status = False, shift_status = True, alt_status = False,
      caps_lock_status = False, ext_scancode = False\<rparr> demo_ioq demo_kernel =
      Some (\<lparr>ctrl_status = False, shift_status = True, alt_status = False, caps_lock_status = False,
        ext_scancode = False\<rparr>, q', s') \<and> ioq_contents q' = [0x41]"
proof -
  let ?k = "\<lparr>ctrl_status = False, shift_status = True, alt_status = False, caps_lock_status = False, ext_scancode = False\<rparr>"
  have ok: "ring_ok (demo_ioq, demo_kernel)"
    using demo_kernel_ok by (simp add: ring_ok_def demo_ioq_def bufsize_def)
  have k: "fst (keymap ! 0x1e) \<noteq> 0" "key_char 0x1e True False False = 0x41" by code_simp+
  have e: "ioq_contents demo_ioq = []" by (simp add: ioq_contents_def ioq_count_def demo_ioq_def)
  show ?thesis using key_press_types_symbol [OF _ _ k(1) _ ok, of ?k] k(2) e by auto
qed

text \<open>The handler's effect on the flags does not depend on the buffer.\<close>

definition kbd_flags :: "u8 \<Rightarrow> kbd \<Rightarrow> kbd" where
  "kbd_flags inb k =
     (let scancode = ucast inb :: u16 in
      if scancode = 0xe0 then k\<lparr>ext_scancode := True\<rparr>
      else let c = (if ext_scancode k then 0xe000 OR scancode else scancode); k = k\<lparr>ext_scancode := False\<rparr> in
        if c AND 0x0080 \<noteq> 0 then key_up (c AND 0xff7f) k
        else if (c > 0 \<and> c < 0x3b) \<or> c = alt_r_make \<or> c = ctrl_r_make then
          (if fst (keymap ! unat (c AND 0xff)) \<noteq> 0 then k else modifier_down (c AND 0xff) k)
        else k)"

lemma code_in_map:
  assumes "(c > 0 \<and> c < 0x3b) \<or> c = alt_r_make \<or> c = ctrl_r_make"
  shows "unat (c AND 0x00ff) < 59"
proof -
  have "unat c < 59 \<Longrightarrow> unat (c AND 0xff) < 59"
    using word_and_le2 [of c "0xff"] by (metis le_less_trans word_le_nat_alt)
  moreover have "c < 0x3b \<Longrightarrow> unat c < 59" by (simp add: word_less_nat_alt)
  ultimately show ?thesis using assms by (auto simp: make_defs)
qed

lemma handler_flags:
  assumes "ring_ok (q, s)"
  shows "\<exists>q' s'. intr_keyboard_handler c k q s = Some (kbd_flags c k, q', s') \<and> ring_ok (q', s')"
proof -
  have r: "head q < bufsize" "tail q < bufsize" "intr_get_status s = INTR_OFF" using assms by (auto simp: ring_ok_def)
  define w where "w = (if ext_scancode k then 0xe000 OR ucast c else ucast c :: u16)"
  define k' where "k' = k\<lparr>ext_scancode := False\<rparr>"
  have kk: "(if ext_scancode k then (0xe000 OR ucast c, k\<lparr>ext_scancode := False\<rparr>) else (ucast c, k)) = (w, k')"
    by (simp add: w_def k'_def)
  have put: "\<exists>q' s'. (if next_pos (head q) = tail q then Some (k', q, s)
     else Option.bind (ioq_putchar q ch s) (\<lambda>(r, q, s). Some (k', q, s))) = Some (k', q', s') \<and> ring_ok (q', s')" for ch
    using assms ioq_putchar_ok [OF assms, of ch] by (cases "next_pos (head q) = tail q") auto
  show ?thesis
  proof (cases "(ucast c :: u16) = 0xe0 \<or> w AND 0x80 \<noteq> 0 \<or>
      \<not> ((w > 0 \<and> w < 0x3b) \<or> w = alt_r_make \<or> w = ctrl_r_make)")
    case True
    then consider "(ucast c :: u16) = 0xe0" | "(ucast c :: u16) \<noteq> 0xe0" "w AND 0x80 \<noteq> 0"
      | "(ucast c :: u16) \<noteq> 0xe0" "w AND 0x80 = 0" "\<not> ((w > 0 \<and> w < 0x3b) \<or> w = alt_r_make \<or> w = ctrl_r_make)"
      by blast
    then have "intr_keyboard_handler c k q s = Some (kbd_flags c k, q, s)"
      unfolding intr_keyboard_handler_def kbd_flags_def Let_def kk
      unfolding w_def [symmetric] k'_def [symmetric]
      by cases (simp_all only: if_True if_False prod.case simp_thms not_True_eq_False)
    then show ?thesis using assms by blast
  next
    case False
    then have n: "unat (w AND 0xff) < 59" by (intro code_in_map) blast
    let ?e = "keymap ! unat (w AND 0xff)"
    have z: "(fst ?e = 0) = (snd ?e = 0)" using keymap_zero [rule_format, of "unat (w AND 0xff)"] n by simp
    have rd: "rd keymap (unat (w AND 0xff)) = Some ?e" using n by (simp add: length_keymap)
    have f: "(ucast c :: u16) \<noteq> 0xe0" "w AND 0x80 = 0"
        "(w > 0 \<and> w < 0x3b) \<or> w = alt_r_make \<or> w = ctrl_r_make" using False by blast+
    show ?thesis
    proof (cases "fst ?e = 0")
      case True
      then have "intr_keyboard_handler c k q s = Some (modifier_down (w AND 0xff) k', q, s)"
        unfolding intr_keyboard_handler_def Let_def kk using f z rd by (simp add: split_beta)
      moreover have "kbd_flags c k = modifier_down (w AND 0xff) k'"
        unfolding kbd_flags_def Let_def w_def [symmetric] k'_def [symmetric] using f True by simp
      ultimately show ?thesis using assms by auto
    next
      case nz: False
      define sym where "sym = (if shifted w k' then snd ?e else fst ?e)"
      have "sym \<noteq> 0" using nz z by (simp add: sym_def)
      then have "\<exists>ch. intr_keyboard_handler c k q s = (if next_pos (head q) = tail q then Some (k', q, s)
          else Option.bind (ioq_putchar q ch s) (\<lambda>(r, q, s). Some (k', q, s)))"
        unfolding intr_keyboard_handler_def Let_def kk using f rd r(3)
        by (simp add: split_beta ioq_full_def sym_def [symmetric] split: if_splits) blast
      moreover have "kbd_flags c k = k'"
        unfolding kbd_flags_def Let_def w_def [symmetric] k'_def [symmetric] using f nz by simp
      ultimately show ?thesis using put by auto
    qed
  qed
qed

lemma keymap_modifiers:
  "fst (keymap ! 42) = 0" "fst (keymap ! 54) = 0" "fst (keymap ! 29) = 0" "fst (keymap ! 56) = 0" "fst (keymap ! 58) = 0"
  by code_simp+

lemma kbd_flags_modifiers:
  "kbd_flags 0x2a k = (if ext_scancode k then k\<lparr>ext_scancode := False\<rparr> else k\<lparr>shift_status := True, ext_scancode := False\<rparr>)"
  "kbd_flags 0x36 k = (if ext_scancode k then k\<lparr>ext_scancode := False\<rparr> else k\<lparr>shift_status := True, ext_scancode := False\<rparr>)"
  "kbd_flags 0xaa k = (if ext_scancode k then k\<lparr>ext_scancode := False\<rparr> else k\<lparr>shift_status := False, ext_scancode := False\<rparr>)"
  "kbd_flags 0xb6 k = (if ext_scancode k then k\<lparr>ext_scancode := False\<rparr> else k\<lparr>shift_status := False, ext_scancode := False\<rparr>)"
  "kbd_flags 0x1d k = k\<lparr>ctrl_status := True, ext_scancode := False\<rparr>"
  "kbd_flags 0x9d k = k\<lparr>ctrl_status := False, ext_scancode := False\<rparr>"
  "kbd_flags 0x38 k = k\<lparr>alt_status := True, ext_scancode := False\<rparr>"
  "kbd_flags 0xb8 k = k\<lparr>alt_status := False, ext_scancode := False\<rparr>"
  "kbd_flags 0x3a k = (if ext_scancode k then k\<lparr>ext_scancode := False\<rparr>
     else k\<lparr>caps_lock_status := \<not> caps_lock_status k, ext_scancode := False\<rparr>)"
  "kbd_flags 0xe0 k = k\<lparr>ext_scancode := True\<rparr>"
  by (simp_all add: kbd_flags_def key_up_def modifier_down_def make_defs keymap_modifiers Let_def)



end
