(* ===== verification/Device_Timer.thy ===== *)
theory Device_Timer
  imports Kernel_Thread
begin

text \<open>
  \<open>device/timer.c\<close> but for the clock interrupt handler, which is in \<open>Kernel_Thread\<close>: programming
  the interval timer and sleeping. A task that sleeps yields the processor again and again until
  enough ticks have passed; one turn of that loop is one step here.
\<close>

unbundle bit_operations_syntax

definition IRQ0_FREQUENCY :: nat where "IRQ0_FREQUENCY = 100"
definition INPUT_FREQUENCY :: nat where "INPUT_FREQUENCY = 1193180"

definition COUNTER0_VALUE :: u16 where
  "COUNTER0_VALUE = word_of_nat (INPUT_FREQUENCY div IRQ0_FREQUENCY)"

definition mil_seconds_per_intr :: u32 where
  "mil_seconds_per_intr = word_of_nat (1000 div IRQ0_FREQUENCY)"

text \<open>The cast binds more tightly than the shift, so the last byte is the low byte shifted.\<close>

definition frequency_set ::
  "u16 \<Rightarrow> u8 \<Rightarrow> u8 \<Rightarrow> u8 \<Rightarrow> u16 \<Rightarrow> 'z intr_state_scheme \<Rightarrow> 'z intr_state_scheme" where
  "frequency_set counter_port counter_no rwl counter_mode counter_value s =
     (let s = outb 0x43 (push_bit 6 counter_no OR push_bit 4 rwl OR push_bit 1 counter_mode) s;
          s = outb counter_port (ucast counter_value) s
      in outb counter_port (drop_bit 8 (ucast counter_value :: u8)) s)"

definition timer_init :: "u32 \<Rightarrow> 'z intr_state_scheme \<Rightarrow> 'z intr_state_scheme option" where
  "timer_init handler s =
     register_handler 0x20 handler (frequency_set 0x40 0 3 2 COUNTER0_VALUE s)"

text \<open>One test of the loop of \<open>ticks_to_sleep\<close>: \<open>Inl\<close> has yielded and will test again, \<open>Inr\<close> is done.\<close>

definition sleep_turn ::
  "u32 \<Rightarrow> u32 \<Rightarrow> 'z kstate_scheme \<Rightarrow> ('z kstate_scheme + 'z kstate_scheme) option" where
  "sleep_turn start_tick sleep_ticks s =
     (if total_ticks s - start_tick < sleep_ticks then map_option Inl (thread_yield s) else Some (Inr s))"

definition mtime_sleep ::
  "u32 \<Rightarrow> 'z kstate_scheme \<Rightarrow> ('z kstate_scheme + 'z kstate_scheme) option" where
  "mtime_sleep m_seconds s = do {
     let sleep_ticks = DIV_ROUND_UP m_seconds mil_seconds_per_intr;
     ASSERT (sleep_ticks > 0);
     sleep_turn (total_ticks s) sleep_ticks s }"

subsection \<open>Properties\<close>

text \<open>The divisor the timer chip takes from the last two bytes sent to its data port, low byte first.\<close>

definition pit_divisor :: "(u16 \<times> u8) list \<Rightarrow> nat" where
  "pit_divisor ps = (case rev ps of (p, hi) # (q, lo) # r \<Rightarrow> 256 * unat hi + unat lo | _ \<Rightarrow> 0)"

text \<open>
  The clock does not run at the intended 100 Hz. \<open>frequency_set\<close> casts the counter to a byte before
  it shifts it, so the high byte it sends is always 0: the divisor that \<open>timer_init\<close> programs is 155
  instead of 11931, and the clock interrupts about 77 times too often.
\<close>

theorem timer_divisor_loses_high_byte:
  "(\<forall>port no rwl mode v (s :: intr_state). pit_divisor (ports (frequency_set port no rwl mode v s)) = unat v mod 256) \<and>
   unat COUNTER0_VALUE = 11931 \<and>
   pit_divisor (ports (frequency_set 0x40 0 3 2 COUNTER0_VALUE
     \<lparr>eflags = 2, idt = [], idt_table = [], intr_name = [], ports = [], idtr = 0\<rparr>)) = 155"
proof -
  have z: "drop_bit 8 (w :: u8) = 0" for w
    by (rule bit_eqI) (auto simp: bit_simps dest: bit_imp_le_length)
  have u: "unat (ucast v :: u8) = unat v mod 256" for v :: u16
    by (simp add: unsigned_ucast_eq take_bit_eq_mod)
  show ?thesis
    by (simp add: pit_divisor_def frequency_set_def outb_def z u COUNTER0_VALUE_def INPUT_FREQUENCY_def
        IRQ0_FREQUENCY_def)
qed



end
