(* ===== verification/Bitmap_Alloc.thy ===== *)
theory Bitmap_Alloc
  imports Kernel_Bitmap
begin

text \<open>
  What the kernel relies on when it hands out units of something: physical frames, disk sectors,
  inode numbers. The contract is a locale; bitmaps meet it, and the pools of \<open>memory.c\<close> and the
  bitmaps of a partition meet it through them.
\<close>

subsection \<open>The contract of an allocator\<close>

text \<open>\<open>take_n\<close> takes \<open>n\<close> units one after the other.\<close>

fun take_n :: "('s \<Rightarrow> ('r \<times> 's) option) \<Rightarrow> nat \<Rightarrow> 's \<Rightarrow> ('r list \<times> 's) option" where
  "take_n op 0 s = Some ([], s)"
| "take_n op (Suc n) s = Option.bind (op s)
     (\<lambda>(r, s). map_option (\<lambda>(rs, s). (r # rs, s)) (take_n op n s))"

locale allocator =
  fixes ok :: "'s \<Rightarrow> bool"
    and units :: "'s \<Rightarrow> 'r set"
    and avail :: "'s \<Rightarrow> 'r set"
    and take_op :: "'s \<Rightarrow> ('r \<times> 's) option"
    and give_op :: "'r \<Rightarrow> 's \<Rightarrow> 's option"
  assumes take_law: "ok s \<Longrightarrow> avail s \<noteq> {} \<Longrightarrow>
      \<exists>r s'. take_op s = Some (r, s') \<and> r \<in> avail s \<and> avail s' = avail s - {r} \<and> units s' = units s \<and> ok s'"
    and give_law: "ok s \<Longrightarrow> r \<in> units s \<Longrightarrow>
      \<exists>s'. give_op r s = Some s' \<and> avail s' = insert r (avail s) \<and> units s' = units s \<and> ok s'"
    and avail_units: "ok s \<Longrightarrow> avail s \<subseteq> units s"
    and finite_units: "finite (units s)"
begin

text \<open>Units handed out one after the other are all different, and were all available.\<close>

lemma take_n_distinct:
  "ok s \<Longrightarrow> n \<le> card (avail s) \<Longrightarrow>
   \<exists>rs s'. take_n take_op n s = Some (rs, s') \<and> length rs = n \<and> distinct rs \<and> set rs \<subseteq> avail s \<and>
     avail s' = avail s - set rs \<and> units s' = units s \<and> ok s'"
proof (induction n arbitrary: s)
  case (Suc n)
  have fin: "finite (avail s)" using Suc.prems(1) avail_units finite_units finite_subset by blast
  from Suc.prems have "avail s \<noteq> {}" by auto
  then obtain r s1 where s1: "take_op s = Some (r, s1)" "r \<in> avail s" "avail s1 = avail s - {r}"
      "units s1 = units s" "ok s1"
    using take_law Suc.prems(1) by blast
  have "n \<le> card (avail s1)" using Suc.prems(2) s1(2,3) fin by simp
  from Suc.IH [OF s1(5) this] obtain rs s2 where
    "take_n take_op n s1 = Some (rs, s2)" "length rs = n" "distinct rs" "set rs \<subseteq> avail s1"
    "avail s2 = avail s1 - set rs" "units s2 = units s1" "ok s2" by blast
  with s1 show ?case by (intro exI [of _ "r # rs"] exI [of _ s2]) auto
qed auto

lemma take_give:
  assumes "ok s" and "avail s \<noteq> {}"
  shows "\<exists>r s1 s2. take_op s = Some (r, s1) \<and> give_op r s1 = Some s2 \<and> avail s2 = avail s \<and> ok s2"
proof -
  obtain r s1 where s1: "take_op s = Some (r, s1)" "r \<in> avail s" "avail s1 = avail s - {r}"
      "units s1 = units s" "ok s1"
    using take_law assms by blast
  then have "r \<in> units s1" using avail_units assms(1) by blast
  from give_law [OF s1(5) this] obtain s2 where
    "give_op r s1 = Some s2" "avail s2 = insert r (avail s1)" "ok s2" by blast
  with s1 show ?thesis by (intro exI [of _ r] exI [of _ s1] exI [of _ s2]) auto
qed

end

subsection \<open>Bitmaps\<close>

definition bm_free :: "bitmap \<Rightarrow> nat set" where
  "bm_free b = {i. i < bm_size b \<and> \<not> bm_bit b i}"

definition bm_take :: "bitmap \<Rightarrow> (nat \<times> bitmap) option" where
  "bm_take b = do {
     k \<leftarrow> bitmap_scan b 1;
     b \<leftarrow> bitmap_set b (nat k) 1;
     Some (nat k, b) }"

definition bm_give :: "nat \<Rightarrow> bitmap \<Rightarrow> bitmap option" where
  "bm_give k b = bitmap_set b k 0"

lemma bitmap_set_bits:
  assumes "bm_wf b" and "k < bm_size b" and "v = 0 \<or> v = 1"
  shows "\<exists>b'. bitmap_set b k v = Some b' \<and> bm_wf b' \<and> bm_size b' = bm_size b \<and>
    length (bits b') = length (bits b) \<and>
    (\<forall>j < bm_size b. bm_bit b' j = (if j = k then v = 1 else bm_bit b j))"
proof -
  have r: "j div 8 < length (bits b)" if "j < bm_size b" for j
    using that assms(1) by (auto simp: bm_size_def bm_wf_def)
  from bitmap_set_one [OF r [OF assms(2)] assms(3)] obtain c where
    c: "bitmap_set b k v = Some (b\<lparr>bits := c\<rparr>)" "length c = length (bits b)"
      "\<forall>j. j div 8 < length (bits b) \<longrightarrow> bm_bit (b\<lparr>bits := c\<rparr>) j = (if j = k then v = 1 else bm_bit b j)"
    by blast
  show ?thesis
    using c r assms(1) by (intro exI [of _ "b\<lparr>bits := c\<rparr>"]) (auto simp: bm_size_def bm_wf_def)
qed

lemma bitmap_mark:
  assumes "bm_wf b" and "k < bm_size b"
  shows "\<exists>b'. bitmap_set b k 1 = Some b' \<and> bm_wf b' \<and> bm_size b' = bm_size b \<and> bm_free b' = bm_free b - {k} \<and>
    length (bits b') = length (bits b)"
proof -
  obtain b' where b': "bitmap_set b k 1 = Some b'" "bm_wf b'" "bm_size b' = bm_size b"
      "length (bits b') = length (bits b)"
      "\<forall>j < bm_size b. bm_bit b' j = (if j = k then (1 :: int) = 1 else bm_bit b j)"
    using bitmap_set_bits [OF assms, of 1] by blast
  then have "bm_free b' = bm_free b - {k}" by (auto simp: bm_free_def split: if_splits)
  with b' show ?thesis by blast
qed

lemma bitmap_unmark:
  assumes "bm_wf b" and "k < bm_size b"
  shows "\<exists>b'. bitmap_set b k 0 = Some b' \<and> bm_wf b' \<and> bm_size b' = bm_size b \<and> bm_free b' = insert k (bm_free b) \<and>
    length (bits b') = length (bits b)"
proof -
  obtain b' where b': "bitmap_set b k 0 = Some b'" "bm_wf b'" "bm_size b' = bm_size b"
      "length (bits b') = length (bits b)"
      "\<forall>j < bm_size b. bm_bit b' j = (if j = k then (0 :: int) = 1 else bm_bit b j)"
    using bitmap_set_bits [OF assms, of 0] by blast
  then have "bm_free b' = insert k (bm_free b)" using assms(2) by (auto simp: bm_free_def split: if_splits)
  with b' show ?thesis by blast
qed

lemma bitmap_scan_free:
  assumes "bm_wf b" and "bm_free b \<noteq> {}"
  shows "\<exists>k. bitmap_scan b 1 = Some (int k) \<and> k \<in> bm_free b"
proof -
  obtain i where "i < bm_size b" "\<not> bm_bit b i" using assms(2) by (auto simp: bm_free_def)
  with bitmap_scan_one [OF assms(1) this] show ?thesis by (auto simp: bm_free_def)
qed

interpretation bm: allocator bm_wf "\<lambda>b. {..<bm_size b}" bm_free bm_take bm_give
proof unfold_locales
  fix s :: bitmap assume s: "bm_wf s" "bm_free s \<noteq> {}"
  obtain k where k: "bitmap_scan s 1 = Some (int k)" "k \<in> bm_free s" using bitmap_scan_free [OF s] by blast
  then have "k < bm_size s" by (simp add: bm_free_def)
  with bitmap_mark [OF s(1) this] k
  show "\<exists>r s'. bm_take s = Some (r, s') \<and> r \<in> bm_free s \<and> bm_free s' = bm_free s - {r} \<and>
      {..<bm_size s'} = {..<bm_size s} \<and> bm_wf s'"
    by (force simp: bm_take_def)
next
  fix s :: bitmap and r assume "bm_wf s" "r \<in> {..<bm_size s}"
  with bitmap_unmark [of s r]
  show "\<exists>s'. bm_give r s = Some s' \<and> bm_free s' = insert r (bm_free s) \<and> {..<bm_size s'} = {..<bm_size s} \<and> bm_wf s'"
    by (force simp: bm_give_def)
qed (auto simp: bm_free_def)

text \<open>A bitmap that has just been initialised has all its bits free.\<close>

lemma bitmap_init_free:
  assumes "btmp_bytes_len b \<le> length (bits b)"
  shows "\<exists>c. bitmap_init b = Some (b\<lparr>bits := c\<rparr>) \<and> length c = length (bits b) \<and>
    bm_wf (b\<lparr>bits := c\<rparr>) \<and> bm_free (b\<lparr>bits := c\<rparr>) = {..<8 * btmp_bytes_len b}"
proof -
  let ?c = "put_bytes (bits b) 0 (replicate (btmp_bytes_len b) 0)"
  have i: "bitmap_init b = Some (b\<lparr>bits := ?c\<rparr>)"
    using assms by (simp add: bitmap_init_def memset_loop_eq)
  have "\<not> bm_bit (b\<lparr>bits := ?c\<rparr>) i" if "i < 8 * btmp_bytes_len b" for i
  proof -
    have "i div 8 < btmp_bytes_len b" using that by auto
    then show ?thesis using assms by (simp add: bm_bit_def nth_put_bytes)
  qed
  then have "bm_free (b\<lparr>bits := ?c\<rparr>) = {..<8 * btmp_bytes_len b}"
    by (auto simp: bm_free_def bm_size_def)
  with i assms show ?thesis by (intro exI [of _ ?c]) (auto simp: bm_wf_def)
qed

end
