(* ===== verification/Paging_Frames.thy ===== *)
theory Paging_Frames
  imports Kernel_Paging
begin

text \<open>
  Pages and frames as wholes: addresses inside one page, stores that stay clear of the page tables,
  clearing a page, and entering a page in a page table that exists. The allocation of pages in
  \<open>Kernel_Memory\<close> rests on these facts.
\<close>

unbundle bit_operations_syntax

subsection \<open>Addresses inside a page\<close>

definition aligned :: "u32 \<Rightarrow> bool" where
  "aligned p \<longleftrightarrow> frame_of p = p"

lemma aligned_bits: "aligned p \<Longrightarrow> bit p n \<Longrightarrow> 12 \<le> n"
  unfolding aligned_def by (metis bit_frame_of)

lemma aligned_frame [simp]: "aligned (frame_of p)"
  unfolding aligned_def by (rule bit_eqI) (simp add: bit_frame_of)

lemma small_bits:
  assumes "unat (k :: u32) < 4096" and "bit k n"
  shows "n < 12"
proof -
  have "bit (unat k) n" using assms(2) by (simp add: bit_unsigned_iff)
  then have "odd (unat k div 2 ^ n)" by (simp add: bit_iff_odd)
  then have "unat k div 2 ^ n \<noteq> 0" by (rule contrapos_pn) simp
  then have "2 ^ n \<le> unat k" by (metis div_less not_le)
  then have "(2 :: nat) ^ n < 2 ^ 12" using assms(1) by simp
  then show ?thesis by (rule power_less_imp_less_exp [rotated]) simp
qed

lemma page_plus:
  assumes "aligned p" and "unat k < 4096"
  shows "p + k = p OR k" and "bit (p + k) n \<longleftrightarrow> (if n < 12 then bit k n else bit p n)"
proof -
  show e: "p + k = p OR k"
    by (rule add_eq_or) (use aligned_bits [OF assms(1)] small_bits [OF assms(2)] in \<open>meson not_less\<close>)
  show "bit (p + k) n \<longleftrightarrow> (if n < 12 then bit k n else bit p n)"
    unfolding e bit_or_iff using aligned_bits [OF assms(1), of n] small_bits [OF assms(2), of n] by auto
qed

lemma page_plus_simps [simp]:
  assumes "aligned p" and "unat k < 4096"
  shows "frame_of (p + k) = p" and "(p + k) AND 0xfff = k"
proof -
  show "frame_of (p + k) = p"
    by (rule bit_eqI) (auto simp: bit_frame_of page_plus(2) [OF assms] dest: aligned_bits [OF assms(1)])
  show "(p + k) AND 0xfff = k"
    by (rule bit_eqI) (auto simp: bit_and_iff bit_masks page_plus(2) [OF assms] dest: small_bits [OF assms(2)])
qed

lemma idx_frame [simp]: "PDE_IDX (frame_of x) = PDE_IDX x" "PTE_IDX (frame_of x) = PTE_IDX x"
  by (rule bit_eqI, auto simp: bit_idx bit_frame_of)+

lemma same_page_frame: "same_page x y \<longleftrightarrow> frame_of x = frame_of y"
proof
  assume s: "same_page x y"
  show "frame_of x = frame_of y"
  proof (rule bit_eqI)
    fix n assume "possible_bit TYPE(32 word) n"
    then have n: "n < 32" by simp
    show "bit (frame_of x) n = bit (frame_of y) n"
    proof (cases "n < 22")
      case True
      have "bit (PTE_IDX x) (n - 12) = bit (PTE_IDX y) (n - 12)" using s by (simp add: same_page_def)
      then show ?thesis using True by (auto simp: bit_idx bit_frame_of)
    next
      case False
      have "bit (PDE_IDX x) (n - 22) = bit (PDE_IDX y) (n - 22)" using s by (simp add: same_page_def)
      then show ?thesis using False n by (auto simp: bit_idx bit_frame_of)
    qed
  qed
next
  assume "frame_of x = frame_of y"
  then show "same_page x y" unfolding same_page_def using idx_frame by metis
qed

lemma walk_in_page:
  assumes "mmu_walk m p = Some pa" and "aligned p" and "unat k < 4096"
  shows "mmu_walk m (p + k) = Some (pa + k)" and "aligned pa"
proof -
  have z: "p AND 0xfff = 0"
    using page_plus_simps(2) [OF assms(2), of 0] by simp
  have "PDE_IDX (p + k) = PDE_IDX p" "PTE_IDX (p + k) = PTE_IDX p"
    using idx_frame page_plus_simps(1) [OF assms(2,3)] by metis+
  then have "pde_at m (p + k) = pde_at m p" "pte_at m (p + k) = pte_at m p"
    by (simp_all add: pde_at_def pte_at_def)
  moreover have pa: "pde_present m p" "pte_present m p" "pa = frame_of (ram m (pte_at m p))"
    using assms(1) z by (auto simp: walk_simps split: if_splits)
  ultimately show "mmu_walk m (p + k) = Some (pa + k)"
    using assms by (simp add: walk_simps pde_present_def pte_present_def)
  show "aligned pa" using pa(3) by simp
qed

text \<open>The offset of word \<open>i\<close> of a page.\<close>

definition word_off :: "nat \<Rightarrow> u32" where
  "word_off i = 4 * word_of_nat i"

lemma unat_word_off: "i < 1024 \<Longrightarrow> unat (word_off i) = 4 * i"
  using unat_mult_small [of 4 "word_of_nat i"] by (simp add: word_off_def unat_of_nat)

lemma word_off_Suc: "word_off (Suc i) = word_off i + 4"
  by (simp add: word_off_def distrib_left)

lemma word_off_small: "i < 1024 \<Longrightarrow> unat (word_off i) < 4096"
  by (simp add: unat_word_off)

lemma word_off_inj: "i < 1024 \<Longrightarrow> j < 1024 \<Longrightarrow> word_off i = word_off j \<Longrightarrow> i = j"
  by (metis mult_cancel1 unat_word_off zero_neq_numeral)

subsection \<open>Stores outside the page tables\<close>

definition table_frames :: "mmu \<Rightarrow> u32 set" where
  "table_frames m = insert (frame_of (cr3 m)) {frame_of (ram m (pde_at m x)) |x. pde_present m x}"

lemma frame_of_slots:
  "frame_of (pde_at m x) = frame_of (cr3 m)" "frame_of (pte_at m x) = frame_of (ram m (pde_at m x))"
  unfolding pde_at_frame pte_at_frame
  by (rule bit_eqI, auto simp: bit_frame_of bit_frame_plus_pde [folded frame_of_def]
      bit_frame_plus_pte [folded frame_of_def] dest: bit_imp_le_length)+

text \<open>Two memories with the same page tables translate alike.\<close>

lemma same_tables:
  assumes "cr3 m' = cr3 m" and "\<forall>a. frame_of a \<in> table_frames m \<longrightarrow> ram m' a = ram m a"
  shows "pde_at m' x = pde_at m x" "ram m' (pde_at m x) = ram m (pde_at m x)"
    "pde_present m' x = pde_present m x" "pte_at m' x = pte_at m x"
    "pte_present m' x \<and> pde_present m x \<longleftrightarrow> pte_present m x \<and> pde_present m x"
    "mmu_walk m' x = mmu_walk m x"
    "self_mapped m' = self_mapped m" "own_table m' x = own_table m x" "table_frames m' = table_frames m"
proof -
  note fr = frame_of_slots(1) [of m] and ft = frame_of_slots(2) [of m]
  have pde: "pde_at m' y = pde_at m y" for y by (simp add: pde_at_def assms(1))
  have rd: "ram m' (pde_at m y) = ram m (pde_at m y)" for y
    using assms(2) fr [of y] by (simp add: table_frames_def)
  have pp: "pde_present m' y = pde_present m y" for y by (simp add: pde_present_def pde rd)
  have pte: "pte_at m' y = pte_at m y" for y by (simp add: pte_at_def pde rd)
  have rt: "ram m' (pte_at m y) = ram m (pte_at m y)" if "pde_present m y" for y
    using assms(2) ft [of y] that by (auto simp: table_frames_def)
  show "pde_at m' x = pde_at m x" "ram m' (pde_at m x) = ram m (pde_at m x)"
    "pde_present m' x = pde_present m x" "pte_at m' x = pte_at m x" using pde rd pp pte by auto
  show "pte_present m' x \<and> pde_present m x \<longleftrightarrow> pte_present m x \<and> pde_present m x"
    using rt [of x] unfolding pte_present_def pte by (cases "pde_present m x") simp_all
  show "mmu_walk m' x = mmu_walk m x" using rt [of x] by (cases "pde_present m x") (simp_all add: walk_simps pp pte pte_present_def)
  have s: "frame_of (cr3 m) + 4 * 0x3ff = pde_at m (pte_ptr 0)" by (simp add: pde_at_frame)
  show "self_mapped m' = self_mapped m" unfolding self_mapped_def assms(1) s rd ..
  show "own_table m' x = own_table m x" unfolding own_table_def pde rd pp assms(1) ..
  show "table_frames m' = table_frames m" unfolding table_frames_def pde rd pp assms(1) ..
qed

definition page_words :: "u32 \<Rightarrow> nat \<Rightarrow> nat \<Rightarrow> u32 set" where
  "page_words pa k n = (\<lambda>i. pa + word_off i) ` {k..<k + n}"

lemma page_words_simps:
  "page_words pa k 0 = {}" "page_words pa k (Suc n) = insert (pa + word_off k) (page_words pa (Suc k) n)"
proof -
  have "{k..<k + Suc n} = insert k {Suc k..<Suc k + n}" by auto
  then show "page_words pa k (Suc n) = insert (pa + word_off k) (page_words pa (Suc k) n)"
    by (simp add: page_words_def)
qed (simp add: page_words_def)

definition clear_words :: "u32 \<Rightarrow> nat \<Rightarrow> nat \<Rightarrow> mmu \<Rightarrow> mmu" where
  "clear_words pa k n m = m\<lparr>ram := \<lambda>a. if a \<in> page_words pa k n then 0 else ram m a\<rparr>"

lemma clear_words_tables:
  assumes "aligned pa" and "pa \<notin> table_frames m" and "k + n \<le> 1024"
  shows "cr3 (clear_words pa k n m) = cr3 m"
    "\<forall>a. frame_of a \<in> table_frames m \<longrightarrow> ram (clear_words pa k n m) a = ram m a"
proof -
  show "cr3 (clear_words pa k n m) = cr3 m" by (simp add: clear_words_def)
  show "\<forall>a. frame_of a \<in> table_frames m \<longrightarrow> ram (clear_words pa k n m) a = ram m a"
  proof (intro allI impI)
    fix a assume that: "frame_of a \<in> table_frames m"
    have "a \<notin> page_words pa k n" unfolding page_words_def
      using page_plus_simps(1) [OF assms(1) word_off_small] that assms(2,3) by fastforce
    then show "ram (clear_words pa k n m) a = ram m a" by (simp add: clear_words_def)
  qed
qed

lemma memset0_page:
  "mmu_walk m p = Some pa \<Longrightarrow> aligned p \<Longrightarrow> pa \<notin> table_frames m \<Longrightarrow> k + n \<le> 1024 \<Longrightarrow>
   memset0 (p + word_off k) n m = Some (clear_words pa k n m)"
proof (induction n arbitrary: k m)
  case (Suc n)
  have a: "aligned pa" using walk_in_page(2) [OF Suc.prems(1,2), of 0] by simp
  have k: "k < 1024" using Suc.prems(4) by simp
  have w: "mmu_walk m (p + word_off k) = Some (pa + word_off k)"
    by (rule walk_in_page(1) [OF Suc.prems(1,2) word_off_small [OF k]])
  let ?m = "clear_words pa k 1 m"
  have e: "?m = m\<lparr>ram := (ram m)(pa + word_off k := 0)\<rparr>"
    by (simp add: clear_words_def page_words_simps fun_upd_def)
  note tab = clear_words_tables [OF a Suc.prems(3), of k 1]
  have t: "cr3 ?m = cr3 m" "\<forall>a. frame_of a \<in> table_frames m \<longrightarrow> ram ?m a = ram m a"
    using tab k by auto
  have 1: "mmu_walk ?m p = Some pa" "pa \<notin> table_frames ?m"
    using same_tables(6,9) [OF t] Suc.prems by auto
  have "store32 (p + word_off k) 0 m = Some ?m" unfolding e by (simp add: store32_def w)
  then have "memset0 (p + word_off k) (Suc n) m = memset0 (p + word_off (Suc k)) n ?m"
    by (simp add: word_off_Suc add.assoc)
  also have "\<dots> = Some (clear_words pa (Suc k) n ?m)"
    by (rule Suc.IH [OF 1(1) Suc.prems(2) 1(2)]) (use Suc.prems(4) in simp)
  also have "clear_words pa (Suc k) n ?m = clear_words pa k (Suc n) m"
    unfolding e clear_words_def [of _ _ "Suc n"] clear_words_def [of _ _ n] page_words_simps
    by (simp, rule arg_cong [of _ _ "\<lambda>f. m\<lparr>ram := f\<rparr>"]) (simp add: fun_eq_iff)
  finally show ?case .
qed (simp add: clear_words_def page_words_simps)

lemma clear_page:
  assumes "mmu_walk m p = Some pa" and "aligned p" and "pa \<notin> table_frames m"
  shows "memset0 p 1024 m = Some (clear_words pa 0 1024 m)"
    and "\<And>a. frame_of a \<noteq> pa \<Longrightarrow> ram (clear_words pa 0 1024 m) a = ram m a"
    and "\<And>i. i < 1024 \<Longrightarrow> ram (clear_words pa 0 1024 m) (pa + word_off i) = 0"
proof -
  show "memset0 p 1024 m = Some (clear_words pa 0 1024 m)"
    using memset0_page [OF assms, of 0 1024] by (simp add: word_off_def)
  have pa: "aligned pa" using walk_in_page(2) [OF assms(1,2), of 0] by simp
  show "ram (clear_words pa 0 1024 m) a = ram m a" if "frame_of a \<noteq> pa" for a
    using that page_plus_simps(1) [OF pa word_off_small] by (auto simp: clear_words_def page_words_def)
  show "ram (clear_words pa 0 1024 m) (pa + word_off i) = 0" if "i < 1024" for i
    using that by (auto simp: clear_words_def page_words_def)
qed

subsection \<open>Page-table entries\<close>

definition pte_of :: "u32 \<Rightarrow> u32" where
  "pte_of pa = (pa OR PG_US_U OR PG_RW_W OR PG_P_1)"

lemma bit_pte_of: "bit (pte_of pa) n \<longleftrightarrow> bit pa n \<or> n < 3"
proof -
  have "pte_of pa = pa OR mask 3"
    by (simp add: pte_of_def PG_US_U_def PG_RW_W_def PG_P_1_def or.assoc mask_eq_exp_minus_1)
  then show ?thesis by (auto simp: bit_or_iff bit_mask_iff)
qed

lemma pte_of_simps [simp]:
  shows "pte_of pa AND 1 \<noteq> 0" and "aligned pa \<Longrightarrow> frame_of (pte_of pa) = pa"
proof -
  have "bit (pte_of pa) 0" by (simp add: bit_pte_of)
  then show "pte_of pa AND 1 \<noteq> 0" by (auto simp: and_one_eq bit_0 odd_iff_mod_2_eq_one)
  show "frame_of (pte_of pa) = pa" if "aligned pa"
    by (rule bit_eqI) (use aligned_bits [OF that] in \<open>auto simp: bit_frame_of bit_pte_of\<close>)
qed

lemma enter_page:
  assumes "own_table m va" and "pde_present m va" and "aligned pa"
    and "m' = m\<lparr>ram := (ram m)(pte_at m va := pte_of pa)\<rparr>"
  shows "mmu_walk m' x = (if same_page x va then Some (pa + (x AND 0xfff)) else mmu_walk m x)"
    and "table_frames m' = table_frames m"
proof -
  show "mmu_walk m' x = (if same_page x va then Some (pa + (x AND 0xfff)) else mmu_walk m x)"
    using set_pte_walk [OF assms(1,2,4), of x] pte_of_simps assms(3) by simp
  show "table_frames m' = table_frames m"
    unfolding table_frames_def set_pte_tables [OF assms(1,4)] by (simp add: assms(4))
qed

end
