(* ===== verification/Kernel_Memory.thy ===== *)
theory Kernel_Memory
  imports Kernel_Sync Bitmap_Alloc Paging_Frames
begin

text \<open>
  \<open>kernel/memory.c\<close>: the pools of physical frames, the allocation of virtual pages and their mapping,
  and the heap of \<open>sys_malloc\<close> and \<open>sys_free\<close>. Page tables are accessed through \<open>Kernel_Paging\<close>,
  bitmaps through \<open>Kernel_Bitmap\<close>.

  An arena header is a record found at a physical address; a pointer to one of the seven
  descriptors of a heap names the heap (the kernel's, or that of a task) and the index. A free
  list holds the addresses of its blocks. The locks are taken with the sequential
  \<open>lock_acquire_now\<close>: a call that would have to wait for a lock is \<open>None\<close> here, since its
  interleaving with the holder is the subject of \<open>Kernel_Sync\<close>.
\<close>

unbundle bit_operations_syntax

datatype pool_flags = PF_KERNEL | PF_USER

record pool =
  pool_bitmap :: bitmap
  phy_addr_start :: u32
  pool_size :: u32
  pool_lock :: u32

datatype desc_ref = K_desc nat | U_desc task nat

record arena =
  arena_desc :: "desc_ref option"
  arena_cnt :: u32
  arena_large :: u32

record kmem = kstate +
  kernel_pool :: pool
  user_pool :: pool
  kernel_vaddr :: virtual_addr
  k_block_descs :: "mem_block_desc list"
  arenas :: "u32 \<rightharpoonup> arena"

definition K_HEAP_START :: u32 where "K_HEAP_START = 0xc0100000"
definition DESC_CNT :: nat where "DESC_CNT = 7"
definition sizeof_arena :: u32 where "sizeof_arena = 12"

definition the_pool :: "pool_flags \<Rightarrow> 'z kmem_scheme \<Rightarrow> pool" where
  "the_pool pf s = (case pf of PF_KERNEL \<Rightarrow> kernel_pool s | PF_USER \<Rightarrow> user_pool s)"

definition set_pool :: "pool_flags \<Rightarrow> pool \<Rightarrow> 'z kmem_scheme \<Rightarrow> 'z kmem_scheme" where
  "set_pool pf p s = (case pf of PF_KERNEL \<Rightarrow> s\<lparr>kernel_pool := p\<rparr> | PF_USER \<Rightarrow> s\<lparr>user_pool := p\<rparr>)"

subsection \<open>Virtual pages\<close>

text \<open>The loops over \<open>bitmap_set\<close> of \<open>vaddr_get\<close> and \<open>vaddr_remove\<close>.\<close>

fun set_bits :: "nat \<Rightarrow> nat \<Rightarrow> int \<Rightarrow> bitmap \<Rightarrow> bitmap option" where
  "set_bits bit_idx_start 0 v btmp = Some btmp"
| "set_bits bit_idx_start (Suc n) v btmp = do {
     btmp \<leftarrow> bitmap_set btmp bit_idx_start v;
     set_bits (bit_idx_start + 1) n v btmp }"

definition vaddr_get :: "pool_flags \<Rightarrow> u32 \<Rightarrow> 'z kmem_scheme \<Rightarrow> (u32 \<times> 'z kmem_scheme) option" where
  "vaddr_get pf pg_cnt s =
     (if pf = PF_KERNEL then do {
        bit_idx_start \<leftarrow> bitmap_scan (vaddr_bitmap (kernel_vaddr s)) (unat pg_cnt);
        if bit_idx_start = -1 then Some (0, s)
        else do {
          b \<leftarrow> set_bits (nat bit_idx_start) (unat pg_cnt) 1 (vaddr_bitmap (kernel_vaddr s));
          Some (vaddr_start (kernel_vaddr s) + word_of_int bit_idx_start * PG_SIZE,
            s\<lparr>kernel_vaddr := (kernel_vaddr s)\<lparr>vaddr_bitmap := b\<rparr>\<rparr>) } }
      else do {
        let cur = running s;
        p \<leftarrow> tasks s cur;
        bit_idx_start \<leftarrow> bitmap_scan (vaddr_bitmap (userprog_vaddr p)) (unat pg_cnt);
        if bit_idx_start = -1 then Some (0, s)
        else do {
          b \<leftarrow> set_bits (nat bit_idx_start) (unat pg_cnt) 1 (vaddr_bitmap (userprog_vaddr p));
          s \<leftarrow> upd_task cur (\<lambda>p. p\<lparr>userprog_vaddr := (userprog_vaddr p)\<lparr>vaddr_bitmap := b\<rparr>\<rparr>) s;
          let start = vaddr_start (userprog_vaddr p) + word_of_int bit_idx_start * PG_SIZE;
          ASSERT (start < 0xc0000000 - PG_SIZE);
          Some (start, s) } })"

definition vaddr_remove :: "pool_flags \<Rightarrow> u32 \<Rightarrow> u32 \<Rightarrow> 'z kmem_scheme \<Rightarrow> 'z kmem_scheme option" where
  "vaddr_remove pf vaddr pg_cnt s =
     (if pf = PF_KERNEL then do {
        let bit_idx_start = (vaddr - vaddr_start (kernel_vaddr s)) div PG_SIZE;
        b \<leftarrow> set_bits (unat bit_idx_start) (unat pg_cnt) 0 (vaddr_bitmap (kernel_vaddr s));
        Some (s\<lparr>kernel_vaddr := (kernel_vaddr s)\<lparr>vaddr_bitmap := b\<rparr>\<rparr>) }
      else do {
        let cur_thread = running s;
        p \<leftarrow> tasks s cur_thread;
        let bit_idx_start = (vaddr - vaddr_start (userprog_vaddr p)) div PG_SIZE;
        b \<leftarrow> set_bits (unat bit_idx_start) (unat pg_cnt) 0 (vaddr_bitmap (userprog_vaddr p));
        upd_task cur_thread (\<lambda>p. p\<lparr>userprog_vaddr := (userprog_vaddr p)\<lparr>vaddr_bitmap := b\<rparr>\<rparr>) s })"

subsection \<open>Physical frames and mappings\<close>

definition palloc :: "pool_flags \<Rightarrow> 'z kmem_scheme \<Rightarrow> (u32 \<times> 'z kmem_scheme) option" where
  "palloc m_pool s = do {
     let p = the_pool m_pool s;
     bit_idx \<leftarrow> bitmap_scan (pool_bitmap p) 1;
     if bit_idx = -1 then Some (0, s)
     else do {
       b \<leftarrow> bitmap_set (pool_bitmap p) (nat bit_idx) 1;
       Some (word_of_int bit_idx * PG_SIZE + phy_addr_start p, set_pool m_pool (p\<lparr>pool_bitmap := b\<rparr>) s) } }"

definition pfree :: "u32 \<Rightarrow> 'z kmem_scheme \<Rightarrow> 'z kmem_scheme option" where
  "pfree pg_phy_addr s = do {
     let mem_pool = (if pg_phy_addr \<ge> phy_addr_start (user_pool s) then PF_USER else PF_KERNEL);
     let p = the_pool mem_pool s;
     let bit_idx = (pg_phy_addr - phy_addr_start p) div PG_SIZE;
     b \<leftarrow> bitmap_set (pool_bitmap p) (unat bit_idx) 0;
     Some (set_pool mem_pool (p\<lparr>pool_bitmap := b\<rparr>) s) }"

definition page_table_add :: "u32 \<Rightarrow> u32 \<Rightarrow> 'z kmem_scheme \<Rightarrow> 'z kmem_scheme option" where
  "page_table_add vaddr page_phyaddr s = do {
     let pde = pde_ptr vaddr;
     let pte = pte_ptr vaddr;
     pde_v \<leftarrow> load32 pde (mmu s);
     if pde_v AND 0x00000001 \<noteq> 0 then do {
       pte_v \<leftarrow> load32 pte (mmu s);
       ASSERT (\<not> pte_v AND 0x00000001 \<noteq> 0);
       pte_v \<leftarrow> load32 pte (mmu s);
       if \<not> pte_v AND 0x00000001 \<noteq> 0 then do {
         m \<leftarrow> store32 pte (page_phyaddr OR PG_US_U OR PG_RW_W OR PG_P_1) (mmu s);
         Some (s\<lparr>mmu := m\<rparr>) }
       else None \<comment> \<open>PANIC\<close> }
     else do {
       (pde_phyaddr, s) \<leftarrow> palloc PF_KERNEL s;
       m \<leftarrow> store32 pde (pde_phyaddr OR PG_US_U OR PG_RW_W OR PG_P_1) (mmu s);
       m \<leftarrow> memset0 (pte AND 0xfffff000) (unat PG_SIZE div 4) m;
       pte_v \<leftarrow> load32 pte m;
       ASSERT (\<not> pte_v AND 0x00000001 \<noteq> 0);
       m \<leftarrow> store32 pte (page_phyaddr OR PG_US_U OR PG_RW_W OR PG_P_1) m;
       Some (s\<lparr>mmu := m\<rparr>) } }"

text \<open>The loop of \<open>malloc_page\<close>; the flag is false when a frame could not be had.\<close>

fun map_frames :: "pool_flags \<Rightarrow> u32 \<Rightarrow> nat \<Rightarrow> 'z kmem_scheme \<Rightarrow> (bool \<times> 'z kmem_scheme) option" where
  "map_frames mem_pool vaddr 0 s = Some (True, s)"
| "map_frames mem_pool vaddr (Suc cnt) s = do {
     (page_phyaddr, s) \<leftarrow> palloc mem_pool s;
     if page_phyaddr = 0 then Some (False, s)
     else do {
       s \<leftarrow> page_table_add vaddr page_phyaddr s;
       map_frames mem_pool (vaddr + PG_SIZE) cnt s } }"

definition malloc_page :: "pool_flags \<Rightarrow> u32 \<Rightarrow> 'z kmem_scheme \<Rightarrow> (u32 \<times> 'z kmem_scheme) option" where
  "malloc_page pf pg_cnt s = do {
     (vaddr_start, s) \<leftarrow> vaddr_get pf pg_cnt s;
     if vaddr_start = 0 then Some (0, s)
     else do {
       (ok, s) \<leftarrow> map_frames pf vaddr_start (unat pg_cnt) s;
       Some (if ok then vaddr_start else 0, s) } }"

text \<open>\<open>memset\<close> with 0 on a page-aligned address, a word at a time.\<close>

definition clear :: "u32 \<Rightarrow> u32 \<Rightarrow> 'z kmem_scheme \<Rightarrow> 'z kmem_scheme option" where
  "clear vaddr nbytes s = do {
     m \<leftarrow> memset0 vaddr (unat nbytes div 4) (mmu s);
     Some (s\<lparr>mmu := m\<rparr>) }"

definition get_pages :: "pool_flags \<Rightarrow> u32 \<Rightarrow> 'z kmem_scheme \<Rightarrow> (u32 \<times> 'z kmem_scheme) option" where
  "get_pages pf pg_cnt s = do {
     let l = pool_lock (the_pool pf s);
     s \<leftarrow> lock_acquire_now l s;
     (vaddr, s) \<leftarrow> malloc_page pf pg_cnt s;
     s \<leftarrow> (if vaddr \<noteq> 0 then clear vaddr (pg_cnt * PG_SIZE) s else Some s);
     s \<leftarrow> lock_release_now l s;
     Some (vaddr, s) }"

definition get_kernel_pages :: "u32 \<Rightarrow> 'z kmem_scheme \<Rightarrow> (u32 \<times> 'z kmem_scheme) option" where
  "get_kernel_pages pg_cnt s = get_pages PF_KERNEL pg_cnt s"

definition get_user_pages :: "u32 \<Rightarrow> 'z kmem_scheme \<Rightarrow> (u32 \<times> 'z kmem_scheme) option" where
  "get_user_pages pg_cnt s = get_pages PF_USER pg_cnt s"

definition get_a_page :: "pool_flags \<Rightarrow> u32 \<Rightarrow> 'z kmem_scheme \<Rightarrow> (u32 \<times> 'z kmem_scheme) option" where
  "get_a_page pf vaddr s = do {
     let l = pool_lock (the_pool pf s);
     s \<leftarrow> lock_acquire_now l s;
     let cur = running s;
     p \<leftarrow> tasks s cur;
     s \<leftarrow> (if pgdir p \<noteq> 0 \<and> pf = PF_USER then do {
             let bit_idx = (vaddr - vaddr_start (userprog_vaddr p)) div PG_SIZE;
             ASSERT (bit_idx > 0);
             b \<leftarrow> bitmap_set (vaddr_bitmap (userprog_vaddr p)) (unat bit_idx) 1;
             upd_task cur (\<lambda>p. p\<lparr>userprog_vaddr := (userprog_vaddr p)\<lparr>vaddr_bitmap := b\<rparr>\<rparr>) s }
           else if pgdir p = 0 \<and> pf = PF_KERNEL then do {
             let bit_idx = (vaddr - vaddr_start (kernel_vaddr s)) div PG_SIZE;
             ASSERT (bit_idx > 0);
             b \<leftarrow> bitmap_set (vaddr_bitmap (kernel_vaddr s)) (unat bit_idx) 1;
             Some (s\<lparr>kernel_vaddr := (kernel_vaddr s)\<lparr>vaddr_bitmap := b\<rparr>\<rparr>) }
           else None \<comment> \<open>PANIC\<close>);
     (page_phyaddr, s) \<leftarrow> palloc pf s;
     if page_phyaddr = 0 then do {
       s \<leftarrow> lock_release_now l s;
       Some (0, s) }
     else do {
       s \<leftarrow> page_table_add vaddr page_phyaddr s;
       s \<leftarrow> lock_release_now l s;
       Some (vaddr, s) } }"

definition get_a_page_without_opvaddrbitmap ::
  "pool_flags \<Rightarrow> u32 \<Rightarrow> 'z kmem_scheme \<Rightarrow> (u32 \<times> 'z kmem_scheme) option" where
  "get_a_page_without_opvaddrbitmap pf vaddr s = do {
     let l = pool_lock (the_pool pf s);
     s \<leftarrow> lock_acquire_now l s;
     (page_phyaddr, s) \<leftarrow> palloc pf s;
     if page_phyaddr = 0 then do {
       s \<leftarrow> lock_release_now l s;
       Some (0, s) }
     else do {
       s \<leftarrow> page_table_add vaddr page_phyaddr s;
       s \<leftarrow> lock_release_now l s;
       Some (vaddr, s) } }"

text \<open>The two loops of \<open>mfree_page\<close> differ only in the range their \<open>ASSERT\<close> checks.\<close>

fun free_frames :: "bool \<Rightarrow> u32 \<Rightarrow> nat \<Rightarrow> 'z kmem_scheme \<Rightarrow> 'z kmem_scheme option" where
  "free_frames user vaddr 0 s = Some s"
| "free_frames user vaddr (Suc page_cnt) s = do {
     pg_phy_addr \<leftarrow> addr_v2p vaddr (mmu s);
     ASSERT (pg_phy_addr mod PG_SIZE = 0 \<and>
       (if user then pg_phy_addr \<ge> phy_addr_start (user_pool s)
        else pg_phy_addr \<ge> phy_addr_start (kernel_pool s) \<and> pg_phy_addr < phy_addr_start (user_pool s)));
     s \<leftarrow> pfree pg_phy_addr s;
     m \<leftarrow> page_table_pte_remove vaddr (mmu s);
     free_frames user (vaddr + PG_SIZE) page_cnt (s\<lparr>mmu := m\<rparr>) }"

definition mfree_page :: "pool_flags \<Rightarrow> u32 \<Rightarrow> u32 \<Rightarrow> 'z kmem_scheme \<Rightarrow> 'z kmem_scheme option" where
  "mfree_page pf vaddr pg_cnt s = do {
     ASSERT (pg_cnt \<ge> 1 \<and> vaddr mod PG_SIZE = 0);
     pg_phy_addr \<leftarrow> addr_v2p vaddr (mmu s);
     ASSERT (pg_phy_addr mod PG_SIZE = 0 \<and> pg_phy_addr \<ge> 0x102000);
     s \<leftarrow> (if pg_phy_addr \<ge> phy_addr_start (user_pool s)
           then free_frames True vaddr (unat pg_cnt) s
           else free_frames False vaddr (unat pg_cnt) s);
     vaddr_remove pf vaddr pg_cnt s }"

subsection \<open>Descriptors and arenas\<close>

function block_desc_loop :: "nat \<Rightarrow> u16 \<Rightarrow> mem_block_desc list \<Rightarrow> mem_block_desc list option" where
  "block_desc_loop desc_idx bsize desc_arry =
     (if desc_idx < DESC_CNT then do {
        desc_arry \<leftarrow> wr desc_arry desc_idx
          \<lparr>block_size = ucast bsize,
           blocks_per_arena = (PG_SIZE - sizeof_arena) div ucast bsize, free_list = []\<rparr>;
        block_desc_loop (desc_idx + 1) (bsize * 2) desc_arry }
      else Some desc_arry)"
  by pat_completeness auto
termination
  by (relation "measure (\<lambda>(i, _). DESC_CNT - i)") auto

declare block_desc_loop.simps [simp del]

definition block_desc_init :: "mem_block_desc list \<Rightarrow> mem_block_desc list option" where
  "block_desc_init desc_arry = block_desc_loop 0 16 desc_arry"

definition the_desc :: "desc_ref \<Rightarrow> 'z kmem_scheme \<Rightarrow> mem_block_desc option" where
  "the_desc d s = (case d of
     K_desc i \<Rightarrow> rd (k_block_descs s) i
   | U_desc t i \<Rightarrow> do { p \<leftarrow> tasks s t; rd (u_block_desc p) i })"

definition set_free_list :: "desc_ref \<Rightarrow> u32 list \<Rightarrow> 'z kmem_scheme \<Rightarrow> 'z kmem_scheme option" where
  "set_free_list d l s = do {
     x \<leftarrow> the_desc d s;
     case d of
       K_desc i \<Rightarrow> Some (s\<lparr>k_block_descs := (k_block_descs s)[i := x\<lparr>free_list := l\<rparr>]\<rparr>)
     | U_desc t i \<Rightarrow> upd_task t (\<lambda>p. p\<lparr>u_block_desc := (u_block_desc p)[i := x\<lparr>free_list := l\<rparr>]\<rparr>) s }"

definition arena_at :: "u32 \<Rightarrow> 'z kmem_scheme \<Rightarrow> arena option" where
  "arena_at a s = do { pa \<leftarrow> mmu_walk (mmu s) a; arenas s pa }"

definition set_arena :: "u32 \<Rightarrow> arena \<Rightarrow> 'z kmem_scheme \<Rightarrow> 'z kmem_scheme option" where
  "set_arena a ar s = do {
     pa \<leftarrow> mmu_walk (mmu s) a;
     Some (s\<lparr>arenas := (arenas s)(pa \<mapsto> ar)\<rparr>) }"

definition desc_of :: "arena \<Rightarrow> 'z kmem_scheme \<Rightarrow> mem_block_desc option" where
  "desc_of ar s = do { d \<leftarrow> arena_desc ar; the_desc d s }"

definition arena2block :: "u32 \<Rightarrow> u32 \<Rightarrow> 'z kmem_scheme \<Rightarrow> u32 option" where
  "arena2block a idx s = do {
     ar \<leftarrow> arena_at a s;
     d \<leftarrow> desc_of ar s;
     Some (a + sizeof_arena + idx * block_size d) }"

definition block2arena :: "u32 \<Rightarrow> u32" where
  "block2arena b = b AND 0xfffff000"

subsection \<open>The heap\<close>

text \<open>The descriptor for a size: the first whose blocks are large enough, 7 when there is none.\<close>

fun fit_desc :: "u32 \<Rightarrow> nat \<Rightarrow> mem_block_desc list \<Rightarrow> nat" where
  "fit_desc nbytes desc_idx [] = desc_idx"
| "fit_desc nbytes desc_idx (d # ds) =
     (if nbytes \<le> block_size d then desc_idx else fit_desc nbytes (desc_idx + 1) ds)"

text \<open>The loop of \<open>sys_malloc\<close> that splits a new arena, and that of \<open>sys_free\<close> that takes it apart.\<close>

fun split_arena :: "u32 \<Rightarrow> u32 \<Rightarrow> nat \<Rightarrow> 'z kmem_scheme \<Rightarrow> 'z kmem_scheme option" where
  "split_arena a block_idx 0 s = Some s"
| "split_arena a block_idx (Suc n) s = do {
     b \<leftarrow> arena2block a block_idx s;
     ar \<leftarrow> arena_at a s;
     d \<leftarrow> desc_of ar s;
     found \<leftarrow> q_find b (free_list d);
     ASSERT (\<not> found);
     l \<leftarrow> q_append b (free_list d);
     r \<leftarrow> arena_desc ar;
     s \<leftarrow> set_free_list r l s;
     split_arena a (block_idx + 1) n s }"

fun unlink_arena :: "u32 \<Rightarrow> u32 \<Rightarrow> nat \<Rightarrow> 'z kmem_scheme \<Rightarrow> 'z kmem_scheme option" where
  "unlink_arena a block_idx 0 s = Some s"
| "unlink_arena a block_idx (Suc n) s = do {
     b \<leftarrow> arena2block a block_idx s;
     ar \<leftarrow> arena_at a s;
     d \<leftarrow> desc_of ar s;
     found \<leftarrow> q_find b (free_list d);
     ASSERT found;
     l \<leftarrow> q_remove b (free_list d);
     r \<leftarrow> arena_desc ar;
     s \<leftarrow> set_free_list r l s;
     unlink_arena a (block_idx + 1) n s }"

text \<open>The kernel thread's heap and pool, or those of the process.\<close>

definition heap_of :: "'z kmem_scheme \<Rightarrow> (pool_flags \<times> (nat \<Rightarrow> desc_ref)) option" where
  "heap_of s = do {
     p \<leftarrow> tasks s (running s);
     Some (if pgdir p = 0 then (PF_KERNEL, K_desc) else (PF_USER, U_desc (running s))) }"

definition descs_of :: "pool_flags \<Rightarrow> 'z kmem_scheme \<Rightarrow> mem_block_desc list option" where
  "descs_of pf s = (case pf of
     PF_KERNEL \<Rightarrow> Some (k_block_descs s)
   | PF_USER \<Rightarrow> map_option u_block_desc (tasks s (running s)))"

text \<open>A new arena for blocks of one size, put on the free list of its descriptor.\<close>

definition new_arena :: "pool_flags \<Rightarrow> desc_ref \<Rightarrow> 'z kmem_scheme \<Rightarrow> (bool \<times> 'z kmem_scheme) option" where
  "new_arena PF r s = do {
     (a, s) \<leftarrow> malloc_page PF 1 s;
     if a = 0 then Some (False, s)
     else do {
       s \<leftarrow> clear a PG_SIZE s;
       d \<leftarrow> the_desc r s;
       s \<leftarrow> set_arena a \<lparr>arena_desc = Some r, arena_cnt = blocks_per_arena d, arena_large = 0\<rparr> s;
       let (old_status, s) = intr_disable s;
       s \<leftarrow> split_arena a 0 (unat (blocks_per_arena d)) s;
       Some (True, snd (intr_set_status old_status s)) } }"

definition malloc_large :: "pool_flags \<Rightarrow> u32 \<Rightarrow> 'z kmem_scheme \<Rightarrow> (u32 \<times> 'z kmem_scheme) option" where
  "malloc_large PF nbytes s = do {
     let page_cnt = DIV_ROUND_UP (nbytes + sizeof_arena) PG_SIZE;
     (a, s) \<leftarrow> malloc_page PF page_cnt s;
     if a \<noteq> 0 then do {
       s \<leftarrow> clear a (page_cnt * PG_SIZE) s;
       s \<leftarrow> set_arena a \<lparr>arena_desc = None, arena_cnt = page_cnt, arena_large = 1\<rparr> s;
       Some (a + sizeof_arena, s) }
     else Some (0, s) }"

text \<open>The first block of the free list.\<close>

definition take_block :: "desc_ref \<Rightarrow> 'z kmem_scheme \<Rightarrow> (u32 \<times> 'z kmem_scheme) option" where
  "take_block r s = do {
     d \<leftarrow> the_desc r s;
     (b, l) \<leftarrow> q_pop (free_list d);
     s \<leftarrow> set_free_list r l s;
     s \<leftarrow> clear b (block_size d) s;
     let a = block2arena b;
     ar \<leftarrow> arena_at a s;
     s \<leftarrow> set_arena a (ar\<lparr>arena_cnt := arena_cnt ar - 1\<rparr>) s;
     Some (b, s) }"

definition malloc_small :: "pool_flags \<Rightarrow> (nat \<Rightarrow> desc_ref) \<Rightarrow> u32 \<Rightarrow> 'z kmem_scheme \<Rightarrow> (u32 \<times> 'z kmem_scheme) option" where
  "malloc_small PF descs nbytes s = do {
     ds \<leftarrow> descs_of PF s;
     let r = descs (fit_desc nbytes 0 ds);
     d \<leftarrow> the_desc r s;
     empty \<leftarrow> q_empty (free_list d);
     (ok, s) \<leftarrow> (if empty then new_arena PF r s else Some (True, s));
     if \<not> ok then Some (0, s) else take_block r s }"

definition sys_malloc :: "u32 \<Rightarrow> 'z kmem_scheme \<Rightarrow> (u32 \<times> 'z kmem_scheme) option" where
  "sys_malloc nbytes s = do {
     (PF, descs) \<leftarrow> heap_of s;
     if \<not> (nbytes > 0 \<and> nbytes < pool_size (the_pool PF s)) then Some (0, s)
     else do {
       let l = pool_lock (the_pool PF s);
       s \<leftarrow> lock_acquire_now l s;
       (b, s) \<leftarrow> (if nbytes > 1024 then malloc_large PF nbytes s else malloc_small PF descs nbytes s);
       s \<leftarrow> lock_release_now l s;
       Some (b, s) } }"

definition free_small :: "pool_flags \<Rightarrow> u32 \<Rightarrow> 'z kmem_scheme \<Rightarrow> 'z kmem_scheme option" where
  "free_small PF b s = do {
     let a = block2arena b;
     ar \<leftarrow> arena_at a s;
     r \<leftarrow> arena_desc ar;
     d \<leftarrow> the_desc r s;
     l \<leftarrow> q_append b (free_list d);
     s \<leftarrow> set_free_list r l s;
     s \<leftarrow> set_arena a (ar\<lparr>arena_cnt := arena_cnt ar + 1\<rparr>) s;
     if arena_cnt ar + 1 = blocks_per_arena d then do {
       s \<leftarrow> unlink_arena a 0 (unat (blocks_per_arena d)) s;
       mfree_page PF a 1 s }
     else Some s }"

definition sys_free :: "u32 \<Rightarrow> 'z kmem_scheme \<Rightarrow> 'z kmem_scheme option" where
  "sys_free ptr s = do {
     ASSERT (ptr \<noteq> 0);
     (PF, _) \<leftarrow> heap_of s;
     ASSERT (PF = PF_KERNEL \<longrightarrow> ptr \<ge> K_HEAP_START);
     let l = pool_lock (the_pool PF s);
     s \<leftarrow> lock_acquire_now l s;
     let a = block2arena ptr;
     ar \<leftarrow> arena_at a s;
     ASSERT (arena_large ar = 0 \<or> arena_large ar = 1);
     s \<leftarrow> (if arena_desc ar = None \<and> arena_large ar = 1 then mfree_page PF a (arena_cnt ar) s
           else free_small PF ptr s);
     lock_release_now l s }"

subsection \<open>Initialisation\<close>

text \<open>
  \<open>bytes\<close> is the memory from \<open>MEM_BITMAP_BASE\<close> on, where the three bitmaps are laid out one after
  the other; a bitmap may read on into what follows it.
\<close>

definition mem_pool_init :: "u32 \<Rightarrow> u8 list \<Rightarrow> 'z kmem_scheme \<Rightarrow> 'z kmem_scheme option" where
  "mem_pool_init all_mem bytes s = do {
     let page_table_size = PG_SIZE * 256;
     let used_mem = page_table_size + 0x100000;
     let free_mem = all_mem - used_mem;
     let all_free_pages = (ucast (free_mem div PG_SIZE) :: u16);
     let kernel_free_pages = all_free_pages div 2;
     let user_free_pages = all_free_pages - kernel_free_pages;
     let kbm_length = unat kernel_free_pages div 8;
     let ubm_length = unat user_free_pages div 8;
     let kp_start = used_mem;
     let up_start = kp_start + ucast kernel_free_pages * PG_SIZE;
     kb \<leftarrow> bitmap_init \<lparr>btmp_bytes_len = kbm_length, bits = bytes\<rparr>;
     ub \<leftarrow> bitmap_init \<lparr>btmp_bytes_len = ubm_length, bits = drop kbm_length (bits kb)\<rparr>;
     let s = lock_init (pool_lock (kernel_pool s)) s;
     let s = lock_init (pool_lock (user_pool s)) s;
     vb \<leftarrow> bitmap_init \<lparr>btmp_bytes_len = kbm_length, bits = drop ubm_length (bits ub)\<rparr>;
     Some (s\<lparr>
       kernel_pool := (kernel_pool s)\<lparr>phy_addr_start := kp_start,
         pool_size := ucast kernel_free_pages * PG_SIZE, pool_bitmap := kb\<rparr>,
       user_pool := (user_pool s)\<lparr>phy_addr_start := up_start,
         pool_size := ucast user_free_pages * PG_SIZE, pool_bitmap := ub\<rparr>,
       kernel_vaddr := \<lparr>vaddr_bitmap = vb, vaddr_start = K_HEAP_START\<rparr>\<rparr>) }"

definition mem_init :: "u32 \<Rightarrow> u8 list \<Rightarrow> 'z kmem_scheme \<Rightarrow> 'z kmem_scheme option" where
  "mem_init mem_bytes_total bytes s = do {
     s \<leftarrow> mem_pool_init mem_bytes_total bytes s;
     ds \<leftarrow> block_desc_init (k_block_descs s);
     Some (s\<lparr>k_block_descs := ds\<rparr>) }"

subsection \<open>Properties: the pools\<close>

definition pool_frames :: "pool \<Rightarrow> u32 set" where
  "pool_frames p = (\<lambda>i. phy_addr_start p + word_of_nat i * PG_SIZE) ` {..<bm_size (pool_bitmap p)}"

lemma pool_page_count:
  fixes all_mem :: u32
  defines "P \<equiv> (unat all_mem - 0x200000) div 4096 mod 65536"
  assumes "0x200000 \<le> unat all_mem"
  shows "unat (ucast ((all_mem - 0x200000) div PG_SIZE) :: u16) = P"
proof -
  have "unat (all_mem - 0x200000) = unat all_mem - 0x200000"
    using assms(2) by (simp add: unat_sub word_le_nat_alt)
  then show ?thesis
    by (simp add: P_def PG_SIZE_def unsigned_ucast_eq take_bit_eq_mod unat_div_distrib)
qed

text \<open>
  The pools that \<open>mem_pool_init\<close> sets up are sound. With at least 2 MB of memory it returns, every
  bit of the kernel's bitmap stands for a frame above the first 2 MB and below the user pool, every bit of the
  user bitmap for a frame from there on and inside physical memory, all frames and kernel pages are free
  and so are both locks. The pools together hold the page count modulo 65536, kept in a \<open>uint16_t\<close>:
  beyond 258 MB memory is lost, although the file promises to support 512 MB.
\<close>

theorem mem_pool_init_bounds:
  fixes s :: "'z kmem_scheme" and all_mem :: u32
  defines "P \<equiv> (unat all_mem - 0x200000) div 4096 mod 65536"
  assumes "0x200000 \<le> unat all_mem" and "2 * (P div 16) + (P - P div 2) div 8 \<le> length bytes"
    and "pool_lock (kernel_pool s) \<noteq> pool_lock (user_pool s)"
  shows "\<exists>s'. mem_pool_init all_mem bytes s = Some s' \<and>
    unat (pool_size (kernel_pool s')) + unat (pool_size (user_pool s')) = P * 4096 \<and>
    unat (phy_addr_start (kernel_pool s')) = 0x200000 \<and>
    0x200000 + bm_size (pool_bitmap (kernel_pool s')) * 4096 \<le> unat (phy_addr_start (user_pool s')) \<and>
    unat (phy_addr_start (user_pool s')) + bm_size (pool_bitmap (user_pool s')) * 4096 \<le> unat all_mem \<and>
    bm_free (pool_bitmap (kernel_pool s')) = {..<8 * (P div 16)} \<and>
    bm_free (pool_bitmap (user_pool s')) = {..<8 * ((P - P div 2) div 8)} \<and>
    bm_free (vaddr_bitmap (kernel_vaddr s')) = {..<8 * (P div 16)} \<and>
    lock_free (pool_lock (kernel_pool s')) s' \<and> lock_free (pool_lock (user_pool s')) s'"
proof -
  let ?K = "P div 16" and ?U = "(P - P div 2) div 8"
  define F where "F = (ucast ((all_mem - 0x200000) div PG_SIZE) :: u16)"
  have F: "unat F = P" unfolding F_def P_def using assms(2) by (rule pool_page_count)
  have k: "unat (F div 2) = P div 2" using F by (simp add: unat_div_distrib)
  have "F div 2 \<le> F" by (simp add: word_le_nat_alt k F)
  then have u: "unat (F - F div 2) = P - P div 2" by (simp add: unat_sub k F)
  have P: "P < 65536" by (simp add: P_def)
  have "P \<le> (unat all_mem - 0x200000) div 4096" by (simp add: P_def)
  then have PP: "P * 4096 \<le> unat all_mem - 0x200000" by linarith
  have size: "unat (ucast x * PG_SIZE) = unat x * 4096" for x :: u16
    using unat_mult_small [of "ucast x" PG_SIZE] unat_u16 [of x] by (simp add: PG_SIZE_def)
  have up: "unat (0x200000 + ucast (F div 2) * PG_SIZE :: u32) = 0x200000 + P div 2 * 4096"
    using unat_add_small [of "0x200000" "ucast (F div 2) * PG_SIZE"] P by (simp add: size k)
  have init: "n \<le> length xs \<Longrightarrow> \<exists>c. bitmap_init \<lparr>btmp_bytes_len = n, bits = xs\<rparr> = Some \<lparr>btmp_bytes_len = n, bits = c\<rparr> \<and>
      length c = length xs \<and> bm_free \<lparr>btmp_bytes_len = n, bits = c\<rparr> = {..<8 * n}" for n xs
    using bitmap_init_free [of "\<lparr>btmp_bytes_len = n, bits = xs\<rparr>"] by fastforce
  have le: "?K \<le> length bytes" "?U \<le> length bytes - ?K" "?K \<le> length bytes - ?K - ?U" using assms(3) by linarith+
  obtain c1 where c1: "bitmap_init \<lparr>btmp_bytes_len = ?K, bits = bytes\<rparr> = Some \<lparr>btmp_bytes_len = ?K, bits = c1\<rparr>"
      "length c1 = length bytes" "bm_free \<lparr>btmp_bytes_len = ?K, bits = c1\<rparr> = {..<8 * ?K}"
    using init [OF le(1)] by blast
  obtain c2 where c2: "bitmap_init \<lparr>btmp_bytes_len = ?U, bits = drop ?K c1\<rparr> = Some \<lparr>btmp_bytes_len = ?U, bits = c2\<rparr>"
      "length c2 = length (drop ?K c1)" "bm_free \<lparr>btmp_bytes_len = ?U, bits = c2\<rparr> = {..<8 * ?U}"
    using init [of ?U "drop ?K c1"] le(2) c1(2) by fastforce
  obtain c3 where c3: "bitmap_init \<lparr>btmp_bytes_len = ?K, bits = drop ?U c2\<rparr> = Some \<lparr>btmp_bytes_len = ?K, bits = c3\<rparr>"
      "bm_free \<lparr>btmp_bytes_len = ?K, bits = c3\<rparr> = {..<8 * ?K}"
    using init [of ?K "drop ?U c2"] le(3) c1(2) c2(2) by fastforce
  have K: "unat (F div 2) div 8 = ?K" "unat (F - F div 2) div 8 = ?U" using k u by (simp_all add: div_mult2_eq)
  have A: "P div 2 * 4096 + (P - P div 2) * 4096 = P * 4096" and B: "8 * (P div 16) \<le> P div 2" by linarith+
  have "32768 * ?U \<le> (P - P div 2) * 4096" by linarith
  with A PP assms(2) have C: "0x200000 + P div 2 * 4096 + 32768 * ?U \<le> unat all_mem" by linarith
  have um: "PG_SIZE * 256 + 0x100000 = (0x200000 :: u32)" by (simp add: PG_SIZE_def)
  show ?thesis
    unfolding mem_pool_init_def um Let_def F_def [symmetric] K
    using c1(1,3) c2(1,3) c3 assms(4)
    by (simp add: lock_init_def sema_init_def lock_free_def size up k u)
      (use A B C in \<open>simp add: bm_size_def\<close>)
qed

end
