(* ===== verification/Kernel_Pages.thy ===== *)
theory Kernel_Pages
  imports Kernel_Memory
begin

text \<open>
  The correctness of the page allocator of \<open>kernel/memory.c\<close> for the kernel: the invariant that ties the
  bitmap of virtual pages, the bitmap of frames and the page tables together, and what allocating a page
  (\<open>malloc_page\<close>, \<open>get_kernel_pages\<close>) and freeing one (\<open>mfree_page\<close>) do to it.
\<close>

unbundle bit_operations_syntax

subsection \<open>Frames and pages of the kernel\<close>

definition nth_page :: "u32 \<Rightarrow> nat \<Rightarrow> u32" where
  "nth_page start i = start + word_of_nat i * PG_SIZE"

definition kpage :: "'z kmem_scheme \<Rightarrow> nat \<Rightarrow> u32" where
  "kpage s i = nth_page (vaddr_start (kernel_vaddr s)) i"

definition frame_no :: "pool \<Rightarrow> nat \<Rightarrow> u32" where
  "frame_no p j = nth_page (phy_addr_start p) j"

definition range_ok :: "u32 \<Rightarrow> bitmap \<Rightarrow> bool" where
  "range_ok start b \<longleftrightarrow> bm_wf b \<and> aligned start \<and> start \<noteq> 0 \<and> unat start + bm_size b * 4096 < 2 ^ 32"

lemma unat_nth_page:
  assumes "range_ok start b" and "i < bm_size b"
  shows "unat (nth_page start i) = unat start + i * 4096"
proof -
  have i: "i * 4096 < 2 ^ 32" "unat start + i * 4096 < 2 ^ 32" using assms by (auto simp: range_ok_def)
  have u: "unat (word_of_nat i :: u32) = i" using i by (simp add: unat_of_nat)
  have "unat (word_of_nat i * PG_SIZE :: u32) = i * 4096"
    using unat_mult_small [of "word_of_nat i" PG_SIZE] i(1) u by (simp add: PG_SIZE_def)
  then show ?thesis using unat_add_small [of start "word_of_nat i * PG_SIZE"] i(2) by (simp add: nth_page_def)
qed

lemma nth_page_inj:
  "range_ok start b \<Longrightarrow> i < bm_size b \<Longrightarrow> j < bm_size b \<Longrightarrow> nth_page start i = nth_page start j \<longleftrightarrow> i = j"
  by (metis add_left_cancel mult_cancel2 unat_nth_page zero_neq_numeral)

lemma nth_page_nz: "range_ok start b \<Longrightarrow> i < bm_size b \<Longrightarrow> nth_page start i \<noteq> 0"
proof -
  assume a: "range_ok start b" "i < bm_size b"
  have "unat start \<noteq> 0" using a(1) by (simp add: range_ok_def unat_eq_0)
  then have "unat (nth_page start i) \<noteq> 0" using unat_nth_page [OF a] by linarith
  then show ?thesis by (metis unat_0)
qed

lemma nth_page_idx:
  assumes "range_ok start b" and "i < bm_size b"
  shows "(nth_page start i - start) div PG_SIZE = word_of_nat i"
proof -
  have "i < 2 ^ 32" using assms by (auto simp: range_ok_def)
  moreover have "unat (word_of_nat i * PG_SIZE :: u32) = i * 4096"
    using unat_mult_small [of "word_of_nat i" PG_SIZE] assms by (auto simp: range_ok_def PG_SIZE_def unat_of_nat)
  ultimately have "unat ((word_of_nat i * PG_SIZE) div PG_SIZE :: u32) = unat (word_of_nat i :: u32)"
    by (simp add: unat_div_distrib PG_SIZE_def unat_of_nat)
  then show ?thesis unfolding nth_page_def by (simp add: word_unat_eq_iff)
qed

lemma aligned_mod: "aligned p \<longleftrightarrow> unat p mod 4096 = 0"
proof -
  have "p AND 0xfff = take_bit 12 p" by (simp add: take_bit_eq_mask mask_eq_exp_minus_1)
  then have m: "unat (p AND 0xfff) = unat p mod 4096" by (simp add: take_bit_eq_mod unat_mod_distrib)
  have "aligned p \<longleftrightarrow> p AND 0xfff = 0"
  proof
    assume a: "aligned p"
    then show "p AND 0xfff = 0" using page_plus_simps(2) [OF a, of 0] by simp
  next
    assume z: "p AND 0xfff = 0"
    have nb: "\<not> bit p n" if "n < 12" for n
    proof -
      have "bit (p AND 0xfff) n \<longleftrightarrow> bit p n \<and> n < 12" unfolding bit_and_iff bit_masks(4) ..
      then show ?thesis using that unfolding z by simp
    qed
    show "aligned p" unfolding aligned_def
      by (rule bit_eqI) (metis bit_frame_of nb not_le)
  qed
  also have "\<dots> \<longleftrightarrow> unat (p AND 0xfff) = 0" by (simp add: unat_eq_0)
  finally show ?thesis unfolding m .
qed

lemma nth_page_aligned: "range_ok start b \<Longrightarrow> i < bm_size b \<Longrightarrow> aligned (nth_page start i)"
  using unat_nth_page [of start b i] by (simp add: aligned_mod range_ok_def)

lemma nth_page_same:
  assumes "range_ok start b" and "i < bm_size b" and "j < bm_size b"
  shows "same_page (nth_page start i) (nth_page start j) \<longleftrightarrow> i = j"
  using nth_page_aligned [OF assms(1,2)] nth_page_aligned [OF assms(1,3)] nth_page_inj [OF assms]
  by (simp add: same_page_frame aligned_def)

lemma bm_free_size: "i \<in> bm_free b \<Longrightarrow> i < bm_size b"
  by (simp add: bm_free_def)

lemma palloc_frame:
  assumes "range_ok (phy_addr_start (the_pool pf s)) (pool_bitmap (the_pool pf s))"
    and "bm_free (pool_bitmap (the_pool pf s)) \<noteq> {}"
  shows "\<exists>j b. palloc pf s = Some (frame_no (the_pool pf s) j, set_pool pf ((the_pool pf s)\<lparr>pool_bitmap := b\<rparr>) s) \<and>
    j \<in> bm_free (pool_bitmap (the_pool pf s)) \<and> bm_wf b \<and> bm_size b = bm_size (pool_bitmap (the_pool pf s)) \<and>
    bm_free b = bm_free (pool_bitmap (the_pool pf s)) - {j} \<and> frame_no (the_pool pf s) j \<noteq> 0"
proof -
  let ?p = "the_pool pf s" let ?b = "pool_bitmap ?p"
  have wf: "bm_wf ?b" using assms(1) by (simp add: range_ok_def)
  obtain j where j: "bitmap_scan ?b 1 = Some (int j)" "j \<in> bm_free ?b"
    using bitmap_scan_free [OF wf assms(2)] by blast
  then have sz: "j < bm_size ?b" by (simp add: bm_free_def)
  obtain b where b: "bitmap_set ?b j 1 = Some b" "bm_wf b" "bm_size b = bm_size ?b" "bm_free b = bm_free ?b - {j}"
    using bitmap_mark [OF wf sz] by blast
  have "palloc pf s = Some (frame_no ?p j, set_pool pf (?p\<lparr>pool_bitmap := b\<rparr>) s)"
    using j b by (simp add: palloc_def Let_def frame_no_def nth_page_def add.commute)
  moreover have "frame_no ?p j \<noteq> 0"
    using nth_page_nz [OF assms(1) sz] by (simp add: frame_no_def)
  ultimately show ?thesis using j b by blast
qed

lemma page_table_add_present:
  assumes "self_mapped (mmu s)" and "own_table (mmu s) va" and "pde_present (mmu s) va"
    and "mmu_walk (mmu s) va = None" 
  shows "page_table_add va pa s =
    Some (s\<lparr>mmu := (mmu s)\<lparr>ram := (ram (mmu s))(pte_at (mmu s) va := pte_of pa)\<rparr>\<rparr>)"
proof -
  have "\<not> pte_present (mmu s) va" using assms(3,4) by (simp add: walk_simps split: if_splits)
  then have z: "ram (mmu s) (pte_at (mmu s) va) AND 1 = 0" by (simp add: pte_present_def)
  have p: "ram (mmu s) (pde_at (mmu s) va) AND 1 \<noteq> 0" using assms(3) by (simp add: pde_present_def)
  show ?thesis
    using assms(3) z p
    by (simp add: page_table_add_def Let_def load_pde [OF assms(1)] load_pte [OF assms(1)]
        store_pte [OF assms(1)] pte_of_def)
qed

subsection \<open>The invariant of the kernel's pages\<close>

text \<open>
  Every page of the kernel's virtual range has a page table of its own. A page whose bit is set is mapped to a
  frame of the kernel pool whose bit is set, no two pages to the same; a page whose bit is clear is not mapped.
  Neither the free frames nor the mapped ones hold page tables.
\<close>

definition kpages_ok :: "'z kmem_scheme \<Rightarrow> bool" where
  "kpages_ok s \<longleftrightarrow> (let vb = vaddr_bitmap (kernel_vaddr s); kb = pool_bitmap (kernel_pool s); m = mmu s in
     range_ok (vaddr_start (kernel_vaddr s)) vb \<and> range_ok (phy_addr_start (kernel_pool s)) kb \<and>
     self_mapped m \<and>
     (\<forall>i < bm_size vb. pde_present m (kpage s i) \<and> own_table m (kpage s i)) \<and>
     (\<forall>i \<in> bm_free vb. mmu_walk m (kpage s i) = None) \<and>
     (\<forall>i < bm_size vb. i \<notin> bm_free vb \<longrightarrow> (\<exists>j < bm_size kb. j \<notin> bm_free kb \<and>
        mmu_walk m (kpage s i) = Some (frame_no (kernel_pool s) j) \<and> frame_no (kernel_pool s) j \<notin> table_frames m)) \<and>
     (\<forall>i < bm_size vb. \<forall>i' < bm_size vb. mmu_walk m (kpage s i) = mmu_walk m (kpage s i') \<longrightarrow>
        mmu_walk m (kpage s i) = None \<or> i = i') \<and>
     (\<forall>j \<in> bm_free kb. frame_no (kernel_pool s) j \<notin> table_frames m))"

lemma kpages_okD:
  assumes "kpages_ok s"
  shows "range_ok (vaddr_start (kernel_vaddr s)) (vaddr_bitmap (kernel_vaddr s))"
    "range_ok (phy_addr_start (kernel_pool s)) (pool_bitmap (kernel_pool s))"
    "self_mapped (mmu s)"
    "i < bm_size (vaddr_bitmap (kernel_vaddr s)) \<Longrightarrow> pde_present (mmu s) (kpage s i)"
    "i < bm_size (vaddr_bitmap (kernel_vaddr s)) \<Longrightarrow> own_table (mmu s) (kpage s i)"
    "i \<in> bm_free (vaddr_bitmap (kernel_vaddr s)) \<Longrightarrow> mmu_walk (mmu s) (kpage s i) = None"
    "i < bm_size (vaddr_bitmap (kernel_vaddr s)) \<Longrightarrow> i \<notin> bm_free (vaddr_bitmap (kernel_vaddr s)) \<Longrightarrow>
       \<exists>j < bm_size (pool_bitmap (kernel_pool s)). j \<notin> bm_free (pool_bitmap (kernel_pool s)) \<and>
        mmu_walk (mmu s) (kpage s i) = Some (frame_no (kernel_pool s) j) \<and>
        frame_no (kernel_pool s) j \<notin> table_frames (mmu s)"
    "i < bm_size (vaddr_bitmap (kernel_vaddr s)) \<Longrightarrow> i' < bm_size (vaddr_bitmap (kernel_vaddr s)) \<Longrightarrow>
       mmu_walk (mmu s) (kpage s i) = mmu_walk (mmu s) (kpage s i') \<Longrightarrow> mmu_walk (mmu s) (kpage s i) = None \<or> i = i'"
    "j \<in> bm_free (pool_bitmap (kernel_pool s)) \<Longrightarrow> frame_no (kernel_pool s) j \<notin> table_frames (mmu s)"
  using assms unfolding kpages_ok_def Let_def by blast+

lemma kpages_okI:
  assumes "range_ok (vaddr_start (kernel_vaddr s)) (vaddr_bitmap (kernel_vaddr s))"
    "range_ok (phy_addr_start (kernel_pool s)) (pool_bitmap (kernel_pool s))"
    "self_mapped (mmu s)"
    "\<And>i. i < bm_size (vaddr_bitmap (kernel_vaddr s)) \<Longrightarrow> pde_present (mmu s) (kpage s i)"
    "\<And>i. i < bm_size (vaddr_bitmap (kernel_vaddr s)) \<Longrightarrow> own_table (mmu s) (kpage s i)"
    "\<And>i. i \<in> bm_free (vaddr_bitmap (kernel_vaddr s)) \<Longrightarrow> mmu_walk (mmu s) (kpage s i) = None"
    "\<And>i. i < bm_size (vaddr_bitmap (kernel_vaddr s)) \<Longrightarrow> i \<notin> bm_free (vaddr_bitmap (kernel_vaddr s)) \<Longrightarrow>
       \<exists>j < bm_size (pool_bitmap (kernel_pool s)). j \<notin> bm_free (pool_bitmap (kernel_pool s)) \<and>
        mmu_walk (mmu s) (kpage s i) = Some (frame_no (kernel_pool s) j) \<and>
        frame_no (kernel_pool s) j \<notin> table_frames (mmu s)"
    "\<And>i i'. i < bm_size (vaddr_bitmap (kernel_vaddr s)) \<Longrightarrow> i' < bm_size (vaddr_bitmap (kernel_vaddr s)) \<Longrightarrow>
       mmu_walk (mmu s) (kpage s i) = mmu_walk (mmu s) (kpage s i') \<Longrightarrow> mmu_walk (mmu s) (kpage s i) = None \<or> i = i'"
    "\<And>j. j \<in> bm_free (pool_bitmap (kernel_pool s)) \<Longrightarrow> frame_no (kernel_pool s) j \<notin> table_frames (mmu s)"
  shows "kpages_ok s"
  unfolding kpages_ok_def Let_def using assms by blast

text \<open>The invariant looks at the page tables, the two bitmaps and nothing else.\<close>

lemma kpages_ok_tables:
  assumes "kpages_ok s" and "cr3 (mmu s') = cr3 (mmu s)"
    and "\<forall>a. frame_of a \<in> table_frames (mmu s) \<longrightarrow> ram (mmu s') a = ram (mmu s) a"
    and "kernel_vaddr s' = kernel_vaddr s" and "kernel_pool s' = kernel_pool s"
  shows "kpages_ok s'"
proof -
  note t = same_tables [OF assms(2,3)]
  have k: "kpage s' = kpage s" by (simp add: fun_eq_iff kpage_def assms(4))
  show ?thesis using assms(1) unfolding kpages_ok_def Let_def k assms(4,5) t .
qed

text \<open>What allocating page \<open>i\<close> with frame \<open>j\<close> does.\<close>

definition page_added :: "nat \<Rightarrow> nat \<Rightarrow> 'z kmem_scheme \<Rightarrow> 'z kmem_scheme \<Rightarrow> bool" where
  "page_added i j s s' \<longleftrightarrow>
     i \<in> bm_free (vaddr_bitmap (kernel_vaddr s)) \<and> j \<in> bm_free (pool_bitmap (kernel_pool s)) \<and>
     bm_free (vaddr_bitmap (kernel_vaddr s')) = bm_free (vaddr_bitmap (kernel_vaddr s)) - {i} \<and>
     bm_free (pool_bitmap (kernel_pool s')) = bm_free (pool_bitmap (kernel_pool s)) - {j} \<and>
     bm_size (vaddr_bitmap (kernel_vaddr s')) = bm_size (vaddr_bitmap (kernel_vaddr s)) \<and>
     bm_size (pool_bitmap (kernel_pool s')) = bm_size (pool_bitmap (kernel_pool s)) \<and>
     vaddr_start (kernel_vaddr s') = vaddr_start (kernel_vaddr s) \<and>
     (\<forall>x. mmu_walk (mmu s') x = (if same_page x (kpage s i) then Some (frame_no (kernel_pool s) j + (x AND 0xfff))
        else mmu_walk (mmu s) x)) \<and>
     table_frames (mmu s') = table_frames (mmu s) \<and>
     (\<forall>a. frame_of a \<notin> table_frames (mmu s) \<longrightarrow> ram (mmu s') a = ram (mmu s) a) \<and>
     frame_no (kernel_pool s) j \<notin> table_frames (mmu s) \<and>
     s' = s\<lparr>kernel_vaddr := kernel_vaddr s', mmu := mmu s',
       kernel_pool := (kernel_pool s)\<lparr>pool_bitmap := pool_bitmap (kernel_pool s')\<rparr>\<rparr>"

lemma page_added_walk:
  assumes "kpages_ok s" and "i < bm_size (vaddr_bitmap (kernel_vaddr s))"
    and "j < bm_size (pool_bitmap (kernel_pool s))"
    and "\<forall>x. mmu_walk m x = (if same_page x (kpage s i) then Some (frame_no (kernel_pool s) j + (x AND 0xfff))
        else mmu_walk (mmu s) x)"
    and "i' < bm_size (vaddr_bitmap (kernel_vaddr s))"
  shows "mmu_walk m (kpage s i') = (if i' = i then Some (frame_no (kernel_pool s) j) else mmu_walk (mmu s) (kpage s i'))"
proof -
  note r = kpages_okD(1) [OF assms(1)]
  have "kpage s i' AND 0xfff = 0"
    using page_plus_simps(2) [OF nth_page_aligned [OF r assms(5)], of 0] by (simp add: kpage_def)
  moreover have "same_page (kpage s i') (kpage s i) \<longleftrightarrow> i' = i"
    unfolding kpage_def by (rule nth_page_same [OF r assms(5,2)])
  ultimately show ?thesis using assms(4) by (cases "i' = i") simp_all
qed

text \<open>One page of the kernel.\<close>

lemma vaddr_get_one:
  assumes "range_ok (vaddr_start (kernel_vaddr s)) (vaddr_bitmap (kernel_vaddr s))"
    and "bm_free (vaddr_bitmap (kernel_vaddr s)) \<noteq> {}"
  shows "\<exists>i b. vaddr_get PF_KERNEL 1 s = Some (kpage s i, s\<lparr>kernel_vaddr := (kernel_vaddr s)\<lparr>vaddr_bitmap := b\<rparr>\<rparr>) \<and>
    i \<in> bm_free (vaddr_bitmap (kernel_vaddr s)) \<and> bm_wf b \<and> bm_size b = bm_size (vaddr_bitmap (kernel_vaddr s)) \<and>
    bm_free b = bm_free (vaddr_bitmap (kernel_vaddr s)) - {i}"
proof -
  let ?b = "vaddr_bitmap (kernel_vaddr s)"
  have wf: "bm_wf ?b" using assms(1) by (simp add: range_ok_def)
  obtain i where i: "bitmap_scan ?b 1 = Some (int i)" "i \<in> bm_free ?b"
    using bitmap_scan_free [OF wf assms(2)] by blast
  then have sz: "i < bm_size ?b" by (simp add: bm_free_def)
  obtain b where b: "bitmap_set ?b i 1 = Some b" "bm_wf b" "bm_size b = bm_size ?b" "bm_free b = bm_free ?b - {i}"
    using bitmap_mark [OF wf sz] by blast
  have "set_bits i (unat (1 :: u32)) 1 ?b = Some b" using b(1) by simp
  then have "vaddr_get PF_KERNEL 1 s = Some (kpage s i, s\<lparr>kernel_vaddr := (kernel_vaddr s)\<lparr>vaddr_bitmap := b\<rparr>\<rparr>)"
    using i by (simp add: vaddr_get_def kpage_def nth_page_def)
  with i b show ?thesis by blast
qed

lemma malloc_kpage:
  assumes ok: "kpages_ok s" and "bm_free (vaddr_bitmap (kernel_vaddr s)) \<noteq> {}"
    and "bm_free (pool_bitmap (kernel_pool s)) \<noteq> {}"
  shows "\<exists>i j s'. malloc_page PF_KERNEL 1 s = Some (kpage s i, s') \<and> page_added i j s s' \<and> kpages_ok s'"
proof -
  note D = kpages_okD [OF ok]
  obtain i b where i: "vaddr_get PF_KERNEL 1 s = Some (kpage s i, s\<lparr>kernel_vaddr := (kernel_vaddr s)\<lparr>vaddr_bitmap := b\<rparr>\<rparr>)"
      "i \<in> bm_free (vaddr_bitmap (kernel_vaddr s))" "bm_wf b" "bm_size b = bm_size (vaddr_bitmap (kernel_vaddr s))"
      "bm_free b = bm_free (vaddr_bitmap (kernel_vaddr s)) - {i}"
    using vaddr_get_one [OF D(1) assms(2)] by blast
  let ?s1 = "s\<lparr>kernel_vaddr := (kernel_vaddr s)\<lparr>vaddr_bitmap := b\<rparr>\<rparr>"
  have isz: "i < bm_size (vaddr_bitmap (kernel_vaddr s))" using i(2) by (simp add: bm_free_def)
  obtain j c where j: "palloc PF_KERNEL ?s1 = Some (frame_no (kernel_pool s) j,
        set_pool PF_KERNEL ((kernel_pool s)\<lparr>pool_bitmap := c\<rparr>) ?s1)"
      "j \<in> bm_free (pool_bitmap (kernel_pool s))" "bm_wf c" "bm_size c = bm_size (pool_bitmap (kernel_pool s))"
      "bm_free c = bm_free (pool_bitmap (kernel_pool s)) - {j}" "frame_no (kernel_pool s) j \<noteq> 0"
    using palloc_frame [of PF_KERNEL ?s1] D(2) assms(3) by (auto simp: the_pool_def)
  have jsz: "j < bm_size (pool_bitmap (kernel_pool s))" using j(2) by (simp add: bm_free_def)
  let ?s2 = "?s1\<lparr>kernel_pool := (kernel_pool s)\<lparr>pool_bitmap := c\<rparr>\<rparr>"
  let ?m = "mmu s" let ?va = "kpage s i" let ?pa = "frame_no (kernel_pool s) j"
  let ?m' = "?m\<lparr>ram := (ram ?m)(pte_at ?m ?va := pte_of ?pa)\<rparr>"
  let ?s' = "?s2\<lparr>mmu := ?m'\<rparr>"
  have al: "aligned ?pa" unfolding frame_no_def by (rule nth_page_aligned [OF D(2) jsz])
  have "page_table_add ?va ?pa ?s2 = Some ?s'"
    using page_table_add_present [of ?s2 ?va ?pa] D(3) D(4,5) [OF isz] D(6) [OF i(2)] by simp
  moreover have "?va \<noteq> 0" unfolding kpage_def by (rule nth_page_nz [OF D(1) isz])
  ultimately have run: "malloc_page PF_KERNEL 1 s = Some (?va, ?s')"
    using i(1) j(1,6) by (simp add: malloc_page_def set_pool_def)
  note walk = enter_page(1) [OF D(5) [OF isz] D(4) [OF isz] al refl]
  note tabs = enter_page(2) [OF D(5) [OF isz] D(4) [OF isz] al refl]
  have slot: "frame_of (pte_at ?m ?va) \<in> table_frames ?m"
    unfolding frame_of_slots using D(4) [OF isz] by (auto simp: table_frames_def)
  have added: "page_added i j s ?s'"
    unfolding page_added_def using i j walk tabs slot D(9) [OF j(2)] by auto
  have pw: "mmu_walk ?m' (kpage s i') = (if i' = i then Some ?pa else mmu_walk ?m (kpage s i'))"
    if "i' < bm_size (vaddr_bitmap (kernel_vaddr s))" for i'
    by (rule page_added_walk [OF ok isz jsz _ that]) (simp add: walk)
  note keep = set_pte_tables [OF D(5) [OF isz] refl, of "pte_of ?pa"]
  define m' where "m' = ?m'"
  note keep = keep [folded m'_def] and tabs = tabs [folded m'_def] and pw = pw [folded m'_def]
  have f: "vaddr_start (kernel_vaddr ?s') = vaddr_start (kernel_vaddr s)" "vaddr_bitmap (kernel_vaddr ?s') = b"
      "phy_addr_start (kernel_pool ?s') = phy_addr_start (kernel_pool s)" "pool_bitmap (kernel_pool ?s') = c"
      "mmu ?s' = m'" "kpage ?s' = kpage s" "frame_no (kernel_pool ?s') = frame_no (kernel_pool s)"
    by (simp_all add: m'_def kpage_def frame_no_def fun_eq_iff)
  have "kpages_ok ?s'"
  proof (rule kpages_okI, unfold f)
    show "range_ok (vaddr_start (kernel_vaddr s)) b" "range_ok (phy_addr_start (kernel_pool s)) c"
      using D(1,2) i(3,4) j(3,4) by (simp_all add: range_ok_def)
    show "self_mapped m'" using keep(3) D(3) by simp
    fix i' assume i': "i' < bm_size b"
    show "pde_present m' (kpage s i')" "own_table m' (kpage s i')" using keep D(4,5) i' i(4) by simp_all
  next
    fix i' assume "i' \<in> bm_free b"
    then have "i' \<in> bm_free (vaddr_bitmap (kernel_vaddr s))" "i' \<noteq> i" using i(5) by auto
    then show "mmu_walk m' (kpage s i') = None" using pw [of i'] D(6) [of i'] bm_free_size [of i'] by simp
  next
    fix i' assume i': "i' < bm_size b" "i' \<notin> bm_free b"
    show "\<exists>j' < bm_size c. j' \<notin> bm_free c \<and> mmu_walk m' (kpage s i') = Some (frame_no (kernel_pool s) j') \<and>
        frame_no (kernel_pool s) j' \<notin> table_frames m'"
      using i' pw [of i'] D(7) [of i'] D(9) [OF j(2)] j(4,5) jsz i(4,5) tabs by (cases "i' = i") auto
  next
    have other: "mmu_walk ?m (kpage s i') \<noteq> Some ?pa" if "i' < bm_size (vaddr_bitmap (kernel_vaddr s))" for i'
      using D(6) [of i'] D(7) [OF that] nth_page_inj [OF D(2) jsz] j(2) unfolding frame_no_def
      by (metis option.distinct(1) option.inject)
    fix i1 i2 assume "i1 < bm_size b" "i2 < bm_size b" "mmu_walk m' (kpage s i1) = mmu_walk m' (kpage s i2)"
    then show "mmu_walk m' (kpage s i1) = None \<or> i1 = i2"
      using pw [of i1] pw [of i2] other [of i1] other [of i2] D(8) [of i1 i2] i(4) by (simp split: if_splits)
  next
    fix j' assume "j' \<in> bm_free c"
    then show "frame_no (kernel_pool s) j' \<notin> table_frames m'" using D(9) [of j'] j(5) tabs by simp
  qed
  then show ?thesis using run added by blast
qed

lemma clear_kpage:
  assumes "mmu_walk (mmu s) p = Some pa" and "aligned p" and "pa \<notin> table_frames (mmu s)"
  shows "clear p PG_SIZE s = Some (s\<lparr>mmu := clear_words pa 0 1024 (mmu s)\<rparr>)"
    and "kpages_ok s \<Longrightarrow> kpages_ok (s\<lparr>mmu := clear_words pa 0 1024 (mmu s)\<rparr>)"
proof -
  show "clear p PG_SIZE s = Some (s\<lparr>mmu := clear_words pa 0 1024 (mmu s)\<rparr>)"
    using clear_page(1) [OF assms] by (simp add: clear_def PG_SIZE_def)
  have pa: "aligned pa" using walk_in_page(2) [OF assms(1,2), of 0] by simp
  note t = clear_words_tables [OF pa assms(3), of 0 1024]
  show "kpages_ok (s\<lparr>mmu := clear_words pa 0 1024 (mmu s)\<rparr>)" if "kpages_ok s"
    by (rule kpages_ok_tables [OF that]) (use t in simp_all)
qed

text \<open>Nothing of the pages depends on the locks.\<close>

lemma kpages_ok_fields:
  "mmu s' = mmu s \<Longrightarrow> kernel_vaddr s' = kernel_vaddr s \<Longrightarrow> kernel_pool s' = kernel_pool s \<Longrightarrow>
   kpages_ok s' = kpages_ok s"
  using kpages_ok_tables [of s s'] kpages_ok_tables [of s' s] by auto

text \<open>A free lock taken, and given back by the task that took it.\<close>

definition unheld :: "u32 \<Rightarrow> 'z kstate_scheme \<Rightarrow> 'z kstate_scheme" where
  "unheld p s = s\<lparr>locks := (locks s)(p \<mapsto> \<lparr>holder = 0, holder_repeat_nr = 0\<rparr>),
     semas := (semas s)(lock_sema p \<mapsto> \<lparr>value = 1, waiters = []\<rparr>)\<rparr>"

lemma lock_release_held:
  assumes "locks s = locks (held_by p (running s) s0)" and "semas s = semas (held_by p (running s) s0)"
  shows "lock_release_now p s = Some (unheld p s)" and "lock_free p (unheld p s)"
  using lock_release_now_held [of s p] assms by (simp_all add: held_by_def unheld_def lock_free_def)

lemma lock_frame [simp]:
  "running (held_by p t s) = running s" "tasks (held_by p t s) = tasks s" "mmu (held_by p t s) = mmu s"
  "running (unheld p s) = running s" "tasks (unheld p s) = tasks s" "mmu (unheld p s) = mmu s"
  by (simp_all add: held_by_def unheld_def)

lemma lock_frame_mem [simp]:
  "kernel_pool (held_by p t s) = kernel_pool s" "user_pool (held_by p t s) = user_pool s"
  "kernel_vaddr (held_by p t s) = kernel_vaddr s" "k_block_descs (held_by p t s) = k_block_descs s"
  "arenas (held_by p t s) = arenas s"
  "kernel_pool (unheld p s) = kernel_pool s" "user_pool (unheld p s) = user_pool s"
  "kernel_vaddr (unheld p s) = kernel_vaddr s" "k_block_descs (unheld p s) = k_block_descs s"
  "arenas (unheld p s) = arenas s"
  by (simp_all add: held_by_def unheld_def)

text \<open>One page from the kernel's heap.\<close>

text \<open>What a call that takes one kernel page changes of the state.\<close>

lemma unheld_fields:
  assumes "s2 = (held_by l t s)\<lparr>kernel_vaddr := v, mmu := m, kernel_pool := (kernel_pool s)\<lparr>pool_bitmap := b\<rparr>\<rparr>"
    and "s' = unheld l (s2\<lparr>mmu := m'\<rparr>)"
  shows "s' = s\<lparr>locks := locks s', semas := semas s', kernel_vaddr := kernel_vaddr s', mmu := mmu s',
    kernel_pool := (kernel_pool s)\<lparr>pool_bitmap := pool_bitmap (kernel_pool s')\<rparr>\<rparr>"
  unfolding assms by (simp add: held_by_def unheld_def)

lemma get_kernel_page:
  assumes "kpages_ok s" and "bm_free (vaddr_bitmap (kernel_vaddr s)) \<noteq> {}"
    and "bm_free (pool_bitmap (kernel_pool s)) \<noteq> {}"
    and "lock_free (pool_lock (kernel_pool s)) s" and "running s \<noteq> 0"
  obtains i pa s' where "get_kernel_pages 1 s = Some (kpage s i, s')" "kpages_ok s'"
    "lock_free (pool_lock (kernel_pool s)) s'" "i \<in> bm_free (vaddr_bitmap (kernel_vaddr s))"
    "\<forall>i < bm_size (vaddr_bitmap (kernel_vaddr s)). mmu_walk (mmu s) (kpage s i) \<noteq> Some pa"
    "aligned (kpage s i)" "kpage s i \<noteq> 0" "aligned pa" "pa \<notin> table_frames (mmu s')"
    "\<forall>x. mmu_walk (mmu s') x = (if same_page x (kpage s i) then Some (pa + (x AND 0xfff)) else mmu_walk (mmu s) x)"
    "\<forall>k < 1024. ram (mmu s') (pa + word_off k) = 0" "table_frames (mmu s') = table_frames (mmu s)"
    "\<forall>a. frame_of a \<noteq> pa \<and> frame_of a \<notin> table_frames (mmu s) \<longrightarrow> ram (mmu s') a = ram (mmu s) a"
    "s' = s\<lparr>locks := locks s', semas := semas s', kernel_vaddr := kernel_vaddr s', mmu := mmu s',
       kernel_pool := (kernel_pool s)\<lparr>pool_bitmap := pool_bitmap (kernel_pool s')\<rparr>\<rparr>"
    "\<forall>p. lock_free p s \<longrightarrow> lock_free p s'"
proof -
  let ?l = "pool_lock (kernel_pool s)" let ?h = "held_by ?l (running s) s"
  note D = kpages_okD [OF assms(1)]
  have kh: "kpages_ok ?h" using assms(1) kpages_ok_fields [of ?h s] by simp
  obtain i j s2 where s2: "malloc_page PF_KERNEL 1 ?h = Some (kpage s i, s2)" "page_added i j ?h s2" "kpages_ok s2"
    using malloc_kpage [OF kh] assms(2,3) by (auto simp: kpage_def)
  have i: "i \<in> bm_free (vaddr_bitmap (kernel_vaddr s))" and j: "j \<in> bm_free (pool_bitmap (kernel_pool s))"
    using s2(2) by (simp_all add: page_added_def)
  have eq: "s2 = ?h\<lparr>kernel_vaddr := kernel_vaddr s2, mmu := mmu s2,
      kernel_pool := (kernel_pool s)\<lparr>pool_bitmap := pool_bitmap (kernel_pool s2)\<rparr>\<rparr>"
    using s2(2) unfolding page_added_def by (metis lock_frame_mem(1))
  let ?va = "kpage s i" let ?pa = "frame_no (kernel_pool s) j"
  note al = nth_page_aligned [OF D(1) bm_free_size [OF i], folded kpage_def]
  note pal = nth_page_aligned [OF D(2) bm_free_size [OF j], folded frame_no_def]
  have w: "\<forall>x. mmu_walk (mmu s2) x = (if same_page x ?va then Some (?pa + (x AND 0xfff)) else mmu_walk (mmu s) x)"
    and nt: "?pa \<notin> table_frames (mmu s2)" "table_frames (mmu s2) = table_frames (mmu s)"
    and keep: "\<forall>a. frame_of a \<notin> table_frames (mmu s) \<longrightarrow> ram (mmu s2) a = ram (mmu s) a"
    using s2(2) by (simp_all add: page_added_def kpage_def)
  have "?va AND 0xfff = 0" using page_plus_simps(2) [OF al, of 0] by simp
  then have wva: "mmu_walk (mmu s2) ?va = Some ?pa" using w by (simp add: same_page_def)
  let ?m3 = "clear_words ?pa 0 1024 (mmu s2)" let ?s3 = "s2\<lparr>mmu := ?m3\<rparr>"
  note c = clear_kpage [OF wva al nt(1)]
  note z = clear_page [OF wva al nt(1)]
  note ct = clear_words_tables [OF pal nt(1), of 0 1024]
  have w3: "mmu_walk ?m3 x = mmu_walk (mmu s2) x" for x by (rule same_tables(6)) (use ct in auto)
  have t3: "table_frames ?m3 = table_frames (mmu s2)" by (rule same_tables(9)) (use ct in auto)
  have rel: "lock_release_now ?l ?s3 = Some (unheld ?l ?s3)" "lock_free ?l (unheld ?l ?s3)"
    using lock_release_held [of ?s3 ?l s] arg_cong [OF eq, of locks] arg_cong [OF eq, of semas] arg_cong [OF eq, of running]
    by simp_all
  have nz: "?va \<noteq> 0" unfolding kpage_def by (rule nth_page_nz [OF D(1) bm_free_size [OF i]])
  then have run: "get_kernel_pages 1 s = Some (?va, unheld ?l ?s3)"
    using lock_acquire_now_free [OF assms(4,5)] s2(1) c(1) rel(1)
    by (simp add: get_kernel_pages_def get_pages_def the_pool_def Let_def)
  have other: "mmu_walk (mmu s) (kpage s i') \<noteq> Some ?pa" if "i' < bm_size (vaddr_bitmap (kernel_vaddr s))" for i'
    using D(6) [of i'] D(7) [OF that] nth_page_inj [OF D(2) bm_free_size [OF j]] j unfolding frame_no_def
    by (metis option.distinct(1) option.inject)
  have ok: "kpages_ok (unheld ?l ?s3)" using c(2) [OF s2(3)] kpages_ok_fields [of "unheld ?l ?s3" ?s3] by simp
  have fields: "unheld ?l ?s3 = s\<lparr>locks := locks (unheld ?l ?s3), semas := semas (unheld ?l ?s3),
      kernel_vaddr := kernel_vaddr (unheld ?l ?s3), mmu := mmu (unheld ?l ?s3),
      kernel_pool := (kernel_pool s)\<lparr>pool_bitmap := pool_bitmap (kernel_pool (unheld ?l ?s3))\<rparr>\<rparr>"
    by (rule unheld_fields [OF eq refl])
  have free: "lock_free p (unheld ?l ?s3)" if "lock_free p s" for p
    using that arg_cong [OF eq, of locks] arg_cong [OF eq, of semas] by (auto simp: lock_free_def held_by_def unheld_def)
  show thesis
    by (rule that [OF run ok rel(2) i _ al nz pal])
      (use other w w3 z(2,3) keep nt t3 fields free in simp_all)
qed


subsection \<open>Giving a page back\<close>

lemma pte_remove_eq:
  assumes "self_mapped m" and "pde_present m va"
  shows "page_table_pte_remove va m =
    Some (m\<lparr>ram := (ram m)(pte_at m va := ram m (pte_at m va) AND NOT PG_P_1)\<rparr>)"
    and "(ram m (pte_at m va) AND NOT PG_P_1) AND 1 = 0"
proof -
  show "page_table_pte_remove va m = Some (m\<lparr>ram := (ram m)(pte_at m va := ram m (pte_at m va) AND NOT PG_P_1)\<rparr>)"
    using assms by (simp add: page_table_pte_remove_def load_pte store_pte)
  show "(ram m (pte_at m va) AND NOT PG_P_1) AND 1 = 0"
    by (rule bit_eqI) (auto simp: bit_simps PG_P_1_def)
qed

definition pools_apart :: "'z kmem_scheme \<Rightarrow> bool" where
  "pools_apart s \<longleftrightarrow> 0x102000 \<le> phy_addr_start (kernel_pool s) \<and>
     unat (phy_addr_start (kernel_pool s)) + bm_size (pool_bitmap (kernel_pool s)) * 4096 \<le>
     unat (phy_addr_start (user_pool s))"

lemma kernel_frame_bounds:
  assumes "range_ok (phy_addr_start (kernel_pool s)) (pool_bitmap (kernel_pool s))" and "pools_apart s"
    and "j < bm_size (pool_bitmap (kernel_pool s))"
  shows "frame_no (kernel_pool s) j \<ge> phy_addr_start (kernel_pool s)"
    "frame_no (kernel_pool s) j < phy_addr_start (user_pool s)" "frame_no (kernel_pool s) j \<ge> 0x102000"
    "frame_no (kernel_pool s) j mod PG_SIZE = 0"
proof -
  note u = unat_nth_page [OF assms(1,3)]
  show g: "frame_no (kernel_pool s) j \<ge> phy_addr_start (kernel_pool s)"
    "frame_no (kernel_pool s) j < phy_addr_start (user_pool s)"
    using u assms(2,3) by (simp_all add: frame_no_def word_le_nat_alt word_less_nat_alt pools_apart_def)
  show "frame_no (kernel_pool s) j \<ge> 0x102000" using g(1) assms(2) order_trans unfolding pools_apart_def by blast
  have "unat (frame_no (kernel_pool s) j mod PG_SIZE) = 0"
    using nth_page_aligned [OF assms(1,3)] by (simp add: frame_no_def aligned_mod unat_mod_distrib PG_SIZE_def)
  then show "frame_no (kernel_pool s) j mod PG_SIZE = 0" by (simp add: unat_eq_0)
qed

definition page_removed :: "nat \<Rightarrow> nat \<Rightarrow> 'z kmem_scheme \<Rightarrow> 'z kmem_scheme \<Rightarrow> bool" where
  "page_removed i j s s' \<longleftrightarrow>
     mmu_walk (mmu s) (kpage s i) = Some (frame_no (kernel_pool s) j) \<and>
     bm_free (vaddr_bitmap (kernel_vaddr s')) = insert i (bm_free (vaddr_bitmap (kernel_vaddr s))) \<and>
     bm_free (pool_bitmap (kernel_pool s')) = insert j (bm_free (pool_bitmap (kernel_pool s))) \<and>
     bm_size (vaddr_bitmap (kernel_vaddr s')) = bm_size (vaddr_bitmap (kernel_vaddr s)) \<and>
     bm_size (pool_bitmap (kernel_pool s')) = bm_size (pool_bitmap (kernel_pool s)) \<and>
     vaddr_start (kernel_vaddr s') = vaddr_start (kernel_vaddr s) \<and>
     (\<forall>x. mmu_walk (mmu s') x = (if same_page x (kpage s i) then None else mmu_walk (mmu s) x)) \<and>
     table_frames (mmu s') = table_frames (mmu s) \<and>
     (\<forall>a. frame_of a \<notin> table_frames (mmu s) \<longrightarrow> ram (mmu s') a = ram (mmu s) a) \<and>
     s' = s\<lparr>kernel_vaddr := kernel_vaddr s', mmu := mmu s',
       kernel_pool := (kernel_pool s)\<lparr>pool_bitmap := pool_bitmap (kernel_pool s')\<rparr>\<rparr>"

lemma free_kpage:
  assumes ok: "kpages_ok s" and apart: "pools_apart s"
    and isz: "i < bm_size (vaddr_bitmap (kernel_vaddr s))" and used: "i \<notin> bm_free (vaddr_bitmap (kernel_vaddr s))"
  shows "\<exists>j s'. mfree_page PF_KERNEL (kpage s i) 1 s = Some s' \<and> j < bm_size (pool_bitmap (kernel_pool s)) \<and>
    j \<notin> bm_free (pool_bitmap (kernel_pool s)) \<and> page_removed i j s s' \<and> kpages_ok s'"
proof -
  note D = kpages_okD [OF ok]
  obtain j where j: "j < bm_size (pool_bitmap (kernel_pool s))" "j \<notin> bm_free (pool_bitmap (kernel_pool s))"
      "mmu_walk (mmu s) (kpage s i) = Some (frame_no (kernel_pool s) j)"
      "frame_no (kernel_pool s) j \<notin> table_frames (mmu s)"
    using D(7) [OF isz used] by blast
  let ?m = "mmu s" let ?va = "kpage s i" let ?pa = "frame_no (kernel_pool s) j"
  note fb = kernel_frame_bounds [OF D(2) apart j(1)]
  obtain c where c: "bitmap_set (pool_bitmap (kernel_pool s)) j 0 = Some c" "bm_wf c"
      "bm_size c = bm_size (pool_bitmap (kernel_pool s))" "bm_free c = insert j (bm_free (pool_bitmap (kernel_pool s)))"
    using bitmap_unmark [OF _ j(1)] D(2) by (auto simp: range_ok_def)
  obtain b where b: "bitmap_set (vaddr_bitmap (kernel_vaddr s)) i 0 = Some b" "bm_wf b"
      "bm_size b = bm_size (vaddr_bitmap (kernel_vaddr s))" "bm_free b = insert i (bm_free (vaddr_bitmap (kernel_vaddr s)))"
    using bitmap_unmark [OF _ isz] D(1) by (auto simp: range_ok_def)
  have ui: "unat (word_of_nat i :: u32) = i" if "range_ok st bm" "i < bm_size bm" for st bm i
    using that by (auto simp: range_ok_def unat_of_nat)
  have pf: "pfree ?pa s = Some (s\<lparr>kernel_pool := (kernel_pool s)\<lparr>pool_bitmap := c\<rparr>\<rparr>)"
    using not_le [THEN iffD2, OF fb(2)] c(1) nth_page_idx [OF D(2) j(1)] ui [OF D(2) j(1)]
    by (simp add: pfree_def Let_def the_pool_def set_pool_def frame_no_def)
  define m' where "m' = ?m\<lparr>ram := (ram ?m)(pte_at ?m ?va := ram ?m (pte_at ?m ?va) AND NOT PG_P_1)\<rparr>"
  have rm: "page_table_pte_remove ?va ?m = Some m'"
    unfolding m'_def by (rule pte_remove_eq(1) [OF D(3) D(4) [OF isz]])
  let ?s' = "s\<lparr>kernel_pool := (kernel_pool s)\<lparr>pool_bitmap := c\<rparr>, mmu := m',
      kernel_vaddr := (kernel_vaddr s)\<lparr>vaddr_bitmap := b\<rparr>\<rparr>"
  have al: "aligned ?va" unfolding kpage_def by (rule nth_page_aligned [OF D(1) isz])
  have "unat (?va mod PG_SIZE) = 0" using al by (simp add: aligned_mod unat_mod_distrib PG_SIZE_def)
  then have vm: "?va mod PG_SIZE = 0" by (simp add: unat_eq_0)
  have a2p: "addr_v2p ?va ?m = Some ?pa" by (rule addr_v2p_walk [OF D(3) j(3)])
  have ff: "free_frames False ?va 1 s = Some (s\<lparr>kernel_pool := (kernel_pool s)\<lparr>pool_bitmap := c\<rparr>, mmu := m'\<rparr>)"
    using a2p fb pf rm by (simp add: not_le)
  have run: "mfree_page PF_KERNEL ?va 1 s = Some ?s'"
    using a2p fb ff vm b(1) nth_page_idx [OF D(1) isz] ui [OF D(1) isz]
    by (simp add: mfree_page_def vaddr_remove_def Let_def kpage_def not_le)
  note walk = set_pte_walk [OF D(5) [OF isz] D(4) [OF isz] m'_def]
  note keep = set_pte_tables [OF D(5) [OF isz] m'_def]
  have w: "mmu_walk m' x = (if same_page x ?va then None else mmu_walk ?m x)" for x
    using walk [of x] pte_remove_eq(2) [OF D(3) D(4) [OF isz]] by simp
  have tabs: "table_frames m' = table_frames ?m"
    unfolding table_frames_def keep by (simp add: m'_def)
  have slot: "frame_of (pte_at ?m ?va) \<in> table_frames ?m"
    unfolding frame_of_slots using D(4) [OF isz] by (auto simp: table_frames_def)
  have added: "page_removed i j s ?s'"
    unfolding page_removed_def using j b c w tabs slot by (auto simp: m'_def)
  have pw: "mmu_walk m' (kpage s i') = (if i' = i then None else mmu_walk ?m (kpage s i'))"
    if "i' < bm_size (vaddr_bitmap (kernel_vaddr s))" for i'
    using w [of "kpage s i'"] nth_page_same [OF D(1) that isz] by (simp add: kpage_def)
  have f: "vaddr_start (kernel_vaddr ?s') = vaddr_start (kernel_vaddr s)" "vaddr_bitmap (kernel_vaddr ?s') = b"
      "phy_addr_start (kernel_pool ?s') = phy_addr_start (kernel_pool s)" "pool_bitmap (kernel_pool ?s') = c"
      "mmu ?s' = m'" "kpage ?s' = kpage s" "frame_no (kernel_pool ?s') = frame_no (kernel_pool s)"
    by (simp_all add: m'_def kpage_def frame_no_def fun_eq_iff)
  have "kpages_ok ?s'"
  proof (rule kpages_okI, unfold f)
    show "range_ok (vaddr_start (kernel_vaddr s)) b" "range_ok (phy_addr_start (kernel_pool s)) c"
      using D(1,2) b(2,3) c(2,3) by (simp_all add: range_ok_def)
    show "self_mapped m'" using keep(3) D(3) by simp
    fix i' assume i': "i' < bm_size b"
    show "pde_present m' (kpage s i')" "own_table m' (kpage s i')" using keep D(4,5) i' b(3) by simp_all
  next
    fix i' assume "i' \<in> bm_free b"
    then show "mmu_walk m' (kpage s i') = None"
      using pw [of i'] D(6) [of i'] bm_free_size [of i' b] b(3,4) by auto
  next
    fix i' assume i': "i' < bm_size b" "i' \<notin> bm_free b"
    then have n: "i' \<noteq> i" "i' < bm_size (vaddr_bitmap (kernel_vaddr s))" "i' \<notin> bm_free (vaddr_bitmap (kernel_vaddr s))"
      using b(3,4) by auto
    obtain j' where j': "j' < bm_size (pool_bitmap (kernel_pool s))" "j' \<notin> bm_free (pool_bitmap (kernel_pool s))"
        "mmu_walk ?m (kpage s i') = Some (frame_no (kernel_pool s) j')"
        "frame_no (kernel_pool s) j' \<notin> table_frames ?m"
      using D(7) [OF n(2,3)] by blast
    moreover have "j' \<noteq> j" using D(8) [OF n(2) isz] j'(3) j(3) n(1) by auto
    ultimately show "\<exists>j' < bm_size c. j' \<notin> bm_free c \<and> mmu_walk m' (kpage s i') = Some (frame_no (kernel_pool s) j') \<and>
        frame_no (kernel_pool s) j' \<notin> table_frames m'"
      using pw [OF n(2)] n(1) c(3,4) tabs by auto
  next
    fix i1 i2 assume "i1 < bm_size b" "i2 < bm_size b" "mmu_walk m' (kpage s i1) = mmu_walk m' (kpage s i2)"
    then show "mmu_walk m' (kpage s i1) = None \<or> i1 = i2"
      using pw [of i1] pw [of i2] D(8) [of i1 i2] b(3) by (simp split: if_splits)
  next
    fix j' assume "j' \<in> bm_free c"
    then show "frame_no (kernel_pool s) j' \<notin> table_frames m'" using D(9) [of j'] c(4) j(4) tabs by auto
  qed
  then show ?thesis using run added j by blast
qed

end
