(* ===== verification/Kernel_Heap.thy ===== *)
theory Kernel_Heap
  imports Kernel_Pages
begin

text \<open>
  The correctness of the kernel heap of \<open>kernel/memory.c\<close>: the invariant of arenas, block descriptors and free
  lists; \<open>sys_malloc\<close> of at most 1024 bytes hands out a block that is not in use and overlaps none in
  use, \<open>sys_free\<close> takes it back and releases arenas that have become empty.
\<close>

unbundle bit_operations_syntax

subsection \<open>The invariant of the kernel heap\<close>

text \<open>
  \<open>A\<close> says which pages are arenas, and of which descriptor. Block \<open>k\<close> of an arena starts 12 bytes
  after the header, at word 3; the blocks of descriptor \<open>d\<close> are \<open>16 * 2 ^ d\<close> bytes, \<open>4 * 2 ^ d\<close> words long.
\<close>

definition bwords :: "nat \<Rightarrow> nat" where "bwords d = 4 * 2 ^ d"
definition bcount :: "nat \<Rightarrow> nat" where "bcount d = 1021 div bwords d"

definition blk :: "'z kmem_scheme \<Rightarrow> nat \<Rightarrow> nat \<Rightarrow> nat \<Rightarrow> u32" where
  "blk s d i k = kpage s i + word_off (3 + k * bwords d)"

definition flist :: "'z kmem_scheme \<Rightarrow> nat \<Rightarrow> u32 list" where
  "flist s d = free_list (k_block_descs s ! d)"

definition free_in :: "'z kmem_scheme \<Rightarrow> nat \<Rightarrow> nat \<Rightarrow> nat set" where
  "free_in s d i = {k. k < bcount d \<and> blk s d i k \<in> set (flist s d)}"

definition descs_ok :: "'z kmem_scheme \<Rightarrow> bool" where
  "descs_ok s \<longleftrightarrow> length (k_block_descs s) = DESC_CNT \<and>
     (\<forall>d < DESC_CNT. block_size (k_block_descs s ! d) = word_of_nat (4 * bwords d) \<and>
        blocks_per_arena (k_block_descs s ! d) = word_of_nat (bcount d))"

definition heap_ok :: "'z kmem_scheme \<Rightarrow> (nat \<rightharpoonup> nat) \<Rightarrow> bool" where
  "heap_ok s A \<longleftrightarrow> kpages_ok s \<and> pools_apart s \<and> descs_ok s \<and>
     (\<forall>i d. A i = Some d \<longrightarrow> d < DESC_CNT \<and> i < bm_size (vaddr_bitmap (kernel_vaddr s)) \<and>
        i \<notin> bm_free (vaddr_bitmap (kernel_vaddr s)) \<and>
        arena_at (kpage s i) s = Some \<lparr>arena_desc = Some (K_desc d),
          arena_cnt = word_of_nat (card (free_in s d i)), arena_large = 0\<rparr>) \<and>
     (\<forall>d < DESC_CNT. distinct (flist s d) \<and>
        (\<forall>b \<in> set (flist s d). \<exists>i k. A i = Some d \<and> k < bcount d \<and> b = blk s d i k))"

text \<open>The blocks in use.\<close>

definition live :: "'z kmem_scheme \<Rightarrow> (nat \<rightharpoonup> nat) \<Rightarrow> u32 set" where
  "live s A = {blk s d i k |d i k. A i = Some d \<and> k < bcount d \<and> blk s d i k \<notin> set (flist s d)}"

lemma liveI: "A i = Some d \<Longrightarrow> k < bcount d \<Longrightarrow> blk s d i k \<notin> set (flist s d) \<Longrightarrow> blk s d i k \<in> live s A"
  by (auto simp: live_def)

lemma liveE:
  assumes "b \<in> live s A"
  obtains d i k where "A i = Some d" "k < bcount d" "b = blk s d i k" "b \<notin> set (flist s d)"
  using assms by (auto simp: live_def)

lemma heap_okD:
  assumes "heap_ok s A"
  shows "kpages_ok s" "pools_apart s" "descs_ok s"
    "A i = Some d \<Longrightarrow> d < DESC_CNT" "A i = Some d \<Longrightarrow> i < bm_size (vaddr_bitmap (kernel_vaddr s))"
    "A i = Some d \<Longrightarrow> i \<notin> bm_free (vaddr_bitmap (kernel_vaddr s))"
    "A i = Some d \<Longrightarrow> arena_at (kpage s i) s = Some \<lparr>arena_desc = Some (K_desc d),
          arena_cnt = word_of_nat (card (free_in s d i)), arena_large = 0\<rparr>"
    "d < DESC_CNT \<Longrightarrow> distinct (flist s d)"
    "d < DESC_CNT \<Longrightarrow> b \<in> set (flist s d) \<Longrightarrow> \<exists>i k. A i = Some d \<and> k < bcount d \<and> b = blk s d i k"
  using assms unfolding heap_ok_def by blast+

lemma bwords_pos [simp]: "0 < bwords d"
  by (simp add: bwords_def)

lemma bcount_words: "k < bcount d \<Longrightarrow> k * bwords d + bwords d \<le> 1021"
proof -
  assume "k < bcount d"
  then have "Suc k \<le> bcount d" by simp
  then have "Suc k * bwords d \<le> bcount d * bwords d" by (rule mult_le_mono1)
  also have "\<dots> \<le> 1021" by (simp add: bcount_def)
  finally show ?thesis by simp
qed

lemma blk_word: "k < bcount d \<Longrightarrow> 3 + k * bwords d < 1024"
  using bcount_words [of k d] bwords_pos [of d] by linarith

lemma desc_table: "descs_ok s \<Longrightarrow> d < DESC_CNT \<Longrightarrow>
   unat (block_size (k_block_descs s ! d)) = 4 * bwords d \<and> unat (blocks_per_arena (k_block_descs s ! d)) = bcount d"
proof -
  assume a: "descs_ok s" "d < DESC_CNT"
  have "(2 :: nat) ^ d \<le> 2 ^ 6" using a(2) by (intro power_increasing) (simp_all add: DESC_CNT_def)
  then have w: "4 * bwords d < 2 ^ 32" by (simp add: bwords_def)
  have "bcount d \<le> 1021" by (simp add: bcount_def)
  then have c: "bcount d < 2 ^ 32" by simp
  have u: "unat (word_of_nat n :: u32) = n" if "n < 2 ^ 32" for n using that by (simp add: unat_of_nat)
  have "block_size (k_block_descs s ! d) = word_of_nat (4 * bwords d)"
      "blocks_per_arena (k_block_descs s ! d) = word_of_nat (bcount d)" using a by (auto simp: descs_ok_def)
  then show ?thesis using u [OF w] u [OF c] by metis
qed

text \<open>A block is the page of its arena and the number of the block.\<close>

lemma blk_page:
  assumes "kpages_ok s" and "i < bm_size (vaddr_bitmap (kernel_vaddr s))" and "k < bcount d"
  shows "block2arena (blk s d i k) = kpage s i" and "blk s d i k \<noteq> 0"
proof -
  have al: "aligned (kpage s i)" unfolding kpage_def by (rule nth_page_aligned [OF kpages_okD(1) [OF assms(1)] assms(2)])
  show b: "block2arena (blk s d i k) = kpage s i"
    using page_plus_simps(1) [OF al word_off_small [OF blk_word [OF assms(3)]]]
    by (simp add: block2arena_def frame_of_def blk_def)
  have "kpage s i \<noteq> 0" unfolding kpage_def by (rule nth_page_nz [OF kpages_okD(1) [OF assms(1)] assms(2)])
  then show "blk s d i k \<noteq> 0" using b by (metis and_zero_eq block2arena_def zero_and_eq)
qed

lemma blk_inj:
  assumes "kpages_ok s" and "i < bm_size (vaddr_bitmap (kernel_vaddr s))" and "i' < bm_size (vaddr_bitmap (kernel_vaddr s))"
    and "k < bcount d" and "k' < bcount d'" and "blk s d i k = blk s d' i' k'"
  shows "i = i'" and "d = d' \<Longrightarrow> k = k'"
proof -
  have "kpage s i = kpage s i'"
    using blk_page(1) [OF assms(1,2,4)] blk_page(1) [OF assms(1,3,5)] assms(6) by simp
  then show i: "i = i'" using nth_page_inj [OF kpages_okD(1) [OF assms(1)] assms(2,3)] by (simp add: kpage_def)
  show "k = k'" if "d = d'"
  proof -
    have "word_off (3 + k * bwords d) = word_off (3 + k' * bwords d)"
      using assms(6) i that by (simp add: blk_def)
    then have "3 + k * bwords d = 3 + k' * bwords d"
      using word_off_inj [OF blk_word blk_word] assms(4,5) that by blast
    then show ?thesis by (simp add: bwords_def)
  qed
qed

text \<open>The address \<open>arena2block\<close> computes.\<close>

lemma arena2block_blk:
  assumes "descs_ok s" and "d < DESC_CNT" and "arena_at (kpage s i) s = Some ar" and "arena_desc ar = Some (K_desc d)"
    and "k < bcount d"
  shows "arena2block (kpage s i) (word_of_nat k) s = Some (blk s d i k)"
proof -
  have bs: "block_size (k_block_descs s ! d) = word_of_nat (4 * bwords d)" and l: "d < length (k_block_descs s)"
    using assms(1,2) by (simp_all add: descs_ok_def)
  have "sizeof_arena + word_of_nat k * word_of_nat (4 * bwords d) = word_off (3 + k * bwords d)"
    by (simp add: sizeof_arena_def word_off_def distrib_left mult.left_commute)
  then show ?thesis
    using assms(3,4) l bs by (simp add: arena2block_def desc_of_def the_desc_def blk_def add.assoc)
qed

subsection \<open>Changing one arena\<close>

text \<open>
  The step all operations on blocks share: a free list changes only in blocks of the arena on page \<open>i\<close>,
  and that page's header records how many of them are free (or the page is no arena any more).
\<close>

lemma heap_ok_update:
  assumes ok: "heap_ok s A" and i: "i < bm_size (vaddr_bitmap (kernel_vaddr s))" "i \<notin> bm_free (vaddr_bitmap (kernel_vaddr s))"
    and d: "d < DESC_CNT" and Ai: "A i = None \<or> A i = Some d"
    and s': "kpages_ok s'" "pools_apart s'" "kernel_vaddr s' = kernel_vaddr s" "\<forall>x. mmu_walk (mmu s') x = mmu_walk (mmu s) x"
      "k_block_descs s' = (k_block_descs s)[d := (k_block_descs s ! d)\<lparr>free_list := l\<rparr>]"
      "\<forall>x. x \<noteq> pa \<longrightarrow> arenas s' x = arenas s x"
    and pa: "mmu_walk (mmu s) (kpage s i) = Some pa"
    and l: "distinct l" "\<forall>x. (\<forall>k < bcount d. x \<noteq> blk s d i k) \<longrightarrow> (x \<in> set l \<longleftrightarrow> x \<in> set (flist s d))"
    and v: "v = Some d \<and> arenas s' pa = Some \<lparr>arena_desc = Some (K_desc d),
          arena_cnt = word_of_nat (card {k. k < bcount d \<and> blk s d i k \<in> set l}), arena_large = 0\<rparr> \<or>
        v = None \<and> (\<forall>k < bcount d. blk s d i k \<notin> set l)"
  shows "heap_ok s' (A(i := v))"
proof -
  note D = heap_okD [OF ok]
  note K = kpages_okD [OF D(1)]
  have kp: "kpage s' = kpage s" by (simp add: fun_eq_iff kpage_def s'(3))
  have bl: "blk s' = blk s" by (simp add: fun_eq_iff blk_def kp)
  have len: "length (k_block_descs s) = DESC_CNT" using D(3) by (simp add: descs_ok_def)
  have fl: "flist s' d' = (if d' = d then l else flist s d')" for d'
    using len d by (cases "d' = d") (simp_all add: flist_def s'(5))
  have descs: "descs_ok s'" using D(3) d len unfolding descs_ok_def s'(5) by (auto simp: nth_list_update)
  have at: "arena_at (kpage s i') s' = (if i' = i then arenas s' pa else arena_at (kpage s i') s)"
    if "i' < bm_size (vaddr_bitmap (kernel_vaddr s))" for i'
  proof (cases "i' = i")
    case False
    have "mmu_walk (mmu s) (kpage s i') \<noteq> Some pa"
      using K(8) [OF that i(1)] pa False by auto
    then show ?thesis using False s'(4,6) by (cases "mmu_walk (mmu s) (kpage s i')") (auto simp: arena_at_def)
  qed (use pa s'(4) in \<open>simp add: arena_at_def\<close>)
  have fi: "free_in s' d' i' = free_in s d' i'" if "i' \<noteq> i" "A i' = Some d'" for d' i'
  proof -
    have "blk s d i' k \<noteq> blk s d i k'" if "d' = d" "k < bcount d" "k' < bcount d" for k k'
      using blk_inj(1) [OF D(1) D(5) [OF \<open>A i' = Some d'\<close>] i(1) that(2,3)] \<open>i' \<noteq> i\<close> by blast
    then have "d' = d \<Longrightarrow> k < bcount d \<Longrightarrow> blk s d i' k \<in> set l \<longleftrightarrow> blk s d i' k \<in> set (flist s d)" for k
      using l(2) by blast
    then show ?thesis unfolding free_in_def bl fl by auto
  qed
  have pages: "d' < DESC_CNT \<and> i' < bm_size (vaddr_bitmap (kernel_vaddr s)) \<and> i' \<notin> bm_free (vaddr_bitmap (kernel_vaddr s)) \<and>
      arena_at (kpage s i') s' = Some \<lparr>arena_desc = Some (K_desc d'),
          arena_cnt = word_of_nat (card (free_in s' d' i')), arena_large = 0\<rparr>"
    if "(A(i := v)) i' = Some d'" for i' d'
  proof (cases "i' = i")
    case True
    then show ?thesis using that v at [OF i(1)] d i by (auto simp: free_in_def bl fl)
  next
    case False
    then have a: "A i' = Some d'" using that by simp
    show ?thesis using D(4-7) [OF a] at [OF D(5) [OF a]] fi [OF False a] False by simp
  qed
  have lists: "\<exists>i' k. (A(i := v)) i' = Some d' \<and> k < bcount d' \<and> b = blk s d' i' k"
    if b: "d' < DESC_CNT" "b \<in> set (flist s' d')" for d' b
  proof (cases "d' = d \<and> (\<exists>k < bcount d. b = blk s d i k)")
    case True
    then show ?thesis using b(2) v by (auto simp: fl)
  next
    case False
    then have "b \<in> set (flist s d')" using b(2) l(2) by (auto simp: fl split: if_splits)
    then obtain i' k where x: "A i' = Some d'" "k < bcount d'" "b = blk s d' i' k" using D(9) [OF b(1)] by blast
    moreover have "i' \<noteq> i" using x False Ai by auto
    ultimately show ?thesis by auto
  qed
  have "distinct (flist s' d')" if "d' < DESC_CNT" for d' using D(8) [OF that] l(1) by (simp add: fl)
  then show ?thesis
    unfolding heap_ok_def kp s'(3) bl using s'(1,2) descs pages lists by blast
qed

subsection \<open>Taking and giving one block\<close>

lemma clear_block:
  assumes "mmu_walk (mmu s) p = Some pa" and "aligned p" and "pa \<notin> table_frames (mmu s)"
    and "k + n \<le> 1024" and "unat nb = 4 * n"
  shows "clear (p + word_off k) nb s = Some (s\<lparr>mmu := clear_words pa k n (mmu s)\<rparr>)"
  using memset0_page [OF assms(1-4)] assms(5) by (simp add: clear_def)

lemma desc_ref_simps:
  assumes "descs_ok s" and "d < DESC_CNT"
  shows "the_desc (K_desc d) s = Some (k_block_descs s ! d)"
    and "set_free_list (K_desc d) l s = Some (s\<lparr>k_block_descs := (k_block_descs s)[d := (k_block_descs s ! d)\<lparr>free_list := l\<rparr>]\<rparr>)"
  using assms by (simp_all add: descs_ok_def the_desc_def set_free_list_def)

lemma live_pop:
  assumes "blk s' = blk s" and "\<forall>d'. d' \<noteq> d \<longrightarrow> flist s' d' = flist s d'"
    and "set (flist s d) = insert b (set (flist s' d))" and "b \<notin> set (flist s' d)"
    and "A i = Some d" and "k < bcount d" and "b = blk s d i k"
  shows "live s' A = insert b (live s A)"
proof (intro set_eqI iffI)
  fix x assume "x \<in> live s' A"
  then obtain d' i' k' where x: "A i' = Some d'" "k' < bcount d'" "x = blk s d' i' k'" "x \<notin> set (flist s' d')"
    by (elim liveE) (simp add: assms(1))
  then show "x \<in> insert b (live s A)"
    using liveI [of A i' d' k' s] assms(2,3) by (cases "d' = d") auto
next
  fix x assume "x \<in> insert b (live s A)"
  then obtain d' i' k' where x: "A i' = Some d'" "k' < bcount d'" "x = blk s d' i' k'" "x \<notin> set (flist s' d')"
  proof
    assume "x = b"
    then show ?thesis using that assms(4-7) by blast
  next
    assume "x \<in> live s A"
    then obtain d' i' k' where y: "A i' = Some d'" "k' < bcount d'" "x = blk s d' i' k'" "x \<notin> set (flist s d')"
      by (rule liveE)
    have "x \<notin> set (flist s' d')" using y(4) assms(2,3) by (cases "d' = d") auto
    then show ?thesis using that y by blast
  qed
  then show "x \<in> live s' A" using liveI [of A i' d' k' s'] by (simp add: assms(1))
qed

text \<open>What the heap's operations leave alone, and the pages they can still take.\<close>

definition heap_frame :: "'z kmem_scheme \<Rightarrow> 'z kmem_scheme \<Rightarrow> bool" where
  "heap_frame s s' \<longleftrightarrow> tasks s' = tasks s \<and> running s' = running s \<and> locks s' = locks s \<and> semas s' = semas s \<and>
     eflags s' = eflags s \<and> vaddr_start (kernel_vaddr s') = vaddr_start (kernel_vaddr s) \<and>
     pool_lock (kernel_pool s') = pool_lock (kernel_pool s) \<and> pool_size (kernel_pool s') = pool_size (kernel_pool s)"

definition pages_left :: "'z kmem_scheme \<Rightarrow> nat" where
  "pages_left s = min (card (bm_free (vaddr_bitmap (kernel_vaddr s)))) (card (bm_free (pool_bitmap (kernel_pool s))))"

lemma heap_frame_trans: "heap_frame s s1 \<Longrightarrow> heap_frame s1 s2 \<Longrightarrow> heap_frame s s2"
  by (simp add: heap_frame_def)

lemma finite_bm_free [simp]: "finite (bm_free m)"
  by (rule finite_subset [of _ "{..<bm_size m}"]) (auto simp: bm_free_def)

lemma pages_left_room: "0 < pages_left s \<Longrightarrow>
  bm_free (vaddr_bitmap (kernel_vaddr s)) \<noteq> {} \<and> bm_free (pool_bitmap (kernel_pool s)) \<noteq> {}"
  by (auto simp: pages_left_def)

lemma take_block_ok:
  assumes ok: "heap_ok s A" and d: "d < DESC_CNT" and ne: "flist s d \<noteq> []"
  shows "\<exists>b s'. take_block (K_desc d) s = Some (b, s') \<and> heap_ok s' A \<and> b \<notin> live s A \<and>
    live s' A = insert b (live s A) \<and> b \<noteq> 0 \<and>
    (\<forall>w < bwords d. load32 (b + word_off w) (mmu s') = Some 0) \<and>
    (\<forall>x. mmu_walk (mmu s') x = mmu_walk (mmu s) x) \<and>
    (\<exists>i k. A i = Some d \<and> k < bcount d \<and> b = blk s d i k) \<and> kernel_vaddr s' = kernel_vaddr s \<and>
    locks s' = locks s \<and> semas s' = semas s \<and> running s' = running s \<and> heap_frame s s' \<and> pages_left s' = pages_left s"
proof -
  note D = heap_okD [OF ok]
  note K = kpages_okD [OF D(1)]
  obtain b l where bl: "flist s d = b # l" using ne by (cases "flist s d") auto
  then obtain i k where ik: "A i = Some d" "k < bcount d" "b = blk s d i k" using D(9) [OF d] by fastforce
  note isz = D(5) [OF ik(1)] and iu = D(6) [OF ik(1)]
  obtain pa where pa: "mmu_walk (mmu s) (kpage s i) = Some pa" "pa \<notin> table_frames (mmu s)"
    using K(7) [OF isz iu] by blast
  have al: "aligned (kpage s i)" unfolding kpage_def by (rule nth_page_aligned [OF K(1) isz])
  have pal: "aligned pa" using walk_in_page(2) [OF pa(1) al, of 0] by simp
  let ?o = "3 + k * bwords d" let ?m = "clear_words pa ?o (bwords d) (mmu s)"
  have fit: "?o + bwords d \<le> 1024" using bcount_words [OF ik(2)] by simp
  note t = same_tables [OF clear_words_tables [OF pal pa(2) fit]]
  let ?c = "card (free_in s d i)"
  let ?ar = "\<lparr>arena_desc = Some (K_desc d), arena_cnt = word_of_nat ?c, arena_large = 0\<rparr>"
  let ?s1 = "s\<lparr>k_block_descs := (k_block_descs s)[d := (k_block_descs s ! d)\<lparr>free_list := l\<rparr>]\<rparr>"
  let ?s2 = "?s1\<lparr>mmu := ?m\<rparr>"
  let ?s' = "?s2\<lparr>arenas := (arenas s)(pa \<mapsto> ?ar\<lparr>arena_cnt := word_of_nat ?c - 1\<rparr>)\<rparr>"
  have ba: "block2arena b = kpage s i" unfolding ik(3) by (rule blk_page(1) [OF D(1) isz ik(2)])
  have ar: "arenas s pa = Some ?ar" using D(7) [OF ik(1)] pa(1) by (simp add: arena_at_def)
  have cl: "clear b (block_size (k_block_descs s ! d)) ?s1 = Some ?s2"
    unfolding ik(3) blk_def
    using clear_block [of ?s1 "kpage s i" pa ?o "bwords d"] pa al fit desc_table [OF D(3) d] by (simp add: kpage_def)
  have run: "take_block (K_desc d) s = Some (b, ?s')"
    using desc_ref_simps [OF D(3) d] bl cl ba pa(1) ar t(6)
    by (simp add: take_block_def q_defs flist_def arena_at_def set_arena_def Let_def)
  have dist: "distinct l" "b \<notin> set l" using D(8) [OF d] bl by auto
  have inj: "blk s d i k' = b \<longleftrightarrow> k' = k" if "k' < bcount d" for k'
    using blk_inj(2) [OF D(1) isz isz that ik(2)] ik(3) by auto
  have fr: "{k'. k' < bcount d \<and> blk s d i k' \<in> set l} = free_in s d i - {k}"
    using inj dist(2) bl by (auto simp: free_in_def)
  have kin: "k \<in> free_in s d i" using ik bl by (simp add: free_in_def)
  have fin: "finite (free_in s d i)" by (simp add: free_in_def)
  have "0 < ?c" using kin fin by (auto simp: card_gt_0_iff)
  then have cc: "word_of_nat ?c - 1 = (word_of_nat (card (free_in s d i - {k})) :: u32)"
    using kin fin by (simp add: card_Diff_singleton of_nat_diff)
  have "heap_ok ?s' (A(i := Some d))"
  proof (rule heap_ok_update [OF ok isz iu d _ _ _ _ _ _ _ pa(1) dist(1)])
    show "kpages_ok ?s'" by (rule kpages_ok_tables [OF D(1)]) (use clear_words_tables [OF pal pa(2) fit] in simp_all)
    show "pools_apart ?s'" using D(2) by (simp add: pools_apart_def)
    show "\<forall>x. mmu_walk (mmu ?s') x = mmu_walk (mmu s) x" using t(6) by simp
    show "\<forall>x. (\<forall>k' < bcount d. x \<noteq> blk s d i k') \<longrightarrow> (x \<in> set l \<longleftrightarrow> x \<in> set (flist s d))"
      using bl ik by auto
  qed (use ik(1) fr cc in simp_all)
  then have ok': "heap_ok ?s' A" using ik(1) by (simp add: fun_upd_idem)
  have kp: "kpage ?s' = kpage s" by (simp add: fun_eq_iff kpage_def)
  then have bk: "blk ?s' = blk s" by (simp add: fun_eq_iff blk_def)
  have fl: "flist ?s' d' = (if d' = d then l else flist s d')" for d'
    using D(3) d by (cases "d' = d") (simp_all add: flist_def descs_ok_def)
  have nl: "b \<notin> live s A"
  proof
    assume "b \<in> live s A"
    then obtain d' i' k' where x: "A i' = Some d'" "k' < bcount d'" "b = blk s d' i' k'" "b \<notin> set (flist s d')"
      by (auto simp: live_def)
    then have "i' = i" using blk_inj(1) [OF D(1) D(5) [OF x(1)] isz x(2) ik(2)] ik(3) by simp
    then show False using x ik(1) bl by simp
  qed
  have lv: "live ?s' A = insert b (live s A)"
    using live_pop [of ?s' s d b A i k] ik bk bl fl dist(2) by simp
  have z: "load32 (b + word_off w) ?m = Some 0" if "w < bwords d" for w
  proof -
    have o: "?o + w < 1024" using that fit by simp
    have "b + word_off w = kpage s i + word_off (?o + w)"
      by (simp add: ik(3) blk_def word_off_def distrib_left add.assoc)
    moreover have "ram ?m (pa + word_off (?o + w)) = 0"
      using that by (auto simp: clear_words_def page_words_def)
    ultimately show ?thesis
      using walk_in_page(1) [OF _ al word_off_small [OF o], of ?m pa] t(6) pa(1) by (simp add: load32_def)
  qed
  have fr: "heap_frame s ?s'" "pages_left ?s' = pages_left s" by (simp_all add: heap_frame_def pages_left_def)
  have "b \<noteq> 0" unfolding ik(3) by (rule blk_page(2) [OF D(1) isz ik(2)])
  then show ?thesis using run ok' nl lv z t(6) ik fr by (intro exI [of _ b] exI [of _ ?s']) auto
qed

subsection \<open>A new arena\<close>

lemma heap_ok_pages:
  assumes ok: "heap_ok s A" and k: "kpages_ok s'" "pools_apart s'"
    and same: "vaddr_start (kernel_vaddr s') = vaddr_start (kernel_vaddr s)"
      "bm_size (vaddr_bitmap (kernel_vaddr s')) = bm_size (vaddr_bitmap (kernel_vaddr s))"
      "k_block_descs s' = k_block_descs s" "arenas s' = arenas s"
    and dom: "\<forall>i d. A i = Some d \<longrightarrow> i \<notin> bm_free (vaddr_bitmap (kernel_vaddr s')) \<and>
      mmu_walk (mmu s') (kpage s i) = mmu_walk (mmu s) (kpage s i)"
  shows "heap_ok s' A" and "live s' A = live s A" and "flist s' = flist s" and "blk s' = blk s"
proof -
  have kp: "kpage s' = kpage s" by (simp add: fun_eq_iff kpage_def same(1))
  show bl: "blk s' = blk s" by (simp add: fun_eq_iff blk_def kp)
  show fl: "flist s' = flist s" by (simp add: fun_eq_iff flist_def same(3))
  show "live s' A = live s A" by (simp add: live_def bl fl)
  have fi: "free_in s' = free_in s" by (simp add: fun_eq_iff free_in_def bl fl)
  have at: "arena_at (kpage s i) s' = arena_at (kpage s i) s" if "A i = Some d" for i d
    using dom that by (simp add: arena_at_def same(4))
  have ds: "descs_ok s'" using heap_okD(3) [OF ok] by (simp add: descs_ok_def same(3))
  have p: "d < DESC_CNT \<and> i < bm_size (vaddr_bitmap (kernel_vaddr s')) \<and> i \<notin> bm_free (vaddr_bitmap (kernel_vaddr s')) \<and>
      arena_at (kpage s' i) s' = Some \<lparr>arena_desc = Some (K_desc d),
          arena_cnt = word_of_nat (card (free_in s' d i)), arena_large = 0\<rparr>" if a: "A i = Some d" for i d
    using heap_okD(4,5,7) [OF ok a] dom a at [OF a] by (simp add: kp fi same(2))
  show "heap_ok s' A" unfolding heap_ok_def bl fl using k ds p heap_okD(8,9) [OF ok] by blast
qed

lemma split_arena_eq:
  "descs_ok s \<Longrightarrow> d < DESC_CNT \<Longrightarrow> kpages_ok s \<Longrightarrow> i < bm_size (vaddr_bitmap (kernel_vaddr s)) \<Longrightarrow>
   arena_at (kpage s i) s = Some ar \<Longrightarrow> arena_desc ar = Some (K_desc d) \<Longrightarrow> k + n \<le> bcount d \<Longrightarrow>
   (\<forall>k' \<in> {k..<k + n}. blk s d i k' \<notin> set (flist s d)) \<Longrightarrow>
   split_arena (kpage s i) (word_of_nat k) n s = Some (s\<lparr>k_block_descs := (k_block_descs s)
     [d := (k_block_descs s ! d)\<lparr>free_list := flist s d @ map (blk s d i) [k..<k + n]\<rparr>]\<rparr>)"
proof (induction n arbitrary: k s)
  case 0
  then show ?case by (simp add: flist_def)
next
  case (Suc n)
  have kb: "k < bcount d" using Suc.prems(7) by simp
  let ?b = "blk s d i k"
  let ?s1 = "s\<lparr>k_block_descs := (k_block_descs s)[d := (k_block_descs s ! d)\<lparr>free_list := flist s d @ [?b]\<rparr>]\<rparr>"
  have len: "d < length (k_block_descs s)" using Suc.prems(1,2) by (simp add: descs_ok_def)
  have kp: "kpage ?s1 = kpage s" by (simp add: fun_eq_iff kpage_def)
  then have bl: "blk ?s1 = blk s" by (simp add: fun_eq_iff blk_def)
  have fl: "flist ?s1 d = flist s d @ [?b]" using len by (simp add: flist_def)
  have nf: "?b \<notin> set (flist s d)" using Suc.prems(8) by simp
  have step: "split_arena (kpage s i) (word_of_nat k) (Suc n) s = split_arena (kpage s i) (word_of_nat (Suc k)) n ?s1"
    using arena2block_blk [OF Suc.prems(1,2,5,6) kb] Suc.prems(5,6) nf desc_ref_simps [OF Suc.prems(1,2)]
    by (simp add: desc_of_def q_defs flist_def add.commute)
  have "split_arena (kpage ?s1 i) (word_of_nat (Suc k)) n ?s1 = Some (?s1\<lparr>k_block_descs := (k_block_descs ?s1)
     [d := (k_block_descs ?s1 ! d)\<lparr>free_list := flist ?s1 d @ map (blk ?s1 d i) [Suc k..<Suc k + n]\<rparr>]\<rparr>)"
  proof (rule Suc.IH)
    show "descs_ok ?s1" using Suc.prems(1) len by (auto simp: descs_ok_def nth_list_update)
    show "kpages_ok ?s1" using Suc.prems(3) kpages_ok_fields [of ?s1 s] by simp
    show "arena_at (kpage ?s1 i) ?s1 = Some ar" using Suc.prems(5) unfolding kp by (simp add: arena_at_def)
    have "blk s d i k' \<noteq> ?b" if "k' \<in> {Suc k..<Suc k + n}" for k'
      using blk_inj(2) [OF Suc.prems(3,4,4) _ kb, of k'] that Suc.prems(7) by auto
    then show "\<forall>k' \<in> {Suc k..<Suc k + n}. blk ?s1 d i k' \<notin> set (flist ?s1 d)"
      using Suc.prems(8) unfolding bl fl by auto
  qed (use Suc.prems in simp_all)
  moreover have "[k..<k + Suc n] = k # [Suc k..<Suc k + n]" by (subst upt_conv_Cons) simp_all
  ultimately show ?case unfolding step kp bl fl using len by (simp del: upt_Suc)
qed

lemma bcount_pos: "d < DESC_CNT \<Longrightarrow> 0 < bcount d"
proof -
  assume "d < DESC_CNT"
  then have "(2 :: nat) ^ d \<le> 2 ^ 6" by (intro power_increasing) (simp_all add: DESC_CNT_def)
  then have "bwords d \<le> 1021" by (simp add: bwords_def)
  then show ?thesis by (simp add: bcount_def div_greater_zero_iff)
qed

lemma live_new_arena:
  assumes "kpages_ok s" and none: "A i = None" and isz: "i < bm_size (vaddr_bitmap (kernel_vaddr s))"
    and dom: "\<forall>i' d'. A i' = Some d' \<longrightarrow> i' < bm_size (vaddr_bitmap (kernel_vaddr s))"
    and bl: "blk s' = blk s" and em: "flist s d = []"
    and fl: "\<forall>d'. flist s' d' = (if d' = d then map (blk s d i) [0..<bcount d] else flist s d')"
  shows "live s' (A(i \<mapsto> d)) = live s A"
proof (intro set_eqI iffI)
  fix x assume "x \<in> live s' (A(i \<mapsto> d))"
  then obtain d' i' k where x: "(A(i \<mapsto> d)) i' = Some d'" "k < bcount d'" "x = blk s d' i' k" "x \<notin> set (flist s' d')"
    by (elim liveE) (simp add: bl)
  then have "i' \<noteq> i" using fl by auto
  then show "x \<in> live s A" using x liveI [of A i' d' k s] em fl by (cases "d' = d") auto
next
  fix x assume "x \<in> live s A"
  then obtain d' i' k where x: "A i' = Some d'" "k < bcount d'" "x = blk s d' i' k" "x \<notin> set (flist s d')"
    by (rule liveE)
  have ne: "i' \<noteq> i" using x(1) none by auto
  have "x \<notin> set (flist s' d')"
    using x fl ne blk_inj(1) [OF assms(1) _ isz x(2)] dom by (cases "d' = d") auto
  then show "x \<in> live s' (A(i \<mapsto> d))" using x ne liveI [of "A(i \<mapsto> d)" i' d' k s'] by (simp add: bl)
qed

lemma new_arena_ok:
  assumes ok: "heap_ok s A" and d: "d < DESC_CNT" and em: "flist s d = []"
    and room: "bm_free (vaddr_bitmap (kernel_vaddr s)) \<noteq> {}" "bm_free (pool_bitmap (kernel_pool s)) \<noteq> {}"
  shows "\<exists>s' i. new_arena PF_KERNEL (K_desc d) s = Some (True, s') \<and> A i = None \<and> heap_ok s' (A(i \<mapsto> d)) \<and>
    live s' (A(i \<mapsto> d)) = live s A \<and> flist s' d \<noteq> [] \<and> blk s' = blk s \<and>
    locks s' = locks s \<and> semas s' = semas s \<and> running s' = running s \<and> heap_frame s s' \<and> pages_left s \<le> pages_left s' + 1"
proof -
  note D = heap_okD [OF ok]
  note K = kpages_okD [OF D(1)]
  obtain i j s1 where s1: "malloc_page PF_KERNEL 1 s = Some (kpage s i, s1)" "page_added i j s s1" "kpages_ok s1"
    using malloc_kpage [OF D(1) room] by blast
  have i: "i \<in> bm_free (vaddr_bitmap (kernel_vaddr s))" and j: "j \<in> bm_free (pool_bitmap (kernel_pool s))"
    using s1(2) by (simp_all add: page_added_def)
  note isz = bm_free_size [OF i]
  have none: "A i = None" using D(6) [of i] i by (cases "A i") auto
  have eq: "s1 = s\<lparr>kernel_vaddr := kernel_vaddr s1, mmu := mmu s1,
      kernel_pool := (kernel_pool s)\<lparr>pool_bitmap := pool_bitmap (kernel_pool s1)\<rparr>\<rparr>"
    using s1(2) unfolding page_added_def by blast
  have f1: "vaddr_start (kernel_vaddr s1) = vaddr_start (kernel_vaddr s)"
      "bm_size (vaddr_bitmap (kernel_vaddr s1)) = bm_size (vaddr_bitmap (kernel_vaddr s))"
      "bm_size (pool_bitmap (kernel_pool s1)) = bm_size (pool_bitmap (kernel_pool s))"
      "bm_free (vaddr_bitmap (kernel_vaddr s1)) = bm_free (vaddr_bitmap (kernel_vaddr s)) - {i}"
      "bm_free (pool_bitmap (kernel_pool s1)) = bm_free (pool_bitmap (kernel_pool s)) - {j}"
    using s1(2) by (simp_all add: page_added_def)
  have f2: "k_block_descs s1 = k_block_descs s" "arenas s1 = arenas s" "user_pool s1 = user_pool s"
      "phy_addr_start (kernel_pool s1) = phy_addr_start (kernel_pool s)" "locks s1 = locks s" "semas s1 = semas s"
      "running s1 = running s" "tasks s1 = tasks s" "eflags s1 = eflags s"
      "pool_lock (kernel_pool s1) = pool_lock (kernel_pool s)" "pool_size (kernel_pool s1) = pool_size (kernel_pool s)"
    by (subst eq, simp)+
  have ap: "pools_apart s1" using D(2) f1 f2 by (simp add: pools_apart_def)
  let ?pa = "frame_no (kernel_pool s) j"
  have walk: "\<forall>x. mmu_walk (mmu s1) x = (if same_page x (kpage s i) then Some (?pa + (x AND 0xfff)) else mmu_walk (mmu s) x)"
    using s1(2) by (simp add: page_added_def)
  note pw = page_added_walk [OF D(1) isz bm_free_size [OF j] walk]
  have dom1: "\<forall>i' d'. A i' = Some d' \<longrightarrow> i' \<notin> bm_free (vaddr_bitmap (kernel_vaddr s1)) \<and>
      mmu_walk (mmu s1) (kpage s i') = mmu_walk (mmu s) (kpage s i')"
    using pw D(5,6) f1(4) none by auto
  have ok1: "heap_ok s1 A" and live1: "live s1 A = live s A" and fl1: "flist s1 = flist s" and bl1: "blk s1 = blk s"
    using heap_ok_pages [OF ok s1(3) ap f1(1,2) f2(1,2) dom1] by auto
  have kp1: "kpage s1 = kpage s" by (simp add: fun_eq_iff kpage_def f1(1))
  have wi: "mmu_walk (mmu s1) (kpage s i) = Some ?pa" using pw [OF isz] by simp
  have nt: "?pa \<notin> table_frames (mmu s1)" using s1(2) by (simp add: page_added_def)
  note al = nth_page_aligned [OF K(1) isz, folded kpage_def]
  note pal = nth_page_aligned [OF K(2) bm_free_size [OF j], folded frame_no_def]
  let ?m = "clear_words ?pa 0 1024 (mmu s1)" let ?s2 = "s1\<lparr>mmu := ?m\<rparr>"
  note c = clear_kpage [OF wi al nt]
  have wm: "mmu_walk ?m x = mmu_walk (mmu s1) x" for x
    by (rule same_tables(6) [OF clear_words_tables [OF pal nt]]) simp_all
  have ok2: "heap_ok ?s2 A" and live2: "live ?s2 A = live s A" and fl2: "flist ?s2 = flist s" and bl2: "blk ?s2 = blk s"
    using heap_ok_pages [OF ok1 c(2) [OF s1(3)]] ap heap_okD(6) [OF ok1] wm live1 fl1 bl1
    by (simp_all add: pools_apart_def)
  let ?ar = "\<lparr>arena_desc = Some (K_desc d), arena_cnt = blocks_per_arena (k_block_descs s ! d), arena_large = 0\<rparr>"
  let ?s3 = "?s2\<lparr>arenas := (arenas s)(?pa \<mapsto> ?ar)\<rparr>"
  have set3: "set_arena (kpage s i) ?ar ?s2 = Some ?s3" using wi wm f2(2) by (simp add: set_arena_def)
  let ?l = "map (blk s d i) [0..<bcount d]"
  let ?f = "\<lambda>x :: 'a kmem_scheme. x\<lparr>k_block_descs := (k_block_descs s)[d := (k_block_descs s ! d)\<lparr>free_list := ?l\<rparr>]\<rparr>"
  obtain o1 s4 where dis: "intr_disable ?s3 = (o1, s4)" by fastforce
  have e4: "s4 = ?s3\<lparr>eflags := eflags s4\<rparr>" using disable_flags [of ?s3] dis by (simp only: snd_conv)
  have at3: "arena_at (kpage s i) ?s3 = Some ?ar" using wi wm by (simp add: arena_at_def)
  have split: "split_arena (kpage s i) 0 (bcount d) s4 = Some (?f s4)"
  proof -
    have k: "k_block_descs s4 = k_block_descs s" "mmu s4 = ?m" "kernel_vaddr s4 = kernel_vaddr s1"
        "kernel_pool s4 = kernel_pool s1" "arenas s4 = (arenas s)(?pa \<mapsto> ?ar)"
      by (subst e4, simp add: f2)+
    have kp4: "kpage s4 = kpage s" by (simp add: fun_eq_iff kpage_def k f1(1))
    then have bl4: "blk s4 = blk s" by (simp add: fun_eq_iff blk_def)
    have fl4: "flist s4 d = []" using em by (simp add: flist_def k)
    have "descs_ok s4" using D(3) by (simp add: descs_ok_def k)
    moreover have "kpages_ok s4" using c(2) [OF s1(3)] kpages_ok_fields [of s4 ?s2] by (simp add: k)
    moreover have "arena_at (kpage s4 i) s4 = Some ?ar" using wi wm by (simp add: kp4 arena_at_def k)
    ultimately have "split_arena (kpage s4 i) (word_of_nat 0) (bcount d) s4 = Some (s4\<lparr>k_block_descs := (k_block_descs s4)
       [d := (k_block_descs s4 ! d)\<lparr>free_list := flist s4 d @ map (blk s4 d i) [0..<0 + bcount d]\<rparr>]\<rparr>)"
      by (intro split_arena_eq [where ar = ?ar]) (use d isz f1(2) fl4 in \<open>simp_all add: k\<close>)
    then show ?thesis by (simp add: kp4 bl4 fl4 k)
  qed
  have crit: "snd (intr_set_status o1 (?f s4)) = ?f ?s3" by (rule critical_section [OF dis]) simp_all
  let ?s' = "?f ?s3"
  have va: "kpage s i \<noteq> 0" unfolding kpage_def by (rule nth_page_nz [OF K(1) isz])
  have td: "the_desc (K_desc d) ?s2 = Some (k_block_descs s ! d)"
    using desc_ref_simps(1) [OF heap_okD(3) [OF ok2] d] f2(1) by simp
  have run: "new_arena PF_KERNEL (K_desc d) s = Some (True, ?s')"
    using s1(1) va c(1) td set3 desc_table [OF D(3) d] split crit
    by (simp add: new_arena_def dis)
  have inj: "blk s d i k = blk s d i k' \<longleftrightarrow> k = k'" if "k < bcount d" "k' < bcount d" for k k'
    using blk_inj(2) [OF D(1) isz isz that] by auto
  have ok': "heap_ok ?s' (A(i := Some d))"
  proof (rule heap_ok_update [OF ok2, where pa = ?pa and l = ?l])
    show "kpages_ok ?s'" using c(2) [OF s1(3)] kpages_ok_fields [of ?s' ?s2] by simp
    show "distinct ?l" using inj by (auto simp: distinct_map inj_on_def)
    have "{k. k < bcount d \<and> blk s d i k \<in> set ?l} = {..<bcount d}" by auto
    then show "Some d = Some d \<and> arenas ?s' ?pa = Some \<lparr>arena_desc = Some (K_desc d),
          arena_cnt = word_of_nat (card {k. k < bcount d \<and> blk ?s2 d i k \<in> set ?l}), arena_large = 0\<rparr> \<or>
        Some d = None \<and> (\<forall>k < bcount d. blk ?s2 d i k \<notin> set ?l)"
      using D(3) d by (simp add: bl2 descs_ok_def)
  qed (use isz f1 f2 d none ap wi wm em fl2 bl2 kp1 in \<open>auto simp: pools_apart_def kpage_def\<close>)
  have fl': "flist ?s' d' = (if d' = d then ?l else flist s d')" for d'
    using D(3) d by (cases "d' = d") (simp_all add: flist_def descs_ok_def f2(1))
  have bl': "blk ?s' = blk s" by (simp add: fun_eq_iff blk_def kpage_def f1(1))
  have live': "live ?s' (A(i \<mapsto> d)) = live s A"
    using live_new_arena [of s A i ?s' d] D(1,5) none isz em fl' bl' by simp
  have "flist ?s' d \<noteq> []" using fl' [of d] bcount_pos [OF d] by simp
  moreover have "heap_frame s ?s'" using f1(1) f2 by (simp add: heap_frame_def)
  moreover have "pages_left s \<le> pages_left ?s' + 1"
    using f1(4,5) i j by (simp add: pages_left_def card_Diff_singleton)
  ultimately show ?thesis using run none ok' live' bl' f2 by (intro exI [of _ ?s'] exI [of _ i]) simp
qed

subsection \<open>\<open>sys_malloc\<close> for small blocks\<close>

lemma heap_ok_fields:
  assumes "mmu s' = mmu s" "kernel_vaddr s' = kernel_vaddr s" "kernel_pool s' = kernel_pool s"
    "user_pool s' = user_pool s" "k_block_descs s' = k_block_descs s" "arenas s' = arenas s"
  shows "heap_ok s' A = heap_ok s A" and "live s' A = live s A" and "flist s' = flist s" and "blk s' = blk s"
proof -
  have kp: "kpage s' = kpage s" by (simp add: fun_eq_iff kpage_def assms)
  show bl: "blk s' = blk s" by (simp add: fun_eq_iff blk_def kp)
  show fl: "flist s' = flist s" by (simp add: fun_eq_iff flist_def assms)
  show "live s' A = live s A" by (simp add: live_def bl fl)
  have fi: "free_in s' = free_in s" by (simp add: fun_eq_iff free_in_def bl fl)
  show "heap_ok s' A = heap_ok s A"
    unfolding heap_ok_def bl fl fi kp kpages_ok_fields [OF assms(1-3)]
    by (simp add: pools_apart_def descs_ok_def arena_at_def assms)
qed

lemma fit_desc_fits:
  "\<exists>d \<in> set ds. n \<le> block_size d \<Longrightarrow>
   k \<le> fit_desc n k ds \<and> fit_desc n k ds < k + length ds \<and> n \<le> block_size (ds ! (fit_desc n k ds - k))"
proof (induction n k ds rule: fit_desc.induct)
  case (2 n k d ds)
  show ?case
  proof (cases "n \<le> block_size d")
    case False
    then have "\<exists>d \<in> set ds. n \<le> block_size d" using "2.prems" by auto
    from "2.IH" [OF False this] False show ?thesis by (auto simp: nth_Cons' Suc_le_eq diff_Suc_less)
  qed simp
qed simp

lemma fit_desc_kernel:
  assumes "descs_ok s" and "unat n \<le> 1024"
  shows "fit_desc n 0 (k_block_descs s) < DESC_CNT \<and> unat n \<le> 4 * bwords (fit_desc n 0 (k_block_descs s))"
proof -
  have len: "length (k_block_descs s) = DESC_CNT" using assms(1) by (simp add: descs_ok_def)
  have "n \<le> block_size (k_block_descs s ! 6)"
    using desc_table [OF assms(1), of 6] assms(2) by (simp add: word_le_nat_alt DESC_CNT_def bwords_def)
  then have "\<exists>d \<in> set (k_block_descs s). n \<le> block_size d" using len by (auto simp: DESC_CNT_def)
  from fit_desc_fits [OF this, of 0] len show ?thesis
    using desc_table [OF assms(1), of "fit_desc n 0 (k_block_descs s)"] by (simp add: word_le_nat_alt)
qed

text \<open>The words of the blocks in use.\<close>

definition block_words :: "u32 \<Rightarrow> nat \<Rightarrow> u32 set" where
  "block_words b n = (\<lambda>w. b + word_off w) ` {..<n}"

definition live_words :: "'z kmem_scheme \<Rightarrow> (nat \<rightharpoonup> nat) \<Rightarrow> u32 set" where
  "live_words s A = (\<Union>b \<in> live s A. \<Union>d \<in> {d. \<exists>i k. A i = Some d \<and> k < bcount d \<and> b = blk s d i k}.
     block_words b (bwords d))"

lemma blk_words_disjoint:
  assumes "kpages_ok s" and "A i = Some d" and "A i' = Some d'"
    and "i < bm_size (vaddr_bitmap (kernel_vaddr s))" and "i' < bm_size (vaddr_bitmap (kernel_vaddr s))"
    and "k < bcount d" and "k' < bcount d'" and "blk s d i k \<noteq> blk s d' i' k'"
  shows "block_words (blk s d i k) (bwords d) \<inter> block_words (blk s d' i' k') (bwords d') = {}"
proof (rule ccontr)
  assume "\<not> ?thesis"
  then obtain w w' where w: "w < bwords d" "w' < bwords d'"
      "blk s d i k + word_off w = blk s d' i' k' + word_off w'"
    by (auto simp: block_words_def)
  have add: "blk s d i k + word_off w = kpage s i + word_off (3 + k * bwords d + w)" for d i k w
    by (simp add: blk_def word_off_def distrib_left add.assoc)
  have fit: "3 + k * bwords d + w < 1024" if "k < bcount d" "w < bwords d" for d k w
    using bcount_words [OF that(1)] that(2) by linarith
  note al = nth_page_aligned [OF kpages_okD(1) [OF assms(1)] assms(4), folded kpage_def]
    nth_page_aligned [OF kpages_okD(1) [OF assms(1)] assms(5), folded kpage_def]
  note f = fit [OF assms(6) w(1)] fit [OF assms(7) w(2)]
  have e: "kpage s i + word_off (3 + k * bwords d + w) = kpage s i' + word_off (3 + k' * bwords d' + w')"
    using w(3) unfolding add .
  have "kpage s i = kpage s i'"
    using arg_cong [OF e, of frame_of] al f page_plus_simps(1) word_off_small by metis
  then have i: "i = i'" using nth_page_inj [OF kpages_okD(1) [OF assms(1)] assms(4,5)] by (simp add: kpage_def)
  then have d: "d = d'" using assms(2,3) by simp
  have "3 + k * bwords d + w = 3 + k' * bwords d' + w'" using e i word_off_inj [OF f] by simp
  then have "(k * bwords d + w) div bwords d = (k' * bwords d + w') div bwords d" using d by simp
  then have "k = k'" using w d by simp
  then show False using assms(8) i d by simp
qed

lemma heap_frame_unheld:
  assumes "heap_frame (held_by l (running s) s) s2" and "lock_free l s"
  shows "heap_frame s (unheld l s2)"
  using assms by (simp add: heap_frame_def held_by_def unheld_def lock_free_def fun_upd_idem)

lemma sys_malloc_small:
  assumes "heap_ok s A" and "tasks s (running s) = Some p" and "pgdir p = 0" and "running s \<noteq> 0"
    and "lock_free (pool_lock (kernel_pool s)) s" and "0 < unat n" and "unat n \<le> 1024"
    and "n < pool_size (kernel_pool s)"
    and "bm_free (vaddr_bitmap (kernel_vaddr s)) \<noteq> {}" and "bm_free (pool_bitmap (kernel_pool s)) \<noteq> {}"
  shows "\<exists>b s' A' m. sys_malloc n s = Some (b, s') \<and> heap_ok s' A' \<and> lock_free (pool_lock (kernel_pool s)) s' \<and>
    b \<noteq> 0 \<and> b \<notin> live s A \<and> live s' A' = insert b (live s A) \<and>
    unat n \<le> 4 * m \<and> block_words b m \<inter> live_words s A = {} \<and>
    (\<forall>x \<in> block_words b m. load32 x (mmu s') = Some 0) \<and> heap_frame s s' \<and> pages_left s \<le> pages_left s' + 1"
proof -
  let ?l = "pool_lock (kernel_pool s)" let ?h = "held_by ?l (running s) s" let ?d = "fit_desc n 0 (k_block_descs s)"
  have okh: "heap_ok ?h A" and liveh: "live ?h A = live s A" and fh: "flist ?h = flist s" and bh: "blk ?h = blk s"
    using heap_ok_fields [of ?h s] assms(1) by simp_all
  have d: "?d < DESC_CNT" "unat n \<le> 4 * bwords ?d"
    using fit_desc_kernel [OF heap_okD(3) [OF assms(1)] assms(7)] by auto
  obtain s1 A1 where s1: "(if flist s ?d = [] then new_arena PF_KERNEL (K_desc ?d) ?h else Some (True, ?h)) = Some (True, s1)"
      "heap_ok s1 A1" "live s1 A1 = live s A" "flist s1 ?d \<noteq> []" "blk s1 = blk s" "\<forall>i d. A i = Some d \<longrightarrow> A1 i = Some d"
      "locks s1 = locks ?h" "semas s1 = semas ?h" "running s1 = running s" "heap_frame ?h s1"
      "pages_left ?h \<le> pages_left s1 + 1"
  proof (cases "flist s ?d = []")
    case True
    obtain s1 i where "new_arena PF_KERNEL (K_desc ?d) ?h = Some (True, s1)" "A i = None" "heap_ok s1 (A(i \<mapsto> ?d))"
        "live s1 (A(i \<mapsto> ?d)) = live ?h A" "flist s1 ?d \<noteq> []" "blk s1 = blk ?h"
        "locks s1 = locks ?h" "semas s1 = semas ?h" "running s1 = running ?h" "heap_frame ?h s1"
        "pages_left ?h \<le> pages_left s1 + 1"
      using new_arena_ok [OF okh d(1)] assms(9,10) True fh by auto
    then show ?thesis using that [of s1 "A(i \<mapsto> ?d)"] True liveh bh by auto
  next
    case False
    then show ?thesis using that [of ?h A] okh liveh fh bh by (simp add: heap_frame_def)
  qed
  obtain b s2 where s2: "take_block (K_desc ?d) s1 = Some (b, s2)" "heap_ok s2 A1" "b \<notin> live s1 A1"
      "live s2 A1 = insert b (live s1 A1)" "b \<noteq> 0" "\<forall>w < bwords ?d. load32 (b + word_off w) (mmu s2) = Some 0"
      "\<exists>i k. A1 i = Some ?d \<and> k < bcount ?d \<and> b = blk s1 ?d i k"
      "locks s2 = locks s1" "semas s2 = semas s1" "running s2 = running s1" "heap_frame s1 s2" "pages_left s2 = pages_left s1"
    using take_block_ok [OF s1(2) d(1) s1(4)] by blast
  have td: "the_desc (K_desc ?d) ?h = Some (k_block_descs s ! ?d)"
    using desc_ref_simps(1) [OF heap_okD(3) [OF okh] d(1)] by simp
  have small: "malloc_small PF_KERNEL K_desc n ?h = Some (b, s2)"
    using s1(1) s2(1) td by (simp add: malloc_small_def descs_of_def Let_def q_empty_def flist_def)
  have rel: "lock_release_now ?l s2 = Some (unheld ?l s2)" "lock_free ?l (unheld ?l s2)"
    using lock_release_held [of s2 ?l s] s2(8-10) s1(7-9) by simp_all
  have run: "sys_malloc n s = Some (b, unheld ?l s2)"
    using assms(2,3,6-8) lock_acquire_now_free [OF assms(5,4)] small rel(1)
    by (simp add: sys_malloc_def heap_of_def the_pool_def Let_def word_less_nat_alt)
  have ok': "heap_ok (unheld ?l s2) A1" "live (unheld ?l s2) A1 = insert b (live s A)"
    using heap_ok_fields [of "unheld ?l s2" s2] s2(2,4) s1(3) by simp_all
  obtain i k where ik: "A1 i = Some ?d" "k < bcount ?d" "b = blk s1 ?d i k" using s2(7) by blast
  have "block_words b (bwords ?d) \<inter> block_words b' (bwords d') = {}"
    if "b' \<in> live s A" "A i' = Some d'" "k' < bcount d'" "b' = blk s d' i' k'" for b' d' i' k'
  proof -
    have x: "A1 i' = Some d'" "b' \<in> live s1 A1" "b' = blk s1 d' i' k'" using that s1(3,5,6) by auto
    with s2(3) have "blk s1 ?d i k \<noteq> blk s1 d' i' k'" using ik(3) by auto
    from blk_words_disjoint [of s1 A1 i ?d i' d' k k', OF heap_okD(1) [OF s1(2)] ik(1) x(1)
        heap_okD(5) [OF s1(2) ik(1)] heap_okD(5) [OF s1(2) x(1)] ik(2) that(3) this]
    show ?thesis unfolding ik(3) x(3) .
  qed
  then have dis: "block_words b (bwords ?d) \<inter> live_words s A = {}" unfolding live_words_def by blast
  have z: "\<forall>x \<in> block_words b (bwords ?d). load32 x (mmu (unheld ?l s2)) = Some 0"
    using s2(6) by (auto simp: block_words_def)
  have fr: "heap_frame s (unheld ?l s2)"
    using heap_frame_unheld [OF heap_frame_trans [OF s1(10) s2(11)] assms(5)] .
  have pg: "pages_left s \<le> pages_left (unheld ?l s2) + 1"
    using s1(11) s2(12) by (simp add: pages_left_def held_by_def unheld_def)
  show ?thesis
    using run ok' rel(2) s2(3,5) s1(3) d(2) dis z fr pg by metis
qed


subsection \<open>\<open>sys_free\<close> for small blocks\<close>

lemma unlink_arena_eq:
  "descs_ok s \<Longrightarrow> d < DESC_CNT \<Longrightarrow> kpages_ok s \<Longrightarrow> i < bm_size (vaddr_bitmap (kernel_vaddr s)) \<Longrightarrow>
   arena_at (kpage s i) s = Some ar \<Longrightarrow> arena_desc ar = Some (K_desc d) \<Longrightarrow> k + n \<le> bcount d \<Longrightarrow>
   distinct (flist s d) \<Longrightarrow> (\<forall>k' \<in> {k..<k + n}. blk s d i k' \<in> set (flist s d)) \<Longrightarrow>
   unlink_arena (kpage s i) (word_of_nat k) n s = Some (s\<lparr>k_block_descs := (k_block_descs s)
     [d := (k_block_descs s ! d)\<lparr>free_list := filter (\<lambda>x. x \<notin> blk s d i ` {k..<k + n}) (flist s d)\<rparr>]\<rparr>)"
proof (induction n arbitrary: k s)
  case 0
  then show ?case by (simp add: flist_def)
next
  case (Suc n)
  have kb: "k < bcount d" using Suc.prems(7) by simp
  let ?b = "blk s d i k" let ?l1 = "filter (\<lambda>x. x \<noteq> ?b) (flist s d)"
  let ?s1 = "s\<lparr>k_block_descs := (k_block_descs s)[d := (k_block_descs s ! d)\<lparr>free_list := ?l1\<rparr>]\<rparr>"
  have len: "d < length (k_block_descs s)" using Suc.prems(1,2) by (simp add: descs_ok_def)
  have kp: "kpage ?s1 = kpage s" by (simp add: fun_eq_iff kpage_def)
  then have bl: "blk ?s1 = blk s" by (simp add: fun_eq_iff blk_def)
  have fl: "flist ?s1 d = ?l1" using len by (simp add: flist_def)
  have nf: "?b \<in> set (flist s d)" using Suc.prems(9) by simp
  have r1: "remove1 ?b (flist s d) = ?l1"
    using Suc.prems(8) by (simp add: distinct_remove1_removeAll removeAll_filter_not_eq eq_commute)
  have step: "unlink_arena (kpage s i) (word_of_nat k) (Suc n) s = unlink_arena (kpage s i) (word_of_nat (Suc k)) n ?s1"
    using arena2block_blk [OF Suc.prems(1,2,5,6) kb] Suc.prems(5,6) nf desc_ref_simps [OF Suc.prems(1,2)]
      r1 [unfolded flist_def]
    by (simp add: desc_of_def q_defs flist_def add.commute)
  have ne: "blk s d i k' \<noteq> ?b" if "k' \<in> {Suc k..<Suc k + n}" for k'
    using blk_inj(2) [OF Suc.prems(3,4,4) _ kb, of k'] that Suc.prems(7) by auto
  have "unlink_arena (kpage ?s1 i) (word_of_nat (Suc k)) n ?s1 = Some (?s1\<lparr>k_block_descs := (k_block_descs ?s1)
     [d := (k_block_descs ?s1 ! d)\<lparr>free_list := filter (\<lambda>x. x \<notin> blk ?s1 d i ` {Suc k..<Suc k + n}) (flist ?s1 d)\<rparr>]\<rparr>)"
  proof (rule Suc.IH)
    show "descs_ok ?s1" using Suc.prems(1) len by (auto simp: descs_ok_def nth_list_update)
    show "kpages_ok ?s1" using Suc.prems(3) kpages_ok_fields [of ?s1 s] by simp
    show "arena_at (kpage ?s1 i) ?s1 = Some ar" using Suc.prems(5) unfolding kp by (simp add: arena_at_def)
    show "distinct (flist ?s1 d)" using Suc.prems(8) unfolding fl by simp
    show "\<forall>k' \<in> {Suc k..<Suc k + n}. blk ?s1 d i k' \<in> set (flist ?s1 d)"
      using Suc.prems(9) ne unfolding bl fl by auto
  qed (use Suc.prems in simp_all)
  moreover have "filter (\<lambda>x. x \<notin> blk s d i ` {Suc k..<Suc k + n}) ?l1 = filter (\<lambda>x. x \<notin> blk s d i ` {k..<k + Suc n}) (flist s d)"
  proof -
    have "{k..<k + Suc n} = insert k {Suc k..<Suc k + n}" by auto
    then show ?thesis by (auto intro: filter_cong)
  qed
  ultimately show ?case unfolding step kp bl fl using len by simp
qed

text \<open>Putting a block back on its list.\<close>

lemma give_block_ok:
  assumes ok: "heap_ok s A" and b: "A i = Some d" "k < bcount d" "b = blk s d i k" "b \<notin> set (flist s d)"
    and pa: "mmu_walk (mmu s) (kpage s i) = Some pa"
    and s': "s' = s\<lparr>k_block_descs := (k_block_descs s)[d := (k_block_descs s ! d)\<lparr>free_list := flist s d @ [b]\<rparr>],
      arenas := (arenas s)(pa \<mapsto> \<lparr>arena_desc = Some (K_desc d), arena_cnt = word_of_nat (card (free_in s d i)) + 1,
        arena_large = 0\<rparr>)\<rparr>"
  shows "heap_ok s' A" and "live s' A = live s A - {b}" and "flist s' d = flist s d @ [b]" and "kpage s' = kpage s"
    and "blk s' = blk s" and "free_in s' d i = insert k (free_in s d i)" and "k \<notin> free_in s d i"
proof -
  note D = heap_okD [OF ok]
  note d = D(4) [OF b(1)] and isz = D(5) [OF b(1)] and iu = D(6) [OF b(1)]
  have len: "d < length (k_block_descs s)" using D(3) d by (simp add: descs_ok_def)
  show kp: "kpage s' = kpage s" by (simp add: fun_eq_iff kpage_def s')
  then show bl: "blk s' = blk s" by (simp add: fun_eq_iff blk_def)
  show fl: "flist s' d = flist s d @ [b]" using len by (simp add: flist_def s')
  have flo: "\<forall>d'. d' \<noteq> d \<longrightarrow> flist s' d' = flist s d'" by (simp add: flist_def s')
  have inj: "blk s d i k' = b \<longleftrightarrow> k' = k" if "k' < bcount d" for k'
    using blk_inj(2) [OF D(1) isz isz that b(2)] b(3) by auto
  show fr: "free_in s' d i = insert k (free_in s d i)" using inj b(2,3) by (auto simp: free_in_def bl fl)
  show kn: "k \<notin> free_in s d i" using b by (simp add: free_in_def)
  have fin: "finite (free_in s d i)" by (simp add: free_in_def)
  have fc: "{k'. k' < bcount d \<and> blk s d i k' \<in> set (flist s d @ [b])} = insert k (free_in s d i)"
    using inj b(2,3) by (auto simp: free_in_def)
  have "heap_ok s' (A(i := Some d))"
  proof (rule heap_ok_update [OF ok isz iu d, where pa = pa and l = "flist s d @ [b]"])
    show "kpages_ok s'" using D(1) kpages_ok_fields [of s' s] by (simp add: s')
    show "distinct (flist s d @ [b])" using D(8) [OF d] b(4) by simp
  qed (use b pa D(2) fc kn fin in \<open>auto simp: s' pools_apart_def add.commute\<close>)
  then show "heap_ok s' A" using b(1) by (simp add: fun_upd_idem)
  have "live s A = insert b (live s' A)"
  proof (rule live_pop)
    show "blk s = blk s'" "\<forall>d'. d' \<noteq> d \<longrightarrow> flist s d' = flist s' d'" using bl flo by simp_all
  qed (use b fl bl in simp_all)
  moreover have "b \<notin> live s' A"
  proof
    assume "b \<in> live s' A"
    then obtain d' i' k' where x: "A i' = Some d'" "k' < bcount d'" "b = blk s d' i' k'" "b \<notin> set (flist s' d')"
      by (elim liveE) (simp add: bl)
    then have "i' = i" using blk_inj(1) [OF D(1) D(5) [OF x(1)] isz x(2) b(2)] b(3) by simp
    then show False using x b(1) fl by simp
  qed
  ultimately show "live s' A = live s A - {b}" by auto
qed

text \<open>The arena whose blocks are all free is taken apart and its page given back.\<close>

lemma drop_arena_ok:
  assumes ok: "heap_ok s A" and Ai: "A i = Some d" and full: "\<forall>k < bcount d. blk s d i k \<in> set (flist s d)"
  shows "\<exists>s1 s'. unlink_arena (kpage s i) 0 (bcount d) s = Some s1 \<and> mfree_page PF_KERNEL (kpage s i) 1 s1 = Some s' \<and>
    heap_ok s' (A(i := None)) \<and> live s' (A(i := None)) = live s A \<and>
    heap_frame s s' \<and> pages_left s \<le> pages_left s' \<and>
    bm_free (vaddr_bitmap (kernel_vaddr s')) = insert i (bm_free (vaddr_bitmap (kernel_vaddr s)))"
proof -
  note D = heap_okD [OF ok]
  note d = D(4) [OF Ai] and isz = D(5) [OF Ai] and iu = D(6) [OF Ai]
  have len: "d < length (k_block_descs s)" using D(3) d by (simp add: descs_ok_def)
  let ?l = "filter (\<lambda>x. x \<notin> blk s d i ` {0..<bcount d}) (flist s d)"
  let ?s1 = "s\<lparr>k_block_descs := (k_block_descs s)[d := (k_block_descs s ! d)\<lparr>free_list := ?l\<rparr>]\<rparr>"
  have un: "unlink_arena (kpage s i) 0 (bcount d) s = Some ?s1"
    using unlink_arena_eq [OF D(3) d D(1) isz D(7) [OF Ai], of 0 "bcount d"] D(8) [OF d] full by simp
  obtain pa where pa: "mmu_walk (mmu s) (kpage s i) = Some pa"
    using kpages_okD(7) [OF D(1) isz iu] by blast
  have kp: "kpage ?s1 = kpage s" by (simp add: fun_eq_iff kpage_def)
  then have bl: "blk ?s1 = blk s" by (simp add: fun_eq_iff blk_def)
  have fl: "flist ?s1 d' = (if d' = d then ?l else flist s d')" for d'
    using len by (cases "d' = d") (simp_all add: flist_def)
  have ok1: "heap_ok ?s1 (A(i := None))"
  proof (rule heap_ok_update [OF ok isz iu d, where pa = pa and l = ?l])
    show "kpages_ok ?s1" using D(1) kpages_ok_fields [of ?s1 s] by simp
  qed (use Ai D(2) D(8) [OF d] pa in \<open>auto simp: pools_apart_def\<close>)
  have live1: "live ?s1 (A(i := None)) = live s A"
  proof (intro set_eqI iffI)
    fix x assume "x \<in> live ?s1 (A(i := None))"
    then obtain d' i' k' where x: "(A(i := None)) i' = Some d'" "k' < bcount d'" "x = blk s d' i' k'" "x \<notin> set (flist ?s1 d')"
      by (elim liveE) (simp add: bl)
    then have a: "A i' = Some d'" "i' \<noteq> i" by (auto split: if_splits)
    have "blk s d i k \<noteq> x" if "k < bcount d" for k
      using blk_inj(1) [OF D(1) D(5) [OF a(1)] isz x(2) that] x(3) a(2) by auto
    then have "x \<notin> blk s d i ` {0..<bcount d}" by (metis atLeastLessThan_iff imageE)
    then have "x \<notin> set (flist s d')" using x(4) by (cases "d' = d") (simp_all add: fl)
    then show "x \<in> live s A" using liveI [of A i' d' k' s] a x by simp
  next
    fix x assume "x \<in> live s A"
    then obtain d' i' k' where x: "A i' = Some d'" "k' < bcount d'" "x = blk s d' i' k'" "x \<notin> set (flist s d')"
      by (rule liveE)
    then have ne: "i' \<noteq> i" using Ai full by auto
    have "x \<notin> set (flist ?s1 d')" using x(4) by (cases "d' = d") (auto simp: fl)
    then show "x \<in> live ?s1 (A(i := None))" using liveI [of "A(i := None)" i' d' k' ?s1] x ne by (simp add: bl)
  qed
  have isz1: "i < bm_size (vaddr_bitmap (kernel_vaddr ?s1))" and iu1: "i \<notin> bm_free (vaddr_bitmap (kernel_vaddr ?s1))"
    using isz iu by simp_all
  obtain j s' where s': "mfree_page PF_KERNEL (kpage ?s1 i) 1 ?s1 = Some s'" "page_removed i j ?s1 s'" "kpages_ok s'"
    using free_kpage [OF heap_okD(1,2) [OF ok1] isz1 iu1] by blast
  have eq: "s' = ?s1\<lparr>kernel_vaddr := kernel_vaddr s', mmu := mmu s',
      kernel_pool := (kernel_pool ?s1)\<lparr>pool_bitmap := pool_bitmap (kernel_pool s')\<rparr>\<rparr>"
    using s'(2) unfolding page_removed_def by blast
  have f: "k_block_descs s' = k_block_descs ?s1" "arenas s' = arenas s" "user_pool s' = user_pool s"
      "phy_addr_start (kernel_pool s') = phy_addr_start (kernel_pool s)" "locks s' = locks s" "semas s' = semas s"
      "running s' = running s" "tasks s' = tasks s" "eflags s' = eflags s"
      "pool_lock (kernel_pool s') = pool_lock (kernel_pool s)" "pool_size (kernel_pool s') = pool_size (kernel_pool s)"
    by (subst eq, simp)+
  have g: "vaddr_start (kernel_vaddr s') = vaddr_start (kernel_vaddr ?s1)"
      "bm_size (vaddr_bitmap (kernel_vaddr s')) = bm_size (vaddr_bitmap (kernel_vaddr ?s1))"
      "bm_size (pool_bitmap (kernel_pool s')) = bm_size (pool_bitmap (kernel_pool s))"
      "bm_free (vaddr_bitmap (kernel_vaddr s')) = insert i (bm_free (vaddr_bitmap (kernel_vaddr s)))"
      "\<forall>x. mmu_walk (mmu s') x = (if same_page x (kpage ?s1 i) then None else mmu_walk (mmu ?s1) x)"
      "bm_free (pool_bitmap (kernel_pool s')) = insert j (bm_free (pool_bitmap (kernel_pool s)))"
    using s'(2) by (simp_all add: page_removed_def)
  have ap: "pools_apart s'" using D(2) f g by (simp add: pools_apart_def)
  have dom: "\<forall>i' d'. (A(i := None)) i' = Some d' \<longrightarrow> i' \<notin> bm_free (vaddr_bitmap (kernel_vaddr s')) \<and>
      mmu_walk (mmu s') (kpage ?s1 i') = mmu_walk (mmu ?s1) (kpage ?s1 i')"
    using g(4,5) D(5,6) nth_page_same [OF kpages_okD(1) [OF D(1)] _ isz] by (auto simp: kpage_def)
  have "arenas s' = arenas ?s1" using f(2) by simp
  note p = heap_ok_pages [OF ok1 s'(3) ap g(1,2) f(1) this dom]
  note p = p(1) trans [OF p(2) live1]
  have "heap_frame s s'" using f g(1) by (simp add: heap_frame_def)
  moreover have "pages_left s \<le> pages_left s'"
    unfolding pages_left_def g(4,6) by (intro min.mono card_mono) auto
  ultimately show ?thesis using p un s'(1) g(4) unfolding kp by blast
qed

lemma sys_free_block:
  assumes "heap_ok s A" and "tasks s (running s) = Some p" and "pgdir p = 0" and "running s \<noteq> 0"
    and "lock_free (pool_lock (kernel_pool s)) s" and "vaddr_start (kernel_vaddr s) = K_HEAP_START"
    and "b \<in> live s A"
  shows "\<exists>s' A'. sys_free b s = Some s' \<and> heap_ok s' A' \<and> lock_free (pool_lock (kernel_pool s)) s' \<and>
    live s' A' = live s A - {b} \<and> heap_frame s s' \<and> pages_left s \<le> pages_left s'"
proof -
  let ?l = "pool_lock (kernel_pool s)" let ?h = "held_by ?l (running s) s"
  obtain d i k where b: "A i = Some d" "k < bcount d" "b = blk s d i k" "b \<notin> set (flist s d)"
    using assms(7) by (rule liveE)
  note D = heap_okD [OF assms(1)]
  note d = D(4) [OF b(1)] and isz = D(5) [OF b(1)] and iu = D(6) [OF b(1)]
  have ba: "block2arena b = kpage s i" "b \<noteq> 0"
    using blk_page [OF D(1) isz b(2)] b(3) by auto
  obtain pa where pa: "mmu_walk (mmu s) (kpage s i) = Some pa"
    using kpages_okD(7) [OF D(1) isz iu] by blast
  have hp: "b \<ge> K_HEAP_START"
  proof -
    note u = unat_nth_page [OF kpages_okD(1) [OF D(1)] isz, folded kpage_def]
    have o: "unat (word_off (3 + k * bwords d)) < 4096" by (rule word_off_small [OF blk_word [OF b(2)]])
    have lim: "unat (vaddr_start (kernel_vaddr s)) + i * 4096 + 4096 < 2 ^ 32"
      using kpages_okD(1) [OF D(1)] isz unfolding range_ok_def by linarith
    have "unat b = unat (kpage s i) + unat (word_off (3 + k * bwords d))"
      unfolding b(3) blk_def by (rule unat_add_small) (use u o lim in linarith)
    then show ?thesis using u assms(6) by (simp add: word_le_nat_alt)
  qed
  have okh: "heap_ok ?h A" and liveh: "live ?h A = live s A" and fh: "flist ?h = flist s" and bh: "blk ?h = blk s"
    using heap_ok_fields [of ?h s] assms(1) by simp_all
  have kh: "kpage ?h = kpage s" by (simp add: fun_eq_iff kpage_def)
  have frh: "free_in ?h = free_in s" by (simp add: fun_eq_iff free_in_def fh bh)
  let ?ar = "\<lparr>arena_desc = Some (K_desc d), arena_cnt = word_of_nat (card (free_in s d i)), arena_large = 0\<rparr>"
  let ?s1 = "?h\<lparr>k_block_descs := (k_block_descs ?h)[d := (k_block_descs ?h ! d)\<lparr>free_list := flist ?h d @ [b]\<rparr>],
      arenas := (arenas ?h)(pa \<mapsto> \<lparr>arena_desc = Some (K_desc d), arena_cnt = word_of_nat (card (free_in ?h d i)) + 1,
        arena_large = 0\<rparr>)\<rparr>"
  have at: "arena_at (kpage s i) ?h = Some ?ar" using heap_okD(7) [OF okh b(1)] by (simp add: kh frh)
  have pah: "mmu_walk (mmu ?h) (kpage ?h i) = Some pa" using pa by (simp add: kh)
  note g = give_block_ok [OF okh b(1,2) _ _ pah refl, of b]
  have g: "heap_ok ?s1 A" "live ?s1 A = live s A - {b}" "flist ?s1 d = flist s d @ [b]" "kpage ?s1 = kpage s"
      "blk ?s1 = blk s" "free_in ?s1 d i = insert k (free_in s d i)" "k \<notin> free_in s d i"
    using g b(3,4) by (simp_all add: liveh fh bh kh frh)
  have fin: "finite (free_in s d i)" by (simp add: free_in_def)
  have sub: "insert k (free_in s d i) \<subseteq> {..<bcount d}" using b(2) by (auto simp: free_in_def)
  have cb: "card (insert k (free_in s d i)) \<le> bcount d" using card_mono [OF _ sub] by simp
  have bc: "bcount d < 2 ^ 32" using desc_table [OF D(3) d] unat_u32 by metis
  have full_iff: "word_of_nat (card (free_in s d i)) + 1 = blocks_per_arena (k_block_descs s ! d) \<longleftrightarrow>
      insert k (free_in s d i) = {..<bcount d}"
  proof -
    have "word_of_nat (card (free_in s d i)) + 1 = (word_of_nat (card (insert k (free_in s d i))) :: u32)"
      using g(7) fin by (simp add: add.commute)
    also have "\<dots> = blocks_per_arena (k_block_descs s ! d) \<longleftrightarrow> card (insert k (free_in s d i)) = bcount d"
    proof -
      have "unat (word_of_nat (card (insert k (free_in s d i))) :: u32) = card (insert k (free_in s d i))"
        using cb bc by (simp add: unat_of_nat)
      then show ?thesis using desc_table [OF D(3) d] by (simp only: word_unat_eq_iff)
    qed
    also have "\<dots> \<longleftrightarrow> insert k (free_in s d i) = {..<bcount d}"
      by (metis card_lessThan card_subset_eq finite_lessThan sub)
    finally show ?thesis .
  qed
  obtain s2 A2 where s2: "free_small PF_KERNEL b ?h = Some s2" "heap_ok s2 A2" "live s2 A2 = live s A - {b}"
      "locks s2 = locks ?h" "semas s2 = semas ?h" "running s2 = running s" "heap_frame ?h s2" "pages_left ?h \<le> pages_left s2"
  proof (cases "insert k (free_in s d i) = {..<bcount d}")
    case True
    have full: "\<forall>k' < bcount d. blk ?s1 d i k' \<in> set (flist ?s1 d)"
      using True g(6) unfolding free_in_def by blast
    obtain s3 s' where s3: "unlink_arena (kpage ?s1 i) 0 (bcount d) ?s1 = Some s3"
        "mfree_page PF_KERNEL (kpage ?s1 i) 1 s3 = Some s'"
        "heap_ok s' (A(i := None))" "live s' (A(i := None)) = live ?s1 A"
        "heap_frame ?s1 s'" "pages_left ?s1 \<le> pages_left s'"
      using drop_arena_ok [OF g(1) b(1) full] by blast
    have "free_small PF_KERNEL b ?h = Some s'"
      using ba at desc_ref_simps [OF heap_okD(3) [OF okh] d] desc_table [OF D(3) d] full_iff True s3(1,2) g(4) pa
      by (simp add: free_small_def Let_def q_defs flist_def set_arena_def frh)
    then show ?thesis using that [of s' "A(i := None)"] s3(3-6) g(2)
      by (simp add: heap_frame_def pages_left_def)
  next
    case False
    have "free_small PF_KERNEL b ?h = Some ?s1"
      using ba at desc_ref_simps [OF heap_okD(3) [OF okh] d] full_iff False pa
      by (simp add: free_small_def Let_def q_defs flist_def set_arena_def frh)
    then show ?thesis using that [of ?s1 A] g(1,2) by (simp add: heap_frame_def pages_left_def)
  qed
  have rel: "lock_release_now ?l s2 = Some (unheld ?l s2)" "lock_free ?l (unheld ?l s2)"
    using lock_release_held [of s2 ?l s] s2(4-6) by simp_all
  have run: "sys_free b s = Some (unheld ?l s2)"
    using assms(2,3) lock_acquire_now_free [OF assms(5,4)] ba hp at s2(1) rel(1)
    by (simp add: sys_free_def heap_of_def the_pool_def Let_def)
  have "heap_ok (unheld ?l s2) A2" "live (unheld ?l s2) A2 = live s A - {b}"
    using heap_ok_fields [of "unheld ?l s2" s2] s2(2,3) by simp_all
  moreover have "heap_frame s (unheld ?l s2)" using heap_frame_unheld [OF s2(7) assms(5)] .
  moreover have "pages_left s \<le> pages_left (unheld ?l s2)"
    using s2(8) by (simp add: pages_left_def held_by_def unheld_def)
  ultimately show ?thesis using run rel(2) by blast
qed


subsection \<open>An example\<close>

text \<open>
  Eight pages from \<open>0xc0100000\<close> and eight frames from \<open>0x200000\<close>. Page 0 is mapped to frame 0 and is an arena of
  three blocks of 1024 bytes, of which the first is in use.
\<close>

definition demo_descs :: "mem_block_desc list" where
  "demo_descs = map (\<lambda>d. \<lparr>block_size = word_of_nat (4 * bwords d), blocks_per_arena = word_of_nat (bcount d),
     free_list = (if d = 6 then [0xc010040c, 0xc010080c] else [])\<rparr>) [0..<7]"

definition demo_mem :: kmem where
  "demo_mem = kstate.extend (demo_kernel\<lparr>mmu := demo_mmu,
       locks := [0xc0300000 \<mapsto> \<lparr>holder = 0, holder_repeat_nr = 0\<rparr>],
       semas := [lock_sema 0xc0300000 \<mapsto> \<lparr>value = 1, waiters = []\<rparr>]\<rparr>)
     (kmem.fields \<lparr>pool_bitmap = \<lparr>btmp_bytes_len = 1, bits = [1]\<rparr>, phy_addr_start = 0x200000, pool_size = 0x8000, pool_lock = 0xc0300000\<rparr>
       \<lparr>pool_bitmap = \<lparr>btmp_bytes_len = 1, bits = [0]\<rparr>, phy_addr_start = 0x208000, pool_size = 0x8000, pool_lock = 0xc0300100\<rparr>
       \<lparr>vaddr_bitmap = \<lparr>btmp_bytes_len = 1, bits = [1]\<rparr>, vaddr_start = 0xc0100000\<rparr>
       demo_descs
       [0x200000 \<mapsto> \<lparr>arena_desc = Some (K_desc 6), arena_cnt = 2, arena_large = 0\<rparr>])"

lemma demo_mem_simps [simp]:
  "mmu demo_mem = demo_mmu" "running demo_mem = 0xc009e000"
  "kernel_pool demo_mem = \<lparr>pool_bitmap = \<lparr>btmp_bytes_len = 1, bits = [1]\<rparr>, phy_addr_start = 0x200000, pool_size = 0x8000, pool_lock = 0xc0300000\<rparr>"
  "user_pool demo_mem = \<lparr>pool_bitmap = \<lparr>btmp_bytes_len = 1, bits = [0]\<rparr>, phy_addr_start = 0x208000, pool_size = 0x8000, pool_lock = 0xc0300100\<rparr>"
  "kernel_vaddr demo_mem = \<lparr>vaddr_bitmap = \<lparr>btmp_bytes_len = 1, bits = [1]\<rparr>, vaddr_start = 0xc0100000\<rparr>"
  "k_block_descs demo_mem = demo_descs"
  "arenas demo_mem = [0x200000 \<mapsto> \<lparr>arena_desc = Some (K_desc 6), arena_cnt = 2, arena_large = 0\<rparr>]"
  "tasks demo_mem = tasks demo_kernel"
  "lock_free 0xc0300000 demo_mem"
  by (simp_all add: demo_mem_def kstate.defs kmem.defs demo_kernel_def lock_free_def)

lemma demo_bits [simp]:
  "bm_size \<lparr>btmp_bytes_len = Suc 0, bits = b\<rparr> = 8" "bm_wf \<lparr>btmp_bytes_len = Suc 0, bits = [x]\<rparr>"
  "bm_free \<lparr>btmp_bytes_len = Suc 0, bits = [1]\<rparr> = {Suc 0..<8}"
proof -
  have "bm_bit \<lparr>btmp_bytes_len = Suc 0, bits = [1]\<rparr> i \<longleftrightarrow> i = 0" if "i < 8" for i
    using that by (simp add: bm_bit_def bit_1_iff)
  then show "bm_free \<lparr>btmp_bytes_len = Suc 0, bits = [1]\<rparr> = {Suc 0..<8}"
    by (auto simp: bm_free_def bm_size_def)
qed (simp_all add: bm_size_def bm_wf_def)

lemma less8: "i < (8 :: nat) \<longleftrightarrow> i = 0 \<or> i = 1 \<or> i = 2 \<or> i = 3 \<or> i = 4 \<or> i = 5 \<or> i = 6 \<or> i = 7"
  by auto

lemma demo_page:
  assumes "i < 8"
  shows "PDE_IDX (kpage demo_mem i) = 0x300" "PTE_IDX (kpage demo_mem i) = 0x100 + word_of_nat i"
    "kpage demo_mem i AND 0xfff = 0"
  using assms unfolding less8
  by (auto simp: kpage_def nth_page_def PG_SIZE_def PDE_IDX_def PTE_IDX_def)

lemma demo_walk: "i < 8 \<Longrightarrow> mmu_walk demo_mmu (kpage demo_mem i) = (if i = 0 then Some 0x200000 else None)"
proof -
  assume i: "i < 8"
  have d: "ram demo_mmu (pde_at demo_mmu (kpage demo_mem i)) = 0x101007"
    unfolding demo_mmu_dir demo_page [OF i] by simp
  have p: "pte_at demo_mmu (kpage demo_mem i) = 0x101400 + 4 * word_of_nat i"
    unfolding pte_at_frame d demo_page [OF i] by (simp add: frame_of_def distrib_left)
  have "ram demo_mmu (pte_at demo_mmu (kpage demo_mem i)) = (if i = 0 then 0x200007 else 0)"
    unfolding p using i unfolding less8 by (auto simp: demo_mmu_def)
  then show ?thesis
    using d demo_page(3) [OF i]
    by (cases "i = 0") (simp_all add: walk_simps pde_present_def pte_present_def frame_of_def)
qed

lemma demo_tables: "table_frames demo_mmu = {0x100000, 0x101000}"
proof -
  have c: "frame_of (cr3 demo_mmu) = 0x100000" by (simp add: demo_mmu_def frame_of_def)
  have "frame_of (ram demo_mmu (pde_at demo_mmu x)) \<in> {0x100000, 0x101000}" if "pde_present demo_mmu x" for x
    using that unfolding pde_present_def demo_mmu_dir by (auto simp: frame_of_def split: if_splits)
  moreover have "pde_present demo_mmu 0xc0100000 \<and> frame_of (ram demo_mmu (pde_at demo_mmu 0xc0100000)) = 0x101000"
    unfolding pde_present_def demo_mmu_dir by (simp add: PDE_IDX_def frame_of_def)
  ultimately show ?thesis unfolding table_frames_def c by auto
qed

lemma demo_frame: "j < 8 \<Longrightarrow> frame_no (kernel_pool demo_mem) j \<notin> table_frames demo_mmu"
  unfolding less8 demo_tables by (auto simp: frame_no_def nth_page_def PG_SIZE_def)

lemma demo_kpages: "kpages_ok demo_mem"
proof (rule kpages_okI)
  fix i assume "i < bm_size (vaddr_bitmap (kernel_vaddr demo_mem))"
  then have i: "i < 8" by simp
  have d: "pde_at demo_mmu (kpage demo_mem i) = pde_at demo_mmu 0xc0100000" "PDE_IDX (kpage demo_mem i) = PDE_IDX 0xc0100000"
    using demo_page(1) [OF i] by (simp_all add: pde_at_def PDE_IDX_def)
  show "pde_present (mmu demo_mem) (kpage demo_mem i)" "own_table (mmu demo_mem) (kpage demo_mem i)"
    using demo_mmu_ok(2,3) unfolding pde_present_def own_table_def demo_mem_simps d by auto
next
  show "range_ok (vaddr_start (kernel_vaddr demo_mem)) (vaddr_bitmap (kernel_vaddr demo_mem))"
    "range_ok (phy_addr_start (kernel_pool demo_mem)) (pool_bitmap (kernel_pool demo_mem))"
    by (simp_all add: range_ok_def aligned_mod)
  show "self_mapped (mmu demo_mem)" using demo_mmu_ok(1) by simp
next
  fix j assume "j \<in> bm_free (pool_bitmap (kernel_pool demo_mem))"
  then have "j < 8" by simp
  then show "frame_no (kernel_pool demo_mem) j \<notin> table_frames (mmu demo_mem)"
    using demo_frame by simp
next
  fix i assume "i \<in> bm_free (vaddr_bitmap (kernel_vaddr demo_mem))"
  then show "mmu_walk (mmu demo_mem) (kpage demo_mem i) = None" using demo_walk [of i] by simp
next
  fix i assume "i < bm_size (vaddr_bitmap (kernel_vaddr demo_mem))" "i \<notin> bm_free (vaddr_bitmap (kernel_vaddr demo_mem))"
  then have "i = 0" by auto
  then show "\<exists>j<bm_size (pool_bitmap (kernel_pool demo_mem)). j \<notin> bm_free (pool_bitmap (kernel_pool demo_mem)) \<and>
      mmu_walk (mmu demo_mem) (kpage demo_mem i) = Some (frame_no (kernel_pool demo_mem) j) \<and>
      frame_no (kernel_pool demo_mem) j \<notin> table_frames (mmu demo_mem)"
    using demo_walk [of 0] demo_frame [of 0] by (intro exI [of _ 0]) (simp add: frame_no_def nth_page_def)
next
  fix i i' assume "i < bm_size (vaddr_bitmap (kernel_vaddr demo_mem))" "i' < bm_size (vaddr_bitmap (kernel_vaddr demo_mem))"
    "mmu_walk (mmu demo_mem) (kpage demo_mem i) = mmu_walk (mmu demo_mem) (kpage demo_mem i')"
  then show "mmu_walk (mmu demo_mem) (kpage demo_mem i) = None \<or> i = i'"
    using demo_walk [of i] demo_walk [of i'] by (auto split: if_splits)
qed

lemma demo_blk: "bwords 6 = 256" "bcount 6 = 3" "blk demo_mem 6 0 k = 0xc010000c + word_of_nat k * 1024"
  by (simp_all add: bwords_def bcount_def blk_def kpage_def nth_page_def word_off_def distrib_left mult.commute)

lemma demo_heap: "heap_ok demo_mem [0 \<mapsto> 6]"
proof -
  have l: "length demo_descs = 7" by (simp add: demo_descs_def)
  have nth: "demo_descs ! d = \<lparr>block_size = word_of_nat (4 * bwords d), blocks_per_arena = word_of_nat (bcount d),
     free_list = (if d = 6 then [0xc010040c, 0xc010080c] else [])\<rparr>" if "d < 7" for d
    using that unfolding demo_descs_def by simp
  have fl: "flist demo_mem d = (if d = 6 then [0xc010040c, 0xc010080c] else [])" if "d < 7" for d
    by (simp add: flist_def nth [OF that])
  have b: "blk demo_mem 6 0 0 = 0xc010000c" "blk demo_mem 6 0 1 = 0xc010040c" "blk demo_mem 6 0 2 = 0xc010080c"
    by (simp_all add: demo_blk)
  have three: "k = 0 \<or> k = 1 \<or> k = 2" if "k < 3" for k :: nat using that by linarith
  have "k \<in> free_in demo_mem 6 0 \<longleftrightarrow> k = 1 \<or> k = 2" for k
    using three [of k] b fl [of 6] unfolding free_in_def demo_blk(2) by auto
  then have "free_in demo_mem 6 0 = {1, 2}" by blast
  then have c: "card (free_in demo_mem 6 0) = 2" by simp
  have at: "arena_at (kpage demo_mem 0) demo_mem = Some \<lparr>arena_desc = Some (K_desc 6), arena_cnt = 2, arena_large = 0\<rparr>"
    using demo_walk [of 0] by (simp add: arena_at_def)
  have "descs_ok demo_mem" using l nth by (simp add: descs_ok_def DESC_CNT_def)
  moreover have "pools_apart demo_mem" by (simp add: pools_apart_def)
  moreover have "\<exists>k < bcount 6. blk demo_mem 6 0 k = 0xc010040c" "\<exists>k < bcount 6. blk demo_mem 6 0 k = 0xc010080c"
    using b demo_blk(2) by (intro exI [of _ 1], simp, intro exI [of _ 2], simp)
  ultimately show ?thesis
    using demo_kpages c at fl unfolding heap_ok_def by (simp add: DESC_CNT_def)
qed

lemma demo_live: "0xc010000c \<in> live demo_mem [0 \<mapsto> 6]"
  using liveI [of "[0 \<mapsto> 6]" 0 6 0 demo_mem] by (simp add: demo_blk flist_def demo_descs_def)

lemma demo_task_mem: "tasks demo_mem (running demo_mem) = Some (demo_task 0 TASK_RUNNING)"
    "pgdir (demo_task 0 TASK_RUNNING) = 0"
  by (simp_all add: demo_kernel_def demo_task_def)

theorem mem_pool_init_bounds_witness:
  "\<exists>s'. mem_pool_init 0x2000000 (replicate 1440 0) demo_mem = Some s' \<and>
    unat (pool_size (kernel_pool s')) + unat (pool_size (user_pool s')) = 7680 * 4096"
  using mem_pool_init_bounds [of "0x2000000" "replicate 1440 0" demo_mem] by auto




end
