(* ===== verification/Byte_Codec.thy ===== *)
theory Byte_Codec
  imports CString
begin

text \<open>
  How the disk and the memory hold the integers of the file system's structures: a \<open>uint32_t\<close> is four
  bytes, the low one first, and an array of them is their bytes one after the other. Buffers are byte
  lists, and an access beyond the end of one is \<open>None\<close>.
\<close>

unbundle bit_operations_syntax

definition le32 :: "u32 \<Rightarrow> u8 list" where
  "le32 w = [ucast w, ucast (drop_bit 8 w), ucast (drop_bit 16 w), ucast (drop_bit 24 w)]"

definition u32_of :: "u8 list \<Rightarrow> u32" where
  "u32_of bs = ucast (bs ! 0) OR push_bit 8 (ucast (bs ! 1)) OR push_bit 16 (ucast (bs ! 2)) OR
     push_bit 24 (ucast (bs ! 3))"

definition le32s :: "u32 list \<Rightarrow> u8 list" where
  "le32s ws = concat (map le32 ws)"

fun u32s_of :: "nat \<Rightarrow> u8 list \<Rightarrow> u32 list" where
  "u32s_of 0 bs = []"
| "u32s_of (Suc n) bs = u32_of bs # u32s_of n (drop 4 bs)"

definition get_buf :: "u8 list \<Rightarrow> nat \<Rightarrow> nat \<Rightarrow> u8 list option" where
  "get_buf buf a n = (if a + n \<le> length buf then Some (bytes_at a n buf) else None)"

definition put_buf :: "u8 list \<Rightarrow> nat \<Rightarrow> u8 list \<Rightarrow> u8 list option" where
  "put_buf buf a bs = (if a + length bs \<le> length buf then Some (put_bytes buf a bs) else None)"

lemma length_le32 [simp]: "length (le32 w) = 4"
  by (simp add: le32_def)

lemma u32_of_le32 [simp]: "u32_of (le32 w @ r) = w"
proof (rule bit_eqI)
  fix n assume "possible_bit TYPE(u32) n"
  then have "n < 32" by simp
  then consider "n < 8" | "8 \<le> n" "n < 16" | "16 \<le> n" "n < 24" | "24 \<le> n" "n < 32" by linarith
  then show "bit (u32_of (le32 w @ r)) n \<longleftrightarrow> bit w n"
    by cases (auto simp: u32_of_def le32_def bit_simps)
qed

lemma u32_of_le32' [simp]: "u32_of (le32 w) = w"
  using u32_of_le32 [of w "[]"] by simp

lemma length_le32s [simp]: "length (le32s ws) = 4 * length ws"
  by (induction ws) (simp_all add: le32s_def)

lemma le32s_simps [simp]: "le32s [] = []" "le32s (w # ws) = le32 w @ le32s ws" "le32s (us @ ws) = le32s us @ le32s ws"
  by (simp_all add: le32s_def)

lemma length_u32s_of [simp]: "length (u32s_of n bs) = n"
  by (induction n arbitrary: bs) simp_all

lemma u32s_of_le32s [simp]: "u32s_of (length ws) (le32s ws @ r) = ws"
  by (induction ws) simp_all

lemma u32s_of_le32s_n: "n = length ws \<Longrightarrow> u32s_of n (le32s ws) = ws"
  using u32s_of_le32s [of ws "[]"] by simp

lemma nth_u32s_of: "i < n \<Longrightarrow> u32s_of n bs ! i = u32_of (drop (4 * i) bs)"
proof (induction n arbitrary: bs i)
  case (Suc n)
  then show ?case by (cases i) (simp_all add: add.commute)
qed simp

lemma le32_u32_of: "length bs = 4 \<Longrightarrow> le32 (u32_of bs) = bs"
proof -
  assume "length bs = 4"
  then obtain a b c d where bs: "bs = [a, b, c, d]"
    by (auto simp: numeral_eq_Suc length_Suc_conv)
  have "ucast (u32_of bs) = a" "ucast (drop_bit 8 (u32_of bs)) = b" "ucast (drop_bit 16 (u32_of bs)) = c"
    "ucast (drop_bit 24 (u32_of bs)) = d"
    unfolding bs u32_of_def by (rule bit_eqI; auto simp: bit_simps dest: bit_imp_le_length)+
  then show ?thesis by (simp add: le32_def bs)
qed

lemma get_buf_in [simp]: "a + n \<le> length buf \<Longrightarrow> get_buf buf a n = Some (bytes_at a n buf)"
  by (simp add: get_buf_def)

lemma put_buf_in [simp]: "a + length bs \<le> length buf \<Longrightarrow> put_buf buf a bs = Some (put_bytes buf a bs)"
  by (simp add: put_buf_def)

lemma put_bytes_all: "length ys = length xs \<Longrightarrow> put_bytes xs 0 ys = ys"
  by (simp add: put_bytes_def)

end
