(* ===== verification/Device_Ide.thy ===== *)
theory Device_Ide
  imports Byte_Codec Kernel_Heap Kernel_Stdio
begin

text \<open>
  \<open>device/ide.c\<close>: the two ATA channels, reading and writing sectors, the disk interrupt, and the scan
  of the partition tables.

  The contents of the disks are \<open>media\<close>, a sector of 512 bytes for each address. The bytes written to
  the registers of a channel during a command are the list the functions return; the disk takes the
  sector address, the device and the count from the last value of each register, as the ATA interface
  lays down. \<open>ide_status\<close> gives what the reads of the status register will return. While a task waits
  on \<open>disk_done\<close> the interrupt of the finished command comes in: \<open>await_disk\<close> runs the handler first and
  then takes the semaphore. Sleeping in \<open>busy_wait\<close> only lets other tasks run and changes nothing here.
\<close>

unbundle bit_operations_syntax

type_synonym disk_ref = "nat \<times> nat" \<comment> \<open>channel, and device on it\<close>

datatype part_ref = Prim_part disk_ref nat | Logic_part disk_ref nat

subsection \<open>Data\<close>

record super_block =
  magic :: u32
  sb_sec_cnt :: u32
  inode_cnt :: u32
  part_lba_base :: u32
  block_bitmap_lba :: u32
  block_bitmap_sects :: u32
  inode_bitmap_lba :: u32
  inode_bitmap_sects :: u32
  inode_table_lba :: u32
  inode_table_sects :: u32
  data_start_lba :: u32
  root_inode_no :: u32
  dir_entry_size :: u32

record partition =
  start_lba :: u32
  sec_cnt :: u32
  my_disk :: disk_ref
  part_name :: "u8 list"
  sb :: "super_block option"
  block_bitmap :: bitmap
  inode_bitmap :: bitmap
  open_inodes :: "u32 list"

record disk =
  disk_name :: "u8 list"
  my_channel :: nat
  dev_no :: u8

record ide_channel =
  channel_name :: "u8 list"
  port_base :: u16
  irq_no :: u8
  chan_lock :: u32
  expecting_intr :: bool
  disk_done :: u32
  devices :: "disk list"

record ide_state =
  kern :: kmem
  intrs :: intr_state
  channel_cnt :: u8
  channels :: "ide_channel list"
  media :: "disk_ref \<Rightarrow> nat \<Rightarrow> u8 list"
  identity :: "disk_ref \<Rightarrow> u8 list"
  ide_status :: "nat \<Rightarrow> nat \<Rightarrow> u8"
  ext_lba_base :: u32
  p_no :: u8
  l_no :: u8
  parts :: "part_ref \<Rightarrow> partition"
  partition_list :: "part_ref list"

definition BIT_STAT_BUSY :: u8 where "BIT_STAT_BUSY = 0x80"
definition BIT_STAT_DRQ :: u8 where "BIT_STAT_DRQ = 0x8"
definition BIT_DEV_MBS :: u8 where "BIT_DEV_MBS = 0xa0"
definition BIT_DEV_LBA :: u8 where "BIT_DEV_LBA = 0x40"
definition BIT_DEV_DEV :: u8 where "BIT_DEV_DEV = 0x10"
definition CMD_IDENTIFY :: u8 where "CMD_IDENTIFY = 0xec"
definition CMD_READ_SECTOR :: u8 where "CMD_READ_SECTOR = 0x20"
definition CMD_WRITE_SECTOR :: u8 where "CMD_WRITE_SECTOR = 0x30"
definition max_lba :: u32 where "max_lba = 80 * 1024 * 1024 div 512 - 1"

text \<open>Heap calls and lock calls of the file system and the driver, on the kernel's part of the state.\<close>

definition fs_malloc :: "u32 \<Rightarrow> 'z ide_state_scheme \<Rightarrow> (u32 \<times> 'z ide_state_scheme) option" where
  "fs_malloc n s = do { (b, k) \<leftarrow> sys_malloc n (kern s); Some (b, s\<lparr>kern := k\<rparr>) }"

definition fs_free :: "u32 \<Rightarrow> 'z ide_state_scheme \<Rightarrow> 'z ide_state_scheme option" where
  "fs_free b s = do { k \<leftarrow> sys_free b (kern s); Some (s\<lparr>kern := k\<rparr>) }"

definition the_disk :: "disk_ref \<Rightarrow> 'z ide_state_scheme \<Rightarrow> (ide_channel \<times> disk) option" where
  "the_disk dk s = do {
     c \<leftarrow> rd (channels s) (fst dk);
     d \<leftarrow> rd (devices c) (snd dk);
     c \<leftarrow> rd (channels s) (my_channel d);
     Some (c, d) }"

subsection \<open>The registers\<close>

definition reg_data :: "ide_channel \<Rightarrow> u16" where "reg_data c = port_base c + 0"
definition reg_sect_cnt :: "ide_channel \<Rightarrow> u16" where "reg_sect_cnt c = port_base c + 2"
definition reg_lba_l :: "ide_channel \<Rightarrow> u16" where "reg_lba_l c = port_base c + 3"
definition reg_lba_m :: "ide_channel \<Rightarrow> u16" where "reg_lba_m c = port_base c + 4"
definition reg_lba_h :: "ide_channel \<Rightarrow> u16" where "reg_lba_h c = port_base c + 5"
definition reg_dev :: "ide_channel \<Rightarrow> u16" where "reg_dev c = port_base c + 6"
definition reg_status :: "ide_channel \<Rightarrow> u16" where "reg_status c = port_base c + 7"
definition reg_cmd :: "ide_channel \<Rightarrow> u16" where "reg_cmd c = reg_status c"

lemmas reg_defs = reg_data_def reg_sect_cnt_def reg_lba_l_def reg_lba_m_def reg_lba_h_def reg_dev_def
  reg_status_def reg_cmd_def

definition select_disk :: "ide_channel \<Rightarrow> disk \<Rightarrow> (u16 \<times> u8) list" where
  "select_disk c d =
     (let reg_device = BIT_DEV_MBS OR BIT_DEV_LBA;
          reg_device = (if dev_no d = 1 then reg_device OR BIT_DEV_DEV else reg_device)
      in [(reg_dev c, reg_device)])"

definition select_sector :: "ide_channel \<Rightarrow> disk \<Rightarrow> u32 \<Rightarrow> u8 \<Rightarrow> (u16 \<times> u8) list option" where
  "select_sector c d lba n = do {
     ASSERT (lba \<le> max_lba);
     Some [(reg_sect_cnt c, n),
           (reg_lba_l c, ucast lba),
           (reg_lba_m c, ucast (drop_bit 8 lba)),
           (reg_lba_h c, ucast (drop_bit 16 lba)),
           (reg_dev c, ucast (ucast BIT_DEV_MBS OR ucast BIT_DEV_LBA OR
              (if dev_no d = 1 then ucast BIT_DEV_DEV else 0) OR drop_bit 24 lba))] }"

definition cmd_out :: "nat \<Rightarrow> u8 \<Rightarrow> 'z ide_state_scheme \<Rightarrow> ((u16 \<times> u8) list \<times> 'z ide_state_scheme) option" where
  "cmd_out ch cmd s = do {
     c \<leftarrow> rd (channels s) ch;
     Some ([(reg_cmd c, cmd)], s\<lparr>channels := (channels s)[ch := c\<lparr>expecting_intr := True\<rparr>]\<rparr>) }"

definition inb_status :: "nat \<Rightarrow> 'z ide_state_scheme \<Rightarrow> u8 \<times> 'z ide_state_scheme" where
  "inb_status ch s = (ide_status s ch 0, s\<lparr>ide_status := (ide_status s)(ch := \<lambda>i. ide_status s ch (i + 1))\<rparr>)"

text \<open>The disk's side: what the registers hold after a sequence of writes, and what that asks for.\<close>

definition written :: "u16 \<Rightarrow> (u16 \<times> u8) list \<Rightarrow> u8" where
  "written port outs = (case map_of (rev outs) port of Some v \<Rightarrow> v | None \<Rightarrow> 0)"

definition asked_lba :: "ide_channel \<Rightarrow> (u16 \<times> u8) list \<Rightarrow> nat" where
  "asked_lba c outs = unat (written (reg_lba_l c) outs) + 2 ^ 8 * unat (written (reg_lba_m c) outs) +
     2 ^ 16 * unat (written (reg_lba_h c) outs) + 2 ^ 24 * unat (written (reg_dev c) outs AND 0xf)"

definition asked_dev :: "ide_channel \<Rightarrow> (u16 \<times> u8) list \<Rightarrow> nat" where
  "asked_dev c outs = (if bit (written (reg_dev c) outs) 4 then 1 else 0)"

definition asked_cnt :: "ide_channel \<Rightarrow> (u16 \<times> u8) list \<Rightarrow> nat" where
  "asked_cnt c outs = (let n = unat (written (reg_sect_cnt c) outs) in if n = 0 then 256 else n)"

definition sectors :: "disk_ref \<Rightarrow> nat \<Rightarrow> nat \<Rightarrow> 'z ide_state_scheme \<Rightarrow> u8 list" where
  "sectors dk lba n s = concat (map (media s dk) [lba..<lba + n])"

definition set_sectors :: "disk_ref \<Rightarrow> nat \<Rightarrow> u8 list \<Rightarrow> 'z ide_state_scheme \<Rightarrow> 'z ide_state_scheme" where
  "set_sectors dk lba bs s = s\<lparr>media := (media s)(dk := \<lambda>n.
     if lba \<le> n \<and> n < lba + length bs div 512 then bytes_at ((n - lba) * 512) 512 bs else media s dk n)\<rparr>"

subsection \<open>Data transfer\<close>

definition size_in_byte :: "u8 \<Rightarrow> nat" where
  "size_in_byte n = (if n = 0 then 256 * 512 else unat n * 512)"

definition read_from_sector :: "nat \<Rightarrow> u8 \<Rightarrow> (u16 \<times> u8) list \<Rightarrow> 'z ide_state_scheme \<Rightarrow> u8 list option" where
  "read_from_sector ch n outs s = do {
     c \<leftarrow> rd (channels s) ch;
     let buffer = sectors (ch, asked_dev c outs) (asked_lba c outs) (asked_cnt c outs) s;
     get_buf buffer 0 (size_in_byte n div 2 * 2) }"

definition write2sector ::
  "nat \<Rightarrow> u8 list \<Rightarrow> nat \<Rightarrow> u8 \<Rightarrow> (u16 \<times> u8) list \<Rightarrow> 'z ide_state_scheme \<Rightarrow> 'z ide_state_scheme option" where
  "write2sector ch buf a n outs s = do {
     c \<leftarrow> rd (channels s) ch;
     bs \<leftarrow> get_buf buf a (size_in_byte n div 2 * 2);
     Some (set_sectors (ch, asked_dev c outs) (asked_lba c outs) bs s) }"

text \<open>
  \<open>time_limit -= 10 >= 0\<close> takes the comparison's 1 off the limit and goes on while the limit is not 0,
  so there are 29999 attempts.
\<close>

fun busy_wait_loop :: "nat \<Rightarrow> nat \<Rightarrow> 'z ide_state_scheme \<Rightarrow> bool \<times> 'z ide_state_scheme" where
  "busy_wait_loop ch 0 s = (False, s)"
| "busy_wait_loop ch (Suc time_limit) s =
     (if time_limit = 0 then (False, s)
      else let (st, s) = inb_status ch s
        in if st AND BIT_STAT_BUSY = 0 then
             let (st, s) = inb_status ch s in (st AND BIT_STAT_DRQ \<noteq> 0, s)
           else busy_wait_loop ch time_limit s)"

definition busy_wait :: "nat \<Rightarrow> 'z ide_state_scheme \<Rightarrow> bool \<times> 'z ide_state_scheme" where
  "busy_wait ch s = busy_wait_loop ch (30 * 1000) s"

definition intr_hd_handler :: "u8 \<Rightarrow> 'z ide_state_scheme \<Rightarrow> 'z ide_state_scheme option" where
  "intr_hd_handler irq s = do {
     ASSERT (irq = 0x2e \<or> irq = 0x2f);
     let ch_no = unat (irq - 0x2e);
     c \<leftarrow> rd (channels s) ch_no;
     ASSERT (irq_no c = irq);
     if expecting_intr c then do {
       let s = s\<lparr>channels := (channels s)[ch_no := c\<lparr>expecting_intr := False\<rparr>]\<rparr>;
       k \<leftarrow> sema_up (disk_done c) (kern s);
       Some (snd (inb_status ch_no (s\<lparr>kern := k\<rparr>))) }
     else Some s }"

definition await_disk :: "nat \<Rightarrow> 'z ide_state_scheme \<Rightarrow> 'z ide_state_scheme option" where
  "await_disk ch s = do {
     c \<leftarrow> rd (channels s) ch;
     s \<leftarrow> intr_hd_handler (irq_no c) s;
     k \<leftarrow> sema_down_now (disk_done c) (kern s);
     Some (s\<lparr>kern := k\<rparr>) }"

text \<open>The loop of \<open>ide_read\<close>; \<open>buf\<close> is what has been read so far, \<open>outs\<close> the register writes.\<close>

partial_function (option) ide_read_loop ::
  "disk_ref \<Rightarrow> u32 \<Rightarrow> u32 \<Rightarrow> u32 \<Rightarrow> (u16 \<times> u8) list \<Rightarrow> u8 list \<Rightarrow> 'z ide_state_scheme \<Rightarrow>
   (u8 list \<times> 'z ide_state_scheme) option" where
  "ide_read_loop dk lba n secs_done outs buf s =
     (if secs_done < n then
        let secs_op = (if secs_done + 256 \<le> n then 256 else n - secs_done)
        in Option.bind (the_disk dk s) (\<lambda>(c, d).
           Option.bind (select_sector c d (lba + secs_done) (ucast secs_op)) (\<lambda>o1.
           Option.bind (cmd_out (my_channel d) CMD_READ_SECTOR s) (\<lambda>(o2, s).
           Option.bind (await_disk (my_channel d) s) (\<lambda>s.
             let (ok, s) = busy_wait (my_channel d) s
             in if \<not> ok then None
                else Option.bind (read_from_sector (my_channel d) (ucast secs_op) (outs @ o1 @ o2) s) (\<lambda>bs.
                  ide_read_loop dk lba n (secs_done + secs_op) (outs @ o1 @ o2) (buf @ bs) s)))))
      else Some (buf, s))"

definition ide_read :: "disk_ref \<Rightarrow> u32 \<Rightarrow> u32 \<Rightarrow> 'z ide_state_scheme \<Rightarrow> (u8 list \<times> 'z ide_state_scheme) option" where
  "ide_read dk lba n s = do {
     ASSERT (lba \<le> max_lba);
     ASSERT (n > 0);
     (c, d) \<leftarrow> the_disk dk s;
     k \<leftarrow> lock_acquire_now (chan_lock c) (kern s);
     (buf, s) \<leftarrow> ide_read_loop dk lba n 0 (select_disk c d) [] (s\<lparr>kern := k\<rparr>);
     k \<leftarrow> lock_release_now (chan_lock c) (kern s);
     Some (buf, s\<lparr>kern := k\<rparr>) }"

partial_function (option) ide_write_loop ::
  "disk_ref \<Rightarrow> u32 \<Rightarrow> u8 list \<Rightarrow> u32 \<Rightarrow> u32 \<Rightarrow> (u16 \<times> u8) list \<Rightarrow> 'z ide_state_scheme \<Rightarrow> 'z ide_state_scheme option" where
  "ide_write_loop dk lba buf n secs_done outs s =
     (if secs_done < n then
        let secs_op = (if secs_done + 256 \<le> n then 256 else n - secs_done)
        in Option.bind (the_disk dk s) (\<lambda>(c, d).
           Option.bind (select_sector c d (lba + secs_done) (ucast secs_op)) (\<lambda>o1.
           Option.bind (cmd_out (my_channel d) CMD_WRITE_SECTOR s) (\<lambda>(o2, s).
             let (ok, s) = busy_wait (my_channel d) s
             in if \<not> ok then None
                else Option.bind (write2sector (my_channel d) buf (unat (secs_done * 512)) (ucast secs_op) (outs @ o1 @ o2) s) (\<lambda>s.
                  Option.bind (await_disk (my_channel d) s) (\<lambda>s.
                  ide_write_loop dk lba buf n (secs_done + secs_op) (outs @ o1 @ o2) s)))))
      else Some s)"

definition ide_write :: "disk_ref \<Rightarrow> u32 \<Rightarrow> u8 list \<Rightarrow> u32 \<Rightarrow> 'z ide_state_scheme \<Rightarrow> 'z ide_state_scheme option" where
  "ide_write dk lba buf n s = do {
     ASSERT (lba \<le> max_lba);
     ASSERT (n > 0);
     (c, d) \<leftarrow> the_disk dk s;
     k \<leftarrow> lock_acquire_now (chan_lock c) (kern s);
     s \<leftarrow> ide_write_loop dk lba buf n 0 (select_disk c d) (s\<lparr>kern := k\<rparr>);
     k \<leftarrow> lock_release_now (chan_lock c) (kern s);
     Some (s\<lparr>kern := k\<rparr>) }"


subsection \<open>Identification\<close>

partial_function (option) swap_loop :: "u8 list \<Rightarrow> nat \<Rightarrow> u8 list \<Rightarrow> u8 \<Rightarrow> u32 \<Rightarrow> (u8 list \<times> u8) option" where
  "swap_loop mem dst buf idx len =
     (if ucast idx < len then
        Option.bind (rd mem dst) (\<lambda>a. Option.bind (wr buf (unat idx + 1) a) (\<lambda>buf.
        Option.bind (rd mem (dst + 1)) (\<lambda>b. Option.bind (wr buf (unat idx) b) (\<lambda>buf.
          swap_loop mem (dst + 2) buf (idx + 2) len))))
      else Some (buf, idx))"

definition swap_pairs_bytes :: "u8 list \<Rightarrow> nat \<Rightarrow> u8 list \<Rightarrow> u32 \<Rightarrow> u8 list option" where
  "swap_pairs_bytes mem dst buf len = do {
     (buf, idx) \<leftarrow> swap_loop mem dst buf 0 len;
     wr buf (unat idx) 0 }"

text \<open>What \<open>identify_disk\<close> prints: serial number, model and number of sectors.\<close>

definition identify_disk ::
  "disk_ref \<Rightarrow> 'z ide_state_scheme \<Rightarrow> ((u8 list \<times> u8 list \<times> u32) \<times> 'z ide_state_scheme) option" where
  "identify_disk dk s = do {
     (c, d) \<leftarrow> the_disk dk s;
     let o1 = select_disk c d;
     (o2, s) \<leftarrow> cmd_out (my_channel d) CMD_IDENTIFY s;
     s \<leftarrow> await_disk (my_channel d) s;
     let (ok, s) = busy_wait (my_channel d) s;
     if \<not> ok then None
     else do {
       id_info \<leftarrow> get_buf (identity s (my_channel d, asked_dev c (o1 @ o2))) 0 (size_in_byte 1 div 2 * 2);
       sn \<leftarrow> swap_pairs_bytes id_info (10 * 2) (replicate 64 0) 20;
       md \<leftarrow> swap_pairs_bytes id_info (27 * 2) (replicate 64 0) 40;
       secs \<leftarrow> get_buf id_info (60 * 2) 4;
       Some ((sn, md, u32_of secs), s) } }"

subsection \<open>Partition tables\<close>

record partition_table_entry =
  bootable :: u8
  start_head :: u8
  start_sec :: u8
  start_chs :: u8
  fs_type :: u8
  end_head :: u8
  end_sec :: u8
  end_chs :: u8
  entry_start_lba :: u32
  entry_sec_cnt :: u32

definition entry_of :: "u8 list \<Rightarrow> partition_table_entry" where
  "entry_of bs = \<lparr>bootable = bs ! 0, start_head = bs ! 1, start_sec = bs ! 2, start_chs = bs ! 3, fs_type = bs ! 4,
     end_head = bs ! 5, end_sec = bs ! 6, end_chs = bs ! 7,
     entry_start_lba = u32_of (drop 8 bs), entry_sec_cnt = u32_of (drop 12 bs)\<rparr>"

text \<open>The table follows the 446 bytes of boot code.\<close>

definition partition_table :: "u8 list \<Rightarrow> partition_table_entry list" where
  "partition_table boot_sector = map (\<lambda>i. entry_of (drop (446 + 16 * i) boot_sector)) [0..<4]"

definition add_prim_part :: "disk_ref \<Rightarrow> u32 \<Rightarrow> partition_table_entry \<Rightarrow> 'z ide_state_scheme \<Rightarrow> 'z ide_state_scheme option" where
  "add_prim_part dk ext_lba p s = do {
     (c, d) \<leftarrow> the_disk dk s;
     let i = unat (p_no s);
     if i \<ge> 4 then None
     else do {
       let r = Prim_part dk i;
       let s = s\<lparr>parts := (parts s)(r := (parts s r)\<lparr>start_lba := ext_lba + entry_start_lba p,
              sec_cnt := entry_sec_cnt p, my_disk := dk, part_name := disk_name d @ digits_of 10 (i + 1)\<rparr>),
              partition_list := partition_list s @ [r], p_no := p_no s + 1\<rparr>;
       ASSERT (p_no s < 4);
       Some s } }"

definition add_logic_part :: "disk_ref \<Rightarrow> u32 \<Rightarrow> partition_table_entry \<Rightarrow> 'z ide_state_scheme \<Rightarrow> 'z ide_state_scheme option" where
  "add_logic_part dk ext_lba p s = do {
     (c, d) \<leftarrow> the_disk dk s;
     let i = unat (l_no s);
     if i \<ge> 8 then None
     else do {
       let r = Logic_part dk i;
       Some (s\<lparr>parts := (parts s)(r := (parts s r)\<lparr>start_lba := ext_lba + entry_start_lba p,
              sec_cnt := entry_sec_cnt p, my_disk := dk, part_name := disk_name d @ digits_of 10 (i + 5)\<rparr>),
              partition_list := partition_list s @ [r], l_no := l_no s + 1\<rparr>) } }"

text \<open>
  The loop over the entries of one table; the result says whether it came to its end, after which
  \<open>partition_scan\<close> frees its buffer, or returned because there are eight logical partitions. The
  call for an extended partition reads the sector \<open>sub\<close>, scans it and frees its buffer likewise.
\<close>

partial_function (option) scan_entries ::
  "disk_ref \<Rightarrow> u32 \<Rightarrow> partition_table_entry list \<Rightarrow> 'z ide_state_scheme \<Rightarrow> (bool \<times> 'z ide_state_scheme) option" where
  "scan_entries dk ext_lba ps s =
     (case ps of
        [] \<Rightarrow> Some (True, s)
      | p # ps \<Rightarrow>
          if fs_type p = 5 then
            let (sub, s) = (if ext_lba_base s \<noteq> 0 then (entry_start_lba p + ext_lba_base s, s)
                            else (entry_start_lba p, s\<lparr>ext_lba_base := entry_start_lba p\<rparr>))
            in Option.bind (fs_malloc 512 s) (\<lambda>(bs, s).
               Option.bind (ide_read dk sub 1 s) (\<lambda>(buf, s).
               Option.bind (scan_entries dk sub (partition_table buf) s) (\<lambda>(done, s).
               Option.bind (if done then fs_free bs s else Some s) (\<lambda>s.
                 scan_entries dk ext_lba ps s))))
          else if fs_type p \<noteq> 0 then
            if ext_lba = 0 then
              Option.bind (add_prim_part dk ext_lba p s) (\<lambda>s. scan_entries dk ext_lba ps s)
            else
              Option.bind (add_logic_part dk ext_lba p s) (\<lambda>s.
                if l_no s \<ge> 8 then Some (False, s) else scan_entries dk ext_lba ps s)
          else scan_entries dk ext_lba ps s)"

definition partition_scan :: "disk_ref \<Rightarrow> u32 \<Rightarrow> 'z ide_state_scheme \<Rightarrow> 'z ide_state_scheme option" where
  "partition_scan dk ext_lba s = do {
     (bs, s) \<leftarrow> fs_malloc 512 s;
     (buf, s) \<leftarrow> ide_read dk ext_lba 1 s;
     (done, s) \<leftarrow> scan_entries dk ext_lba (partition_table buf) s;
     if done then fs_free bs s else Some s }"

subsection \<open>Initialisation\<close>

definition init_channel :: "u32 \<Rightarrow> nat \<Rightarrow> 'z ide_state_scheme \<Rightarrow> 'z ide_state_scheme option" where
  "init_channel hd_handler ch s = do {
     c \<leftarrow> rd (channels s) ch;
     let c = c\<lparr>channel_name := [0x69, 0x64, 0x65] @ digits_of 10 ch,
               port_base := (if ch = 0 then 0x1f0 else if ch = 1 then 0x170 else port_base c),
               irq_no := (if ch = 0 then 0x20 + 14 else if ch = 1 then 0x20 + 15 else irq_no c),
               expecting_intr := False\<rparr>;
     t \<leftarrow> register_handler (irq_no c) hd_handler (intrs s);
     Some (s\<lparr>channels := (channels s)[ch := c],
             kern := sema_init (disk_done c) 0 (lock_init (chan_lock c) (kern s)), intrs := t\<rparr>) }"

definition init_disk :: "nat \<Rightarrow> nat \<Rightarrow> 'z ide_state_scheme \<Rightarrow> 'z ide_state_scheme option" where
  "init_disk ch dv s = do {
     c \<leftarrow> rd (channels s) ch;
     ds \<leftarrow> wr (devices c) dv \<lparr>disk_name = [0x73, 0x64, 0x61 + word_of_nat (ch * 2 + dv)], my_channel = ch,
                              dev_no = word_of_nat dv\<rparr>;
     let s = s\<lparr>channels := (channels s)[ch := c\<lparr>devices := ds\<rparr>]\<rparr>;
     (info, s) \<leftarrow> identify_disk (ch, dv) s;
     s \<leftarrow> (if dv \<noteq> 0 then partition_scan (ch, dv) 0 s else Some s);
     Some (s\<lparr>p_no := 0, l_no := 0\<rparr>) }"

fun ide_init_loop :: "u32 \<Rightarrow> nat \<Rightarrow> nat \<Rightarrow> 'z ide_state_scheme \<Rightarrow> 'z ide_state_scheme option" where
  "ide_init_loop hd_handler ch 0 s = Some s"
| "ide_init_loop hd_handler ch (Suc n) s = do {
     s \<leftarrow> init_channel hd_handler ch s;
     s \<leftarrow> init_disk ch 0 s;
     s \<leftarrow> init_disk ch 1 s;
     ide_init_loop hd_handler (ch + 1) n s }"

text \<open>\<open>hd_cnt\<close> is the number of disks the BIOS left at address \<open>0x475\<close>, \<open>hd_handler\<close> the handler's address.\<close>

definition ide_init :: "u8 \<Rightarrow> u32 \<Rightarrow> 'z ide_state_scheme \<Rightarrow> 'z ide_state_scheme option" where
  "ide_init hd_cnt hd_handler s = do {
     ASSERT (hd_cnt > 0);
     let s = s\<lparr>partition_list := [], channel_cnt := ucast (DIV_ROUND_UP (ucast hd_cnt) 2)\<rparr>;
     ide_init_loop hd_handler 0 (unat (channel_cnt s)) s }"

subsection \<open>Commands\<close>

lemma written_simps:
  "written p (outs @ [(q, v)]) = (if p = q then v else written p outs)"
  "written p (outs @ [(q1, v1), (q2, v2), (q3, v3), (q4, v4), (q5, v5)] @ [(q6, v6)]) =
     (if p = q6 then v6 else if p = q5 then v5 else if p = q4 then v4 else if p = q3 then v3
      else if p = q2 then v2 else if p = q1 then v1 else written p outs)"
  by (simp_all add: written_def)

lemma max_lba_value: "max_lba = 163839"
  by (simp add: max_lba_def)

lemma select_sector_asked:
  assumes "select_sector c d lba n = Some o1" and "dev_no d = word_of_nat dv" and "dv < 2"
  shows "asked_lba c (outs @ o1 @ [(reg_cmd c, cmd)]) = unat lba"
    and "asked_dev c (outs @ o1 @ [(reg_cmd c, cmd)]) = dv"
    and "asked_cnt c (outs @ o1 @ [(reg_cmd c, cmd)]) = (if n = 0 then 256 else unat n)"
proof -
  have le: "lba \<le> 163839" and o1: "o1 = [(reg_sect_cnt c, n), (reg_lba_l c, ucast lba),
           (reg_lba_m c, ucast (drop_bit 8 lba)), (reg_lba_h c, ucast (drop_bit 16 lba)),
           (reg_dev c, ucast (ucast BIT_DEV_MBS OR ucast BIT_DEV_LBA OR
              (if dev_no d = 1 then ucast BIT_DEV_DEV else 0) OR drop_bit 24 lba))]"
    using assms(1) by (auto simp: select_sector_def max_lba_value split: if_splits)
  then have u: "unat lba \<le> 163839" by (simp add: word_le_nat_alt)
  have dr: "unat (drop_bit k lba) = unat lba div 2 ^ k" for k
    by (simp only: unat_drop_bit_eq) (simp only: drop_bit_eq_div)
  have z: "drop_bit 24 lba = 0"
  proof -
    have "unat (drop_bit 24 lba) = 0" using u dr [of 24] by simp
    then show ?thesis by (simp only: unat_eq_zero)
  qed
  have ports: "reg_lba_l c \<noteq> reg_cmd c" "reg_lba_m c \<noteq> reg_cmd c" "reg_lba_h c \<noteq> reg_cmd c" "reg_dev c \<noteq> reg_cmd c"
    "reg_sect_cnt c \<noteq> reg_cmd c" "reg_lba_l c \<noteq> reg_dev c" "reg_lba_m c \<noteq> reg_dev c" "reg_lba_h c \<noteq> reg_dev c"
    "reg_sect_cnt c \<noteq> reg_dev c" "reg_lba_l c \<noteq> reg_lba_h c" "reg_lba_m c \<noteq> reg_lba_h c" "reg_sect_cnt c \<noteq> reg_lba_h c"
    "reg_lba_l c \<noteq> reg_lba_m c" "reg_sect_cnt c \<noteq> reg_lba_m c" "reg_sect_cnt c \<noteq> reg_lba_l c"
    by (simp_all add: reg_defs)
  note ports = ports ports [symmetric]
  have dv: "dev_no d = 1 \<longleftrightarrow> dv = 1" "dv = 0 \<or> dv = 1" using assms(2,3) by (auto simp: less_2_cases_iff)
  have m8: "unat (ucast w :: u8) = unat w mod 2 ^ 8" for w :: u32
    by (simp add: unsigned_ucast_eq take_bit_eq_mod)
  have w: "written (reg_lba_l c) (outs @ o1 @ [(reg_cmd c, cmd)]) = ucast lba"
    "written (reg_lba_m c) (outs @ o1 @ [(reg_cmd c, cmd)]) = ucast (drop_bit 8 lba)"
    "written (reg_lba_h c) (outs @ o1 @ [(reg_cmd c, cmd)]) = ucast (drop_bit 16 lba)"
    "written (reg_sect_cnt c) (outs @ o1 @ [(reg_cmd c, cmd)]) = n"
    "written (reg_dev c) (outs @ o1 @ [(reg_cmd c, cmd)]) = (if dv = 1 then 0xf0 else 0xe0)"
    unfolding o1 written_simps using ports dv(1)
    by (simp_all add: z BIT_DEV_MBS_def BIT_DEV_LBA_def BIT_DEV_DEV_def)
  have pw: "(2 :: nat) ^ 8 = 256" "(2 :: nat) ^ 16 = 65536" by simp_all
  have a: "(if dv = 1 then 0xf0 else 0xe0 :: u8) AND 0xf = 0" by simp
  have "n mod 256 + 256 * (n div 256 mod 256) + 65536 * (n div 65536 mod 256) = n" if "n \<le> 163839" for n :: nat
  proof -
    have "n div 65536 = n div 256 div 256" by (simp add: div_mult2_eq [symmetric])
    moreover have "n div 65536 mod 256 = n div 65536" using that by simp
    ultimately have "n div 65536 mod 256 = n div 256 div 256" by simp
    moreover have "256 * (n div 256 mod 256) + 65536 * (n div 256 div 256) = 256 * (n div 256)"
      using mult_div_mod_eq [of 256 "n div 256"] by linarith
    moreover have "n mod 256 + 256 * (n div 256) = n" by simp
    ultimately show ?thesis by linarith
  qed
  from this [OF u]
  show "asked_lba c (outs @ o1 @ [(reg_cmd c, cmd)]) = unat lba"
    unfolding asked_lba_def w a m8 dr pw unat_0 mult_0_right add_0_right .
  have b: "bit (0xf0 :: u8) 4" "\<not> bit (0xe0 :: u8) 4" by (simp_all add: bit_iff_odd)
  show "asked_dev c (outs @ o1 @ [(reg_cmd c, cmd)]) = dv"
    unfolding asked_dev_def w using dv(2) b by auto
  show "asked_cnt c (outs @ o1 @ [(reg_cmd c, cmd)]) = (if n = 0 then 256 else unat n)"
    unfolding asked_cnt_def w by (simp add: unat_eq_zero)
qed


subsection \<open>A ready drive\<close>

text \<open>
  A drive as \<open>ide_init\<close> leaves it, whose controller answers every status read with "ready, data
  requested". \<open>disk_ready\<close> adds that nobody uses the channel.
\<close>

definition drive_ok :: "disk_ref \<Rightarrow> 'z ide_state_scheme \<Rightarrow> bool" where
  "drive_ok dk s \<longleftrightarrow> fst dk < 2 \<and> snd dk < 2 \<and> fst dk < length (channels s) \<and>
     (let c = channels s ! fst dk; d = devices c ! snd dk
      in snd dk < length (devices c) \<and> my_channel d = fst dk \<and> dev_no d = word_of_nat (snd dk) \<and>
         irq_no c = 0x2e + word_of_nat (fst dk) \<and> \<not> expecting_intr c \<and>
         semas (kern s) (disk_done c) = Some \<lparr>value = 0, waiters = []\<rparr> \<and>
         ide_status s (fst dk) = (\<lambda>i. 0x58))"

definition disk_ready :: "disk_ref \<Rightarrow> 'z ide_state_scheme \<Rightarrow> bool" where
  "disk_ready dk s \<longleftrightarrow> drive_ok dk s \<and> lock_free (chan_lock (channels s ! fst dk)) (kern s) \<and>
     disk_done (channels s ! fst dk) \<noteq> lock_sema (chan_lock (channels s ! fst dk)) \<and> running (kern s) \<noteq> 0"

definition whole_sectors :: "disk_ref \<Rightarrow> 'z ide_state_scheme \<Rightarrow> bool" where
  "whole_sectors dk s \<longleftrightarrow> (\<forall>n. length (media s dk n) = 512)"

lemma drive_okD:
  assumes "drive_ok dk s" and "c = channels s ! fst dk" and "d = devices c ! snd dk"
  shows "the_disk dk s = Some (c, d)" and "rd (channels s) (fst dk) = Some c" and "my_channel d = fst dk"
    and "dev_no d = word_of_nat (snd dk)" and "snd dk < 2" and "\<not> expecting_intr c" and "irq_no c = 0x2e + word_of_nat (fst dk)"
    and "semas (kern s) (disk_done c) = Some \<lparr>value = 0, waiters = []\<rparr>" and "ide_status s (fst dk) = (\<lambda>i. 0x58)"
    and "fst dk < 2" and "fst dk < length (channels s)"
  using assms by (simp_all add: drive_ok_def the_disk_def Let_def)

lemma inb_status_ready [simp]:
  "ide_status s ch = (\<lambda>i. v) \<Longrightarrow> inb_status ch s = (v, s)"
proof -
  assume a: "ide_status s ch = (\<lambda>i. v)"
  then have "(ide_status s)(ch := \<lambda>i. ide_status s ch (i + 1)) = ide_status s"
    by (simp add: fun_upd_idem)
  with a show ?thesis by (simp add: inb_status_def)
qed

lemma busy_wait_ready: "ide_status s ch = (\<lambda>i. 0x58) \<Longrightarrow> busy_wait ch s = (True, s)"
proof -
  assume a: "ide_status s ch = (\<lambda>i. 0x58)"
  have "busy_wait ch s = busy_wait_loop ch (Suc 29999) s" by (simp add: busy_wait_def)
  also have "\<dots> = (True, s)"
    using a by (simp only: busy_wait_loop.simps) (simp add: BIT_STAT_BUSY_def BIT_STAT_DRQ_def)
  finally show ?thesis .
qed

lemma await_disk_ready:
  assumes ok: "drive_ok dk s" and c: "c = channels s ! fst dk"
  shows "await_disk (fst dk) (s\<lparr>channels := (channels s)[fst dk := c\<lparr>expecting_intr := True\<rparr>]\<rparr>) = Some s"
proof -
  let ?c = "c\<lparr>expecting_intr := True\<rparr>" let ?s = "s\<lparr>channels := (channels s)[fst dk := ?c]\<rparr>"
  note D = drive_okD [OF ok c refl]
  have i: "irq_no c = 0x2e \<or> irq_no c = 0x2f" "unat (irq_no c - 0x2e) = fst dk"
    using D(7,10) by (auto simp: less_2_cases_iff)
  have e: "c\<lparr>expecting_intr := False\<rparr> = c" using D(6) by simp
  have ch: "rd (channels ?s) (fst dk) = Some ?c" using D(11) by (simp add: rd_def)
  let ?k = "(kern s)\<lparr>semas := (semas (kern s))(disk_done c \<mapsto> \<lparr>value = 1, waiters = []\<rparr>)\<rparr>"
  have cc: "(channels s)[fst dk := c] = channels s" using c by simp
  have up: "sema_up (disk_done c) (kern s) = Some ?k" using sema_up_free [OF D(8)] .
  have "intr_hd_handler (irq_no c) ?s = Some (s\<lparr>kern := ?k\<rparr>)"
    using i ch up D(9) by (simp add: intr_hd_handler_def Let_def e cc)
  moreover have "sema_down_now (disk_done c) ?k = Some (kern s)"
  proof -
    have "semas ?k (disk_done c) = Some \<lparr>value = 1, waiters = []\<rparr>" by simp
    from sema_down_free [OF this] show ?thesis
      using D(8) by (simp add: sema_down_now_def fun_upd_idem)
  qed
  ultimately show ?thesis using ch by (simp add: await_disk_def)
qed

lemma length_sectors [simp]: "whole_sectors dk s \<Longrightarrow> length (sectors dk lba n s) = n * 512"
  by (simp add: sectors_def length_concat comp_def whole_sectors_def sum_list_triv)

lemma sectors_append: "sectors dk lba n s @ sectors dk (lba + n) m s = sectors dk lba (n + m) s"
proof -
  have "[lba..<lba + (n + m)] = [lba..<lba + n] @ [lba + n..<lba + n + m]"
    by (metis add.assoc le_add1 upt_add_eq_append)
  then show ?thesis by (simp add: sectors_def)
qed


subsection \<open>The loops\<close>

definition chunk :: "u32 \<Rightarrow> u32 \<Rightarrow> u32" where
  "chunk n secs_done = (if secs_done + 256 \<le> n then 256 else n - secs_done)"

lemma chunk_bounds:
  assumes "secs_done < n" and "unat n \<le> 163840"
  shows "0 < unat (chunk n secs_done)" "unat (chunk n secs_done) \<le> 256"
    "unat (secs_done + chunk n secs_done) = unat secs_done + unat (chunk n secs_done)"
    "unat secs_done + unat (chunk n secs_done) \<le> unat n"
proof -
  have l: "unat secs_done < unat n" using assms(1) by (simp add: word_less_nat_alt)
  have a: "unat (secs_done + 256) = unat secs_done + 256"
    by (subst unat_add_small) (use l assms(2) in simp_all)
  have m: "unat (n - secs_done) = unat n - unat secs_done"
    using l by (simp add: unat_sub_if')
  show 1: "0 < unat (chunk n secs_done)" "unat (chunk n secs_done) \<le> 256"
    "unat secs_done + unat (chunk n secs_done) \<le> unat n"
    using l a m by (auto simp: chunk_def word_le_nat_alt)
  show "unat (secs_done + chunk n secs_done) = unat secs_done + unat (chunk n secs_done)"
    using 1 assms(2) by (intro unat_add_small) simp
qed

lemma chunk_bytes:
  assumes "0 < unat op" and "unat (op :: u32) \<le> 256"
  shows "size_in_byte (ucast op) = unat op * 512" "(if (ucast op :: u8) = 0 then 256 else unat (ucast op :: u8)) = unat op"
proof -
  have u: "unat (ucast op :: u8) = unat op mod 256"
    by (simp add: unsigned_ucast_eq take_bit_eq_mod)
  have z: "(ucast op :: u8) = 0 \<longleftrightarrow> unat op = 256"
    using u assms by (auto simp: unat_eq_zero [symmetric] simp del: unat_eq_zero) 
  show "size_in_byte (ucast op) = unat op * 512" "(if (ucast op :: u8) = 0 then 256 else unat (ucast op :: u8)) = unat op"
    unfolding size_in_byte_def z u using assms by auto
qed

lemma select_sector_ready:
  assumes "unat lba + unat n \<le> 163840" and "unat secs_done < unat n"
  shows "\<exists>o1. select_sector c d (lba + secs_done) op = Some o1" and "unat (lba + secs_done) = unat lba + unat secs_done"
proof -
  show a: "unat (lba + secs_done) = unat lba + unat secs_done"
    using assms by (intro unat_add_small) simp
  have "lba + secs_done \<le> max_lba" using a assms by (simp add: max_lba_value word_le_nat_alt)
  then show "\<exists>o1. select_sector c d (lba + secs_done) op = Some o1"
    by (simp add: select_sector_def)
qed

lemma ide_read_loop_ready:
  assumes ok: "drive_ok dk s" and w: "whole_sectors dk s" and fit: "unat lba + unat n \<le> 163840"
    and le: "unat secs_done \<le> unat n"
  shows "ide_read_loop dk lba n secs_done outs buf s =
    Some (buf @ sectors dk (unat lba + unat secs_done) (unat n - unat secs_done) s, s)"
  using le
proof (induction "unat n - unat secs_done" arbitrary: secs_done outs buf rule: less_induct)
  case less
  show ?case
  proof (cases "secs_done < n")
    case False
    with less.prems have "unat secs_done = unat n" by (simp add: word_less_nat_alt)
    with False show ?thesis by (subst ide_read_loop.simps) (simp add: sectors_def)
  next
    case True
    then have l: "unat secs_done < unat n" by (simp add: word_less_nat_alt)
    let ?op = "chunk n secs_done"
    have "unat n \<le> 163840" using fit by linarith
    note b = chunk_bounds [OF True this] and y = chunk_bytes [OF b(1) b(2)]
    define c d where c: "c = channels s ! fst dk" and d: "d = devices c ! snd dk"
    note D = drive_okD [OF ok c d]
    obtain o1 where o1: "select_sector c d (lba + secs_done) (ucast ?op) = Some o1"
      using select_sector_ready(1) [OF fit l] by blast
    let ?outs = "outs @ o1 @ [(reg_cmd c, CMD_READ_SECTOR)]"
    note A = select_sector_asked [OF o1 D(4,5), of outs CMD_READ_SECTOR]
      select_sector_ready(2) [OF fit l]
    let ?bs = "sectors dk (unat lba + unat secs_done) (unat ?op) s"
    have dk: "(fst dk, asked_dev c ?outs) = dk" using A(2) by simp
    have rs: "read_from_sector (fst dk) (ucast ?op) ?outs s = Some ?bs"
      using D(2) A y w by (simp add: read_from_sector_def Let_def bytes_at_def)
    have "ide_read_loop dk lba n secs_done outs buf s = ide_read_loop dk lba n (secs_done + ?op) ?outs (buf @ ?bs) s"
      using True D(1-3) o1 await_disk_ready [OF ok c] busy_wait_ready [OF D(9)] rs
      by (subst ide_read_loop.simps) (simp add: Let_def chunk_def [symmetric] cmd_out_def)
    also have "\<dots> = Some ((buf @ ?bs) @ sectors dk (unat lba + unat (secs_done + ?op)) (unat n - unat (secs_done + ?op)) s, s)"
      by (rule less.hyps) (use b l in simp_all)
    also have "?bs @ sectors dk (unat lba + unat (secs_done + ?op)) (unat n - unat (secs_done + ?op)) s =
        sectors dk (unat lba + unat secs_done) (unat n - unat secs_done) s"
      using sectors_append [of dk "unat lba + unat secs_done" "unat ?op" s "unat n - unat (secs_done + ?op)"] b(3,4)
      by (simp add: add.assoc)
    then have "(buf @ ?bs) @ sectors dk (unat lba + unat (secs_done + ?op)) (unat n - unat (secs_done + ?op)) s =
        buf @ sectors dk (unat lba + unat secs_done) (unat n - unat secs_done) s" by simp
    finally show ?thesis .
  qed
qed


lemma set_sectors_simps [simp]:
  "kern (set_sectors dk a bs s) = kern s" "channels (set_sectors dk a bs s) = channels s"
  "ide_status (set_sectors dk a bs s) = ide_status s" "parts (set_sectors dk a bs s) = parts s"
  "ide_state.more (set_sectors dk a bs s) = ide_state.more s"
  by (simp_all add: set_sectors_def)

lemma set_sectors_channels [simp]:
  "set_sectors dk a bs (s\<lparr>channels := x\<rparr>) = (set_sectors dk a bs s)\<lparr>channels := x\<rparr>"
  by (simp add: set_sectors_def cong: if_cong)

lemma media_set_sectors:
  "media (set_sectors dk a bs s) dk' n =
     (if dk' = dk \<and> a \<le> n \<and> n < a + length bs div 512 then bytes_at ((n - a) * 512) 512 bs else media s dk' n)"
  by (simp add: set_sectors_def)

lemma drive_ok_set [simp]: "drive_ok dk (set_sectors dk' a bs s) = drive_ok dk s"
  by (simp add: drive_ok_def)

lemma disk_ready_set [simp]: "disk_ready dk (set_sectors dk' a bs s) = disk_ready dk s"
  by (simp add: disk_ready_def)

lemma whole_sectors_set [simp]:
  assumes "whole_sectors dk s"
  shows "whole_sectors dk (set_sectors dk' a bs s)"
  unfolding whole_sectors_def
proof
  fix n
  have "(n - a) * 512 + 512 \<le> length bs" if "a \<le> n" "n < a + length bs div 512"
  proof -
    have "n - a + 1 \<le> length bs div 512" using that by linarith
    then have "(n - a + 1) * 512 \<le> length bs div 512 * 512" by (rule mult_le_mono1)
    also have "\<dots> \<le> length bs" by simp
    finally show ?thesis by simp
  qed
  then show "length (media (set_sectors dk' a bs s) dk n) = 512"
    using assms by (simp add: media_set_sectors whole_sectors_def)
qed

lemma set_sectors_append:
  assumes "length xs = k * 512"
  shows "set_sectors dk (a + k) ys (set_sectors dk a xs s) = set_sectors dk a (xs @ ys) s"
proof -
  have l: "length (xs @ ys) div 512 = k + length ys div 512" using assms by simp
  have "media (set_sectors dk (a + k) ys (set_sectors dk a xs s)) dk' n = media (set_sectors dk a (xs @ ys) s) dk' n" for dk' n
  proof (cases "dk' = dk \<and> a \<le> n \<and> n < a + k + length ys div 512")
    case False
    then show ?thesis using l assms by (auto simp: media_set_sectors)
  next
    case True
    then have n: "dk' = dk" "a \<le> n" "n < a + k + length ys div 512" by auto
    show ?thesis
    proof (cases "n < a + k")
      case True
      then have "(n - a) * 512 + 512 \<le> length xs" using n assms by simp
      then have "bytes_at ((n - a) * 512) 512 (xs @ ys) = bytes_at ((n - a) * 512) 512 xs"
        by (simp add: bytes_at_def)
      then show ?thesis using True n l assms by (simp add: media_set_sectors)
    next
      case False
      have "(n - a) * 512 = length xs + (n - (a + k)) * 512"
        using False n assms by (simp add: algebra_simps diff_mult_distrib2)
      then have "bytes_at ((n - a) * 512) 512 (xs @ ys) = bytes_at ((n - (a + k)) * 512) 512 ys"
        by (simp add: bytes_at_def)
      then show ?thesis using False n l by (simp add: media_set_sectors)
    qed
  qed
  then have "media (set_sectors dk (a + k) ys (set_sectors dk a xs s)) = media (set_sectors dk a (xs @ ys) s)"
    by (simp add: fun_eq_iff)
  then show ?thesis by (simp add: set_sectors_def)
qed

lemma set_sectors_Nil [simp]: "set_sectors dk a [] s = s"
proof -
  have "media (set_sectors dk a [] s) = media s" by (auto simp: fun_eq_iff media_set_sectors)
  then show ?thesis by (simp add: set_sectors_def)
qed

lemma bytes_at_append: "bytes_at a (n + m) xs = bytes_at a n xs @ bytes_at (a + n) m xs"
  by (simp add: bytes_at_def take_add add.commute [of a n])

lemma sectors_set_same:
  assumes "length bs = n * 512"
  shows "sectors dk a n (set_sectors dk a bs s) = bs"
proof -
  have m: "map (media (set_sectors dk a bs s) dk) [a..<a + n] = map (\<lambda>i. bytes_at (i * 512) 512 bs) [0..<n]"
    by (rule nth_equalityI) (simp_all add: media_set_sectors assms)
  have "concat (map (\<lambda>i. bytes_at (i * 512) 512 bs) [0..<n]) = bytes_at 0 (n * 512) bs" for n
  proof (induction n)
    case (Suc n)
    then show ?case using bytes_at_append [of 0 "n * 512" 512 bs] by (simp add: add.commute)
  qed (simp add: bytes_at_def)
  then show ?thesis using assms by (simp add: sectors_def m bytes_at_def)
qed

lemma ide_write_loop_ready:
  assumes ok: "drive_ok dk s" and fit: "unat lba + unat n \<le> 163840"
    and le: "unat secs_done \<le> unat n" and buf: "unat n * 512 \<le> length buf"
  shows "ide_write_loop dk lba buf n secs_done outs s =
    Some (set_sectors dk (unat lba + unat secs_done) (bytes_at (unat secs_done * 512) ((unat n - unat secs_done) * 512) buf) s)"
  using le ok
proof (induction "unat n - unat secs_done" arbitrary: secs_done outs s rule: less_induct)
  case less
  note ok = less.prems(2)
  show ?case
  proof (cases "secs_done < n")
    case False
    with less.prems have "unat secs_done = unat n" by (simp add: word_less_nat_alt)
    with False show ?thesis by (subst ide_write_loop.simps) (simp add: bytes_at_def)
  next
    case True
    then have l: "unat secs_done < unat n" by (simp add: word_less_nat_alt)
    let ?op = "chunk n secs_done"
    have n: "unat n \<le> 163840" using fit by linarith
    note b = chunk_bounds [OF True n] and y = chunk_bytes [OF b(1) b(2)]
    define c d where c: "c = channels s ! fst dk" and d: "d = devices c ! snd dk"
    note D = drive_okD [OF ok c d]
    obtain o1 where o1: "select_sector c d (lba + secs_done) (ucast ?op) = Some o1"
      using select_sector_ready(1) [OF fit l] by blast
    let ?outs = "outs @ o1 @ [(reg_cmd c, CMD_WRITE_SECTOR)]"
    note A = select_sector_asked [OF o1 D(4,5), of outs CMD_WRITE_SECTOR]
      select_sector_ready(2) [OF fit l]
    let ?bs = "bytes_at (unat secs_done * 512) (unat ?op * 512) buf"
    let ?s = "set_sectors dk (unat lba + unat secs_done) ?bs s"
    let ?on = "\<lambda>s :: 'a ide_state_scheme. s\<lparr>channels := (channels s)[fst dk := c\<lparr>expecting_intr := True\<rparr>]\<rparr>"
    have dk: "(fst dk, asked_dev c ?outs) = dk" using A(2) by simp
    have m: "unat (secs_done * 512) = unat secs_done * 512"
      using n l unat_mult_small [of secs_done 512] by simp
    have in_buf: "unat secs_done * 512 + unat ?op * 512 \<le> length buf"
      using b(4) buf mult_le_mono1 [OF b(4), of 512] by (simp add: add_mult_distrib)
    have ro: "reg_cmd (c\<lparr>expecting_intr := True\<rparr>) = reg_cmd c" "asked_lba (c\<lparr>expecting_intr := True\<rparr>) = asked_lba c"
      "asked_dev (c\<lparr>expecting_intr := True\<rparr>) = asked_dev c"
      by (simp_all add: fun_eq_iff reg_defs asked_lba_def asked_dev_def)
    have wr: "write2sector (fst dk) buf (unat (secs_done * 512)) (ucast ?op) ?outs (?on s) = Some (?on ?s)"
      using D(11) A y in_buf m
      by (simp add: write2sector_def Let_def ro rd_def dvd_div_mult_self mult.commute [of 512])
    have aw: "await_disk (fst dk) (?on ?s) = Some ?s"
      using await_disk_ready [of dk ?s c] ok c by simp
    have bw: "busy_wait (fst dk) (?on s) = (True, ?on s)"
      by (rule busy_wait_ready) (use D(9) in simp)
    have "ide_write_loop dk lba buf n secs_done outs s = ide_write_loop dk lba buf n (secs_done + ?op) ?outs ?s"
      using True D(1-3) o1 aw bw wr
      by (subst ide_write_loop.simps) (simp add: Let_def chunk_def [symmetric] cmd_out_def)
    also have "\<dots> = Some (set_sectors dk (unat lba + unat (secs_done + ?op))
        (bytes_at (unat (secs_done + ?op) * 512) ((unat n - unat (secs_done + ?op)) * 512) buf) ?s)"
      by (rule less.hyps) (use b l ok in simp_all)
    also have "\<dots> = Some (set_sectors dk (unat lba + unat secs_done)
        (bytes_at (unat secs_done * 512) ((unat n - unat secs_done) * 512) buf) s)"
    proof -
      have "(unat n - unat secs_done) * 512 = unat ?op * 512 + (unat n - (unat secs_done + unat ?op)) * 512"
        using b(4) by simp
      then show ?thesis
        using set_sectors_append [of ?bs "unat ?op" dk "unat lba + unat secs_done"] in_buf b(3)
        by (simp add: bytes_at_append add.assoc add_mult_distrib)
    qed
    finally show ?thesis .
  qed
qed


subsection \<open>Whole transfers\<close>

lemma disk_readyD:
  assumes "disk_ready dk s"
  shows "drive_ok dk s" "lock_free (chan_lock (channels s ! fst dk)) (kern s)"
    "disk_done (channels s ! fst dk) \<noteq> lock_sema (chan_lock (channels s ! fst dk))" "running (kern s) \<noteq> 0"
  using assms by (simp_all add: disk_ready_def)

lemma channel_lock:
  assumes "disk_ready dk s" and c: "c = channels s ! fst dk"
  shows "lock_acquire_now (chan_lock c) (kern s) = Some (held_by (chan_lock c) (running (kern s)) (kern s))"
    and "drive_ok dk (s\<lparr>kern := held_by (chan_lock c) (running (kern s)) (kern s)\<rparr>)"
    and "lock_release_now (chan_lock c) (held_by (chan_lock c) (running (kern s)) (kern s)) = Some (kern s)"
proof -
  note R = disk_readyD [OF assms(1), folded c]
  show "lock_acquire_now (chan_lock c) (kern s) = Some (held_by (chan_lock c) (running (kern s)) (kern s))"
    by (rule lock_acquire_now_free [OF R(2,4)])
  show "drive_ok dk (s\<lparr>kern := held_by (chan_lock c) (running (kern s)) (kern s)\<rparr>)"
    using R(1,3) c by (simp add: drive_ok_def held_by_def Let_def)
  have "lock_release_now (chan_lock c) (held_by (chan_lock c) (running (kern s)) (kern s)) =
    Some ((kern s)\<lparr>locks := (locks (kern s))(chan_lock c \<mapsto> \<lparr>holder = 0, holder_repeat_nr = 0\<rparr>),
      semas := (semas (kern s))(lock_sema (chan_lock c) \<mapsto> \<lparr>value = 1, waiters = []\<rparr>)\<rparr>)"
    by (subst lock_release_now_held) (simp_all add: held_by_def)
  also have "\<dots> = Some (kern s)"
    using R(2) by (simp add: lock_free_def fun_upd_idem)
  finally show "lock_release_now (chan_lock c) (held_by (chan_lock c) (running (kern s)) (kern s)) = Some (kern s)" .
qed

lemma set_sectors_kern [simp]: "set_sectors dk a bs (s\<lparr>kern := k\<rparr>) = (set_sectors dk a bs s)\<lparr>kern := k\<rparr>"
  by (simp add: set_sectors_def cong: if_cong)

lemma sectors_kern [simp]: "sectors dk a n (s\<lparr>kern := k\<rparr>) = sectors dk a n s"
  by (simp add: sectors_def)

lemma ide_read_ready:
  assumes "disk_ready dk s" and "whole_sectors dk s" and "0 < n" and fit: "unat lba + unat n \<le> 163840"
  shows "ide_read dk lba n s = Some (sectors dk (unat lba) (unat n) s, s)"
proof -
  define c where c: "c = channels s ! fst dk"
  let ?k = "held_by (chan_lock c) (running (kern s)) (kern s)"
  note L = channel_lock [OF assms(1) c]
  have td: "the_disk dk s = Some (c, devices c ! snd dk)"
    using drive_okD(1) [OF disk_readyD(1) [OF assms(1)] c refl] .
  have "0 < unat n" using assms(3) by (simp add: word_less_nat_alt)
  then have "lba \<le> max_lba" using fit by (simp add: max_lba_value word_le_nat_alt)
  moreover have "whole_sectors dk (s\<lparr>kern := ?k\<rparr>)" using assms(2) by (simp add: whole_sectors_def)
  note ide_read_loop_ready [OF L(2) this fit, of 0 "select_disk c (devices c ! snd dk)" "[]"]
  ultimately show ?thesis
    using assms(3) td L(1,3) by (simp add: ide_read_def word_neq_0_conv [symmetric])
qed

lemma ide_write_ready:
  assumes "disk_ready dk s" and "0 < n" and fit: "unat lba + unat n \<le> 163840" and "unat n * 512 \<le> length buf"
  shows "ide_write dk lba buf n s = Some (set_sectors dk (unat lba) (take (unat n * 512) buf) s)"
proof -
  define c where c: "c = channels s ! fst dk"
  let ?k = "held_by (chan_lock c) (running (kern s)) (kern s)"
  note L = channel_lock [OF assms(1) c]
  have td: "the_disk dk s = Some (c, devices c ! snd dk)"
    using drive_okD(1) [OF disk_readyD(1) [OF assms(1)] c refl] .
  have "0 < unat n" using assms(2) by (simp add: word_less_nat_alt)
  then have "lba \<le> max_lba" using fit by (simp add: max_lba_value word_le_nat_alt)
  moreover note ide_write_loop_ready [OF L(2) fit _ assms(4), of 0 "select_disk c (devices c ! snd dk)"]
  ultimately show ?thesis
    using assms(2) td L(1,3) by (simp add: ide_write_def bytes_at_def word_neq_0_conv [symmetric])
qed

text \<open>
  C18: the disk keeps what is written to it. On an idle, ready drive, writing n sectors succeeds, however the transfer is
  split into commands of at most 256 sectors; reading them back gives the bytes written, every other sector of every
  disk is unchanged, and the channel's lock, semaphore and interrupt flag are as before.
\<close>

theorem ide_write_read:
  assumes "disk_ready dk s" and "whole_sectors dk s" and "0 < n" and "unat lba + unat n \<le> 163840"
    and "length buf = unat n * 512"
  shows "\<exists>s'. ide_write dk lba buf n s = Some s' \<and> ide_read dk lba n s' = Some (buf, s') \<and> disk_ready dk s' \<and>
    (\<forall>dk' m. dk' \<noteq> dk \<or> m < unat lba \<or> unat lba + unat n \<le> m \<longrightarrow> media s' dk' m = media s dk' m) \<and>
    kern s' = kern s \<and> channels s' = channels s"
proof -
  let ?s = "set_sectors dk (unat lba) buf s"
  have "ide_write dk lba buf n s = Some ?s"
    using ide_write_ready [OF assms(1,3,4)] assms(5) by simp
  moreover have "ide_read dk lba n ?s = Some (buf, ?s)"
    using ide_read_ready [of dk ?s n lba] assms sectors_set_same [OF assms(5)] by simp
  moreover have "disk_ready dk ?s" using assms(1) by simp
  ultimately show ?thesis using assms(5) by (auto simp: media_set_sectors)
qed

text \<open>
  A command reaches the sector it is meant for. Whatever was written to the registers before, the address, the
  device and the count that the disk takes from the registers after \<open>select_sector\<close> and a command are the ones asked
  for, a count of 0 standing for 256, and an address past the 80 MB limit is refused.
\<close>

theorem select_sector_roundtrip:
  assumes "dev_no d = word_of_nat dv" and "dv < 2"
  shows "case select_sector c d lba n of
      None \<Rightarrow> unat lba > 163839
    | Some o1 \<Rightarrow> unat lba \<le> 163839 \<and> (let outs = before @ o1 @ [(reg_cmd c, cmd)]
        in asked_lba c outs = unat lba \<and> asked_dev c outs = dv \<and> asked_cnt c outs = (if n = 0 then 256 else unat n))"
proof (cases "select_sector c d lba n")
  case None
  then show ?thesis by (simp add: select_sector_def max_lba_value word_le_nat_alt split: if_splits)
next
  case (Some o1)
  then have "unat lba \<le> 163839"
    by (simp add: select_sector_def max_lba_value word_le_nat_alt split: if_splits)
  then show ?thesis using select_sector_asked [OF Some assms] Some by (simp add: Let_def)
qed

lemma busy_wait_loop_tries:
  "ide_status s ch = (\<lambda>i. if i < k then 0x80 else 0x58) \<Longrightarrow> fst (busy_wait_loop ch t s) \<longleftrightarrow> Suc k < t"
proof (induction t arbitrary: s k)
  case (Suc t)
  show ?case
  proof (cases "t = 0 \<or> k = 0")
    case True
    then show ?thesis using Suc.prems by (auto simp: inb_status_def BIT_STAT_BUSY_def BIT_STAT_DRQ_def)
  next
    case False
    then obtain k' where k: "k = Suc k'" by (cases k) auto
    have "ide_status (snd (inb_status ch s)) ch = (\<lambda>i. if i < k' then 0x80 else 0x58)"
      using Suc.prems k by (simp add: inb_status_def)
    from Suc.IH [OF this] show ?thesis
      using Suc.prems False k by (simp add: inb_status_def BIT_STAT_BUSY_def)
  qed
qed simp

text \<open>
  How long the driver waits. The condition \<open>time_limit -= 10 >= 0\<close> takes 1, not 10, off the limit, so \<open>busy_wait\<close>
  gives a busy disk 29999 tries of 10 ms, about 300 s instead of the 30 s of its comment, and then reports failure.
\<close>

theorem busy_wait_tries:
  "fst (busy_wait ch (s\<lparr>ide_status := (ide_status s)(ch := \<lambda>i. if i < k then 0x80 else 0x58)\<rparr>)) \<longleftrightarrow> k < 29999"
  using busy_wait_loop_tries [of "s\<lparr>ide_status := (ide_status s)(ch := \<lambda>i. if i < k then 0x80 else 0x58)\<rparr>" ch k "30 * 1000"]
  by (auto simp: busy_wait_def)


subsection \<open>Scanning a table\<close>

lemma the_disk_more [simp]:
  "the_disk dk (s\<lparr>parts := a, partition_list := b, p_no := n\<rparr>) = the_disk dk s"
  by (simp add: the_disk_def)

lemma scan_primaries_from:
  assumes "the_disk dk s = Some (c, d)" and "unat (p_no s) = k" and "\<forall>p \<in> set ps. fs_type p \<noteq> 5" and "k < 4"
  shows "let qs = filter (\<lambda>p. fs_type p \<noteq> 0) ps in case scan_entries dk 0 ps s of
      None \<Rightarrow> 4 \<le> k + length qs
    | Some (fin, s') \<Rightarrow> k + length qs < 4 \<and> fin \<and> partition_list s' = partition_list s @ map (Prim_part dk) [k..<k + length qs] \<and>
        (\<forall>i < length qs. start_lba (parts s' (Prim_part dk (k + i))) = entry_start_lba (qs ! i) \<and>
           sec_cnt (parts s' (Prim_part dk (k + i))) = entry_sec_cnt (qs ! i)) \<and>
        (\<forall>i < k. parts s' (Prim_part dk i) = parts s (Prim_part dk i)) \<and> kern s' = kern s \<and> media s' = media s"
  using assms
proof (induction ps arbitrary: s k)
  case Nil
  then show ?case by (simp add: scan_entries.simps)
next
  case (Cons p ps)
  show ?case
  proof (cases "fs_type p = 0")
    case True
    then have "scan_entries dk 0 (p # ps) s = scan_entries dk 0 ps s"
      by (simp add: scan_entries.simps [of dk 0 "p # ps"])
    then show ?thesis using Cons.IH [OF Cons.prems(1,2) _ Cons.prems(4)] Cons.prems True by simp
  next
    case False
    have n5: "fs_type p \<noteq> 5" using Cons.prems(3) by simp
    let ?r = "Prim_part dk k"
    let ?s = "s\<lparr>parts := (parts s)(?r := (parts s ?r)\<lparr>start_lba := 0 + entry_start_lba p,
              sec_cnt := entry_sec_cnt p, my_disk := dk, part_name := disk_name d @ digits_of 10 (k + 1)\<rparr>),
              partition_list := partition_list s @ [?r], p_no := p_no s + 1\<rparr>"
    have u: "unat (p_no s + 1) = k + 1"
      using Cons.prems(2,4) unat_add_lem [of "p_no s" 1] by simp
    have lt: "p_no s + 1 < 4 \<longleftrightarrow> k + 1 < 4" using u by (simp add: word_less_nat_alt)
    have step: "scan_entries dk 0 (p # ps) s = (if k + 1 < 4 then scan_entries dk 0 ps ?s else None)"
      using False n5 Cons.prems(1,2,4) lt by (simp add: scan_entries.simps [of dk 0 "p # ps"] add_prim_part_def Let_def)
    show ?thesis
    proof (cases "k + 1 < 4")
      case False
      then show ?thesis using step \<open>fs_type p \<noteq> 0\<close> by simp
    next
      case True
      have "the_disk dk ?s = Some (c, d)" using Cons.prems(1) by simp
      note IH = Cons.IH [OF this _ _ True, unfolded Let_def]
      define qs where qs: "qs = filter (\<lambda>p. fs_type p \<noteq> 0) ps"
      have IH: "case scan_entries dk 0 ps ?s of None \<Rightarrow> 4 \<le> k + 1 + length qs
        | Some (fin, s') \<Rightarrow> k + 1 + length qs < 4 \<and> fin \<and>
           partition_list s' = partition_list ?s @ map (Prim_part dk) [k + 1..<k + 1 + length qs] \<and>
           (\<forall>i < length qs. start_lba (parts s' (Prim_part dk (k + 1 + i))) = entry_start_lba (qs ! i) \<and>
              sec_cnt (parts s' (Prim_part dk (k + 1 + i))) = entry_sec_cnt (qs ! i)) \<and>
           (\<forall>i < k + 1. parts s' (Prim_part dk i) = parts ?s (Prim_part dk i)) \<and> kern s' = kern ?s \<and> media s' = media ?s"
        unfolding qs by (rule IH) (use u Cons.prems in simp_all)
      have f: "filter (\<lambda>p. fs_type p \<noteq> 0) (p # ps) = p # qs" using False qs by simp
      show ?thesis
      proof (cases "scan_entries dk 0 ps ?s")
        case None
        then show ?thesis using IH step True f by simp
      next
        case (Some x)
        obtain fin s' where x: "x = (fin, s')" by fastforce
        have upt: "[k..<k + length (p # qs)] = k # [k + 1..<k + 1 + length qs]"
          using upt_conv_Cons [of k "k + length (p # qs)"] by (simp del: upt_Suc)
        have P: "start_lba (parts s' (Prim_part dk (k + i))) = entry_start_lba ((p # qs) ! i) \<and>
           sec_cnt (parts s' (Prim_part dk (k + i))) = entry_sec_cnt ((p # qs) ! i)" if "i < length (p # qs)" for i
          using that IH Some x by (cases i) simp_all
        have "\<forall>i < k. parts s' (Prim_part dk i) = parts s (Prim_part dk i)"
          using IH Some x by simp
        then show ?thesis
          using IH Some x step True P upt unfolding f Let_def by simp
      qed
    qed
  qed
qed

text \<open>
  Scanning a table of primary partitions. With at most three primary partitions in the table, \<open>partition_scan\<close>'s loop
  records each of them, in order, with its start and length, and lists them. With four it never comes back: the
  assertion \<open>p_no < 4\<close> comes after \<open>p_no\<close> has been raised, so the fourth partition stops the kernel.
\<close>

theorem scan_primaries:
  assumes "the_disk dk s = Some (c, d)" and "p_no s = 0" and "\<forall>p \<in> set ps. fs_type p \<noteq> 5"
  shows "let qs = filter (\<lambda>p. fs_type p \<noteq> 0) ps in case scan_entries dk 0 ps s of
      None \<Rightarrow> 4 \<le> length qs
    | Some (fin, s') \<Rightarrow> length qs < 4 \<and> fin \<and> partition_list s' = partition_list s @ map (Prim_part dk) [0..<length qs] \<and>
        (\<forall>i < length qs. start_lba (parts s' (Prim_part dk i)) = entry_start_lba (qs ! i) \<and>
           sec_cnt (parts s' (Prim_part dk i)) = entry_sec_cnt (qs ! i))"
  using scan_primaries_from [OF assms(1) _ assms(3), of 0] assms(2)
  by (simp add: Let_def split: option.splits prod.splits)

subsection \<open>An example\<close>

text \<open>One channel with two drives; the second holds a zeroed medium.\<close>

definition demo_partition :: partition where
  "demo_partition = \<lparr>start_lba = 63, sec_cnt = 2000, my_disk = (0, 1), part_name = [0x73, 0x64, 0x62, 0x31], sb = None,
     block_bitmap = \<lparr>btmp_bytes_len = 0, bits = []\<rparr>, inode_bitmap = \<lparr>btmp_bytes_len = 0, bits = []\<rparr>, open_inodes = []\<rparr>"

definition demo_channel :: ide_channel where
  "demo_channel = \<lparr>channel_name = [], port_base = 0x1f0, irq_no = 0x2e, chan_lock = 0xc0300200, expecting_intr = False,
     disk_done = 0xc0300300, devices = [\<lparr>disk_name = [0x73, 0x64, 0x61], my_channel = 0, dev_no = 0\<rparr>,
       \<lparr>disk_name = [0x73, 0x64, 0x62], my_channel = 0, dev_no = 1\<rparr>]\<rparr>"

definition demo_kern :: kmem where
  "demo_kern = demo_mem\<lparr>locks := (locks demo_mem)(0xc0300200 \<mapsto> \<lparr>holder = 0, holder_repeat_nr = 0\<rparr>),
     semas := (semas demo_mem)(lock_sema 0xc0300200 \<mapsto> \<lparr>value = 1, waiters = []\<rparr>, 0xc0300300 \<mapsto> \<lparr>value = 0, waiters = []\<rparr>)\<rparr>"

definition demo_ide :: ide_state where
  "demo_ide = \<lparr>kern = demo_kern, intrs = \<lparr>eflags = 2, idt = [], idt_table = replicate 0x81 0, intr_name = [], ports = [], idtr = 0\<rparr>,
     channel_cnt = 1, channels = [demo_channel], media = (\<lambda>dk n. replicate 512 0), identity = (\<lambda>dk. replicate 512 0),
     ide_status = (\<lambda>ch i. 0x58), ext_lba_base = 0, p_no = 0, l_no = 0, parts = (\<lambda>r. demo_partition), partition_list = []\<rparr>"

lemma demo_ide_simps [simp]:
  "kern demo_ide = demo_kern" "channels demo_ide = [demo_channel]" "media demo_ide = (\<lambda>dk n. replicate 512 0)"
  "ide_status demo_ide = (\<lambda>ch i. 0x58)" "p_no demo_ide = 0" "parts demo_ide = (\<lambda>r. demo_partition)"
  by (simp_all add: demo_ide_def)

lemma demo_ready: "disk_ready (0, 1) demo_ide" "whole_sectors (0, 1) demo_ide"
  by (simp_all add: disk_ready_def drive_ok_def demo_channel_def demo_kern_def lock_free_def whole_sectors_def lock_sema_def)

theorem ide_write_read_witness:
  "\<exists>s'. ide_write (0, 1) 5 (replicate 1024 7) 2 demo_ide = Some s' \<and> ide_read (0, 1) 5 2 s' = Some (replicate 1024 7, s')"
  using ide_write_read [OF demo_ready, of 2 5 "replicate 1024 7"] by auto

theorem select_sector_roundtrip_witness:
  "case select_sector demo_channel (devices demo_channel ! 1) 0x12345 2 of None \<Rightarrow> False
   | Some o1 \<Rightarrow> asked_lba demo_channel (o1 @ [(reg_cmd demo_channel, 0x20)]) = 0x12345"
  using select_sector_roundtrip [where d = "devices demo_channel ! 1" and dv = 1 and c = demo_channel and lba = "0x12345"
      and n = 2 and before = "[]" and cmd = "0x20"]
  by (simp add: demo_channel_def Let_def split: option.splits)

theorem scan_primaries_witness:
  "scan_entries (0, 1) 0 (replicate 4 (entry_of (replicate 16 1))) demo_ide = None"
proof -
  have d: "the_disk (0, 1) demo_ide = Some (demo_channel, devices demo_channel ! 1)"
    by (simp add: the_disk_def demo_channel_def)
  have t: "fs_type (entry_of (replicate 16 1)) = 1" by (simp add: entry_of_def)
  show ?thesis
    using scan_primaries [OF d, of "replicate 4 (entry_of (replicate 16 1))"] t
    by (auto simp: Let_def split: option.splits)
qed

end
