(* ===== verification/Heap_Contract.thy ===== *)
theory Heap_Contract
  imports Kernel_Heap
begin

text \<open>
  What the clients of \<open>sys_malloc\<close> and \<open>sys_free\<close> rely on, as an interface, and its interpretation on the
  model of \<open>kernel/memory.c\<close> for a kernel thread and blocks of up to 1024 bytes.
\<close>

subsection \<open>The interface\<close>

text \<open>
  \<open>ready s L k\<close> says that the blocks in use are \<open>L\<close> and that at least \<open>k\<close> further pages can be taken;
  \<open>same\<close> relates states that differ in the heap only.
\<close>

locale heap_api =
  fixes ready :: "'s \<Rightarrow> 'a set \<Rightarrow> nat \<Rightarrow> bool" and fits :: "'n \<Rightarrow> bool" and null :: 'a
    and malloc :: "'n \<Rightarrow> 's \<Rightarrow> ('a \<times> 's) option" and free :: "'a \<Rightarrow> 's \<Rightarrow> 's option"
    and same :: "'s \<Rightarrow> 's \<Rightarrow> bool"
  assumes malloc_ready: "ready s L (Suc k) \<Longrightarrow> fits n \<Longrightarrow>
      \<exists>b s'. malloc n s = Some (b, s') \<and> b \<noteq> null \<and> b \<notin> L \<and> ready s' (insert b L) k \<and> same s s'"
    and free_ready: "ready s L k \<Longrightarrow> b \<in> L \<Longrightarrow> \<exists>s'. free b s = Some s' \<and> ready s' (L - {b}) k \<and> same s s'"
    and same_trans: "same s s1 \<Longrightarrow> same s1 s2 \<Longrightarrow> same s s2"
begin

text \<open>A buffer that is taken and given back leaves the other blocks in use as they were.\<close>

lemma scratch_buffer:
  assumes "ready s L (Suc k)" and "fits n"
  shows "\<exists>b s1. malloc n s = Some (b, s1) \<and> b \<noteq> null \<and> b \<notin> L \<and> ready s1 (insert b L) k \<and> same s s1 \<and>
    (\<exists>s2. free b s1 = Some s2 \<and> ready s2 L k \<and> same s s2)"
proof -
  obtain b s1 where m: "malloc n s = Some (b, s1)" "b \<noteq> null" "b \<notin> L" "ready s1 (insert b L) k" "same s s1"
    using malloc_ready [OF assms] by blast
  obtain s2 where f: "free b s1 = Some s2" "ready s2 (insert b L - {b}) k" "same s1 s2"
    using free_ready [OF m(4), of b] by blast
  have "insert b L - {b} = L" using m(3) by blast
  with m f same_trans show ?thesis by metis
qed

text \<open>Two blocks taken one after the other are different.\<close>

lemma two_blocks:
  assumes "ready s L (Suc (Suc k))" and "fits n" and "fits n'"
  shows "\<exists>a s1 b s2. malloc n s = Some (a, s1) \<and> malloc n' s1 = Some (b, s2) \<and> a \<noteq> null \<and> b \<noteq> null \<and> a \<notin> L \<and>
    b \<notin> L \<and> a \<noteq> b \<and> ready s1 (insert a L) (Suc k) \<and> ready s2 (insert b (insert a L)) k \<and> same s s1 \<and> same s1 s2"
proof -
  obtain a s1 where m: "malloc n s = Some (a, s1)" "a \<noteq> null" "a \<notin> L" "ready s1 (insert a L) (Suc k)" "same s s1"
    using malloc_ready [OF assms(1,2)] by blast
  obtain b s2 where f: "malloc n' s1 = Some (b, s2)" "b \<noteq> null" "b \<notin> insert a L" "ready s2 (insert b (insert a L)) k" "same s1 s2"
    using malloc_ready [OF m(4) assms(3)] by blast
  with m show ?thesis by blast
qed

end

subsection \<open>The kernel's heap provides it\<close>

definition heap_ready :: "'z kmem_scheme \<Rightarrow> u32 set \<Rightarrow> nat \<Rightarrow> bool" where
  "heap_ready s L k \<longleftrightarrow> (\<exists>A. heap_ok s A \<and> live s A = L) \<and> (\<exists>p. tasks s (running s) = Some p \<and> pgdir p = 0) \<and>
     running s \<noteq> 0 \<and> lock_free (pool_lock (kernel_pool s)) s \<and> 1024 < unat (pool_size (kernel_pool s)) \<and>
     vaddr_start (kernel_vaddr s) = K_HEAP_START \<and> k \<le> pages_left s"

definition small :: "u32 \<Rightarrow> bool" where
  "small n \<longleftrightarrow> 0 < unat n \<and> unat n \<le> 1024"

lemma heap_ready_frame:
  assumes "heap_ready s L k" and "heap_frame s s'" and "heap_ok s' A'" and "live s' A' = L'"
    and "lock_free (pool_lock (kernel_pool s)) s'" and "k' \<le> pages_left s'"
  shows "heap_ready s' L' k'"
  using assms unfolding heap_ready_def heap_frame_def by metis

lemma sys_malloc_ready:
  assumes "heap_ready s L (Suc k)" and "small n"
  shows "\<exists>b s'. sys_malloc n s = Some (b, s') \<and> b \<noteq> 0 \<and> b \<notin> L \<and> heap_ready s' (insert b L) k \<and> heap_frame s s'"
proof -
  obtain A p where r: "heap_ok s A" "live s A = L" "tasks s (running s) = Some p" "pgdir p = 0" "running s \<noteq> 0"
      "lock_free (pool_lock (kernel_pool s)) s" "1024 < unat (pool_size (kernel_pool s))" "Suc k \<le> pages_left s"
    using assms(1) unfolding heap_ready_def by blast
  have n: "0 < unat n" "unat n \<le> 1024" using assms(2) by (simp_all add: small_def)
  have "n < pool_size (kernel_pool s)" using n r(7) by (simp add: word_less_nat_alt)
  moreover have "bm_free (vaddr_bitmap (kernel_vaddr s)) \<noteq> {}" "bm_free (pool_bitmap (kernel_pool s)) \<noteq> {}"
    using pages_left_room [of s] r(8) by auto
  ultimately obtain b s' A' where s': "sys_malloc n s = Some (b, s')" "heap_ok s' A'"
      "lock_free (pool_lock (kernel_pool s)) s'" "b \<noteq> 0" "b \<notin> live s A" "live s' A' = insert b (live s A)"
      "heap_frame s s'" "pages_left s \<le> pages_left s' + 1"
    using sys_malloc_small [OF r(1,3-6) n] by blast
  have "heap_ready s' (insert b L) k"
    by (rule heap_ready_frame [OF assms(1) s'(7,2)]) (use s' r in simp_all)
  then show ?thesis using s' r(2) by blast
qed

lemma sys_free_ready:
  assumes "heap_ready s L k" and "b \<in> L"
  shows "\<exists>s'. sys_free b s = Some s' \<and> heap_ready s' (L - {b}) k \<and> heap_frame s s'"
proof -
  obtain A p where r: "heap_ok s A" "live s A = L" "tasks s (running s) = Some p" "pgdir p = 0" "running s \<noteq> 0"
      "lock_free (pool_lock (kernel_pool s)) s" "vaddr_start (kernel_vaddr s) = K_HEAP_START" "k \<le> pages_left s"
    using assms(1) unfolding heap_ready_def by blast
  obtain s' A' where s': "sys_free b s = Some s'" "heap_ok s' A'" "lock_free (pool_lock (kernel_pool s)) s'"
      "live s' A' = live s A - {b}" "heap_frame s s'" "pages_left s \<le> pages_left s'"
    using sys_free_block [OF r(1,3-7)] assms(2) r(2) by blast
  have "heap_ready s' (L - {b}) k"
    by (rule heap_ready_frame [OF assms(1) s'(5,2)]) (use s' r in simp_all)
  then show ?thesis using s' by blast
qed

interpretation kh: heap_api heap_ready small "0 :: u32" sys_malloc sys_free heap_frame
proof unfold_locales
  fix s :: "'a kmem_scheme" and L k n
  assume "heap_ready s L (Suc k)" "small n"
  then show "\<exists>b s'. sys_malloc n s = Some (b, s') \<and> b \<noteq> 0 \<and> b \<notin> L \<and> heap_ready s' (insert b L) k \<and> heap_frame s s'"
    by (rule sys_malloc_ready)
next
  fix s :: "'a kmem_scheme" and L k b
  assume "heap_ready s L k" "b \<in> L"
  then show "\<exists>s'. sys_free b s = Some s' \<and> heap_ready s' (L - {b}) k \<and> heap_frame s s'"
    by (rule sys_free_ready)
qed (rule heap_frame_trans)

lemma heap_ready_more: "heap_ready s L k \<Longrightarrow> k' \<le> k \<Longrightarrow> heap_ready s L k'"
  by (auto simp: heap_ready_def)

lemma demo_heap_ready: "\<exists>L. heap_ready demo_mem L 7 \<and> 0xc010000c \<in> L"
proof -
  have "bm_free \<lparr>btmp_bytes_len = Suc 0, bits = [1]\<rparr> = {Suc 0..<8}" by simp
  then have "pages_left demo_mem = 7" by (simp add: pages_left_def)
  then show ?thesis
    using demo_heap demo_live demo_task_mem unfolding heap_ready_def by (auto simp: K_HEAP_START_def)
qed

end
