(* ===== verification/Disk_Bytes.thy ===== *)
theory Disk_Bytes
  imports Device_Ide Heap_Contract
begin

text \<open>
  What the file system relies on from the disk driver, as an interface: a store of sectors, seen as one
  array of bytes. A structure on the disk is changed by reading the sectors it lies in, replacing its
  bytes in the buffer and writing the sectors back; \<open>read_modify_write\<close> is that step, proved once.
\<close>

locale block_store =
  fixes ok :: "'s \<Rightarrow> bool" and sec :: "'s \<Rightarrow> nat \<Rightarrow> 'b list" and limit :: nat and rest :: "'s \<Rightarrow> 'r"
    and read :: "nat \<Rightarrow> nat \<Rightarrow> 's \<Rightarrow> ('b list \<times> 's) option" and "write" :: "nat \<Rightarrow> 'b list \<Rightarrow> nat \<Rightarrow> 's \<Rightarrow> 's option"
  assumes sec_len: "ok s \<Longrightarrow> length (sec s m) = 512"
    and read_ok: "ok s \<Longrightarrow> 0 < n \<Longrightarrow> a + n \<le> limit \<Longrightarrow> read a n s = Some (concat (map (sec s) [a..<a + n]), s)"
    and write_ok: "ok s \<Longrightarrow> 0 < n \<Longrightarrow> a + n \<le> limit \<Longrightarrow> n * 512 \<le> length bs \<Longrightarrow>
      \<exists>s'. write a bs n s = Some s' \<and> ok s' \<and> rest s' = rest s \<and>
        (\<forall>m. sec s' m = (if a \<le> m \<and> m < a + n then bytes_at ((m - a) * 512) 512 bs else sec s m))"
begin

definition byte :: "'s \<Rightarrow> nat \<Rightarrow> 'b" where
  "byte s i = sec s (i div 512) ! (i mod 512)"

lemma concat_secs:
  assumes "ok s"
  shows "length (concat (map (sec s) [a..<a + n])) = n * 512"
    and "i < n * 512 \<Longrightarrow> concat (map (sec s) [a..<a + n]) ! i = byte s (a * 512 + i)"
proof -
  show len: "length (concat (map (sec s) [a..<a + n])) = n * 512" for n
    using sec_len [OF assms] by (simp add: length_concat comp_def sum_list_triv)
  show "i < n * 512 \<Longrightarrow> concat (map (sec s) [a..<a + n]) ! i = byte s (a * 512 + i)"
  proof (induction n)
    case (Suc n)
    show ?case
    proof (cases "i < n * 512")
      case True
      then show ?thesis using Suc.IH len [of n] by (simp add: nth_append)
    next
      case False
      then obtain j where "i = n * 512 + j" using le_Suc_ex [of "n * 512" i] by auto
      then have j: "i = n * 512 + j" "j < 512" using Suc.prems by simp_all
      have "(q * 512 + j) div 512 = q" "(q * 512 + j) mod 512 = j" for q using j(2) by simp_all
      moreover have "a * 512 + i = (a + n) * 512 + j" using j(1) by simp
      ultimately have "(a * 512 + i) div 512 = a + n" "(a * 512 + i) mod 512 = j" by metis+
      then show ?thesis using False j len [of n] by (simp add: nth_append byte_def)
    qed
  qed simp
qed

lemma read_bytes:
  assumes "ok s" and "0 < n" and "a + n \<le> limit" and "off + k \<le> n * 512"
  shows "\<exists>d. read a n s = Some (d, s) \<and> length d = n * 512 \<and>
    bytes_at off k d = map (\<lambda>i. byte s (a * 512 + off + i)) [0..<k]"
proof -
  let ?d = "concat (map (sec s) [a..<a + n])"
  have "bytes_at off k ?d = map (\<lambda>i. byte s (a * 512 + off + i)) [0..<k]"
    by (rule nth_equalityI) (use concat_secs [OF assms(1), where a = a and n = n] assms(4) in \<open>simp_all add: add.assoc\<close>)
  then show ?thesis using read_ok [OF assms(1-3)] concat_secs(1) [OF assms(1)] by blast
qed

lemma write_bytes:
  assumes "ok s" and "0 < n" and "a + n \<le> limit" and "n * 512 \<le> length bs"
  shows "\<exists>s'. write a bs n s = Some s' \<and> ok s' \<and> rest s' = rest s \<and>
    (\<forall>i. byte s' i = (if a * 512 \<le> i \<and> i < (a + n) * 512 then bs ! (i - a * 512) else byte s i)) \<and>
    (\<forall>m. m < a \<or> a + n \<le> m \<longrightarrow> sec s' m = sec s m)"
proof -
  obtain s' where s': "write a bs n s = Some s'" "ok s'" "rest s' = rest s"
      "\<forall>m. sec s' m = (if a \<le> m \<and> m < a + n then bytes_at ((m - a) * 512) 512 bs else sec s m)"
    using write_ok [OF assms] by blast
  have "byte s' i = (if a * 512 \<le> i \<and> i < (a + n) * 512 then bs ! (i - a * 512) else byte s i)" for i
  proof -
    have c: "a \<le> i div 512 \<and> i div 512 < a + n \<longleftrightarrow> a * 512 \<le> i \<and> i < (a + n) * 512"
      by (simp add: less_eq_div_iff_mult_less_eq div_less_iff_less_mult)
    show ?thesis
    proof (cases "a \<le> i div 512 \<and> i div 512 < a + n")
      case True
      have "(i div 512 - a) * 512 + i mod 512 = i - a * 512"
        using True by (simp add: diff_mult_distrib add.commute [of _ "i mod 512"] mod_div_mult_eq)
      moreover have "(i div 512 - a) * 512 + 512 \<le> length bs"
      proof -
        have "(i div 512 - a + 1) * 512 \<le> n * 512" using True by (intro mult_le_mono1) linarith
        then show ?thesis using assms(4) by (simp add: add_mult_distrib)
      qed
      ultimately show ?thesis using True c s'(4) by (simp add: byte_def)
    next
      case False
      then have "sec s' (i div 512) = sec s (i div 512)" using s'(4) by auto
      moreover have "\<not> (a * 512 \<le> i \<and> i < (a + n) * 512)" using False c by blast
      ultimately show ?thesis unfolding byte_def by (simp only: if_False)
    qed
  qed
  with s' show ?thesis by auto
qed

lemma read_modify_write:
  assumes "ok s" and "0 < n" and "a + n \<le> limit" and "off + length p \<le> n * 512" and "n * 512 \<le> length buf"
  shows "\<exists>d s'. read a n s = Some (d, s) \<and> length d = n * 512 \<and>
    write a (put_bytes (put_bytes buf 0 d) off p) n s = Some s' \<and> ok s' \<and> rest s' = rest s \<and>
    (\<forall>i. byte s' i = (if a * 512 + off \<le> i \<and> i < a * 512 + off + length p then p ! (i - (a * 512 + off)) else byte s i)) \<and>
    (\<forall>m. m < a \<or> a + n \<le> m \<longrightarrow> sec s' m = sec s m)"
proof -
  let ?d = "concat (map (sec s) [a..<a + n])" let ?b = "put_bytes (put_bytes buf 0 ?d) off p"
  note c = concat_secs [OF assms(1), where a = a and n = n]
  have l: "length ?b = length buf" using c(1) assms(4,5) by simp
  have b: "?b ! i = (if off \<le> i \<and> i < off + length p then p ! (i - off) else byte s (a * 512 + i))" if "i < n * 512" for i
    using that c assms(4,5) by (simp add: nth_put_bytes)
  obtain s' where s': "write a ?b n s = Some s'" "ok s'" "rest s' = rest s"
      "\<forall>i. byte s' i = (if a * 512 \<le> i \<and> i < (a + n) * 512 then ?b ! (i - a * 512) else byte s i)"
      "\<forall>m. m < a \<or> a + n \<le> m \<longrightarrow> sec s' m = sec s m"
    using write_bytes [OF assms(1-3), of ?b] l assms(5) by auto
  have "byte s' i = (if a * 512 + off \<le> i \<and> i < a * 512 + off + length p then p ! (i - (a * 512 + off)) else byte s i)" for i
  proof (cases "a * 512 \<le> i \<and> i < (a + n) * 512")
    case True
    then have "i - a * 512 < n * 512" by (simp add: add_mult_distrib less_diff_conv2 add.commute)
    from b [OF this] True show ?thesis unfolding s'(4) [rule_format]
      by (auto simp: le_diff_conv2 less_diff_conv2 add.commute)
  next
    case False
    then show ?thesis using assms(4) s'(4) by (auto simp: add_mult_distrib)
  qed
  then show ?thesis using read_ok [OF assms(1-3)] c(1) s' by blast
qed

end

subsection \<open>The driver provides it\<close>

definition store_ok :: "disk_ref \<Rightarrow> 'z ide_state_scheme \<Rightarrow> bool" where
  "store_ok dk s \<longleftrightarrow> disk_ready dk s \<and> whole_sectors dk s"

text \<open>The state without the contents of one disk.\<close>

definition off_disk :: "disk_ref \<Rightarrow> 'z ide_state_scheme \<Rightarrow> 'z ide_state_scheme" where
  "off_disk dk s = s\<lparr>media := (media s)(dk := \<lambda>n. [])\<rparr>"

lemma off_disk_eq:
  assumes "off_disk dk s' = off_disk dk s"
  shows "kern s' = kern s" "parts s' = parts s" "channels s' = channels s" "ide_state.more s' = ide_state.more s"
    "dk' \<noteq> dk \<Longrightarrow> media s' dk' = media s dk'" "partition_list s' = partition_list s"
proof -
  show "dk' \<noteq> dk \<Longrightarrow> media s' dk' = media s dk'"
    using arg_cong [OF assms, of "\<lambda>x. media x dk'"] by (simp add: off_disk_def)
qed (use arg_cong [OF assms, of kern] arg_cong [OF assms, of parts] arg_cong [OF assms, of channels]
       arg_cong [OF assms, of ide_state.more] arg_cong [OF assms, of partition_list] in \<open>simp_all add: off_disk_def\<close>)

interpretation bs: block_store "store_ok dk" "\<lambda>s. media s dk" 163840 "off_disk dk"
  "\<lambda>a n. ide_read dk (word_of_nat a) (word_of_nat n)" "\<lambda>a buf n. ide_write dk (word_of_nat a) buf (word_of_nat n)"
  for dk
proof unfold_locales
  fix s :: "'a ide_state_scheme" and m
  assume "store_ok dk s"
  then show "length (media s dk m) = 512" by (simp add: store_ok_def whole_sectors_def)
next
  fix s :: "'a ide_state_scheme" and a n :: nat
  assume a: "store_ok dk s" "0 < n" "a + n \<le> 163840"
  then have "unat (word_of_nat a :: u32) = a" "unat (word_of_nat n :: u32) = n" by (simp_all add: unat_of_nat)
  then show "ide_read dk (word_of_nat a) (word_of_nat n) s = Some (concat (map (media s dk) [a..<a + n]), s)"
    using a ide_read_ready [of dk s "word_of_nat n" "word_of_nat a"]
    by (simp add: store_ok_def sectors_def word_less_nat_alt)
next
  fix s :: "'a ide_state_scheme" and a n :: nat and buf :: "u8 list"
  assume a: "store_ok dk s" "0 < n" "a + n \<le> 163840" "n * 512 \<le> length buf"
  then have u: "unat (word_of_nat a :: u32) = a" "unat (word_of_nat n :: u32) = n" by (simp_all add: unat_of_nat)
  let ?s = "set_sectors dk a (take (n * 512) buf) s"
  have "ide_write dk (word_of_nat a) buf (word_of_nat n) s = Some ?s"
    using a u ide_write_ready [of dk s "word_of_nat n" "word_of_nat a" buf]
    by (simp add: store_ok_def word_less_nat_alt)
  moreover have "media ?s dk m = (if a \<le> m \<and> m < a + n then bytes_at ((m - a) * 512) 512 buf else media s dk m)" for m
  proof (cases "a \<le> m \<and> m < a + n")
    case True
    then have "(m - a + 1) * 512 \<le> n * 512" by (intro mult_le_mono1) linarith
    then have "bytes_at ((m - a) * 512) 512 (take (n * 512) buf) = bytes_at ((m - a) * 512) 512 buf"
      by (simp add: bytes_at_def drop_take min_def)
    then show ?thesis using True a(4) by (simp add: media_set_sectors)
  qed (use a(4) in \<open>auto simp: media_set_sectors\<close>)
  moreover have "store_ok dk ?s" using a(1) by (simp add: store_ok_def)
  moreover have "off_disk dk ?s = off_disk dk s" by (simp add: off_disk_def set_sectors_def)
  ultimately show "\<exists>s'. ide_write dk (word_of_nat a) buf (word_of_nat n) s = Some s' \<and> store_ok dk s' \<and>
      off_disk dk s' = off_disk dk s \<and>
      (\<forall>m. media s' dk m = (if a \<le> m \<and> m < a + n then bytes_at ((m - a) * 512) 512 buf else media s dk m))"
    by blast
qed

end
