(* ===== verification/Fs_State.thy ===== *)
theory Fs_State
  imports Disk_Bytes Bitmap_Alloc
begin

text \<open>
  The state of the file system (\<open>fs/\<close>) and the parts of \<open>fs/file.c\<close> that keep the two bitmaps of a
  partition: allocating an inode number or a block, and writing a bitmap's sector to the disk.

  Objects on the heap are typed: \<open>inodes\<close> and \<open>dirs\<close> hold the \<open>struct inode\<close> and \<open>struct dir\<close> objects
  by their address, \<open>Root_dir\<close> stands for the global \<open>root_dir\<close>. The list \<open>open_inodes\<close> of a partition
  is the list of the inodes whose \<open>inode_tag\<close> is linked into it, and a tag is the partition whose
  list it is in. A buffer on the heap is a byte list that its function carries with it; its address
  comes from \<open>sys_malloc\<close> and goes to \<open>sys_free\<close>. Using a null pointer is \<open>None\<close>.
\<close>

record inode =
  i_no :: u32
  i_size :: u32
  i_open_cnts :: u32
  write_deny :: bool
  i_sectors :: "u32 list"
  inode_tag :: "part_ref option"

record dir =
  dir_inode :: u32
  dir_pos :: u32
  dir_buf :: "u8 list"

datatype dir_ref = Root_dir | Dir_at u32

record open_file =
  fd_pos :: u32
  fd_flag :: u32
  fd_inode :: u32

record fs_state = ide_state +
  cur_part :: part_ref
  inodes :: "u32 \<rightharpoonup> inode"
  root_dir :: dir
  dirs :: "u32 \<rightharpoonup> dir"
  file_table :: "open_file list"

datatype bitmap_type = INODE_BITMAP | BLOCK_BITMAP

definition upd_part :: "part_ref \<Rightarrow> (partition \<Rightarrow> partition) \<Rightarrow> 'z ide_state_scheme \<Rightarrow> 'z ide_state_scheme" where
  "upd_part part f s = s\<lparr>parts := (parts s)(part := f (parts s part))\<rparr>"

subsection \<open>The bitmaps of a partition\<close>

text \<open>The results are \<open>int32_t\<close>; \<open>-1\<close> is \<open>0xffffffff\<close>.\<close>

definition inode_bitmap_alloc :: "part_ref \<Rightarrow> 'z ide_state_scheme \<Rightarrow> (u32 \<times> 'z ide_state_scheme) option" where
  "inode_bitmap_alloc part s = do {
     bit_idx \<leftarrow> bitmap_scan (inode_bitmap (parts s part)) 1;
     if bit_idx = -1 then Some (-1, s)
     else do {
       m \<leftarrow> bitmap_set (inode_bitmap (parts s part)) (nat bit_idx) 1;
       Some (word_of_int bit_idx, upd_part part (\<lambda>p. p\<lparr>inode_bitmap := m\<rparr>) s) } }"

definition block_bitmap_alloc :: "part_ref \<Rightarrow> 'z ide_state_scheme \<Rightarrow> (u32 \<times> 'z ide_state_scheme) option" where
  "block_bitmap_alloc part s = do {
     bit_idx \<leftarrow> bitmap_scan (block_bitmap (parts s part)) 1;
     if bit_idx = -1 then Some (-1, s)
     else do {
       m \<leftarrow> bitmap_set (block_bitmap (parts s part)) (nat bit_idx) 1;
       b \<leftarrow> sb (parts s part);
       Some (data_start_lba b + word_of_int bit_idx, upd_part part (\<lambda>p. p\<lparr>block_bitmap := m\<rparr>) s) } }"

text \<open>
  As in the code, the bytes written come from \<open>block_bitmap\<close> for both kinds of bitmap, and their
  offset in it is the number of the sector (\<open>off_sec\<close>), not of its first byte (\<open>off_size\<close>).
\<close>

definition bitmap_sync :: "part_ref \<Rightarrow> u32 \<Rightarrow> bitmap_type \<Rightarrow> 'z ide_state_scheme \<Rightarrow> 'z ide_state_scheme option" where
  "bitmap_sync part bit_idx btmp s = do {
     let off_sec = bit_idx div 4096;
     let off_size = off_sec * 512;
     b \<leftarrow> sb (parts s part);
     let (lba, bitmap_off) = (case btmp of
         INODE_BITMAP \<Rightarrow> (inode_bitmap_lba b + off_sec, off_sec)
       | BLOCK_BITMAP \<Rightarrow> (block_bitmap_lba b + off_sec, off_sec));
     buf \<leftarrow> get_buf (bits (block_bitmap (parts s part))) (unat bitmap_off) 512;
     ide_write (my_disk (parts s part)) lba buf 1 s }"

end
