(* ===== verification/Fs_Inode.thy ===== *)
theory Fs_Inode
  imports Fs_State
begin

text \<open>
  \<open>fs/inode.c\<close>: where an inode is on the disk, writing it there, opening and closing it in memory,
  and giving its blocks back.
\<close>

subsection \<open>Inodes on the disk\<close>

definition sizeof_inode :: u32 where "sizeof_inode = 76"

text \<open>The 76 bytes of a \<open>struct inode\<close>. The links of the tag are null in every inode that is written.\<close>

definition inode_bytes :: "inode \<Rightarrow> u8 list" where
  "inode_bytes i = le32 (i_no i) @ le32 (i_size i) @ le32 (i_open_cnts i) @ le32 (if write_deny i then 1 else 0) @
     le32s (i_sectors i) @ replicate 8 0"

definition inode_of_bytes :: "u8 list \<Rightarrow> inode" where
  "inode_of_bytes bs = \<lparr>i_no = u32_of bs, i_size = u32_of (drop 4 bs), i_open_cnts = u32_of (drop 8 bs),
     write_deny = (u32_of (drop 12 bs) \<noteq> 0), i_sectors = u32s_of 13 (drop 16 bs), inode_tag = None\<rparr>"

record inode_position =
  two_sec :: bool
  sec_lba :: u32
  off_size :: u32

definition inode_locate :: "part_ref \<Rightarrow> u32 \<Rightarrow> 'z ide_state_scheme \<Rightarrow> inode_position option" where
  "inode_locate part inode_no s = do {
     ASSERT (inode_no < 4096);
     b \<leftarrow> sb (parts s part);
     let size_all = inode_no * sizeof_inode;
     let off_sec = size_all div 512;
     let off_size_in_sec = size_all mod 512;
     let left_in_sec = 512 - off_size_in_sec;
     Some \<lparr>two_sec = (left_in_sec < sizeof_inode), sec_lba = inode_table_lba b + off_sec, off_size = off_size_in_sec\<rparr> }"

definition sec_num :: "inode_position \<Rightarrow> u32" where
  "sec_num pos = (if two_sec pos then 2 else 1)"

text \<open>The number is read through a \<open>uint8_t\<close>.\<close>

definition inode_sync :: "part_ref \<Rightarrow> inode \<Rightarrow> u8 list \<Rightarrow> 'z ide_state_scheme \<Rightarrow> (u8 list \<times> 'z ide_state_scheme) option" where
  "inode_sync part ino io_buf s = do {
     let inode_no = (ucast (i_no ino) :: u8);
     pos \<leftarrow> inode_locate part (ucast inode_no) s;
     let p = parts s part;
     ASSERT (sec_lba pos \<le> start_lba p + sec_cnt p);
     let pure_inode = ino\<lparr>i_open_cnts := 0, write_deny := False, inode_tag := None\<rparr>;
     (d, s) \<leftarrow> ide_read (my_disk p) (sec_lba pos) (sec_num pos) s;
     buf \<leftarrow> put_buf io_buf 0 d;
     buf \<leftarrow> put_buf buf (unat (off_size pos)) (inode_bytes pure_inode);
     s \<leftarrow> ide_write (my_disk p) (sec_lba pos) buf (sec_num pos) s;
     Some (buf, s) }"

definition inode_delete :: "part_ref \<Rightarrow> u32 \<Rightarrow> u8 list \<Rightarrow> 'z ide_state_scheme \<Rightarrow> (u8 list \<times> 'z ide_state_scheme) option" where
  "inode_delete part inode_no io_buf s = do {
     ASSERT (inode_no < 4096);
     pos \<leftarrow> inode_locate part inode_no s;
     let p = parts s part;
     (d, s) \<leftarrow> ide_read (my_disk p) (sec_lba pos) (sec_num pos) s;
     buf \<leftarrow> put_buf io_buf 0 d;
     buf \<leftarrow> put_buf buf (unat (off_size pos)) (replicate (unat sizeof_inode) 0);
     s \<leftarrow> ide_write (my_disk p) (sec_lba pos) buf (sec_num pos) s;
     Some (buf, s) }"

definition inode_init :: "u32 \<Rightarrow> inode \<Rightarrow> inode" where
  "inode_init inode_no new_inode = new_inode\<lparr>i_no := inode_no, i_size := 0, i_open_cnts := 0, write_deny := False,
     i_sectors := replicate 13 0\<rparr>"

subsection \<open>Open inodes\<close>

text \<open>Allocating and freeing with \<open>pgdir\<close> set to \<open>NULL\<close>, so that the kernel's heap is used.\<close>

definition in_kernel_heap ::
  "(kmem \<Rightarrow> ('a \<times> kmem) option) \<Rightarrow> 'z ide_state_scheme \<Rightarrow> ('a \<times> 'z ide_state_scheme) option" where
  "in_kernel_heap f s = do {
     let cur = running (kern s);
     p \<leftarrow> tasks (kern s) cur;
     let cur_pagedir_bak = pgdir p;
     k \<leftarrow> upd_task cur (\<lambda>p. p\<lparr>pgdir := 0\<rparr>) (kern s);
     (r, k) \<leftarrow> f k;
     k \<leftarrow> upd_task cur (\<lambda>p. p\<lparr>pgdir := cur_pagedir_bak\<rparr>) k;
     Some (r, s\<lparr>kern := k\<rparr>) }"

fun find_open :: "u32 \<Rightarrow> u32 list \<Rightarrow> (u32 \<rightharpoonup> inode) \<Rightarrow> u32 option option" where
  "find_open inode_no [] m = Some None"
| "find_open inode_no (a # as) m = do {
     i \<leftarrow> m a;
     if i_no i = inode_no then Some (Some a) else find_open inode_no as m }"

definition upd_inode :: "u32 \<Rightarrow> (inode \<Rightarrow> inode) \<Rightarrow> 'z fs_state_scheme \<Rightarrow> 'z fs_state_scheme option" where
  "upd_inode a f s = do { i \<leftarrow> inodes s a; Some (s\<lparr>inodes := (inodes s)(a \<mapsto> f i)\<rparr>) }"

definition load_inode :: "part_ref \<Rightarrow> u32 \<Rightarrow> 'z fs_state_scheme \<Rightarrow> (u32 \<times> 'z fs_state_scheme) option" where
  "load_inode part inode_no s = do {
     pos \<leftarrow> inode_locate part inode_no s;
     (a, s) \<leftarrow> in_kernel_heap (sys_malloc sizeof_inode) s;
     (buf, s) \<leftarrow> fs_malloc (if two_sec pos then 1024 else 512) s;
     (d, s) \<leftarrow> ide_read (my_disk (parts s part)) (sec_lba pos) (sec_num pos) s;
     bs \<leftarrow> get_buf d (unat (off_size pos)) (unat sizeof_inode);
     if a = 0 \<or> buf = 0 then None
     else do {
       l \<leftarrow> q_push a (open_inodes (parts s part));
       let s = s\<lparr>inodes := (inodes s)(a \<mapsto> (inode_of_bytes bs)\<lparr>i_open_cnts := 1, inode_tag := Some part\<rparr>)\<rparr>;
       s \<leftarrow> fs_free buf (upd_part part (\<lambda>p. p\<lparr>open_inodes := l\<rparr>) s);
       Some (a, s) } }"

definition inode_open :: "part_ref \<Rightarrow> u32 \<Rightarrow> 'z fs_state_scheme \<Rightarrow> (u32 \<times> 'z fs_state_scheme) option" where
  "inode_open part inode_no s = do {
     found \<leftarrow> find_open inode_no (open_inodes (parts s part)) (inodes s);
     case found of
       Some a \<Rightarrow> do { s \<leftarrow> upd_inode a (\<lambda>i. i\<lparr>i_open_cnts := i_open_cnts i + 1\<rparr>) s; Some (a, s) }
     | None \<Rightarrow> load_inode part inode_no s }"

definition inode_close :: "u32 \<Rightarrow> 'z fs_state_scheme \<Rightarrow> 'z fs_state_scheme option" where
  "inode_close a s = do {
     let (old_status, k) = intr_disable (kern s);
     s \<leftarrow> upd_inode a (\<lambda>i. i\<lparr>i_open_cnts := i_open_cnts i - 1\<rparr>) (s\<lparr>kern := k\<rparr>);
     i \<leftarrow> inodes s a;
     s \<leftarrow> (if i_open_cnts i = 0 then do {
             part \<leftarrow> inode_tag i;
             l \<leftarrow> q_remove a (open_inodes (parts s part));
             let s = upd_part part (\<lambda>p. p\<lparr>open_inodes := l\<rparr>) s;
             (u, s) \<leftarrow> in_kernel_heap (\<lambda>k. do { k \<leftarrow> sys_free a k; Some ((), k) }) s;
             Some (s\<lparr>inodes := (inodes s)(a := None)\<rparr>) }
           else Some s);
     Some (s\<lparr>kern := snd (intr_set_status old_status (kern s))\<rparr>) }"

subsection \<open>Giving an inode's blocks back\<close>

definition give_block :: "part_ref \<Rightarrow> u32 \<Rightarrow> 'z fs_state_scheme \<Rightarrow> 'z fs_state_scheme option" where
  "give_block part block s = do {
     b \<leftarrow> sb (parts s part);
     let block_bitmap_idx = block - data_start_lba b;
     ASSERT (block_bitmap_idx > 0);
     m \<leftarrow> bitmap_set (block_bitmap (parts s part)) (unat block_bitmap_idx) 0;
     bitmap_sync (cur_part s) block_bitmap_idx BLOCK_BITMAP (upd_part part (\<lambda>p. p\<lparr>block_bitmap := m\<rparr>) s) }"

fun give_blocks :: "part_ref \<Rightarrow> u32 list \<Rightarrow> 'z fs_state_scheme \<Rightarrow> 'z fs_state_scheme option" where
  "give_blocks part [] s = Some s"
| "give_blocks part (b # bs) s = do {
     s \<leftarrow> (if b \<noteq> 0 then give_block part b s else Some s);
     give_blocks part bs s }"

definition inode_release :: "part_ref \<Rightarrow> u32 \<Rightarrow> 'z fs_state_scheme \<Rightarrow> 'z fs_state_scheme option" where
  "inode_release part inode_no s = do {
     (a, s) \<leftarrow> inode_open part inode_no s;
     inode_to_del \<leftarrow> inodes s a;
     ASSERT (i_no inode_to_del = inode_no);
     let all_blocks = take 12 (i_sectors inode_to_del);
     let table = i_sectors inode_to_del ! 12;
     (all_blocks, s) \<leftarrow> (if table \<noteq> 0 then do {
         (d, s) \<leftarrow> ide_read (my_disk (parts s part)) table 1 s;
         s \<leftarrow> give_block part table s;
         Some (all_blocks @ u32s_of 128 d, s) }
       else Some (all_blocks, s));
     s \<leftarrow> give_blocks part all_blocks s;
     m \<leftarrow> bitmap_set (inode_bitmap (parts s (cur_part s))) (unat inode_no) 0;
     s \<leftarrow> bitmap_sync (cur_part s) inode_no INODE_BITMAP (upd_part (cur_part s) (\<lambda>p. p\<lparr>inode_bitmap := m\<rparr>) s);
     (io_buf, s) \<leftarrow> fs_malloc 1024 s;
     if io_buf = 0 then None
     else do {
       (buf, s) \<leftarrow> inode_delete part inode_no (replicate 1024 0) s;
       s \<leftarrow> fs_free io_buf s;
       inode_close a s } }"

subsection \<open>The bytes of an inode\<close>

lemma length_inode_bytes [simp]: "length (i_sectors i) = 13 \<Longrightarrow> length (inode_bytes i) = 76"
  by (simp add: inode_bytes_def)

lemma drop_le32 [simp]: "drop 4 (le32 w @ r) = r"
  by (simp add: le32_def)

lemma inode_roundtrip:
  assumes "length (i_sectors i) = 13"
  shows "inode_of_bytes (inode_bytes i) = i\<lparr>inode_tag := None\<rparr>"
proof -
  have d: "drop 4 (inode_bytes i) = le32 (i_size i) @ le32 (i_open_cnts i) @ le32 (if write_deny i then 1 else 0) @
     le32s (i_sectors i) @ replicate 8 0"
    "drop 8 (inode_bytes i) = le32 (i_open_cnts i) @ le32 (if write_deny i then 1 else 0) @ le32s (i_sectors i) @ replicate 8 0"
    "drop 12 (inode_bytes i) = le32 (if write_deny i then 1 else 0) @ le32s (i_sectors i) @ replicate 8 0"
    "drop 16 (inode_bytes i) = le32s (i_sectors i) @ replicate 8 0"
    by (simp_all add: inode_bytes_def le32_def)
  have "u32s_of 13 (le32s (i_sectors i) @ replicate 8 0) = i_sectors i"
    using u32s_of_le32s [of "i_sectors i"] assms by simp
  then show ?thesis
    unfolding inode_of_bytes_def d by (simp add: inode_bytes_def)
qed

lemma inode_of_zeros: "inode_of_bytes (replicate 76 0) =
  \<lparr>i_no = 0, i_size = 0, i_open_cnts = 0, write_deny = False, i_sectors = replicate 13 0, inode_tag = None\<rparr>"
proof -
  have z: "u32_of (replicate n 0) = 0" if "4 \<le> n" for n using that by (simp add: u32_of_def)
  have "u32s_of m (replicate n 0) = replicate m 0" if "4 * m \<le> n" for m n
    using that by (induction m arbitrary: n) (simp_all add: z)
  then show ?thesis by (simp add: inode_of_bytes_def z)
qed

subsection \<open>Where an inode is\<close>

lemma inode_locate_at:
  assumes "sb (parts s part) = Some b" and "n < 4096" and "unat (inode_table_lba b) + 608 < 2 ^ 32"
  shows "\<exists>pos. inode_locate part (word_of_nat n) s = Some pos \<and>
    unat (sec_lba pos) = unat (inode_table_lba b) + 76 * n div 512 \<and> unat (off_size pos) = 76 * n mod 512 \<and>
    sec_num pos = word_of_nat (unat (sec_num pos)) \<and> 0 < unat (sec_num pos) \<and> unat (sec_num pos) \<le> 2 \<and>
    76 * n mod 512 + 76 \<le> unat (sec_num pos) * 512 \<and>
    76 * n div 512 + unat (sec_num pos) \<le> 608 \<and> two_sec pos = (512 < 76 * n mod 512 + 76)"
proof -
  let ?n = "word_of_nat n :: u32"
  have n: "unat ?n = n" using assms(2) by (simp add: unat_of_nat)
  have m: "unat (?n * 76) = 76 * n" using unat_mult_small [of ?n 76] assms(2) n by simp
  have o: "unat (?n * 76 mod 512) = 76 * n mod 512" "unat (?n * 76 div 512) = 76 * n div 512"
    by (simp_all add: unat_mod_distrib unat_div_distrib m)
  have lt: "76 * n mod 512 < 512" by simp
  have l: "unat (512 - ?n * 76 mod 512) = 512 - 76 * n mod 512"
    using o lt by (simp add: unat_sub_if')
  have q: "76 * n div 512 < 608" using assms(2) by (simp add: div_less_iff_less_mult)
  have a: "unat (inode_table_lba b + ?n * 76 div 512) = unat (inode_table_lba b) + 76 * n div 512"
    using unat_add_small [of "inode_table_lba b" "?n * 76 div 512"] o q assms(3) by simp
  have t: "512 - ?n * 76 mod 512 < 76 \<longleftrightarrow> 512 < 76 * n mod 512 + 76"
    unfolding word_less_nat_alt l using lt by auto
  have "?n < 4096" using n assms(2) by (simp add: word_less_nat_alt)
  moreover have "76 * n div 512 + 2 \<le> 608" if "512 < 76 * n mod 512 + 76"
  proof -
    have "76 * n + 76 \<le> 608 * 512" using assms(2) by simp
    moreover have "76 * n = 76 * n div 512 * 512 + 76 * n mod 512" by (rule div_mult_mod_eq [symmetric])
    ultimately show ?thesis using that by linarith
  qed
  ultimately show ?thesis
    using assms(1) a o t q by (auto simp: inode_locate_def sizeof_inode_def sec_num_def Let_def mult.commute [of _ 76])
qed

text \<open>A mounted partition: its inode table of 608 sectors lies on the disk and inside the partition.\<close>

definition table_ok :: "part_ref \<Rightarrow> super_block \<Rightarrow> 'z ide_state_scheme \<Rightarrow> bool" where
  "table_ok part b s \<longleftrightarrow> sb (parts s part) = Some b \<and> unat (inode_table_lba b) + 608 \<le> 163840 \<and>
     unat (start_lba (parts s part)) + unat (sec_cnt (parts s part)) < 2 ^ 32 \<and>
     unat (inode_table_lba b) + 608 \<le> unat (start_lba (parts s part)) + unat (sec_cnt (parts s part)) \<and>
     store_ok (my_disk (parts s part)) s"

definition inode_slot :: "part_ref \<Rightarrow> super_block \<Rightarrow> 'z ide_state_scheme \<Rightarrow> nat \<Rightarrow> u8 list" where
  "inode_slot part b s n = map (\<lambda>j. bs.byte (my_disk (parts s part)) s (unat (inode_table_lba b) * 512 + 76 * n + j)) [0..<76]"

text \<open>The inode with number \<open>n\<close> as the disk holds it.\<close>

definition disk_inode :: "part_ref \<Rightarrow> super_block \<Rightarrow> 'z ide_state_scheme \<Rightarrow> nat \<Rightarrow> inode" where
  "disk_inode part b s n = inode_of_bytes (inode_slot part b s n)"

lemma slot_address: "(t + 76 * n div 512) * 512 + 76 * n mod 512 = t * 512 + 76 * n" for t n :: nat
  by (simp only: add_mult_distrib add.assoc div_mult_mod_eq)

text \<open>The buffer has room for the one or two sectors the slot lies in.\<close>

definition sync_fits :: "nat \<Rightarrow> u8 list \<Rightarrow> bool" where
  "sync_fits n buf \<longleftrightarrow> 1024 \<le> length buf \<or> 512 \<le> length buf \<and> 76 * n mod 512 + 76 \<le> 512"

lemma sync_fits_two: "1024 \<le> length buf \<Longrightarrow> sync_fits n buf"
  by (simp add: sync_fits_def)

text \<open>Changing one slot, which \<open>inode_sync\<close> and \<open>inode_delete\<close> both do.\<close>

lemma change_slot:
  assumes ok: "table_ok part b s" and n: "n < 4096" and pos: "inode_locate part (word_of_nat n) s = Some pos"
    and "length p = 76" and fits: "sync_fits n buf" and dk: "dk = my_disk (parts s part)"
  shows "\<exists>d s'. ide_read dk (sec_lba pos) (sec_num pos) s = Some (d, s) \<and> length d = unat (sec_num pos) * 512 \<and>
    unat (off_size pos) + 76 \<le> length d \<and> length d \<le> length buf \<and>
    ide_write dk (sec_lba pos) (put_bytes (put_bytes buf 0 d) (unat (off_size pos)) p) (sec_num pos) s = Some s' \<and>
    table_ok part b s' \<and> off_disk dk s' = off_disk dk s \<and> inode_slot part b s' n = p \<and>
    (\<forall>m. m \<noteq> n \<longrightarrow> inode_slot part b s' m = inode_slot part b s m) \<and>
    (\<forall>m. m < unat (inode_table_lba b) \<or> unat (inode_table_lba b) + 608 \<le> m \<longrightarrow> media s' dk m = media s dk m)"
proof -
  let ?t = "unat (inode_table_lba b)"
  have b: "sb (parts s part) = Some b" "?t + 608 \<le> 163840" "store_ok dk s"
    using ok dk by (simp_all add: table_ok_def)
  obtain pos' where "inode_locate part (word_of_nat n) s = Some pos'" and
      P: "unat (sec_lba pos') = ?t + 76 * n div 512" "unat (off_size pos') = 76 * n mod 512"
      "sec_num pos' = word_of_nat (unat (sec_num pos'))" "0 < unat (sec_num pos')" "unat (sec_num pos') \<le> 2"
      "76 * n mod 512 + 76 \<le> unat (sec_num pos') * 512" "76 * n div 512 + unat (sec_num pos') \<le> 608"
      "two_sec pos' = (512 < 76 * n mod 512 + 76)"
    using inode_locate_at [OF b(1) n] b(2) by auto
  with pos have [simp]: "pos' = pos" by simp
  note P = P [simplified \<open>pos' = pos\<close>]
  have sl: "sec_lba pos = word_of_nat (?t + 76 * n div 512)" by (simp only: P(1) [symmetric]) simp
  have fit: "?t + 76 * n div 512 + unat (sec_num pos) \<le> 163840" using b(2) P(7) by linarith
  have off: "76 * n mod 512 + length p \<le> unat (sec_num pos) * 512" using P(6) assms(4) by simp
  have len: "unat (sec_num pos) * 512 \<le> length buf"
    using P(8) fits by (auto simp: sync_fits_def sec_num_def)
  obtain d s' where s': "ide_read dk (sec_lba pos) (sec_num pos) s = Some (d, s)" "length d = unat (sec_num pos) * 512"
      "ide_write dk (sec_lba pos) (put_bytes (put_bytes buf 0 d) (unat (off_size pos)) p) (sec_num pos) s = Some s'"
      "store_ok dk s'" "off_disk dk s' = off_disk dk s"
      and B: "\<forall>i. bs.byte dk s' i = (if ?t * 512 + 76 * n \<le> i \<and> i < ?t * 512 + 76 * n + length p
         then p ! (i - (?t * 512 + 76 * n)) else bs.byte dk s i)"
      and M: "\<forall>m. m < ?t + 76 * n div 512 \<or> ?t + 76 * n div 512 + unat (sec_num pos) \<le> m \<longrightarrow> media s' dk m = media s dk m"
    using bs.read_modify_write [OF b(3) P(4) fit off len] unfolding sl P(2) slot_address P(3) [symmetric] by blast
  note same = off_disk_eq [OF s'(5)]
  have ok': "table_ok part b s'" using ok s'(4) dk by (simp add: table_ok_def same)
  have slot: "inode_slot part b s' m = (if m = n then p else inode_slot part b s m)" for m
  proof (rule nth_equalityI)
    fix j assume "j < length (inode_slot part b s' m)"
    then have j: "j < 76" by (simp add: inode_slot_def)
    have "?t * 512 + 76 * n \<le> ?t * 512 + 76 * m + j \<and> ?t * 512 + 76 * m + j < ?t * 512 + 76 * n + 76 \<longleftrightarrow> m = n"
      using j by auto
    then show "inode_slot part b s' m ! j = (if m = n then p else inode_slot part b s m) ! j"
      using j B assms(4) dk by (simp add: inode_slot_def same)
  qed (use assms(4) in \<open>simp add: inode_slot_def\<close>)
  have "media s' dk m = media s dk m" if "m < ?t \<or> ?t + 608 \<le> m" for m
    using M that P(7) by auto
  then show ?thesis using s' ok' slot len P(2,5,6) by (intro exI [of _ d] exI [of _ s']) auto
qed


subsection \<open>Writing and clearing an inode\<close>

definition pure_inode :: "inode \<Rightarrow> inode" where
  "pure_inode ino = ino\<lparr>i_open_cnts := 0, write_deny := False, inode_tag := None\<rparr>"

definition only_slot :: "part_ref \<Rightarrow> super_block \<Rightarrow> nat \<Rightarrow> 'z ide_state_scheme \<Rightarrow> 'z ide_state_scheme \<Rightarrow> bool" where
  "only_slot part b n s s' \<longleftrightarrow> off_disk (my_disk (parts s part)) s' = off_disk (my_disk (parts s part)) s \<and>
     (\<forall>m. m \<noteq> n \<longrightarrow> inode_slot part b s' m = inode_slot part b s m) \<and>
     (\<forall>m. m < unat (inode_table_lba b) \<or> unat (inode_table_lba b) + 608 \<le> m \<longrightarrow>
        media s' (my_disk (parts s part)) m = media s (my_disk (parts s part)) m)"

lemma inode_sync_slot:
  assumes ok: "table_ok part b s" and "length (i_sectors ino) = 13" and "sync_fits (unat (i_no ino) mod 256) io_buf"
  shows "\<exists>buf s'. inode_sync part ino io_buf s = Some (buf, s') \<and> length buf = length io_buf \<and> table_ok part b s' \<and>
    inode_slot part b s' (unat (i_no ino) mod 256) = inode_bytes (pure_inode ino) \<and>
    only_slot part b (unat (i_no ino) mod 256) s s'"
proof -
  let ?n = "unat (i_no ino) mod 256" let ?p = "inode_bytes (pure_inode ino)" let ?dk = "my_disk (parts s part)"
  have "unat (ucast (i_no ino) :: u8) = ?n" by (simp add: unsigned_ucast_eq take_bit_eq_mod)
  then have num: "(ucast (ucast (i_no ino) :: u8) :: u32) = word_of_nat ?n"
    by (metis of_nat_unat)
  have n: "?n < 4096" by (rule less_trans [of _ 256]) simp_all
  have b: "sb (parts s part) = Some b" "unat (inode_table_lba b) + 608 < 2 ^ 32"
      "unat (inode_table_lba b) + 608 \<le> unat (start_lba (parts s part)) + unat (sec_cnt (parts s part))"
      "unat (start_lba (parts s part)) + unat (sec_cnt (parts s part)) < 2 ^ 32"
    using ok by (simp_all add: table_ok_def)
  obtain pos where pos: "inode_locate part (word_of_nat ?n) s = Some pos"
      "unat (sec_lba pos) = unat (inode_table_lba b) + 76 * ?n div 512"
      "76 * ?n div 512 + unat (sec_num pos) \<le> 608"
    using inode_locate_at [OF b(1) n b(2)] by blast
  have "sec_lba pos \<le> start_lba (parts s part) + sec_cnt (parts s part)"
    unfolding word_le_nat_alt unat_add_small [OF b(4)] using pos(2,3) b(3) by linarith
  moreover have "length ?p = 76" using assms(2) by (simp add: pure_inode_def)
  moreover note change_slot [OF ok n pos(1) this assms(3) refl]
  ultimately obtain d s' where "ide_read ?dk (sec_lba pos) (sec_num pos) s = Some (d, s)"
      "length d \<le> length io_buf" "unat (off_size pos) + 76 \<le> length d"
      "ide_write ?dk (sec_lba pos) (put_bytes (put_bytes io_buf 0 d) (unat (off_size pos)) ?p) (sec_num pos) s = Some s'"
      "table_ok part b s'" "inode_slot part b s' ?n = ?p" "only_slot part b ?n s s'"
    unfolding only_slot_def by blast
  then show ?thesis
    using num pos(1) \<open>sec_lba pos \<le> _\<close> \<open>length ?p = 76\<close>
    by (intro exI [of _ "put_bytes (put_bytes io_buf 0 d) (unat (off_size pos)) ?p"] exI [of _ s'])
      (simp add: inode_sync_def Let_def pure_inode_def)
qed

lemma inode_delete_slot:
  assumes ok: "table_ok part b s" and n: "n < 4096" and "1024 \<le> length io_buf"
  shows "\<exists>buf s'. inode_delete part (word_of_nat n) io_buf s = Some (buf, s') \<and> length buf = length io_buf \<and>
    table_ok part b s' \<and> inode_slot part b s' n = replicate 76 0 \<and> only_slot part b n s s'"
proof -
  let ?p = "replicate 76 (0 :: u8)" let ?dk = "my_disk (parts s part)"
  have b: "sb (parts s part) = Some b" "unat (inode_table_lba b) + 608 < 2 ^ 32"
    using ok by (simp_all add: table_ok_def)
  obtain pos where pos: "inode_locate part (word_of_nat n) s = Some pos"
    using inode_locate_at [OF b(1) n b(2)] by blast
  have "(word_of_nat n :: u32) < 4096" using n by (simp add: word_less_nat_alt unat_of_nat)
  moreover obtain d s' where "ide_read ?dk (sec_lba pos) (sec_num pos) s = Some (d, s)"
      "length d \<le> length io_buf" "unat (off_size pos) + 76 \<le> length d"
      "ide_write ?dk (sec_lba pos) (put_bytes (put_bytes io_buf 0 d) (unat (off_size pos)) ?p) (sec_num pos) s = Some s'"
      "table_ok part b s'" "inode_slot part b s' n = ?p" "only_slot part b n s s'"
    unfolding only_slot_def using change_slot [OF ok n pos _ sync_fits_two [OF assms(3)] refl, of ?p] by auto
  ultimately show ?thesis
    using pos assms(3)
    by (intro exI [of _ "put_bytes (put_bytes io_buf 0 d) (unat (off_size pos)) ?p"] exI [of _ s'])
      (simp add: inode_delete_def Let_def sizeof_inode_def)
qed

text \<open>
  C24: an inode with a number below 256 survives on the disk. \<open>inode_sync\<close> succeeds, the inode read back from its
  place in the table is the one written, with the fields that only matter in memory cleared, and every other inode of
  the table and every sector outside the table is unchanged, whether the inode crosses a sector boundary or not.
\<close>

theorem inode_sync_roundtrip:
  assumes "table_ok part b s" and "length (i_sectors ino) = 13" and "1024 \<le> length io_buf" and "i_no ino < 256"
  shows "\<exists>buf s'. inode_sync part ino io_buf s = Some (buf, s') \<and>
    disk_inode part b s' (unat (i_no ino)) = ino\<lparr>i_open_cnts := 0, write_deny := False, inode_tag := None\<rparr> \<and>
    (\<forall>m. m \<noteq> unat (i_no ino) \<longrightarrow> disk_inode part b s' m = disk_inode part b s m) \<and>
    (\<forall>m. m < unat (inode_table_lba b) \<or> unat (inode_table_lba b) + 608 \<le> m \<longrightarrow>
       media s' (my_disk (parts s part)) m = media s (my_disk (parts s part)) m)"
proof -
  have m: "unat (i_no ino) mod 256 = unat (i_no ino)" using assms(4) by (simp add: word_less_nat_alt)
  have "inode_of_bytes (inode_bytes (pure_inode ino)) = pure_inode ino"
    by (subst inode_roundtrip) (simp_all add: pure_inode_def assms(2))
  then show ?thesis
    using inode_sync_slot [OF assms(1,2) sync_fits_two [OF assms(3)]] unfolding m only_slot_def disk_inode_def by (metis pure_inode_def)
qed

text \<open>
  C40: an inode with a number from 256 on is lost. \<open>inode_sync\<close> keeps only the low byte of the number, so the inode's
  own place in the table is not written and the place of another inode, the one with that low byte, is overwritten.
\<close>

theorem inode_sync_clobbers:
  assumes "table_ok part b s" and "length (i_sectors ino) = 13" and "1024 \<le> length io_buf" and "256 \<le> i_no ino"
  shows "\<exists>buf s'. inode_sync part ino io_buf s = Some (buf, s') \<and>
    disk_inode part b s' (unat (i_no ino)) = disk_inode part b s (unat (i_no ino)) \<and>
    unat (i_no ino) mod 256 \<noteq> unat (i_no ino) \<and>
    disk_inode part b s' (unat (i_no ino) mod 256) = ino\<lparr>i_open_cnts := 0, write_deny := False, inode_tag := None\<rparr>"
proof -
  have "256 \<le> unat (i_no ino)" using assms(4) by (simp add: word_le_nat_alt)
  then have m: "unat (i_no ino) mod 256 \<noteq> unat (i_no ino)"
    by (metis mod_less_divisor not_le zero_less_numeral)
  have "inode_of_bytes (inode_bytes (pure_inode ino)) = pure_inode ino"
    by (subst inode_roundtrip) (simp_all add: pure_inode_def assms(2))
  then show ?thesis
    using inode_sync_slot [OF assms(1,2) sync_fits_two [OF assms(3)]] m unfolding only_slot_def disk_inode_def by (metis pure_inode_def)
qed

end
