(* ===== verification/Inode_Refs.thy ===== *)
theory Inode_Refs
  imports Fs_Inode
begin

text \<open>
  The open inodes of a partition: what \<open>inode_open\<close> and \<open>inode_close\<close> of \<open>fs/inode.c\<close> keep of the state, and that
  they count references.
\<close>

subsection \<open>Changing the heap only\<close>

lemma disk_ready_frame: "heap_frame (kern s) k \<Longrightarrow> disk_ready dk (s\<lparr>kern := k\<rparr>) = disk_ready dk s"
  by (simp add: disk_ready_def drive_ok_def heap_frame_def lock_free_def)

lemma store_ok_frame: "heap_frame (kern s) k \<Longrightarrow> store_ok dk (s\<lparr>kern := k\<rparr>) = store_ok dk s"
  by (simp add: store_ok_def disk_ready_frame whole_sectors_def)

lemma table_ok_frame: "heap_frame (kern s) k \<Longrightarrow> table_ok part b (s\<lparr>kern := k\<rparr>) = table_ok part b s"
  by (simp add: table_ok_def store_ok_frame)

text \<open>The state changes of the file system that the driver does not look at.\<close>

lemma store_ok_parts [simp]: "store_ok dk (upd_part part f s) = store_ok dk s"
  by (simp_all add: store_ok_def disk_ready_def drive_ok_def whole_sectors_def upd_part_def)

lemma store_ok_inodes [simp]: "store_ok dk (s\<lparr>inodes := m\<rparr>) = store_ok dk s"
  by (simp_all add: store_ok_def disk_ready_def drive_ok_def whole_sectors_def)

lemma upd_part_simps [simp]:
  "kern (upd_part part f s) = kern s" "media (upd_part part f s) = media s" "channels (upd_part part f s) = channels s"
  "parts (upd_part part f s) = (parts s)(part := f (parts s part))"
  by (simp_all add: upd_part_def)

lemma table_ok_inodes [simp]: "table_ok part b (s\<lparr>inodes := m\<rparr>) = table_ok part b s"
  by (simp add: table_ok_def)

lemma table_ok_open [simp]:
  "table_ok part b (upd_part part' (\<lambda>p. p\<lparr>open_inodes := f p\<rparr>) s) = table_ok part b s"
  by (simp add: table_ok_def)

lemma in_kernel_heap_ready:
  assumes "heap_ready (kern s) L k" and "f (kern s) = Some (r, k')" and "heap_frame (kern s) k'"
  shows "in_kernel_heap f s = Some (r, s\<lparr>kern := k'\<rparr>)"
proof -
  obtain p where p: "tasks (kern s) (running (kern s)) = Some p" "pgdir p = 0"
    using assms(1) unfolding heap_ready_def by blast
  have u: "upd_task (running (kern s)) (\<lambda>p. p\<lparr>pgdir := 0\<rparr>) k = Some k"
    if "tasks k (running (kern s)) = Some p" for k :: kmem
  proof -
    have "p\<lparr>pgdir := 0\<rparr> = p" using p(2) by simp
    then show ?thesis using that by (simp add: upd_task_def fun_upd_idem)
  qed
  have "tasks k' (running (kern s)) = Some p" using assms(3) p(1) by (simp add: heap_frame_def)
  then show ?thesis
    using p assms(2) u [of "kern s"] u [of k'] by (simp add: in_kernel_heap_def Let_def)
qed

subsection \<open>Reading an inode\<close>

lemma small_sizes: "small sizeof_inode" "small 512" "small 1024"
  by (simp_all add: small_def sizeof_inode_def)

lemma read_slot:
  assumes ok: "table_ok part b s" and n: "n < 4096" and pos: "inode_locate part (word_of_nat n) s = Some pos"
  shows "\<exists>d. ide_read (my_disk (parts s part)) (sec_lba pos) (sec_num pos) s = Some (d, s) \<and>
    get_buf d (unat (off_size pos)) 76 = Some (inode_slot part b s n)"
proof -
  let ?t = "unat (inode_table_lba b)" let ?dk = "my_disk (parts s part)"
  have b: "sb (parts s part) = Some b" "?t + 608 \<le> 163840" "store_ok ?dk s"
    using ok by (simp_all add: table_ok_def)
  obtain pos' where "inode_locate part (word_of_nat n) s = Some pos'" and
      P: "unat (sec_lba pos') = ?t + 76 * n div 512" "unat (off_size pos') = 76 * n mod 512"
      "sec_num pos' = word_of_nat (unat (sec_num pos'))" "0 < unat (sec_num pos')" "unat (sec_num pos') \<le> 2"
      "76 * n mod 512 + 76 \<le> unat (sec_num pos') * 512" "76 * n div 512 + unat (sec_num pos') \<le> 608"
    using inode_locate_at [OF b(1) n] b(2) by auto
  with pos have eq: "pos' = pos" by simp
  note P = P [simplified eq]
  have sl: "sec_lba pos = word_of_nat (?t + 76 * n div 512)" by (simp only: P(1) [symmetric]) simp
  have fit: "?t + 76 * n div 512 + unat (sec_num pos) \<le> 163840" using b(2) P(7) by linarith
  show ?thesis
    using bs.read_bytes [OF b(3) P(4) fit P(6)] P(6)
    unfolding sl P(2) P(3) [symmetric] slot_address inode_slot_def by (metis get_buf_in)
qed

lemma load_inode_ok:
  assumes ok: "table_ok part b s" and n: "n < 4096" and h: "heap_ready (kern s) L (Suc (Suc k))"
  shows "\<exists>a k'. load_inode part (word_of_nat n) s = Some (a, (upd_part part (\<lambda>p. p\<lparr>open_inodes := a # open_inodes p\<rparr>) s)\<lparr>kern := k',
      inodes := (inodes s)(a \<mapsto> (disk_inode part b s n)\<lparr>i_open_cnts := 1, inode_tag := Some part\<rparr>)\<rparr>) \<and>
    a \<noteq> 0 \<and> a \<notin> L \<and> heap_ready k' (insert a L) k \<and> heap_frame (kern s) k'"
proof -
  have b: "sb (parts s part) = Some b" "unat (inode_table_lba b) + 608 < 2 ^ 32"
    using ok by (simp_all add: table_ok_def)
  obtain pos where pos: "inode_locate part (word_of_nat n) s = Some pos"
    using inode_locate_at [OF b(1) n b(2)] by blast
  let ?sz = "if two_sec pos then 1024 else 512 :: u32"
  have sz: "small ?sz" using small_sizes(2,3) by simp
  obtain a k1 where m1: "sys_malloc sizeof_inode (kern s) = Some (a, k1)" "a \<noteq> 0" "a \<notin> L"
      "heap_ready k1 (insert a L) (Suc k)" "heap_frame (kern s) k1"
    using kh.malloc_ready [OF h small_sizes(1)] by blast
  obtain c k2 k3 where m2: "sys_malloc ?sz k1 = Some (c, k2)" "c \<noteq> 0" "heap_frame k1 k2"
      "sys_free c k2 = Some k3" "heap_ready k3 (insert a L) k" "heap_frame k1 k3"
    using kh.scratch_buffer [OF m1(4) sz] by blast
  have f2: "heap_frame (kern s) k2" "heap_frame (kern s) k3"
    using heap_frame_trans [OF m1(5)] m2(3,6) by blast+
  let ?s = "s\<lparr>kern := k2\<rparr>"
  have "table_ok part b ?s" using ok table_ok_frame [OF f2(1)] by blast
  moreover have "inode_locate part (word_of_nat n) ?s = Some pos" using pos by (simp add: inode_locate_def)
  ultimately obtain d where d: "ide_read (my_disk (parts s part)) (sec_lba pos) (sec_num pos) ?s = Some (d, ?s)"
      "get_buf d (unat (off_size pos)) 76 = Some (inode_slot part b s n)"
    using read_slot [OF _ n, of part b ?s pos] by (auto simp: inode_slot_def bs.byte_def)
  have "load_inode part (word_of_nat n) s = Some (a, (upd_part part (\<lambda>p. p\<lparr>open_inodes := a # open_inodes p\<rparr>) s)\<lparr>kern := k3,
      inodes := (inodes s)(a \<mapsto> (disk_inode part b s n)\<lparr>i_open_cnts := 1, inode_tag := Some part\<rparr>)\<rparr>)"
    using pos m1(1,2) m2(1,2,4) d in_kernel_heap_ready [OF h, of "sys_malloc sizeof_inode", OF m1(1,5)]
    by (simp add: load_inode_def fs_malloc_def fs_free_def q_push_def sizeof_inode_def disk_inode_def upd_part_def)
  then show ?thesis using m1(2,3) m2(5) f2(2) by blast
qed


subsection \<open>Counting the opens\<close>

text \<open>
  The open inodes of a partition are distinct objects in use on the heap, linked into its list, with
  distinct numbers and a count that is not 0.
\<close>

definition opens_ok :: "part_ref \<Rightarrow> u32 set \<Rightarrow> 'z fs_state_scheme \<Rightarrow> bool" where
  "opens_ok part L s \<longleftrightarrow> distinct (open_inodes (parts s part)) \<and>
     (\<forall>a \<in> set (open_inodes (parts s part)). a \<in> L \<and> (\<exists>i. inodes s a = Some i \<and> inode_tag i = Some part \<and> i_open_cnts i \<noteq> 0)) \<and>
     (\<forall>a \<in> set (open_inodes (parts s part)). \<forall>a' \<in> set (open_inodes (parts s part)).
        i_no (the (inodes s a)) = i_no (the (inodes s a')) \<longrightarrow> a = a')"

text \<open>How often each inode number is open.\<close>

definition opened :: "part_ref \<Rightarrow> 'z fs_state_scheme \<Rightarrow> u32 \<Rightarrow> u32 option" where
  "opened part s n = map_option (\<lambda>a. i_open_cnts (the (inodes s a)))
     (find (\<lambda>a. i_no (the (inodes s a)) = n) (open_inodes (parts s part)))"

lemma find_open_eq:
  "\<forall>a \<in> set as. m a \<noteq> None \<Longrightarrow> find_open n as m = Some (find (\<lambda>a. i_no (the (m a)) = n) as)"
  by (induction as) auto

lemma find_SomeD: "find P xs = Some x \<Longrightarrow> x \<in> set xs \<and> P x"
  by (metis find_Some_iff nth_mem)

lemma opened_Some:
  assumes "opens_ok part L s" and "a \<in> set (open_inodes (parts s part))" and "inodes s a = Some i"
  shows "opened part s (i_no i) = Some (i_open_cnts i)"
proof -
  let ?P = "\<lambda>a. i_no (the (inodes s a)) = i_no i"
  have "find ?P (open_inodes (parts s part)) \<noteq> None" using assms(2,3) by (auto simp: find_None_iff)
  then obtain a' where a': "find ?P (open_inodes (parts s part)) = Some a'" by auto
  then have "a' = a" using find_SomeD [OF a'] assms unfolding opens_ok_def by auto
  then show ?thesis using a' assms(3) by (simp add: opened_def)
qed

lemma opened_None:
  "opened part s n = None \<longleftrightarrow> (\<forall>a \<in> set (open_inodes (parts s part)). i_no (the (inodes s a)) \<noteq> n)"
  by (auto simp: opened_def find_None_iff)

lemma opened_ex: "opened part s n = Some c \<Longrightarrow> \<exists>x \<in> set (open_inodes (parts s part)). i_no (the (inodes s x)) = n"
  using opened_None [of part s n] by auto

lemma openedE:
  assumes "opens_ok part L s" and "opened part s n = Some c"
  obtains a i where "a \<in> set (open_inodes (parts s part))" "inodes s a = Some i" "i_no i = n" "i_open_cnts i = c"
proof -
  obtain a where a: "find (\<lambda>a. i_no (the (inodes s a)) = n) (open_inodes (parts s part)) = Some a"
      "c = i_open_cnts (the (inodes s a))"
    using assms(2) by (auto simp: opened_def)
  then show thesis using that find_SomeD [OF a(1)] assms(1) unfolding opens_ok_def by fastforce
qed

text \<open>The map of counts is determined by the open inodes.\<close>

lemma opened_eqI:
  assumes "opens_ok part L s"
    and "\<forall>a \<in> set (open_inodes (parts s part)). \<forall>i. inodes s a = Some i \<longrightarrow> f (i_no i) = Some (i_open_cnts i)"
    and "\<forall>n. f n \<noteq> None \<longrightarrow> (\<exists>a \<in> set (open_inodes (parts s part)). i_no (the (inodes s a)) = n)"
  shows "opened part s = f"
proof
  fix n
  show "opened part s n = f n"
  proof (cases "opened part s n")
    case None
    then show ?thesis using assms(3) opened_None [of part s n] by (metis not_None_eq)
  next
    case (Some c)
    then show ?thesis using openedE [OF assms(1) Some] assms(2) by metis
  qed
qed

lemma opens_okD:
  assumes "opens_ok part L s" and "a \<in> set (open_inodes (parts s part))"
  shows "a \<in> L" "\<exists>i. inodes s a = Some i \<and> inode_tag i = Some part \<and> i_open_cnts i \<noteq> 0"
  using assms by (auto simp: opens_ok_def)

text \<open>Changing the count of one open inode.\<close>

lemma opens_ok_count:
  assumes ok: "opens_ok part L s" and a: "a \<in> set (open_inodes (parts s part))" and i: "inodes s a = Some i"
    and "c \<noteq> 0" and s': "inodes s' = (inodes s)(a \<mapsto> i\<lparr>i_open_cnts := c\<rparr>)"
      "open_inodes (parts s' part) = open_inodes (parts s part)"
  shows "opens_ok part L s'" and "opened part s' = (opened part s)(i_no i \<mapsto> c)"
proof -
  have no: "i_no (the (inodes s' x)) = i_no (the (inodes s x))" for x using i s'(1) by simp
  show ok': "opens_ok part L s'"
    using ok a i assms(4) unfolding opens_ok_def no s'(2) by (auto simp: s'(1))
  have other: "i_no (the (inodes s x)) \<noteq> i_no i" if "x \<in> set (open_inodes (parts s part))" "x \<noteq> a" for x
    using ok a i that unfolding opens_ok_def by (metis option.sel)
  show "opened part s' = (opened part s)(i_no i \<mapsto> c)"
  proof (rule opened_eqI [OF ok'])
    show "\<forall>x \<in> set (open_inodes (parts s' part)). \<forall>j. inodes s' x = Some j \<longrightarrow>
        ((opened part s)(i_no i \<mapsto> c)) (i_no j) = Some (i_open_cnts j)"
    proof (intro ballI allI impI)
      fix x j assume x: "x \<in> set (open_inodes (parts s' part))" "inodes s' x = Some j"
      show "((opened part s)(i_no i \<mapsto> c)) (i_no j) = Some (i_open_cnts j)"
      proof (cases "x = a")
        case True then show ?thesis using x s'(1) by auto
      next
        case False
        then have "inodes s x = Some j" "x \<in> set (open_inodes (parts s part))" using x s' by simp_all
        with other [OF this(2) False] opened_Some [OF ok this(2,1)] show ?thesis by simp
      qed
    qed
    show "\<forall>n. ((opened part s)(i_no i \<mapsto> c)) n \<noteq> None \<longrightarrow>
        (\<exists>x \<in> set (open_inodes (parts s' part)). i_no (the (inodes s' x)) = n)"
      unfolding s'(2) no using a i opened_ex [of part s] by (auto intro: bexI [of _ a])
  qed
qed

lemma opens_ok_kern [simp]: "opens_ok part L (s\<lparr>kern := k\<rparr>) = opens_ok part L s"
  and opened_kern [simp]: "opened part (s\<lparr>kern := k\<rparr>) = opened part s"
  by (simp_all add: opens_ok_def opened_def fun_eq_iff)

text \<open>Adding an inode whose number is not open yet, and taking one out.\<close>

lemma opens_ok_add:
  assumes ok: "opens_ok part L s" and "opened part s (i_no i) = None" and "a \<notin> L"
    and i: "inode_tag i = Some part" "i_open_cnts i \<noteq> 0"
    and s': "inodes s' = (inodes s)(a \<mapsto> i)" "open_inodes (parts s' part) = a # open_inodes (parts s part)"
  shows "opens_ok part (insert a L) s'" and "opened part s' = (opened part s)(i_no i \<mapsto> i_open_cnts i)"
proof -
  have na: "a \<notin> set (open_inodes (parts s part))" using opens_okD(1) [OF ok] assms(3) by blast
  have other: "i_no (the (inodes s x)) \<noteq> i_no i" if "x \<in> set (open_inodes (parts s part))" for x
    using assms(2) that by (auto simp: opened_None)
  have keep: "inodes s' x = inodes s x" if "x \<in> set (open_inodes (parts s part))" for x
    using that na s'(1) by auto
  show ok': "opens_ok part (insert a L) s'"
    using ok na i other keep unfolding opens_ok_def s'(2) by (simp add: s'(1)) metis
  show "opened part s' = (opened part s)(i_no i \<mapsto> i_open_cnts i)"
  proof (rule opened_eqI [OF ok'])
    show "\<forall>x \<in> set (open_inodes (parts s' part)). \<forall>j. inodes s' x = Some j \<longrightarrow>
        ((opened part s)(i_no i \<mapsto> i_open_cnts i)) (i_no j) = Some (i_open_cnts j)"
      using opened_Some [OF ok] other keep s' by fastforce
    show "\<forall>n. ((opened part s)(i_no i \<mapsto> i_open_cnts i)) n \<noteq> None \<longrightarrow>
        (\<exists>x \<in> set (open_inodes (parts s' part)). i_no (the (inodes s' x)) = n)"
      using opened_ex [of part s] keep s' by (auto simp: fun_upd_def)
  qed
qed

lemma opens_ok_remove:
  assumes ok: "opens_ok part L s" and a: "a \<in> set (open_inodes (parts s part))" and i: "inodes s a = Some i"
    and s': "inodes s' = (inodes s)(a := None)" "open_inodes (parts s' part) = remove1 a (open_inodes (parts s part))"
  shows "opens_ok part (L - {a}) s'" and "opened part s' = (opened part s)(i_no i := None)"
proof -
  have d: "distinct (open_inodes (parts s part))" using ok by (simp add: opens_ok_def)
  then have set': "set (open_inodes (parts s' part)) = set (open_inodes (parts s part)) - {a}" using s'(2) by simp
  have other: "i_no (the (inodes s x)) \<noteq> i_no i" if "x \<in> set (open_inodes (parts s part))" "x \<noteq> a" for x
    using ok a i that unfolding opens_ok_def by (metis option.sel)
  have keep: "inodes s' x = inodes s x" if "x \<noteq> a" for x using that s'(1) by simp
  have "distinct (open_inodes (parts s' part))" using d s'(2) by simp
  then show ok': "opens_ok part (L - {a}) s'"
    using ok keep unfolding opens_ok_def set' by (metis Diff_iff insertI1 singletonD)
  show "opened part s' = (opened part s)(i_no i := None)"
  proof (rule opened_eqI [OF ok'])
    show "\<forall>x \<in> set (open_inodes (parts s' part)). \<forall>j. inodes s' x = Some j \<longrightarrow>
        ((opened part s)(i_no i := None)) (i_no j) = Some (i_open_cnts j)"
      using opened_Some [OF ok] other keep unfolding set' by fastforce
    show "\<forall>n. ((opened part s)(i_no i := None)) n \<noteq> None \<longrightarrow>
        (\<exists>x \<in> set (open_inodes (parts s' part)). i_no (the (inodes s' x)) = n)"
      using opened_None [of part s] keep i unfolding set'
      by (metis Diff_iff empty_iff fun_upd_apply insert_iff option.sel)
  qed
qed


subsection \<open>Opening and closing\<close>

text \<open>A mounted partition whose open inodes are in order, with room for \<open>k\<close> more pages on the heap.\<close>

definition fs_ok :: "part_ref \<Rightarrow> super_block \<Rightarrow> u32 set \<Rightarrow> nat \<Rightarrow> 'z fs_state_scheme \<Rightarrow> bool" where
  "fs_ok part b L k s \<longleftrightarrow> table_ok part b s \<and> heap_ready (kern s) L k \<and> opens_ok part L s"

lemma fs_okI: "table_ok part b s \<Longrightarrow> heap_ready (kern s) L k \<Longrightarrow> opens_ok part L s \<Longrightarrow> fs_ok part b L k s"
  by (simp add: fs_ok_def)

lemma fs_okD:
  assumes "fs_ok part b L k s"
  shows "table_ok part b s" "heap_ready (kern s) L k" "opens_ok part L s"
  using assms by (simp_all add: fs_ok_def)

lemma inode_open_ok:
  assumes ok: "fs_ok part b L (Suc (Suc k)) s" and n: "n < 4096" and no: "i_no (disk_inode part b s n) = word_of_nat n"
    and cnt: "opened part s (word_of_nat n) \<noteq> Some (- 1)"
  shows "\<exists>a s' L' i. inode_open part (word_of_nat n) s = Some (a, s') \<and> fs_ok part b L' k s' \<and> L \<subseteq> L' \<and>
    opened part s' = (opened part s)(word_of_nat n \<mapsto>
      (case opened part s (word_of_nat n) of None \<Rightarrow> 1 | Some c \<Rightarrow> c + 1)) \<and>
    a \<in> set (open_inodes (parts s' part)) \<and> inodes s' a = Some i \<and> i_no i = word_of_nat n \<and>
    (opened part s (word_of_nat n) = None \<longrightarrow> a \<notin> L \<and> L' = insert a L \<and>
       i = (disk_inode part b s n)\<lparr>i_open_cnts := 1, inode_tag := Some part\<rparr> \<and>
       open_inodes (parts s' part) = a # open_inodes (parts s part)) \<and>
    (opened part s (word_of_nat n) \<noteq> None \<longrightarrow> L' = L \<and> open_inodes (parts s' part) = open_inodes (parts s part)) \<and>
    (\<forall>x \<in> set (open_inodes (parts s part)). x \<noteq> a \<longrightarrow> inodes s' x = inodes s x) \<and> media s' = media s"
proof -
  let ?n = "word_of_nat n :: u32" let ?P = "\<lambda>a. i_no (the (inodes s a)) = ?n"
  note D = fs_okD [OF ok]
  have fo: "find_open ?n (open_inodes (parts s part)) (inodes s) = Some (find ?P (open_inodes (parts s part)))"
    by (rule find_open_eq) (use opens_okD(2) [OF D(3)] in auto)
  show ?thesis
  proof (cases "find ?P (open_inodes (parts s part))")
    case None
    then have o: "opened part s ?n = None" by (simp add: opened_def)
    obtain a k' where l: "load_inode part ?n s = Some (a, (upd_part part (\<lambda>p. p\<lparr>open_inodes := a # open_inodes p\<rparr>) s)\<lparr>kern := k',
      inodes := (inodes s)(a \<mapsto> (disk_inode part b s n)\<lparr>i_open_cnts := 1, inode_tag := Some part\<rparr>)\<rparr>)"
        "a \<notin> L" "heap_ready k' (insert a L) k" "heap_frame (kern s) k'"
      using load_inode_ok [OF D(1) n D(2)] by blast
    let ?i = "(disk_inode part b s n)\<lparr>i_open_cnts := 1, inode_tag := Some part\<rparr>"
    let ?s = "(upd_part part (\<lambda>p. p\<lparr>open_inodes := a # open_inodes p\<rparr>) s)\<lparr>kern := k', inodes := (inodes s)(a \<mapsto> ?i)\<rparr>"
    have i: "i_no ?i = ?n" using no by simp
    have add: "opens_ok part (insert a L) ?s" "opened part ?s = (opened part s)(i_no ?i \<mapsto> i_open_cnts ?i)"
      by (rule opens_ok_add [OF D(3) _ l(2)]; use o i in simp)+
    have "table_ok part b ?s" using D(1) l(4) table_ok_frame [of "upd_part part (\<lambda>p. p\<lparr>open_inodes := a # open_inodes p\<rparr>) s" k'] by simp
    then have "fs_ok part b (insert a L) k ?s" using add(1) l(3) by (simp add: fs_ok_def)
    then show ?thesis
      using l(1,2) fo None o add(2) i opens_okD(1) [OF D(3)]
      by (intro exI [of _ a] exI [of _ ?s] exI [of _ "insert a L"] exI [of _ ?i]) (auto simp: inode_open_def)
  next
    case (Some a)
    then have a: "a \<in> set (open_inodes (parts s part))" and an: "i_no (the (inodes s a)) = ?n"
      using find_SomeD [OF Some] by blast+
    then obtain i where i: "inodes s a = Some i" "i_no i = ?n" "i_open_cnts i \<noteq> 0"
      using opens_okD(2) [OF D(3) a] by auto
    have o: "opened part s ?n = Some (i_open_cnts i)" using Some i(1) by (simp add: opened_def)
    let ?i = "i\<lparr>i_open_cnts := i_open_cnts i + 1\<rparr>" let ?s = "s\<lparr>inodes := (inodes s)(a \<mapsto> ?i)\<rparr>"
    have "i_open_cnts i + 1 \<noteq> 0" using cnt o by (metis add_eq_0_iff2 option.inject)
    note c = opens_ok_count [OF D(3) a i(1) this, of ?s]
    have "fs_ok part b L k ?s" using D c heap_ready_more [OF D(2), of k] by (simp add: fs_ok_def)
    then show ?thesis
      using fo Some o i a c(2)
      by (intro exI [of _ a] exI [of _ ?s] exI [of _ L] exI [of _ ?i]) (auto simp: inode_open_def upd_inode_def)
  qed
qed

lemma heap_ready_eflags [simp]: "heap_ready (k\<lparr>eflags := e\<rparr>) L n = heap_ready k L n"
  using heap_ok_fields [of "k\<lparr>eflags := e\<rparr>" k] by (simp add: heap_ready_def lock_free_def pages_left_def)

lemma heap_frame_eflags:
  assumes "heap_frame k1 k2" and "k1 = k\<lparr>eflags := e\<rparr>"
  shows "heap_frame k (k2\<lparr>eflags := eflags k\<rparr>)"
  using assms by (simp add: heap_frame_def)

lemma inode_close_ok:
  assumes ok: "fs_ok part b L k s" and a: "a \<in> set (open_inodes (parts s part))" and i: "inodes s a = Some i"
  shows "\<exists>s' L'. inode_close a s = Some s' \<and> fs_ok part b L' k s' \<and>
    opened part s' = (opened part s)(i_no i := (if i_open_cnts i = 1 then None else Some (i_open_cnts i - 1))) \<and>
    (i_open_cnts i = 1 \<longrightarrow> inodes s' = (inodes s)(a := None) \<and> L' = L - {a} \<and>
       open_inodes (parts s' part) = remove1 a (open_inodes (parts s part))) \<and>
    (i_open_cnts i \<noteq> 1 \<longrightarrow> inodes s' = (inodes s)(a \<mapsto> i\<lparr>i_open_cnts := i_open_cnts i - 1\<rparr>) \<and> L' = L \<and>
       parts s' = parts s) \<and> media s' = media s \<and> eflags (kern s') = eflags (kern s)"
proof -
  note D = fs_okD [OF ok]
  let ?c = "i_open_cnts i - 1" let ?i = "i\<lparr>i_open_cnts := ?c\<rparr>"
  have tag: "inode_tag i = Some part" "i_open_cnts i \<noteq> 0" "a \<in> L" using opens_okD [OF D(3) a] i by auto
  obtain o1 k1 where dis: "intr_disable (kern s) = (o1, k1)" by fastforce
  have e: "k1 = (kern s)\<lparr>eflags := eflags k1\<rparr>" using disable_flags [of "kern s"] dis by (simp only: snd_conv)
  have r1: "heap_ready k1 L k" by (subst e) (use D(2) in simp)
  have restore: "snd (intr_set_status o1 k2) = k2\<lparr>eflags := eflags (kern s)\<rparr>" if "eflags k2 = eflags k1" for k2 :: kmem
    using set_status_flags [of o1 k2] critical_section_eflags [OF dis that] by simp
  have ek1: "k1\<lparr>eflags := eflags (kern s)\<rparr> = kern s" by (subst e) simp
  let ?s1 = "s\<lparr>kern := k1, inodes := (inodes s)(a \<mapsto> ?i)\<rparr>"
  have up: "upd_inode a (\<lambda>i. i\<lparr>i_open_cnts := i_open_cnts i - 1\<rparr>) (s\<lparr>kern := k1\<rparr>) = Some ?s1"
    using i by (simp add: upd_inode_def)
  show ?thesis
  proof (cases "i_open_cnts i = 1")
    case False
    then have c: "?c \<noteq> 0" by simp
    let ?s = "s\<lparr>inodes := (inodes s)(a \<mapsto> ?i)\<rparr>"
    have run: "inode_close a s = Some ?s"
      using up c restore [of k1] ek1 by (simp add: inode_close_def dis)
    note o = opens_ok_count [OF D(3) a i c, of ?s]
    have "fs_ok part b L k ?s" using D o(1) by (simp add: fs_ok_def)
    then show ?thesis using run o(2) False by (intro exI [of _ ?s] exI [of _ L]) simp
  next
    case True
    obtain k2 where k2: "sys_free a k1 = Some k2" "heap_ready k2 (L - {a}) k" "heap_frame k1 k2"
      using kh.free_ready [OF r1 tag(3)] by blast
    let ?k = "k2\<lparr>eflags := eflags (kern s)\<rparr>"
    let ?l = "remove1 a (open_inodes (parts s part))"
    let ?u = "upd_part part (\<lambda>p. p\<lparr>open_inodes := ?l\<rparr>)"
    let ?s = "(?u s)\<lparr>kern := ?k, inodes := (inodes s)(a := None)\<rparr>"
    have ik: "in_kernel_heap (\<lambda>k. Option.bind (sys_free a k) (\<lambda>k. Some ((), k))) (?u ?s1) = Some ((), (?u ?s1)\<lparr>kern := k2\<rparr>)"
      by (rule in_kernel_heap_ready) (use r1 k2 in simp_all)
    have run: "inode_close a s = Some ?s"
      using up True tag(1) a ik restore [of k2] k2(3)
      by (simp add: inode_close_def dis q_remove_def Let_def upd_part_def heap_frame_def)
    have o: "opens_ok part (L - {a}) ?s" "opened part ?s = (opened part s)(i_no i := None)"
      by (rule opens_ok_remove [OF D(3) a i]; simp)+
    have "table_ok part b ?s"
      using D(1) table_ok_frame [of "?u s" ?k] heap_frame_eflags [OF k2(3) e] by simp
    then have "fs_ok part b (L - {a}) k ?s" using o(1) k2(2) by (simp add: fs_ok_def)
    then show ?thesis using run o(2) True by (intro exI [of _ ?s] exI [of _ "L - {a}"]) simp
  qed
qed

text \<open>
  C25: opening and closing inodes counts references. \<open>opened\<close> is how often each inode number is open. \<open>inode_open\<close>
  raises the count of its number by one and changes no other; a number that was not open is read from the
  disk into a fresh block of the kernel's heap, one that was open is shared. \<open>inode_close\<close> takes it back.
  A last close frees the object and forgets the number, and after opening and closing the counts are those before.
\<close>

theorem inode_open_close:
  assumes "fs_ok part b L (Suc (Suc k)) s" and "n < 4096" and "i_no (disk_inode part b s n) = word_of_nat n"
    and "opened part s (word_of_nat n) \<noteq> Some (- 1)"
  shows "\<exists>a s' L' s''. inode_open part (word_of_nat n) s = Some (a, s') \<and> fs_ok part b L' k s' \<and>
    opened part s' = (opened part s)(word_of_nat n \<mapsto>
      (case opened part s (word_of_nat n) of None \<Rightarrow> 1 | Some c \<Rightarrow> c + 1)) \<and>
    (opened part s (word_of_nat n) = None \<longrightarrow> a \<notin> L \<and>
       inodes s' a = Some ((disk_inode part b s n)\<lparr>i_open_cnts := 1, inode_tag := Some part\<rparr>)) \<and>
    inode_close a s' = Some s'' \<and> fs_ok part b L k s'' \<and> opened part s'' = opened part s \<and>
    open_inodes (parts s'' part) = open_inodes (parts s part)"
proof -
  let ?n = "word_of_nat n :: u32"
  obtain a s' L' i where o: "inode_open part ?n s = Some (a, s')" "fs_ok part b L' k s'"
      "opened part s' = (opened part s)(?n \<mapsto> (case opened part s ?n of None \<Rightarrow> 1 | Some c \<Rightarrow> c + 1))"
      "a \<in> set (open_inodes (parts s' part))" "inodes s' a = Some i" "i_no i = ?n"
      "opened part s ?n = None \<longrightarrow> a \<notin> L \<and> L' = insert a L \<and>
         i = (disk_inode part b s n)\<lparr>i_open_cnts := 1, inode_tag := Some part\<rparr> \<and>
         open_inodes (parts s' part) = a # open_inodes (parts s part)"
      "opened part s ?n \<noteq> None \<longrightarrow> L' = L \<and> open_inodes (parts s' part) = open_inodes (parts s part)"
    using inode_open_ok [OF assms] by (elim exE conjE, intro that) assumption+
  have cnt: "opened part s' ?n = Some (i_open_cnts i)"
    using opened_Some [OF fs_okD(3) [OF o(2)] o(4,5)] o(6) by simp
  obtain s'' L'' where c: "inode_close a s' = Some s''" "fs_ok part b L'' k s''"
      "opened part s'' = (opened part s')(i_no i := (if i_open_cnts i = 1 then None else Some (i_open_cnts i - 1)))"
      "i_open_cnts i = 1 \<longrightarrow> L'' = L' - {a} \<and> open_inodes (parts s'' part) = remove1 a (open_inodes (parts s' part))"
      "i_open_cnts i \<noteq> 1 \<longrightarrow> L'' = L' \<and> parts s'' = parts s'"
    using inode_close_ok [OF o(2,4,5)] by metis
  show ?thesis
  proof (cases "opened part s ?n")
    case None
    then have 1: "i_open_cnts i = 1" "a \<notin> L" "L' = insert a L" "open_inodes (parts s' part) = a # open_inodes (parts s part)"
      using o(7) by auto
    have "opened part s'' = opened part s" using c(3) o(3,6) None 1(1) by (auto simp: fun_eq_iff)
    moreover have "L'' = L" "open_inodes (parts s'' part) = open_inodes (parts s part)" using c(4) 1 by auto
    ultimately show ?thesis using o(1-3,5,7) c(1,2) None
      by (intro exI [of _ a] exI [of _ s'] exI [of _ L'] exI [of _ s'']) auto
  next
    case (Some x)
    note ok = fs_okD(3) [OF assms(1)]
    obtain a0 i0 where "a0 \<in> set (open_inodes (parts s part))" "inodes s a0 = Some i0" "i_open_cnts i0 = x"
      using openedE [OF ok Some] by blast
    then have "x \<noteq> 0" using opens_okD(2) [OF ok, of a0] by auto
    moreover have "i_open_cnts i = x + 1" using cnt o(3) Some by simp
    ultimately have x: "x \<noteq> 0" "i_open_cnts i = x + 1" by auto
    then have 1: "i_open_cnts i \<noteq> 1" by simp
    have "opened part s'' = opened part s" using c(3) o(3,6) Some 1 x(2) by (auto simp: fun_eq_iff)
    moreover have "L'' = L" "open_inodes (parts s'' part) = open_inodes (parts s part)" using c(5) o(8) 1 Some by auto
    ultimately show ?thesis using o(1-3) c(1,2) Some
      by (intro exI [of _ a] exI [of _ s'] exI [of _ L'] exI [of _ s'']) auto
  qed
qed

end
