(* ===== verification/Fs_Dir.thy ===== *)
theory Fs_Dir
  imports Inode_Refs
begin

text \<open>
  \<open>fs/dir.c\<close>: searching a directory for a name, adding an entry, taking one out, and reading the entries
  one by one. A directory's blocks are arrays of 24-byte entries; a file name is compared where it lies
  in the buffer, so a name of 16 bytes without a zero runs on into the inode number.
\<close>

definition FT_UNKNOWN :: u32 where "FT_UNKNOWN = 0"
definition FT_REGULAR :: u32 where "FT_REGULAR = 1"
definition FT_DIRECTORY :: u32 where "FT_DIRECTORY = 2"

definition MAX_FILE_NAME_LEN :: nat where "MAX_FILE_NAME_LEN = 16"
definition sizeof_dir :: u32 where "sizeof_dir = 520"
definition sizeof_entry :: nat where "sizeof_entry = 24"

record dir_entry =
  filename :: "u8 list"
  entry_i_no :: u32
  f_type :: u32

definition entry_bytes :: "dir_entry \<Rightarrow> u8 list" where
  "entry_bytes e = filename e @ le32 (entry_i_no e) @ le32 (f_type e)"

definition entry_of_bytes :: "u8 list \<Rightarrow> dir_entry" where
  "entry_of_bytes bs = \<lparr>filename = take 16 bs, entry_i_no = u32_of (drop 16 bs), f_type = u32_of (drop 20 bs)\<rparr>"

text \<open>\<open>dir_e[i]\<close> for a pointer \<open>dir_e\<close> to the buffer.\<close>

definition dir_e :: "u8 list \<Rightarrow> nat \<Rightarrow> dir_entry option" where
  "dir_e buf i = do { bs \<leftarrow> get_buf buf (sizeof_entry * i) sizeof_entry; Some (entry_of_bytes bs) }"

definition entry_size :: "part_ref \<Rightarrow> 'z ide_state_scheme \<Rightarrow> nat option" where
  "entry_size part s = do {
     b \<leftarrow> sb (parts s part);
     ASSERT (dir_entry_size b \<noteq> 0);  \<comment> \<open>it is divided by\<close>
     Some (unat (dir_entry_size b)) }"

definition the_dir :: "dir_ref \<Rightarrow> 'z fs_state_scheme \<Rightarrow> dir option" where
  "the_dir d s = (case d of Root_dir \<Rightarrow> Some (root_dir s) | Dir_at a \<Rightarrow> dirs s a)"

definition set_dir :: "dir_ref \<Rightarrow> dir \<Rightarrow> 'z fs_state_scheme \<Rightarrow> 'z fs_state_scheme" where
  "set_dir d v s = (case d of Root_dir \<Rightarrow> s\<lparr>root_dir := v\<rparr> | Dir_at a \<Rightarrow> s\<lparr>dirs := (dirs s)(a \<mapsto> v)\<rparr>)"

definition dir_inode_of :: "dir_ref \<Rightarrow> 'z fs_state_scheme \<Rightarrow> inode option" where
  "dir_inode_of d s = do { v \<leftarrow> the_dir d s; inodes s (dir_inode v) }"

definition open_root_dir :: "part_ref \<Rightarrow> 'z fs_state_scheme \<Rightarrow> 'z fs_state_scheme option" where
  "open_root_dir part s = do {
     b \<leftarrow> sb (parts s part);
     (i, s) \<leftarrow> inode_open part (root_inode_no b) s;
     Some (s\<lparr>root_dir := (root_dir s)\<lparr>dir_inode := i, dir_pos := 0\<rparr>\<rparr>) }"

definition dir_open :: "part_ref \<Rightarrow> u32 \<Rightarrow> 'z fs_state_scheme \<Rightarrow> (dir_ref \<times> 'z fs_state_scheme) option" where
  "dir_open part inode_no s = do {
     (pdir, s) \<leftarrow> fs_malloc sizeof_dir s;
     (i, s) \<leftarrow> inode_open part inode_no s;
     if pdir = 0 then None
     else Some (Dir_at pdir, s\<lparr>dirs := (dirs s)(pdir \<mapsto> \<lparr>dir_inode = i, dir_pos = 0, dir_buf = replicate 512 0\<rparr>)\<rparr>) }"

definition dir_close :: "dir_ref \<Rightarrow> 'z fs_state_scheme \<Rightarrow> 'z fs_state_scheme option" where
  "dir_close d s = (case d of
     Root_dir \<Rightarrow> Some s
   | Dir_at a \<Rightarrow> do {
       v \<leftarrow> dirs s a;
       s \<leftarrow> inode_close (dir_inode v) s;
       s \<leftarrow> fs_free a s;
       Some (s\<lparr>dirs := (dirs s)(a := None)\<rparr>) })"

subsection \<open>Searching\<close>

text \<open>The addresses of all 140 blocks, the indirect ones read from the table.\<close>

definition read_blocks :: "part_ref \<Rightarrow> inode \<Rightarrow> 'z ide_state_scheme \<Rightarrow> (u32 list \<times> 'z ide_state_scheme) option" where
  "read_blocks part ino s =
     (if i_sectors ino ! 12 \<noteq> 0 then do {
        (d, s) \<leftarrow> ide_read (my_disk (parts s part)) (i_sectors ino ! 12) 1 s;
        Some (take 12 (i_sectors ino) @ u32s_of 128 d, s) }
      else Some (take 12 (i_sectors ino) @ replicate 128 0, s))"

text \<open>The entries of one sector; \<open>nm\<close> is the memory \<open>name\<close> points to.\<close>

fun search_sector :: "u8 list \<Rightarrow> u8 list \<Rightarrow> nat \<Rightarrow> nat \<Rightarrow> nat option option" where
  "search_sector buf nm i 0 = Some None"
| "search_sector buf nm i (Suc n) = do {
     r \<leftarrow> strcmp_loop buf (sizeof_entry * i) nm 0;
     if r = 0 then Some (Some i) else search_sector buf nm (i + 1) n }"

fun search_blocks ::
  "part_ref \<Rightarrow> u8 list \<Rightarrow> nat \<Rightarrow> u32 list \<Rightarrow> 'z ide_state_scheme \<Rightarrow> ((u8 list \<times> nat) option \<times> 'z ide_state_scheme) option" where
  "search_blocks part nm cnt [] s = Some (None, s)"
| "search_blocks part nm cnt (b # bs) s =
     (if b = 0 then search_blocks part nm cnt bs s
      else do {
        (buf, s) \<leftarrow> ide_read (my_disk (parts s part)) b 1 s;
        r \<leftarrow> search_sector buf nm 0 cnt;
        case r of Some i \<Rightarrow> Some (Some (buf, i), s) | None \<Rightarrow> search_blocks part nm cnt bs s })"

text \<open>The result is whether the name was found, and the entry \<open>dir_e\<close> as the call leaves it.\<close>

definition search_dir_entry ::
  "part_ref \<Rightarrow> dir_ref \<Rightarrow> u8 list \<Rightarrow> dir_entry \<Rightarrow> 'z fs_state_scheme \<Rightarrow> ((bool \<times> dir_entry) \<times> 'z fs_state_scheme) option" where
  "search_dir_entry part pdir nm e s = do {
     (all_addr, s) \<leftarrow> fs_malloc (48 + 512) s;
     if all_addr = 0 then Some ((False, e), s)
     else do {
       ino \<leftarrow> dir_inode_of pdir s;
       (all_blocks, s) \<leftarrow> read_blocks part ino s;
       (buf_addr, s) \<leftarrow> fs_malloc 512 s;
       if buf_addr = 0 then None
       else do {
         esz \<leftarrow> entry_size part s;
         (r, s) \<leftarrow> search_blocks part nm (512 div esz) all_blocks s;
         e \<leftarrow> (case r of
                None \<Rightarrow> Some e
              | Some (buf, i) \<Rightarrow> do {
                  bs \<leftarrow> get_buf buf (sizeof_entry * i) esz;
                  bs \<leftarrow> put_buf (entry_bytes e) 0 bs;
                  Some (entry_of_bytes bs) });
         s \<leftarrow> fs_free buf_addr s;
         s \<leftarrow> fs_free all_addr s;
         Some ((r \<noteq> None, e), s) } } }"

subsection \<open>Adding an entry\<close>

definition create_dir_entry :: "u8 list \<Rightarrow> nat \<Rightarrow> u32 \<Rightarrow> u32 \<Rightarrow> dir_entry \<Rightarrow> dir_entry option" where
  "create_dir_entry mem fname inode_no file_type e = do {
     n \<leftarrow> strlen mem fname;
     ASSERT (n \<le> MAX_FILE_NAME_LEN);
     nm \<leftarrow> get_buf mem fname n;
     nm \<leftarrow> put_buf (filename e) 0 nm;
     Some (e\<lparr>filename := nm, entry_i_no := inode_no, f_type := ucast (ucast file_type :: u8)\<rparr>) }"

definition set_sector :: "u32 \<Rightarrow> nat \<Rightarrow> u32 \<Rightarrow> 'z fs_state_scheme \<Rightarrow> 'z fs_state_scheme option" where
  "set_sector ia i v s = upd_inode ia (\<lambda>ino. ino\<lparr>i_sectors := (i_sectors ino)[i := v]\<rparr>) s"

text \<open>
  A new block for the address \<open>all_blocks ! idx\<close> of the directory at \<open>ia\<close>: the address, and whether it
  could be had. When \<open>idx\<close> is 12 a block for the indirect table is taken first.
\<close>

definition new_dir_block ::
  "u32 \<Rightarrow> u32 list \<Rightarrow> nat \<Rightarrow> 'z fs_state_scheme \<Rightarrow> (u32 list option \<times> 'z fs_state_scheme) option" where
  "new_dir_block ia all_blocks idx s = do {
     b \<leftarrow> sb (parts s (cur_part s));
     let dk = my_disk (parts s (cur_part s));
     (block_lba, s) \<leftarrow> block_bitmap_alloc (cur_part s) s;
     if block_lba = -1 then Some (None, s)
     else do {
       ASSERT (block_lba - data_start_lba b \<noteq> -1);
       s \<leftarrow> bitmap_sync (cur_part s) (block_lba - data_start_lba b) BLOCK_BITMAP s;
       if idx < 12 then do {
         s \<leftarrow> set_sector ia idx block_lba s;
         Some (Some (all_blocks[idx := block_lba]), s) }
       else if idx = 12 then do {
         s \<leftarrow> set_sector ia 12 block_lba s;
         (block_lba2, s) \<leftarrow> block_bitmap_alloc (cur_part s) s;
         if block_lba2 = -1 then do {
           m \<leftarrow> bitmap_set (block_bitmap (parts s (cur_part s))) (unat (block_lba - data_start_lba b)) 0;
           s \<leftarrow> set_sector ia 12 0 (upd_part (cur_part s) (\<lambda>p. p\<lparr>block_bitmap := m\<rparr>) s);
           Some (None, s) }
         else do {
           ASSERT (block_lba2 - data_start_lba b \<noteq> -1);
           s \<leftarrow> bitmap_sync (cur_part s) (block_lba2 - data_start_lba b) BLOCK_BITMAP s;
           let all_blocks = all_blocks[12 := block_lba2];
           s \<leftarrow> ide_write dk block_lba (le32s (drop 12 all_blocks)) 1 s;
           Some (Some all_blocks, s) } }
       else do {
         let all_blocks = all_blocks[idx := block_lba];
         ino \<leftarrow> inodes s ia;
         s \<leftarrow> ide_write dk (i_sectors ino ! 12) (le32s (drop 12 all_blocks)) 1 s;
         Some (Some all_blocks, s) } } }"

fun free_entry :: "u8 list \<Rightarrow> nat \<Rightarrow> nat \<Rightarrow> nat option option" where
  "free_entry buf i 0 = Some None"
| "free_entry buf i (Suc n) = do {
     e \<leftarrow> dir_e buf i;
     if f_type e = FT_UNKNOWN then Some (Some i) else free_entry buf (i + 1) n }"

definition grow_dir :: "u32 \<Rightarrow> nat \<Rightarrow> 'z fs_state_scheme \<Rightarrow> 'z fs_state_scheme option" where
  "grow_dir ia esz s = upd_inode ia (\<lambda>ino. ino\<lparr>i_size := i_size ino + word_of_nat esz\<rparr>) s"

text \<open>The loop over the blocks; \<open>k\<close> is how many are left. The result is the success, the buffer and the state.\<close>

fun sync_blocks ::
  "u32 \<Rightarrow> u8 list \<Rightarrow> nat \<Rightarrow> u32 list \<Rightarrow> nat \<Rightarrow> nat \<Rightarrow> u8 list \<Rightarrow> 'z fs_state_scheme \<Rightarrow> (bool \<times> u8 list \<times> 'z fs_state_scheme) option" where
  "sync_blocks ia p_de esz all_blocks idx 0 io_buf s = Some (False, io_buf, s)"
| "sync_blocks ia p_de esz all_blocks idx (Suc k) io_buf s = do {
     let dk = my_disk (parts s (cur_part s));
     de \<leftarrow> get_buf p_de 0 esz;
     if all_blocks ! idx = 0 then do {
       (r, s) \<leftarrow> new_dir_block ia all_blocks idx s;
       case r of
         None \<Rightarrow> Some (False, io_buf, s)
       | Some all_blocks \<Rightarrow> do {
           buf \<leftarrow> put_buf io_buf 0 (replicate 512 0);
           buf \<leftarrow> put_buf buf 0 de;
           s \<leftarrow> ide_write dk (all_blocks ! idx) buf 1 s;
           s \<leftarrow> grow_dir ia esz s;
           Some (True, buf, s) } }
     else do {
       (d, s) \<leftarrow> ide_read dk (all_blocks ! idx) 1 s;
       buf \<leftarrow> put_buf io_buf 0 d;
       r \<leftarrow> free_entry buf 0 (512 div esz);
       case r of
         Some i \<Rightarrow> do {
           buf \<leftarrow> put_buf buf (sizeof_entry * i) de;
           s \<leftarrow> ide_write dk (all_blocks ! idx) buf 1 s;
           s \<leftarrow> grow_dir ia esz s;
           Some (True, buf, s) }
       | None \<Rightarrow> sync_blocks ia p_de esz all_blocks (idx + 1) k buf s } }"

text \<open>Here the addresses of the indirect blocks are not read: they start as zeroes.\<close>

definition sync_dir_entry ::
  "dir_ref \<Rightarrow> u8 list \<Rightarrow> u8 list \<Rightarrow> 'z fs_state_scheme \<Rightarrow> (bool \<times> u8 list \<times> 'z fs_state_scheme) option" where
  "sync_dir_entry parent_dir p_de io_buf s = do {
     d \<leftarrow> the_dir parent_dir s;
     ino \<leftarrow> inodes s (dir_inode d);
     esz \<leftarrow> entry_size (cur_part s) s;
     ASSERT (unat (i_size ino) mod esz = 0);
     sync_blocks (dir_inode d) p_de esz (take 12 (i_sectors ino) @ replicate 128 0) 0 140 io_buf s }"


subsection \<open>Taking an entry out\<close>

definition dot :: "u8 list" where "dot = [0x2e, 0]"
definition dotdot :: "u8 list" where "dotdot = [0x2e, 0x2e, 0]"

text \<open>
  The loop over the entries of a sector: whether it holds \<open>"."\<close>, how many other entries there are
  (\<open>".."\<close> not counted), and the entry found, if any.
\<close>

fun scan_sector ::
  "u8 list \<Rightarrow> u32 \<Rightarrow> nat \<Rightarrow> nat \<Rightarrow> bool \<Rightarrow> u8 \<Rightarrow> nat option \<Rightarrow> (bool \<times> u8 \<times> nat option) option" where
  "scan_sector buf inode_no i 0 first cnt found = Some (first, cnt, found)"
| "scan_sector buf inode_no i (Suc n) first cnt found = do {
     e \<leftarrow> dir_e buf i;
     if f_type e \<noteq> FT_UNKNOWN then do {
       r1 \<leftarrow> strcmp_loop buf (sizeof_entry * i) dot 0;
       if r1 = 0 then scan_sector buf inode_no (i + 1) n True cnt found
       else do {
         r2 \<leftarrow> strcmp_loop buf (sizeof_entry * i) dotdot 0;
         if r2 \<noteq> 0 then
           if entry_i_no e = inode_no then do {
             ASSERT (found = None);
             scan_sector buf inode_no (i + 1) n first (cnt + 1) (Some i) }
           else scan_sector buf inode_no (i + 1) n first (cnt + 1) found
         else scan_sector buf inode_no (i + 1) n first cnt found } }
     else scan_sector buf inode_no (i + 1) n first cnt found }"

definition clear_block_bit :: "part_ref \<Rightarrow> u32 \<Rightarrow> 'z fs_state_scheme \<Rightarrow> 'z fs_state_scheme option" where
  "clear_block_bit part block s = do {
     b \<leftarrow> sb (parts s part);
     let idx = block - data_start_lba b;
     m \<leftarrow> bitmap_set (block_bitmap (parts s part)) (unat idx) 0;
     bitmap_sync (cur_part s) idx BLOCK_BITMAP (upd_part part (\<lambda>p. p\<lparr>block_bitmap := m\<rparr>) s) }"

text \<open>The sector held nothing else: it is given back, and its address taken out of the inode or the table.\<close>

definition drop_dir_block ::
  "part_ref \<Rightarrow> u32 \<Rightarrow> u32 list \<Rightarrow> nat \<Rightarrow> 'z fs_state_scheme \<Rightarrow> 'z fs_state_scheme option" where
  "drop_dir_block part ia all_blocks idx s = do {
     s \<leftarrow> clear_block_bit part (all_blocks ! idx) s;
     if idx < 12 then set_sector ia idx 0 s
     else do {
       let indirect_blocks = length (filter (\<lambda>b. b \<noteq> 0) (drop 12 all_blocks));
       ASSERT (indirect_blocks \<ge> 1);
       ino \<leftarrow> inodes s ia;
       if indirect_blocks > 1 then
         ide_write (my_disk (parts s part)) (i_sectors ino ! 12) (le32s (drop 12 (all_blocks[idx := 0]))) 1 s
       else do {
         s \<leftarrow> clear_block_bit part (i_sectors ino ! 12) s;
         set_sector ia 12 0 s } } }"

fun delete_blocks ::
  "part_ref \<Rightarrow> u32 \<Rightarrow> u32 \<Rightarrow> nat \<Rightarrow> u32 list \<Rightarrow> nat \<Rightarrow> nat \<Rightarrow> u8 list \<Rightarrow> 'z fs_state_scheme \<Rightarrow> (bool \<times> 'z fs_state_scheme) option" where
  "delete_blocks part ia inode_no esz all_blocks idx 0 io_buf s = Some (False, s)"
| "delete_blocks part ia inode_no esz all_blocks idx (Suc k) io_buf s =
     (if all_blocks ! idx = 0 then delete_blocks part ia inode_no esz all_blocks (idx + 1) k io_buf s
      else do {
        let dk = my_disk (parts s part);
        buf \<leftarrow> put_buf io_buf 0 (replicate 512 0);
        (d, s) \<leftarrow> ide_read dk (all_blocks ! idx) 1 s;
        buf \<leftarrow> put_buf buf 0 d;
        (is_dir_first_block, dir_entry_cnt, dir_entry_found) \<leftarrow> scan_sector buf inode_no 0 (512 div esz) False 0 None;
        case dir_entry_found of
          None \<Rightarrow> delete_blocks part ia inode_no esz all_blocks (idx + 1) k buf s
        | Some i \<Rightarrow> do {
            ASSERT (dir_entry_cnt \<ge> 1);
            (buf, s) \<leftarrow> (if dir_entry_cnt = 1 \<and> \<not> is_dir_first_block then do {
                 s \<leftarrow> drop_dir_block part ia all_blocks idx s;
                 Some (buf, s) }
               else do {
                 buf \<leftarrow> put_buf buf (sizeof_entry * i) (replicate esz 0);
                 s \<leftarrow> ide_write dk (all_blocks ! idx) buf 1 s;
                 Some (buf, s) });
            ino \<leftarrow> inodes s ia;
            ASSERT (i_size ino \<ge> word_of_nat esz);
            s \<leftarrow> upd_inode ia (\<lambda>ino. ino\<lparr>i_size := i_size ino - word_of_nat esz\<rparr>) s;
            buf \<leftarrow> put_buf buf 0 (replicate 1024 0);
            ino \<leftarrow> inodes s ia;
            (buf, s) \<leftarrow> inode_sync part ino buf s;
            Some (True, s) } })"

definition delete_dir_entry ::
  "part_ref \<Rightarrow> dir_ref \<Rightarrow> u32 \<Rightarrow> u8 list \<Rightarrow> 'z fs_state_scheme \<Rightarrow> (bool \<times> 'z fs_state_scheme) option" where
  "delete_dir_entry part pdir inode_no io_buf s = do {
     d \<leftarrow> the_dir pdir s;
     ino \<leftarrow> inodes s (dir_inode d);
     (all_blocks, s) \<leftarrow> read_blocks part ino s;
     esz \<leftarrow> entry_size part s;
     delete_blocks part (dir_inode d) inode_no esz all_blocks 0 140 io_buf s }"

subsection \<open>Reading a directory\<close>

text \<open>The entries of a sector: the one at position \<open>pos\<close> or, if it is further on, the position reached.\<close>

fun read_sector :: "u8 list \<Rightarrow> nat \<Rightarrow> nat \<Rightarrow> u32 \<Rightarrow> u32 \<Rightarrow> u32 \<Rightarrow> (nat option \<times> u32) option" where
  "read_sector buf i 0 cur pos esz = Some (None, cur)"
| "read_sector buf i (Suc n) cur pos esz = do {
     e \<leftarrow> dir_e buf i;
     if f_type e \<noteq> 0 then
       if cur < pos then read_sector buf (i + 1) n (cur + esz) pos esz
       else do { ASSERT (cur = pos); Some (Some i, cur) }
     else read_sector buf (i + 1) n cur pos esz }"

fun dir_read_blocks ::
  "dir_ref \<Rightarrow> nat \<Rightarrow> u32 list \<Rightarrow> u32 \<Rightarrow> 'z fs_state_scheme \<Rightarrow> (nat option \<times> 'z fs_state_scheme) option" where
  "dir_read_blocks d esz [] cur s = Some (None, s)"
| "dir_read_blocks d esz (b # bs) cur s = do {
     v \<leftarrow> the_dir d s;
     ino \<leftarrow> inodes s (dir_inode v);
     if dir_pos v \<ge> i_size ino then Some (None, s)
     else if b = 0 then dir_read_blocks d esz bs cur s
     else do {
       (data, s) \<leftarrow> ide_read (my_disk (parts s (cur_part s))) b 1 s;
       buf \<leftarrow> put_buf (dir_buf v) 0 data;
       let s = set_dir d (v\<lparr>dir_buf := buf\<rparr>) s;
       (r, cur) \<leftarrow> read_sector buf 0 (512 div esz) cur (dir_pos v) (word_of_nat esz);
       case r of
         Some i \<Rightarrow> Some (Some i, set_dir d (v\<lparr>dir_buf := buf, dir_pos := dir_pos v + word_of_nat esz\<rparr>) s)
       | None \<Rightarrow> dir_read_blocks d esz bs cur s } }"

text \<open>The result is the index in \<open>dir_buf\<close> of the entry returned; \<open>None\<close> for \<open>NULL\<close>.\<close>

definition dir_read :: "dir_ref \<Rightarrow> 'z fs_state_scheme \<Rightarrow> (nat option \<times> 'z fs_state_scheme) option" where
  "dir_read d s = do {
     ino \<leftarrow> dir_inode_of d s;
     (all_blocks, s) \<leftarrow> read_blocks (cur_part s) ino s;
     let block_cnt = (if i_sectors ino ! 12 \<noteq> 0 then 140 else 12);
     esz \<leftarrow> entry_size (cur_part s) s;
     dir_read_blocks d esz (take block_cnt all_blocks) 0 s }"

definition dir_is_empty :: "dir_ref \<Rightarrow> 'z fs_state_scheme \<Rightarrow> bool option" where
  "dir_is_empty d s = do {
     ino \<leftarrow> dir_inode_of d s;
     b \<leftarrow> sb (parts s (cur_part s));
     Some (i_size ino = dir_entry_size b * 2) }"

definition dir_remove :: "dir_ref \<Rightarrow> dir_ref \<Rightarrow> 'z fs_state_scheme \<Rightarrow> (int \<times> 'z fs_state_scheme) option" where
  "dir_remove parent_dir child_dir s = do {
     child \<leftarrow> dir_inode_of child_dir s;
     ASSERT (\<forall>block_idx \<in> {1..<13}. i_sectors child ! block_idx = 0);
     (io_buf, s) \<leftarrow> fs_malloc (512 * 2) s;
     if io_buf = 0 then Some (-1, s)
     else do {
       (r, s) \<leftarrow> delete_dir_entry (cur_part s) parent_dir (i_no child) (replicate 1024 0) s;
       child \<leftarrow> dir_inode_of child_dir s;
       s \<leftarrow> inode_release (cur_part s) (i_no child) s;
       s \<leftarrow> fs_free io_buf s;
       Some (0, s) } }"

end
