(* ===== verification/Fs_File.thy ===== *)
theory Fs_File
  imports Fs_Dir
begin

text \<open>
  \<open>fs/file.c\<close>: the global table of open files, the descriptors of a process, and creating, opening,
  closing, writing and reading a file. An open file is named by its index in \<open>file_table\<close>. The data a
  caller passes is the byte list its pointer points to. \<open>int32_t\<close> results are words; \<open>-1\<close> is \<open>0xffffffff\<close>.
\<close>

unbundle bit_operations_syntax

definition MAX_FILE_OPEN :: nat where "MAX_FILE_OPEN = 32"
definition MAX_FILES_OPEN_PER_PROC :: nat where "MAX_FILES_OPEN_PER_PROC = 8"
definition BLOCK_SIZE :: u32 where "BLOCK_SIZE = 512"
definition O_RDONLY :: u8 where "O_RDONLY = 0"
definition O_WRONLY :: u8 where "O_WRONLY = 1"
definition O_RDWR :: u8 where "O_RDWR = 2"
definition O_CREAT :: u8 where "O_CREAT = 4"

subsection \<open>Descriptors\<close>

fun free_slot :: "open_file list \<Rightarrow> nat \<Rightarrow> nat \<Rightarrow> nat option" where
  "free_slot ft fd_idx 0 = Some fd_idx"
| "free_slot ft fd_idx (Suc n) = do {
     f \<leftarrow> rd ft fd_idx;
     if fd_inode f = 0 then Some fd_idx else free_slot ft (fd_idx + 1) n }"

definition get_free_slot_in_global :: "'z fs_state_scheme \<Rightarrow> u32 option" where
  "get_free_slot_in_global s = do {
     fd_idx \<leftarrow> free_slot (file_table s) 3 (MAX_FILE_OPEN - 3);
     Some (if fd_idx = MAX_FILE_OPEN then -1 else word_of_nat fd_idx) }"

fun free_fd :: "u32 list \<Rightarrow> nat \<Rightarrow> nat \<Rightarrow> nat option" where
  "free_fd fds i 0 = Some i"
| "free_fd fds i (Suc n) = do {
     fd \<leftarrow> rd fds i;
     if fd = -1 then Some i else free_fd fds (i + 1) n }"

definition pcb_fd_install :: "u32 \<Rightarrow> 'z ide_state_scheme \<Rightarrow> (u32 \<times> 'z ide_state_scheme) option" where
  "pcb_fd_install global_fd_idx s = do {
     cur \<leftarrow> tasks (kern s) (running (kern s));
     i \<leftarrow> free_fd (fd_table cur) 3 (MAX_FILES_OPEN_PER_PROC - 3);
     if i = MAX_FILES_OPEN_PER_PROC then Some (-1, s)
     else do {
       k \<leftarrow> upd_task (running (kern s)) (\<lambda>p. p\<lparr>fd_table := (fd_table p)[i := global_fd_idx]\<rparr>) (kern s);
       Some (word_of_nat i, s\<lparr>kern := k\<rparr>) } }"

definition upd_file :: "nat \<Rightarrow> (open_file \<Rightarrow> open_file) \<Rightarrow> 'z fs_state_scheme \<Rightarrow> 'z fs_state_scheme option" where
  "upd_file i f s = do { v \<leftarrow> rd (file_table s) i; Some (s\<lparr>file_table := (file_table s)[i := f v]\<rparr>) }"

subsection \<open>Creating\<close>

definition zero_inode :: inode where
  "zero_inode = inode_of_bytes (replicate 76 0)"

definition zero_entry :: dir_entry where
  "zero_entry = entry_of_bytes (replicate 24 0)"

text \<open>The cases of the switch fall through to the next.\<close>

definition create_rollback ::
  "nat \<Rightarrow> nat \<Rightarrow> u32 \<Rightarrow> u32 \<Rightarrow> u32 \<Rightarrow> 'z fs_state_scheme \<Rightarrow> (u32 \<times> 'z fs_state_scheme) option" where
  "create_rollback step fd_idx new_inode inode_no io_buf s = do {
     s \<leftarrow> (if step = 3 then upd_file fd_idx (\<lambda>f. \<lparr>fd_pos = 0, fd_flag = 0, fd_inode = 0\<rparr>) s else Some s);
     s \<leftarrow> (if step = 3 \<or> step = 2 then do {
             s \<leftarrow> fs_free new_inode s; Some (s\<lparr>inodes := (inodes s)(new_inode := None)\<rparr>) } else Some s);
     s \<leftarrow> (if step = 3 \<or> step = 2 \<or> step = 1 then do {
             m \<leftarrow> bitmap_set (inode_bitmap (parts s (cur_part s))) (unat inode_no) 0;
             Some (upd_part (cur_part s) (\<lambda>p. p\<lparr>inode_bitmap := m\<rparr>) s) } else Some s);
     s \<leftarrow> fs_free io_buf s;
     Some (-1, s) }"

text \<open>Writing the new entry, the two inodes and the bitmap, and linking the new inode.\<close>

definition file_create_sync ::
  "dir_ref \<Rightarrow> dir_entry \<Rightarrow> nat \<Rightarrow> u32 \<Rightarrow> u32 \<Rightarrow> u32 \<Rightarrow> 'z fs_state_scheme \<Rightarrow> (u32 \<times> 'z fs_state_scheme) option" where
  "file_create_sync parent_dir e fd_idx a inode_no io_addr s = do {
     (ok, io_buf, s) \<leftarrow> sync_dir_entry parent_dir (entry_bytes e) (replicate 1024 0) s;
     if \<not> ok then create_rollback 3 fd_idx a inode_no io_addr s
     else do {
       parent \<leftarrow> dir_inode_of parent_dir s;
       (buf, s) \<leftarrow> inode_sync (cur_part s) parent (replicate 1024 0) s;
       new_file \<leftarrow> inodes s a;
       (buf, s) \<leftarrow> inode_sync (cur_part s) new_file (replicate 1024 0) s;
       s \<leftarrow> bitmap_sync (cur_part s) inode_no INODE_BITMAP s;
       l \<leftarrow> q_push a (open_inodes (parts s (cur_part s)));
       s \<leftarrow> upd_inode a (\<lambda>i. i\<lparr>i_open_cnts := 1, inode_tag := Some (cur_part s)\<rparr>)
             (upd_part (cur_part s) (\<lambda>p. p\<lparr>open_inodes := l\<rparr>) s);
       s \<leftarrow> fs_free io_addr s;
       pcb_fd_install (word_of_nat fd_idx) s } }"

definition file_create ::
  "dir_ref \<Rightarrow> u8 list \<Rightarrow> nat \<Rightarrow> u8 \<Rightarrow> 'z fs_state_scheme \<Rightarrow> (u32 \<times> 'z fs_state_scheme) option" where
  "file_create parent_dir mem fname flag s = do {
     (io_addr, s) \<leftarrow> fs_malloc 1024 s;
     if io_addr = 0 then Some (-1, s)
     else do {
       (inode_no, s) \<leftarrow> inode_bitmap_alloc (cur_part s) s;
       if inode_no = -1 then Some (-1, s)
       else do {
         (a, s) \<leftarrow> fs_malloc sizeof_inode s;
         if a = 0 then create_rollback 1 0 a inode_no io_addr s
         else do {
           let s = s\<lparr>inodes := (inodes s)(a \<mapsto> inode_init inode_no zero_inode)\<rparr>;
           fd_idx \<leftarrow> get_free_slot_in_global s;
           if fd_idx = -1 then create_rollback 2 0 a inode_no io_addr s
           else do {
             s \<leftarrow> upd_file (unat fd_idx) (\<lambda>f. \<lparr>fd_pos = 0, fd_flag = ucast flag, fd_inode = a\<rparr>) s;
             s \<leftarrow> upd_inode a (\<lambda>i. i\<lparr>write_deny := False\<rparr>) s;
             e \<leftarrow> create_dir_entry mem fname inode_no FT_REGULAR zero_entry;
             file_create_sync parent_dir e (unat fd_idx) a inode_no io_addr s } } } } }"

subsection \<open>Opening and closing\<close>

definition file_open :: "u32 \<Rightarrow> u8 \<Rightarrow> 'z fs_state_scheme \<Rightarrow> (u32 \<times> 'z fs_state_scheme) option" where
  "file_open inode_no flag s = do {
     fd_idx \<leftarrow> get_free_slot_in_global s;
     if fd_idx = -1 then Some (-1, s)
     else do {
       (a, s) \<leftarrow> inode_open (cur_part s) inode_no s;
       s \<leftarrow> upd_file (unat fd_idx) (\<lambda>f. \<lparr>fd_pos = 0, fd_flag = ucast flag, fd_inode = a\<rparr>) s;
       if flag AND O_WRONLY \<noteq> 0 \<or> flag AND O_RDWR \<noteq> 0 then do {
         let (old_status, k) = intr_disable (kern s);
         ino \<leftarrow> inodes s a;
         if \<not> write_deny ino then do {
           s \<leftarrow> upd_inode a (\<lambda>i. i\<lparr>write_deny := True\<rparr>) (s\<lparr>kern := k\<rparr>);
           pcb_fd_install fd_idx (s\<lparr>kern := snd (intr_set_status old_status (kern s))\<rparr>) }
         else Some (-1, s\<lparr>kern := snd (intr_set_status old_status k)\<rparr>) }
       else pcb_fd_install fd_idx s } }"

definition file_close :: "nat option \<Rightarrow> 'z fs_state_scheme \<Rightarrow> (u32 \<times> 'z fs_state_scheme) option" where
  "file_close f s = (case f of
     None \<Rightarrow> Some (-1, s)
   | Some i \<Rightarrow> do {
       v \<leftarrow> rd (file_table s) i;
       s \<leftarrow> upd_inode (fd_inode v) (\<lambda>ino. ino\<lparr>write_deny := False\<rparr>) s;
       s \<leftarrow> inode_close (fd_inode v) s;
       s \<leftarrow> upd_file i (\<lambda>v. v\<lparr>fd_inode := 0\<rparr>) s;
       Some (0, s) })"

subsection \<open>Writing\<close>

text \<open>
  The loops that take blocks \<open>idx\<close> to \<open>idx + n - 1\<close>, each recorded in the bitmap on the disk. Up to
  number 11 they go into the inode as well; \<open>direct\<close> is whether the loop does that (the one of the
  third situation only fills \<open>all_blocks\<close>). The result is \<open>None\<close> inside if the disk is full.
\<close>

fun add_blocks ::
  "u32 \<Rightarrow> bool \<Rightarrow> nat \<Rightarrow> nat \<Rightarrow> u32 list \<Rightarrow> 'z fs_state_scheme \<Rightarrow> (u32 list option \<times> 'z fs_state_scheme) option" where
  "add_blocks a direct idx 0 all_blocks s = Some (Some all_blocks, s)"
| "add_blocks a direct idx (Suc n) all_blocks s = do {
     (block_lba, s) \<leftarrow> block_bitmap_alloc (cur_part s) s;
     if block_lba = -1 then Some (None, s)
     else do {
       ino \<leftarrow> inodes s a;
       s \<leftarrow> (if direct \<and> idx < 12 then do {
               ASSERT (i_sectors ino ! idx = 0);
               set_sector a idx block_lba s }
             else Some s);
       all_blocks \<leftarrow> wr all_blocks idx block_lba;
       b \<leftarrow> sb (parts s (cur_part s));
       s \<leftarrow> bitmap_sync (cur_part s) (block_lba - data_start_lba b) BLOCK_BITMAP s;
       add_blocks a direct (idx + 1) n all_blocks s } }"

text \<open>
  Collecting the block addresses for a write that takes the file from \<open>has\<close> to \<open>will\<close> blocks.
  \<open>junk\<close> is the value of the variable \<open>block_idx\<close>, which the second situation uses without
  having set it. The result is \<open>None\<close> inside if the disk is full.
\<close>

definition gather_blocks ::
  "u32 \<Rightarrow> nat \<Rightarrow> nat \<Rightarrow> nat \<Rightarrow> 'z fs_state_scheme \<Rightarrow> (u32 list option \<times> 'z fs_state_scheme) option" where
  "gather_blocks a junk has will s = do {
     ino \<leftarrow> inodes s a;
     let dk = my_disk (parts s (cur_part s));
     let all_blocks = replicate 140 0;
     if will = has then
       if will \<le> 12 then Some (Some (all_blocks[has - 1 := i_sectors ino ! (has - 1)]), s)
       else do {
         ASSERT (i_sectors ino ! 12 \<noteq> 0);
         (d, s) \<leftarrow> ide_read dk (i_sectors ino ! 12) 1 s;
         Some (Some (take 12 all_blocks @ u32s_of 128 d), s) }
     else if will \<le> 12 then do {
       ASSERT (i_sectors ino ! (has - 1) \<noteq> 0);
       add_blocks a True has (will - has) (all_blocks[has - 1 := i_sectors ino ! (has - 1)]) s }
     else if has \<le> 12 \<and> will > 12 then do {
       v \<leftarrow> rd (i_sectors ino) junk;
       all_blocks \<leftarrow> wr all_blocks junk v;
       (block_lba, s) \<leftarrow> block_bitmap_alloc (cur_part s) s;
       if block_lba = -1 then Some (None, s)
       else do {
         ASSERT (i_sectors ino ! 12 = 0);
         s \<leftarrow> set_sector a 12 block_lba s;
         (r, s) \<leftarrow> add_blocks a True has (will - has) all_blocks s;
         case r of
           None \<Rightarrow> Some (None, s)
         | Some all_blocks \<Rightarrow> do {
             s \<leftarrow> ide_write dk block_lba (le32s (drop 12 all_blocks)) 1 s;
             Some (Some all_blocks, s) } } }
     else do {
       ASSERT (i_sectors ino ! 12 \<noteq> 0);
       (d, s) \<leftarrow> ide_read dk (i_sectors ino ! 12) 1 s;
       (r, s) \<leftarrow> add_blocks a False has (will - has) (take 12 all_blocks @ u32s_of 128 d) s;
       case r of
         None \<Rightarrow> Some (None, s)
       | Some all_blocks \<Rightarrow> do {
           s \<leftarrow> ide_write dk (i_sectors ino ! 12) (le32s (drop 12 all_blocks)) 1 s;
           Some (Some all_blocks, s) } } }"

text \<open>The writing loop. \<open>size_left\<close> keeps its first value, and \<open>bytes_written\<close> is counted down.\<close>

partial_function (option) write_loop ::
  "nat \<Rightarrow> u32 \<Rightarrow> u32 list \<Rightarrow> u8 list \<Rightarrow> u32 \<Rightarrow> nat \<Rightarrow> bool \<Rightarrow> u32 \<Rightarrow> u8 list \<Rightarrow> 'z fs_state_scheme \<Rightarrow>
   (u32 \<times> u8 list \<times> 'z fs_state_scheme) option" where
  "write_loop f a all_blocks buf count src first_write_block bytes_written io_buf s =
     (if bytes_written < count then
        Option.bind (inodes s a) (\<lambda>ino.
        let dk = my_disk (parts s (cur_part s));
            sec_idx = unat (i_size ino div BLOCK_SIZE);
            sec_off_bytes = i_size ino mod BLOCK_SIZE;
            sec_left_bytes = BLOCK_SIZE - sec_off_bytes;
            chunk_size = (if count < sec_left_bytes then count else sec_left_bytes)
        in Option.bind (put_buf io_buf 0 (replicate 512 0)) (\<lambda>io_buf.
        Option.bind (rd all_blocks sec_idx) (\<lambda>sec_lba.
        Option.bind (if first_write_block then
            Option.bind (ide_read dk sec_lba 1 s) (\<lambda>(d, s). Option.bind (put_buf io_buf 0 d) (\<lambda>io_buf. Some (io_buf, s)))
          else Some (io_buf, s)) (\<lambda>(io_buf, s).
        Option.bind (get_buf buf src (unat chunk_size)) (\<lambda>bs.
        Option.bind (put_buf io_buf (unat sec_off_bytes) bs) (\<lambda>io_buf.
        Option.bind (ide_write dk sec_lba io_buf 1 s) (\<lambda>s.
        Option.bind (upd_inode a (\<lambda>i. i\<lparr>i_size := i_size i + chunk_size\<rparr>) s) (\<lambda>s.
        Option.bind (upd_file f (\<lambda>v. v\<lparr>fd_pos := fd_pos v + chunk_size\<rparr>) s) (\<lambda>s.
          write_loop f a all_blocks buf count (src + unat chunk_size) False (bytes_written - chunk_size) io_buf s)))))))))
      else Some (bytes_written, io_buf, s))"

text \<open>The first block of an empty file; \<open>None\<close> inside if the disk is full.\<close>

definition first_block :: "u32 \<Rightarrow> 'z fs_state_scheme \<Rightarrow> (bool \<times> 'z fs_state_scheme) option" where
  "first_block a s = do {
     ino \<leftarrow> inodes s a;
     if i_sectors ino ! 0 \<noteq> 0 then Some (True, s)
     else do {
       b \<leftarrow> sb (parts s (cur_part s));
       (block_lba, s) \<leftarrow> block_bitmap_alloc (cur_part s) s;
       if block_lba = -1 then Some (False, s)
       else do {
         s \<leftarrow> set_sector a 0 block_lba s;
         ASSERT (block_lba - data_start_lba b > 0);
         s \<leftarrow> bitmap_sync (cur_part s) (block_lba - data_start_lba b) BLOCK_BITMAP s;
         Some (True, s) } } }"

definition file_write ::
  "nat \<Rightarrow> nat \<Rightarrow> u8 list \<Rightarrow> u32 \<Rightarrow> 'z fs_state_scheme \<Rightarrow> (u32 \<times> 'z fs_state_scheme) option" where
  "file_write junk f buf count s = do {
     v \<leftarrow> rd (file_table s) f;
     let a = fd_inode v;
     ino \<leftarrow> inodes s a;
     if i_size ino + count > BLOCK_SIZE * 140 then Some (-1, s)
     else do {
       (io_addr, s) \<leftarrow> fs_malloc 512 s;
       if io_addr = 0 then Some (-1, s)
       else do {
         (all_addr, s) \<leftarrow> fs_malloc (BLOCK_SIZE + 48) s;
         if all_addr = 0 then Some (-1, s)
         else do {
           (ok, s) \<leftarrow> first_block a s;
           if \<not> ok then Some (-1, s)
           else do {
             ino \<leftarrow> inodes s a;
             let file_has_used_blocks = i_size ino div BLOCK_SIZE + 1;
             let file_will_use_blocks = (i_size ino + count) div BLOCK_SIZE + 1;
             ASSERT (file_will_use_blocks \<le> 140);
             (r, s) \<leftarrow> gather_blocks a junk (unat file_has_used_blocks) (unat file_will_use_blocks) s;
             case r of
               None \<Rightarrow> Some (-1, s)
             | Some all_blocks \<Rightarrow> do {
                 ino \<leftarrow> inodes s a;
                 s \<leftarrow> upd_file f (\<lambda>v. v\<lparr>fd_pos := i_size ino - 1\<rparr>) s;
                 (bytes_written, io_buf, s) \<leftarrow> write_loop f a all_blocks buf count 0 True 0 (replicate 512 0) s;
                 ino \<leftarrow> inodes s a;
                 (io_buf, s) \<leftarrow> inode_sync (cur_part s) ino io_buf s;
                 s \<leftarrow> fs_free all_addr s;
                 s \<leftarrow> fs_free io_addr s;
                 Some (bytes_written, s) } } } } } }"

subsection \<open>Reading\<close>

text \<open>The reading loop. \<open>buf_dst\<close> points to words, so adding \<open>chunk_size\<close> to it moves it on by four times as many bytes.\<close>

partial_function (option) read_loop ::
  "nat \<Rightarrow> u32 list \<Rightarrow> u32 \<Rightarrow> u32 \<Rightarrow> u32 \<Rightarrow> nat \<Rightarrow> u8 list \<Rightarrow> 'z fs_state_scheme \<Rightarrow> (u32 \<times> u8 list \<times> 'z fs_state_scheme) option" where
  "read_loop f all_blocks sz size_left bytes_read buf_dst buf s =
     (if bytes_read < sz then
        Option.bind (rd (file_table s) f) (\<lambda>v.
        let dk = my_disk (parts s (cur_part s));
            sec_idx = unat (fd_pos v div BLOCK_SIZE);
            sec_off_bytes = fd_pos v mod BLOCK_SIZE;
            sec_left_bytes = BLOCK_SIZE - sec_off_bytes;
            chunk_size = (if size_left < sec_left_bytes then size_left else sec_left_bytes)
        in Option.bind (rd all_blocks sec_idx) (\<lambda>sec_lba.
        Option.bind (ide_read dk sec_lba 1 s) (\<lambda>(d, s).
        Option.bind (get_buf d (unat sec_off_bytes) (unat chunk_size)) (\<lambda>bs.
        Option.bind (put_buf buf buf_dst bs) (\<lambda>buf.
        Option.bind (upd_file f (\<lambda>v. v\<lparr>fd_pos := fd_pos v + chunk_size\<rparr>) s) (\<lambda>s.
          read_loop f all_blocks sz (size_left - chunk_size) (bytes_read + chunk_size) (buf_dst + 4 * unat chunk_size) buf s))))))
      else Some (bytes_read, buf, s))"

text \<open>The addresses collected for reading blocks \<open>start\<close> to \<open>end\<close>; the others are 0.\<close>

definition read_addresses ::
  "inode \<Rightarrow> nat \<Rightarrow> nat \<Rightarrow> 'z fs_state_scheme \<Rightarrow> (u32 list \<times> 'z fs_state_scheme) option" where
  "read_addresses ino first_idx last_idx s = do {
     let dk = my_disk (parts s (cur_part s));
     let all_blocks = replicate 140 0;
     if first_idx = last_idx then
       if last_idx < 12 then Some (all_blocks[last_idx := i_sectors ino ! last_idx], s)
       else do {
         (d, s) \<leftarrow> ide_read dk (i_sectors ino ! 12) 1 s;
         Some (take 12 all_blocks @ u32s_of 128 d, s) }
     else if last_idx < 12 then Some (all_blocks[last_idx := i_sectors ino ! last_idx], s)
     else if first_idx < 12 \<and> last_idx > 12 then do {
       let all_blocks = map (\<lambda>i. if first_idx \<le> i \<and> i < 12 then i_sectors ino ! 12 else 0) [0..<140];
       ASSERT (i_sectors ino ! 12 \<noteq> 0);
       (d, s) \<leftarrow> ide_read dk (i_sectors ino ! 12) 1 s;
       Some (take 12 all_blocks @ u32s_of 128 d, s) }
     else Some (all_blocks, s) }"

text \<open>The result is the return value and the caller's buffer.\<close>

definition file_read ::
  "nat \<Rightarrow> u8 list \<Rightarrow> u32 \<Rightarrow> 'z fs_state_scheme \<Rightarrow> ((u32 \<times> u8 list) \<times> 'z fs_state_scheme) option" where
  "file_read f buf count s = do {
     v \<leftarrow> rd (file_table s) f;
     ino \<leftarrow> inodes s (fd_inode v);
     let sz = (if fd_pos v + count > i_size ino then i_size ino - fd_pos v else count);
     if fd_pos v + count > i_size ino \<and> sz = 0 then Some ((-1, buf), s)
     else do {
       (io_addr, s) \<leftarrow> fs_malloc BLOCK_SIZE s;
       (all_addr, s) \<leftarrow> fs_malloc (BLOCK_SIZE + 48) s;
       if all_addr = 0 then Some ((-1, buf), s)
       else do {
         let block_read_start_idx = fd_pos v div BLOCK_SIZE;
         let block_read_end_idx = (fd_pos v + sz) div BLOCK_SIZE;
         ASSERT (block_read_start_idx < 139 \<and> block_read_end_idx < 139);
         (all_blocks, s) \<leftarrow> read_addresses ino (unat block_read_start_idx) (unat block_read_end_idx) s;
         if sz > 0 \<and> io_addr = 0 then None  \<comment> \<open>\<open>memset\<close> of a null pointer fails its assertion\<close>
         else do {
           (bytes_read, buf, s) \<leftarrow> read_loop f all_blocks sz sz 0 0 buf s;
           s \<leftarrow> fs_free all_addr s;
           s \<leftarrow> fs_free io_addr s;
           Some ((bytes_read, buf), s) } } } }"

end
