(* ===== verification/Fs_Path.thy ===== *)
theory Fs_Path
  imports Fs_File
begin

text \<open>
  The path functions of \<open>fs/fs.c\<close>: splitting a path into names, its depth, and the walk through the
  directories. The memory of a path and the buffer a name is stored in are separate objects. A local
  array that is used before it is written to has arbitrary contents, an argument here (\<open>junk\<close>).
\<close>

unbundle bit_operations_syntax

definition MAX_PATH_LEN :: nat where "MAX_PATH_LEN = 512"

definition slash :: u8 where "slash = 0x2f"

subsection \<open>Splitting\<close>

function copy_name :: "mem \<Rightarrow> addr \<Rightarrow> u8 list \<Rightarrow> nat \<Rightarrow> (addr \<times> u8 list) option" where
  "copy_name mem p name_store k = do {
     c \<leftarrow> rd mem p;
     if c \<noteq> slash \<and> c \<noteq> 0 then do {
       name_store \<leftarrow> wr name_store k c;
       copy_name mem (p + 1) name_store (k + 1) }
     else Some (p, name_store) }"
  by pat_completeness auto
termination
  by (relation "measure (\<lambda>(mem, p, nm, k). length mem - p)") (auto simp: rd_eq_Some)

declare copy_name.simps [simp del]

text \<open>
  The condition \<open>pathname[0] = '/'\<close> is an assignment, so the first character becomes a slash whatever it
  was, and the branch is always taken. In it, \<open>(++ pathname) == '/'\<close> compares the pointer with 47, which
  is the address of no string: the pointer moves on by one.
\<close>

definition path_parse :: "mem \<Rightarrow> addr \<Rightarrow> u8 list \<Rightarrow> (addr \<times> mem \<times> u8 list) option" where
  "path_parse mem pathname name_store = do {
     mem \<leftarrow> wr mem pathname slash;
     (p, name_store) \<leftarrow> copy_name mem (pathname + 1) name_store 0;
     c \<leftarrow> rd mem p;
     if c = 0 then Some (NULL, mem, name_store) else Some (p, mem, name_store) }"

partial_function (option) depth_loop :: "mem \<Rightarrow> addr \<Rightarrow> u8 list \<Rightarrow> u32 \<Rightarrow> (u32 \<times> mem) option" where
  "depth_loop mem p nm depth =
     (if nm ! 0 \<noteq> 0 then
        let nm = replicate MAX_FILE_NAME_LEN 0
        in if p \<noteq> NULL then
             Option.bind (path_parse mem p nm) (\<lambda>(p, mem, nm). depth_loop mem p nm (depth + 1))
           else depth_loop mem p nm (depth + 1)
      else Some (depth, mem))"

definition path_depth_cnt :: "u8 list \<Rightarrow> mem \<Rightarrow> addr \<Rightarrow> (u32 \<times> mem) option" where
  "path_depth_cnt junk mem pathname = do {
     ASSERT (pathname \<noteq> NULL);
     ASSERT (length junk = MAX_FILE_NAME_LEN);  \<comment> \<open>the size of the local array\<close>
     (p, mem, nm) \<leftarrow> path_parse mem pathname junk;
     depth_loop mem p nm 0 }"

subsection \<open>Walking\<close>

record path_search_record =
  searched_path :: "u8 list"
  parent_dir :: dir_ref
  file_type :: u32

definition zero_record :: path_search_record where
  "zero_record = \<lparr>searched_path = replicate MAX_PATH_LEN 0, parent_dir = Root_dir, file_type = 0\<rparr>"

text \<open>\<open>strcat\<close> with the two strings in different objects, each at its beginning.\<close>

definition str_cat :: "u8 list \<Rightarrow> u8 list \<Rightarrow> u8 list option" where
  "str_cat dst src = do {
     e \<leftarrow> str_past dst 0;
     n \<leftarrow> str_past src 0;
     bs \<leftarrow> get_buf src 0 n;
     put_buf dst (e - 1) bs }"

definition is_root_path :: "mem \<Rightarrow> addr \<Rightarrow> bool option" where
  "is_root_path mem pathname = do {
     r \<leftarrow> strcmp_loop mem pathname [slash, 0] 0;
     if r = 0 then Some True
     else do {
       r \<leftarrow> strcmp_loop mem pathname [slash, 0x2e, 0] 0;
       if r = 0 then Some True
       else do {
         r \<leftarrow> strcmp_loop mem pathname [slash, 0x2e, 0x2e, 0] 0;
         Some (r = 0) } } }"

text \<open>What the loop of \<open>search_file\<close> leaves: a return value, or the end of the path.\<close>

datatype walk_result = Walk_return u32 | Walk_end u32 dir_entry

partial_function (option) search_loop ::
  "mem \<Rightarrow> addr \<Rightarrow> u8 list \<Rightarrow> dir_ref \<Rightarrow> u32 \<Rightarrow> dir_entry \<Rightarrow> path_search_record \<Rightarrow> 'z fs_state_scheme \<Rightarrow>
   ((walk_result \<times> path_search_record \<times> mem) \<times> 'z fs_state_scheme) option" where
  "search_loop mem sub_path nm parent parent_inode_no e r s =
     (if nm ! 0 \<noteq> 0 then
        Option.bind (str_past (searched_path r) 0) (\<lambda>n.
        if \<not> n - 1 < 512 then None
        else Option.bind (str_cat (searched_path r) [slash, 0]) (\<lambda>sp.
        Option.bind (str_cat sp nm) (\<lambda>sp.
        let r = r\<lparr>searched_path := sp\<rparr> in
        Option.bind (search_dir_entry (cur_part s) parent nm e s) (\<lambda>((found, e), s).
        if \<not> found then Some ((Walk_return (-1), r, mem), s)
        else
          let nm = replicate MAX_FILE_NAME_LEN 0 in
          Option.bind (if sub_path \<noteq> NULL then path_parse mem sub_path nm else Some (sub_path, mem, nm))
            (\<lambda>(sub_path, mem, nm).
          if f_type e = FT_DIRECTORY then
            Option.bind (dir_inode_of parent s) (\<lambda>ino.
            Option.bind (dir_close parent s) (\<lambda>s.
            Option.bind (dir_open (cur_part s) (entry_i_no e) s) (\<lambda>(d, s).
              search_loop mem sub_path nm d (i_no ino) e (r\<lparr>parent_dir := d\<rparr>) s)))
          else if f_type e = FT_REGULAR then
            Some ((Walk_return (entry_i_no e), r\<lparr>file_type := FT_REGULAR\<rparr>, mem), s)
          else search_loop mem sub_path nm parent parent_inode_no e r s)))))
      else Some ((Walk_end parent_inode_no e, r, mem), s))"

definition search_file ::
  "dir_entry \<Rightarrow> mem \<Rightarrow> addr \<Rightarrow> path_search_record \<Rightarrow> 'z fs_state_scheme \<Rightarrow>
   ((u32 \<times> path_search_record \<times> mem) \<times> 'z fs_state_scheme) option" where
  "search_file junk mem pathname r s = do {
     root \<leftarrow> is_root_path mem pathname;
     if root then do {
       sp \<leftarrow> wr (searched_path r) 0 0;
       Some ((0, r\<lparr>parent_dir := Root_dir, file_type := FT_DIRECTORY, searched_path := sp\<rparr>, mem), s) }
     else do {
       path_len \<leftarrow> strlen mem pathname;
       c \<leftarrow> rd mem pathname;
       ASSERT (c = slash \<and> path_len > 1 \<and> path_len < MAX_PATH_LEN);
       let r = r\<lparr>parent_dir := Root_dir, file_type := FT_UNKNOWN\<rparr>;
       (sub_path, mem, nm) \<leftarrow> path_parse mem pathname (replicate MAX_FILE_NAME_LEN 0);
       ((w, r, mem), s) \<leftarrow> search_loop mem sub_path nm Root_dir 0 junk r s;
       case w of
         Walk_return v \<Rightarrow> Some ((v, r, mem), s)
       | Walk_end parent_inode_no e \<Rightarrow> do {
           s \<leftarrow> dir_close (parent_dir r) s;
           (d, s) \<leftarrow> dir_open (cur_part s) parent_inode_no s;
           Some ((entry_i_no e, r\<lparr>parent_dir := d, file_type := FT_DIRECTORY\<rparr>, mem), s) } } }"

end
