(* ===== verification/Fs_Calls.thy ===== *)
theory Fs_Calls
  imports Fs_Path
begin

text \<open>
  The system calls of \<open>fs/fs.c\<close>. A path argument is a memory and an address in it; the calls change its
  first character (see \<open>path_parse\<close>), and the changed memory goes with them. \<open>jn\<close>, \<open>je\<close> and \<open>jb\<close> stand for
  the contents of local variables that are read before they are set: the name array of \<open>path_depth_cnt\<close>,
  the directory entry of \<open>search_file\<close>, and the block index of \<open>file_write\<close>. Messages are left out.
\<close>

unbundle bit_operations_syntax

subsection \<open>Descriptors\<close>

definition fd_local2global :: "u32 \<Rightarrow> 'z ide_state_scheme \<Rightarrow> u32 option" where
  "fd_local2global local_fd s = do {
     cur \<leftarrow> tasks (kern s) (running (kern s));
     global_fd \<leftarrow> rd (fd_table cur) (unat local_fd);
     ASSERT (0 \<le> sint global_fd \<and> sint global_fd < int MAX_FILE_OPEN);
     Some global_fd }"

definition sys_close :: "u32 \<Rightarrow> 'z fs_state_scheme \<Rightarrow> (u32 \<times> 'z fs_state_scheme) option" where
  "sys_close fd s =
     (if sint fd > 2 then do {
        g \<leftarrow> fd_local2global fd s;
        (ret, s) \<leftarrow> file_close (Some (unat g)) s;
        k \<leftarrow> upd_task (running (kern s)) (\<lambda>p. p\<lparr>fd_table := (fd_table p)[unat fd := -1]\<rparr>) (kern s);
        Some (ret, s\<lparr>kern := k\<rparr>) }
      else Some (-1, s))"

text \<open>The result is the return value and what goes to the console.\<close>

definition sys_write ::
  "nat \<Rightarrow> u32 \<Rightarrow> u8 list \<Rightarrow> u32 \<Rightarrow> 'z fs_state_scheme \<Rightarrow> ((u32 \<times> u8 list) \<times> 'z fs_state_scheme) option" where
  "sys_write jb fd buf count s =
     (if sint fd < 0 then Some ((-1, []), s)
      else if fd = 1 then do {
        bs \<leftarrow> get_buf buf 0 (unat count);
        tmp_buf \<leftarrow> put_buf (replicate 1024 0) 0 bs;
        n \<leftarrow> str_past tmp_buf 0;
        Some ((count, take (n - 1) tmp_buf), s) }
      else do {
        g \<leftarrow> fd_local2global fd s;
        v \<leftarrow> rd (file_table s) (unat g);
        if fd_flag v AND ucast O_WRONLY \<noteq> 0 \<or> fd_flag v AND ucast O_RDWR \<noteq> 0 then do {
          (r, s) \<leftarrow> file_write jb (unat g) buf count s;
          Some ((r, []), s) }
        else Some ((-1, []), s) })"

text \<open>\<open>sys_read\<close> for a descriptor that is not the standard input.\<close>

definition sys_read_file ::
  "u32 \<Rightarrow> u8 list \<Rightarrow> u32 \<Rightarrow> 'z fs_state_scheme \<Rightarrow> ((u32 \<times> u8 list) \<times> 'z fs_state_scheme) option" where
  "sys_read_file fd buf count s =
     (if sint fd < 0 \<or> fd = 1 \<or> fd = 2 then Some ((-1, buf), s)
      else do {
        g \<leftarrow> fd_local2global fd s;
        file_read (unat g) buf count s })"

text \<open>\<open>SEEK_SET\<close>, \<open>SEEK_CUR\<close> and \<open>SEEK_END\<close> are 1, 2 and 3.\<close>

definition sys_lseek :: "u32 \<Rightarrow> u32 \<Rightarrow> u8 \<Rightarrow> 'z fs_state_scheme \<Rightarrow> (u32 \<times> 'z fs_state_scheme) option" where
  "sys_lseek fd offset whence s =
     (if sint fd < 0 then Some (-1, s)
      else do {
        ASSERT (whence > 0 \<and> whence < 4);
        g \<leftarrow> fd_local2global fd s;
        pf \<leftarrow> rd (file_table s) (unat g);
        ino \<leftarrow> inodes s (fd_inode pf);
        let file_size = i_size ino;
        let new_pos = (if whence = 1 then offset
                       else if whence = 2 then fd_pos pf + offset
                       else file_size + offset);
        if sint new_pos < 0 \<or> sint new_pos > sint (file_size - 1) then Some (-1, s)
        else do {
          s \<leftarrow> upd_file (unat g) (\<lambda>v. v\<lparr>fd_pos := new_pos\<rparr>) s;
          Some (new_pos, s) } })"

subsection \<open>Files\<close>

definition sys_open ::
  "u8 list \<Rightarrow> dir_entry \<Rightarrow> mem \<Rightarrow> addr \<Rightarrow> u8 \<Rightarrow> 'z fs_state_scheme \<Rightarrow> ((u32 \<times> mem) \<times> 'z fs_state_scheme) option" where
  "sys_open jn je mem pathname flags s = do {
     n \<leftarrow> strlen mem pathname;
     c \<leftarrow> rd mem (pathname + n - 1);
     if c = slash then Some ((-1, mem), s)
     else do {
       ASSERT (flags \<le> 7);
       (pathname_depth, mem) \<leftarrow> path_depth_cnt jn mem pathname;
       ((inode_no, r, mem), s) \<leftarrow> search_file je mem pathname zero_record s;
       let found = (inode_no \<noteq> -1);
       if file_type r = FT_DIRECTORY then do {
         s \<leftarrow> dir_close (parent_dir r) s;
         Some ((-1, mem), s) }
       else do {
         (path_searched_depth, sp) \<leftarrow> path_depth_cnt jn (0 # searched_path r) 1;
         if pathname_depth \<noteq> path_searched_depth then do {
           s \<leftarrow> dir_close (parent_dir r) s;
           Some ((-1, mem), s) }
         else if \<not> found \<and> flags AND O_CREAT = 0 then do {
           s \<leftarrow> dir_close (parent_dir r) s;
           Some ((-1, mem), s) }
         else if found \<and> flags AND O_CREAT \<noteq> 0 then do {
           s \<leftarrow> dir_close (parent_dir r) s;
           Some ((-1, mem), s) }
         else if flags AND O_CREAT = O_CREAT then do {
           p \<leftarrow> strrchr mem pathname slash;
           (fd, s) \<leftarrow> file_create (parent_dir r) mem (p + 1) flags s;
           s \<leftarrow> dir_close (parent_dir r) s;
           Some ((fd, mem), s) }
         else do {
           (fd, s) \<leftarrow> file_open inode_no flags s;
           Some ((fd, mem), s) } } } }"

definition in_use :: "u32 \<Rightarrow> 'z fs_state_scheme \<Rightarrow> bool option" where
  "in_use inode_no s =
     fold (\<lambda>f acc. do {
        b \<leftarrow> acc;
        if b \<or> fd_inode f = 0 then Some b
        else do { ino \<leftarrow> inodes s (fd_inode f); Some (i_no ino = inode_no) } }) (file_table s) (Some False)"

definition sys_unlink :: "dir_entry \<Rightarrow> mem \<Rightarrow> addr \<Rightarrow> 'z fs_state_scheme \<Rightarrow> ((u32 \<times> mem) \<times> 'z fs_state_scheme) option" where
  "sys_unlink je mem pathname s = do {
     n \<leftarrow> strlen mem pathname;
     ASSERT (n < MAX_PATH_LEN);
     ((inode_no, r, mem), s) \<leftarrow> search_file je mem pathname zero_record s;
     ASSERT (inode_no \<noteq> 0);
     if inode_no = -1 then do {
       s \<leftarrow> dir_close (parent_dir r) s;
       Some ((-1, mem), s) }
     else if file_type r = FT_DIRECTORY then do {
       s \<leftarrow> dir_close (parent_dir r) s;
       Some ((-1, mem), s) }
     else do {
       busy \<leftarrow> in_use inode_no s;
       if busy then do {
         s \<leftarrow> dir_close (parent_dir r) s;
         Some ((-1, mem), s) }
       else do {
         (io_buf, s) \<leftarrow> fs_malloc (512 + 512) s;
         if io_buf = 0 then do {
           s \<leftarrow> dir_close (parent_dir r) s;
           Some ((-1, mem), s) }
         else do {
           (ok, s) \<leftarrow> delete_dir_entry (cur_part s) (parent_dir r) inode_no (replicate 1024 0) s;
           s \<leftarrow> inode_release (cur_part s) inode_no s;
           s \<leftarrow> fs_free io_buf s;
           s \<leftarrow> dir_close (parent_dir r) s;
           Some ((0, mem), s) } } } }"

subsection \<open>Directories\<close>

text \<open>The roll back frees nothing: it hands the buffer's address to \<open>sys_close\<close>.\<close>

definition mkdir_rollback ::
  "nat \<Rightarrow> u32 \<Rightarrow> u32 \<Rightarrow> path_search_record \<Rightarrow> 'z fs_state_scheme \<Rightarrow> (u32 \<times> 'z fs_state_scheme) option" where
  "mkdir_rollback step inode_no io_buf r s = do {
     s \<leftarrow> (if step = 2 then do {
             m \<leftarrow> bitmap_set (inode_bitmap (parts s (cur_part s))) (unat inode_no) 0;
             Some (upd_part (cur_part s) (\<lambda>p. p\<lparr>inode_bitmap := m\<rparr>) s) } else Some s);
     s \<leftarrow> (if step = 2 \<or> step = 1 then dir_close (parent_dir r) s else Some s);
     (ret, s) \<leftarrow> sys_close io_buf s;
     Some (-1, s) }"

definition dot_entries :: "u32 \<Rightarrow> u32 \<Rightarrow> u8 list" where
  "dot_entries self parent =
     entry_bytes \<lparr>filename = [0x2e] @ replicate 15 0, entry_i_no = self, f_type = FT_DIRECTORY\<rparr> @
     entry_bytes \<lparr>filename = [0x2e, 0x2e] @ replicate 14 0, entry_i_no = parent, f_type = FT_DIRECTORY\<rparr>"

text \<open>The part of \<open>sys_mkdir\<close> after the path has been checked; \<open>dirname\<close> points into \<open>searched_path\<close>.\<close>

definition make_dir ::
  "u32 \<Rightarrow> path_search_record \<Rightarrow> 'z fs_state_scheme \<Rightarrow> (u32 \<times> 'z fs_state_scheme) option" where
  "make_dir io_addr r s = do {
     p \<leftarrow> strrchr (0 # searched_path r) 1 slash;
     (inode_no, s) \<leftarrow> inode_bitmap_alloc (cur_part s) s;
     if inode_no = -1 then mkdir_rollback 1 inode_no io_addr r s
     else do {
       let new_dir_inode = inode_init inode_no zero_inode;
       b \<leftarrow> sb (parts s (cur_part s));
       let dk = my_disk (parts s (cur_part s));
       (block_lba, s) \<leftarrow> block_bitmap_alloc (cur_part s) s;
       if block_lba = -1 then mkdir_rollback 2 inode_no io_addr r s
       else do {
         let new_dir_inode = new_dir_inode\<lparr>i_sectors := (i_sectors new_dir_inode)[0 := block_lba]\<rparr>;
         ASSERT (block_lba - data_start_lba b > 0);
         s \<leftarrow> bitmap_sync (cur_part s) (block_lba - data_start_lba b) BLOCK_BITMAP s;
         parent \<leftarrow> dir_inode_of (parent_dir r) s;
         io_buf \<leftarrow> put_buf (replicate 1024 0) 0 (dot_entries inode_no (i_no parent));
         s \<leftarrow> ide_write dk block_lba io_buf 1 s;
         let new_dir_inode = new_dir_inode\<lparr>i_size := 2 * dir_entry_size b\<rparr>;
         e \<leftarrow> create_dir_entry (0 # searched_path r) (p + 1) inode_no FT_DIRECTORY zero_entry;
         (ok, io_buf, s) \<leftarrow> sync_dir_entry (parent_dir r) (entry_bytes e) (replicate 1024 0) s;
         if \<not> ok then mkdir_rollback 2 inode_no io_addr r s
         else do {
           parent \<leftarrow> dir_inode_of (parent_dir r) s;
           (io_buf, s) \<leftarrow> inode_sync (cur_part s) parent (replicate 1024 0) s;
           (io_buf, s) \<leftarrow> inode_sync (cur_part s) new_dir_inode (replicate 1024 0) s;
           s \<leftarrow> bitmap_sync (cur_part s) inode_no INODE_BITMAP s;
           s \<leftarrow> fs_free io_addr s;
           s \<leftarrow> dir_close (parent_dir r) s;
           Some (0, s) } } } }"

definition sys_mkdir ::
  "u8 list \<Rightarrow> dir_entry \<Rightarrow> mem \<Rightarrow> addr \<Rightarrow> 'z fs_state_scheme \<Rightarrow> ((u32 \<times> mem) \<times> 'z fs_state_scheme) option" where
  "sys_mkdir jn je mem pathname s = do {
     (io_addr, s) \<leftarrow> fs_malloc (512 * 2) s;
     if io_addr = 0 then Some ((-1, mem), s)
     else do {
       ((inode_no, r, mem), s) \<leftarrow> search_file je mem pathname zero_record s;
       if inode_no \<noteq> -1 then do {
         (ret, s) \<leftarrow> mkdir_rollback 1 inode_no io_addr r s;
         Some ((ret, mem), s) }
       else do {
         (pathname_depth, mem) \<leftarrow> path_depth_cnt jn mem pathname;
         (path_searched_depth, sp) \<leftarrow> path_depth_cnt jn (0 # searched_path r) 1;
         (ret, s) \<leftarrow> (if pathname_depth \<noteq> path_searched_depth then mkdir_rollback 1 inode_no io_addr r s
                      else make_dir io_addr (r\<lparr>searched_path := tl sp\<rparr>) s);
         Some ((ret, mem), s) } } }"

definition sys_opendir ::
  "dir_entry \<Rightarrow> mem \<Rightarrow> addr \<Rightarrow> 'z fs_state_scheme \<Rightarrow> ((dir_ref option \<times> mem) \<times> 'z fs_state_scheme) option" where
  "sys_opendir je mem nm s = do {
     n \<leftarrow> strlen mem nm;
     ASSERT (n < MAX_FILE_NAME_LEN);
     c0 \<leftarrow> rd mem nm;
     c1 \<leftarrow> (if c0 = slash then rd mem (nm + 1) else Some 1);
     if c0 = slash \<and> (c1 = 0 \<or> c1 = 0x2e) then Some ((Some Root_dir, mem), s)
     else do {
       ((inode_no, r, mem), s) \<leftarrow> search_file je mem nm zero_record s;
       (ret, s) \<leftarrow> (if inode_no = -1 \<or> file_type r = FT_REGULAR \<or> file_type r \<noteq> FT_DIRECTORY then Some (None, s)
                    else do { (d, s) \<leftarrow> dir_open (cur_part s) inode_no s; Some (Some d, s) });
       s \<leftarrow> dir_close (parent_dir r) s;
       Some ((ret, mem), s) } }"

definition sys_closedir :: "dir_ref option \<Rightarrow> 'z fs_state_scheme \<Rightarrow> (u32 \<times> 'z fs_state_scheme) option" where
  "sys_closedir d s = (case d of None \<Rightarrow> Some (-1, s) | Some d \<Rightarrow> do { s \<leftarrow> dir_close d s; Some (0, s) })"

definition sys_readdir :: "dir_ref option \<Rightarrow> 'z fs_state_scheme \<Rightarrow> (nat option \<times> 'z fs_state_scheme) option" where
  "sys_readdir d s = do { d \<leftarrow> d; dir_read d s }"

definition sys_rewinddir :: "dir_ref \<Rightarrow> 'z fs_state_scheme \<Rightarrow> 'z fs_state_scheme option" where
  "sys_rewinddir d s = do { v \<leftarrow> the_dir d s; Some (set_dir d (v\<lparr>dir_pos := 0\<rparr>) s) }"

definition sys_rmdir :: "dir_entry \<Rightarrow> mem \<Rightarrow> addr \<Rightarrow> 'z fs_state_scheme \<Rightarrow> ((u32 \<times> mem) \<times> 'z fs_state_scheme) option" where
  "sys_rmdir je mem pathname s = do {
     ((inode_no, r, mem), s) \<leftarrow> search_file je mem pathname zero_record s;
     ASSERT (inode_no \<noteq> 0);
     (retval, s) \<leftarrow> (if inode_no = -1 then Some (-1, s)
       else do {
         (d, s) \<leftarrow> dir_open (cur_part s) inode_no s;
         empty \<leftarrow> dir_is_empty d s;
         (retval, s) \<leftarrow> (if \<not> empty then Some (-1, s)
           else do {
             (v, s) \<leftarrow> dir_remove (parent_dir r) d s;
             Some (if v = 0 then 0 else -1, s) });
         s \<leftarrow> dir_close d s;
         Some (retval, s) });
     s \<leftarrow> dir_close (parent_dir r) s;
     Some ((retval, mem), s) }"

subsection \<open>The working directory\<close>

definition get_parent_dir_inode_nr :: "u32 \<Rightarrow> u8 list \<Rightarrow> 'z fs_state_scheme \<Rightarrow> ((u32 \<times> u8 list) \<times> 'z fs_state_scheme) option" where
  "get_parent_dir_inode_nr child_inode_nr io_buf s = do {
     (a, s) \<leftarrow> inode_open (cur_part s) child_inode_nr s;
     ino \<leftarrow> inodes s a;
     let block_lba = i_sectors ino ! 0;
     b \<leftarrow> sb (parts s (cur_part s));
     ASSERT (block_lba \<ge> data_start_lba b);
     s \<leftarrow> inode_close a s;
     (d, s) \<leftarrow> ide_read (my_disk (parts s (cur_part s))) block_lba 1 s;
     io_buf \<leftarrow> put_buf io_buf 0 d;
     e \<leftarrow> dir_e io_buf 1;
     ASSERT (entry_i_no e < 4096 \<and> f_type e = FT_DIRECTORY);
     Some ((entry_i_no e, io_buf), s) }"

fun entry_with_number :: "u8 list \<Rightarrow> u32 \<Rightarrow> nat \<Rightarrow> nat \<Rightarrow> nat option option" where
  "entry_with_number buf inode_no i 0 = Some None"
| "entry_with_number buf inode_no i (Suc n) = do {
     e \<leftarrow> dir_e buf i;
     if entry_i_no e = inode_no then Some (Some i) else entry_with_number buf inode_no (i + 1) n }"

text \<open>The loop over the blocks: the path with the name found added to it, or \<open>None\<close>.\<close>

fun child_name_blocks ::
  "u32 \<Rightarrow> nat \<Rightarrow> u32 list \<Rightarrow> u8 list \<Rightarrow> u8 list \<Rightarrow> 'z fs_state_scheme \<Rightarrow>
   ((u8 list option \<times> u8 list) \<times> 'z fs_state_scheme) option" where
  "child_name_blocks c_inode_nr esz [] path io_buf s = Some ((None, io_buf), s)"
| "child_name_blocks c_inode_nr esz (b # bs) path io_buf s =
     (if b = 0 then child_name_blocks c_inode_nr esz bs path io_buf s
      else do {
        (d, s) \<leftarrow> ide_read (my_disk (parts s (cur_part s))) b 1 s;
        io_buf \<leftarrow> put_buf io_buf 0 d;
        r \<leftarrow> entry_with_number io_buf c_inode_nr 0 (512 div esz);
        case r of
          None \<Rightarrow> child_name_blocks c_inode_nr esz bs path io_buf s
        | Some i \<Rightarrow> do {
            path \<leftarrow> str_cat path [slash, 0];
            path \<leftarrow> str_cat path (drop (sizeof_entry * i) io_buf);
            Some ((Some path, io_buf), s) } })"

definition get_child_dir_name ::
  "u32 \<Rightarrow> u32 \<Rightarrow> u8 list \<Rightarrow> u8 list \<Rightarrow> 'z fs_state_scheme \<Rightarrow>
   ((u8 list option \<times> u8 list) \<times> 'z fs_state_scheme) option" where
  "get_child_dir_name p_inode_nr c_inode_nr path io_buf s = do {
     (a, s) \<leftarrow> inode_open (cur_part s) p_inode_nr s;
     ino \<leftarrow> inodes s a;
     (all_blocks, s) \<leftarrow> read_blocks (cur_part s) ino s;
     let block_cnt = (if i_sectors ino ! 12 \<noteq> 0 then 140 else 12);
     s \<leftarrow> inode_close a s;
     esz \<leftarrow> entry_size (cur_part s) s;
     child_name_blocks c_inode_nr esz (take block_cnt all_blocks) path io_buf s }"

text \<open>The way up to the root: the reversed path, or \<open>None\<close> if a name was not found.\<close>

partial_function (option) cwd_loop ::
  "u32 \<Rightarrow> u8 list \<Rightarrow> u8 list \<Rightarrow> 'z fs_state_scheme \<Rightarrow> (u8 list option \<times> 'z fs_state_scheme) option" where
  "cwd_loop child_inode_nr full_path_reverse io_buf s =
     (if child_inode_nr \<noteq> 0 then
        Option.bind (get_parent_dir_inode_nr child_inode_nr io_buf s) (\<lambda>((parent_inode_nr, io_buf), s).
        Option.bind (get_child_dir_name parent_inode_nr child_inode_nr full_path_reverse io_buf s) (\<lambda>((r, io_buf), s).
          case r of
            None \<Rightarrow> Some (None, s)
          | Some full_path_reverse \<Rightarrow> cwd_loop parent_inode_nr full_path_reverse io_buf s))
      else Some (Some full_path_reverse, s))"

text \<open>
  The loop that turns the names round. \<open>full\<close> has a byte before the array so that no position in it is
  the null pointer; \<open>len\<close> is a 16-bit number.
\<close>

partial_function (option) unreverse :: "u8 list \<Rightarrow> u8 list \<Rightarrow> u8 list option" where
  "unreverse full buf =
     Option.bind (strrchr full 1 slash) (\<lambda>last_slash.
     if last_slash \<noteq> NULL then
       Option.bind (str_past buf 0) (\<lambda>n.
       let len = unat (word_of_nat (n - 1) :: u16)
       in Option.bind (str_past full last_slash) (\<lambda>e.
          Option.bind (get_buf full last_slash (e - last_slash)) (\<lambda>bs.
          Option.bind (put_buf buf len bs) (\<lambda>buf.
          Option.bind (wr full last_slash 0) (\<lambda>full. unreverse full buf)))))
     else Some buf)"

text \<open>
  \<open>buf\<close> is the caller's buffer of \<open>sz\<close> bytes; the result is whether \<open>buf\<close> is returned (or \<open>NULL\<close>), and the
  buffer after the call.
\<close>

definition sys_getcwd ::
  "u8 list \<Rightarrow> u32 \<Rightarrow> 'z fs_state_scheme \<Rightarrow> ((bool \<times> u8 list) \<times> 'z fs_state_scheme) option" where
  "sys_getcwd buf sz s = do {
     (io_addr, s) \<leftarrow> fs_malloc 512 s;
     if io_addr = 0 then Some ((False, buf), s)
     else do {
       cur \<leftarrow> tasks (kern s) (running (kern s));
       let child_inode_nr = cwd_inode_nr cur;
       ASSERT (sint child_inode_nr \<ge> 0 \<and> sint child_inode_nr < 4096);
       if child_inode_nr = 0 then do {
         buf \<leftarrow> put_buf buf 0 [slash, 0];
         Some ((True, buf), s) }
       else do {
         buf \<leftarrow> put_buf buf 0 (replicate (unat sz) 0);
         (r, s) \<leftarrow> cwd_loop child_inode_nr (replicate MAX_PATH_LEN 0) (replicate 512 0) s;
         case r of
           None \<Rightarrow> do { s \<leftarrow> fs_free io_addr s; Some ((False, buf), s) }
         | Some full_path_reverse \<Rightarrow> do {
             n \<leftarrow> str_past full_path_reverse 0;
             ASSERT (n - 1 \<le> unat sz);
             buf \<leftarrow> unreverse (0 # full_path_reverse) buf;
             s \<leftarrow> fs_free io_addr s;
             Some ((True, buf), s) } } } }"

definition sys_chdir :: "dir_entry \<Rightarrow> mem \<Rightarrow> addr \<Rightarrow> 'z fs_state_scheme \<Rightarrow> ((u32 \<times> mem) \<times> 'z fs_state_scheme) option" where
  "sys_chdir je mem path s = do {
     ((inode_no, r, mem), s) \<leftarrow> search_file je mem path zero_record s;
     (ret, s) \<leftarrow> (if inode_no \<noteq> -1 \<and> file_type r = FT_DIRECTORY then do {
         k \<leftarrow> upd_task (running (kern s)) (\<lambda>p. p\<lparr>cwd_inode_nr := inode_no\<rparr>) (kern s);
         Some (0, s\<lparr>kern := k\<rparr>) }
       else Some (-1, s));
     s \<leftarrow> dir_close (parent_dir r) s;
     Some ((ret, mem), s) }"

record stat =
  st_ino :: u32
  st_size :: u32
  st_filetype :: u32

definition sys_stat ::
  "dir_entry \<Rightarrow> mem \<Rightarrow> addr \<Rightarrow> stat \<Rightarrow> 'z fs_state_scheme \<Rightarrow> ((u32 \<times> stat \<times> mem) \<times> 'z fs_state_scheme) option" where
  "sys_stat je mem path sbuf s = do {
     root \<leftarrow> is_root_path mem path;
     if root then do {
       ino \<leftarrow> dir_inode_of Root_dir s;
       Some ((0, \<lparr>st_ino = 0, st_size = i_size ino, st_filetype = FT_DIRECTORY\<rparr>, mem), s) }
     else do {
       ((inode_no, r, mem), s) \<leftarrow> search_file je mem path zero_record s;
       (ret, sbuf, s) \<leftarrow> (if inode_no \<noteq> -1 then do {
           (a, s) \<leftarrow> inode_open (cur_part s) inode_no s;
           ino \<leftarrow> inodes s a;
           s \<leftarrow> inode_close a s;
           Some (0, \<lparr>st_ino = inode_no, st_size = i_size ino, st_filetype = file_type r\<rparr>, s) }
         else Some (-1, sbuf, s));
       s \<leftarrow> dir_close (parent_dir r) s;
       Some ((ret, sbuf, mem), s) } }"

end
