(* ===== verification/Fs_Mount.thy ===== *)
theory Fs_Mount
  imports Fs_Calls
begin

text \<open>
  Making and mounting a file system: \<open>partition_format\<close>, \<open>mount_partition\<close> and \<open>filesys_init\<close> of \<open>fs/fs.c\<close>.
  The memory of \<open>sys_malloc\<close> is zero. \<open>pad\<close> is the padding of the super block on the stack, which is written to
  the disk as it is.
\<close>

unbundle bit_operations_syntax

definition FS_MAGIC :: u32 where "FS_MAGIC = 0x20050102"
definition MAX_FILES_PER_PART :: u32 where "MAX_FILES_PER_PART = 4096"
definition BITS_PER_SECTOR :: u32 where "BITS_PER_SECTOR = 4096"
definition SECTOR_SIZE :: u32 where "SECTOR_SIZE = 512"

definition super_block_bytes :: "super_block \<Rightarrow> u8 list \<Rightarrow> u8 list" where
  "super_block_bytes b pad = le32s [magic b, sb_sec_cnt b, inode_cnt b, part_lba_base b, block_bitmap_lba b,
     block_bitmap_sects b, inode_bitmap_lba b, inode_bitmap_sects b, inode_table_lba b, inode_table_sects b,
     data_start_lba b, root_inode_no b, dir_entry_size b] @ pad"

definition super_block_of :: "u8 list \<Rightarrow> super_block" where
  "super_block_of bs = (let w = u32s_of 13 bs in
     \<lparr>magic = w ! 0, sb_sec_cnt = w ! 1, inode_cnt = w ! 2, part_lba_base = w ! 3, block_bitmap_lba = w ! 4,
      block_bitmap_sects = w ! 5, inode_bitmap_lba = w ! 6, inode_bitmap_sects = w ! 7, inode_table_lba = w ! 8,
      inode_table_sects = w ! 9, data_start_lba = w ! 10, root_inode_no = w ! 11, dir_entry_size = w ! 12\<rparr>)"

subsection \<open>Formatting\<close>

text \<open>The bits of the block bitmap, and the super block, for a partition of \<open>cnt\<close> sectors from \<open>base\<close> on.\<close>

definition format_bit_len :: "u32 \<Rightarrow> u32" where
  "format_bit_len cnt =
     (let inode_bitmap_sects = DIV_ROUND_UP MAX_FILES_PER_PART BITS_PER_SECTOR;
          inode_table_sects = DIV_ROUND_UP (sizeof_inode * MAX_FILES_PER_PART) SECTOR_SIZE;
          used_sects = 1 + 1 + inode_bitmap_sects + inode_table_sects;
          free_sects = cnt - used_sects
      in free_sects - DIV_ROUND_UP free_sects BITS_PER_SECTOR)"

definition format_super_block :: "u32 \<Rightarrow> u32 \<Rightarrow> super_block" where
  "format_super_block base cnt =
     (let b_lba = base + 2;
          b_sects = DIV_ROUND_UP (format_bit_len cnt) BITS_PER_SECTOR;
          i_lba = b_lba + b_sects;
          i_sects = DIV_ROUND_UP MAX_FILES_PER_PART BITS_PER_SECTOR;
          t_lba = i_lba + i_sects;
          t_sects = DIV_ROUND_UP (sizeof_inode * MAX_FILES_PER_PART) SECTOR_SIZE
      in \<lparr>magic = FS_MAGIC, sb_sec_cnt = cnt, inode_cnt = MAX_FILES_PER_PART, part_lba_base = base,
          block_bitmap_lba = b_lba, block_bitmap_sects = b_sects, inode_bitmap_lba = i_lba,
          inode_bitmap_sects = i_sects, inode_table_lba = t_lba, inode_table_sects = t_sects,
          data_start_lba = t_lba + t_sects, root_inode_no = 0, dir_entry_size = word_of_nat sizeof_entry\<rparr>)"

text \<open>The loop that clears the bits from \<open>bit_idx\<close> to \<open>last_bit\<close>, the last one included.\<close>

partial_function (option) clear_bits :: "u8 list \<Rightarrow> nat \<Rightarrow> u8 \<Rightarrow> u8 \<Rightarrow> u8 list option" where
  "clear_bits buf i bit_idx last_bit =
     (if bit_idx \<le> last_bit then
        Option.bind (rd buf i) (\<lambda>v.
        Option.bind (wr buf i (v AND NOT (push_bit (unat bit_idx) 1))) (\<lambda>buf.
          clear_bits buf i (bit_idx + 1) last_bit))
      else Some buf)"

definition format_block_bitmap :: "u32 \<Rightarrow> nat \<Rightarrow> u8 list option" where
  "format_block_bitmap bit_len buf_size = do {
     let buf = replicate buf_size 0;
     v \<leftarrow> rd buf 0;
     buf \<leftarrow> wr buf 0 (v OR 1);
     let last_byte = unat (bit_len div 8);
     let last_bit = (ucast (bit_len mod 8) :: u8);
     let last_size = 512 - last_byte mod 512;
     buf \<leftarrow> put_buf buf last_byte (replicate last_size 0xff);
     clear_bits buf last_byte 0 last_bit }"

definition root_inode :: "super_block \<Rightarrow> inode" where
  "root_inode b = zero_inode\<lparr>i_size := dir_entry_size b * 2, i_no := 0,
     i_sectors := (i_sectors zero_inode)[0 := data_start_lba b]\<rparr>"

text \<open>Steps 2 to 5: the two bitmaps, the inode table and the root directory, from a buffer of \<open>buf_size\<close> bytes.\<close>

definition format_areas :: "super_block \<Rightarrow> u32 \<Rightarrow> disk_ref \<Rightarrow> nat \<Rightarrow> 'z fs_state_scheme \<Rightarrow> 'z fs_state_scheme option" where
  "format_areas b bit_len dk buf_size s = do {
     buf \<leftarrow> format_block_bitmap bit_len buf_size;
     s \<leftarrow> ide_write dk (block_bitmap_lba b) buf (block_bitmap_sects b) s;
     let buf = replicate buf_size 0;
     v \<leftarrow> rd buf 0;
     buf \<leftarrow> wr buf 0 (v OR 1);
     s \<leftarrow> ide_write dk (inode_bitmap_lba b) buf (inode_bitmap_sects b) s;
     buf \<leftarrow> put_buf (replicate buf_size 0) 0 (inode_bytes (root_inode b));
     s \<leftarrow> ide_write dk (inode_table_lba b) buf (inode_table_sects b) s;
     buf \<leftarrow> put_buf (replicate buf_size 0) 0 (dot_entries 0 0);
     ide_write dk (data_start_lba b) buf 1 s }"

definition format_buf_size :: "super_block \<Rightarrow> u32" where
  "format_buf_size b = (let m = max (block_bitmap_sects b) (inode_bitmap_sects b)
     in max m (inode_table_sects b) * SECTOR_SIZE)"

definition partition_format :: "u8 list \<Rightarrow> part_ref \<Rightarrow> 'z fs_state_scheme \<Rightarrow> 'z fs_state_scheme option" where
  "partition_format pad part s = do {
     let p = parts s part;
     let b = format_super_block (start_lba p) (sec_cnt p);
     let dk = my_disk p;
     s \<leftarrow> ide_write dk (start_lba p + 1) (super_block_bytes b pad) 1 s;
     (addr, s) \<leftarrow> fs_malloc (format_buf_size b) s;
     if addr = 0 then None
     else do {
       s \<leftarrow> format_areas b (format_bit_len (sec_cnt p)) dk (unat (format_buf_size b)) s;
       fs_free addr s } }"

subsection \<open>Mounting\<close>

text \<open>A bitmap of \<open>sects\<close> sectors read from the disk.\<close>

definition load_bitmap :: "disk_ref \<Rightarrow> u32 \<Rightarrow> u32 \<Rightarrow> 'z fs_state_scheme \<Rightarrow> (bitmap \<times> 'z fs_state_scheme) option" where
  "load_bitmap dk lba sects s = do {
     (addr, s) \<leftarrow> fs_malloc (sects * SECTOR_SIZE) s;
     ASSERT (addr \<noteq> 0);  \<comment> \<open>\<open>PANIC\<close>\<close>
     (d, s) \<leftarrow> ide_read dk lba sects s;
     Some (\<lparr>btmp_bytes_len = unat (sects * SECTOR_SIZE), bits = d\<rparr>, s) }"

definition mount_partition :: "part_ref \<Rightarrow> u8 list \<Rightarrow> 'z fs_state_scheme \<Rightarrow> (bool \<times> 'z fs_state_scheme) option" where
  "mount_partition part nm s = do {
     r \<leftarrow> strcmp_loop (part_name (parts s part)) 0 nm 0;
     if r = 0 then do {
       let s = s\<lparr>cur_part := part\<rparr>;
       let dk = my_disk (parts s part);
       (sb_buf, s) \<leftarrow> fs_malloc SECTOR_SIZE s;
       (sb_addr, s) \<leftarrow> fs_malloc 512 s;
       ASSERT (sb_addr \<noteq> 0);  \<comment> \<open>\<open>PANIC\<close>\<close>
       ASSERT (sb_buf \<noteq> 0);   \<comment> \<open>in \<open>memset\<close>\<close>
       (d, s) \<leftarrow> ide_read dk (start_lba (parts s part) + 1) 1 s;
       let b = super_block_of d;
       let s = upd_part part (\<lambda>p. p\<lparr>sb := Some b\<rparr>) s;
       (bm, s) \<leftarrow> load_bitmap dk (block_bitmap_lba b) (block_bitmap_sects b) s;
       let s = upd_part part (\<lambda>p. p\<lparr>block_bitmap := bm\<rparr>) s;
       (im, s) \<leftarrow> load_bitmap dk (inode_bitmap_lba b) (inode_bitmap_sects b) s;
       let s = upd_part part (\<lambda>p. p\<lparr>inode_bitmap := im, open_inodes := []\<rparr>) s;
       Some (True, s) }
     else Some (False, s) }"

text \<open>\<open>list_traversal\<close> with \<open>mount_partition\<close>: it stops at the first that returns true.\<close>

fun mount_traversal :: "part_ref list \<Rightarrow> u8 list \<Rightarrow> 'z fs_state_scheme \<Rightarrow> (part_ref option \<times> 'z fs_state_scheme) option" where
  "mount_traversal [] nm s = Some (None, s)"
| "mount_traversal (p # ps) nm s = do {
     (r, s) \<leftarrow> mount_partition p nm s;
     if r then Some (Some p, s) else mount_traversal ps nm s }"

definition check_partition :: "u8 list \<Rightarrow> part_ref \<Rightarrow> 'z fs_state_scheme \<Rightarrow> 'z fs_state_scheme option" where
  "check_partition pad part s =
     (let p = parts s part in
      if sec_cnt p \<noteq> 0 then do {
        (d, s) \<leftarrow> ide_read (my_disk p) (start_lba p + 1) 1 s;
        if magic (super_block_of d) = FS_MAGIC then Some s else partition_format pad part s }
      else Some s)"

definition next_part :: "part_ref \<Rightarrow> part_ref" where
  "next_part part = (case part of Prim_part d i \<Rightarrow> Prim_part d (i + 1) | Logic_part d i \<Rightarrow> Logic_part d (i + 1))"

text \<open>The loop over the partitions of a disk; \<open>n\<close> is how many are left to 12.\<close>

fun part_loop :: "u8 list \<Rightarrow> disk_ref \<Rightarrow> nat \<Rightarrow> nat \<Rightarrow> part_ref \<Rightarrow> 'z fs_state_scheme \<Rightarrow> (nat \<times> 'z fs_state_scheme) option" where
  "part_loop pad dk part_idx 0 part s = Some (part_idx, s)"
| "part_loop pad dk part_idx (Suc n) part s = do {
     let part = (if part_idx = 4 then Logic_part dk 0 else part);
     s \<leftarrow> check_partition pad part s;
     part_loop pad dk (part_idx + 1) n (next_part part) s }"

text \<open>
  The loop over the channels, of which only the slave is looked at. \<open>part_idx\<close> is set once, before it, and goes on
  from one disk to the next.
\<close>

fun channel_loop :: "u8 list \<Rightarrow> nat \<Rightarrow> nat \<Rightarrow> nat \<Rightarrow> 'z fs_state_scheme \<Rightarrow> 'z fs_state_scheme option" where
  "channel_loop pad channel_no part_idx 0 s = Some s"
| "channel_loop pad channel_no part_idx (Suc n) s = do {
     (part_idx, s) \<leftarrow> part_loop pad (channel_no, 1) part_idx (12 - part_idx) (Prim_part (channel_no, 1) 0) s;
     channel_loop pad (channel_no + 1) part_idx n s }"

definition default_part :: "u8 list" where
  "default_part = [0x73, 0x64, 0x62, 0x31, 0, 0, 0, 0]"  \<comment> \<open>\<open>"sdb1"\<close>\<close>

text \<open>\<open>cur_part\<close> is a null pointer until a partition is mounted, and then \<open>open_root_dir\<close> uses it.\<close>

definition filesys_init :: "u8 list \<Rightarrow> 'z fs_state_scheme \<Rightarrow> 'z fs_state_scheme option" where
  "filesys_init pad s = do {
     (sb_buf, s) \<leftarrow> fs_malloc SECTOR_SIZE s;
     ASSERT (sb_buf \<noteq> 0);  \<comment> \<open>\<open>PANIC\<close>\<close>
     s \<leftarrow> channel_loop pad 0 0 (unat (channel_cnt s)) s;
     s \<leftarrow> fs_free sb_buf s;
     (r, s) \<leftarrow> mount_traversal (partition_list s) default_part s;
     part \<leftarrow> r;
     s \<leftarrow> open_root_dir part s;
     Some (s\<lparr>file_table := map (\<lambda>v. v\<lparr>fd_inode := 0\<rparr>) (file_table s)\<rparr>) }"

end
