(* ===== verification/Fs_Demo.thy ===== *)
theory Fs_Demo
  imports Fs_Mount
begin

text \<open>
  A small mounted file system, on which the theorems about \<open>fs/\<close> are applied to concrete values: the slave of one channel
  holds a partition of 2000 sectors from sector 63 on, with its bitmaps in sectors 65 and 66, the inode table from 67 and
  the data from 675 on. The medium is all zeroes.
\<close>

definition demo_sb :: super_block where
  "demo_sb = \<lparr>magic = FS_MAGIC, sb_sec_cnt = 2000, inode_cnt = 4096, part_lba_base = 63, block_bitmap_lba = 65,
     block_bitmap_sects = 1, inode_bitmap_lba = 66, inode_bitmap_sects = 1, inode_table_lba = 67, inode_table_sects = 608,
     data_start_lba = 675, root_inode_no = 0, dir_entry_size = 24\<rparr>"

lemma demo_sb_simps [simp]:
  "block_bitmap_lba demo_sb = 65" "inode_bitmap_lba demo_sb = 66" "inode_table_lba demo_sb = 67"
  "data_start_lba demo_sb = 675" "dir_entry_size demo_sb = 24"
  by (simp_all add: demo_sb_def)

definition demo_bits :: "u8 list" where
  "demo_bits = 1 # replicate 511 0"

definition demo_part :: partition where
  "demo_part = demo_partition\<lparr>sb := Some demo_sb, block_bitmap := \<lparr>btmp_bytes_len = 512, bits = demo_bits\<rparr>,
     inode_bitmap := \<lparr>btmp_bytes_len = 512, bits = demo_bits\<rparr>\<rparr>"

lemma demo_part_simps [simp]:
  "sb demo_part = Some demo_sb" "my_disk demo_part = (0, 1)" "start_lba demo_part = 63" "sec_cnt demo_part = 2000"
  "block_bitmap demo_part = \<lparr>btmp_bytes_len = 512, bits = demo_bits\<rparr>"
  "inode_bitmap demo_part = \<lparr>btmp_bytes_len = 512, bits = demo_bits\<rparr>" "open_inodes demo_part = []"
  by (simp_all add: demo_part_def demo_partition_def)

definition demo_root :: part_ref where
  "demo_root = Prim_part (0, 1) 0"

definition demo_fs :: fs_state where
  "demo_fs = ide_state.extend (demo_ide\<lparr>parts := \<lambda>r. demo_part\<rparr>)
     (fs_state.fields demo_root Map.empty \<lparr>dir_inode = 0, dir_pos = 0, dir_buf = replicate 512 0\<rparr> Map.empty
        (replicate 32 \<lparr>fd_pos = 0, fd_flag = 0, fd_inode = 0\<rparr>))"

lemma demo_fs_simps [simp]:
  "kern demo_fs = demo_kern" "channels demo_fs = [demo_channel]" "media demo_fs = (\<lambda>dk n. replicate 512 0)"
  "ide_status demo_fs = (\<lambda>ch i. 0x58)" "parts demo_fs = (\<lambda>r. demo_part)" "cur_part demo_fs = demo_root"
  "inodes demo_fs = Map.empty" "dirs demo_fs = Map.empty"
  "file_table demo_fs = replicate 32 \<lparr>fd_pos = 0, fd_flag = 0, fd_inode = 0\<rparr>"
  by (simp_all add: demo_fs_def ide_state.defs fs_state.defs)

lemma demo_store: "store_ok (0, 1) demo_fs"
  using demo_ready by (simp add: store_ok_def disk_ready_def drive_ok_def whole_sectors_def)

lemma demo_table: "table_ok demo_root demo_sb demo_fs"
  using demo_store by (simp add: table_ok_def)

lemma demo_slot: "inode_slot demo_root demo_sb demo_fs n = replicate 76 0"
  by (simp add: inode_slot_def bs.byte_def map_replicate_const)

lemma demo_fs_ok: "\<exists>L. fs_ok demo_root demo_sb L 7 demo_fs"
proof -
  obtain L where L: "heap_ready demo_mem L 7" using demo_heap_ready by blast
  have "heap_ready demo_kern L 7"
    using L heap_ok_fields [of demo_kern demo_mem]
    by (simp add: heap_ready_def lock_free_def pages_left_def demo_kern_def lock_sema_def)
  then show ?thesis by (auto simp: fs_ok_def demo_table opens_ok_def)
qed

theorem inode_sync_roundtrip_witness:
  "\<exists>buf s'. inode_sync demo_root (zero_inode\<lparr>i_no := 6, i_size := 100, write_deny := True\<rparr>) (replicate 1024 0) demo_fs = Some (buf, s') \<and>
    disk_inode demo_root demo_sb s' 6 = zero_inode\<lparr>i_no := 6, i_size := 100\<rparr>"
  using inode_sync_roundtrip [OF demo_table, of "zero_inode\<lparr>i_no := 6, i_size := 100, write_deny := True\<rparr>" "replicate 1024 0"]
  by (auto simp: zero_inode_def inode_of_zeros)

theorem inode_sync_clobbers_witness:
  "\<exists>buf s'. inode_sync demo_root (zero_inode\<lparr>i_no := 256, i_size := 100\<rparr>) (replicate 1024 0) demo_fs = Some (buf, s') \<and>
    disk_inode demo_root demo_sb s' 0 = zero_inode\<lparr>i_no := 256, i_size := 100\<rparr>"
  using inode_sync_clobbers [OF demo_table, of "zero_inode\<lparr>i_no := 256, i_size := 100\<rparr>" "replicate 1024 0"]
  by (auto simp: zero_inode_def inode_of_zeros)

theorem inode_open_close_witness:
  "\<exists>a s' s''. inode_open demo_root 0 demo_fs = Some (a, s') \<and> opened demo_root s' 0 = Some 1 \<and>
    inode_close a s' = Some s'' \<and> opened demo_root s'' = opened demo_root demo_fs"
proof -
  obtain L where L: "fs_ok demo_root demo_sb L (Suc (Suc 5)) demo_fs" using demo_fs_ok by (auto simp: eval_nat_numeral)
  have i: "i_no (disk_inode demo_root demo_sb demo_fs 0) = word_of_nat 0"
    by (simp add: disk_inode_def demo_slot inode_of_zeros)
  have o: "opened demo_root demo_fs (word_of_nat 0) = None" by (simp add: opened_None)
  show ?thesis using inode_open_close [OF L _ i] o by auto
qed

end
