(* ===== verification/Fs_Blocks.thy ===== *)
theory Fs_Blocks
  imports Fs_Demo
begin

text \<open>
  Allocating a block of a mounted partition (\<open>block_bitmap_alloc\<close> and \<open>bitmap_sync\<close> of \<open>fs/file.c\<close>): what the callers
  in \<open>fs/\<close> get, and what \<open>bitmap_sync\<close> puts on the disk.
\<close>

text \<open>
  The block bitmap fills whole sectors, which lie before the data area, and every block it speaks of is on the disk.
\<close>

definition volume_ok :: "part_ref \<Rightarrow> super_block \<Rightarrow> 'z ide_state_scheme \<Rightarrow> bool" where
  "volume_ok part b s \<longleftrightarrow> store_ok (my_disk (parts s part)) s \<and> sb (parts s part) = Some b \<and>
     bm_wf (block_bitmap (parts s part)) \<and>
     (\<exists>n > 0. length (bits (block_bitmap (parts s part))) = n * 512 \<and> unat (block_bitmap_lba b) + n \<le> unat (data_start_lba b)) \<and>
     unat (data_start_lba b) + bm_size (block_bitmap (parts s part)) \<le> 163840"

definition used_block :: "part_ref \<Rightarrow> super_block \<Rightarrow> 'z ide_state_scheme \<Rightarrow> u32 \<Rightarrow> bool" where
  "used_block part b s a \<longleftrightarrow> unat (data_start_lba b) \<le> unat a \<and>
     unat a - unat (data_start_lba b) < bm_size (block_bitmap (parts s part)) \<and>
     bm_bit (block_bitmap (parts s part)) (unat a - unat (data_start_lba b))"

lemma write_sector_ok:
  assumes "store_ok dk s" and "unat lba < 163840" and "512 \<le> length bs"
  shows "\<exists>s'. ide_write dk lba bs 1 s = Some s' \<and> store_ok dk s' \<and> off_disk dk s' = off_disk dk s \<and>
    (\<forall>m. media s' dk m = (if m = unat lba then take 512 bs else media s dk m))"
proof -
  obtain s' where s': "ide_write dk lba bs 1 s = Some s'" "store_ok dk s'" "off_disk dk s' = off_disk dk s"
      "\<forall>m. media s' dk m = (if unat lba \<le> m \<and> m < unat lba + 1 then bytes_at ((m - unat lba) * 512) 512 bs else media s dk m)"
    using bs.write_ok [OF assms(1), of 1 "unat lba" bs] assms(2,3) by auto
  have "media s' dk m = (if m = unat lba then take 512 bs else media s dk m)" for m
    using s'(4) by (auto simp: bytes_at_def)
  with s' show ?thesis by blast
qed

text \<open>What one bitmap sync changes: a single sector, with 512 bytes of the block bitmap from byte \<open>off_sec\<close> on.\<close>

lemma bitmap_sync_ok:
  assumes "store_ok (my_disk (parts s part)) s" and "sb (parts s part) = Some b"
    and lba: "lba = (case btmp of INODE_BITMAP \<Rightarrow> inode_bitmap_lba b | BLOCK_BITMAP \<Rightarrow> block_bitmap_lba b)"
    and "unat lba + unat idx div 4096 < 163840" and "unat idx div 4096 + 512 \<le> length (bits (block_bitmap (parts s part)))"
  shows "\<exists>s'. bitmap_sync part idx btmp s = Some s' \<and> store_ok (my_disk (parts s part)) s' \<and>
    off_disk (my_disk (parts s part)) s' = off_disk (my_disk (parts s part)) s \<and>
    (\<forall>m. media s' (my_disk (parts s part)) m = (if m = unat lba + unat idx div 4096
       then bytes_at (unat idx div 4096) 512 (bits (block_bitmap (parts s part)))
       else media s (my_disk (parts s part)) m))"
proof -
  have q: "unat (idx div 4096) = unat idx div 4096" by (simp add: unat_div_distrib)
  have u: "unat (lba + idx div 4096) = unat lba + unat idx div 4096"
    by (subst unat_add_small) (use q assms(4) in simp_all)
  let ?bs = "bytes_at (unat idx div 4096) 512 (bits (block_bitmap (parts s part)))"
  have l: "length ?bs = 512" using assms(5) by simp
  obtain s' where "ide_write (my_disk (parts s part)) (lba + idx div 4096) ?bs 1 s = Some s'"
      "store_ok (my_disk (parts s part)) s'" "off_disk (my_disk (parts s part)) s' = off_disk (my_disk (parts s part)) s"
      "\<forall>m. media s' (my_disk (parts s part)) m = (if m = unat lba + unat idx div 4096 then take 512 ?bs
         else media s (my_disk (parts s part)) m)"
    using write_sector_ok [OF assms(1), of "lba + idx div 4096" ?bs] l assms(4) unfolding u by auto
  then show ?thesis
    using assms(2,3,5) l q by (cases btmp) (simp_all add: bitmap_sync_def Let_def)
qed

text \<open>
  \<open>bitmap_sync\<close> does not keep the inode bitmap. Asked for the inode bitmap it overwrites the sector of that bitmap
  with bytes of the block bitmap, whatever the inode bitmap holds; and for a bit beyond the first sector it takes them
  from byte \<open>off_sec\<close> on instead of \<open>off_sec * 512\<close>. Only the first sector of the block bitmap is written as it is.
\<close>

theorem bitmap_sync_wrong_bytes:
  assumes "store_ok (my_disk (parts s part)) s" and "sb (parts s part) = Some b"
    and "lba = (case btmp of INODE_BITMAP \<Rightarrow> inode_bitmap_lba b | BLOCK_BITMAP \<Rightarrow> block_bitmap_lba b)"
    and "unat lba + unat idx div 4096 < 163840" and "unat idx div 4096 + 512 \<le> length (bits (block_bitmap (parts s part)))"
  shows "\<exists>s'. bitmap_sync part idx btmp s = Some s' \<and> parts s' = parts s \<and>
    (\<forall>m. media s' (my_disk (parts s part)) m = (if m = unat lba + unat idx div 4096
       then bytes_at (unat idx div 4096) 512 (bits (block_bitmap (parts s part)))
       else media s (my_disk (parts s part)) m))"
  using bitmap_sync_ok [OF assms] off_disk_eq(2) by blast

theorem bitmap_sync_wrong_bytes_witness:
  "\<exists>s'. bitmap_sync demo_root 1 INODE_BITMAP (upd_part demo_root
      (\<lambda>p. p\<lparr>block_bitmap := \<lparr>btmp_bytes_len = 512, bits = replicate 512 7\<rparr>,
             inode_bitmap := \<lparr>btmp_bytes_len = 512, bits = replicate 512 3\<rparr>\<rparr>) demo_fs) = Some s' \<and>
    media s' (0, 1) 66 = replicate 512 7"
proof -
  let ?s = "upd_part demo_root (\<lambda>p. p\<lparr>block_bitmap := \<lparr>btmp_bytes_len = 512, bits = replicate 512 7\<rparr>,
             inode_bitmap := \<lparr>btmp_bytes_len = 512, bits = replicate 512 3\<rparr>\<rparr>) demo_fs"
  have "store_ok (my_disk (parts ?s demo_root)) ?s" using demo_store by simp
  from bitmap_sync_wrong_bytes [OF this, where b = demo_sb and lba = 66 and idx = 1 and btmp = INODE_BITMAP]
  show ?thesis by (auto simp: bytes_at_def)
qed

subsection \<open>Taking a block\<close>

text \<open>The block taken is the first free one; it is recorded in memory only.\<close>

lemma block_alloc_ok:
  assumes ok: "volume_ok part b s" and free: "\<exists>i < bm_size (block_bitmap (parts s part)). \<not> bm_bit (block_bitmap (parts s part)) i"
  shows "\<exists>lba m. block_bitmap_alloc part s = Some (lba, upd_part part (\<lambda>p. p\<lparr>block_bitmap := m\<rparr>) s) \<and> lba \<noteq> -1 \<and>
    unat (data_start_lba b) \<le> unat lba \<and> unat lba < 163840 \<and> \<not> used_block part b s lba \<and>
    volume_ok part b (upd_part part (\<lambda>p. p\<lparr>block_bitmap := m\<rparr>) s) \<and> length (bits m) = length (bits (block_bitmap (parts s part))) \<and>
    unat (lba - data_start_lba b) < bm_size m \<and> bm_size m = bm_size (block_bitmap (parts s part)) \<and>
    (\<forall>a. used_block part b (upd_part part (\<lambda>p. p\<lparr>block_bitmap := m\<rparr>) s) a \<longleftrightarrow> a = lba \<or> used_block part b s a)"
proof -
  let ?bm = "block_bitmap (parts s part)" let ?d = "unat (data_start_lba b)"
  have v: "bm_wf ?bm" "?d + bm_size ?bm \<le> 163840" "sb (parts s part) = Some b"
    using ok by (simp_all add: volume_ok_def)
  obtain i where i: "i < bm_size ?bm" "\<not> bm_bit ?bm i" using free by blast
  obtain k where k: "bitmap_scan ?bm 1 = Some (int k)" "k \<le> i" "\<not> bm_bit ?bm k"
    using bitmap_scan_one [OF v(1) i] by blast
  have kl: "k < bm_size ?bm" using k(2) i(1) by linarith
  have r: "j div 8 < length (bits ?bm)" if "j < bm_size ?bm" for j
    using that v(1) by (auto simp: bm_size_def bm_wf_def)
  obtain bs where bs: "bitmap_set ?bm k 1 = Some (?bm\<lparr>bits := bs\<rparr>)" "length bs = length (bits ?bm)"
      "\<forall>j. j div 8 < length (bits ?bm) \<longrightarrow> bm_bit (?bm\<lparr>bits := bs\<rparr>) j = (if j = k then True else bm_bit ?bm j)"
    using bitmap_set_one [OF r [OF kl], of 1] by auto
  let ?m = "?bm\<lparr>bits := bs\<rparr>" let ?lba = "data_start_lba b + word_of_nat k"
  have uk: "unat (word_of_nat k :: u32) = k" using kl v(2) by (simp add: unat_of_nat)
  have u: "unat ?lba = ?d + k" by (subst unat_add_small) (use uk kl v(2) in simp_all)
  have sz: "bm_size ?m = bm_size ?bm" "bm_wf ?m" using v(1) bs(2) by (simp_all add: bm_size_def bm_wf_def)
  have "?lba \<noteq> -1"
  proof
    assume "?lba = -1"
    moreover have "unat (-1 :: u32) = 4294967295" by (simp add: unsigned_minus_1_eq_mask mask_eq_exp_minus_1)
    ultimately have "unat ?lba = 4294967295" by metis
    then show False using u kl v(2) by simp
  qed
  moreover have "int k \<noteq> -1" by simp
  moreover have "used_block part b (upd_part part (\<lambda>p. p\<lparr>block_bitmap := ?m\<rparr>) s) a \<longleftrightarrow> a = ?lba \<or> used_block part b s a" for a
  proof -
    have "a = ?lba \<longleftrightarrow> ?d \<le> unat a \<and> unat a - ?d = k" using u by (auto simp: word_unat_eq_iff)
    then show ?thesis using bs(3) r sz(1) kl by (auto simp: used_block_def)
  qed
  moreover have "\<not> used_block part b s ?lba" using u k(3) by (simp add: used_block_def)
  moreover have "volume_ok part b (upd_part part (\<lambda>p. p\<lparr>block_bitmap := ?m\<rparr>) s)"
    using ok sz bs(2) by (simp add: volume_ok_def)
  ultimately show ?thesis
    using k(1) bs(1,2) v u uk kl sz
    by (intro exI [of _ ?lba] exI [of _ ?m]) (simp add: block_bitmap_alloc_def)
qed

end
