(* ===== verification/Dir_Spec.thy ===== *)
theory Dir_Spec
  imports Fs_Blocks
begin

text \<open>
  What a directory is: the list of the entries in its blocks. Searching it (\<open>search_dir_entry\<close> of \<open>fs/dir.c\<close>) finds
  the first entry of that list with the name, and adding an entry (\<open>sync_dir_entry\<close>) replaces the first free one.
\<close>

subsection \<open>The entries of a sector\<close>

definition dir_slots :: "u8 list \<Rightarrow> dir_entry list" where
  "dir_slots data = map (\<lambda>i. entry_of_bytes (bytes_at (24 * i) 24 data)) [0..<21]"

text \<open>A name: no zero byte, and with its final zero it fits into the field.\<close>

definition name_ok :: "u8 list \<Rightarrow> bool" where
  "name_ok nm \<longleftrightarrow> nm \<noteq> [] \<and> 0 \<notin> set nm \<and> length nm \<le> 15"

definition named :: "u8 list \<Rightarrow> dir_entry \<Rightarrow> bool" where
  "named nm e \<longleftrightarrow> take (length nm + 1) (filename e) = nm @ [0]"

lemma length_dir_slots [simp]: "length (dir_slots data) = 21"
  by (simp add: dir_slots_def)

lemma nth_dir_slots: "i < 21 \<Longrightarrow> dir_slots data ! i = entry_of_bytes (bytes_at (24 * i) 24 data)"
  by (simp add: dir_slots_def)

lemma strcmp_with_name:
  assumes "cstr_at mb b nm" and "a + length nm < length ma"
  shows "\<exists>r. strcmp_loop ma a mb b = Some r \<and> (r = 0 \<longleftrightarrow> bytes_at a (length nm + 1) ma = nm @ [0])"
  using assms
proof (induction nm arbitrary: a b)
  case Nil
  then have "bytes_at a 1 ma = [ma ! a]" by (simp add: bytes_at_def take_Suc_conv_app_nth)
  then show ?case using Nil by (subst strcmp_loop.simps) (auto dest: sint_ne_0)
next
  case (Cons x nm)
  then have x: "mb ! b = x" "x \<noteq> 0" "b < length mb" "cstr_at mb (b + 1) nm" by simp_all
  have a: "a + 1 + length nm < length ma" using Cons.prems by simp
  obtain r where r: "strcmp_loop ma (a + 1) mb (b + 1) = Some r"
      "r = 0 \<longleftrightarrow> bytes_at (a + 1) (length nm + 1) ma = nm @ [0]"
    using Cons.IH [OF x(4) a] by blast
  have "bytes_at a (length (x # nm) + 1) ma = ma ! a # bytes_at (a + 1) (length nm + 1) ma"
    using a by (simp add: bytes_at_def Cons_nth_drop_Suc [symmetric])
  then show ?case using r x a by (subst strcmp_loop.simps) (auto dest: sint_neq)
qed

lemma named_bytes:
  assumes "i < 21" and "length data = 512" and "length nm \<le> 15"
  shows "named nm (dir_slots data ! i) \<longleftrightarrow> bytes_at (24 * i) (length nm + 1) data = nm @ [0]"
proof -
  have "take (length nm + 1) (filename (dir_slots data ! i)) = bytes_at (24 * i) (length nm + 1) data"
    using assms by (simp add: nth_dir_slots entry_of_bytes_def bytes_at_def min_def)
  then show ?thesis by (simp add: named_def)
qed

lemma strcmp_slot:
  assumes "i < 21" and "length data = 512" and "cstr_at mem 0 nm" and "length nm \<le> 15"
  shows "\<exists>r. strcmp_loop data (sizeof_entry * i) mem 0 = Some r \<and> (r = 0 \<longleftrightarrow> named nm (dir_slots data ! i))"
  using strcmp_with_name [OF assms(3), of "24 * i" data] named_bytes [OF assms(1,2,4)] assms by (auto simp: sizeof_entry_def)

lemma find_from: "i < length xs \<Longrightarrow> find P (drop i xs) = (if P (xs ! i) then Some (xs ! i) else find P (drop (Suc i) xs))"
  by (simp add: Cons_nth_drop_Suc [symmetric])

lemma find_append: "find P (xs @ ys) = (case find P xs of None \<Rightarrow> find P ys | Some x \<Rightarrow> Some x)"
  by (induction xs) auto

lemma search_sector_find:
  assumes "length data = 512" and "cstr_at mem 0 nm" and "length nm \<le> 15" and "i + n = 21"
  shows "\<exists>r. search_sector data mem i n = Some r \<and> (\<forall>j. r = Some j \<longrightarrow> j < 21) \<and>
    find (named nm) (drop i (dir_slots data)) = map_option (\<lambda>j. dir_slots data ! j) r"
  using assms(4)
proof (induction n arbitrary: i)
  case (Suc n)
  then have i: "i < 21" by simp
  obtain r where r: "strcmp_loop data (sizeof_entry * i) mem 0 = Some r" "r = 0 \<longleftrightarrow> named nm (dir_slots data ! i)"
    using strcmp_slot [OF i assms(1-3)] by blast
  show ?case
    using r i Suc.IH [of "i + 1"] Suc.prems find_from [of i "dir_slots data" "named nm"] by (cases "r = 0") simp_all
qed simp

subsection \<open>The entries of a directory\<close>

definition dir_list :: "disk_ref \<Rightarrow> 'z ide_state_scheme \<Rightarrow> u32 list \<Rightarrow> dir_entry list" where
  "dir_list dk s bs = concat (map (\<lambda>b. dir_slots (media s dk (unat b))) (filter (\<lambda>b. b \<noteq> 0) bs))"

text \<open>The addresses of all the blocks of an inode.\<close>

definition blocks_of :: "disk_ref \<Rightarrow> 'z ide_state_scheme \<Rightarrow> inode \<Rightarrow> u32 list" where
  "blocks_of dk s ino = take 12 (i_sectors ino) @
     (if i_sectors ino ! 12 \<noteq> 0 then u32s_of 128 (media s dk (unat (i_sectors ino ! 12))) else replicate 128 0)"

definition on_disk :: "u32 \<Rightarrow> bool" where
  "on_disk b \<longleftrightarrow> unat b < 163840"

lemma dir_list_simps [simp]:
  "dir_list dk s [] = []" "dir_list dk s (b # bs) = (if b = 0 then [] else dir_slots (media s dk (unat b))) @ dir_list dk s bs"
  "dir_list dk s (as @ bs) = dir_list dk s as @ dir_list dk s bs"
  by (simp_all add: dir_list_def)

lemma read_sector_ok:
  assumes "store_ok dk s" and "on_disk b"
  shows "ide_read dk b 1 s = Some (media s dk (unat b), s)" and "length (media s dk (unat b)) = 512"
  using bs.read_ok [OF assms(1), of 1 "unat b"] bs.sec_len [OF assms(1)] assms(2) by (simp_all add: on_disk_def)

lemma search_blocks_find:
  assumes "store_ok (my_disk (parts s part)) s" and "\<forall>b \<in> set bs. on_disk b" and "cstr_at mem 0 nm" and "length nm \<le> 15"
  shows "\<exists>r. search_blocks part mem 21 bs s = Some (r, s) \<and> (\<forall>d j. r = Some (d, j) \<longrightarrow> length d = 512 \<and> j < 21) \<and>
    find (named nm) (dir_list (my_disk (parts s part)) s bs) = map_option (\<lambda>(d, j). dir_slots d ! j) r"
  using assms(2)
proof (induction bs)
  case (Cons b bs)
  let ?dk = "my_disk (parts s part)" let ?d = "media s ?dk (unat b)"
  obtain r where r: "search_blocks part mem 21 bs s = Some (r, s)" "\<forall>d j. r = Some (d, j) \<longrightarrow> length d = 512 \<and> j < 21"
      "find (named nm) (dir_list ?dk s bs) = map_option (\<lambda>(d, j). dir_slots d ! j) r"
    using Cons by auto
  show ?case
  proof (cases "b = 0")
    case True
    then show ?thesis using r by (intro exI [of _ r]) simp
  next
    case False
    have b: "on_disk b" using Cons.prems by simp
    note d = read_sector_ok [OF assms(1) b]
    obtain q where q: "search_sector ?d mem 0 21 = Some q" "\<forall>j. q = Some j \<longrightarrow> j < 21"
      "find (named nm) (dir_slots ?d) = map_option (\<lambda>j. dir_slots ?d ! j) q"
      using search_sector_find [OF d(2) assms(3,4), of 0 21] by auto
    show ?thesis
    proof (cases q)
      case None
      then show ?thesis using False d q r by (intro exI [of _ r]) (simp add: find_append)
    next
      case (Some j)
      then show ?thesis using False d q by (intro exI [of _ "Some (?d, j)"]) (simp add: find_append)
    qed
  qed
qed simp

lemma read_blocks_ok:
  assumes "store_ok (my_disk (parts s part)) s" and "on_disk (i_sectors ino ! 12)"
  shows "read_blocks part ino s = Some (blocks_of (my_disk (parts s part)) s ino, s)"
  using read_sector_ok [OF assms] by (simp add: read_blocks_def blocks_of_def)

text \<open>A directory whose blocks can be read.\<close>

definition dir_ok :: "part_ref \<Rightarrow> super_block \<Rightarrow> inode \<Rightarrow> 'z ide_state_scheme \<Rightarrow> bool" where
  "dir_ok part b ino s \<longleftrightarrow> store_ok (my_disk (parts s part)) s \<and> sb (parts s part) = Some b \<and> dir_entry_size b = 24 \<and>
     on_disk (i_sectors ino ! 12) \<and> (\<forall>a \<in> set (blocks_of (my_disk (parts s part)) s ino). on_disk a)"

definition entries :: "part_ref \<Rightarrow> inode \<Rightarrow> 'z ide_state_scheme \<Rightarrow> dir_entry list" where
  "entries part ino s = dir_list (my_disk (parts s part)) s (blocks_of (my_disk (parts s part)) s ino)"

lemma dir_ok_kern: "heap_frame (kern s) k \<Longrightarrow> dir_ok part b ino (s\<lparr>kern := k\<rparr>) = dir_ok part b ino s"
  by (simp add: dir_ok_def store_ok_frame blocks_of_def)

lemma dir_list_kern [simp]: "dir_list dk (s\<lparr>kern := k\<rparr>) bs = dir_list dk s bs"
  by (simp add: dir_list_def)

lemma blocks_of_kern [simp]: "blocks_of dk (s\<lparr>kern := k\<rparr>) ino = blocks_of dk s ino"
  by (simp add: blocks_of_def)

lemma dir_inode_of_kern [simp]: "dir_inode_of d (s\<lparr>kern := k\<rparr>) = dir_inode_of d s"
  by (simp add: dir_inode_of_def the_dir_def split: dir_ref.splits)

lemma entry_bytes_of:
  assumes "length bs = 24"
  shows "entry_bytes (entry_of_bytes bs) = bs"
proof -
  have "le32 (u32_of (drop 16 bs)) = take 4 (drop 16 bs)" "le32 (u32_of (drop 20 bs)) = drop 20 bs"
    using le32_u32_of [of "take 4 (drop 16 bs)"] le32_u32_of [of "drop 20 bs"] assms
    by (simp_all add: u32_of_def)
  then have "entry_bytes (entry_of_bytes bs) = take 16 bs @ take 4 (drop 16 bs) @ drop 20 bs"
    by (simp add: entry_bytes_def entry_of_bytes_def)
  also have "take 4 (drop 16 bs) @ drop 20 bs = drop 16 bs"
    using append_take_drop_id [of 4 "drop 16 bs"] by simp
  finally show ?thesis by simp
qed

lemma search_dir_entry_spec:
  assumes ok: "dir_ok part b ino s" and ino: "dir_inode_of pdir s = Some ino" and h: "heap_ready (kern s) L (Suc (Suc k))"
    and nm: "cstr_at mem 0 nm" "length nm \<le> 15" and e: "length (filename e) = 16"
  shows "\<exists>k'. search_dir_entry part pdir mem e s = Some ((case find (named nm) (entries part ino s) of
      None \<Rightarrow> (False, e) | Some e' \<Rightarrow> (True, e')), s\<lparr>kern := k'\<rparr>) \<and> heap_ready k' L k \<and> heap_frame (kern s) k'"
proof -
  let ?dk = "my_disk (parts s part)" let ?bs = "blocks_of ?dk s ino"
  have sm: "small (48 + 512)" "small 512" by (simp_all add: small_def)
  obtain a1 k1 where m1: "sys_malloc (48 + 512) (kern s) = Some (a1, k1)" "a1 \<noteq> 0" "a1 \<notin> L"
      "heap_ready k1 (insert a1 L) (Suc k)" "heap_frame (kern s) k1"
    using kh.malloc_ready [OF h sm(1)] by blast
  obtain a2 k2 k3 where m2: "sys_malloc 512 k1 = Some (a2, k2)" "a2 \<noteq> 0" "heap_frame k1 k2"
      "sys_free a2 k2 = Some k3" "heap_ready k3 (insert a1 L) k" "heap_frame k1 k3"
    using kh.scratch_buffer [OF m1(4) sm(2)] by blast
  obtain k4 where m4: "sys_free a1 k3 = Some k4" "heap_ready k4 (insert a1 L - {a1}) k" "heap_frame k3 k4"
    using kh.free_ready [OF m2(5), of a1] by blast
  have L: "insert a1 L - {a1} = L" using m1(3) by blast
  note tr = heap_frame_trans
  have fr: "heap_frame (kern s) k2" "heap_frame (kern s) k4"
    using tr [OF m1(5) m2(3)] tr [OF tr [OF m1(5) m2(6)] m4(3)] by blast+
  have ok1: "dir_ok part b ino (s\<lparr>kern := k1\<rparr>)" and ok2: "dir_ok part b ino (s\<lparr>kern := k2\<rparr>)"
    using ok dir_ok_kern m1(5) fr(1) by blast+
  have rb: "read_blocks part ino (s\<lparr>kern := k1\<rparr>) = Some (?bs, s\<lparr>kern := k1\<rparr>)"
    using read_blocks_ok [of "s\<lparr>kern := k1\<rparr>" part ino] ok1 by (simp add: dir_ok_def)
  obtain r where r: "search_blocks part mem 21 ?bs (s\<lparr>kern := k2\<rparr>) = Some (r, s\<lparr>kern := k2\<rparr>)"
      "\<forall>d j. r = Some (d, j) \<longrightarrow> length d = 512 \<and> j < 21"
      "find (named nm) (entries part ino s) = map_option (\<lambda>(d, j). dir_slots d ! j) r"
    using search_blocks_find [of "s\<lparr>kern := k2\<rparr>" part ?bs mem nm] ok2 nm by (auto simp: dir_ok_def entries_def)
  have sz: "entry_size part (s\<lparr>kern := k2\<rparr>) = Some 24"
    using ok by (simp add: dir_ok_def entry_size_def)
  show ?thesis
  proof (cases r)
    case None
    then show ?thesis
      using m1 m2 m4 L fr ino rb r sz
      by (intro exI [of _ k4]) (simp add: search_dir_entry_def fs_malloc_def fs_free_def)
  next
    case (Some q)
    obtain d j where q: "r = Some (d, j)" "length d = 512" "j < 21" using Some r(2) by (cases q) auto
    have g: "get_buf d (sizeof_entry * j) 24 = Some (bytes_at (24 * j) 24 d)"
      using q by (simp add: sizeof_entry_def)
    have p: "put_buf (entry_bytes e) 0 (bytes_at (24 * j) 24 d) = Some (bytes_at (24 * j) 24 d)"
      using e q put_bytes_all [of "bytes_at (24 * j) 24 d" "entry_bytes e"] by (simp add: entry_bytes_def)
    show ?thesis
      using m1 m2 m4 L fr ino rb r sz g p q
      by (intro exI [of _ k4]) (simp add: search_dir_entry_def fs_malloc_def fs_free_def nth_dir_slots)
  qed
qed

subsection \<open>Adding an entry\<close>

definition free_slot_of :: "dir_entry \<Rightarrow> bool" where
  "free_slot_of e \<longleftrightarrow> f_type e = FT_UNKNOWN"

lemma entry_of_entry_bytes [simp]: "length (filename e) = 16 \<Longrightarrow> entry_of_bytes (entry_bytes e) = e"
  by (simp add: entry_bytes_def entry_of_bytes_def)

lemma length_entry_bytes [simp]: "length (entry_bytes e) = length (filename e) + 8"
  by (simp add: entry_bytes_def)

lemma free_entry_find:
  assumes "length data = 512" and "i + n = 21"
  shows "\<exists>r. free_entry data i n = Some r \<and>
    (case r of None \<Rightarrow> \<forall>m. i \<le> m \<longrightarrow> m < 21 \<longrightarrow> \<not> free_slot_of (dir_slots data ! m)
     | Some j \<Rightarrow> j < 21 \<and> free_slot_of (dir_slots data ! j))"
  using assms(2)
proof (induction n arbitrary: i)
  case (Suc n)
  then have i: "i < 21" by simp
  have e: "dir_e data i = Some (dir_slots data ! i)"
    using i assms(1) by (simp add: dir_e_def sizeof_entry_def nth_dir_slots)
  show ?case
  proof (cases "free_slot_of (dir_slots data ! i)")
    case True
    then show ?thesis using e i by (intro exI [of _ "Some i"]) (simp add: free_slot_of_def)
  next
    case False
    have "i + 1 + n = 21" using Suc.prems by simp
    from Suc.IH [OF this] obtain r where r: "free_entry data (i + 1) n = Some r"
      "case r of None \<Rightarrow> \<forall>m. i + 1 \<le> m \<longrightarrow> m < 21 \<longrightarrow> \<not> free_slot_of (dir_slots data ! m)
       | Some j \<Rightarrow> j < 21 \<and> free_slot_of (dir_slots data ! j)"
      by blast
    have "\<forall>m. i \<le> m \<longrightarrow> m < 21 \<longrightarrow> \<not> free_slot_of (dir_slots data ! m)" if "r = None"
    proof (intro allI impI)
      fix m assume "i \<le> m" "m < 21"
      then show "\<not> free_slot_of (dir_slots data ! m)" using r(2) that False by (cases "m = i") simp_all
    qed
    then show ?thesis using r e False by (intro exI [of _ r]) (auto simp: free_slot_of_def split: option.splits)
  qed
qed simp

text \<open>Writing an entry into a sector changes one slot.\<close>

lemma dir_slots_put:
  assumes "length data = 512" and "j < 21" and "length bs = 24"
  shows "dir_slots (put_bytes data (24 * j) bs) = (dir_slots data)[j := entry_of_bytes bs]"
proof (rule nth_equalityI)
  fix i assume "i < length (dir_slots (put_bytes data (24 * j) bs))"
  then have i: "i < 21" by simp
  have "bytes_at (24 * i) 24 (put_bytes data (24 * j) bs) = (if i = j then bs else bytes_at (24 * i) 24 data)"
  proof (cases "i = j")
    case True
    then show ?thesis using bytes_at_put_bytes_same [of "24 * j" bs data] assms by simp
  next
    case False
    then show ?thesis using i assms by (subst bytes_at_put_bytes_disjoint) auto
  qed
  then show "dir_slots (put_bytes data (24 * j) bs) ! i = (dir_slots data)[j := entry_of_bytes bs] ! i"
    using i assms(2) by (simp add: nth_dir_slots nth_list_update)
qed simp

lemma dir_slots_new:
  assumes "length bs = 24" and "length buf = 512"
  shows "dir_slots (put_bytes (replicate 512 0) 0 bs) = entry_of_bytes bs # replicate 20 zero_entry"
proof -
  have "dir_slots (replicate 512 0) = replicate 21 zero_entry"
    by (rule nth_equalityI) (simp_all add: nth_dir_slots zero_entry_def bytes_at_def min_def)
  then show ?thesis using dir_slots_put [of "replicate 512 0" 0 bs] assms by (simp add: eval_nat_numeral)
qed

text \<open>The buffer is longer than a sector; only its first sector matters.\<close>

lemma free_entry_prefix:
  assumes "length d = 512" and "512 \<le> length io_buf" and "i + n \<le> 21"
  shows "free_entry (put_bytes io_buf 0 d) i n = free_entry d i n"
  using assms(3)
proof (induction n arbitrary: i)
  case (Suc n)
  have "dir_e (put_bytes io_buf 0 d) i = dir_e d i"
    using Suc.prems assms(1,2) by (simp add: dir_e_def get_buf_def sizeof_entry_def bytes_at_def put_bytes_def)
  then show ?case using Suc.IH [of "i + 1"] Suc.prems by (cases "dir_e d i") simp_all
qed simp

text \<open>The loop passes the blocks that have no free slot.\<close>

definition full_block :: "disk_ref \<Rightarrow> 'z ide_state_scheme \<Rightarrow> u32 \<Rightarrow> bool" where
  "full_block dk s a \<longleftrightarrow> a \<noteq> 0 \<and> on_disk a \<and> (\<forall>e \<in> set (dir_slots (media s dk (unat a))). \<not> free_slot_of e)"

lemma sync_blocks_skip:
  assumes "store_ok (my_disk (parts s (cur_part s))) s" and "idx \<le> j" and "length p_de = 24" and "512 \<le> length io_buf"
    and "\<forall>m. idx \<le> m \<longrightarrow> m < j \<longrightarrow> full_block (my_disk (parts s (cur_part s))) s (all_blocks ! m)"
  shows "\<exists>io'. length io' = length io_buf \<and>
    sync_blocks ia p_de 24 all_blocks idx (j - idx + k) io_buf s = sync_blocks ia p_de 24 all_blocks j k io' s"
  using assms(2,4,5)
proof (induction "j - idx" arbitrary: idx io_buf)
  case (Suc n)
  let ?dk = "my_disk (parts s (cur_part s))" let ?d = "media s ?dk (unat (all_blocks ! idx))"
  have f: "full_block ?dk s (all_blocks ! idx)" using Suc.prems Suc.hyps(2) by simp
  then have a: "all_blocks ! idx \<noteq> 0" "on_disk (all_blocks ! idx)" by (simp_all add: full_block_def)
  note d = read_sector_ok [OF assms(1) a(2)]
  let ?io = "put_bytes io_buf 0 ?d"
  have l: "length ?io = length io_buf" using d(2) Suc.prems(2) by simp
  have "free_entry ?io 0 21 = free_entry ?d 0 21"
    using free_entry_prefix [OF d(2) Suc.prems(2)] by simp
  moreover obtain r where r: "free_entry ?d 0 21 = Some r" "case r of None \<Rightarrow> True
       | Some j \<Rightarrow> j < 21 \<and> free_slot_of (dir_slots ?d ! j)"
    using free_entry_find [OF d(2), of 0 21] by (auto split: option.splits)
  have "r = None"
    using r(2) f by (cases r) (auto simp: full_block_def)
  moreover have k: "j - idx + k = Suc (j - Suc idx + k)" using Suc.hyps(2) by simp
  ultimately have step: "sync_blocks ia p_de 24 all_blocks idx (j - idx + k) io_buf s =
      sync_blocks ia p_de 24 all_blocks (idx + 1) (j - (idx + 1) + k) ?io s"
    using a d r(1) assms(3) Suc.prems(2) by simp
  have "\<exists>io'. length io' = length ?io \<and>
    sync_blocks ia p_de 24 all_blocks (idx + 1) (j - (idx + 1) + k) ?io s = sync_blocks ia p_de 24 all_blocks j k io' s"
    by (rule Suc.hyps(1)) (use Suc.prems Suc.hyps(2) l in auto)
  then show ?case unfolding step l .
qed auto

lemma off_disk_inodes:
  fixes s s1 :: "'z fs_state_scheme"
  assumes "off_disk dk s1 = off_disk dk s"
  shows "off_disk dk (s1\<lparr>inodes := f\<rparr>) = off_disk dk (s\<lparr>inodes := f\<rparr>)"
proof -
  have "off_disk dk (s\<lparr>inodes := f\<rparr>) = (off_disk dk s)\<lparr>inodes := f\<rparr>" for s :: "'z fs_state_scheme"
    by (simp add: off_disk_def)
  then show ?thesis using assms by simp
qed

lemma off_disk_fs:
  assumes "off_disk dk s' = off_disk dk (s :: 'z fs_state_scheme)"
  shows "cur_part s' = cur_part s" "inodes s' = inodes s" "root_dir s' = root_dir s" "dirs s' = dirs s"
    "file_table s' = file_table s"
  using arg_cong [OF assms, of cur_part] arg_cong [OF assms, of inodes] arg_cong [OF assms, of root_dir]
    arg_cong [OF assms, of dirs] arg_cong [OF assms, of file_table] by (simp_all add: off_disk_def)

text \<open>A free slot in an existing block is overwritten.\<close>

lemma sync_blocks_here:
  assumes st: "store_ok dk s" and dk: "dk = my_disk (parts s (cur_part s))" and a: "a = all_blocks ! idx" "a \<noteq> 0" "on_disk a"
    and free: "\<exists>x \<in> set (dir_slots (media s dk (unat a))). free_slot_of x" and ino: "inodes s ia = Some ino"
    and e: "length (filename e) = 16" and io: "512 \<le> length io_buf"
  shows "\<exists>buf s' j d. sync_blocks ia (entry_bytes e) 24 all_blocks idx (Suc k) io_buf s = Some (True, buf, s') \<and> j < 21 \<and>
    free_slot_of (dir_slots (media s dk (unat a)) ! j) \<and> length d = 512 \<and>
    dir_slots d = (dir_slots (media s dk (unat a)))[j := e] \<and> (\<forall>n. media s' dk n = (if n = unat a then d else media s dk n)) \<and>
    store_ok dk s' \<and> off_disk dk s' = off_disk dk (s\<lparr>inodes := (inodes s)(ia \<mapsto> ino\<lparr>i_size := i_size ino + 24\<rparr>)\<rparr>)"
proof -
  let ?d = "media s dk (unat a)" let ?io = "put_bytes io_buf 0 ?d"
  note d = read_sector_ok [OF st a(3)]
  obtain r where r: "free_entry ?d 0 21 = Some r" "case r of None \<Rightarrow> \<forall>m. 0 \<le> m \<longrightarrow> m < 21 \<longrightarrow> \<not> free_slot_of (dir_slots ?d ! m)
       | Some j \<Rightarrow> j < 21 \<and> free_slot_of (dir_slots ?d ! j)"
    using free_entry_find [OF d(2), of 0 21] by auto
  obtain x i where x: "i < 21" "free_slot_of (dir_slots ?d ! i)"
    using free by (metis in_set_conv_nth length_dir_slots)
  then obtain j where j: "r = Some j" "j < 21" "free_slot_of (dir_slots ?d ! j)"
    using r(2) by (cases r) auto
  have fe: "free_entry ?io 0 21 = Some (Some j)"
    using free_entry_prefix [OF d(2) io, of 0 21] r(1) j(1) by simp
  let ?e = "entry_bytes e" let ?buf = "put_bytes ?io (24 * j) ?e" let ?new = "put_bytes ?d (24 * j) ?e"
  have l: "length ?io = length io_buf" "length ?e = 24" using d(2) io e by simp_all
  have t: "take 512 ?buf = ?new"
    using d(2) io j(2) l by (simp add: put_bytes_def min_def)
  obtain s1 where s1: "ide_write dk a ?buf 1 s = Some s1" "store_ok dk s1" "off_disk dk s1 = off_disk dk s"
      "\<forall>n. media s1 dk n = (if n = unat a then ?new else media s dk n)"
    using write_sector_ok [OF st, of a ?buf] a(3) l j(2) io unfolding t by (auto simp: on_disk_def)
  let ?s = "s1\<lparr>inodes := (inodes s)(ia \<mapsto> ino\<lparr>i_size := i_size ino + 24\<rparr>)\<rparr>"
  have g: "grow_dir ia 24 s1 = Some ?s"
    using ino off_disk_fs(2) [OF s1(3)] by (simp add: grow_dir_def upd_inode_def)
  have "sync_blocks ia ?e 24 all_blocks idx (Suc k) io_buf s = Some (True, ?buf, ?s)"
    using a d fe s1(1) g l j(2) io dk by (simp add: sizeof_entry_def bytes_at_def)
  then show ?thesis
    using j s1 dir_slots_put [OF d(2) j(2) l(2)] e l d(2) off_disk_inodes [OF s1(3)]
    by (intro exI [of _ ?buf] exI [of _ ?s] exI [of _ j] exI [of _ ?new]) simp
qed

text \<open>A new block for a direct address, with the entry in its first slot.\<close>

lemma new_dir_block_direct:
  assumes v: "volume_ok part b s" and part: "part = cur_part s" and dk: "dk = my_disk (parts s part)"
    and free: "\<exists>i < bm_size (block_bitmap (parts s part)). \<not> bm_bit (block_bitmap (parts s part)) i"
    and idx: "idx < 12" and ino: "inodes s ia = Some ino"
  shows "\<exists>lba m s'. new_dir_block ia all_blocks idx s = Some (Some (all_blocks[idx := lba]), s') \<and>
    on_disk lba \<and> unat (data_start_lba b) \<le> unat lba \<and> \<not> used_block part b s lba \<and> volume_ok part b s' \<and>
    (\<forall>a. used_block part b s' a \<longleftrightarrow> a = lba \<or> used_block part b s a) \<and>
    off_disk dk s' = off_disk dk ((upd_part part (\<lambda>p. p\<lparr>block_bitmap := m\<rparr>) s)\<lparr>inodes := (inodes s)(ia \<mapsto>
       ino\<lparr>i_sectors := (i_sectors ino)[idx := lba]\<rparr>)\<rparr>) \<and>
    (\<forall>n. unat (data_start_lba b) \<le> n \<longrightarrow> media s' dk n = media s dk n)"
proof -
  obtain lba m where lba: "block_bitmap_alloc part s = Some (lba, upd_part part (\<lambda>p. p\<lparr>block_bitmap := m\<rparr>) s)" "lba \<noteq> -1"
      "unat (data_start_lba b) \<le> unat lba" "unat lba < 163840" "\<not> used_block part b s lba"
      "volume_ok part b (upd_part part (\<lambda>p. p\<lparr>block_bitmap := m\<rparr>) s)" "length (bits m) = length (bits (block_bitmap (parts s part)))"
      "unat (lba - data_start_lba b) < bm_size m" "bm_size m = bm_size (block_bitmap (parts s part))"
      "\<forall>a. used_block part b (upd_part part (\<lambda>p. p\<lparr>block_bitmap := m\<rparr>) s) a \<longleftrightarrow> a = lba \<or> used_block part b s a"
    using block_alloc_ok [OF v free] by (elim exE conjE, intro that) assumption+
  let ?s1 = "upd_part part (\<lambda>p. p\<lparr>block_bitmap := m\<rparr>) s" let ?i = "unat (lba - data_start_lba b)"
  obtain n where n: "n > 0" "length (bits (block_bitmap (parts s part))) = n * 512"
      "unat (block_bitmap_lba b) + n \<le> unat (data_start_lba b)" "sb (parts s part) = Some b" "bm_wf (block_bitmap (parts s part))"
    using v by (auto simp: volume_ok_def)
  have "bm_size m \<le> 4096 * n" using n(2,5) lba(9) by (simp add: bm_size_def bm_wf_def)
  then have q: "?i div 4096 < n" using lba(8) by (simp add: div_less_iff_less_mult mult.commute)
  have st1: "store_ok dk ?s1" using v dk by (simp add: volume_ok_def)
  have "unat (block_bitmap_lba b) + ?i div 4096 < 163840" using q n(3) lba(3,4) by linarith
  moreover have "?i div 4096 + 512 \<le> length (bits m)" using q lba(7) n(2) by simp
  moreover have "my_disk (parts ?s1 part) = dk" "sb (parts ?s1 part) = Some b" "block_bitmap (parts ?s1 part) = m"
    using dk n(4) by simp_all
  ultimately obtain s2 where s2: "bitmap_sync part (lba - data_start_lba b) BLOCK_BITMAP ?s1 = Some s2" "store_ok dk s2"
      "off_disk dk s2 = off_disk dk ?s1"
      "\<forall>k. media s2 dk k = (if k = unat (block_bitmap_lba b) + ?i div 4096 then bytes_at (?i div 4096) 512 (bits m) else media ?s1 dk k)"
    using bitmap_sync_ok [of ?s1 part b "block_bitmap_lba b" BLOCK_BITMAP "lba - data_start_lba b"] st1 by auto
  let ?f = "(inodes s)(ia \<mapsto> ino\<lparr>i_sectors := (i_sectors ino)[idx := lba]\<rparr>)" let ?s = "s2\<lparr>inodes := ?f\<rparr>"
  have i2: "inodes s2 = inodes s" using off_disk_fs(2) [OF s2(3)] by (simp add: upd_part_def)
  have p2: "parts s2 = parts ?s1" using off_disk_eq(2) [OF s2(3)] .
  have "lba - data_start_lba b \<noteq> -1"
  proof
    assume "lba - data_start_lba b = -1"
    moreover have "unat (-1 :: u32) = 4294967295" by (simp add: unsigned_minus_1_eq_mask mask_eq_exp_minus_1)
    ultimately have "?i = 4294967295" by metis
    moreover have "bm_size m \<le> 163840" using v lba(9) by (simp add: volume_ok_def)
    ultimately show False using lba(8) by simp
  qed
  moreover have "cur_part ?s1 = part" using part by (simp add: upd_part_def)
  ultimately have run: "new_dir_block ia all_blocks idx s = Some (Some (all_blocks[idx := lba]), ?s)"
    using lba(1,2) s2(1) idx ino i2 n(4) part by (simp add: new_dir_block_def Let_def set_sector_def upd_inode_def)
  have "volume_ok part b ?s" using lba(6) s2(2) p2 dk by (simp add: volume_ok_def)
  moreover have "used_block part b ?s a \<longleftrightarrow> a = lba \<or> used_block part b s a" for a
    using lba(10) by (simp add: used_block_def p2)
  moreover have "media ?s dk k = media s dk k" if "unat (data_start_lba b) \<le> k" for k
    using s2(4) that q n(3) by simp
  ultimately show ?thesis
    using run lba off_disk_inodes [OF s2(3)]
    by (intro exI [of _ lba] exI [of _ m] exI [of _ ?s]) (simp add: on_disk_def)
qed

lemma sync_blocks_new:
  assumes v: "volume_ok part b s" and part: "part = cur_part s" and dk: "dk = my_disk (parts s part)"
    and free: "\<exists>i < bm_size (block_bitmap (parts s part)). \<not> bm_bit (block_bitmap (parts s part)) i"
    and idx: "idx < 12" "idx < length all_blocks" "all_blocks ! idx = 0" and ino: "inodes s ia = Some ino"
    and e: "length (filename e) = 16" and io: "512 \<le> length io_buf"
  shows "\<exists>buf s' lba m d. sync_blocks ia (entry_bytes e) 24 all_blocks idx (Suc k) io_buf s = Some (True, buf, s') \<and>
    on_disk lba \<and> unat (data_start_lba b) \<le> unat lba \<and> \<not> used_block part b s lba \<and> volume_ok part b s' \<and>
    (\<forall>a. used_block part b s' a \<longleftrightarrow> a = lba \<or> used_block part b s a) \<and>
    length d = 512 \<and> dir_slots d = e # replicate 20 zero_entry \<and>
    (\<forall>n. unat (data_start_lba b) \<le> n \<longrightarrow> media s' dk n = (if n = unat lba then d else media s dk n)) \<and>
    off_disk dk s' = off_disk dk ((upd_part part (\<lambda>p. p\<lparr>block_bitmap := m\<rparr>) s)\<lparr>inodes := (inodes s)(ia \<mapsto>
       ino\<lparr>i_sectors := (i_sectors ino)[idx := lba], i_size := i_size ino + 24\<rparr>)\<rparr>)"
proof -
  obtain lba m s1 where s1: "new_dir_block ia all_blocks idx s = Some (Some (all_blocks[idx := lba]), s1)"
      "on_disk lba" "unat (data_start_lba b) \<le> unat lba" "\<not> used_block part b s lba" "volume_ok part b s1"
      "\<forall>a. used_block part b s1 a \<longleftrightarrow> a = lba \<or> used_block part b s a"
      "off_disk dk s1 = off_disk dk ((upd_part part (\<lambda>p. p\<lparr>block_bitmap := m\<rparr>) s)\<lparr>inodes := (inodes s)(ia \<mapsto>
         ino\<lparr>i_sectors := (i_sectors ino)[idx := lba]\<rparr>)\<rparr>)"
      "\<forall>n. unat (data_start_lba b) \<le> n \<longrightarrow> media s1 dk n = media s dk n"
    using new_dir_block_direct [where all_blocks = all_blocks, OF v part dk free idx(1) ino] by (elim exE conjE, intro that) assumption+
  let ?e = "entry_bytes e" let ?buf = "put_bytes (put_bytes io_buf 0 (replicate 512 0)) 0 ?e"
  let ?new = "put_bytes (replicate 512 0) 0 ?e"
  have l: "length ?e = 24" using e by simp
  have t: "take 512 ?buf = ?new" using io l by (simp add: put_bytes_def min_def)
  have p1: "parts s1 = parts (upd_part part (\<lambda>p. p\<lparr>block_bitmap := m\<rparr>) s)" using off_disk_eq(2) [OF s1(7)] by (simp add: upd_part_def)
  have d1: "my_disk (parts s1 part) = dk" using p1 dk by simp
  have i1: "inodes s1 = (inodes s)(ia \<mapsto> ino\<lparr>i_sectors := (i_sectors ino)[idx := lba]\<rparr>)"
    using off_disk_fs(2) [OF s1(7)] by simp
  have st1: "store_ok dk s1" using s1(5) d1 by (simp add: volume_ok_def)
  obtain s2 where s2: "ide_write dk lba ?buf 1 s1 = Some s2" "store_ok dk s2" "off_disk dk s2 = off_disk dk s1"
      "\<forall>n. media s2 dk n = (if n = unat lba then ?new else media s1 dk n)"
    using write_sector_ok [OF st1, of lba ?buf] s1(2) l io unfolding t by (auto simp: on_disk_def)
  let ?s = "s2\<lparr>inodes := (inodes s)(ia \<mapsto> ino\<lparr>i_sectors := (i_sectors ino)[idx := lba], i_size := i_size ino + 24\<rparr>)\<rparr>"
  have p2: "parts s2 = parts s1" using off_disk_eq(2) [OF s2(3)] .
  have g: "grow_dir ia 24 s2 = Some ?s"
    using i1 off_disk_fs(2) [OF s2(3)] by (simp add: grow_dir_def upd_inode_def)
  have run: "sync_blocks ia ?e 24 all_blocks idx (Suc k) io_buf s = Some (True, ?buf, ?s)"
    using idx(2,3) s1(1) s2(1) g l io dk part by (simp add: bytes_at_def)
  have "volume_ok part b ?s" using s1(5) s2(2) p2 d1 by (simp add: volume_ok_def)
  moreover have "used_block part b ?s a \<longleftrightarrow> a = lba \<or> used_block part b s a" for a
    using s1(6) by (simp add: used_block_def p2)
  moreover have "dir_slots ?new = e # replicate 20 zero_entry" using dir_slots_new [OF l, of "replicate 512 0"] e by simp
  moreover have "off_disk dk ?s = off_disk dk ((upd_part part (\<lambda>p. p\<lparr>block_bitmap := m\<rparr>) s)\<lparr>inodes := (inodes s)(ia \<mapsto>
       ino\<lparr>i_sectors := (i_sectors ino)[idx := lba], i_size := i_size ino + 24\<rparr>)\<rparr>)"
    using off_disk_inodes [OF trans [OF s2(3) s1(7)]] by simp
  ultimately show ?thesis
    using run s1(2-4,8) s2(4) l
    by (intro exI [of _ ?buf] exI [of _ ?s] exI [of _ lba] exI [of _ m] exI [of _ ?new]) simp
qed

subsection \<open>The directory as a map of names\<close>

text \<open>
  A directory without an indirect table on a mounted volume: its blocks are different and marked in the bitmap.
\<close>

definition direct_dir :: "part_ref \<Rightarrow> super_block \<Rightarrow> inode \<Rightarrow> 'z ide_state_scheme \<Rightarrow> bool" where
  "direct_dir part b ino s \<longleftrightarrow> volume_ok part b s \<and> dir_entry_size b = 24 \<and> length (i_sectors ino) = 13 \<and>
     i_sectors ino ! 12 = 0 \<and> distinct (filter (\<lambda>a. a \<noteq> 0) (take 12 (i_sectors ino))) \<and>
     (\<forall>a \<in> set (take 12 (i_sectors ino)). a \<noteq> 0 \<longrightarrow> used_block part b s a)"

definition lookup :: "part_ref \<Rightarrow> inode \<Rightarrow> 'z ide_state_scheme \<Rightarrow> u8 list \<Rightarrow> dir_entry option" where
  "lookup part ino s nm = find (named nm) (entries part ino s)"

text \<open>Free slots are cleared, as \<open>delete_dir_entry\<close> and the making of a new block leave them.\<close>

definition clean :: "dir_entry list \<Rightarrow> bool" where
  "clean es \<longleftrightarrow> (\<forall>x \<in> set es. free_slot_of x \<longrightarrow> x = zero_entry)"

definition dir_added :: "dir_entry \<Rightarrow> dir_entry list \<Rightarrow> dir_entry list \<Rightarrow> bool" where
  "dir_added e xs ys \<longleftrightarrow> (\<exists>pre post. (\<exists>x. free_slot_of x \<and> xs = pre @ x # post \<and> ys = pre @ e # post) \<or>
     xs = pre @ post \<and> ys = pre @ e # replicate 20 zero_entry @ post)"

definition entry_for :: "u8 list \<Rightarrow> dir_entry \<Rightarrow> bool" where
  "entry_for nm e \<longleftrightarrow> name_ok nm \<and> filename e = nm @ replicate (16 - length nm) 0 \<and> \<not> free_slot_of e"

lemma named_zero: "name_ok nm \<Longrightarrow> \<not> named nm zero_entry"
proof
  assume "name_ok nm" "named nm zero_entry"
  then have "nm @ [0] = replicate (length nm + 1) 0"
    by (simp add: named_def zero_entry_def entry_of_bytes_def name_ok_def min_def)
  then have "set nm \<subseteq> {0}" by (metis Un_upper1 set_append set_replicate_Suc Suc_eq_plus1)
  then show False using \<open>name_ok nm\<close> by (cases nm) (auto simp: name_ok_def)
qed

lemma takeWhile_cstr: "0 \<notin> set xs \<Longrightarrow> takeWhile (\<lambda>c. c \<noteq> 0) (xs @ 0 # ys) = (xs :: u8 list)"
  by (induction xs) auto

lemma named_entry_for:
  assumes "entry_for nm e" and "name_ok nm'"
  shows "named nm' e \<longleftrightarrow> nm' = nm"
proof
  have f: "filename e = nm @ 0 # replicate (15 - length nm) 0" "0 \<notin> set nm"
    using assms(1) by (auto simp: entry_for_def name_ok_def Suc_diff_le replicate_Suc [symmetric] simp del: replicate_Suc)
  show "named nm' e" if "nm' = nm" using f that by (simp add: named_def)
  assume "named nm' e"
  then have eq: "nm' @ [0] = take (length nm' + 1) (filename e)" by (simp add: named_def)
  have "filename e = nm' @ 0 # drop (length nm' + 1) (filename e)"
    using append_take_drop_id [of "length nm' + 1" "filename e"] unfolding eq [symmetric] by simp
  then have "takeWhile (\<lambda>c. c \<noteq> 0) (filename e) = nm'"
    using assms(2) takeWhile_cstr [of nm' "drop (length nm' + 1) (filename e)"] by (simp add: name_ok_def)
  moreover have "takeWhile (\<lambda>c. c \<noteq> 0) (filename e) = nm" using f takeWhile_cstr [of nm] by simp
  ultimately show "nm' = nm" by simp
qed

lemma dir_list_cong:
  assumes "\<forall>x \<in> set bs. x \<noteq> 0 \<longrightarrow> media s' dk (unat x) = media s dk (unat x)"
  shows "dir_list dk s' bs = dir_list dk s bs"
  using assms by (induction bs) simp_all

lemma direct_entries:
  assumes "direct_dir part b ino s"
  shows "entries part ino s = dir_list (my_disk (parts s part)) s (take 12 (i_sectors ino))"
proof -
  have "dir_list dk s (replicate n 0) = []" for dk n by (induction n) simp_all
  then show ?thesis using assms by (simp add: entries_def blocks_of_def direct_dir_def)
qed

lemma used_on_disk:
  assumes "volume_ok part b s" and "used_block part b s a"
  shows "on_disk a" and "a \<noteq> 0" and "unat (data_start_lba b) \<le> unat a"
proof -
  have "unat a < 163840" "0 < unat (data_start_lba b)" "unat (data_start_lba b) \<le> unat a"
    using assms by (auto simp: volume_ok_def used_block_def)
  then show "on_disk a" "a \<noteq> 0" "unat (data_start_lba b) \<le> unat a" by (auto simp: on_disk_def)
qed

lemma split_at: "j < length xs \<Longrightarrow> xs = take j xs @ xs ! j # drop (Suc j) xs"
  by (rule id_take_nth_drop)

definition dir_room :: "part_ref \<Rightarrow> inode \<Rightarrow> 'z ide_state_scheme \<Rightarrow> bool" where
  "dir_room part ino s \<longleftrightarrow> (\<exists>i < bm_size (block_bitmap (parts s part)). \<not> bm_bit (block_bitmap (parts s part)) i) \<and>
     (\<exists>j < 12. i_sectors ino ! j = 0 \<or>
        (\<exists>x \<in> set (dir_slots (media s (my_disk (parts s part)) (unat (i_sectors ino ! j)))). free_slot_of x))"

lemma sync_dir_entry_adds:
  assumes dd: "direct_dir part b ino s" and part: "part = cur_part s" and d: "the_dir pdir s = Some v"
    and ino: "inodes s (dir_inode v) = Some ino" and sz: "unat (i_size ino) mod 24 = 0" and room: "dir_room part ino s"
    and e: "length (filename e) = 16" and io: "512 \<le> length io_buf"
  shows "\<exists>buf s' ino'. sync_dir_entry pdir (entry_bytes e) io_buf s = Some (True, buf, s') \<and>
    inodes s' = (inodes s)(dir_inode v \<mapsto> ino') \<and> the_dir pdir s' = Some v \<and> i_size ino' = i_size ino + 24 \<and>
    direct_dir part b ino' s' \<and> dir_added e (entries part ino s) (entries part ino' s') \<and> kern s' = kern s \<and>
    cur_part s' = cur_part s"
proof -
  let ?dk = "my_disk (parts s part)" define B where B_def: "B = take 12 (i_sectors ino)" let ?all = "B @ replicate 128 0"
  have vol: "volume_ok part b s" "dir_entry_size b = 24" "length B = 12" "distinct (filter (\<lambda>a. a \<noteq> 0) B)"
      "\<forall>a \<in> set B. a \<noteq> 0 \<longrightarrow> used_block part b s a" "length (i_sectors ino) = 13" "i_sectors ino ! 12 = 0"
    using dd by (simp_all add: direct_dir_def B_def)
  have st: "store_ok ?dk s" "sb (parts s part) = Some b" using vol(1) by (simp_all add: volume_ok_def)
  let ?P = "\<lambda>j. j < 12 \<and> (B ! j = 0 \<or> (\<exists>x \<in> set (dir_slots (media s ?dk (unat (B ! j)))). free_slot_of x))"
  define j where "j = (LEAST j. ?P j)"
  have "\<exists>j. ?P j" using room by (auto simp: dir_room_def B_def)
  then have j: "?P j" unfolding j_def by (rule LeastI_ex)
  have before: "full_block ?dk s (?all ! m)" if "m < j" for m
  proof -
    have np: "\<not> ?P m" using that unfolding j_def by (rule not_less_Least)
    have m: "m < 12" "?all ! m = B ! m" "B ! m \<in> set B"
      using that j vol(3) nth_mem [of m B] by (simp_all add: nth_append)
    then have "B ! m \<noteq> 0" using np by blast
    then have "on_disk (B ! m)" using used_on_disk [OF vol(1)] vol(5) m(3) by blast
    then show ?thesis unfolding m(2) full_block_def using np m(1) \<open>B ! m \<noteq> 0\<close> by blast
  qed
  obtain io' where io': "length io' = length io_buf"
      "sync_blocks (dir_inode v) (entry_bytes e) 24 ?all 0 140 io_buf s =
       sync_blocks (dir_inode v) (entry_bytes e) 24 ?all j (Suc (139 - j)) io' s"
    using sync_blocks_skip [of s 0 j "entry_bytes e" io_buf ?all "dir_inode v" "Suc (139 - j)"] st(1) part e io j before
    by auto
  have run: "sync_dir_entry pdir (entry_bytes e) io_buf s =
      sync_blocks (dir_inode v) (entry_bytes e) 24 ?all j (Suc (139 - j)) io' s"
    using d ino st(2) part vol(2) sz io'(2) by (simp add: sync_dir_entry_def entry_size_def B_def)
  have B: "B = take j B @ B ! j # drop (Suc j) B" by (rule split_at) (use j vol(3) in simp)
  have all: "?all ! j = B ! j" using j vol(3) by (simp add: nth_append)
  have io2: "512 \<le> length io'" using io io'(1) by simp
  have not_a: "x \<noteq> B ! j" if "x \<in> set (take j B) \<union> set (drop (Suc j) B)" "B ! j \<noteq> 0" for x
  proof -
    have "distinct (filter (\<lambda>a. a \<noteq> 0) (take j B @ B ! j # drop (Suc j) B))" using vol(4) B by metis
    then show ?thesis using that by auto
  qed
  have sub: "x \<in> set B" if "x \<in> set (take j B) \<union> set (drop (Suc j) B)" for x
    using that by (auto dest: in_set_takeD in_set_dropD)
  show ?thesis
  proof (cases "B ! j = 0")
    case False
    have "B ! j \<in> set B" using j vol(3) by simp
    then have od: "on_disk (B ! j)" using used_on_disk(1) [OF vol(1)] vol(5) False by blast
    have fr: "\<exists>x \<in> set (dir_slots (media s ?dk (unat (B ! j)))). free_slot_of x" using j False by blast
    obtain buf s' i new where S: "sync_blocks (dir_inode v) (entry_bytes e) 24 ?all j (Suc (139 - j)) io' s = Some (True, buf, s')"
        "i < 21" "free_slot_of (dir_slots (media s ?dk (unat (B ! j))) ! i)" "length new = 512"
        "dir_slots new = (dir_slots (media s ?dk (unat (B ! j))))[i := e]"
        "\<forall>n. media s' ?dk n = (if n = unat (B ! j) then new else media s ?dk n)" "store_ok ?dk s'"
        "off_disk ?dk s' = off_disk ?dk (s\<lparr>inodes := (inodes s)(dir_inode v \<mapsto> ino\<lparr>i_size := i_size ino + 24\<rparr>)\<rparr>)"
      using sync_blocks_here [where all_blocks = ?all and k = "139 - j", OF st(1) _ all [symmetric] False od fr ino e io2] part by blast
    let ?ino = "ino\<lparr>i_size := i_size ino + 24\<rparr>"
    note same = off_disk_eq [OF S(8)] off_disk_fs [OF S(8)]
    have dd': "direct_dir part b ?ino s'"
      using dd S(7) same by (simp add: direct_dir_def volume_ok_def used_block_def)
    let ?D = "dir_slots (media s ?dk (unat (B ! j)))"
    have rest: "dir_list ?dk s' bs = dir_list ?dk s bs" if "set bs \<subseteq> set (take j B) \<union> set (drop (Suc j) B)" for bs
      by (rule dir_list_cong) (use that not_a False S(6) in \<open>auto simp: word_unat_eq_iff\<close>)
    have E: "entries part ino s = dir_list ?dk s (take j B) @ ?D @ dir_list ?dk s (drop (Suc j) B)"
      unfolding direct_entries [OF dd] B_def [symmetric] by (subst B) (use False in simp)
    have dk': "my_disk (parts s' part) = ?dk" "take 12 (i_sectors ?ino) = B" using same(2) by (simp_all add: B_def)
    have "dir_list ?dk s' (take j B @ B ! j # drop (Suc j) B) =
        dir_list ?dk s (take j B) @ ?D[i := e] @ dir_list ?dk s (drop (Suc j) B)"
      using S(5,6) False rest [of "take j B"] rest [of "drop (Suc j) B"] by simp
    then have E': "entries part ?ino s' = dir_list ?dk s (take j B) @ ?D[i := e] @ dir_list ?dk s (drop (Suc j) B)"
      unfolding direct_entries [OF dd'] dk' B [symmetric] .
    have "dir_added e (entries part ino s) (entries part ?ino s')"
      unfolding E E' dir_added_def using S(2,3) id_take_nth_drop [of i ?D] upd_conv_take_nth_drop [of i ?D e]
      by (intro exI [of _ "dir_list ?dk s (take j B) @ take i ?D"] exI [of _ "drop (Suc i) ?D @ dir_list ?dk s (drop (Suc j) B)"] disjI1
            exI [of _ "?D ! i"]) simp
    then show ?thesis
      using run S(1) dd' same d by (intro exI [of _ buf] exI [of _ s'] exI [of _ ?ino]) (simp add: the_dir_def split: dir_ref.splits)
  next
    case True
    have fb: "\<exists>i < bm_size (block_bitmap (parts s part)). \<not> bm_bit (block_bitmap (parts s part)) i" using room by (simp add: dir_room_def)
    have j': "j < 12" "j < length ?all" "?all ! j = 0" using j all True vol(3) by simp_all
    obtain buf s' lba m new where S: "sync_blocks (dir_inode v) (entry_bytes e) 24 ?all j (Suc (139 - j)) io' s = Some (True, buf, s')"
        "on_disk lba" "unat (data_start_lba b) \<le> unat lba" "\<not> used_block part b s lba" "volume_ok part b s'"
        "\<forall>a. used_block part b s' a \<longleftrightarrow> a = lba \<or> used_block part b s a" "length new = 512"
        "dir_slots new = e # replicate 20 zero_entry"
        "\<forall>n. unat (data_start_lba b) \<le> n \<longrightarrow> media s' ?dk n = (if n = unat lba then new else media s ?dk n)"
        "off_disk ?dk s' = off_disk ?dk ((upd_part part (\<lambda>p. p\<lparr>block_bitmap := m\<rparr>) s)\<lparr>inodes := (inodes s)(dir_inode v \<mapsto>
           ino\<lparr>i_sectors := (i_sectors ino)[j := lba], i_size := i_size ino + 24\<rparr>)\<rparr>)"
      using sync_blocks_new [where all_blocks = ?all and k = "139 - j", OF vol(1) part refl fb j' ino e io2]
      by (elim exE conjE, intro that) assumption+
    let ?ino = "ino\<lparr>i_sectors := (i_sectors ino)[j := lba], i_size := i_size ino + 24\<rparr>"
    note same = off_disk_eq [OF S(10)] off_disk_fs [OF S(10)]
    have new_B: "take 12 (i_sectors ?ino) = take j B @ lba # drop (Suc j) B"
      using j vol(3) unfolding B_def by (simp add: take_update_swap upd_conv_take_nth_drop)
    have lba0: "lba \<noteq> 0" using used_on_disk(2) [OF S(5)] S(6) by blast
    have fresh: "lba \<notin> set B" using vol(5) S(4) lba0 by blast
    have "distinct (filter (\<lambda>a. a \<noteq> 0) (take j B @ 0 # drop (Suc j) B))" using vol(4) B True by metis
    then have "distinct (filter (\<lambda>a. a \<noteq> 0) (take j B @ lba # drop (Suc j) B))"
      using fresh lba0 sub by auto
    moreover have "\<forall>a \<in> set (take j B @ lba # drop (Suc j) B). a \<noteq> 0 \<longrightarrow> used_block part b s' a"
      using vol(5) sub S(6) by auto
    ultimately have dd': "direct_dir part b ?ino s'"
      using S(5) vol(2,6,7) j(1) unfolding direct_dir_def new_B by simp
    have rest: "dir_list ?dk s' bs = dir_list ?dk s bs" if "set bs \<subseteq> set B" for bs
    proof (rule dir_list_cong, intro ballI impI)
      fix x assume "x \<in> set bs" "x \<noteq> 0"
      then have "x \<in> set B" "used_block part b s x" using that vol(5) by blast+
      then have "x \<noteq> lba" "unat (data_start_lba b) \<le> unat x" using fresh used_on_disk(3) [OF vol(1)] by auto
      then have "unat x \<noteq> unat lba" "unat (data_start_lba b) \<le> unat x" by (simp_all add: word_unat_eq_iff)
      then show "media s' ?dk (unat x) = media s ?dk (unat x)" using S(9) by simp
    qed
    have E: "entries part ino s = dir_list ?dk s (take j B) @ dir_list ?dk s (drop (Suc j) B)"
      unfolding direct_entries [OF dd] B_def [symmetric] by (subst B) (use True in simp)
    have "set (take j B) \<subseteq> set B" "set (drop (Suc j) B) \<subseteq> set B" using sub by blast+
    note R = rest [OF this(1)] rest [OF this(2)]
    have dk': "my_disk (parts s' part) = ?dk" using same by simp
    have "entries part ?ino s' = dir_list ?dk s (take j B) @ (e # replicate 20 zero_entry) @ dir_list ?dk s (drop (Suc j) B)"
      unfolding direct_entries [OF dd'] new_B dk' using R S(3,8,9) lba0 by simp
    then have "dir_added e (entries part ino s) (entries part ?ino s')"
      unfolding E dir_added_def by auto
    then show ?thesis
      using run S(1) dd' same d by (intro exI [of _ buf] exI [of _ s'] exI [of _ ?ino]) (simp add: the_dir_def upd_part_def split: dir_ref.splits)
  qed
qed

lemma dir_added_lookup:
  assumes add: "dir_added e xs ys" and xs: "clean xs" and e: "entry_for nm e" and new: "find (named nm) xs = None"
    and nm': "name_ok nm'"
  shows "find (named nm') ys = (if nm' = nm then Some e else find (named nm') xs)" and "clean ys"
proof -
  have z: "find (named nm') (replicate n zero_entry) = None" for n
    using named_zero [OF nm'] by (induction n) simp_all
  have ne: "named nm' e \<longleftrightarrow> nm' = nm" using named_entry_for [OF e nm'] .
  have nf: "\<not> free_slot_of e" using e by (simp add: entry_for_def)
  obtain pre post where "(\<exists>x. free_slot_of x \<and> xs = pre @ x # post \<and> ys = pre @ e # post) \<or>
     xs = pre @ post \<and> ys = pre @ e # replicate 20 zero_entry @ post"
    using add unfolding dir_added_def by blast
  then have "find (named nm') ys = (if nm' = nm then Some e else find (named nm') xs) \<and> clean ys"
  proof (elim disjE exE conjE)
    fix x assume x: "free_slot_of x" "xs = pre @ x # post" "ys = pre @ e # post"
    then have "x = zero_entry" using xs by (simp add: clean_def)
    then have "\<not> named nm' x" using named_zero [OF nm'] by simp
    then show ?thesis using x xs ne nf new by (auto simp: find_append clean_def split: option.splits)
  next
    assume "xs = pre @ post" "ys = pre @ e # replicate 20 zero_entry @ post"
    then show ?thesis using xs ne nf new z by (auto simp: find_append clean_def split: option.splits)
  qed
  then show "find (named nm') ys = (if nm' = nm then Some e else find (named nm') xs)" and "clean ys" by blast+
qed

lemma direct_dir_ok:
  assumes "direct_dir part b ino s"
  shows "dir_ok part b ino s"
proof -
  have v: "volume_ok part b s" "i_sectors ino ! 12 = 0" "\<forall>a \<in> set (take 12 (i_sectors ino)). a \<noteq> 0 \<longrightarrow> used_block part b s a"
      "dir_entry_size b = 24"
    using assms by (simp_all add: direct_dir_def)
  have "on_disk 0" by (simp add: on_disk_def)
  then have "\<forall>a \<in> set (blocks_of (my_disk (parts s part)) s ino). on_disk a"
    using v(2,3) used_on_disk(1) [OF v(1)] by (auto simp: blocks_of_def)
  then show ?thesis using v \<open>on_disk 0\<close> by (simp add: dir_ok_def volume_ok_def)
qed

text \<open>
  C21: searching a directory is looking its name up. \<open>search_dir_entry\<close> reads all the blocks of the directory, the
  indirect ones too, and returns the first entry with the name and true, or leaves the caller's entry as it was and
  returns false; nothing on the disk or in the open inodes changes, and both buffers are given back to the heap.
\<close>

theorem search_dir_entry_lookup:
  assumes "dir_ok part b ino s" and "dir_inode_of pdir s = Some ino" and "heap_ready (kern s) L (Suc (Suc k))"
    and "cstr_at mem 0 nm" and "length nm \<le> 15" and "length (filename e) = 16"
  shows "\<exists>k'. search_dir_entry part pdir mem e s =
      Some ((case lookup part ino s nm of None \<Rightarrow> (False, e) | Some e' \<Rightarrow> (True, e')), s\<lparr>kern := k'\<rparr>) \<and> heap_ready k' L k"
  using search_dir_entry_spec [OF assms] unfolding lookup_def by blast

text \<open>
  C19: adding an entry updates the map from names to entries. For a directory of direct blocks with room, \<open>sync_dir_entry\<close>
  of a name that it does not hold succeeds, in a free slot or in a new block; afterwards the name is looked up to the
  entry written, every other name to what it was before, the size has grown by one entry, and the directory is
  well-formed again, so that a search for the name finds the entry.
\<close>

theorem dir_add_lookup:
  assumes "direct_dir part b ino s" and "part = cur_part s" and "the_dir pdir s = Some v"
    and "inodes s (dir_inode v) = Some ino" and "unat (i_size ino) mod 24 = 0" and "dir_room part ino s"
    and "entry_for nm e" and "clean (entries part ino s)" and "lookup part ino s nm = None" and "512 \<le> length io_buf"
  shows "\<exists>buf s' ino'. sync_dir_entry pdir (entry_bytes e) io_buf s = Some (True, buf, s') \<and>
    dir_inode_of pdir s' = Some ino' \<and> i_size ino' = i_size ino + 24 \<and> direct_dir part b ino' s' \<and>
    clean (entries part ino' s') \<and> kern s' = kern s \<and>
    (\<forall>nm'. name_ok nm' \<longrightarrow> lookup part ino' s' nm' = (if nm' = nm then Some e else lookup part ino s nm'))"
proof -
  have e: "length (filename e) = 16" "name_ok nm" using assms(7) by (auto simp: entry_for_def name_ok_def)
  obtain buf s' ino' where S: "sync_dir_entry pdir (entry_bytes e) io_buf s = Some (True, buf, s')"
      "inodes s' = (inodes s)(dir_inode v \<mapsto> ino')" "the_dir pdir s' = Some v" "i_size ino' = i_size ino + 24"
      "direct_dir part b ino' s'" "dir_added e (entries part ino s) (entries part ino' s')" "kern s' = kern s"
    using sync_dir_entry_adds [OF assms(1-6) e(1) assms(10)] by blast
  note D = dir_added_lookup [OF S(6) assms(8,7) assms(9) [unfolded lookup_def]]
  show ?thesis
    using S D(1) D(2) [OF e(2)]
    by (intro exI [of _ buf] exI [of _ s'] exI [of _ ino']) (simp add: dir_inode_of_def lookup_def)
qed

subsection \<open>An example\<close>

text \<open>The root directory is open and has no block yet; an entry \<open>a\<close> is added.\<close>

definition demo_dir_fs :: fs_state where
  "demo_dir_fs = demo_fs\<lparr>inodes := [7 \<mapsto> zero_inode\<lparr>i_size := 48\<rparr>], root_dir := \<lparr>dir_inode = 7, dir_pos = 0, dir_buf = []\<rparr>\<rparr>"

definition demo_entry :: dir_entry where
  "demo_entry = \<lparr>filename = [0x61] @ replicate 15 0, entry_i_no = 3, f_type = FT_REGULAR\<rparr>"

lemma demo_volume: "volume_ok demo_root demo_sb demo_dir_fs"
proof -
  have "store_ok (0, 1) demo_dir_fs"
    using demo_store by (simp add: demo_dir_fs_def store_ok_def disk_ready_def drive_ok_def whole_sectors_def)
  then show ?thesis by (simp add: volume_ok_def demo_dir_fs_def bm_wf_def bm_size_def demo_bits_def)
qed

lemma demo_direct: "direct_dir demo_root demo_sb (zero_inode\<lparr>i_size := 48\<rparr>) demo_dir_fs"
  using demo_volume by (simp add: direct_dir_def zero_inode_def inode_of_zeros)

lemma demo_entries: "entries demo_root (zero_inode\<lparr>i_size := 48\<rparr>) demo_dir_fs = []"
proof -
  have "dir_list dk s (replicate n 0) = []" for dk n and s :: fs_state by (induction n) simp_all
  then show ?thesis unfolding direct_entries [OF demo_direct] by (simp add: zero_inode_def inode_of_zeros)
qed

lemma demo_room: "dir_room demo_root (zero_inode\<lparr>i_size := 48\<rparr>) demo_dir_fs"
proof -
  have "\<not> bm_bit \<lparr>btmp_bytes_len = 512, bits = demo_bits\<rparr> 1" by (simp add: bm_bit_def demo_bits_def)
  then have "\<exists>i < bm_size (block_bitmap (parts demo_dir_fs demo_root)). \<not> bm_bit (block_bitmap (parts demo_dir_fs demo_root)) i"
    by (intro exI [of _ 1]) (simp add: demo_dir_fs_def bm_size_def)
  moreover have "i_sectors (zero_inode\<lparr>i_size := 48\<rparr>) ! 0 = 0" by (simp add: zero_inode_def inode_of_zeros)
  ultimately show ?thesis unfolding dir_room_def by (metis zero_less_numeral)
qed

theorem dir_add_lookup_witness:
  "\<exists>buf s' ino'. sync_dir_entry Root_dir (entry_bytes demo_entry) (replicate 1024 0) demo_dir_fs = Some (True, buf, s') \<and>
    dir_inode_of Root_dir s' = Some ino' \<and> lookup demo_root ino' s' [0x61] = Some demo_entry \<and>
    lookup demo_root ino' s' [0x62] = None"
proof -
  have e: "entry_for [0x61] demo_entry"
    by (simp add: entry_for_def demo_entry_def name_ok_def free_slot_of_def FT_REGULAR_def FT_UNKNOWN_def)
  have l: "lookup demo_root (zero_inode\<lparr>i_size := 48\<rparr>) demo_dir_fs nm = None" for nm by (simp add: lookup_def demo_entries)
  have n: "name_ok [0x61]" "name_ok [0x62]" by (simp_all add: name_ok_def)
  show ?thesis
    using dir_add_lookup [OF demo_direct _ _ _ _ demo_room e _ l, of Root_dir "root_dir demo_dir_fs" "replicate 1024 0"] n l
    by (auto simp: demo_dir_fs_def the_dir_def demo_entries [unfolded demo_dir_fs_def] clean_def)
qed

theorem search_dir_entry_lookup_witness:
  "\<exists>k'. search_dir_entry demo_root Root_dir [0x61, 0] zero_entry demo_dir_fs = Some ((False, zero_entry), demo_dir_fs\<lparr>kern := k'\<rparr>)"
proof -
  obtain L where "fs_ok demo_root demo_sb L 7 demo_fs" using demo_fs_ok by blast
  then have "heap_ready (kern demo_dir_fs) L (Suc (Suc 5))"
    by (auto simp: fs_ok_def demo_dir_fs_def eval_nat_numeral)
  from search_dir_entry_lookup [OF direct_dir_ok [OF demo_direct] _ this, of Root_dir "[0x61, 0]" "[0x61]" zero_entry]
  show ?thesis
    by (auto simp: demo_dir_fs_def the_dir_def dir_inode_of_def lookup_def demo_entries [unfolded demo_dir_fs_def]
        zero_entry_def entry_of_bytes_def)
qed

end
