(* ===== verification/Shell_Line.thy ===== *)
theory Shell_Line
  imports Fs_Calls
begin

text \<open>
  The text half of the shell: reading a line and splitting it into words (\<open>shell/shell.c\<close>), and making a
  path absolute and free of \<open>.\<close> and \<open>..\<close> (\<open>shell/buildin_cmd.c\<close>). The command line is the memory
  \<open>0 # cmd_line\<close>, so that no position in it is the null pointer; \<open>argv\<close> holds addresses of that memory.
\<close>

definition MAX_ARG_NR :: nat where "MAX_ARG_NR = 16"

definition newline :: u8 where "newline = 10"
definition backspace :: u8 where "backspace = 8"

subsection \<open>Reading a line\<close>

text \<open>What the shell does to the console: calls of \<open>putchar\<close>, \<open>clear\<close>, \<open>ps\<close> and \<open>printf\<close>.\<close>

datatype printf_arg = Str "u8 list" | Num u32 | Chr u8

datatype console_call = Putchar u8 | Clear | Ps | Printf string "printf_arg list"

definition nl :: string where "nl = [CHR 0x0A]"

text \<open>A string argument is what \<open>%s\<close> prints of a buffer: the bytes before the first zero.\<close>

definition Str_of :: "u8 list \<Rightarrow> printf_arg" where
  "Str_of buf = Str (takeWhile (\<lambda>c. c \<noteq> 0) buf)"

definition print_prompt :: "u8 list \<Rightarrow> console_call" where
  "print_prompt cwd_cache = Printf ''[tianjiao@localhost %s]$ '' [Str_of cwd_cache]"

text \<open>\<open>ctrl + u\<close>: the characters from \<open>pos\<close> back to the second one become zero.\<close>

fun kill_line :: "u8 list \<Rightarrow> nat \<Rightarrow> (u8 list \<times> console_call list) option" where
  "kill_line cmd_line 0 = Some (cmd_line, [])"
| "kill_line cmd_line (Suc pos) = do {
     cmd_line \<leftarrow> wr cmd_line (Suc pos) 0;
     (cmd_line, out) \<leftarrow> kill_line cmd_line pos;
     Some (cmd_line, Putchar backspace # out) }"

text \<open>
  One call of the loop per key. \<open>read\<close> of the standard input never fails; the keys that are there are
  \<open>keys\<close>, and waiting for one more is \<open>None\<close>. The byte is stored before \<open>pos - buf < count\<close> is tested.
  The result is the line, the keys left and the console.
\<close>

fun readline_loop ::
  "u8 list \<Rightarrow> u8 list \<Rightarrow> nat \<Rightarrow> nat \<Rightarrow> u8 list \<Rightarrow> (u8 list \<times> u8 list \<times> console_call list) option" where
  "readline_loop cwd_cache cmd_line pos count [] = None"
| "readline_loop cwd_cache cmd_line pos count (c # keys) = do {
     cmd_line \<leftarrow> wr cmd_line pos c;
     if \<not> pos < count then
       Some (cmd_line, keys,
         [Printf (''readline: can't find entry_key in the cmd_line, max num of char is 128'' @ nl) []])
     else if c = 11 then do {  \<comment> \<open>'l' - 'a'\<close>
       cmd_line \<leftarrow> wr cmd_line pos 0;
       (l, k, out) \<leftarrow> readline_loop cwd_cache cmd_line pos count keys;
       Some (l, k, [Clear, print_prompt cwd_cache, Printf ''%s'' [Str_of cmd_line]] @ out) }
     else if c = 20 then do {  \<comment> \<open>'u' - 'a'\<close>
       (cmd_line, erased) \<leftarrow> kill_line cmd_line pos;
       (l, k, out) \<leftarrow> readline_loop cwd_cache cmd_line 0 count keys;
       Some (l, k, erased @ out) }
     else if c = newline \<or> c = 13 then do {
       cmd_line \<leftarrow> wr cmd_line pos 0;
       Some (cmd_line, keys, [Putchar newline]) }
     else if c = backspace then do {
       c0 \<leftarrow> rd cmd_line 0;
       if c0 \<noteq> backspace then
         if pos = 0 then None
         else do {
           (l, k, out) \<leftarrow> readline_loop cwd_cache cmd_line (pos - 1) count keys;
           Some (l, k, Putchar backspace # out) }
       else readline_loop cwd_cache cmd_line pos count keys }
     else do {
       (l, k, out) \<leftarrow> readline_loop cwd_cache cmd_line (pos + 1) count keys;
       Some (l, k, Putchar c # out) } }"

definition readline ::
  "u8 list \<Rightarrow> u8 list \<Rightarrow> nat \<Rightarrow> u8 list \<Rightarrow> (u8 list \<times> u8 list \<times> console_call list) option" where
  "readline cwd_cache cmd_line count keys = do {
     ASSERT (count > 0);
     readline_loop cwd_cache cmd_line 0 count keys }"

subsection \<open>Splitting a line\<close>

function skip_token :: "mem \<Rightarrow> addr \<Rightarrow> u8 \<Rightarrow> addr option" where
  "skip_token mem p token = do {
     c \<leftarrow> rd mem p;
     if c = token then skip_token mem (p + 1) token else Some p }"
  by pat_completeness auto
termination
  by (relation "measure (\<lambda>(mem, p, token). length mem - p)") (auto simp: rd_eq_Some)

function skip_word :: "mem \<Rightarrow> addr \<Rightarrow> u8 \<Rightarrow> addr option" where
  "skip_word mem p token = do {
     c \<leftarrow> rd mem p;
     if c \<noteq> 0 \<and> c \<noteq> token then skip_word mem (p + 1) token else Some p }"
  by pat_completeness auto
termination
  by (relation "measure (\<lambda>(mem, p, token). length mem - p)") (auto simp: rd_eq_Some)

declare skip_token.simps [simp del] skip_word.simps [simp del]

text \<open>\<open>-1\<close> is \<open>0xffffffff\<close>. The bound on \<open>argc\<close> is tested after \<open>argv[argc]\<close> has been written.\<close>

partial_function (option) cmd_parse_loop ::
  "mem \<Rightarrow> addr \<Rightarrow> addr list \<Rightarrow> nat \<Rightarrow> u8 \<Rightarrow> (u32 \<times> addr list \<times> mem) option" where
  "cmd_parse_loop mem nxt argv argc token =
     Option.bind (rd mem nxt) (\<lambda>c.
     if c = 0 then Some (word_of_nat argc, argv, mem)
     else
       Option.bind (skip_token mem nxt token) (\<lambda>nxt.
       Option.bind (rd mem nxt) (\<lambda>c.
       if c = 0 then Some (word_of_nat argc, argv, mem)
       else
         Option.bind (wr argv argc nxt) (\<lambda>argv.
         Option.bind (skip_word mem nxt token) (\<lambda>nxt.
         Option.bind (rd mem nxt) (\<lambda>c.
         Option.bind (if c \<noteq> 0 then Option.bind (wr mem nxt 0) (\<lambda>mem. Some (mem, nxt + 1))
                      else Some (mem, nxt)) (\<lambda>(mem, nxt).
         if argc > MAX_ARG_NR then Some (-1, argv, mem)
         else cmd_parse_loop mem nxt argv (argc + 1) token)))))))"

definition cmd_parse :: "mem \<Rightarrow> addr \<Rightarrow> addr list \<Rightarrow> u8 \<Rightarrow> (u32 \<times> addr list \<times> mem) option" where
  "cmd_parse mem cmd_str argv token = do {
     ASSERT (cmd_str \<noteq> NULL);
     ASSERT (MAX_ARG_NR \<le> length argv);
     let argv = put_bytes argv 0 (replicate MAX_ARG_NR NULL);
     cmd_parse_loop mem cmd_str argv 0 token }"

subsection \<open>Washing a path\<close>

text \<open>One name: \<open>..\<close> cuts the last name off, \<open>.\<close> changes nothing, any other name is added.\<close>

definition wash_name :: "u8 list \<Rightarrow> u8 list \<Rightarrow> u8 list option" where
  "wash_name nm new_abs_path = do {
     up \<leftarrow> strcmp_loop dotdot 0 nm 0;
     if up = 0 then do {
       slash_ptr \<leftarrow> strrchr (0 # new_abs_path) 1 slash;
       ASSERT (slash_ptr \<noteq> NULL);  \<comment> \<open>otherwise the store goes to address 0\<close>
       if slash_ptr \<noteq> 1 then wr new_abs_path (slash_ptr - 1) 0 else wr new_abs_path slash_ptr 0 }
     else do {
       same \<leftarrow> strcmp_loop dot 0 nm 0;
       if same \<noteq> 0 then do {
         top \<leftarrow> strcmp_loop new_abs_path 0 [slash, 0] 0;
         new_abs_path \<leftarrow> (if top \<noteq> 0 then str_cat new_abs_path [slash, 0] else Some new_abs_path);
         str_cat new_abs_path nm }
       else Some new_abs_path } }"

partial_function (option) wash_loop ::
  "mem \<Rightarrow> addr \<Rightarrow> u8 list \<Rightarrow> u8 list \<Rightarrow> (u8 list \<times> mem) option" where
  "wash_loop mem sub_path nm new_abs_path =
     (if nm ! 0 \<noteq> 0 then
        Option.bind (wash_name nm new_abs_path) (\<lambda>new_abs_path.
        let nm = replicate MAX_FILE_NAME_LEN 0
        in if sub_path \<noteq> NULL then
             Option.bind (path_parse mem sub_path nm) (\<lambda>(sub_path, mem, nm). wash_loop mem sub_path nm new_abs_path)
           else wash_loop mem sub_path nm new_abs_path)
      else Some (new_abs_path, mem))"

definition wash_path :: "mem \<Rightarrow> addr \<Rightarrow> u8 list \<Rightarrow> (u8 list \<times> mem) option" where
  "wash_path mem old_abs_path new_abs_path = do {
     c \<leftarrow> rd mem old_abs_path;
     ASSERT (c = slash);
     (sub_path, mem, nm) \<leftarrow> path_parse mem old_abs_path (replicate MAX_FILE_NAME_LEN 0);
     if nm ! 0 = 0 then do {
       new_abs_path \<leftarrow> put_buf new_abs_path 0 [slash, 0];
       Some (new_abs_path, mem) }
     else do {
       new_abs_path \<leftarrow> wr new_abs_path 0 0;
       new_abs_path \<leftarrow> str_cat new_abs_path [slash, 0];
       wash_loop mem sub_path nm new_abs_path } }"

end
