(* ===== verification/Path_Spec.thy ===== *)
theory Path_Spec
  imports Shell_Line
begin

text \<open>
  What the path functions do to a path of plain names separated by single slashes: \<open>path_parse\<close> takes
  the first name off, \<open>path_depth_cnt\<close> counts the names, and \<open>wash_path\<close> resolves \<open>.\<close> and \<open>..\<close>. Each loop
  comes to its end on such a path.
\<close>

subsection \<open>Paths\<close>

definition comp_ok :: "u8 list \<Rightarrow> bool" where
  "comp_ok c \<longleftrightarrow> c \<noteq> [] \<and> slash \<notin> set c \<and> 0 \<notin> set c \<and> length c < MAX_FILE_NAME_LEN"

definition path_of :: "u8 list list \<Rightarrow> u8 list" where
  "path_of cs = concat (map (\<lambda>c. slash # c) cs)"

definition show_path :: "u8 list list \<Rightarrow> u8 list" where
  "show_path cs = (if cs = [] then [slash] else path_of cs)"

definition padded :: "u8 list \<Rightarrow> u8 list" where
  "padded c = c @ replicate (MAX_FILE_NAME_LEN - length c) 0"

lemma path_of_simps [simp]:
  "path_of [] = []" "path_of (c # cs) = slash # c @ path_of cs" "path_of (cs @ ds) = path_of cs @ path_of ds"
  by (simp_all add: path_of_def)

lemma path_of_hd: "path_of cs = [] \<or> hd (path_of cs) = slash"
  by (cases cs) auto

lemma slash_ne [simp]: "slash \<noteq> 0" "0 \<noteq> slash"
  by (simp_all add: slash_def)

lemma path_of_no_zero: "\<forall>c \<in> set cs. comp_ok c \<Longrightarrow> 0 \<notin> set (path_of cs)"
  by (induction cs) (auto simp: comp_ok_def)

subsection \<open>Taking a name off\<close>


lemma copy_name_spec:
  "cstr_at mem p (c @ rest) \<Longrightarrow> slash \<notin> set c \<Longrightarrow> rest = [] \<or> hd rest = slash \<Longrightarrow>
   k + length c \<le> length nm \<Longrightarrow> copy_name mem p nm k = Some (p + length c, put_bytes nm k c)"
proof (induction c arbitrary: p nm k)
  case Nil
  then show ?case
    by (cases rest) (subst copy_name.simps, auto)+
next
  case (Cons x c)
  have "copy_name mem (Suc p) (nm[k := x]) (Suc k) = Some (Suc p + length c, put_bytes (nm[k := x]) (Suc k) c)"
    by (rule Cons.IH) (use Cons.prems in auto)
  moreover have "put_bytes (nm[k := x]) (Suc k) c = put_bytes nm k (x # c)"
    by (rule put_bytes_Cons) (use Cons.prems in simp)
  ultimately show ?case using Cons.prems by (subst copy_name.simps) auto
qed

lemma cstr_at_suffix: "cstr_at m a (s @ t) \<Longrightarrow> cstr_at m (a + length s) t"
proof (induction s arbitrary: a)
  case (Cons x s)
  then have "cstr_at m (Suc a + length s) t" by (intro Cons.IH) simp
  then show ?case by simp
qed simp

lemma path_parse_spec:
  assumes "cstr_at mem p (path_of (c # cs))" and "slash \<notin> set c" and "length c \<le> length nm"
  shows "path_parse mem p nm =
    Some (if cs = [] then NULL else p + 1 + length c, mem, put_bytes nm 0 c)"
proof -
  have hd: "p < length mem" "mem ! p = slash" and tl: "cstr_at mem (p + 1) (c @ path_of cs)"
    using assms(1) by auto
  have w: "wr mem p slash = Some mem" using hd by (metis wr_in list_update_id)
  have c: "copy_name mem (p + 1) nm 0 = Some (p + 1 + length c, put_bytes nm 0 c)"
    by (rule copy_name_spec [OF tl assms(2)]) (use assms(3) in \<open>auto simp: path_of_hd\<close>)
  have e: "cstr_at mem (p + 1 + length c) (path_of cs)" by (rule cstr_at_suffix [OF tl])
  show ?thesis
  proof (cases cs)
    case Nil
    then show ?thesis using w c e by (simp add: path_parse_def)
  next
    case (Cons d ds)
    then show ?thesis using w c e by (simp add: path_parse_def)
  qed
qed

lemma put_zeros: "length c \<le> MAX_FILE_NAME_LEN \<Longrightarrow> put_bytes (replicate MAX_FILE_NAME_LEN 0) 0 c = padded c"
  by (simp add: put_bytes_def padded_def)

lemma padded_nth0: "comp_ok c \<Longrightarrow> padded c ! 0 \<noteq> 0"
  by (cases c) (auto simp: comp_ok_def padded_def)

lemma put_nth0: "comp_ok c \<Longrightarrow> length nm = MAX_FILE_NAME_LEN \<Longrightarrow> put_bytes nm 0 c ! 0 \<noteq> 0"
  by (cases c) (auto simp: comp_ok_def put_bytes_def)

lemma zeros_nth0: "replicate MAX_FILE_NAME_LEN (0 :: u8) ! 0 = 0"
  by (simp add: MAX_FILE_NAME_LEN_def)

text \<open>Where the walk over a path stands: the address of the names left, or the null pointer.\<close>

definition names_at :: "mem \<Rightarrow> addr \<Rightarrow> u8 list list \<Rightarrow> bool" where
  "names_at mem p cs \<longleftrightarrow> (if cs = [] then p = NULL else p \<noteq> NULL \<and> cstr_at mem p (path_of cs))"

lemma parse_next:
  assumes "names_at mem p (c # cs)" and "\<forall>c \<in> set (c # cs). comp_ok c" and "length nm = MAX_FILE_NAME_LEN"
  obtains p' where "path_parse mem p nm = Some (p', mem, put_bytes nm 0 c)" "names_at mem p' cs"
proof -
  have c: "cstr_at mem p (path_of (c # cs))" using assms(1) by (simp add: names_at_def)
  have "path_parse mem p nm = Some (if cs = [] then NULL else p + 1 + length c, mem, put_bytes nm 0 c)"
    by (rule path_parse_spec [OF c]) (use assms in \<open>auto simp: comp_ok_def\<close>)
  moreover have "cstr_at mem (p + 1 + length c) (path_of cs)"
    using c cstr_at_suffix [of mem "p + 1" c "path_of cs"] by simp
  ultimately show ?thesis using that by (auto simp: names_at_def NULL_def)
qed

subsection \<open>The depth\<close>

lemma depth_loop_spec:
  "names_at mem p cs \<Longrightarrow> \<forall>c \<in> set cs. comp_ok c \<Longrightarrow> nm ! 0 \<noteq> 0 \<Longrightarrow>
   depth_loop mem p nm d = Some (d + 1 + word_of_nat (length cs), mem)"
proof (induction cs arbitrary: p nm d)
  case Nil
  have e: "depth_loop mem NULL (replicate MAX_FILE_NAME_LEN 0) (d + 1) = Some (d + 1, mem)"
    by (subst depth_loop.simps) (simp add: zeros_nth0)
  show ?case
    using Nil by (subst depth_loop.simps) (simp add: names_at_def Let_def e)
next
  case (Cons c cs)
  obtain p' where p': "path_parse mem p (replicate MAX_FILE_NAME_LEN 0) =
      Some (p', mem, put_bytes (replicate MAX_FILE_NAME_LEN 0) 0 c)" "names_at mem p' cs"
    using parse_next [OF Cons.prems(1,2), of "replicate MAX_FILE_NAME_LEN 0"] by auto
  have ok: "comp_ok c" and "p \<noteq> NULL" using Cons.prems by (auto simp: names_at_def)
  have "depth_loop mem p' (put_bytes (replicate MAX_FILE_NAME_LEN 0) 0 c) (d + 1) =
      Some (d + 1 + 1 + word_of_nat (length cs), mem)"
    by (rule Cons.IH [OF p'(2)]) (use Cons.prems put_nth0 [OF ok] in auto)
  then show ?case
    using Cons.prems \<open>p \<noteq> NULL\<close> by (subst depth_loop.simps) (simp add: Let_def p' add_ac)
qed



subsection \<open>Washing\<close>

text \<open>The reference: the names a path leads through, one step per name.\<close>

definition wash_step :: "u8 list list \<Rightarrow> u8 list \<Rightarrow> u8 list list" where
  "wash_step cs c = (if c = [0x2e, 0x2e] then butlast cs else if c = [0x2e] then cs else cs @ [c])"

definition washed :: "u8 list list \<Rightarrow> u8 list list" where
  "washed cs = foldl wash_step [] cs"

lemma cstr_at_shift: "cstr_at m a s \<Longrightarrow> cstr_at (0 # m) (Suc a) s"
  by (induction s arbitrary: a) auto

lemma cstr_at_whole: "0 \<notin> set s \<Longrightarrow> cstr_at (s @ 0 # r) 0 s"
  by (simp add: cstr_at_def bytes_at_def nth_append)

lemma cstr_at_cut_at:
  assumes "cstr_at m a (s @ t)"
  shows "cstr_at (m[a + length s := 0]) a s"
proof -
  have l: "a + length s < length m" using cstr_at_len [OF assms] by simp
  have "bytes_at a (length s) (m[a + length s := 0]) = s"
    by (rule nth_equalityI) (use l cstr_at_nth [OF assms] in \<open>auto simp: nth_append nth_list_update\<close>)
  then show ?thesis using assms l by (simp add: cstr_at_def)
qed

lemmas cstr_at_cut = cstr_at_cut_at [where a = 0, simplified]

lemma str_cat_spec:
  assumes s: "cstr_at dst 0 s" and t: "cstr_at src 0 t" and l: "length s + length t < length dst"
  obtains dst' where "str_cat dst src = Some dst'" "length dst' = length dst" "cstr_at dst' 0 (s @ t)"
proof
  let ?d = "put_bytes dst (length s) (t @ [0])"
  have b: "bytes_at 0 (Suc (length t)) src = t @ [0]"
    by (rule nth_equalityI)
      (use t cstr_at_len [OF t] cstr_at_nth [OF t] in \<open>auto simp: nth_append cstr_at_def less_Suc_eq\<close>)
  show "str_cat dst src = Some ?d"
    using cstr_at_len [OF t] l
    by (simp add: str_cat_def str_past_eq [OF s] str_past_eq [OF t] b put_buf_def)
  show "length ?d = length dst" using l by simp
  have z: "0 \<notin> set (s @ t)" using s t by (simp add: cstr_at_def)
  have "bytes_at 0 (length (s @ t)) ?d = s @ t"
    by (rule nth_equalityI) (use l cstr_at_nth [OF s] in \<open>auto simp: nth_put_bytes nth_append\<close>)
  then show "cstr_at ?d 0 (s @ t)"
    unfolding cstr_at_def using l z by (auto simp: nth_put_bytes nth_append)
qed

lemma padded_cstr: "comp_ok c \<Longrightarrow> cstr_at (padded c) 0 c"
  unfolding padded_def comp_ok_def
  by (metis Suc_diff_Suc cstr_at_whole replicate_Suc)

lemma last_slash: "comp_ok c \<Longrightarrow> last_pos 1 slash (path_of ds @ slash # c) r = 1 + length (path_of ds)"
  by (rule last_pos_split) (simp add: comp_ok_def)

lemma show_path_eq: "show_path cs = [slash] \<longleftrightarrow> cs = []" if "\<forall>c \<in> set cs. comp_ok c"
  using that by (cases cs) (auto simp: show_path_def comp_ok_def)

lemma wash_step_ok: "\<forall>c \<in> set cs. comp_ok c \<Longrightarrow> comp_ok d \<Longrightarrow> \<forall>c \<in> set (wash_step cs d). comp_ok c"
  by (auto simp: wash_step_def dest: in_set_butlastD)

lemma path_of_butlast: "length (path_of (butlast cs)) \<le> length (path_of cs)"
  by (cases cs rule: rev_cases) auto

lemma wash_step_length: "length (path_of (wash_step cs c)) \<le> length (path_of cs) + length (path_of [c])"
  using path_of_butlast [of cs] by (auto simp: wash_step_def)

lemma wash_name_spec:
  assumes np: "cstr_at np 0 (show_path cs)" and cs: "\<forall>c \<in> set cs. comp_ok c" and c: "comp_ok c"
    and l: "length (path_of cs) + length (path_of [c]) < length np"
  obtains np' where "wash_name (padded c) np = Some np'" "length np' = length np"
    "cstr_at np' 0 (show_path (wash_step cs c))"
proof -
  have c1: "0 < length c" using c by (simp add: comp_ok_def)
  have up: "strcmp_loop dotdot 0 (padded c) 0 = Some (str_order [0x2e, 0x2e] c)"
    by (rule strcmp_loop_eq [OF _ padded_cstr [OF c]]) (simp add: dotdot_def)
  have same: "strcmp_loop dot 0 (padded c) 0 = Some (str_order [0x2e] c)"
    by (rule strcmp_loop_eq [OF _ padded_cstr [OF c]]) (simp add: dot_def)
  have root: "strcmp_loop np 0 [slash, 0] 0 = Some (str_order (show_path cs) [slash])"
    by (rule strcmp_loop_eq [OF np]) simp
  have sl: "strrchr (0 # np) 1 slash = Some (last_pos 1 slash (show_path cs) NULL)"
    using strrchr_loop_eq [OF cstr_at_shift [OF np], of slash NULL]
    by (simp add: strrchr_def NULL_def slash_def)
  consider (up) "c = [0x2e, 0x2e]" | (same) "c = [0x2e]" | (plain) "c \<noteq> [0x2e, 0x2e]" "c \<noteq> [0x2e]" by blast
  then show thesis
  proof cases
    case up
    show thesis
    proof (cases cs rule: rev_cases)
      case Nil
      have "cstr_at np 0 ([slash] @ [])" using np Nil by (simp add: show_path_def)
      from cstr_at_cut [OF this] have "cstr_at (np[1 := 0]) 0 [slash]" by simp
      then show thesis
        using that [of "np[1 := 0]"] \<open>c = _\<close> Nil l sl \<open>strcmp_loop dotdot 0 (padded c) 0 = _\<close>
        by (simp add: wash_name_def wash_step_def show_path_def str_order_0 NULL_def)
    next
      case (snoc ds d)
      have d: "comp_ok d" using cs snoc by simp
      have p: "show_path cs = path_of ds @ slash # d" using snoc by (simp add: show_path_def)
      have pos: "last_pos 1 slash (show_path cs) NULL = 1 + length (path_of ds)"
        unfolding p by (rule last_slash [OF d])
      show thesis
      proof (cases "ds = []")
        case True
        have "cstr_at np 0 ([slash] @ d)" using np p True by simp
        from cstr_at_cut [OF this] have "cstr_at (np[1 := 0]) 0 [slash]" by simp
        then show thesis
          using that [of "np[1 := 0]"] \<open>c = _\<close> snoc True l sl pos \<open>strcmp_loop dotdot 0 (padded c) 0 = _\<close>
          by (simp add: wash_name_def wash_step_def show_path_def str_order_0 NULL_def)
      next
        case False
        have "cstr_at (np[length (path_of ds) := 0]) 0 (path_of ds)"
          by (rule cstr_at_cut) (use np p in simp)
        moreover have "length (path_of ds) \<noteq> 0" using False by (cases ds) auto
        ultimately show thesis
          using that [of "np[length (path_of ds) := 0]"] \<open>c = _\<close> snoc False l sl pos
            \<open>strcmp_loop dotdot 0 (padded c) 0 = _\<close>
          by (simp add: wash_name_def wash_step_def show_path_def str_order_0 NULL_def)
      qed
    qed
  next
    case same
    then show thesis
      using that [of np] np up \<open>strcmp_loop dot 0 (padded c) 0 = _\<close>
      by (simp add: wash_name_def wash_step_def str_order_0)
  next
    case plain
    have ne: "str_order [0x2e, 0x2e] c \<noteq> 0" "str_order [0x2e] c \<noteq> 0" using plain by (auto simp: str_order_0)
    obtain np1 where np1: "(if str_order (show_path cs) [slash] \<noteq> 0 then str_cat np [slash, 0] else Some np) = Some np1"
      "length np1 = length np" "cstr_at np1 0 (path_of cs @ [slash])"
    proof (cases "cs = []")
      case True
      then show thesis using that [of np] np by (simp add: show_path_def str_order_0)
    next
      case False
      then have sp: "show_path cs = path_of cs" by (simp add: show_path_def)
      obtain np' where "str_cat np [slash, 0] = Some np'" "length np' = length np"
        "cstr_at np' 0 (path_of cs @ [slash])"
        by (rule str_cat_spec [of np "path_of cs" "[slash, 0]" "[slash]"]) (use np sp l c1 in auto)
      then show thesis using that False show_path_eq [OF cs] by (simp add: str_order_0)
    qed
    obtain np2 where np2: "str_cat np1 (padded c) = Some np2" "length np2 = length np1"
      "cstr_at np2 0 ((path_of cs @ [slash]) @ c)"
      by (rule str_cat_spec [OF np1(3) padded_cstr [OF c]]) (use l np1(2) in auto)
    show thesis
      using that [of np2] np1 np2 up same root ne plain
      by (simp add: wash_name_def wash_step_def show_path_def)
  qed
qed

lemma wash_loop_spec:
  "names_at mem p cs \<Longrightarrow> \<forall>d \<in> set (c # cs). comp_ok d \<Longrightarrow> \<forall>d \<in> set acc. comp_ok d \<Longrightarrow>
   cstr_at np 0 (show_path acc) \<Longrightarrow> length (path_of acc) + length (path_of (c # cs)) < length np \<Longrightarrow>
   \<exists>np'. wash_loop mem p (padded c) np = Some (np', mem) \<and> length np' = length np \<and>
     cstr_at np' 0 (show_path (foldl wash_step acc (c # cs)))"
proof (induction cs arbitrary: p c acc np)
  case Nil
  obtain np' where np': "wash_name (padded c) np = Some np'" "length np' = length np"
    "cstr_at np' 0 (show_path (wash_step acc c))"
    by (rule wash_name_spec [OF Nil(4,3)]) (use Nil in auto)
  have e: "wash_loop mem NULL (replicate MAX_FILE_NAME_LEN 0) np' = Some (np', mem)"
    by (subst wash_loop.simps) (simp add: zeros_nth0)
  have ok: "comp_ok c" using Nil by simp
  show ?case
    using Nil(1) np' padded_nth0 [OF ok] by (subst wash_loop.simps) (simp add: names_at_def Let_def e)
next
  case (Cons d cs)
  have ok: "comp_ok c" "comp_ok d" using Cons.prems by auto
  obtain np' where np': "wash_name (padded c) np = Some np'" "length np' = length np"
    "cstr_at np' 0 (show_path (wash_step acc c))"
    by (rule wash_name_spec [OF Cons.prems(4,3) ok(1)]) (use Cons.prems(5) in auto)
  obtain p' where p': "path_parse mem p (replicate MAX_FILE_NAME_LEN 0) =
      Some (p', mem, put_bytes (replicate MAX_FILE_NAME_LEN 0) 0 d)" "names_at mem p' cs"
    by (rule parse_next [OF Cons.prems(1)]) (use Cons.prems in auto)
  have pad: "put_bytes (replicate MAX_FILE_NAME_LEN 0) 0 d = padded d"
    by (rule put_zeros) (use ok in \<open>simp add: comp_ok_def\<close>)
  have "p \<noteq> NULL" using Cons.prems(1) by (simp add: names_at_def)
  have "\<exists>np''. wash_loop mem p' (padded d) np' = Some (np'', mem) \<and> length np'' = length np' \<and>
     cstr_at np'' 0 (show_path (foldl wash_step (wash_step acc c) (d # cs)))"
  proof (rule Cons.IH [OF p'(2) _ _ np'(3)])
    show "\<forall>e \<in> set (wash_step acc c). comp_ok e" by (rule wash_step_ok [OF Cons.prems(3) ok(1)])
    show "length (path_of (wash_step acc c)) + length (path_of (d # cs)) < length np'"
      using wash_step_length [of acc c] Cons.prems(5) np'(2) by simp
  qed (use Cons.prems in auto)
  then show ?case
    using np' p' pad \<open>p \<noteq> NULL\<close> padded_nth0 [OF ok(1)] by (subst wash_loop.simps) (auto simp: Let_def)
qed



end
