(* ===== verification/Shell_Spec.thy ===== *)
theory Shell_Spec
  imports Path_Spec
begin

text \<open>
  What the shell reads: the line an editor with a backspace and a kill key gives, and the words of a line.
\<close>

subsection \<open>Words\<close>

function words :: "u8 \<Rightarrow> u8 list \<Rightarrow> u8 list list" where
  "words token s = (case dropWhile (\<lambda>c. c = token) s of
      [] \<Rightarrow> []
    | c # r \<Rightarrow> (c # takeWhile (\<lambda>c. c \<noteq> token) r) # words token (drop 1 (dropWhile (\<lambda>c. c \<noteq> token) r)))"
  by pat_completeness auto
termination
proof (relation "measure (\<lambda>(token, s). length s)")
  fix token :: u8 and s c r
  assume "dropWhile (\<lambda>c. c = token) s = c # r"
  then have "length (c # r) \<le> length s" by (metis length_dropWhile_le)
  moreover have "length (dropWhile (\<lambda>c. c \<noteq> token) r) \<le> length r" by (rule length_dropWhile_le)
  ultimately show "((token, drop 1 (dropWhile (\<lambda>c. c \<noteq> token) r)), token, s) \<in> measure (\<lambda>(token, s). length s)"
    by simp
qed simp

declare words.simps [simp del]

lemma skip_token_eq:
  "cstr_at mem p s \<Longrightarrow> token \<noteq> 0 \<Longrightarrow>
   skip_token mem p token = Some (p + length (takeWhile (\<lambda>c. c = token) s))"
  by (induction s arbitrary: p) (subst skip_token.simps, auto)+

lemma skip_word_eq:
  "cstr_at mem p s \<Longrightarrow> skip_word mem p token = Some (p + length (takeWhile (\<lambda>c. c \<noteq> token) s))"
  by (induction s arbitrary: p) (subst skip_word.simps, auto)+

definition args_at :: "mem \<Rightarrow> addr list \<Rightarrow> nat \<Rightarrow> u8 list list \<Rightarrow> bool" where
  "args_at mem argv k ws \<longleftrightarrow> (\<forall>i < length ws. cstr_at mem (argv ! (k + i)) (ws ! i))"

definition parsed :: "mem \<Rightarrow> addr \<Rightarrow> addr list \<Rightarrow> nat \<Rightarrow> u8 list list \<Rightarrow> (u32 \<times> addr list \<times> mem) option \<Rightarrow> bool" where
  "parsed mem p argv k ws r \<longleftrightarrow>
     (if k + length ws \<le> length argv
      then \<exists>argv' mem'. r = Some (word_of_nat (k + length ws), argv', mem') \<and> length argv' = length argv \<and>
        args_at mem' argv' k ws \<and> (\<forall>i. i < k \<or> k + length ws \<le> i \<longrightarrow> argv' ! i = argv ! i) \<and>
        length mem' = length mem \<and> (\<forall>i < p. mem' ! i = mem ! i)
      else r = None)"

lemma args_at_Cons:
  "args_at mem argv k (w # ws) \<longleftrightarrow> cstr_at mem (argv ! k) w \<and> args_at mem argv (Suc k) ws"
  by (simp add: args_at_def All_less_Suc2)

lemma parsed_none: "k \<le> length argv \<Longrightarrow> parsed mem p argv k [] (Some (word_of_nat k, argv, mem))"
  by (simp add: parsed_def args_at_def)

lemma parsed_Cons:
  assumes rec: "parsed mem1 nxt argv1 (k + 1) ws r"
    and argv1: "argv1 = argv[k := q]" "k < length argv"
    and w: "cstr_at mem1 q w" "q + length w < nxt \<or> nxt = q + length w \<and> ws = [] \<and> r = Some (word_of_nat (k + 1), argv1, mem1)"
    and mem1: "length mem1 = length mem" "\<forall>i < p. mem1 ! i = mem ! i" "p \<le> q"
  shows "parsed mem p argv k (w # ws) r"
proof (cases "k + 1 + length ws \<le> length argv")
  case True
  from rec True argv1 obtain argv' mem' where r: "r = Some (word_of_nat (k + 1 + length ws), argv', mem')"
    and a: "length argv' = length argv1" "args_at mem' argv' (k + 1) ws"
      "\<forall>i. i < k + 1 \<or> k + 1 + length ws \<le> i \<longrightarrow> argv' ! i = argv1 ! i"
    and m: "length mem' = length mem1" "\<forall>i < nxt. mem' ! i = mem1 ! i"
    unfolding parsed_def by auto
  have "argv' ! k = q" using a argv1 by simp
  moreover have "cstr_at mem' q w"
  proof (cases "q + length w < nxt")
    case True
    show ?thesis by (rule cstr_at_cong [OF w(1) m(1)]) (use m(2) True in auto)
  next
    case False
    then have "mem' = mem1" using w(2) r by auto
    then show ?thesis using w(1) by simp
  qed
  ultimately have "args_at mem' argv' k (w # ws)" using a by (simp add: args_at_Cons)
  moreover have "\<forall>i < p. mem' ! i = mem ! i" using m(2) mem1 w(2) by auto
  ultimately show ?thesis unfolding parsed_def using r a argv1 m mem1 True by auto
next
  case False
  with rec argv1 show ?thesis by (simp add: parsed_def)
qed

lemma cmd_parse_loop_spec:
  "cstr_at mem p s \<Longrightarrow> token \<noteq> 0 \<Longrightarrow> k \<le> length argv \<Longrightarrow> length argv = MAX_ARG_NR \<Longrightarrow>
   parsed mem p argv k (words token s) (cmd_parse_loop mem p argv k token)"
proof (induction token s arbitrary: mem p argv k rule: words.induct)
  case (1 token s)
  show ?case
  proof (cases "s = []")
    case True
    then show ?thesis
      using 1 parsed_none [of k argv mem p]
      by (subst cmd_parse_loop.simps) (simp add: words.simps)
  next
    case s: False
    define q where "q = p + length (takeWhile (\<lambda>c. c = token) s)"
    have skip: "skip_token mem p token = Some q" using 1 by (simp add: skip_token_eq q_def)
    have at_q: "cstr_at mem q (dropWhile (\<lambda>c. c = token) s)"
      using cstr_at_suffix [of mem p "takeWhile (\<lambda>c. c = token) s" "dropWhile (\<lambda>c. c = token) s"] "1.prems"(1)
      by (simp add: q_def)
    have c0: "p < length mem" "mem ! p \<noteq> 0" using "1.prems"(1) s by (cases s; simp)+
    show ?thesis
    proof (cases "dropWhile (\<lambda>c. c = token) s")
      case Nil
      then have "words token s = []" by (subst words.simps) (simp only: list.case)
      moreover have "q < length mem" "mem ! q = 0" using at_q Nil by simp_all
      ultimately show ?thesis
        using c0 skip parsed_none [of k argv mem p] "1.prems"(3)
        by (subst cmd_parse_loop.simps) simp
    next
      case (Cons c r)
      define w where "w = c # takeWhile (\<lambda>c. c \<noteq> token) r"
      define rest where "rest = dropWhile (\<lambda>c. c \<noteq> token) r"
      have ws: "words token s = w # words token (drop 1 rest)"
        by (subst words.simps) (simp add: Cons w_def rest_def)
      have "c \<noteq> token" using hd_dropWhile [of "\<lambda>c. c = token" s] Cons by simp
      have cr: "c # r = w @ rest" by (simp add: w_def rest_def)
      have at_w: "cstr_at mem q (w @ rest)" using at_q Cons cr by simp
      have "skip_word mem q token = Some (q + length (takeWhile (\<lambda>c. c \<noteq> token) (c # r)))"
        using at_q Cons by (intro skip_word_eq) simp
      then have wend: "skip_word mem q token = Some (q + length w)"
        using \<open>c \<noteq> token\<close> by (simp add: w_def)
      have q1: "q < length mem" "mem ! q \<noteq> 0" using at_w by (simp_all add: w_def)
      have at_rest: "cstr_at mem (q + length w) rest" by (rule cstr_at_suffix [OF at_w])
      have "p \<le> q" by (simp add: q_def)
      show ?thesis
      proof (cases "k < length argv")
        case False
        then have "wr argv k q = None" by simp
        then show ?thesis
          using c0 skip q1 False ws by (subst cmd_parse_loop.simps) (simp add: parsed_def)
      next
        case True
        define argv1 where "argv1 = argv[k := q]"
        have k: "\<not> k > MAX_ARG_NR" using True 1 by simp
        obtain mem1 nxt where nxt:
          "(if mem ! (q + length w) \<noteq> 0 then Option.bind (wr mem (q + length w) 0) (\<lambda>mem. Some (mem, q + length w + 1))
             else Some (mem, q + length w)) = Some (mem1, nxt)"
          "cstr_at mem1 q w" "cstr_at mem1 nxt (drop 1 rest)" "length mem1 = length mem"
          "\<forall>i < p. mem1 ! i = mem ! i" "q + length w < nxt \<or> nxt = q + length w \<and> rest = []"
        proof (cases rest)
          case Nil
          then show thesis using that [of mem "q + length w"] at_w at_rest by simp
        next
          case (Cons d r')
          have "cstr_at (mem[q + length w := 0]) q w" by (rule cstr_at_cut_at [OF at_w])
          moreover have "cstr_at (mem[q + length w := 0]) (q + length w + 1) r'"
            by (rule cstr_at_update) (use at_rest Cons in auto)
          ultimately show thesis
            using that [of "mem[q + length w := 0]" "q + length w + 1"] at_rest Cons \<open>p \<le> q\<close> by simp
        qed
        have step: "cmd_parse_loop mem p argv k token = cmd_parse_loop mem1 nxt argv1 (k + 1) token"
          using c0 skip q1 True wend at_rest nxt(1) k cstr_at_len [OF at_rest]
          by (subst cmd_parse_loop.simps) (simp add: argv1_def)
        have "parsed mem1 nxt argv1 (k + 1) (words token (drop 1 rest)) (cmd_parse_loop mem1 nxt argv1 (k + 1) token)"
          unfolding rest_def
          by (rule "1.IH" [OF Cons]) (use 1 True nxt(3) in \<open>auto simp: argv1_def rest_def\<close>)
        then show ?thesis
          unfolding step ws
        proof (rule parsed_Cons [OF _ argv1_def True nxt(2) _ nxt(4,5) \<open>p \<le> q\<close>])
          have "cmd_parse_loop mem1 nxt argv1 (k + 1) token = Some (word_of_nat (k + 1), argv1, mem1)"
            if "rest = []"
            using nxt(3) that by (subst cmd_parse_loop.simps) simp
          then show "q + length w < nxt \<or> nxt = q + length w \<and> words token (drop 1 rest) = [] \<and>
              cmd_parse_loop mem1 nxt argv1 (k + 1) token = Some (word_of_nat (k + 1), argv1, mem1)"
            using nxt(6) by (auto simp: words.simps [of token "[]"])
        qed
      qed
    qed
  qed
qed

text \<open>
  C29: \<open>cmd_parse\<close> comes to its end on every line of at most \<open>MAX_ARG_NR\<close> words: it returns their number, \<open>argv\<close>
  holds the address of each word, zero-terminated in place, in their order, and \<open>NULL\<close> from there on. One
  word more and it writes behind the end of \<open>argv\<close>: its test comes after the write and lets \<open>argc = 16\<close>
  through.
\<close>

theorem cmd_parse_words:
  assumes "cstr_at mem p s" and "p \<noteq> NULL" and "token \<noteq> 0" and "length argv = MAX_ARG_NR"
  shows "if length (words token s) \<le> MAX_ARG_NR
    then \<exists>argv' mem'. cmd_parse mem p argv token = Some (word_of_nat (length (words token s)), argv', mem') \<and>
      (\<forall>i < length (words token s). cstr_at mem' (argv' ! i) (words token s ! i)) \<and>
      (\<forall>i. length (words token s) \<le> i \<and> i < MAX_ARG_NR \<longrightarrow> argv' ! i = NULL) \<and> length mem' = length mem
    else cmd_parse mem p argv token = None"
proof -
  let ?argv = "replicate MAX_ARG_NR NULL"
  have a: "put_bytes argv 0 ?argv = ?argv" using assms(4) by (simp add: put_bytes_def)
  have "parsed mem p ?argv 0 (words token s) (cmd_parse_loop mem p ?argv 0 token)"
    by (rule cmd_parse_loop_spec) (use assms in auto)
  then show ?thesis
    using assms by (auto simp: cmd_parse_def a parsed_def args_at_def)
qed

theorem cmd_parse_words_witness:
  "\<exists>argv' mem'. cmd_parse [0, 0x20, 0x6c, 0x73, 0x20, 0x20, 0x2f, 0] 1 (replicate 16 9) 0x20 =
      Some (2, argv', mem') \<and> cstr_at mem' (argv' ! 0) [0x6c, 0x73] \<and> cstr_at mem' (argv' ! 1) [0x2f] \<and> argv' ! 2 = NULL"
proof -
  let ?m = "[0, 0x20, 0x6c, 0x73, 0x20, 0x20, 0x2f, 0] :: u8 list"
  have w: "words 0x20 [0x20, 0x6c, 0x73, 0x20, 0x20, 0x2f] = [[0x6c, 0x73], [0x2f]]"
    by (simp add: words.simps)
  have c: "cstr_at ?m 1 [0x20, 0x6c, 0x73, 0x20, 0x20, 0x2f]" by simp
  have "\<exists>argv' mem'. cmd_parse ?m 1 (replicate 16 9) 0x20 = Some (2, argv', mem') \<and>
      (\<forall>i < Suc (Suc 0). cstr_at mem' (argv' ! i) ([[0x6c, 0x73], [0x2f]] ! i)) \<and>
      (\<forall>i. Suc (Suc 0) \<le> i \<and> i < MAX_ARG_NR \<longrightarrow> argv' ! i = NULL) \<and> length mem' = length ?m"
    using cmd_parse_words [OF c, of "0x20" "replicate 16 9"]
    by (simp add: w NULL_def MAX_ARG_NR_def)
  then obtain argv' mem' where r: "cmd_parse ?m 1 (replicate 16 9) 0x20 = Some (2, argv', mem')"
    and a: "\<forall>i < Suc (Suc 0). cstr_at mem' (argv' ! i) ([[0x6c, 0x73], [0x2f]] ! i)"
    and n: "\<forall>i. Suc (Suc 0) \<le> i \<and> i < MAX_ARG_NR \<longrightarrow> argv' ! i = NULL" by blast
  have "cstr_at mem' (argv' ! 0) [0x6c, 0x73]" "cstr_at mem' (argv' ! 1) [0x2f]" "argv' ! 2 = NULL"
    using a [rule_format, of 0] a [rule_format, of 1] n by (simp_all add: MAX_ARG_NR_def)
  then show ?thesis using r by auto
qed

subsection \<open>Editing\<close>

text \<open>The line editor: clear screen, kill, backspace, and any other key adds itself.\<close>

fun edit :: "u8 list \<Rightarrow> u8 \<Rightarrow> u8 list" where
  "edit l c = (if c = 11 then l else if c = 20 then [] else if c = backspace then butlast l else l @ [c])"

lemma edit_keys [simp]:
  "edit l 11 = l" "edit l 20 = []" "edit l backspace = butlast l"
  "c \<noteq> 11 \<Longrightarrow> c \<noteq> 20 \<Longrightarrow> c \<noteq> backspace \<Longrightarrow> edit l c = l @ [c]"
  by (simp_all add: backspace_def)

declare edit.simps [simp del]

definition plain_key :: "u8 \<Rightarrow> bool" where
  "plain_key c \<longleftrightarrow> c \<noteq> 0 \<and> c \<noteq> newline \<and> c \<noteq> 13"

lemma kill_line_some: "pos < length l \<Longrightarrow> \<exists>l' out. kill_line l pos = Some (l', out) \<and> length l' = length l"
proof (induction pos arbitrary: l)
  case (Suc pos)
  then have "\<exists>l' out. kill_line (l[Suc pos := 0]) pos = Some (l', out) \<and> length l' = length (l[Suc pos := 0])"
    by (intro Suc.IH) simp
  then show ?case using Suc.prems by auto
qed simp

text \<open>What is on the line: the characters before \<open>pos\<close>, none of them a backspace or a zero.\<close>

definition line_is :: "u8 list \<Rightarrow> u8 list \<Rightarrow> nat \<Rightarrow> bool" where
  "line_is l buf pos \<longleftrightarrow> pos = length l \<and> pos < length buf \<and> take pos buf = l \<and> 0 \<notin> set l \<and> backspace \<notin> set l"

lemma line_is_end: "line_is l buf pos \<Longrightarrow> cstr_at (buf[pos := 0]) 0 l"
  by (auto simp: line_is_def cstr_at_def bytes_at_def)

lemma line_is_nil: "0 < length buf \<Longrightarrow> line_is [] buf 0"
  by (simp add: line_is_def)

lemma line_is_write: "line_is l buf pos \<Longrightarrow> line_is l (buf[pos := c]) pos"
  by (auto simp: line_is_def)

lemma line_is_add:
  "line_is l buf pos \<Longrightarrow> c \<noteq> 0 \<Longrightarrow> c \<noteq> backspace \<Longrightarrow> Suc pos < length buf \<Longrightarrow>
   line_is (l @ [c]) (buf[pos := c]) (pos + 1)"
  by (auto simp: line_is_def take_Suc_conv_app_nth)

lemma line_is_back: "line_is l buf pos \<Longrightarrow> line_is (butlast l) buf (pos - 1)"
  unfolding line_is_def
  by (metis (no_types, lifting) One_nat_def butlast_take diff_le_self in_set_butlastD length_butlast
      less_imp_le order.strict_trans1)

lemma line_is_hd: "line_is l buf pos \<Longrightarrow> pos \<noteq> 0 \<Longrightarrow> buf ! 0 \<noteq> backspace"
  unfolding line_is_def by (metis length_pos_if_in_set nth_mem nth_take neq0_conv)

lemma readline_loop_spec:
  "line_is l buf pos \<Longrightarrow> count \<le> length buf \<Longrightarrow> \<forall>c \<in> set ks. plain_key c \<Longrightarrow>
   \<forall>i \<le> length ks. length (foldl edit l (take i ks)) < count \<Longrightarrow> e = newline \<or> e = 13 \<Longrightarrow>
   \<exists>buf' out. readline_loop cwd buf pos count (ks @ e # later) = Some (buf', later, out) \<and>
     length buf' = length buf \<and> cstr_at buf' 0 (foldl edit l ks)"
proof (induction ks arbitrary: l buf pos)
  case Nil
  have "pos < count" "pos < length buf" using Nil(1,4) by (simp_all add: line_is_def)
  moreover have "e \<noteq> 11" "e \<noteq> 20" using Nil(5) by (auto simp: newline_def)
  ultimately show ?case
    using Nil(5) line_is_end [OF Nil(1)] by auto
next
  case (Cons c ks)
  have pos: "pos < count" "pos < length buf" and pl: "pos = length l"
    using Cons.prems(1) spec [OF Cons.prems(4), of 0] by (simp_all add: line_is_def)
  have len: "\<forall>i \<le> length ks. length (foldl edit (edit l c) (take i ks)) < count"
  proof (intro allI impI)
    fix i
    assume "i \<le> length ks"
    then show "length (foldl edit (edit l c) (take i ks)) < count"
      using spec [OF Cons.prems(4), of "Suc i"] by simp
  qed
  have pk: "\<forall>c \<in> set ks. plain_key c" and c: "c \<noteq> 0" "c \<noteq> newline" "c \<noteq> 13"
    using Cons.prems(3) by (simp_all add: plain_key_def)
  have buf1: "line_is l (buf[pos := c]) pos" by (rule line_is_write [OF Cons.prems(1)])
  have IH: "\<exists>buf'' out. readline_loop cwd buf' p count (ks @ e # later) = Some (buf'', later, out) \<and>
      length buf'' = length buf \<and> cstr_at buf'' 0 (foldl edit l (c # ks))"
    if "line_is (edit l c) buf' p" "length buf' = length buf" for buf' p
    using Cons.IH [OF that(1) _ pk len Cons.prems(5)] Cons.prems(2) that(2) by simp
  consider (clear_key) "c = 11" | (kill) "c = 20" | (back_key) "c = backspace"
    | (add_key) "c \<noteq> 11" "c \<noteq> 20" "c \<noteq> backspace" by blast
  then show ?case
  proof cases
    case clear_key
    then show ?thesis
      using IH [of "buf[pos := 0]" pos] line_is_write [OF Cons.prems(1), of 0] pos c by auto
  next
    case kill
    obtain b out where k: "kill_line (buf[pos := c]) pos = Some (b, out)" "length b = length (buf[pos := c])"
      using kill_line_some [of pos "buf[pos := c]"] pos by auto
    have "line_is (edit l c) b 0" using kill k(2) pos by (auto simp: line_is_def)
    then show ?thesis using IH [of b 0] k kill pos c by auto
  next
    case back_key
    show ?thesis
    proof (cases "pos = 0")
      case True
      then have "line_is (edit l c) (buf[pos := c]) pos" using back_key buf1 pl by simp
      then show ?thesis
        using IH [of "buf[pos := c]" pos] back_key pos c True by (auto simp: backspace_def)
    next
      case False
      have "line_is (edit l c) (buf[pos := c]) (pos - 1)"
        using back_key line_is_back [OF buf1] by simp
      moreover have "rd (buf[pos := c]) 0 = Some (buf ! 0)"
        using pos(2) False by (cases pos; cases buf) (auto simp: rd_def)
      ultimately show ?thesis
        using IH [of "buf[pos := c]" "pos - 1"] back_key pos c False line_is_hd [OF Cons.prems(1) False]
        by (auto simp: backspace_def)
    qed
  next
    case add_key
    have "Suc (length l) < count" using add_key len by (force dest: spec [of _ 0])
    then have "line_is (edit l c) (buf[pos := c]) (pos + 1)"
      using line_is_add [OF Cons.prems(1) c(1) add_key(3)] add_key Cons.prems(2) pl by simp
    then show ?thesis
      using IH [of "buf[pos := c]" "pos + 1"] add_key pos c by auto
  qed
qed

text \<open>
  C30: \<open>readline\<close> implements a line editor: for keys ended by return or newline, during which the line never
  reaches \<open>count\<close> characters, it comes to its end at that key, leaves the later keys unread, and the buffer
  holds the line the reference \<open>edit\<close> gives, zero-terminated: backspace takes the last character off and
  does nothing on an empty line, \<open>ctrl + u\<close> empties it, \<open>ctrl + l\<close> leaves it.
\<close>

theorem readline_edits:
  assumes "count \<le> length buf" and "\<forall>c \<in> set ks. plain_key c"
    and "\<forall>i \<le> length ks. length (foldl edit [] (take i ks)) < count" and "e = newline \<or> e = 13"
  shows "\<exists>buf' out. readline cwd_cache buf count (ks @ e # later) = Some (buf', later, out) \<and>
     length buf' = length buf \<and> cstr_at buf' 0 (foldl edit [] ks)"
proof -
  have c: "0 < count" using spec [OF assms(3), of 0] by simp
  have "line_is [] buf 0" using c assms(1) by (intro line_is_nil) linarith
  from readline_loop_spec [OF this assms] c show ?thesis by (simp add: readline_def)
qed

theorem readline_edits_witness:
  "\<exists>buf' out. readline [0x2f, 0] (replicate 8 0) 8 [0x62, 20, 0x6c, 0x74, 8, 0x73, 10, 0x61] =
     Some (buf', [0x61], out) \<and> length buf' = 8 \<and> cstr_at buf' 0 [0x6c, 0x73]"
proof -
  have "\<exists>buf' out. readline [0x2f, 0] (replicate 8 0) 8 ([0x62, 20, 0x6c, 0x74, 8, 0x73] @ newline # [0x61]) =
     Some (buf', [0x61], out) \<and> length buf' = length (replicate 8 (0 :: u8)) \<and>
     cstr_at buf' 0 (foldl edit [] [0x62, 20, 0x6c, 0x74, 8, 0x73])"
  proof (rule readline_edits)
    show "\<forall>i \<le> length [0x62, 20, 0x6c, 0x74, 8, 0x73 :: u8].
        length (foldl edit [] (take i [0x62, 20, 0x6c, 0x74, 8, 0x73])) < 8"
      by (simp add: le_Suc_eq all_conj_distrib edit.simps backspace_def)
  qed (simp_all add: plain_key_def newline_def)
  then show ?thesis by (simp add: newline_def edit.simps backspace_def)
qed

text \<open>One key more than the buffer has bytes, and the byte is stored behind its end.\<close>

lemma readline_overflow:
  "\<forall>c \<in> set ks. plain_key c \<and> c \<noteq> 11 \<and> c \<noteq> 20 \<and> c \<noteq> backspace \<Longrightarrow> pos + length ks = length buf \<Longrightarrow>
   readline_loop cwd buf pos (length buf) (ks @ c # later) = None"
proof (induction ks arbitrary: pos buf)
  case (Cons k ks)
  have "readline_loop cwd (buf[pos := k]) (pos + 1) (length (buf[pos := k])) (ks @ c # later) = None"
    by (rule Cons.IH) (use Cons.prems in auto)
  then show ?case using Cons.prems by (simp add: plain_key_def)
qed simp

end
