(* ===== verification/Shell_Cmds.thy ===== *)
theory Shell_Cmds
  imports Shell_Spec Fs_Demo
begin

text \<open>
  The commands of \<open>shell/buildin_cmd.c\<close> and the main loop of \<open>shell/shell.c\<close>. The shell's global buffers
  extend the state of the file system; \<open>console\<close> collects what it does to the console. \<open>je\<close> and \<open>jn\<close> stand for
  local variables of the system calls that are read before they are set (see \<open>Fs_Calls\<close>).
\<close>

record shell_state = fs_state +
  cmd_line :: "u8 list"
  final_path :: "u8 list"
  cwd_cache :: "u8 list"
  argv :: "addr list"
  console :: "console_call list"

definition say :: "console_call \<Rightarrow> 'z shell_state_scheme \<Rightarrow> 'z shell_state_scheme" where
  "say c s = s\<lparr>console := console s @ [c]\<rparr>"

text \<open>The memory the shell's argument strings lie in, and the string at an address of it.\<close>

definition cmd_mem :: "'z shell_state_scheme \<Rightarrow> mem" where
  "cmd_mem s = 0 # cmd_line s"

definition arg_str :: "addr \<Rightarrow> 'z shell_state_scheme \<Rightarrow> printf_arg" where
  "arg_str p s = Str_of (drop p (cmd_mem s))"

subsection \<open>Paths\<close>

text \<open>The result is \<open>final_path\<close> after the call.\<close>

definition make_clear_abs_path ::
  "addr \<Rightarrow> 'z shell_state_scheme \<Rightarrow> (unit \<times> 'z shell_state_scheme) option" where
  "make_clear_abs_path path s = do {
     let abs_path = replicate MAX_PATH_LEN 0;
     c \<leftarrow> rd (cmd_mem s) path;
     (abs_path, s) \<leftarrow> (if c \<noteq> slash then do {
         ((ok, abs_path), s) \<leftarrow> sys_getcwd abs_path (word_of_nat MAX_PATH_LEN) s;
         abs_path \<leftarrow> (if ok then do {
             c0 \<leftarrow> rd abs_path 0;
             c1 \<leftarrow> rd abs_path 1;
             if \<not> (c0 = slash \<and> c1 = 0) then str_cat abs_path [slash, 0] else Some abs_path }
           else Some abs_path);
         Some (abs_path, s) }
       else Some (abs_path, s));
     abs_path \<leftarrow> str_cat abs_path (drop path (cmd_mem s));
     (fp, abs_mem) \<leftarrow> wash_path (0 # abs_path) 1 (final_path s);
     Some ((), s\<lparr>final_path := fp\<rparr>) }"

text \<open>A system call on \<open>final_path\<close>; the calls may rewrite its first character.\<close>

definition on_final_path ::
  "(mem \<Rightarrow> addr \<Rightarrow> 'z shell_state_scheme \<Rightarrow> (('a \<times> mem) \<times> 'z shell_state_scheme) option) \<Rightarrow>
   'z shell_state_scheme \<Rightarrow> ('a \<times> 'z shell_state_scheme) option" where
  "on_final_path f s = do {
     ((r, mem), s) \<leftarrow> f (0 # final_path s) 1 s;
     Some (r, s\<lparr>final_path := tl mem\<rparr>) }"

definition is_root :: "u8 list \<Rightarrow> bool option" where
  "is_root path = do {
     r \<leftarrow> strcmp_loop path 0 [slash, 0] 0;
     Some (r = 0) }"

subsection \<open>Commands\<close>

definition buildin_pwd :: "nat \<Rightarrow> 'z shell_state_scheme \<Rightarrow> 'z shell_state_scheme option" where
  "buildin_pwd argc s =
     (if argc \<noteq> 1 then Some (say (Printf (''pwd: no argument support!'' @ nl) []) s)
      else do {
        ((ok, fp), s) \<leftarrow> sys_getcwd (final_path s) (word_of_nat MAX_PATH_LEN) s;
        let s = s\<lparr>final_path := fp\<rparr>;
        Some (if ok then say (Printf (''%s'' @ nl) [Str_of fp]) s
              else say (Printf (''pwd: get current work directory failed.'' @ nl) []) s) })"

text \<open>The result is whether \<open>final_path\<close> is returned, or \<open>NULL\<close>.\<close>

definition buildin_cd ::
  "dir_entry \<Rightarrow> nat \<Rightarrow> addr list \<Rightarrow> 'z shell_state_scheme \<Rightarrow> (bool \<times> 'z shell_state_scheme) option" where
  "buildin_cd je argc args s =
     (if argc > 2 then Some (False, say (Printf (''cd: only support 1 argument!'' @ nl) []) s)
      else do {
        (u, s) \<leftarrow> (if argc = 1 then do {
            fp \<leftarrow> put_buf (final_path s) 0 [slash, 0];
            Some ((), s\<lparr>final_path := fp\<rparr>) }
          else do {
            a \<leftarrow> rd args 1;
            make_clear_abs_path a s });
        (r, s) \<leftarrow> on_final_path (sys_chdir je) s;
        Some (if r = -1
          then (False, say (Printf (''cd: no such directory %s'' @ nl) [Str_of (final_path s)]) s)
          else (True, s)) })"

datatype ls_options = Ls_list bool addr | Ls_stop console_call

definition ls_help :: string where
  "ls_help = ''usage: -l list all infomation about the file'' @ nl @ ''-h for help'' @ nl @
     ''list all files in thr current dirctory if no option'' @ nl"

fun ls_args :: "mem \<Rightarrow> addr list \<Rightarrow> nat \<Rightarrow> nat \<Rightarrow> bool \<Rightarrow> addr \<Rightarrow> nat \<Rightarrow> ls_options option" where
  "ls_args mem args arg_idx 0 long_info pathname arg_path_nr = Some (Ls_list long_info pathname)"
| "ls_args mem args arg_idx (Suc n) long_info pathname arg_path_nr = do {
     a \<leftarrow> rd args arg_idx;
     c \<leftarrow> rd mem a;
     if c = 0x2d then do {
       r \<leftarrow> strcmp_loop mem a [0x2d, 0x6c, 0] 0;
       if r = 0 then ls_args mem args (arg_idx + 1) n True pathname arg_path_nr
       else do {
         r \<leftarrow> strcmp_loop mem a [0x2d, 0x68, 0] 0;
         Some (Ls_stop (if r = 0 then Printf ls_help []
           else Printf (''ls: invalid option %s'' @ nl @ ''Try 'ls -h' for more information'' @ nl)
                  [Str_of (drop a mem)])) } }
     else if arg_path_nr = 0 then ls_args mem args (arg_idx + 1) n long_info a 1
     else Some (Ls_stop (Printf ''ls: only support ont path'' [])) }"

text \<open>The entry of the directory's buffer that \<open>readdir\<close> returned, and its name in place.\<close>

definition read_entry :: "dir_ref \<Rightarrow> nat \<Rightarrow> 'z fs_state_scheme \<Rightarrow> (dir_entry \<times> u8 list) option" where
  "read_entry d i s = do {
     v \<leftarrow> the_dir d s;
     e \<leftarrow> dir_e (dir_buf v) i;
     Some (e, drop (sizeof_entry * i) (dir_buf v)) }"

partial_function (option) ls_short :: "dir_ref \<Rightarrow> 'z shell_state_scheme \<Rightarrow> 'z shell_state_scheme option" where
  "ls_short d s =
     Option.bind (sys_readdir (Some d) s) (\<lambda>(r, s).
       case r of
         None \<Rightarrow> Some (say (Printf nl []) s)
       | Some i \<Rightarrow> Option.bind (read_entry d i s) (\<lambda>(e, nm).
           ls_short d (say (Printf ''%s '' [Str_of nm]) s)))"

text \<open>The result is whether the loop came to the end of the directory.\<close>

partial_function (option) ls_long ::
  "dir_entry \<Rightarrow> dir_ref \<Rightarrow> u8 list \<Rightarrow> nat \<Rightarrow> 'z shell_state_scheme \<Rightarrow> (bool \<times> 'z shell_state_scheme) option" where
  "ls_long je d sub_pathname pathname_len s =
     Option.bind (sys_readdir (Some d) s) (\<lambda>(r, s).
       case r of
         None \<Rightarrow> Some (True, s)
       | Some i \<Rightarrow> Option.bind (read_entry d i s) (\<lambda>(e, nm).
         Option.bind (wr sub_pathname pathname_len 0) (\<lambda>sub_pathname.
         Option.bind (str_cat sub_pathname nm) (\<lambda>sub_pathname.
         Option.bind (sys_stat je (0 # sub_pathname) 1 \<lparr>st_ino = 0, st_size = 0, st_filetype = 0\<rparr> s)
           (\<lambda>((ret, file_stat, sub_mem), s).
           if ret = -1 then
             Some (False, say (Printf (''ls: cannot access %s: No such file or directory'' @ nl) [Str_of nm]) s)
           else
             Option.bind (read_entry d i s) (\<lambda>(e, nm).
             let ftype = (if f_type e = FT_REGULAR then CHR ''-'' else CHR ''d'')
             in ls_long je d (tl sub_mem) pathname_len
                  (say (Printf (''%c  %d  %d  %s'' @ nl)
                     [Chr (of_char ftype), Num (entry_i_no e), Num (st_size file_stat), Str_of nm]) s)))))))"

definition ls_directory ::
  "dir_entry \<Rightarrow> bool \<Rightarrow> stat \<Rightarrow> 'z shell_state_scheme \<Rightarrow> 'z shell_state_scheme option" where
  "ls_directory je long_info file_stat s = do {
     (dirp, s) \<leftarrow> on_final_path (sys_opendir je) s;
     n \<leftarrow> str_past (final_path s) 0;
     let pathname_len = n - 1;
     bs \<leftarrow> get_buf (final_path s) 0 pathname_len;
     sub_pathname \<leftarrow> put_buf (replicate MAX_PATH_LEN 0) 0 bs;
     ASSERT (pathname_len > 0);  \<comment> \<open>\<open>last_char_idx\<close> is an index of the array\<close>
     c \<leftarrow> rd sub_pathname (pathname_len - 1);
     (sub_pathname, pathname_len) \<leftarrow> (if c \<noteq> slash then do {
         sub_pathname \<leftarrow> wr sub_pathname pathname_len slash;
         Some (sub_pathname, pathname_len + 1) }
       else Some (sub_pathname, pathname_len));
     d \<leftarrow> dirp;
     s \<leftarrow> sys_rewinddir d s;
     if long_info then do {
       let s = say (Printf (''total: %d'' @ nl) [Num (st_size file_stat)]) s;
       (fin, s) \<leftarrow> ls_long je d sub_pathname pathname_len s;
       if \<not> fin then Some s
       else do { (r, s) \<leftarrow> sys_closedir (Some d) s; Some s } }
     else do {
       s \<leftarrow> ls_short d s;
       (r, s) \<leftarrow> sys_closedir (Some d) s;
       Some s } }"

definition buildin_ls ::
  "dir_entry \<Rightarrow> nat \<Rightarrow> addr list \<Rightarrow> 'z shell_state_scheme \<Rightarrow> 'z shell_state_scheme option" where
  "buildin_ls je argc args s = do {
     opts \<leftarrow> ls_args (cmd_mem s) args 1 (argc - 1) False NULL 0;
     case opts of
       Ls_stop c \<Rightarrow> Some (say c s)
     | Ls_list long_info pathname \<Rightarrow> do {
         (ok, s) \<leftarrow> (if pathname = NULL then do {
             ((ok, fp), s) \<leftarrow> sys_getcwd (final_path s) (word_of_nat MAX_PATH_LEN) s;
             Some (ok, s\<lparr>final_path := fp\<rparr>) }
           else do {
             (u, s) \<leftarrow> make_clear_abs_path pathname s;
             Some (True, s) });
         if \<not> ok then Some (say (Printf (''ls: getcwd for default path failed'' @ nl) []) s)
         else do {
           ((ret, file_stat, mem), s) \<leftarrow>
             sys_stat je (0 # final_path s) 1 \<lparr>st_ino = 0, st_size = 0, st_filetype = 0\<rparr> s;
           let s = s\<lparr>final_path := tl mem\<rparr>;
           if ret = -1 then
             Some (say (Printf (''ls: cannot access %s: No sucn file or directory'' @ nl) [Str_of (final_path s)]) s)
           else if st_filetype file_stat = FT_DIRECTORY then ls_directory je long_info file_stat s
           else if long_info then
             Some (say (Printf (''-  %d  %d  %s'' @ nl)
               [Num (st_ino file_stat), Num (st_size file_stat), Str_of (final_path s)]) s)
           else Some (say (Printf (''%s'' @ nl) [Str_of (final_path s)]) s) } } }"

definition buildin_ps :: "nat \<Rightarrow> 'z shell_state_scheme \<Rightarrow> 'z shell_state_scheme option" where
  "buildin_ps argc s =
     Some (if argc \<noteq> 1 then say (Printf (''ps: no argument support!'' @ nl) []) s else say Ps s)"

definition buildin_clear :: "nat \<Rightarrow> 'z shell_state_scheme \<Rightarrow> 'z shell_state_scheme option" where
  "buildin_clear argc s =
     Some (if argc \<noteq> 1 then say (Printf (''mkdir: no support  argument!'' @ nl) []) s else say Clear s)"

text \<open>
  The three commands with one path. \<open>strcmp(\<open>/\<close>, final_path)\<close> is not 0 for any path but the root. The
  return values are not used; that of \<open>buildin_rm\<close> is not even set.
\<close>

definition buildin_mkdir ::
  "u8 list \<Rightarrow> dir_entry \<Rightarrow> nat \<Rightarrow> addr list \<Rightarrow> 'z shell_state_scheme \<Rightarrow> (u32 \<times> 'z shell_state_scheme) option" where
  "buildin_mkdir jn je argc args s =
     (if argc \<noteq> 2 then Some (-1, say (Printf (''mkdir: only support 1 argument!'' @ nl) []) s)
      else do {
        a \<leftarrow> rd args 1;
        (u, s) \<leftarrow> make_clear_abs_path a s;
        root \<leftarrow> is_root (final_path s);
        if \<not> root then do {
          (r, s) \<leftarrow> on_final_path (sys_mkdir jn je) s;
          Some (if r = 0 then (0, s)
            else (-1, say (Printf (''mkdir: create directory %s failed'' @ nl) [arg_str a s]) s)) }
        else Some (-1, s) })"

definition buildin_rmdir ::
  "dir_entry \<Rightarrow> nat \<Rightarrow> addr list \<Rightarrow> 'z shell_state_scheme \<Rightarrow> (u32 \<times> 'z shell_state_scheme) option" where
  "buildin_rmdir je argc args s =
     (if argc \<noteq> 2 then Some (-1, say (Printf (''rmdir: only support 1 argument!'' @ nl) []) s)
      else do {
        a \<leftarrow> rd args 1;
        (u, s) \<leftarrow> make_clear_abs_path a s;
        root \<leftarrow> is_root (final_path s);
        if \<not> root then do {
          (r, s) \<leftarrow> on_final_path (sys_rmdir je) s;
          Some (if r = 0 then (0, s)
            else (-1, say (Printf (''rmdir: remove %s failed'' @ nl) [arg_str a s]) s)) }
        else Some (-1, s) })"

definition buildin_rm ::
  "dir_entry \<Rightarrow> nat \<Rightarrow> addr list \<Rightarrow> 'z shell_state_scheme \<Rightarrow> 'z shell_state_scheme option" where
  "buildin_rm je argc args s =
     (if argc \<noteq> 2 then Some (say (Printf (''rm: only support 1 argument!'' @ nl) []) s)
      else do {
        a \<leftarrow> rd args 1;
        (u, s) \<leftarrow> make_clear_abs_path a s;
        root \<leftarrow> is_root (final_path s);
        if \<not> root then do {
          (r, s) \<leftarrow> on_final_path (sys_unlink je) s;
          Some (if r = 0 then s
            else say (Printf (''rm: delete %s failed'' @ nl) [arg_str a s]) s) }
        else Some s })"

definition tianasc2 :: string where
  "tianasc2 =
     ''           d8,                       d8,   d8,                     '' @ nl @
     ''    d8P   `8P                       `8P   `8P'' @ [CHR 0x22] @ ''                    '' @ nl @
     '' d888888P                                                          '' @ nl @
     ''   ?88'    88b d888b8b    88bd88b   d88    88b d888b8b   d8888b    '' @ nl @
     ''   88P     88Pd8P' ?88    88P' ?8b  ?88    88Pd8P' ?88  d8P' ?88   '' @ nl @
     ''   88b    d88 88b  ,88b  d88   88P   88b  d88 88b  ,88b 88b  d88   '' @ nl @
     ''   `?8b  d88' `?88P'`88bd88'   88b   `88bd88' `?88P'`88b`?8888P'   '' @ nl @
     ''                                      )88                          '' @ nl @
     ''                                     ,88P                          '' @ nl @
     ''                                  `?888P                           '' @ nl"

definition ascii :: "string \<Rightarrow> u8 list" where
  "ascii cs = map of_char cs @ [0]"

definition buildin_tianjiao :: "'z shell_state_scheme \<Rightarrow> 'z shell_state_scheme option" where
  "buildin_tianjiao s = Some (say (Printf ''%s'' [Str_of (ascii tianasc2)]) s)"

subsection \<open>The main loop\<close>

text \<open>\<open>!strcmp(cmd, argv[0])\<close>, whose \<open>ASSERT\<close> fails for a null \<open>argv[0]\<close>.\<close>

definition is_cmd :: "string \<Rightarrow> 'z shell_state_scheme \<Rightarrow> bool option" where
  "is_cmd cmd s = do {
     a \<leftarrow> rd (argv s) 0;
     ASSERT (a \<noteq> NULL);
     r \<leftarrow> strcmp_loop (ascii cmd) 0 (cmd_mem s) a;
     Some (r = 0) }"

definition run_cmd ::
  "u8 list \<Rightarrow> dir_entry \<Rightarrow> nat \<Rightarrow> 'z shell_state_scheme \<Rightarrow> 'z shell_state_scheme option" where
  "run_cmd jn je argc s = do {
     c \<leftarrow> is_cmd ''ls'' s;
     if c then buildin_ls je argc (argv s) s else do {
     c \<leftarrow> is_cmd ''cd'' s;
     if c then do {
       (ok, s) \<leftarrow> buildin_cd je argc (argv s) s;
       if ok then do {
         n \<leftarrow> str_past (final_path s) 0;
         bs \<leftarrow> get_buf (final_path s) 0 n;
         cwd \<leftarrow> put_buf (replicate MAX_PATH_LEN 0) 0 bs;
         Some (s\<lparr>cwd_cache := cwd\<rparr>) }
       else Some s } else do {
     c \<leftarrow> is_cmd ''pwd'' s;
     if c then buildin_pwd argc s else do {
     c \<leftarrow> is_cmd ''ps'' s;
     if c then buildin_ps argc s else do {
     c \<leftarrow> is_cmd ''clear'' s;
     if c then buildin_clear argc s else do {
     c \<leftarrow> is_cmd ''mkdir'' s;
     if c then do { (r, s) \<leftarrow> buildin_mkdir jn je argc (argv s) s; Some s } else do {
     c \<leftarrow> is_cmd ''rmdir'' s;
     if c then do { (r, s) \<leftarrow> buildin_rmdir je argc (argv s) s; Some s } else do {
     c \<leftarrow> is_cmd ''rm'' s;
     if c then buildin_rm je argc (argv s) s else do {
     c \<leftarrow> is_cmd ''tianjiao'' s;
     if c then buildin_tianjiao s
     else Some (say (Printf (''external command'' @ nl) []) s) }}}}}}}}}"

text \<open>One round of the loop: \<open>keys\<close> are the keys typed, the result has those left.\<close>

definition shell_round ::
  "u8 list \<Rightarrow> dir_entry \<Rightarrow> u8 list \<Rightarrow> 'z shell_state_scheme \<Rightarrow> (u8 list \<times> 'z shell_state_scheme) option" where
  "shell_round jn je keys s = do {
     let s = say (print_prompt (cwd_cache s)) s;
     let s = s\<lparr>final_path := replicate MAX_PATH_LEN 0, cmd_line := replicate MAX_PATH_LEN 0\<rparr>;
     (l, keys, out) \<leftarrow> readline (cwd_cache s) (cmd_line s) MAX_PATH_LEN keys;
     let s = s\<lparr>cmd_line := l, console := console s @ out\<rparr>;
     c \<leftarrow> rd (cmd_line s) 0;
     if c = 0 then Some (keys, s)
     else do {
       (argc, args, mem) \<leftarrow> cmd_parse (cmd_mem s) 1 (argv s) 0x20;
       let s = s\<lparr>argv := args, cmd_line := tl mem\<rparr>;
       if argc = -1 then
         Some (keys, say (Printf (''num of argument exceed %d'' @ nl) [Num (word_of_nat MAX_ARG_NR)]) s)
       else do {
         s \<leftarrow> run_cmd jn je (unat argc) s;
         Some (keys, s) } } }"

text \<open>The loop never ends: its first \<open>n\<close> rounds.\<close>

fun shell_rounds ::
  "u8 list \<Rightarrow> dir_entry \<Rightarrow> nat \<Rightarrow> u8 list \<Rightarrow> 'z shell_state_scheme \<Rightarrow>
   (u8 list \<times> 'z shell_state_scheme) option" where
  "shell_rounds jn je 0 keys s = Some (keys, s)"
| "shell_rounds jn je (Suc n) keys s = do {
     (keys, s) \<leftarrow> shell_round jn je keys s;
     shell_rounds jn je n keys s }"

definition my_shell ::
  "u8 list \<Rightarrow> dir_entry \<Rightarrow> nat \<Rightarrow> u8 list \<Rightarrow> 'z shell_state_scheme \<Rightarrow>
   (u8 list \<times> 'z shell_state_scheme) option" where
  "my_shell jn je n keys s = do {
     c \<leftarrow> wr (cwd_cache s) 0 slash;
     shell_rounds jn je n keys (s\<lparr>cwd_cache := c\<rparr>) }"

subsection \<open>Properties\<close>

lemma words_blank: "words token (replicate n token) = []"
proof -
  have "dropWhile (\<lambda>c. c = token) (replicate n token) = []" by simp
  then show ?thesis by (subst words.simps) (simp only: list.case)
qed

lemma edit_blank: "foldl edit l (replicate n 0x20) = l @ replicate n 0x20"
proof (induction n arbitrary: l)
  case (Suc n)
  have "edit l 0x20 = l @ [0x20]" by (rule edit_keys) (simp_all add: backspace_def)
  then show ?case using Suc by (simp add: replicate_append_same)
qed simp

text \<open>
  The shell stops on a line of blanks only. For a nonempty line of fewer than \<open>MAX_PATH_LEN\<close> spaces
  the round of the main loop never comes back: there is no word, \<open>argv[0]\<close> is \<open>NULL\<close>, and the \<open>ASSERT\<close> of the
  first \<open>strcmp\<close> with it fails.
\<close>

theorem shell_blank_line_panics:
  assumes "0 < n" and "n < MAX_PATH_LEN" and "length (argv s) = MAX_ARG_NR"
  shows "shell_round jn je (replicate n 0x20 @ newline # rest) s = None"
proof -
  let ?keys = "replicate n (0x20 :: u8)" and ?buf = "replicate MAX_PATH_LEN (0 :: u8)"
  have l: "line_is [] ?buf 0" by (simp add: line_is_def MAX_PATH_LEN_def)
  have k: "\<forall>c \<in> set ?keys. plain_key c" by (simp add: plain_key_def newline_def)
  have "\<forall>i \<le> length ?keys. length (foldl edit [] (take i ?keys)) < MAX_PATH_LEN"
    using assms(2) by (simp add: edit_blank)
  from readline_loop_spec [OF l _ k this, of newline "cwd_cache s" rest] obtain b out where
    r: "readline_loop (cwd_cache s) ?buf 0 MAX_PATH_LEN (?keys @ newline # rest) = Some (b, rest, out)"
    and b: "length b = MAX_PATH_LEN" "cstr_at b 0 (replicate n 0x20)"
    by (auto simp: edit_blank)
  have c: "cstr_at (0 # b) 1 (replicate n 0x20)" using cstr_at_shift [OF b(2)] by simp
  have b0: "rd b 0 = Some 0x20" using b(2) assms(1) by (cases n) simp_all
  let ?argv = "replicate MAX_ARG_NR NULL"
  have "parsed (0 # b) 1 ?argv 0 [] (cmd_parse_loop (0 # b) 1 ?argv 0 0x20)"
    using cmd_parse_loop_spec [OF c, of "0x20" 0 ?argv] by (simp add: words_blank)
  then obtain args mem where p: "cmd_parse_loop (0 # b) 1 ?argv 0 0x20 = Some (0, args, mem)"
    and a: "\<forall>i. args ! i = ?argv ! i" "length args = MAX_ARG_NR"
    unfolding parsed_def by auto
  have "put_bytes (argv s) 0 ?argv = ?argv" using assms(3) by (simp add: put_bytes_def)
  then have cp: "cmd_parse (0 # b) 1 (argv s) 0x20 = Some (0, args, mem)"
    using p assms(3) by (simp add: cmd_parse_def NULL_def)
  have run: "run_cmd jn je m t = None" if "argv t = args" for m and t :: "'a shell_state_scheme"
    using a that by (simp add: run_cmd_def is_cmd_def MAX_ARG_NR_def)
  have "0 < MAX_PATH_LEN" by (simp add: MAX_PATH_LEN_def)
  then show ?thesis
    using r cp b0 run by (simp add: shell_round_def readline_def say_def cmd_mem_def Let_def)
qed

definition demo_shell :: shell_state where
  "demo_shell = fs_state.extend demo_fs
     (shell_state.fields (replicate 512 0) (replicate 512 0) (slash # replicate 511 0) (replicate 16 0) [])"

theorem shell_blank_line_panics_witness:
  "shell_round [] zero_entry [0x20, 0x20, 10] demo_shell = None"
proof -
  have "shell_round [] zero_entry (replicate 2 0x20 @ newline # []) demo_shell = None"
    by (rule shell_blank_line_panics)
      (simp_all add: MAX_PATH_LEN_def MAX_ARG_NR_def demo_shell_def fs_state.defs shell_state.defs)
  then show ?thesis by (simp add: newline_def numeral_2_eq_2)
qed

end
