(* ===== verification/Task_Create.thy ===== *)
theory Task_Create
  imports Kernel_Heap Kernel_Stdio
begin

text \<open>
  Making and listing tasks: the part of \<open>thread/thread.c\<close> that \<open>Kernel_Thread\<close> leaves out. A task's page is
  its \<open>task_struct\<close>, which is typed, and above it its kernel stack, which is words in memory; what the code
  pops from that stack as frames is in \<open>kstack\<close> too. The addresses of the functions a new stack refers to
  come from the linker: they are the record \<open>code_addrs\<close>, an argument of the definitions. Names are
  the bytes before the terminating zero, the \<open>name\<close> of a task is its array of 16 bytes.
\<close>

record code_addrs =
  addr_kernel_thread :: u32
  addr_start_process :: u32
  addr_intr_exit :: u32
  addr_idle :: u32
  addr_init :: u32

record proc_state = kmem +
  next_pid :: u16
  pid_lock :: u32

definition sizeof_intr_stack :: u32 where "sizeof_intr_stack = 76"
definition sizeof_thread_stack :: u32 where "sizeof_thread_stack = 32"

subsection \<open>Numbers and names\<close>

text \<open>\<open>next_pid\<close> is read again for the result after the lock has been given back.\<close>

definition allocate_pid :: "'z proc_state_scheme \<Rightarrow> (u16 \<times> 'z proc_state_scheme) option" where
  "allocate_pid s = do {
     s \<leftarrow> lock_acquire_now (pid_lock s) s;
     let s = s\<lparr>next_pid := next_pid s + 1\<rparr>;
     s \<leftarrow> lock_release_now (pid_lock s) s;
     Some (next_pid s, s) }"

definition fork_pid :: "'z proc_state_scheme \<Rightarrow> (u16 \<times> 'z proc_state_scheme) option" where
  "fork_pid s = allocate_pid s"

text \<open>The task that \<open>memset\<close> leaves: all fields zero. Its lists of free blocks are not lists yet.\<close>

definition zero_task :: task_struct where
  "zero_task = \<lparr>self_kstack = 0, pid = 0, status = TASK_RUNNING, priority = 0, name = replicate 16 0,
     ticks = 0, elapsed_ticks = 0, fd_table = replicate 8 0, pgdir = 0,
     userprog_vaddr = \<lparr>vaddr_bitmap = \<lparr>btmp_bytes_len = 0, bits = []\<rparr>, vaddr_start = 0\<rparr>,
     u_block_desc = replicate DESC_CNT \<lparr>block_size = 0, blocks_per_arena = 0, free_list = []\<rparr>,
     cwd_inode_nr = 0, parent_pid = 0, stack_magic = 0\<rparr>"

fun clear_fds :: "u32 list \<Rightarrow> nat \<Rightarrow> nat \<Rightarrow> u32 list option" where
  "clear_fds t fd_idx 0 = Some t"
| "clear_fds t fd_idx (Suc n) = do {
     t \<leftarrow> wr t fd_idx (-1);
     clear_fds t (fd_idx + 1) n }"

definition fill_task :: "task \<Rightarrow> bool \<Rightarrow> u16 \<Rightarrow> u8 list \<Rightarrow> u8 \<Rightarrow> task_struct \<Rightarrow> task_struct option" where
  "fill_task pthread is_main new_pid nm prio p = do {
     let p = p\<lparr>pid := new_pid\<rparr>;
     nm \<leftarrow> (if length nm < 16 then Some (put_bytes (name p) 0 (nm @ [0])) else None);  \<comment> \<open>\<open>strcpy\<close>\<close>
     let p = p\<lparr>name := nm\<rparr>;
     let p = p\<lparr>status := (if is_main then TASK_RUNNING else TASK_READY)\<rparr>;
     let p = p\<lparr>self_kstack := pthread + PG_SIZE, priority := prio, ticks := prio,
       elapsed_ticks := 0, pgdir := 0\<rparr>;
     t \<leftarrow> wr (fd_table p) 0 0;
     t \<leftarrow> wr t 1 1;
     t \<leftarrow> wr t 2 2;
     t \<leftarrow> clear_fds t 3 5;
     Some (p\<lparr>fd_table := t, cwd_inode_nr := 0, parent_pid := -1, stack_magic := stack_magic_value\<rparr>) }"

definition init_thread ::
  "task \<Rightarrow> u8 list \<Rightarrow> u8 \<Rightarrow> 'z proc_state_scheme \<Rightarrow> 'z proc_state_scheme option" where
  "init_thread pthread nm prio s = do {
     ASSERT (pthread \<noteq> 0);  \<comment> \<open>in \<open>memset\<close>\<close>
     let s = s\<lparr>tasks := (tasks s)(pthread \<mapsto> zero_task)\<rparr>;
     (new_pid, s) \<leftarrow> allocate_pid s;
     p \<leftarrow> tasks s pthread;
     p \<leftarrow> fill_task pthread (pthread = main_thread s) new_pid nm prio p;
     Some (s\<lparr>tasks := (tasks s)(pthread \<mapsto> p)\<rparr>) }"

subsection \<open>The first stack\<close>

text \<open>Words stored one after the other from an address on.\<close>

fun store_words :: "u32 \<Rightarrow> u32 list \<Rightarrow> mmu \<Rightarrow> mmu option" where
  "store_words a [] m = Some m"
| "store_words a (w # ws) m = do {
     m \<leftarrow> store32 a w m;
     store_words (a + 4) ws m }"

text \<open>
  \<open>self_kstack\<close> is an \<open>uint32_t*\<close>, so the subtraction of a number of bytes subtracts four times as much.
  \<open>body\<close> are the frames of the function the thread runs.
\<close>

definition thread_create ::
  "code_addrs \<Rightarrow> task \<Rightarrow> u32 \<Rightarrow> u32 \<Rightarrow> frame list \<Rightarrow> 'z proc_state_scheme \<Rightarrow> 'z proc_state_scheme option" where
  "thread_create code pthread function_addr func_arg body s = do {
     s \<leftarrow> upd_task pthread (\<lambda>p. p\<lparr>self_kstack := self_kstack p - 4 * sizeof_intr_stack\<rparr>) s;
     s \<leftarrow> upd_task pthread (\<lambda>p. p\<lparr>self_kstack := self_kstack p - 4 * sizeof_thread_stack\<rparr>) s;
     p \<leftarrow> tasks s pthread;
     let kthread_stack = self_kstack p;
     m \<leftarrow> store32 (kthread_stack + 16) (addr_kernel_thread code) (mmu s);
     m \<leftarrow> store32 (kthread_stack + 24) function_addr m;
     m \<leftarrow> store32 (kthread_stack + 28) func_arg m;
     m \<leftarrow> store_words kthread_stack [0, 0, 0, 0] m;  \<comment> \<open>ebp, ebx, edi, esi\<close>
     Some (s\<lparr>mmu := m, kstack := (kstack s)(pthread := Kernel_thread # body)\<rparr>) }"

text \<open>The two appends that make a task known to the scheduler.\<close>

definition enlist :: "task \<Rightarrow> 'z kstate_scheme \<Rightarrow> 'z kstate_scheme option" where
  "enlist t s = do {
     found \<leftarrow> q_find t (thread_ready_list s);
     ASSERT (\<not> found);
     l \<leftarrow> q_append t (thread_ready_list s);
     let s = s\<lparr>thread_ready_list := l\<rparr>;
     found \<leftarrow> q_find t (thread_all_list s);
     ASSERT (\<not> found);
     l \<leftarrow> q_append t (thread_all_list s);
     Some (s\<lparr>thread_all_list := l\<rparr>) }"

definition thread_start ::
  "code_addrs \<Rightarrow> u8 list \<Rightarrow> u8 \<Rightarrow> u32 \<Rightarrow> u32 \<Rightarrow> frame list \<Rightarrow> 'z proc_state_scheme \<Rightarrow>
   (task \<times> 'z proc_state_scheme) option" where
  "thread_start code nm prio function_addr func_arg body s = do {
     (thread, s) \<leftarrow> get_kernel_pages 1 s;
     s \<leftarrow> init_thread thread nm prio s;
     s \<leftarrow> thread_create code thread function_addr func_arg body s;
     s \<leftarrow> enlist thread s;
     Some (thread, s) }"

definition make_main_thread :: "'z proc_state_scheme \<Rightarrow> 'z proc_state_scheme option" where
  "make_main_thread s = do {
     let s = s\<lparr>main_thread := running s\<rparr>;
     s \<leftarrow> init_thread (main_thread s) [0x6d, 0x61, 0x69, 0x6e] 31 s;
     found \<leftarrow> q_find (main_thread s) (thread_all_list s);
     ASSERT (\<not> found);
     l \<leftarrow> q_append (main_thread s) (thread_all_list s);
     Some (s\<lparr>thread_all_list := l\<rparr>) }"

subsection \<open>Listing the tasks\<close>

text \<open>
  \<open>pad_print\<close> formats into \<open>buf\<close> with \<open>sprintf\<close> and fills the rest with blanks; the last byte is not written.
  The format and the string lie behind the buffer; a text that does not fit the buffer is \<open>None\<close>. The
  result are the bytes handed to \<open>sys_write\<close>.
\<close>

fun fill_blanks :: "u8 list \<Rightarrow> nat \<Rightarrow> nat \<Rightarrow> u8 list option" where
  "fill_blanks buf i 0 = Some buf"
| "fill_blanks buf i (Suc n) = do {
     buf \<leftarrow> wr buf i 0x20;
     fill_blanks buf (i + 1) n }"

definition pad_print :: "nat \<Rightarrow> u8 \<Rightarrow> va_list \<Rightarrow> u8 list \<Rightarrow> u8 list option" where
  "pad_print buf_len format args str = do {
     let mem = 0 # replicate buf_len 0 @ [0x25, format, 0] @ str @ [0];
     (n, mem) \<leftarrow> sprintf mem 1 (1 + buf_len) args;
     ASSERT (n < buf_len);
     buf \<leftarrow> fill_blanks (bytes_at 1 buf_len mem) n (buf_len - n);
     Some (take (buf_len - 1) buf) }"

definition pad_str :: "u8 list \<Rightarrow> u8 list option" where
  "pad_str str = pad_print 16 0x73 [1 + 16 + 3] str"

definition pad_dec :: "u16 \<Rightarrow> u8 list option" where
  "pad_dec v = pad_print 16 0x64 [scast v] []"

definition pad_hex :: "u32 \<Rightarrow> u8 list option" where
  "pad_hex v = pad_print 16 0x78 [v] []"

definition status_text :: "task_status \<Rightarrow> string" where
  "status_text v = (case v of
     TASK_RUNNING \<Rightarrow> ''RUNNING'' | TASK_READY \<Rightarrow> ''READY'' | TASK_BLOCKED \<Rightarrow> ''BLOCKED''
   | TASK_WAITING \<Rightarrow> ''WAITING'' | TASK_HANGING \<Rightarrow> ''HANGING'' | TASK_DIED \<Rightarrow> ''DIED'')"

definition bytes_of :: "string \<Rightarrow> u8 list" where
  "bytes_of cs = map of_char cs"

definition elem2thread_info :: "task_struct \<Rightarrow> u8 list list option" where
  "elem2thread_info p = do {
     c1 \<leftarrow> pad_dec (pid p);
     c2 \<leftarrow> (if parent_pid p = -1 then pad_str (bytes_of ''NULL'') else pad_dec (parent_pid p));
     c3 \<leftarrow> pad_str (bytes_of (status_text (status p)));
     c4 \<leftarrow> pad_hex (elapsed_ticks p);
     n \<leftarrow> str_past (name p) 0;
     let n = n - 1;
     ASSERT (n < 17);
     ASSERT (n + 2 \<le> 16);  \<comment> \<open>the name, the line feed and the zero fit \<open>out_pad\<close>\<close>
     Some [c1, c2, c3, c4, take n (name p) @ [10]] }"

fun ps_tasks :: "task list \<Rightarrow> (task \<rightharpoonup> task_struct) \<Rightarrow> u8 list list option" where
  "ps_tasks [] tm = Some []"
| "ps_tasks (t # ts) tm = do {
     p \<leftarrow> tm t;
     l \<leftarrow> elem2thread_info p;
     r \<leftarrow> ps_tasks ts tm;
     Some (l @ r) }"

definition ps_title :: string where
  "ps_title = ''PID           PPID          STAT            TICKS          COMMAND'' @ [CHR 0x0A]"

definition sys_ps :: "'z kstate_scheme \<Rightarrow> u8 list list option" where
  "sys_ps s = do {
     r \<leftarrow> ps_tasks (thread_all_list s) (tasks s);
     Some (bytes_of ps_title # r) }"

end
