(* ===== verification/Process_Create.thy ===== *)
theory Process_Create
  imports Task_Create
begin

text \<open>
  \<open>userprog/process.c\<close>, \<open>userprog/tss.c\<close>, the table of \<open>userprog/syscall-init.c\<close> and \<open>thread_init\<close>. Moving to the
  user mode itself (\<open>jmp intr_exit\<close>) is the processor's: \<open>start_process\<close> ends with the stack it pops.
\<close>

unbundle bit_operations_syntax

subsection \<open>The task state segment\<close>

text \<open>The 27 words of \<open>struct tss\<close>; \<open>esp0\<close> is word 1, \<open>ss0\<close> word 2 and \<open>io_base\<close> word 26.\<close>

record gdt_desc =
  limit_low_word :: u16
  base_low_word :: u16
  base_mid_byte :: u8
  attr_low_byte :: u8
  limit_high_attr_high :: u8
  base_high_byte :: u8

definition make_gdt_desc :: "u32 \<Rightarrow> u32 \<Rightarrow> u8 \<Rightarrow> u8 \<Rightarrow> gdt_desc" where
  "make_gdt_desc desc_addr limit attr_low attr_high = \<lparr>
     limit_low_word = ucast (limit AND 0x0000ffff),
     base_low_word = ucast (desc_addr AND 0x0000ffff),
     base_mid_byte = ucast (drop_bit 16 (desc_addr AND 0x00ff0000)),
     attr_low_byte = attr_low,
     limit_high_attr_high = ucast (drop_bit 16 (limit AND 0x000f0000) + ucast attr_high),
     base_high_byte = ucast (drop_bit 24 desc_addr)\<rparr>"

definition SELECTOR_K_STACK :: u32 where "SELECTOR_K_STACK = 0x10"
definition SELECTOR_U_CODE :: u32 where "SELECTOR_U_CODE = 0x2b"
definition SELECTOR_U_DATA :: u32 where "SELECTOR_U_DATA = 0x33"
definition SELECTOR_TSS :: u16 where "SELECTOR_TSS = 0x20"
definition TSS_ATTR_HIGH :: u8 where "TSS_ATTR_HIGH = 0x80"
definition TSS_ATTR_LOW :: u8 where "TSS_ATTR_LOW = 0x89"
definition GDT_CODE_ATTR_LOW_DPL3 :: u8 where "GDT_CODE_ATTR_LOW_DPL3 = 0xf8"
definition GDT_DATA_ATTR_LOW_DPL3 :: u8 where "GDT_DATA_ATTR_LOW_DPL3 = 0xf2"
definition GDT_ATTR_HIGH :: u8 where "GDT_ATTR_HIGH = 0xc0"

text \<open>The segment, the descriptors at their addresses, the operand of \<open>lgdt\<close> and the task register.\<close>

record tss_setup =
  tss :: "u32 list"
  gdt_at :: "u32 \<rightharpoonup> gdt_desc"
  gdtr :: "64 word"
  task_register :: u16

definition tss_init :: "u32 \<Rightarrow> tss_setup \<Rightarrow> tss_setup" where
  "tss_init addr_tss s = (
     let tss_size = 108;
         t = (replicate 27 0)[2 := SELECTOR_K_STACK, 26 := tss_size];
         g = (gdt_at s)(0xc0000920 \<mapsto> make_gdt_desc addr_tss (tss_size - 1) TSS_ATTR_LOW TSS_ATTR_HIGH);
         g = g(0xc0000928 \<mapsto> make_gdt_desc 0 0xfffff GDT_CODE_ATTR_LOW_DPL3 GDT_ATTR_HIGH);
         g = g(0xc0000930 \<mapsto> make_gdt_desc 0 0xfffff GDT_DATA_ATTR_LOW_DPL3 GDT_ATTR_HIGH)
     in s\<lparr>tss := t, gdt_at := g, gdtr := (8 * 7 - 1) OR push_bit 16 0xc0000900, task_register := SELECTOR_TSS\<rparr>)"

subsection \<open>Address spaces\<close>

definition USER_STACK3_VADDR :: u32 where "USER_STACK3_VADDR = 0xc0000000 - 0x1000"
definition USER_VADDR_START :: u32 where "USER_VADDR_START = 0x8048000"
definition default_prio :: u8 where "default_prio = 31"

text \<open>\<open>memcpy\<close> on word-aligned addresses, a word at a time.\<close>

fun copy_words :: "u32 \<Rightarrow> u32 \<Rightarrow> nat \<Rightarrow> mmu \<Rightarrow> mmu option" where
  "copy_words dst src 0 m = Some m"
| "copy_words dst src (Suc n) m = do {
     w \<leftarrow> load32 src m;
     m \<leftarrow> store32 dst w m;
     copy_words (dst + 4) (src + 4) n m }"

text \<open>The kernel's quarter of the page directory is copied, entries 768 to 1023, and the last one replaced.\<close>

definition create_page_dir :: "'z kmem_scheme \<Rightarrow> (u32 \<times> 'z kmem_scheme) option" where
  "create_page_dir s = do {
     (page_dir_vaddr, s) \<leftarrow> get_kernel_pages 1 s;
     if page_dir_vaddr = 0 then Some (0, s)
     else do {
       m \<leftarrow> copy_words (page_dir_vaddr + 0x300 * 4) (0xfffff000 + 0x300 * 4) 256 (mmu s);
       new_page_dir_phy_addr \<leftarrow> addr_v2p page_dir_vaddr m;
       m \<leftarrow> store32 (page_dir_vaddr + 4 * 1023) (new_page_dir_phy_addr OR PG_US_U OR PG_RW_W OR PG_P_1) m;
       Some (page_dir_vaddr, s\<lparr>mmu := m\<rparr>) } }"

definition user_bitmap_bytes :: u32 where
  "user_bitmap_bytes = (0xc0000000 - USER_VADDR_START) div PG_SIZE div 8"

definition user_bitmap_pages :: u32 where
  "user_bitmap_pages = DIV_ROUND_UP user_bitmap_bytes PG_SIZE"

text \<open>The pages from the kernel heap hold zeros.\<close>

definition create_user_vaddr_bitmap :: "task \<Rightarrow> 'z kmem_scheme \<Rightarrow> 'z kmem_scheme option" where
  "create_user_vaddr_bitmap user_prog s = do {
     s \<leftarrow> upd_task user_prog (\<lambda>p. p\<lparr>userprog_vaddr := (userprog_vaddr p)\<lparr>vaddr_start := USER_VADDR_START\<rparr>\<rparr>) s;
     (a, s) \<leftarrow> get_kernel_pages user_bitmap_pages s;
     ASSERT (a \<noteq> 0);  \<comment> \<open>in the \<open>memset\<close> of \<open>bitmap_init\<close>\<close>
     b \<leftarrow> bitmap_init \<lparr>btmp_bytes_len = unat user_bitmap_bytes,
            bits = replicate (unat (user_bitmap_pages * PG_SIZE)) 0\<rparr>;
     upd_task user_prog (\<lambda>p. p\<lparr>userprog_vaddr := (userprog_vaddr p)\<lparr>vaddr_bitmap := b\<rparr>\<rparr>) s }"

definition process_execute ::
  "code_addrs \<Rightarrow> u32 \<Rightarrow> u8 list \<Rightarrow> 'z proc_state_scheme \<Rightarrow> 'z proc_state_scheme option" where
  "process_execute code filename nm s = do {
     (thread, s) \<leftarrow> get_kernel_pages 1 s;
     s \<leftarrow> init_thread thread nm default_prio s;
     s \<leftarrow> create_user_vaddr_bitmap thread s;
     s \<leftarrow> thread_create code thread (addr_start_process code) filename [] s;
     (dir, s) \<leftarrow> create_page_dir s;
     s \<leftarrow> upd_task thread (\<lambda>p. p\<lparr>pgdir := dir\<rparr>) s;
     p \<leftarrow> tasks s thread;
     ds \<leftarrow> block_desc_init (u_block_desc p);
     s \<leftarrow> upd_task thread (\<lambda>p. p\<lparr>u_block_desc := ds\<rparr>) s;
     let (old_status, s) = intr_disable s;
     s \<leftarrow> enlist thread s;
     Some (snd (intr_set_status old_status s)) }"

text \<open>
  The stack \<open>intr_exit\<close> pops, from \<open>vec_no\<close> (not set) to \<open>ss\<close>; \<open>self_kstack\<close> grows by four times the size of
  a \<open>thread_stack\<close>. \<open>esp\<close> is set after the page of the user stack has been allocated.
\<close>

definition start_process :: "u32 \<Rightarrow> 'z kmem_scheme \<Rightarrow> 'z kmem_scheme option" where
  "start_process filename s = do {
     let cur = running s;
     s \<leftarrow> upd_task cur (\<lambda>p. p\<lparr>self_kstack := self_kstack p + 4 * sizeof_thread_stack\<rparr>) s;
     p \<leftarrow> tasks s cur;
     let proc_stack = self_kstack p;
     m \<leftarrow> store_words (proc_stack + 4)
            [0, 0, 0, 0,  \<comment> \<open>edi, esi, ebp, esp_dummy\<close>
             0, 0, 0, 0,  \<comment> \<open>ebx, edx, ecx, eax\<close>
             0, SELECTOR_U_DATA, SELECTOR_U_DATA, SELECTOR_U_DATA]  \<comment> \<open>gs, fs, es, ds\<close>
            (mmu s);
     m \<leftarrow> store_words (proc_stack + 56) [filename, SELECTOR_U_CODE, 0x202] m;  \<comment> \<open>eip, cs, eflags\<close>
     (stack, s) \<leftarrow> get_a_page PF_USER USER_STACK3_VADDR (s\<lparr>mmu := m\<rparr>);
     m \<leftarrow> store_words (proc_stack + 68) [stack + PG_SIZE, SELECTOR_U_DATA] (mmu s);  \<comment> \<open>esp, ss\<close>
     Some (s\<lparr>mmu := m\<rparr>) }"

subsection \<open>Starting up\<close>

definition thread_init :: "code_addrs \<Rightarrow> 'z proc_state_scheme \<Rightarrow> 'z proc_state_scheme option" where
  "thread_init code s = do {
     let s = s\<lparr>thread_ready_list := [], thread_all_list := []\<rparr>;
     let s = lock_init (pid_lock s) s;
     s \<leftarrow> process_execute code (addr_init code) [0x69, 0x6e, 0x69, 0x74] s;
     s \<leftarrow> make_main_thread s;
     (t, s) \<leftarrow> thread_start code [0x69, 0x64, 0x6c, 0x65] 10 (addr_idle code) 0 [Idle] s;
     Some (s\<lparr>idle_thread := t\<rparr>) }"

subsection \<open>System calls\<close>

datatype syscall =
    Sys_getpid | Sys_write | Sys_malloc | Sys_free | Sys_fork | Sys_read | Sys_putchar | Sys_clear
  | Sys_getcwd | Sys_open | Sys_close | Sys_lseek | Sys_unlink | Sys_mkdir | Sys_opendir | Sys_closedir
  | Sys_chdir | Sys_rmdir | Sys_readdir | Sys_rewinddir | Sys_stat | Sys_ps

definition syscall_nr :: nat where "syscall_nr = 32"

text \<open>The numbers of \<open>enum SYSCALL_NR\<close>.\<close>

fun SYSCALL_NR :: "syscall \<Rightarrow> nat" where
  "SYSCALL_NR Sys_getpid = 0" | "SYSCALL_NR Sys_write = 1" | "SYSCALL_NR Sys_malloc = 2"
| "SYSCALL_NR Sys_free = 3" | "SYSCALL_NR Sys_fork = 4" | "SYSCALL_NR Sys_read = 5"
| "SYSCALL_NR Sys_putchar = 6" | "SYSCALL_NR Sys_clear = 7" | "SYSCALL_NR Sys_getcwd = 8"
| "SYSCALL_NR Sys_open = 9" | "SYSCALL_NR Sys_close = 10" | "SYSCALL_NR Sys_lseek = 11"
| "SYSCALL_NR Sys_unlink = 12" | "SYSCALL_NR Sys_mkdir = 13" | "SYSCALL_NR Sys_opendir = 14"
| "SYSCALL_NR Sys_closedir = 15" | "SYSCALL_NR Sys_chdir = 16" | "SYSCALL_NR Sys_rmdir = 17"
| "SYSCALL_NR Sys_readdir = 18" | "SYSCALL_NR Sys_rewinddir = 19" | "SYSCALL_NR Sys_stat = 20"
| "SYSCALL_NR Sys_ps = 21"

text \<open>The assignments of \<open>syscall_init\<close>, in their order.\<close>

definition syscall_init :: "syscall option list \<Rightarrow> syscall option list" where
  "syscall_init syscall_table = foldl (\<lambda>t f. t[SYSCALL_NR f := Some f]) syscall_table
     [Sys_getpid, Sys_write, Sys_malloc, Sys_free, Sys_fork, Sys_read, Sys_putchar, Sys_clear, Sys_getcwd,
      Sys_open, Sys_close, Sys_lseek, Sys_unlink, Sys_mkdir, Sys_opendir, Sys_closedir, Sys_chdir, Sys_rmdir,
      Sys_readdir, Sys_rewinddir, Sys_stat, Sys_ps]"

definition sys_getpid :: "'z kstate_scheme \<Rightarrow> u32 option" where
  "sys_getpid s = do {
     p \<leftarrow> tasks s (running s);
     Some (scast (pid p)) }"

end
