(* ===== verification/Process_Fork.thy ===== *)
theory Process_Fork
  imports Process_Create Fs_File
begin

text \<open>
  \<open>userprog/fork.c\<close>. The file table and the inodes the file system keeps are arguments and results, as
  \<open>fork\<close> only counts the child's references in them. A page that is copied takes with it the arena header
  at its start, when it has one, with the descriptor the header points to: that of the parent.
\<close>

unbundle bit_operations_syntax

subsection \<open>Copying pages\<close>

definition copy_page :: "u32 \<Rightarrow> u32 \<Rightarrow> 'z kmem_scheme \<Rightarrow> 'z kmem_scheme option" where
  "copy_page dst src s = do {
     m \<leftarrow> copy_words dst src (unat PG_SIZE div 4) (mmu s);
     from \<leftarrow> mmu_walk (mmu s) src;
     to \<leftarrow> mmu_walk (mmu s) dst;
     Some (s\<lparr>mmu := m, arenas := (arenas s)(to := arenas s from)\<rparr>) }"

text \<open>
  The result is false where the code returns -1. The child's page holds its \<open>task_struct\<close> (the typed one)
  and a copy of the parent's kernel stack.
\<close>

definition copy_pcb_vaddrbitmap_stack0 ::
  "task \<Rightarrow> task \<Rightarrow> 'z proc_state_scheme \<Rightarrow> (bool \<times> 'z proc_state_scheme) option" where
  "copy_pcb_vaddrbitmap_stack0 child_thread parent_thread s = do {
     s \<leftarrow> copy_page child_thread parent_thread s;
     parent \<leftarrow> tasks s parent_thread;
     let s = s\<lparr>tasks := (tasks s)(child_thread \<mapsto> parent)\<rparr>;
     (new_pid, s) \<leftarrow> fork_pid s;
     parent \<leftarrow> tasks s parent_thread;
     s \<leftarrow> upd_task child_thread (\<lambda>p. p\<lparr>pid := new_pid, elapsed_ticks := 0, status := TASK_READY,
            ticks := priority p, parent_pid := pid parent\<rparr>) s;
     child \<leftarrow> tasks s child_thread;
     ds \<leftarrow> block_desc_init (u_block_desc child);
     s \<leftarrow> upd_task child_thread (\<lambda>p. p\<lparr>u_block_desc := ds\<rparr>) s;
     (vaddr_btmp, s) \<leftarrow> get_kernel_pages user_bitmap_pages s;
     if vaddr_btmp = 0 then Some (False, s)
     else do {
       child \<leftarrow> tasks s child_thread;
       let btmp = vaddr_bitmap (userprog_vaddr child);
       bs \<leftarrow> get_buf (bits btmp) 0 (unat (user_bitmap_pages * PG_SIZE));
       s \<leftarrow> upd_task child_thread
              (\<lambda>p. p\<lparr>userprog_vaddr := (userprog_vaddr p)\<lparr>vaddr_bitmap := btmp\<lparr>bits := bs\<rparr>\<rparr>\<rparr>) s;
       n \<leftarrow> str_past (name child) 0;
       ASSERT (n - 1 < 11);
       nm \<leftarrow> put_buf (name child) (n - 1) [0x5f, 0x66, 0x6f, 0x72, 0x6b, 0];  \<comment> \<open>\<open>_fork\<close>\<close>
       s \<leftarrow> upd_task child_thread (\<lambda>p. p\<lparr>name := nm\<rparr>) s;
       Some (True, s) } }"

definition copy_user_page ::
  "task \<Rightarrow> task \<Rightarrow> u32 \<Rightarrow> u32 \<Rightarrow> 'z kmem_scheme \<Rightarrow> 'z kmem_scheme option" where
  "copy_user_page child_thread parent_thread buf_page prog_vaddr s = do {
     s \<leftarrow> copy_page buf_page prog_vaddr s;
     s \<leftarrow> page_dir_activate child_thread s;
     (a, s) \<leftarrow> get_a_page_without_opvaddrbitmap PF_USER prog_vaddr s;
     s \<leftarrow> copy_page prog_vaddr buf_page s;
     page_dir_activate parent_thread s }"

fun copy_byte_pages ::
  "task \<Rightarrow> task \<Rightarrow> u32 \<Rightarrow> u32 \<Rightarrow> u8 \<Rightarrow> nat \<Rightarrow> nat \<Rightarrow> nat \<Rightarrow> 'z kmem_scheme \<Rightarrow> 'z kmem_scheme option" where
  "copy_byte_pages child parent buf_page start byte idx_byte idx_bit 0 s = Some s"
| "copy_byte_pages child parent buf_page start byte idx_byte idx_bit (Suc n) s = do {
     s \<leftarrow> (if push_bit idx_bit 1 AND byte \<noteq> 0
           then copy_user_page child parent buf_page (word_of_nat (idx_byte * 8 + idx_bit) * PG_SIZE + start) s
           else Some s);
     copy_byte_pages child parent buf_page start byte idx_byte (idx_bit + 1) n s }"

fun copy_bitmap_pages ::
  "task \<Rightarrow> task \<Rightarrow> u32 \<Rightarrow> u32 \<Rightarrow> u8 list \<Rightarrow> nat \<Rightarrow> nat \<Rightarrow> 'z kmem_scheme \<Rightarrow> 'z kmem_scheme option" where
  "copy_bitmap_pages child parent buf_page start vaddr_btmp idx_byte 0 s = Some s"
| "copy_bitmap_pages child parent buf_page start vaddr_btmp idx_byte (Suc n) s = do {
     byte \<leftarrow> rd vaddr_btmp idx_byte;
     s \<leftarrow> (if byte \<noteq> 0 then copy_byte_pages child parent buf_page start byte idx_byte 0 8 s else Some s);
     copy_bitmap_pages child parent buf_page start vaddr_btmp (idx_byte + 1) n s }"

definition copy_body_stack3 :: "task \<Rightarrow> task \<Rightarrow> u32 \<Rightarrow> 'z kmem_scheme \<Rightarrow> 'z kmem_scheme option" where
  "copy_body_stack3 child_thread parent_thread buf_page s = do {
     p \<leftarrow> tasks s parent_thread;
     let btmp = vaddr_bitmap (userprog_vaddr p);
     copy_bitmap_pages child_thread parent_thread buf_page (vaddr_start (userprog_vaddr p))
       (bits btmp) 0 (btmp_bytes_len btmp) s }"

subsection \<open>The child's stack\<close>

text \<open>
  Below the \<open>intr_stack\<close> at the top of the page, whose \<open>eax\<close> is the child's return value, come the five
  words \<open>switch_to\<close> pops. The child continues at \<open>intr_exit\<close>, which loads the flags saved at the system call.
\<close>

definition build_child_stack :: "code_addrs \<Rightarrow> task \<Rightarrow> 'z kstate_scheme \<Rightarrow> 'z kstate_scheme option" where
  "build_child_stack code child_thread s = do {
     let intr_0_stack = child_thread + PG_SIZE - 76;
     m \<leftarrow> store32 (intr_0_stack + 32) 0 (mmu s);
     m \<leftarrow> store32 (intr_0_stack - 4) (addr_intr_exit code) m;
     m \<leftarrow> store32 (intr_0_stack - 8) 0 m;
     m \<leftarrow> store32 (intr_0_stack - 12) 0 m;
     m \<leftarrow> store32 (intr_0_stack - 16) 0 m;
     m \<leftarrow> store32 (intr_0_stack - 20) 0 m;
     flags \<leftarrow> load32 (intr_0_stack + 64) m;
     upd_task child_thread (\<lambda>p. p\<lparr>self_kstack := intr_0_stack - 20\<rparr>)
       (s\<lparr>mmu := m, kstack := (kstack s)(child_thread := [Iret flags])\<rparr>) }"

subsection \<open>The child's files\<close>

fun count_fds ::
  "u32 list \<Rightarrow> nat \<Rightarrow> nat \<Rightarrow> open_file list \<Rightarrow> (u32 \<rightharpoonup> inode) \<Rightarrow> (u32 \<rightharpoonup> inode) option" where
  "count_fds fds local_fd 0 files inos = Some inos"
| "count_fds fds local_fd (Suc n) files inos = do {
     global_fd \<leftarrow> rd fds local_fd;
     ASSERT (sint global_fd < int MAX_FILE_OPEN);
     inos \<leftarrow> (if global_fd \<noteq> -1 then do {
         ASSERT (0 \<le> sint global_fd);  \<comment> \<open>an index of \<open>file_table\<close>\<close>
         v \<leftarrow> rd files (unat global_fd);
         ino \<leftarrow> inos (fd_inode v);
         Some (inos(fd_inode v \<mapsto> ino\<lparr>i_open_cnts := i_open_cnts ino + 1\<rparr>)) }
       else Some inos);
     count_fds fds (local_fd + 1) n files inos }"

definition update_inode_open_cnts ::
  "task \<Rightarrow> open_file list \<Rightarrow> (u32 \<rightharpoonup> inode) \<Rightarrow> 'z kstate_scheme \<Rightarrow> (u32 \<rightharpoonup> inode) option" where
  "update_inode_open_cnts thread files inos s = do {
     p \<leftarrow> tasks s thread;
     count_fds (fd_table p) 3 (MAX_FILES_OPEN_PER_PROC - 3) files inos }"

subsection \<open>Fork\<close>

text \<open>On a failure nothing is given back: neither the pages nor the child's \<open>task_struct\<close>.\<close>

definition copy_process ::
  "code_addrs \<Rightarrow> task \<Rightarrow> task \<Rightarrow> open_file list \<Rightarrow> (u32 \<rightharpoonup> inode) \<Rightarrow> 'z proc_state_scheme \<Rightarrow>
   (bool \<times> (u32 \<rightharpoonup> inode) \<times> 'z proc_state_scheme) option" where
  "copy_process code child_thread parent_thread files inos s = do {
     (buf_page, s) \<leftarrow> get_kernel_pages 1 s;
     if buf_page = 0 then Some (False, inos, s)
     else do {
       (ok, s) \<leftarrow> copy_pcb_vaddrbitmap_stack0 child_thread parent_thread s;
       if \<not> ok then Some (False, inos, s)
       else do {
         (dir, s) \<leftarrow> create_page_dir s;
         s \<leftarrow> upd_task child_thread (\<lambda>p. p\<lparr>pgdir := dir\<rparr>) s;
         if dir = 0 then Some (False, inos, s)
         else do {
           s \<leftarrow> copy_body_stack3 child_thread parent_thread buf_page s;
           s \<leftarrow> build_child_stack code child_thread s;
           inos \<leftarrow> update_inode_open_cnts child_thread files inos s;
           s \<leftarrow> mfree_page PF_KERNEL buf_page 1 s;
           Some (True, inos, s) } } } }"

text \<open>The result is a \<open>pid_t\<close>; -1 is \<open>0xffff\<close>.\<close>

definition sys_fork ::
  "code_addrs \<Rightarrow> open_file list \<Rightarrow> (u32 \<rightharpoonup> inode) \<Rightarrow> 'z proc_state_scheme \<Rightarrow>
   (u16 \<times> (u32 \<rightharpoonup> inode) \<times> 'z proc_state_scheme) option" where
  "sys_fork code files inos s = do {
     let parent_thread = running s;
     (child_thread, s) \<leftarrow> get_kernel_pages 1 s;
     if child_thread = 0 then Some (-1, inos, s)
     else do {
       parent \<leftarrow> tasks s parent_thread;
       ASSERT (intr_get_status s = INTR_OFF \<and> pgdir parent \<noteq> 0);
       (ok, inos, s) \<leftarrow> copy_process code child_thread parent_thread files inos s;
       if \<not> ok then Some (-1, inos, s)
       else do {
         s \<leftarrow> enlist child_thread s;
         child \<leftarrow> tasks s child_thread;
         Some (pid child, inos, s) } } }"

end
