(* ===== verification/Process_Space.thy ===== *)
theory Process_Space
  imports Process_Fork
begin

text \<open>
  The address space of a new process: the page directory \<open>create_page_dir\<close> makes translates the kernel's
  addresses as the current one does and nothing else.
\<close>

unbundle bit_operations_syntax

subsection \<open>Copying words of a page\<close>

text \<open>Words of a page that belongs to no page table, replaced by other words.\<close>

definition set_words :: "u32 \<Rightarrow> nat \<Rightarrow> nat \<Rightarrow> (nat \<Rightarrow> u32) \<Rightarrow> mmu \<Rightarrow> mmu" where
  "set_words pa k n f m = m\<lparr>ram := \<lambda>a. if a \<in> page_words pa k n then f ((unat (a - pa)) div 4) else ram m a\<rparr>"

lemma set_words_tables:
  assumes "aligned pa" and "pa \<notin> table_frames m" and "k + n \<le> 1024"
  shows "cr3 (set_words pa k n f m) = cr3 m"
    "\<forall>a. frame_of a \<in> table_frames m \<longrightarrow> ram (set_words pa k n f m) a = ram m a"
proof -
  show "cr3 (set_words pa k n f m) = cr3 m" by (simp add: set_words_def)
  show "\<forall>a. frame_of a \<in> table_frames m \<longrightarrow> ram (set_words pa k n f m) a = ram m a"
    using clear_words_tables(2) [OF assms] assms
      page_plus_simps(1) [OF assms(1) word_off_small]
    by (auto simp: set_words_def page_words_def)
qed

lemma set_words_nth:
  assumes "i < 1024" and "k + n \<le> 1024"
  shows "ram (set_words pa k n f m) (pa + word_off i) = (if k \<le> i \<and> i < k + n then f i else ram m (pa + word_off i))"
proof -
  have "pa + word_off i \<in> page_words pa k n \<longleftrightarrow> k \<le> i \<and> i < k + n"
    using assms by (auto simp: page_words_def dest!: word_off_inj [OF assms(1), rotated])
  moreover have "unat (word_off i) div 4 = i" using assms(1) by (simp add: unat_word_off)
  ultimately show ?thesis by (simp add: set_words_def)
qed

text \<open>Entry \<open>i\<close> of the page directory, and its address in the recursive mapping.\<close>

definition dir_entry_at :: "mmu \<Rightarrow> nat \<Rightarrow> u32" where
  "dir_entry_at m i = ram m (frame_of (cr3 m) + word_off i)"

lemma idx_word: "4 * PDE_IDX x = word_off (unat (PDE_IDX x))" "unat (PDE_IDX x) < 1024"
proof -
  show "4 * PDE_IDX x = word_off (unat (PDE_IDX x))" by (simp add: word_off_def)
  have "PDE_IDX x = take_bit 10 (PDE_IDX x)" by (rule bit_eqI) (auto simp: bit_take_bit_iff bit_idx)
  then have "unat (PDE_IDX x) = take_bit 10 (unat (PDE_IDX x))" by (metis unsigned_take_bit_eq)
  then show "unat (PDE_IDX x) < 1024" using take_bit_nat_less_exp [of 10 "unat (PDE_IDX x)"] by simp
qed

lemma dir_index: "i < 1024 \<Longrightarrow> PDE_IDX (push_bit 22 (word_of_nat i)) = word_of_nat i"
proof (rule bit_eqI)
  fix n
  assume i: "i < 1024" and "possible_bit TYPE(32 word) n"
  have "unat (word_of_nat i :: u32) = i" using i by (simp add: unat_of_nat)
  then have "take_bit 10 (word_of_nat i :: u32) = word_of_nat i"
    using i by (simp add: word_unat_eq_iff unsigned_take_bit_eq take_bit_nat_eq_self)
  then have "bit (word_of_nat i :: u32) n \<Longrightarrow> n < 10" by (metis bit_take_bit_iff)
  then show "bit (PDE_IDX (push_bit 22 (word_of_nat i))) n = bit (word_of_nat i :: u32) n"
    by (auto simp: bit_idx bit_push_bit_iff)
qed

lemma load_dir_entry:
  assumes "self_mapped m" and "i < 1024"
  shows "load32 (0xfffff000 + word_off i) m = Some (dir_entry_at m i)"
proof -
  have "0xfffff000 + word_off i = pde_ptr (push_bit 22 (word_of_nat i))"
    by (simp add: pde_ptr_def dir_index [OF assms(2)] word_off_def)
  then show ?thesis
    using load_pde [OF assms(1), of "push_bit 22 (word_of_nat i)"]
    by (simp add: dir_entry_at_def pde_at_frame dir_index [OF assms(2)] word_off_def)
qed

lemma same_dir_entries:
  assumes "cr3 m' = cr3 m" and "\<forall>a. frame_of a \<in> table_frames m \<longrightarrow> ram m' a = ram m a" and "i < 1024"
  shows "dir_entry_at m' i = dir_entry_at m i"
  using assms page_plus_simps(1) [OF aligned_frame word_off_small [OF assms(3)]]
  by (simp add: dir_entry_at_def table_frames_def)

lemma copy_dir:
  "mmu_walk m p = Some pa \<Longrightarrow> aligned p \<Longrightarrow> pa \<notin> table_frames m \<Longrightarrow> self_mapped m \<Longrightarrow> k + n \<le> 1024 \<Longrightarrow>
   copy_words (p + word_off k) (0xfffff000 + word_off k) n m = Some (set_words pa k n (dir_entry_at m) m)"
proof (induction n arbitrary: k m)
  case (Suc n)
  let ?f = "dir_entry_at m"
  have a: "aligned pa" using walk_in_page(2) [OF Suc.prems(1,2), of 0] by simp
  have k: "k < 1024" using Suc.prems(5) by simp
  have w: "mmu_walk m (p + word_off k) = Some (pa + word_off k)"
    by (rule walk_in_page(1) [OF Suc.prems(1,2) word_off_small [OF k]])
  define m1 where "m1 = set_words pa k 1 ?f m"
  have off: "unat (word_off k) div 4 = k" using k by (simp add: unat_word_off)
  have e: "m1 = m\<lparr>ram := (ram m)(pa + word_off k := ?f k)\<rparr>"
    by (simp add: m1_def set_words_def page_words_simps fun_upd_def) (use off in \<open>auto simp: fun_eq_iff\<close>)
  have t: "cr3 m1 = cr3 m" "\<forall>a. frame_of a \<in> table_frames m \<longrightarrow> ram m1 a = ram m a"
    using set_words_tables [OF a Suc.prems(3), of k 1] k by (auto simp: m1_def)
  have 1: "mmu_walk m1 p = Some pa" "pa \<notin> table_frames m1" "self_mapped m1"
    using same_tables(6,7,9) [OF t] Suc.prems by auto
  have "store32 (p + word_off k) (?f k) m = Some m1" unfolding e by (simp add: store32_def w)
  then have "copy_words (p + word_off k) (0xfffff000 + word_off k) (Suc n) m =
      copy_words (p + word_off (Suc k)) (0xfffff000 + word_off (Suc k)) n m1"
    using load_dir_entry [OF Suc.prems(4) k] by (simp add: word_off_Suc add.assoc)
  also have "\<dots> = Some (set_words pa (Suc k) n (dir_entry_at m1) m1)"
    by (rule Suc.IH [OF 1(1) Suc.prems(2) 1(2,3)]) (use Suc.prems(5) in simp)
  also have "set_words pa (Suc k) n (dir_entry_at m1) m1 = set_words pa (Suc k) n ?f m1"
  proof -
    have "unat (a - pa) div 4 < 1024" and "dir_entry_at m1 (unat (a - pa) div 4) = ?f (unat (a - pa) div 4)"
      if "a \<in> page_words pa (Suc k) n" for a
    proof -
      show "unat (a - pa) div 4 < 1024" using that Suc.prems(5) by (auto simp: page_words_def unat_word_off)
      then show "dir_entry_at m1 (unat (a - pa) div 4) = ?f (unat (a - pa) div 4)"
        by (rule same_dir_entries [OF t])
    qed
    then show ?thesis by (simp add: set_words_def cong: if_cong)
  qed
  also have "set_words pa (Suc k) n ?f m1 = set_words pa k (Suc n) ?f m"
    unfolding e set_words_def page_words_simps
    by (simp, rule arg_cong [of _ _ "\<lambda>f. m\<lparr>ram := f\<rparr>"]) (simp add: fun_eq_iff off)
  finally show ?case .
qed (simp add: set_words_def page_words_simps)

subsection \<open>The new directory\<close>

lemma unat_PDE_IDX: "unat (PDE_IDX x) = unat x div 4194304"
proof -
  have "PDE_IDX x = drop_bit 22 x"
    by (rule bit_eqI) (auto simp: bit_idx bit_drop_bit_eq add.commute dest: bit_imp_le_length)
  also have "drop_bit 22 x = x div 4194304" by (simp add: drop_bit_eq_div)
  finally show ?thesis by (simp add: unat_div_distrib)
qed

text \<open>The memory after \<open>create_page_dir\<close>: the page at \<open>pa\<close>, cleared before, with its last quarter set.\<close>

definition new_dir :: "u32 \<Rightarrow> mmu \<Rightarrow> mmu" where
  "new_dir pa m = (let m1 = set_words pa 768 256 (dir_entry_at m) m
     in m1\<lparr>ram := (ram m1)(pa + word_off 1023 := pte_of pa)\<rparr>)"

lemma new_dir_tables:
  assumes "aligned pa" and "pa \<notin> table_frames m"
  shows "cr3 (new_dir pa m) = cr3 m"
    "\<forall>a. frame_of a \<in> table_frames m \<longrightarrow> ram (new_dir pa m) a = ram m a"
  using set_words_tables [OF assms, of 768 256 "dir_entry_at m"] assms page_plus_simps(1) [OF assms(1), of "word_off 1023"]
    word_off_small [of 1023]
  by (auto simp: new_dir_def Let_def)

lemma new_dir_entry:
  assumes "i < 1024" and "\<forall>k < 1024. ram m (pa + word_off k) = 0"
  shows "ram (new_dir pa m) (pa + word_off i) =
    (if i = 1023 then pte_of pa else if 768 \<le> i then dir_entry_at m i else 0)"
  using set_words_nth [OF assms(1), of 768 256 pa "dir_entry_at m" m] assms word_off_inj [OF assms(1), of 1023]
  by (auto simp: new_dir_def Let_def)

text \<open>Translation through the new directory.\<close>

lemma new_dir_walk:
  assumes a: "aligned pa" and nt: "pa \<notin> table_frames m" and z: "\<forall>k < 1024. ram m (pa + word_off k) = 0"
    and M: "M = (new_dir pa m)\<lparr>cr3 := pa\<rparr>"
  shows "self_mapped M"
    and "unat x div 4194304 < 768 \<Longrightarrow> mmu_walk M x = None"
    and "768 \<le> unat x div 4194304 \<Longrightarrow> unat x div 4194304 < 1023 \<Longrightarrow> mmu_walk M x = mmu_walk m x"
proof -
  have f: "frame_of (cr3 M) = pa" using a by (simp add: M aligned_def)
  have r: "ram M = ram (new_dir pa m)" by (simp add: M)
  have e: "ram M (pde_at M x) = (if unat (PDE_IDX x) = 1023 then pte_of pa
      else if 768 \<le> unat (PDE_IDX x) then ram m (pde_at m x) else 0)" for x
    using new_dir_entry [OF idx_word(2) z, of x]
    by (simp add: r pde_at_frame f idx_word(1) dir_entry_at_def)
  have "4 * 0x3ff = word_off 1023" by (simp add: word_off_def)
  then have "ram M (pa + 4 * 0x3ff) = pte_of pa" using new_dir_entry [OF _ z, of 1023] by (simp add: r)
  then show "self_mapped M" using a f by (simp add: self_mapped_def)
  show "mmu_walk M x = None" if "unat x div 4194304 < 768"
    using that e [of x] by (simp add: walk_simps pde_present_def unat_PDE_IDX)
  show "mmu_walk M x = mmu_walk m x" if "768 \<le> unat x div 4194304" "unat x div 4194304 < 1023"
  proof -
    have ex: "ram M (pde_at M x) = ram m (pde_at m x)" using that e [of x] by (simp add: unat_PDE_IDX)
    then have p: "pde_present M x = pde_present m x" and q: "pte_at M x = pte_at m x"
      by (simp_all add: pde_present_def pte_at_frame)
    have "ram M (pte_at m x) = ram m (pte_at m x)" if "pde_present m x"
    proof -
      have "frame_of (pte_at m x) \<in> table_frames m" using that by (auto simp: table_frames_def frame_of_slots)
      then show ?thesis using new_dir_tables(2) [OF a nt] by (simp add: r)
    qed
    then show ?thesis using p q by (auto simp: walk_simps pte_present_def)
  qed
qed



end
