(* ===== verification/Task_Spec.thy ===== *)
theory Task_Spec
  imports Process_Space
begin

text \<open>
  A new task: what \<open>thread_start\<close> and \<open>allocate_pid\<close> leave, and the references to files a forked child holds.
\<close>

unbundle bit_operations_syntax

subsection \<open>Stores into a page of one's own\<close>

definition own_page :: "mmu \<Rightarrow> u32 \<Rightarrow> u32 \<Rightarrow> bool" where
  "own_page m t pa \<longleftrightarrow> mmu_walk m t = Some pa \<and> aligned t \<and> pa \<notin> table_frames m"

definition put_word :: "u32 \<Rightarrow> nat \<Rightarrow> u32 \<Rightarrow> mmu \<Rightarrow> mmu" where
  "put_word pa k v m = m\<lparr>ram := (ram m)(pa + word_off k := v)\<rparr>"

lemma own_page_aligned: "own_page m t pa \<Longrightarrow> aligned pa"
  unfolding own_page_def using walk_in_page(2) [of m t pa 0] by simp

lemma put_word_tables:
  assumes "own_page m t pa" and "k < 1024"
  shows "cr3 (put_word pa k v m) = cr3 m"
    "\<forall>a. frame_of a \<in> table_frames m \<longrightarrow> ram (put_word pa k v m) a = ram m a"
  using page_plus_simps(1) [OF own_page_aligned [OF assms(1)] word_off_small [OF assms(2)]] assms(1)
  by (auto simp: put_word_def own_page_def)

lemma put_word_page:
  assumes "own_page m t pa" and "k < 1024"
  shows "store32 (t + word_off k) v m = Some (put_word pa k v m)"
    and "own_page (put_word pa k v m) t pa"
    and "mmu_walk (put_word pa k v m) x = mmu_walk m x"
    and "table_frames (put_word pa k v m) = table_frames m"
    and "j < 1024 \<Longrightarrow> load32 (t + word_off j) (put_word pa k v m) =
      (if j = k then Some v else load32 (t + word_off j) m)"
proof -
  note w = walk_in_page(1) [of m t pa, OF _ _ word_off_small]
  have t: "mmu_walk m t = Some pa" "aligned t" using assms(1) by (auto simp: own_page_def)
  show "store32 (t + word_off k) v m = Some (put_word pa k v m)"
    using w [OF t assms(2)] by (simp add: store32_def put_word_def)
  show s: "mmu_walk (put_word pa k v m) x = mmu_walk m x" for x
    by (rule same_tables(6) [OF put_word_tables [OF assms]])
  show tf: "table_frames (put_word pa k v m) = table_frames m"
    by (rule same_tables(9) [OF put_word_tables [OF assms]])
  show "own_page (put_word pa k v m) t pa" using assms(1) s tf by (simp add: own_page_def)
  show "load32 (t + word_off j) (put_word pa k v m) = (if j = k then Some v else load32 (t + word_off j) m)"
    if "j < 1024"
    using w [OF t that] s word_off_inj [OF that assms(2)] by (auto simp: load32_def put_word_def)
qed

text \<open>The page tables are kept.\<close>

definition keeps_tables :: "mmu \<Rightarrow> mmu \<Rightarrow> bool" where
  "keeps_tables m m' \<longleftrightarrow> cr3 m' = cr3 m \<and> (\<forall>a. frame_of a \<in> table_frames m \<longrightarrow> ram m' a = ram m a)"

lemma keeps_trans: "keeps_tables m m' \<Longrightarrow> keeps_tables m' m'' \<Longrightarrow> keeps_tables m m''"
  using same_tables(9) [of m' m] by (simp add: keeps_tables_def)

lemma put_words:
  assumes "own_page m t pa"
    and "n = length ws" "\<forall>w \<in> set ws. fst w < 1024"
  shows "\<exists>m'. foldl (\<lambda>r (k, v). Option.bind r (store32 (t + word_off k) v)) (Some m) ws = Some m' \<and>
    own_page m' t pa \<and> keeps_tables m m' \<and>
    (\<forall>j < 1024. load32 (t + word_off j) m' = (case map_of (rev ws) j of Some v \<Rightarrow> Some v | None \<Rightarrow> load32 (t + word_off j) m))"
  using assms
proof (induction ws arbitrary: m n)
  case Nil
  then show ?case by (simp add: keeps_tables_def)
next
  case (Cons w ws)
  obtain k v where w: "w = (k, v)" by fastforce
  have k: "k < 1024" using Cons.prems(3) w by simp
  note P = put_word_page [OF Cons.prems(1) k]
  have "\<forall>w \<in> set ws. fst w < 1024" using Cons.prems(3) by simp
  from Cons.IH [OF P(2) [of v] refl this]
  obtain m' where m': "foldl (\<lambda>r (k, v). Option.bind r (store32 (t + word_off k) v)) (Some (put_word pa k v m)) ws = Some m'"
    "own_page m' t pa" "keeps_tables (put_word pa k v m) m'"
    "\<forall>j < 1024. load32 (t + word_off j) m' = (case map_of (rev ws) j of Some v \<Rightarrow> Some v
       | None \<Rightarrow> load32 (t + word_off j) (put_word pa k v m))"
    by blast
  have "keeps_tables m (put_word pa k v m)" using put_word_tables [OF Cons.prems(1) k] by (simp add: keeps_tables_def)
  then have "keeps_tables m m'" by (rule keeps_trans [OF _ m'(3)])
  moreover have "load32 (t + word_off j) m' = (case map_of (rev (w # ws)) j of Some v \<Rightarrow> Some v
       | None \<Rightarrow> load32 (t + word_off j) m)" if "j < 1024" for j
    using m'(4) P(5) [OF that] that by (auto simp: w map_add_def split: option.splits)
  ultimately show ?case
    using m'(1,2) P(1) by (auto simp: w)
qed

subsection \<open>A new task\<close>

lemma allocate_pid_eq:
  assumes "lock_free (pid_lock s) s" and "running s \<noteq> 0"
  shows "allocate_pid s = Some (next_pid s + 1, unheld (pid_lock s) ((held_by (pid_lock s) (running s) s)\<lparr>next_pid := next_pid s + 1\<rparr>))"
proof -
  let ?t = "(held_by (pid_lock s) (running s) s)\<lparr>next_pid := next_pid s + 1\<rparr>"
  have "lock_release_now (pid_lock s) ?t = Some (unheld (pid_lock s) ?t)"
    by (rule lock_release_held(1) [of _ _ s]) (simp_all add: held_by_def)
  then show ?thesis
    using lock_acquire_now_free [OF assms] by (simp add: allocate_pid_def Let_def held_by_def unheld_def)
qed

lemma clear_fds_eq: "clear_fds [0, 1, 2, a, b, c, d, e] 3 5 = Some [0, 1, 2, -1, -1, -1, -1, -1]"
  by (simp add: eval_nat_numeral)

text \<open>The \<open>task_struct\<close> of a new thread.\<close>

definition new_task :: "task \<Rightarrow> u16 \<Rightarrow> u8 list \<Rightarrow> u8 \<Rightarrow> task_struct" where
  "new_task t n nm prio = zero_task\<lparr>self_kstack := t + PG_SIZE, pid := n, status := TASK_READY, priority := prio,
     name := put_bytes (replicate 16 0) 0 (nm @ [0]), ticks := prio,
     fd_table := [0, 1, 2, -1, -1, -1, -1, -1], parent_pid := -1, stack_magic := stack_magic_value\<rparr>"

lemma fill_task_eq:
  "length nm < 16 \<Longrightarrow> fill_task t False n nm prio zero_task = Some (new_task t n nm prio)"
proof -
  have z: "fd_table zero_task = [0, 0, 0, 0, 0, 0, 0, 0]" by (simp add: zero_task_def eval_nat_numeral)
  assume "length nm < 16"
  then show ?thesis
    using clear_fds_eq [of 0 0 0 0 0] z
    by (simp add: fill_task_def new_task_def zero_task_def Let_def)
qed

text \<open>The frame \<open>switch_to\<close> pops for a new thread, and the two arguments of \<open>kernel_thread\<close>.\<close>

definition first_frame :: "code_addrs \<Rightarrow> u32 \<Rightarrow> u32 \<Rightarrow> task \<Rightarrow> mmu \<Rightarrow> bool" where
  "first_frame code f a sp m \<longleftrightarrow>
     load32 sp m = Some 0 \<and> load32 (sp + 4) m = Some 0 \<and> load32 (sp + 8) m = Some 0 \<and> load32 (sp + 12) m = Some 0 \<and>
     load32 (sp + 16) m = Some (addr_kernel_thread code) \<and> load32 (sp + 24) m = Some f \<and> load32 (sp + 28) m = Some a"

lemma thread_create_eq:
  assumes own: "own_page (mmu s) t pa" and p: "tasks s t = Some p" "self_kstack p = t + PG_SIZE"
  obtains m' where "thread_create code t f a body s = Some (s\<lparr>tasks := (tasks s)(t \<mapsto> p\<lparr>self_kstack := t + 3664\<rparr>),
      mmu := m', kstack := (kstack s)(t := Kernel_thread # body)\<rparr>)"
    "keeps_tables (mmu s) m'" "own_page m' t pa" "first_frame code f a (t + 3664) m'"
proof -
  let ?ws = "[(920, addr_kernel_thread code), (922, f), (923, a), (916, 0), (917, 0), (918, 0), (919, 0)]"
  obtain m' where m': "foldl (\<lambda>r (k, v). Option.bind r (store32 (t + word_off k) v)) (Some (mmu s)) ?ws = Some m'"
    "own_page m' t pa" "keeps_tables (mmu s) m'"
    "\<forall>j < 1024. load32 (t + word_off j) m' = (case map_of (rev ?ws) j of Some v \<Rightarrow> Some v
       | None \<Rightarrow> load32 (t + word_off j) (mmu s))"
    using put_words [OF own refl, of ?ws] by auto
  have off: "word_off 916 = 3664" "word_off 917 = 3668" "word_off 918 = 3672" "word_off 919 = 3676"
    "word_off 920 = 3680" "word_off 922 = 3688" "word_off 923 = 3692"
    by (simp_all add: word_off_def)
  have sp: "t + PG_SIZE - 4 * sizeof_intr_stack - 4 * sizeof_thread_stack = t + 3664"
    by (simp add: PG_SIZE_def sizeof_intr_stack_def sizeof_thread_stack_def)
  have "thread_create code t f a body s = Some (s\<lparr>tasks := (tasks s)(t \<mapsto> p\<lparr>self_kstack := t + 3664\<rparr>),
      mmu := m', kstack := (kstack s)(t := Kernel_thread # body)\<rparr>)"
    using m'(1) p
    by (auto simp: thread_create_def upd_task_def sp off add.assoc bind_conv Let_def)
  moreover have "first_frame code f a (t + 3664) m'"
    using m'(4) [rule_format, of 916] m'(4) [rule_format, of 917] m'(4) [rule_format, of 918]
      m'(4) [rule_format, of 919] m'(4) [rule_format, of 920] m'(4) [rule_format, of 922] m'(4) [rule_format, of 923]
    by (simp add: first_frame_def off add.assoc)
  ultimately show thesis using that m'(2,3) by blast
qed

lemma unheld_free: "lock_free p s \<Longrightarrow> lock_free p (unheld q (held_by q t s))"
  by (auto simp: lock_free_def unheld_def held_by_def)

lemma lock_free_fields: "locks s' = locks s \<Longrightarrow> semas s' = semas s \<Longrightarrow> lock_free p s' = lock_free p s"
  by (simp add: lock_free_def)


definition demo_proc :: proc_state where
  "demo_proc = kmem.extend (demo_mem\<lparr>thread_ready_list := [], thread_all_list := [0xc0100000], main_thread := 0xc0100000,
       locks := [0xc0300000 \<mapsto> \<lparr>holder = 0, holder_repeat_nr = 0\<rparr>, 0xc0200000 \<mapsto> \<lparr>holder = 0, holder_repeat_nr = 0\<rparr>],
       semas := [lock_sema 0xc0300000 \<mapsto> \<lparr>value = 1, waiters = []\<rparr>, lock_sema 0xc0200000 \<mapsto> \<lparr>value = 1, waiters = []\<rparr>]\<rparr>)
     (proc_state.fields 0 0xc0200000)"

lemma demo_proc_simps [simp]:
  "mmu demo_proc = demo_mmu" "running demo_proc = 0xc009e000" "kernel_pool demo_proc = kernel_pool demo_mem"
  "kernel_vaddr demo_proc = kernel_vaddr demo_mem" "thread_ready_list demo_proc = []" "next_pid demo_proc = 0"
  "thread_all_list demo_proc = [0xc0100000]" "main_thread demo_proc = 0xc0100000" "pid_lock demo_proc = 0xc0200000"
  "lock_free 0xc0300000 demo_proc" "lock_free 0xc0200000 demo_proc"
  by (simp_all add: demo_proc_def demo_mem_def demo_kernel_def kstate.defs kmem.defs proc_state.defs lock_free_def)

lemma demo_proc_ok: "kpages_ok demo_proc"
  using kpages_ok_fields [of demo_proc "kmem.extend demo_mem (proc_state.fields 0 0)"]
    kpages_ok_fields [of "kmem.extend demo_mem (proc_state.fields 0 0)" demo_mem] demo_kpages
  by (simp add: kmem.defs)

lemma demo_main_mapped: "mmu_walk demo_mmu 0xc0100000 = Some 0x200000"
  using demo_walk [of 0] by (simp add: kpage_def nth_page_def)


end
