(* ===== verification/File_Spec.thy ===== *)
theory File_Spec
  imports Dir_Spec
begin

text \<open>
  What a file is: the bytes of its blocks up to its size. Writing to it (\<open>file_write\<close> of \<open>fs/file.c\<close>) appends, and
  reading (\<open>file_read\<close>) takes bytes from the position of the open file on. The theorems are about files of up to twelve
  blocks, whose addresses the inode holds itself, and calls that stay within a block.
\<close>

subsection \<open>The bytes of a file\<close>

definition file_data :: "disk_ref \<Rightarrow> 'z ide_state_scheme \<Rightarrow> inode \<Rightarrow> u8 list" where
  "file_data dk s ino = map (\<lambda>i. media s dk (unat (i_sectors ino ! (i div 512))) ! (i mod 512)) [0..<unat (i_size ino)]"

text \<open>A block of a file: on the disk and outside the inode table.\<close>

definition data_block :: "super_block \<Rightarrow> u32 \<Rightarrow> bool" where
  "data_block b a \<longleftrightarrow> a \<noteq> 0 \<and> on_disk a \<and> (unat a < unat (inode_table_lba b) \<or> unat (inode_table_lba b) + 608 \<le> unat a)"

text \<open>
  A file the theorems speak of: its last block, which takes the next byte, is allocated too, and its inode lies in one
  sector of the table, as \<open>file_write\<close> hands \<open>inode_sync\<close> a buffer of one sector.
\<close>

definition direct_file :: "part_ref \<Rightarrow> super_block \<Rightarrow> inode \<Rightarrow> 'z ide_state_scheme \<Rightarrow> bool" where
  "direct_file part b ino s \<longleftrightarrow> table_ok part b s \<and> length (i_sectors ino) = 13 \<and> i_no ino < 256 \<and>
     76 * unat (i_no ino) mod 512 + 76 \<le> 512 \<and> unat (i_size ino) < 12 * 512 \<and>
     (\<forall>j \<le> unat (i_size ino) div 512. data_block b (i_sectors ino ! j)) \<and>
     distinct (take (unat (i_size ino) div 512 + 1) (i_sectors ino))"

lemma store_ok_file_table [simp]: "store_ok dk (s\<lparr>file_table := t\<rparr>) = store_ok dk s"
  by (simp_all add: store_ok_def disk_ready_def drive_ok_def whole_sectors_def)

lemma table_ok_file_table [simp]: "table_ok part b (s\<lparr>file_table := t\<rparr>) = table_ok part b s"
  by (simp add: table_ok_def)

lemma length_file_data [simp]: "length (file_data dk s ino) = unat (i_size ino)"
  by (simp add: file_data_def)

lemma file_data_cong:
  assumes "\<forall>j \<le> unat (i_size ino) div 512. media s' dk (unat (i_sectors ino ! j)) = media s dk (unat (i_sectors ino ! j))"
  shows "file_data dk s' ino = file_data dk s ino"
proof -
  have "media s' dk (unat (i_sectors ino ! (i div 512))) = media s dk (unat (i_sectors ino ! (i div 512)))"
    if "i < unat (i_size ino)" for i
  proof -
    have "i div 512 \<le> unat (i_size ino) div 512" using that by (simp add: div_le_mono)
    then show ?thesis using assms by blast
  qed
  then show ?thesis by (simp add: file_data_def)
qed

text \<open>The last block of a file with bytes put behind its end: the file with these bytes appended.\<close>

lemma file_data_append:
  assumes df: "direct_file part b ino s" and k: "k = unat (i_size ino) div 512" and fit: "unat (i_size ino) mod 512 + length bs < 512"
    and new: "media s' dk (unat (i_sectors ino ! k)) = put_bytes (media s dk (unat (i_sectors ino ! k))) (unat (i_size ino) mod 512) bs"
    and old: "\<forall>j < k. media s' dk (unat (i_sectors ino ! j)) = media s dk (unat (i_sectors ino ! j))"
    and len: "length (media s dk (unat (i_sectors ino ! k))) = 512"
  shows "file_data dk s' (ino\<lparr>i_size := i_size ino + word_of_nat (length bs)\<rparr>) = file_data dk s ino @ bs"
proof -
  let ?n = "unat (i_size ino)"
  have n: "unat (i_size ino + word_of_nat (length bs)) = ?n + length bs"
    using df fit by (subst unat_add_small) (simp_all add: direct_file_def unat_of_nat)
  show ?thesis
  proof (rule nth_equalityI)
    fix i assume "i < length (file_data dk s' (ino\<lparr>i_size := i_size ino + word_of_nat (length bs)\<rparr>))"
    then have i: "i < ?n + length bs" using n by simp
    have ik: "i div 512 < k \<and> i < ?n \<or> i div 512 = k \<and> (i < ?n \<longleftrightarrow> i mod 512 < ?n mod 512) \<and> i - ?n = i mod 512 - ?n mod 512"
    proof -
      define r where "r = ?n mod 512"
      have r: "?n = k * 512 + r" "r + length bs < 512" using fit k div_mult_mod_eq [of ?n 512] unfolding r_def by simp_all
      show ?thesis
      proof (cases "i < k * 512")
        case True
        then show ?thesis using r by (simp add: less_mult_imp_div_less)
      next
        case False
        define d where "d = i - k * 512"
        have d: "i = k * 512 + d" "d < 512" using False i r unfolding d_def by linarith+
        then have "i div 512 = k" "i mod 512 = d" by simp_all
        then show ?thesis using d r unfolding r_def [symmetric] by simp
      qed
    qed
    have pb: "put_bytes (media s dk (unat (i_sectors ino ! k))) (?n mod 512) bs ! (i mod 512) =
        (if ?n mod 512 \<le> i mod 512 \<and> i mod 512 < ?n mod 512 + length bs then bs ! (i mod 512 - ?n mod 512)
         else media s dk (unat (i_sectors ino ! k)) ! (i mod 512))"
      using fit len by (intro nth_put_bytes) simp_all
    show "file_data dk s' (ino\<lparr>i_size := i_size ino + word_of_nat (length bs)\<rparr>) ! i = (file_data dk s ino @ bs) ! i"
      using ik i n old
    proof (elim disjE)
      assume a: "i div 512 < k \<and> i < ?n"
      then show ?thesis using i n old by (simp add: file_data_def nth_append)
    next
      assume a: "i div 512 = k \<and> (i < ?n \<longleftrightarrow> i mod 512 < ?n mod 512) \<and> i - ?n = i mod 512 - ?n mod 512"
      have "i mod 512 < ?n mod 512 + length bs" if "\<not> i < ?n" using a i that by linarith
      then show ?thesis using a i n new pb by (auto simp: file_data_def nth_append)
    qed
  qed (use n in simp)
qed

subsection \<open>Two buffers\<close>

context heap_api begin

text \<open>Two buffers that are taken one after the other and given back in the other order.\<close>

lemma two_scratch:
  assumes "ready s L (Suc (Suc k))" and "fits n" and "fits n'"
  shows "\<exists>a s1 b s2 s3 s4. malloc n s = Some (a, s1) \<and> malloc n' s1 = Some (b, s2) \<and> a \<noteq> null \<and> b \<noteq> null \<and>
    free b s2 = Some s3 \<and> free a s3 = Some s4 \<and> ready s4 L k \<and> same s s2 \<and> same s2 s4"
proof -
  obtain a s1 where a: "malloc n s = Some (a, s1)" "a \<noteq> null" "a \<notin> L" "ready s1 (insert a L) (Suc k)" "same s s1"
    using malloc_ready [OF assms(1,2)] by blast
  obtain b s2 where b: "malloc n' s1 = Some (b, s2)" "b \<noteq> null" "b \<notin> insert a L" "ready s2 (insert b (insert a L)) k" "same s1 s2"
    using malloc_ready [OF a(4) assms(3)] by blast
  obtain s3 where s3: "free b s2 = Some s3" "ready s3 (insert b (insert a L) - {b}) k" "same s2 s3"
    using free_ready [OF b(4), of b] by blast
  have 3: "insert b (insert a L) - {b} = insert a L" using b(3) by blast
  obtain s4 where s4: "free a s3 = Some s4" "ready s4 (insert a L - {a}) k" "same s3 s4"
    using free_ready [OF s3(2) [unfolded 3], of a] by blast
  have 4: "insert a L - {a} = L" using a(3) by blast
  have "same s s2" "same s2 s4" using same_trans a(5) b(5) s3(3) s4(3) by blast+
  then show ?thesis using a(1,2) b(1,2) s3(1) s4(1) s4(2) [unfolded 4] by blast
qed

end

subsection \<open>Positions\<close>

lemma block_position [simp]:
  "unat (x div BLOCK_SIZE) = unat x div 512" "unat (x mod BLOCK_SIZE) = unat x mod 512"
  by (simp_all add: BLOCK_SIZE_def unat_div_distrib unat_mod_distrib)

lemma room_in_block:
  assumes "unat x mod 512 + unat n < 512"
  shows "n < BLOCK_SIZE - x mod BLOCK_SIZE"
proof -
  have "x mod BLOCK_SIZE \<le> BLOCK_SIZE" by (simp add: word_le_nat_alt) (simp add: BLOCK_SIZE_def)
  then have "unat (BLOCK_SIZE - x mod BLOCK_SIZE) = unat BLOCK_SIZE - unat (x mod BLOCK_SIZE)" by (rule unat_sub)
  then have "unat (BLOCK_SIZE - x mod BLOCK_SIZE) = 512 - unat x mod 512" by (simp add: BLOCK_SIZE_def unat_mod_distrib)
  then show ?thesis using assms by (simp add: word_less_nat_alt)
qed

lemma same_block:
  assumes "p mod 512 + n < (512 :: nat)"
  shows "(p + n) div 512 = p div 512"
proof (rule div_nat_eqI)
  have "p = 512 * (p div 512) + p mod 512" by simp
  then show "512 * (p div 512) \<le> p + n" "p + n < 512 * Suc (p div 512)"
    using assms unfolding mult_Suc_right by linarith+
qed

subsection \<open>Writing\<close>

text \<open>Within the last block no address has to be added: only that of the last block is collected.\<close>

lemma gather_in_block:
  assumes "inodes s a = Some ino" and "has \<le> 12"
  shows "gather_blocks a junk has has s = Some (Some ((replicate 140 0)[has - 1 := i_sectors ino ! (has - 1)]), s)"
  using assms by (simp add: gather_blocks_def)

text \<open>The loop writes one chunk and stops, as the count it subtracts from 0 wraps round.\<close>

lemma write_loop_once:
  assumes st: "store_ok dk s" and dk: "dk = my_disk (parts s (cur_part s))" and ino: "inodes s a = Some ino"
    and f: "f < length (file_table s)" and k: "k = unat (i_size ino) div 512" "k < length all_blocks"
    and blk: "on_disk (all_blocks ! k)" and fit: "0 < unat count" "unat (i_size ino) mod 512 + unat count < 512"
    and buf: "unat count \<le> length buf" and io: "length io = 512"
  shows "\<exists>s1. ide_write dk (all_blocks ! k) (put_bytes (media s dk (unat (all_blocks ! k))) (unat (i_size ino) mod 512) (take (unat count) buf)) 1 s = Some s1 \<and>
    store_ok dk s1 \<and> off_disk dk s1 = off_disk dk s \<and>
    (\<forall>m. media s1 dk m = (if m = unat (all_blocks ! k)
       then put_bytes (media s dk (unat (all_blocks ! k))) (unat (i_size ino) mod 512) (take (unat count) buf) else media s dk m)) \<and>
    (\<exists>io'. length io' = 512 \<and> write_loop f a all_blocks buf count 0 True 0 io s = Some (- count, io',
       s1\<lparr>inodes := (inodes s)(a \<mapsto> ino\<lparr>i_size := i_size ino + count\<rparr>),
          file_table := (file_table s)[f := (file_table s ! f)\<lparr>fd_pos := fd_pos (file_table s ! f) + count\<rparr>]\<rparr>))"
proof -
  let ?lba = "all_blocks ! k" let ?off = "unat (i_size ino) mod 512" let ?bs = "take (unat count) buf"
  note d = read_sector_ok [OF st blk]
  let ?new = "put_bytes (media s dk (unat ?lba)) ?off ?bs"
  have l: "length ?bs = unat count" "length ?new = 512" using buf d(2) fit by simp_all
  obtain s1 where s1: "ide_write dk ?lba ?new 1 s = Some s1" "store_ok dk s1" "off_disk dk s1 = off_disk dk s"
      "\<forall>m. media s1 dk m = (if m = unat ?lba then take 512 ?new else media s dk m)"
    using write_sector_ok [OF st, of ?lba ?new] blk l by (auto simp: on_disk_def)
  have w: "unat (i_size ino div BLOCK_SIZE) = k" "unat (i_size ino mod BLOCK_SIZE) = ?off" "0 < count"
    using k(1) fit(1) by (simp_all add: word_less_nat_alt)
  note c = room_in_block [OF fit(2)]
  have e: "\<not> - count < count"
  proof -
    have "uint count = int (unat count)" by simp
    then have c: "0 < uint count" "uint count < 512" using fit by linarith+
    have "uint (- count) = - uint count mod 2 ^ 32" by (simp add: uint_word_ariths)
    also have "\<dots> = 2 ^ 32 - uint count" using c by (simp add: zmod_zminus1_eq_if)
    finally show ?thesis using c by (simp add: word_less_def)
  qed
  let ?s = "s1\<lparr>inodes := (inodes s)(a \<mapsto> ino\<lparr>i_size := i_size ino + count\<rparr>)\<rparr>"
  have u: "upd_inode a (\<lambda>i. i\<lparr>i_size := i_size i + count\<rparr>) s1 = Some ?s"
    using off_disk_fs [OF s1(3)] ino by (simp add: upd_inode_def)
  have uf: "upd_file f (\<lambda>v. v\<lparr>fd_pos := fd_pos v + count\<rparr>) ?s =
      Some (?s\<lparr>file_table := (file_table s)[f := (file_table s ! f)\<lparr>fd_pos := fd_pos (file_table s ! f) + count\<rparr>]\<rparr>)"
    using off_disk_fs [OF s1(3)] f by (simp add: upd_file_def)
  have p: "put_bytes (put_bytes io 0 (replicate 512 0)) 0 (media s dk (unat ?lba)) = media s dk (unat ?lba)"
    using put_bytes_all [of "media s dk (unat ?lba)" "put_bytes io 0 (replicate 512 0)"] d(2) io by simp
  have "write_loop f a all_blocks buf count 0 True 0 io s =
      write_loop f a all_blocks buf count (unat count) False (- count) ?new
        (?s\<lparr>file_table := (file_table s)[f := (file_table s ! f)\<lparr>fd_pos := fd_pos (file_table s ! f) + count\<rparr>]\<rparr>)"
    using w c ino k(2) io d p l fit buf s1(1) u uf dk
    by (subst write_loop.simps) (simp add: bytes_at_def)
  also have "\<dots> = Some (- count, ?new, ?s\<lparr>file_table := (file_table s)[f := (file_table s ! f)\<lparr>fd_pos := fd_pos (file_table s ! f) + count\<rparr>]\<rparr>)"
    using e by (subst write_loop.simps) simp
  finally have run: "write_loop f a all_blocks buf count 0 True 0 io s = \<dots>" .
  have t: "take 512 ?new = ?new" using l(2) by simp
  show ?thesis
    by (rule exI [of _ s1], intro conjI exI [of _ ?new]) (fact s1(1-3) l(2) run s1(4) [unfolded t])+
qed

lemma inode_slot_cong:
  assumes "parts s' = parts s" and "n < 4096"
    and "\<forall>m. unat (inode_table_lba b) \<le> m \<and> m < unat (inode_table_lba b) + 608 \<longrightarrow>
      media s' (my_disk (parts s part)) m = media s (my_disk (parts s part)) m"
  shows "inode_slot part b s' n = inode_slot part b s n"
proof -
  let ?t = "unat (inode_table_lba b)"
  have "bs.byte (my_disk (parts s part)) s' (?t * 512 + 76 * n + j) = bs.byte (my_disk (parts s part)) s (?t * 512 + 76 * n + j)"
    if "j < 76" for j
  proof -
    have "?t * 512 \<le> ?t * 512 + 76 * n + j" "?t * 512 + 76 * n + j < (?t + 608) * 512"
      using that assms(2) by (simp_all add: add_mult_distrib)
    then have "?t \<le> (?t * 512 + 76 * n + j) div 512" "(?t * 512 + 76 * n + j) div 512 < ?t + 608"
      by (simp_all add: less_eq_div_iff_mult_less_eq div_less_iff_less_mult)
    then show ?thesis using assms(3) by (simp add: bs.byte_def)
  qed
  then show ?thesis by (simp add: inode_slot_def assms(1))
qed

lemma inode_slot_kern [simp]: "inode_slot part b (s\<lparr>kern := k\<rparr>) n = inode_slot part b s n"
  by (simp add: inode_slot_def bs.byte_def)

lemma inode_slot_file_table [simp]: "inode_slot part b (s\<lparr>file_table := t\<rparr>) n = inode_slot part b s n"
  by (simp add: inode_slot_def bs.byte_def)

lemma disk_inode_frame [simp]:
  "disk_inode part b (s\<lparr>kern := k\<rparr>) n = disk_inode part b s n" "disk_inode part b (s\<lparr>file_table := t\<rparr>) n = disk_inode part b s n"
  by (simp_all add: disk_inode_def)

lemma file_data_file_table [simp]: "file_data dk (s\<lparr>file_table := t\<rparr>) ino = file_data dk s ino"
  by (simp add: file_data_def)

lemma file_data_kern [simp]: "file_data dk (s\<lparr>kern := k\<rparr>) ino = file_data dk s ino"
  by (simp add: file_data_def)

text \<open>The blocks of a file.\<close>

lemma direct_file_blocks:
  assumes "direct_file part b ino s" and "k = unat (i_size ino) div 512"
  shows "k < 12" and "store_ok (my_disk (parts s part)) s" and "j \<le> k \<Longrightarrow> on_disk (i_sectors ino ! j)"
    and "j \<le> k \<Longrightarrow> unat (i_sectors ino ! j) < unat (inode_table_lba b) \<or> unat (inode_table_lba b) + 608 \<le> unat (i_sectors ino ! j)"
    and "j < k \<Longrightarrow> unat (i_sectors ino ! j) \<noteq> unat (i_sectors ino ! k)"
proof -
  note d = assms(1) [unfolded direct_file_def, folded assms(2)]
  show k: "k < 12" using d assms(2) by (simp add: div_less_iff_less_mult)
  show "store_ok (my_disk (parts s part)) s" using d by (simp add: table_ok_def)
  show "j \<le> k \<Longrightarrow> on_disk (i_sectors ino ! j)"
    "j \<le> k \<Longrightarrow> unat (i_sectors ino ! j) < unat (inode_table_lba b) \<or> unat (inode_table_lba b) + 608 \<le> unat (i_sectors ino ! j)"
    using d by (auto simp: data_block_def)
  assume j: "j < k"
  then have "take (k + 1) (i_sectors ino) ! j \<noteq> take (k + 1) (i_sectors ino) ! k"
    using d k by (subst nth_eq_iff_index_eq) simp_all
  then show "unat (i_sectors ino ! j) \<noteq> unat (i_sectors ino ! k)" using j by (simp add: word_unat_eq_iff)
qed

lemma direct_file_grows:
  assumes df: "direct_file part b ino s" and fit: "unat (i_size ino) mod 512 + unat count < 512" and ok: "table_ok part b s'"
  shows "direct_file part b (ino\<lparr>i_size := i_size ino + count\<rparr>) s'"
proof -
  note d = df [unfolded direct_file_def]
  let ?n = "unat (i_size ino)"
  have n: "unat (i_size ino + count) = ?n + unat count" using d fit by (simp add: unat_add_small)
  have q: "(?n + unat count) div 512 = ?n div 512" by (rule same_block [OF fit])
  have "?n div 512 < 12" using d by (simp add: div_less_iff_less_mult)
  then have "?n + unat count < 12 * 512" unfolding q [symmetric] by (simp add: div_less_iff_less_mult)
  then show ?thesis using d n q ok by (simp add: direct_file_def)
qed

text \<open>Writing an inode that lies in one sector back, with a buffer of one sector.\<close>

lemma sync_file_inode:
  assumes ok: "table_ok part b s" and ino: "length (i_sectors ino) = 13" "i_no ino < 256" "76 * unat (i_no ino) mod 512 + 76 \<le> 512"
    and io: "length io = 512" and dk: "dk = my_disk (parts s part)"
  shows "\<exists>io' s'. inode_sync part ino io s = Some (io', s') \<and> table_ok part b s' \<and> off_disk dk s' = off_disk dk s \<and>
    disk_inode part b s' (unat (i_no ino)) = pure_inode ino \<and>
    (\<forall>m. m \<noteq> unat (i_no ino) \<longrightarrow> disk_inode part b s' m = disk_inode part b s m) \<and>
    (\<forall>m. m < unat (inode_table_lba b) \<or> unat (inode_table_lba b) + 608 \<le> m \<longrightarrow> media s' dk m = media s dk m)"
proof -
  have no: "unat (i_no ino) mod 256 = unat (i_no ino)" using ino(2) by (simp add: word_less_nat_alt)
  have "sync_fits (unat (i_no ino) mod 256) io" using ino(3) io no by (simp add: sync_fits_def)
  from inode_sync_slot [OF ok ino(1) this, unfolded no] obtain io' s' where s': "inode_sync part ino io s = Some (io', s')"
      "table_ok part b s'" "inode_slot part b s' (unat (i_no ino)) = inode_bytes (pure_inode ino)"
      "only_slot part b (unat (i_no ino)) s s'"
    by (elim exE conjE, intro that) assumption+
  have "inode_of_bytes (inode_bytes (pure_inode ino)) = pure_inode ino"
    by (subst inode_roundtrip) (simp_all add: pure_inode_def ino(1))
  then have "disk_inode part b s' (unat (i_no ino)) = pure_inode ino" by (simp add: disk_inode_def s'(3))
  then show ?thesis using s'(1,2,4) unfolding only_slot_def dk disk_inode_def by metis
qed

text \<open>The loop and the sync of the inode.\<close>

lemma write_in_block:
  assumes f: "f < length (file_table s)" and ino: "inodes s a = Some ino" and part: "part = cur_part s"
    and dk: "dk = my_disk (parts s part)" and df: "direct_file part b ino s"
    and fit: "0 < unat count" "unat (i_size ino) mod 512 + unat count < 512" and buf: "unat count \<le> length buf"
    and k: "k = unat (i_size ino) div 512" and all: "k < length all_blocks" "all_blocks ! k = i_sectors ino ! k"
    and ino': "ino' = ino\<lparr>i_size := i_size ino + count\<rparr>"
  shows "\<exists>io s4 io' s5. write_loop f a all_blocks buf count 0 True 0 (replicate 512 0) s = Some (- count, io, s4) \<and>
    inodes s4 a = Some ino' \<and> cur_part s4 = part \<and> inode_sync part ino' io s4 = Some (io', s5) \<and> kern s5 = kern s \<and>
    parts s5 = parts s \<and> inodes s5 = (inodes s)(a \<mapsto> ino') \<and>
    file_table s5 = (file_table s)[f := (file_table s ! f)\<lparr>fd_pos := fd_pos (file_table s ! f) + count\<rparr>] \<and>
    file_data dk s5 ino' = file_data dk s ino @ take (unat count) buf \<and> direct_file part b ino' s5 \<and>
    disk_inode part b s5 (unat (i_no ino)) = pure_inode ino' \<and>
    (\<forall>m < 4096. m \<noteq> unat (i_no ino) \<longrightarrow> disk_inode part b s5 m = disk_inode part b s m) \<and>
    cur_part s5 = part \<and>
    (\<forall>m. (m < unat (inode_table_lba b) \<or> unat (inode_table_lba b) + 608 \<le> m) \<and> m \<noteq> unat (i_sectors ino ! k) \<longrightarrow>
       media s5 dk m = media s dk m)"
proof -
  let ?t = "unat (inode_table_lba b)" let ?no = "unat (i_no ino)" let ?bs = "take (unat count) buf"
  note d = df [unfolded direct_file_def] and blk = direct_file_blocks [OF df k]
  have st: "store_ok dk s" using blk(2) dk by simp
  have od: "on_disk (all_blocks ! k)" using blk(3) [of k] all(2) by simp
  define ft where "ft = (file_table s)[f := (file_table s ! f)\<lparr>fd_pos := fd_pos (file_table s ! f) + count\<rparr>]"
  obtain s1 io where s1: "store_ok dk s1" "off_disk dk s1 = off_disk dk s"
      "\<forall>m. media s1 dk m = (if m = unat (i_sectors ino ! k)
         then put_bytes (media s dk (unat (i_sectors ino ! k))) (unat (i_size ino) mod 512) ?bs else media s dk m)"
      "length io = 512" "write_loop f a all_blocks buf count 0 True 0 (replicate 512 0) s = Some (- count, io,
         s1\<lparr>inodes := (inodes s)(a \<mapsto> ino'), file_table := ft\<rparr>)"
    using write_loop_once [OF st dk [unfolded part] ino f k all(1) od fit buf, of "replicate 512 0"] all(2) ino' ft_def by auto
  let ?s4 = "s1\<lparr>inodes := (inodes s)(a \<mapsto> ino'), file_table := ft\<rparr>"
  note same1 = off_disk_eq [OF s1(2)] off_disk_fs [OF s1(2)]
  have t4: "table_ok part b ?s4" using d s1(1) same1 dk by (simp add: table_ok_def)
  have i4: "length (i_sectors ino') = 13" "i_no ino' < 256" "76 * unat (i_no ino') mod 512 + 76 \<le> 512" "i_no ino' = i_no ino"
    using d ino' by simp_all
  have "dk = my_disk (parts ?s4 part)" using dk same1(2) by simp
  from sync_file_inode [OF t4 i4(1-3) s1(4) this, unfolded i4(4)] obtain io' s5 where s5: "inode_sync part ino' io ?s4 = Some (io', s5)"
      "table_ok part b s5" "off_disk dk s5 = off_disk dk ?s4" "disk_inode part b s5 ?no = pure_inode ino'"
      "\<forall>m. m \<noteq> ?no \<longrightarrow> disk_inode part b s5 m = disk_inode part b ?s4 m"
      "\<forall>m. m < ?t \<or> ?t + 608 \<le> m \<longrightarrow> media s5 dk m = media ?s4 dk m"
    by (elim exE conjE, intro that) assumption+
  note same5 = off_disk_eq [OF s5(3)] off_disk_fs [OF s5(3)]
  have data: "media s5 dk (unat (i_sectors ino ! j)) = media s1 dk (unat (i_sectors ino ! j))" if "j \<le> k" for j
    using s5(6) blk(4) [OF that] by auto
  have len: "length (media s dk (unat (i_sectors ino ! k))) = 512" using read_sector_ok(2) [OF st od] all(2) by simp
  have cnt: "length ?bs = unat count" "word_of_nat (length ?bs) = count" using buf by simp_all
  have fd: "file_data dk s5 ino' = file_data dk s ino @ ?bs"
    using file_data_append [OF df k, of ?bs s5 dk] cnt fit(2) data s1(3) blk(5) len ino' by simp
  have slot: "disk_inode part b s5 m = disk_inode part b s m" if "m < 4096" "m \<noteq> ?no" for m
  proof -
    have "media s1 dk j = media s dk j" if "?t \<le> j \<and> j < ?t + 608" for j using s1(3) blk(4) [of k] that by auto
    then have "inode_slot part b ?s4 m = inode_slot part b s m"
      using same1 dk \<open>m < 4096\<close> by (intro inode_slot_cong) simp_all
    then show ?thesis using s5(5) that by (simp add: disk_inode_def)
  qed
  have rest: "media s5 dk m = media s dk m" if "m < ?t \<or> ?t + 608 \<le> m" "m \<noteq> unat (i_sectors ino ! k)" for m
    using s5(6) s1(3) that by auto
  have df': "direct_file part b ino' s5" unfolding ino' by (rule direct_file_grows [OF df fit(2) s5(2)])
  show ?thesis
    by (rule exI [of _ io], rule exI [of _ ?s4], rule exI [of _ io'], rule exI [of _ s5])
      (use s1(5) s5(1,4) same1 same5 fd slot df' rest part in \<open>simp add: ft_def\<close>)
qed

text \<open>A whole write; what it leaves alone in the kernel is part of the statement, for the system calls built on it.\<close>

lemma file_write_ok:
  assumes v: "f < length (file_table s)" "v = file_table s ! f" and ino: "inodes s (fd_inode v) = Some ino"
    and part: "part = cur_part s" and dk: "dk = my_disk (parts s part)" and df: "direct_file part b ino s"
    and fit: "0 < unat count" "unat (i_size ino) mod 512 + unat count < 512" and buf: "unat count \<le> length buf"
    and h: "heap_ready (kern s) L (Suc (Suc n))"
  shows "\<exists>s' ino'. file_write junk f buf count s = Some (- count, s') \<and> ino' = ino\<lparr>i_size := i_size ino + count\<rparr> \<and>
    inodes s' = (inodes s)(fd_inode v \<mapsto> ino') \<and> file_data dk s' ino' = file_data dk s ino @ take (unat count) buf \<and>
    disk_inode part b s' (unat (i_no ino)) = pure_inode ino' \<and>
    (\<forall>m < 4096. m \<noteq> unat (i_no ino) \<longrightarrow> disk_inode part b s' m = disk_inode part b s m) \<and>
    (\<forall>m. (m < unat (inode_table_lba b) \<or> unat (inode_table_lba b) + 608 \<le> m) \<and>
       m \<noteq> unat (i_sectors ino ! (unat (i_size ino) div 512)) \<longrightarrow> media s' dk m = media s dk m) \<and>
    file_table s' = (file_table s)[f := v\<lparr>fd_pos := i_size ino + count - 1\<rparr>] \<and>
    direct_file part b ino' s' \<and> heap_ready (kern s') L n \<and> heap_frame (kern s) (kern s') \<and> parts s' = parts s \<and> cur_part s' = cur_part s"
proof -
  let ?k = "unat (i_size ino) div 512" let ?a = "fd_inode v" let ?ino = "ino\<lparr>i_size := i_size ino + count\<rparr>"
  note d = df [unfolded direct_file_def]
  have sm: "small 512" "small (512 + 48)" by (simp_all add: small_def)
  obtain a1 k1 a2 k2 k3 k4 where m: "sys_malloc 512 (kern s) = Some (a1, k1)" "sys_malloc (512 + 48) k1 = Some (a2, k2)"
      "a1 \<noteq> 0" "a2 \<noteq> 0" "sys_free a2 k2 = Some k3" "sys_free a1 k3 = Some k4" "heap_ready k4 L n"
    and fr: "heap_frame (kern s) k2" "heap_frame k2 k4"
    using kh.two_scratch [OF h sm] by blast
  let ?s2 = "s\<lparr>kern := k2\<rparr>" let ?s3 = "?s2\<lparr>file_table := (file_table s)[f := v\<lparr>fd_pos := i_size ino - 1\<rparr>]\<rparr>"
  let ?all = "(replicate 140 0)[?k := i_sectors ino ! ?k]"
  have k: "?k < 12" "?k < length ?all" "?all ! ?k = i_sectors ino ! ?k" using d by (simp_all add: div_less_iff_less_mult)
  have df3: "direct_file part b ino ?s3" using df table_ok_frame [OF fr(1)] by (simp add: direct_file_def)
  have n: "unat (i_size ino + count) = unat (i_size ino) + unat count" using d fit(2) by (simp add: unat_add_small)
  have big: "\<not> BLOCK_SIZE * 140 < i_size ino + count" using n d fit(2) by (simp add: word_less_nat_alt BLOCK_SIZE_def)
  note q = same_block [OF fit(2)]
  have will: "unat ((i_size ino + count) div BLOCK_SIZE + 1) = ?k + 1" "unat (i_size ino div BLOCK_SIZE + 1) = ?k + 1"
    using q k(1) n by (simp_all add: unat_add_small BLOCK_SIZE_def unat_div_distrib)
  have fst: "first_block ?a ?s2 = Some (True, ?s2)" using ino d by (auto simp: first_block_def data_block_def)
  have gth: "gather_blocks ?a junk (?k + 1) (?k + 1) ?s2 = Some (Some ?all, ?s2)"
    using gather_in_block [where s = ?s2 and a = ?a and has = "?k + 1" and ino = ino and junk = junk] ino k(1) by simp
  have pre: "f < length (file_table ?s3)" "inodes ?s3 ?a = Some ino" "part = cur_part ?s3" "dk = my_disk (parts ?s3 part)"
    using v ino part dk by simp_all
  note W0 = write_in_block [OF pre df3 fit buf refl k(2,3) refl]
  obtain io s4 io' s5 where W: "write_loop f ?a ?all buf count 0 True 0 (replicate 512 0) ?s3 = Some (- count, io, s4)"
    "inodes s4 ?a = Some ?ino" "cur_part s4 = part" "inode_sync part ?ino io s4 = Some (io', s5)" "kern s5 = k2"
    "parts s5 = parts s" "inodes s5 = (inodes s)(?a \<mapsto> ?ino)"
    "file_table s5 = (file_table s)[f := v\<lparr>fd_pos := i_size ino + count - 1\<rparr>]"
    "file_data dk s5 ?ino = file_data dk s ino @ take (unat count) buf" "direct_file part b ?ino s5"
    "disk_inode part b s5 (unat (i_no ino)) = pure_inode ?ino"
    "\<forall>m < 4096. m \<noteq> unat (i_no ino) \<longrightarrow> disk_inode part b s5 m = disk_inode part b s m"
    "cur_part s5 = part"
    "\<forall>m. (m < unat (inode_table_lba b) \<or> unat (inode_table_lba b) + 608 \<le> m) \<and> m \<noteq> unat (i_sectors ino ! ?k) \<longrightarrow>
       media s5 dk m = media s dk m"
    using W0 v by (elim exE conjE, intro that) (simp_all add: algebra_simps)
  have sz: "(i_size ino + count) div BLOCK_SIZE + 1 \<le> 140"
    using will(1) k(1) by (simp add: BLOCK_SIZE_def word_le_nat_alt)
  have run: "file_write junk f buf count s = Some (- count, s5\<lparr>kern := k4\<rparr>)"
    using v ino m big will sz fst gth W(1-5) k(1) part
    by (simp add: file_write_def fs_malloc_def fs_free_def upd_file_def Let_def BLOCK_SIZE_def)
  have "heap_frame (kern s5) k4" using fr(2) W(5) by simp
  from table_ok_frame [OF this] have "direct_file part b ?ino (s5\<lparr>kern := k4\<rparr>)" using W(10) by (simp add: direct_file_def)
  moreover have "heap_frame (kern s) k4" "cur_part s5 = cur_part s" using heap_frame_trans [OF fr] W(3) part W(13) by simp_all
  ultimately show ?thesis using run W(6-9,11,12,14) m(7)
    by (intro exI [of _ "s5\<lparr>kern := k4\<rparr>"] exI [of _ ?ino]) simp
qed

text \<open>
  C34: \<open>file_write\<close> appends to a file, within its last block, and returns the wrong number. For a write of \<open>count\<close> bytes that
  ends before the block does, the file is afterwards the bytes it was with those of the buffer behind them, the inode
  in memory and the one in the table of the disk have the new size, no other inode and no other sector changes, and the
  heap is as before. But the result is \<open>-count\<close> instead of \<open>count\<close>, and the position of the open file is one byte
  before its end.
\<close>

theorem file_write_appends:
  assumes v: "f < length (file_table s)" "v = file_table s ! f" and ino: "inodes s (fd_inode v) = Some ino"
    and part: "part = cur_part s" and dk: "dk = my_disk (parts s part)" and df: "direct_file part b ino s"
    and fit: "0 < unat count" "unat (i_size ino) mod 512 + unat count < 512" and buf: "unat count \<le> length buf"
    and h: "heap_ready (kern s) L (Suc (Suc n))"
  shows "\<exists>s' ino'. file_write junk f buf count s = Some (- count, s') \<and> ino' = ino\<lparr>i_size := i_size ino + count\<rparr> \<and>
    inodes s' = (inodes s)(fd_inode v \<mapsto> ino') \<and> file_data dk s' ino' = file_data dk s ino @ take (unat count) buf \<and>
    disk_inode part b s' (unat (i_no ino)) = pure_inode ino' \<and>
    (\<forall>m < 4096. m \<noteq> unat (i_no ino) \<longrightarrow> disk_inode part b s' m = disk_inode part b s m) \<and>
    (\<forall>m. (m < unat (inode_table_lba b) \<or> unat (inode_table_lba b) + 608 \<le> m) \<and>
       m \<noteq> unat (i_sectors ino ! (unat (i_size ino) div 512)) \<longrightarrow> media s' dk m = media s dk m) \<and>
    file_table s' = (file_table s)[f := v\<lparr>fd_pos := i_size ino + count - 1\<rparr>] \<and>
    direct_file part b ino' s' \<and> heap_ready (kern s') L n"
  using file_write_ok [OF assms, of junk] by (elim exE conjE) (intro exI conjI, assumption+)

subsection \<open>Reading\<close>

lemma read_loop_once:
  assumes st: "store_ok dk s" and dk: "dk = my_disk (parts s (cur_part s))" and f: "f < length (file_table s)" "v = file_table s ! f"
    and k: "k = unat (fd_pos v) div 512" "k < length all_blocks" and blk: "on_disk (all_blocks ! k)"
    and fit: "0 < unat sz" "unat (fd_pos v) mod 512 + unat sz < 512" and buf: "unat sz \<le> length buf"
  shows "read_loop f all_blocks sz sz 0 0 buf s = Some (sz,
    put_bytes buf 0 (bytes_at (unat (fd_pos v) mod 512) (unat sz) (media s dk (unat (all_blocks ! k)))),
    s\<lparr>file_table := (file_table s)[f := v\<lparr>fd_pos := fd_pos v + sz\<rparr>]\<rparr>)"
proof -
  note d = read_sector_ok [OF st blk]
  let ?off = "unat (fd_pos v) mod 512"
  have w: "unat (fd_pos v div BLOCK_SIZE) = k" "unat (fd_pos v mod BLOCK_SIZE) = ?off" "0 < sz"
    using k(1) fit(1) by (simp_all add: word_less_nat_alt)
  note c = room_in_block [OF fit(2)]
  let ?buf = "put_bytes buf 0 (bytes_at ?off (unat sz) (media s dk (unat (all_blocks ! k))))"
  have "read_loop f all_blocks sz sz 0 0 buf s =
      read_loop f all_blocks sz 0 sz (4 * unat sz) ?buf (s\<lparr>file_table := (file_table s)[f := v\<lparr>fd_pos := fd_pos v + sz\<rparr>]\<rparr>)"
    using w c f k(2) d fit buf dk by (subst read_loop.simps) (simp add: upd_file_def)
  also have "\<dots> = Some (sz, ?buf, s\<lparr>file_table := (file_table s)[f := v\<lparr>fd_pos := fd_pos v + sz\<rparr>]\<rparr>)"
    by (subst read_loop.simps) simp
  finally show ?thesis .
qed

text \<open>A piece of a file that lies in one block.\<close>

lemma file_data_piece:
  assumes "k = p div 512" and "p mod 512 + n < 512" and "p + n \<le> unat (i_size ino)"
    and "length (media s dk (unat (i_sectors ino ! k))) = 512"
  shows "take n (drop p (file_data dk s ino)) = bytes_at (p mod 512) n (media s dk (unat (i_sectors ino ! k)))"
proof (rule nth_equalityI)
  have l: "length (take n (drop p (file_data dk s ino))) = n" using assms(3) by simp
  show "length (take n (drop p (file_data dk s ino))) = length (bytes_at (p mod 512) n (media s dk (unat (i_sectors ino ! k))))"
    unfolding l using assms(2,4) by simp
  fix i assume "i < length (take n (drop p (file_data dk s ino)))"
  then have i: "i < n" unfolding l .
  define d where "d = p mod 512 + i"
  have "p + i = k * 512 + d" "d < 512" using assms(1) i assms(2) div_mult_mod_eq [of p 512] unfolding d_def by linarith+
  then have "(p + i) div 512 = k" "(p + i) mod 512 = p mod 512 + i" unfolding d_def [symmetric] by simp_all
  then show "take n (drop p (file_data dk s ino)) ! i = bytes_at (p mod 512) n (media s dk (unat (i_sectors ino ! k))) ! i"
    using i assms by (simp add: file_data_def nth_bytes_at)
qed

text \<open>A whole read.\<close>

lemma file_read_ok:
  assumes v: "f < length (file_table s)" "v = file_table s ! f" and ino: "inodes s (fd_inode v) = Some ino"
    and part: "part = cur_part s" and dk: "dk = my_disk (parts s part)" and df: "direct_file part b ino s"
    and sz: "sz = min (unat count) (unat (i_size ino) - unat (fd_pos v))" and cnt: "unat (fd_pos v) + unat count < 2 ^ 32"
    and pos: "fd_pos v \<le> i_size ino" "0 < unat count" and fit: "unat (fd_pos v) mod 512 + sz < 512" and buf: "sz \<le> length buf"
    and h: "heap_ready (kern s) L (Suc (Suc n))"
  shows "if fd_pos v = i_size ino then file_read f buf count s = Some ((- 1, buf), s)
    else \<exists>k. file_read f buf count s =
      Some ((word_of_nat sz, put_bytes buf 0 (take sz (drop (unat (fd_pos v)) (file_data dk s ino)))),
        s\<lparr>kern := k, file_table := (file_table s)[f := v\<lparr>fd_pos := fd_pos v + word_of_nat sz\<rparr>]\<rparr>) \<and> heap_ready k L n \<and> heap_frame (kern s) k"
proof (cases "fd_pos v = i_size ino")
  case True
  have "unat (i_size ino + count) = unat (i_size ino) + unat count" using cnt True by (simp add: unat_add_small)
  then have "i_size ino < i_size ino + count" using pos(2) by (simp add: word_less_nat_alt)
  then show ?thesis using True v ino by (simp add: file_read_def)
next
  case False
  let ?k = "unat (fd_pos v) div 512"
  define w where "w = (if fd_pos v + count > i_size ino then i_size ino - fd_pos v else count)"
  note d = df [unfolded direct_file_def]
  have np: "unat (fd_pos v) < unat (i_size ino)" using False pos(1) by (simp add: word_le_nat_alt le_neq_implies_less word_unat_eq_iff)
  have W: "unat w = sz"
    using sz cnt np pos(1) unfolding w_def by (simp add: word_less_nat_alt unat_add_small unat_sub)
  have W': "w = word_of_nat sz" unfolding W [symmetric] by simp
  have szp: "0 < unat w" using W sz np pos(2) by simp
  have sm: "small 512" "small (512 + 48)" by (simp_all add: small_def)
  obtain a1 k1 a2 k2 k3 k4 where m: "sys_malloc 512 (kern s) = Some (a1, k1)" "sys_malloc (512 + 48) k1 = Some (a2, k2)"
      "a1 \<noteq> 0" "a2 \<noteq> 0" "sys_free a2 k2 = Some k3" "sys_free a1 k3 = Some k4" "heap_ready k4 L n"
    and fr: "heap_frame (kern s) k2" "heap_frame k2 k4"
    using kh.two_scratch [OF h sm] by blast
  let ?s2 = "s\<lparr>kern := k2\<rparr>" let ?all = "(replicate 140 0)[?k := i_sectors ino ! ?k]"
  have kle: "?k \<le> unat (i_size ino) div 512" using np by (simp add: div_le_mono)
  then have k: "?k < 12" "?k < length ?all" "?all ! ?k = i_sectors ino ! ?k"
    using d np by (simp_all add: div_less_iff_less_mult)
  have od: "on_disk (?all ! ?k)" using d kle k(3) by (simp add: data_block_def)
  have st2: "store_ok dk ?s2" using d dk table_ok_frame [OF fr(1)] by (auto simp: table_ok_def)
  have ends: "unat ((fd_pos v + w) div BLOCK_SIZE) = ?k"
  proof -
    have "unat (fd_pos v + w) = unat (fd_pos v) + sz" using np sz W cnt by (simp add: unat_add_small)
    then show ?thesis using same_block [OF fit] by simp
  qed
  have adr: "read_addresses ino ?k ?k ?s2 = Some (?all, ?s2)" using k(1) by (simp add: read_addresses_def)
  have rl: "read_loop f ?all w w 0 0 buf ?s2 = Some (w,
      put_bytes buf 0 (bytes_at (unat (fd_pos v) mod 512) (unat w) (media ?s2 dk (unat (?all ! ?k)))),
      ?s2\<lparr>file_table := (file_table ?s2)[f := v\<lparr>fd_pos := fd_pos v + w\<rparr>]\<rparr>)"
    using v dk part fit buf W by (intro read_loop_once [OF st2 _ _ _ refl k(2) od szp]) simp_all
  have piece: "bytes_at (unat (fd_pos v) mod 512) sz (media s dk (unat (i_sectors ino ! ?k))) =
      take sz (drop (unat (fd_pos v)) (file_data dk s ino))"
    using read_sector_ok(2) [OF st2 od] np sz k(3) fit by (intro file_data_piece [symmetric]) simp_all
  have asr: "fd_pos v div BLOCK_SIZE < 139" "(fd_pos v + w) div BLOCK_SIZE < 139" "0 < w"
    using ends k(1) szp by (simp_all only: word_less_nat_alt) simp_all
  have e1: "rd (file_table s) f = Some v" using v by simp
  note e1 = e1 ino
  have nz: "\<not> (fd_pos v + count > i_size ino \<and> w = 0)" using szp by auto
  have "file_read f buf count s = Some ((w, put_bytes buf 0 (bytes_at (unat (fd_pos v) mod 512) (unat w) (media s dk (unat (i_sectors ino ! ?k))))),
      s\<lparr>kern := k4, file_table := (file_table s)[f := v\<lparr>fd_pos := fd_pos v + w\<rparr>]\<rparr>)"
    using m ends adr rl [unfolded k(3)] asr nz
    by (simp only: file_read_def e1 Option.bind.simps Let_def w_def [symmetric] if_False)
      (simp add: fs_malloc_def fs_free_def BLOCK_SIZE_def block_position [unfolded BLOCK_SIZE_def])
  note run = this [unfolded W piece, unfolded W']
  show ?thesis using False run m(7) heap_frame_trans [OF fr] by auto
qed

text \<open>
  C35: \<open>file_read\<close> reads the bytes of a file from the position of the open file on, within a block. It reads as many as asked
  for but not beyond the end of the file, puts them at the start of the caller's buffer and advances the position by their
  number, which it returns; nothing else changes, and the heap is as before. At the end of the file it returns -1.
\<close>

theorem file_read_reads:
  assumes v: "f < length (file_table s)" "v = file_table s ! f" and ino: "inodes s (fd_inode v) = Some ino"
    and part: "part = cur_part s" and dk: "dk = my_disk (parts s part)" and df: "direct_file part b ino s"
    and sz: "sz = min (unat count) (unat (i_size ino) - unat (fd_pos v))" and cnt: "unat (fd_pos v) + unat count < 2 ^ 32"
    and pos: "fd_pos v \<le> i_size ino" "0 < unat count" and fit: "unat (fd_pos v) mod 512 + sz < 512" and buf: "sz \<le> length buf"
    and h: "heap_ready (kern s) L (Suc (Suc n))"
  shows "if fd_pos v = i_size ino then file_read f buf count s = Some ((- 1, buf), s)
    else \<exists>k. file_read f buf count s =
      Some ((word_of_nat sz, put_bytes buf 0 (take sz (drop (unat (fd_pos v)) (file_data dk s ino)))),
        s\<lparr>kern := k, file_table := (file_table s)[f := v\<lparr>fd_pos := fd_pos v + word_of_nat sz\<rparr>]\<rparr>) \<and> heap_ready k L n"
  using file_read_ok [OF assms] by (cases "fd_pos v = i_size ino") auto

subsection \<open>A concrete file\<close>

text \<open>Inode 2 with three bytes in block 700, open as file 3.\<close>

definition demo_file :: inode where
  "demo_file = zero_inode\<lparr>i_no := 2, i_size := 3, i_sectors := 700 # replicate 12 0\<rparr>"

definition demo_file_fs :: fs_state where
  "demo_file_fs = demo_fs\<lparr>inodes := [9 \<mapsto> demo_file],
     file_table := (replicate 32 \<lparr>fd_pos = 0, fd_flag = 0, fd_inode = 0\<rparr>)[3 := \<lparr>fd_pos = 1, fd_flag = 2, fd_inode = 9\<rparr>]\<rparr>"

lemma demo_file_simps:
  "i_size demo_file = 3" "i_no demo_file = 2" "i_sectors demo_file = 700 # replicate 12 0"
  by (simp_all add: demo_file_def)

lemma demo_file_ready:
  "direct_file demo_root demo_sb demo_file demo_file_fs" "\<exists>L. heap_ready (kern demo_file_fs) L (Suc (Suc 5))"
  "file_table demo_file_fs ! 3 = \<lparr>fd_pos = 1, fd_flag = 2, fd_inode = 9\<rparr>" "length (file_table demo_file_fs) = 32"
  "inodes demo_file_fs 9 = Some demo_file" "cur_part demo_file_fs = demo_root" "my_disk (parts demo_file_fs demo_root) = (0, 1)"
  "file_data (0, 1) demo_file_fs demo_file = [0, 0, 0]"
proof -
  show "direct_file demo_root demo_sb demo_file demo_file_fs"
    using demo_table by (simp add: direct_file_def demo_file_def demo_file_fs_def data_block_def on_disk_def)
  show "\<exists>L. heap_ready (kern demo_file_fs) L (Suc (Suc 5))"
    using demo_fs_ok by (auto simp: fs_ok_def demo_file_fs_def eval_nat_numeral)
  show "file_data (0, 1) demo_file_fs demo_file = [0, 0, 0]"
    by (simp add: file_data_def demo_file_def demo_file_fs_def upt_rec)
qed (simp_all add: demo_file_fs_def)

theorem file_write_appends_witness:
  "\<exists>s' ino'. file_write 0 3 [7, 8, 9] 2 demo_file_fs = Some (- 2, s') \<and> inodes s' 9 = Some ino' \<and>
    file_data (0, 1) s' ino' = [0, 0, 0, 7, 8]"
proof -
  obtain L where L: "heap_ready (kern demo_file_fs) L (Suc (Suc 5))" using demo_file_ready(2) by blast
  have "\<exists>s' ino'. file_write 0 3 [7, 8, 9] 2 demo_file_fs = Some (- 2, s') \<and> inodes s' 9 = Some ino' \<and>
      file_data (0, 1) s' ino' = file_data (0, 1) demo_file_fs demo_file @ take (unat (2 :: u32)) [7, 8, 9]"
    using file_write_appends [where f = 3 and s = demo_file_fs and v = "\<lparr>fd_pos = 1, fd_flag = 2, fd_inode = 9\<rparr>" and ino = demo_file
        and part = demo_root and dk = "(0, 1)" and b = demo_sb and count = 2 and buf = "[7, 8, 9]" and L = L and n = 5 and junk = 0,
        OF _ _ _ _ _ demo_file_ready(1) _ _ _ L] demo_file_ready(3-7) by (auto simp: demo_file_simps)
  then show ?thesis using demo_file_ready(8) by simp
qed

theorem file_read_reads_witness:
  "\<exists>k. file_read 3 [4, 4, 4] 5 demo_file_fs = Some ((2, [0, 0, 4]), demo_file_fs\<lparr>kern := k, file_table :=
     (file_table demo_file_fs)[3 := \<lparr>fd_pos = 3, fd_flag = 2, fd_inode = 9\<rparr>]\<rparr>)"
proof -
  obtain L where L: "heap_ready (kern demo_file_fs) L (Suc (Suc 5))" using demo_file_ready(2) by blast
  show ?thesis
    using file_read_reads [where f = 3 and s = demo_file_fs and v = "\<lparr>fd_pos = 1, fd_flag = 2, fd_inode = 9\<rparr>" and ino = demo_file
        and part = demo_root and dk = "(0, 1)" and b = demo_sb and count = 5 and buf = "[4, 4, 4]" and L = L and n = 5 and sz = 2]
      demo_file_ready L by (auto simp: demo_file_simps put_bytes_def)
qed

end
