(* ===== verification/Fd_Spec.thy ===== *)
theory Fd_Spec
  imports Fs_Calls Process_Fork Task_Spec File_Spec
begin

text \<open>
  Descriptors: the table of a task (\<open>fd_table\<close>) holds from entry 3 on indices of the global table of open files, or -1.
  What \<open>init_thread\<close>, \<open>pcb_fd_install\<close>, \<open>sys_close\<close> and \<open>fork\<close> do with it.
\<close>

subsection \<open>The type of a table\<close>

definition fd_ok :: "u32 \<Rightarrow> bool" where
  "fd_ok g \<longleftrightarrow> g = -1 \<or> unat g < MAX_FILE_OPEN"

definition fds_ok :: "u32 list \<Rightarrow> bool" where
  "fds_ok t \<longleftrightarrow> length t = MAX_FILES_OPEN_PER_PROC \<and> (\<forall>i < MAX_FILES_OPEN_PER_PROC. 3 \<le> i \<longrightarrow> fd_ok (t ! i))"

lemma fds_ok_update: "fds_ok t \<Longrightarrow> fd_ok g \<Longrightarrow> fds_ok (t[i := g])"
  by (cases "i < length t") (auto simp: fds_ok_def nth_list_update)

lemma sint_fd:
  assumes "unat (g :: u32) < MAX_FILE_OPEN"
  shows "0 \<le> sint g" and "sint g < int MAX_FILE_OPEN" and "g \<noteq> -1"
proof -
  have u: "unat g < 32" using assms by (simp add: MAX_FILE_OPEN_def)
  have "uint g < 32" using u by (metis of_nat_less_iff of_nat_numeral uint_nat)
  moreover have "- (2 ^ 31) \<le> uint g" by (rule order_trans [OF _ uint_ge_0]) simp
  ultimately have "sint g = uint g"
    by (subst sint_uint, intro signed_take_bit_int_eq_self) simp_all
  then show "0 \<le> sint g" "sint g < int MAX_FILE_OPEN" using \<open>uint g < 32\<close> by (simp_all add: MAX_FILE_OPEN_def)
  show "g \<noteq> -1" using u by (auto simp: unsigned_minus_1_eq_mask mask_eq_exp_minus_1)
qed

text \<open>The loop finds the first free entry.\<close>

lemma free_fd_first:
  assumes "i + n \<le> length t"
  shows "\<exists>j. free_fd t i n = Some j \<and> i \<le> j \<and> j \<le> i + n \<and> (\<forall>k. i \<le> k \<and> k < j \<longrightarrow> t ! k \<noteq> -1) \<and> (j < i + n \<longrightarrow> t ! j = -1)"
  using assms
proof (induction n arbitrary: i)
  case (Suc n)
  show ?case
  proof (cases "t ! i = -1")
    case False
    have "i + 1 + n \<le> length t" using Suc.prems by simp
    from Suc.IH [OF this] obtain j where j: "free_fd t (i + 1) n = Some j" "i + 1 \<le> j" "j \<le> i + 1 + n"
        "\<forall>k. i + 1 \<le> k \<and> k < j \<longrightarrow> t ! k \<noteq> -1" "j < i + 1 + n \<longrightarrow> t ! j = -1"
      by blast
    have "t ! k \<noteq> -1" if "i \<le> k" "k < j" for k using j(4) that False by (cases "k = i") simp_all
    then show ?thesis using j False Suc.prems by (intro exI [of _ j]) simp
  qed (use Suc.prems in auto)
qed auto

text \<open>
  C36: \<open>pcb_fd_install\<close> keeps the descriptor table of the running task well typed and hands out a descriptor that means what
  was installed. In a table of eight entries that hold, from entry 3 on, -1 or an index of the global file table, it
  takes the first free entry from 3 on, and \<open>fd_local2global\<close> of the descriptor is the index installed; the table stays
  well typed and no other task changes. If no entry is free it returns -1 and changes nothing.
\<close>

theorem pcb_fd_install_typed:
  assumes p: "tasks (kern s) (running (kern s)) = Some p" "fds_ok (fd_table p)" and g: "unat g < MAX_FILE_OPEN"
  shows "if \<exists>i. 3 \<le> i \<and> i < MAX_FILES_OPEN_PER_PROC \<and> fd_table p ! i = -1 then
      \<exists>i s' p'. pcb_fd_install g s = Some (word_of_nat i, s') \<and> 3 \<le> i \<and> i < MAX_FILES_OPEN_PER_PROC \<and> fd_table p ! i = -1 \<and>
        (\<forall>j. 3 \<le> j \<and> j < i \<longrightarrow> fd_table p ! j \<noteq> -1) \<and> p' = p\<lparr>fd_table := (fd_table p)[i := g]\<rparr> \<and> fds_ok (fd_table p') \<and>
        tasks (kern s') = (tasks (kern s))(running (kern s) \<mapsto> p') \<and> fd_local2global (word_of_nat i) s' = Some g
    else pcb_fd_install g s = Some (-1, s)"
proof -
  have l: "length (fd_table p) = 8" using p(2) by (simp add: fds_ok_def MAX_FILES_OPEN_PER_PROC_def)
  obtain j where j: "free_fd (fd_table p) 3 5 = Some j" "3 \<le> j" "j \<le> 8" "\<forall>k. 3 \<le> k \<and> k < j \<longrightarrow> fd_table p ! k \<noteq> -1"
      "j < 8 \<longrightarrow> fd_table p ! j = -1"
    using free_fd_first [of 3 5 "fd_table p"] l by auto
  show ?thesis
  proof (cases "j = 8")
    case True
    then have "\<not> (\<exists>i. 3 \<le> i \<and> i < 8 \<and> fd_table p ! i = -1)" using j(4) by blast
    then show ?thesis using True j(1) p(1) by (auto simp: pcb_fd_install_def MAX_FILES_OPEN_PER_PROC_def)
  next
    case False
    then have j8: "j < 8" "fd_table p ! j = -1" using j(3,5) by simp_all
    let ?s = "s\<lparr>kern := (kern s)\<lparr>tasks := (tasks (kern s))(running (kern s) \<mapsto> p\<lparr>fd_table := (fd_table p)[j := g]\<rparr>)\<rparr>\<rparr>"
    have "unat (word_of_nat j :: u32) = j" using j8(1) by (simp add: unat_of_nat)
    then have "fd_local2global (word_of_nat j) ?s = Some g"
      using j8 l g sint_fd(1,2) [OF g] by (simp add: fd_local2global_def)
    moreover have "fds_ok ((fd_table p)[j := g])" using p(2) g by (simp add: fds_ok_update fd_ok_def)
    ultimately show ?thesis
      using j8 j False p(1) by (auto simp: pcb_fd_install_def MAX_FILES_OPEN_PER_PROC_def upd_task_def)
  qed
qed

subsection \<open>Fork\<close>

text \<open>How many descriptors of a table mean the inode at \<open>a\<close>.\<close>

definition fd_refs :: "open_file list \<Rightarrow> u32 list \<Rightarrow> u32 \<Rightarrow> nat" where
  "fd_refs files fds a = length (filter (\<lambda>g. g \<noteq> -1 \<and> fd_inode (files ! unat g) = a) fds)"

definition counted :: "open_file list \<Rightarrow> u32 list \<Rightarrow> (u32 \<rightharpoonup> inode) \<Rightarrow> u32 \<rightharpoonup> inode" where
  "counted files fds inos = (\<lambda>a. map_option (\<lambda>i. i\<lparr>i_open_cnts := i_open_cnts i + word_of_nat (fd_refs files fds a)\<rparr>) (inos a))"

lemma counted_Cons:
  assumes "g \<noteq> -1" and "inos (fd_inode (files ! unat g)) = Some i"
  shows "counted files fds (inos(fd_inode (files ! unat g) \<mapsto> i\<lparr>i_open_cnts := i_open_cnts i + 1\<rparr>)) = counted files (g # fds) inos"
  using assms by (auto simp: counted_def fd_refs_def fun_eq_iff add.assoc)

lemma count_fds_counts:
  assumes "i + n = length fds" and "\<forall>g \<in> set (drop i fds). fd_ok g" and "length files = MAX_FILE_OPEN"
    and "\<forall>g \<in> set (drop i fds). g \<noteq> -1 \<longrightarrow> inos (fd_inode (files ! unat g)) \<noteq> None"
  shows "count_fds fds i n files inos = Some (counted files (drop i fds) inos)"
  using assms(1,2,4)
proof (induction n arbitrary: i inos)
  case 0
  then show ?case by (simp add: counted_def fd_refs_def option.map_ident fun_eq_iff)
next
  case (Suc n)
  have i: "i < length fds" "i + 1 + n = length fds" using Suc.prems(1) by simp_all
  let ?g = "fds ! i"
  have dr: "drop i fds = ?g # drop (i + 1) fds" using i(1) by (simp add: Cons_nth_drop_Suc)
  note pr = Suc.prems(2,3) [unfolded dr]
  show ?case
  proof (cases "?g = -1")
    case True
    have "counted files (drop i fds) inos = counted files (drop (i + 1) fds) inos"
      unfolding dr using True by (simp add: counted_def fd_refs_def)
    moreover have "sint (-1 :: u32) < int MAX_FILE_OPEN" by (simp add: MAX_FILE_OPEN_def)
    ultimately show ?thesis using Suc.IH [OF i(2), of inos] pr True i(1) by simp
  next
    case False
    then have u: "unat ?g < MAX_FILE_OPEN" using pr(1) by (simp add: fd_ok_def)
    obtain ino where ino: "inos (fd_inode (files ! unat ?g)) = Some ino" using pr(2) False by auto
    let ?inos = "inos(fd_inode (files ! unat ?g) \<mapsto> ino\<lparr>i_open_cnts := i_open_cnts ino + 1\<rparr>)"
    have "count_fds fds (i + 1) n files ?inos = Some (counted files (drop (i + 1) fds) ?inos)"
      using pr by (intro Suc.IH [OF i(2)]) auto
    then show ?thesis
      using i(1) False u ino assms(3) sint_fd(2) [OF u] sint_fd(1) [OF u] counted_Cons [where g = ?g and i = ino and inos = inos and files = files and fds = "drop (i + 1) fds", OF False ino] dr by simp
  qed
qed

text \<open>
  C37: \<open>fork\<close> counts the child's files. \<open>update_inode_open_cnts\<close> succeeds for a well-typed descriptor table whose files are
  open, and adds to the count of each inode the number of the child's descriptors, from 3 on, that mean it; nothing else of
  an inode changes, and no inode is added or lost.
\<close>

theorem fork_counts_files:
  assumes "tasks s t = Some p" and "fds_ok (fd_table p)" and "length files = MAX_FILE_OPEN"
    and "\<forall>g \<in> set (drop 3 (fd_table p)). g \<noteq> -1 \<longrightarrow> inos (fd_inode (files ! unat g)) \<noteq> None"
  shows "\<exists>inos'. update_inode_open_cnts t files inos s = Some inos' \<and>
    (\<forall>a. inos' a = map_option (\<lambda>i. i\<lparr>i_open_cnts := i_open_cnts i + word_of_nat (fd_refs files (drop 3 (fd_table p)) a)\<rparr>) (inos a))"
proof -
  have l: "length (fd_table p) = 8" "\<forall>i < 8. 3 \<le> i \<longrightarrow> fd_ok (fd_table p ! i)"
    using assms(2) by (simp_all add: fds_ok_def MAX_FILES_OPEN_PER_PROC_def)
  have "\<forall>g \<in> set (drop 3 (fd_table p)). fd_ok g" using l by (auto simp: in_set_conv_nth)
  then have "count_fds (fd_table p) 3 5 files inos = Some (counted files (drop 3 (fd_table p)) inos)"
    using l(1) assms(3,4) by (intro count_fds_counts) simp_all
  then show ?thesis
    using assms(1) by (simp add: update_inode_open_cnts_def MAX_FILES_OPEN_PER_PROC_def counted_def)
qed

subsection \<open>Closing\<close>

lemma in_kernel_heap_only:
  "in_kernel_heap f s = Some (r, s') \<Longrightarrow> inodes s' = inodes s \<and> file_table s' = file_table (s :: 'z fs_state_scheme)"
  by (auto simp: in_kernel_heap_def Let_def bind_eq_Some_conv split: prod.splits)

lemma inode_close_keeps:
  assumes "inode_close a s = Some s'" and "inodes s 0 = None"
  shows "inodes s' 0 = None \<and> file_table s' = file_table s"
  using assms
  by (auto simp: inode_close_def Let_def upd_inode_def upd_part_def bind_eq_Some_conv split: prod.splits if_splits
      dest!: in_kernel_heap_only)

lemma file_close_clears:
  assumes "file_close (Some i) s = Some (r, s')" and "inodes s 0 = None"
  shows "inodes s' 0 = None" and "i < length (file_table s')" and "fd_inode (file_table s' ! i) = 0"
proof -
  let ?a = "fd_inode (file_table s ! i)"
  obtain ino s1 where 1: "i < length (file_table s)" "inodes s ?a = Some ino"
      "inode_close ?a (s\<lparr>inodes := (inodes s)(?a \<mapsto> ino\<lparr>write_deny := False\<rparr>)\<rparr>) = Some s1"
      "upd_file i (\<lambda>v. v\<lparr>fd_inode := 0\<rparr>) s1 = Some s'"
    using assms(1) by (auto simp: file_close_def upd_inode_def bind_eq_Some_conv rd_eq_Some)
  have "?a \<noteq> 0" using 1(2) assms(2) by auto
  then have "inodes s1 0 = None \<and> file_table s1 = file_table s"
    using inode_close_keeps [OF 1(3)] assms(2) by simp
  then show "inodes s' 0 = None" "i < length (file_table s')" "fd_inode (file_table s' ! i) = 0"
    using 1(1,4) by (auto simp: upd_file_def)
qed

text \<open>
  C39: a descriptor that has been closed is a trap. After \<open>sys_close\<close> of a descriptor above 2 has succeeded, closing the same
  descriptor again stops the kernel at the assertion of \<open>fd_local2global\<close> instead of returning -1. And the entry of the
  global file table is gone for everybody: when another process, the parent or the child of a \<open>fork\<close>, has a descriptor for
  the same entry, its reading, writing or closing goes through a null inode.
\<close>

theorem closed_descriptor_traps:
  assumes "sys_close fd s = Some (r, s')" and "2 < sint fd" and "inodes s 0 = None"
  shows "sys_close fd s' = None \<and> (\<exists>g. fd_local2global fd s = Some g \<and>
    file_close (Some (unat g)) s' = None \<and> file_read (unat g) buf count s' = None \<and> file_write j (unat g) bs count' s' = None)"
proof -
  obtain g s1 k where 1: "fd_local2global fd s = Some g" "file_close (Some (unat g)) s = Some (r, s1)"
      "upd_task (running (kern s1)) (\<lambda>p. p\<lparr>fd_table := (fd_table p)[unat fd := -1]\<rparr>) (kern s1) = Some k" "s' = s1\<lparr>kern := k\<rparr>"
    using assms(1,2) by (auto simp: sys_close_def bind_eq_Some_conv)
  obtain p where p: "tasks k (running k) = Some p" "\<exists>t. fd_table p = t[unat fd := -1]"
    using 1(3) by (force simp: upd_task_def bind_eq_Some_conv)
  have "fd_local2global fd s' = None"
  proof (cases "unat fd < length (fd_table p)")
    case True
    then have "fd_table p ! unat fd = -1" using p(2) by auto
    then show ?thesis using True p(1) 1(4) by (simp add: fd_local2global_def)
  next
    case False
    then show ?thesis using p(1) 1(4) by (simp add: fd_local2global_def)
  qed
  moreover note c = file_close_clears [OF 1(2) assms(3)]
  have "rd (file_table s') (unat g) = Some (file_table s' ! unat g)" "fd_inode (file_table s' ! unat g) = 0" "inodes s' 0 = None"
    using c 1(4) by simp_all
  ultimately show ?thesis
    using assms(2) 1(1) by (simp add: sys_close_def file_close_def file_read_def file_write_def upd_inode_def)
qed

subsection \<open>A concrete table\<close>

text \<open>The running task has one open file, descriptor 3, which is open twice; entry 4 of its table is the next free one.\<close>

definition demo_fd_task :: task_struct where
  "demo_fd_task = (demo_task 0 TASK_RUNNING)\<lparr>fd_table := [0, 1, 2, 3, -1, -1, -1, -1]\<rparr>"

definition demo_fd_fs :: fs_state where
  "demo_fd_fs = demo_file_fs\<lparr>inodes := [9 \<mapsto> demo_file\<lparr>i_open_cnts := 2\<rparr>], kern := demo_kern\<lparr>tasks := [0xc009e000 \<mapsto> demo_fd_task]\<rparr>\<rparr>"

lemma demo_fd_simps [simp]:
  "fd_table demo_fd_task = [0, 1, 2, 3, -1, -1, -1, -1]" "running (kern demo_fd_fs) = 0xc009e000"
  "tasks (kern demo_fd_fs) = [0xc009e000 \<mapsto> demo_fd_task]" "inodes demo_fd_fs = [9 \<mapsto> demo_file\<lparr>i_open_cnts := 2\<rparr>]"
  "file_table demo_fd_fs = (replicate 32 \<lparr>fd_pos = 0, fd_flag = 0, fd_inode = 0\<rparr>)[3 := \<lparr>fd_pos = 1, fd_flag = 2, fd_inode = 9\<rparr>]"
  by (simp_all add: demo_fd_task_def demo_fd_fs_def demo_kern_def demo_file_fs_def)

lemma demo_fd_flags [simp]: "intr_disable (kern demo_fd_fs) = (INTR_OFF, kern demo_fd_fs)"
  by (simp add: intr_disable_def intr_get_status_def demo_fd_fs_def demo_kern_def demo_mem_def demo_kernel_def kstate.defs
      EFLAGS_IF_def)

lemma demo_fds_ok: "fds_ok (fd_table demo_fd_task)"
proof -
  have "fd_ok ([0, 1, 2, 3, -1, -1, -1, -1] ! i)" if "i < 8" "3 \<le> i" for i
  proof -
    have "i = 3 \<or> i = 4 \<or> i = 5 \<or> i = 6 \<or> i = 7" using that by linarith
    then show ?thesis by (auto simp: fd_ok_def MAX_FILE_OPEN_def)
  qed
  then show ?thesis by (simp add: fds_ok_def MAX_FILES_OPEN_PER_PROC_def)
qed

theorem pcb_fd_install_typed_witness:
  "\<exists>s'. pcb_fd_install 5 demo_fd_fs = Some (4, s') \<and> fd_local2global 4 s' = Some 5"
proof -
  have p: "tasks (kern demo_fd_fs) (running (kern demo_fd_fs)) = Some demo_fd_task" by simp
  have "\<exists>i. 3 \<le> i \<and> i < MAX_FILES_OPEN_PER_PROC \<and> fd_table demo_fd_task ! i = -1"
    by (rule exI [of _ 4]) (simp add: MAX_FILES_OPEN_PER_PROC_def)
  then obtain i s' where s': "pcb_fd_install 5 demo_fd_fs = Some (word_of_nat i, s')" "3 \<le> i" "i < MAX_FILES_OPEN_PER_PROC"
      "fd_table demo_fd_task ! i = -1" "\<forall>j. 3 \<le> j \<and> j < i \<longrightarrow> fd_table demo_fd_task ! j \<noteq> -1"
      "fd_local2global (word_of_nat i) s' = Some 5"
    using pcb_fd_install_typed [OF p demo_fds_ok, of 5] by (auto simp: MAX_FILE_OPEN_def)
  have "i \<noteq> 3" using s'(4) by auto
  moreover have "\<not> 4 < i" using s'(5) [rule_format, of 4] by (intro notI) simp
  ultimately have "i = 4" using s'(2) by linarith
  then show ?thesis using s' by auto
qed

theorem fork_counts_files_witness:
  "\<exists>inos'. update_inode_open_cnts 0xc009e000 (file_table demo_fd_fs) (inodes demo_fd_fs) (kern demo_fd_fs) = Some inos' \<and>
    inos' 9 = Some (demo_file\<lparr>i_open_cnts := 3\<rparr>)"
  using fork_counts_files [where s = "kern demo_fd_fs" and t = "0xc009e000" and p = demo_fd_task and files = "file_table demo_fd_fs"
      and inos = "inodes demo_fd_fs", OF _ demo_fds_ok]
  by (auto simp: MAX_FILE_OPEN_def fd_refs_def)

theorem closed_descriptor_traps_witness:
  "\<exists>s'. sys_close 3 demo_fd_fs = Some (0, s') \<and> sys_close 3 s' = None"
proof -
  obtain s' where s': "sys_close 3 demo_fd_fs = Some (0, s')"
    by (simp add: sys_close_def fd_local2global_def MAX_FILE_OPEN_def file_close_def upd_inode_def inode_close_def upd_file_def
        upd_task_def intr_set_status_def)
  then show ?thesis using closed_descriptor_traps [OF s'] by simp
qed

end
