(* ===== verification/User_Calls.thy ===== *)
theory User_Calls
  imports Process_Create
begin

text \<open>
  \<open>lib/user/syscall.c\<close> and the entry of interrupt 0x80 (\<open>syscall_handler\<close> of \<open>kernel/kernel.S\<close>): how a call of a user
  program reaches the kernel. The registers that carry a call are those of the calling task; the functions of the
  kernel are an argument, \<open>run\<close>, that takes the entry of \<open>syscall_table\<close> and the three words the handler pushes. The
  arguments and results are the words in the registers, so a pointer is its address.
\<close>

record regs =
  eax :: u32
  ebx :: u32
  ecx :: u32
  edx :: u32

type_synonym 's entry = "regs \<Rightarrow> 's \<Rightarrow> (regs \<times> 's) option"

text \<open>
  The handler pushes \<open>edx\<close>, \<open>ecx\<close> and \<open>ebx\<close> as arguments and calls the entry \<open>eax\<close> of the table; its result is
  stored where the saved \<open>eax\<close> lies, the other registers are restored. An entry beyond the table or one not filled
  is \<open>None\<close>.
\<close>

definition syscall_handler ::
  "syscall option list \<Rightarrow> (syscall \<Rightarrow> u32 list \<Rightarrow> 's \<Rightarrow> (u32 \<times> 's) option) \<Rightarrow> 's entry" where
  "syscall_handler syscall_table run r s = do {
     e \<leftarrow> rd syscall_table (unat (eax r));
     f \<leftarrow> e;
     (retval, s) \<leftarrow> run f [ebx r, ecx r, edx r] s;
     Some (r\<lparr>eax := retval\<rparr>, s) }"

subsection \<open>Calls with up to three arguments\<close>

text \<open>\<open>r\<close> are the registers before the call: those a macro does not set keep their value.\<close>

definition syscall0 :: "'s entry \<Rightarrow> nat \<Rightarrow> regs \<Rightarrow> 's \<Rightarrow> (u32 \<times> 's) option" where
  "syscall0 int80 NUMBER r s = do {
     (r, s) \<leftarrow> int80 (r\<lparr>eax := word_of_nat NUMBER\<rparr>) s;
     Some (eax r, s) }"

definition syscall1 :: "'s entry \<Rightarrow> nat \<Rightarrow> u32 \<Rightarrow> regs \<Rightarrow> 's \<Rightarrow> (u32 \<times> 's) option" where
  "syscall1 int80 NUMBER ARG1 r s = do {
     (r, s) \<leftarrow> int80 (r\<lparr>eax := word_of_nat NUMBER, ebx := ARG1\<rparr>) s;
     Some (eax r, s) }"

definition syscall2 :: "'s entry \<Rightarrow> nat \<Rightarrow> u32 \<Rightarrow> u32 \<Rightarrow> regs \<Rightarrow> 's \<Rightarrow> (u32 \<times> 's) option" where
  "syscall2 int80 NUMBER ARG1 ARG2 r s = do {
     (r, s) \<leftarrow> int80 (r\<lparr>eax := word_of_nat NUMBER, ebx := ARG1, ecx := ARG2\<rparr>) s;
     Some (eax r, s) }"

definition syscall3 :: "'s entry \<Rightarrow> nat \<Rightarrow> u32 \<Rightarrow> u32 \<Rightarrow> u32 \<Rightarrow> regs \<Rightarrow> 's \<Rightarrow> (u32 \<times> 's) option" where
  "syscall3 int80 NUMBER ARG1 ARG2 ARG3 r s = do {
     (r, s) \<leftarrow> int80 (r\<lparr>eax := word_of_nat NUMBER, ebx := ARG1, ecx := ARG2, edx := ARG3\<rparr>) s;
     Some (eax r, s) }"

subsection \<open>The library\<close>

text \<open>A \<open>uint8_t\<close> argument is extended with zeros, a \<open>char\<close> with its sign. Functions without result drop theirs.\<close>

definition drop_result :: "('a \<times> 's) option \<Rightarrow> 's option" where
  "drop_result r = map_option snd r"

definition getpid :: "'s entry \<Rightarrow> regs \<Rightarrow> 's \<Rightarrow> (u32 \<times> 's) option" where
  "getpid int80 = syscall0 int80 (SYSCALL_NR Sys_getpid)"

definition write_user :: "'s entry \<Rightarrow> u32 \<Rightarrow> u32 \<Rightarrow> u32 \<Rightarrow> regs \<Rightarrow> 's \<Rightarrow> (u32 \<times> 's) option" where
  "write_user int80 fd buf count = syscall3 int80 (SYSCALL_NR Sys_write) fd buf count"

definition malloc :: "'s entry \<Rightarrow> u32 \<Rightarrow> regs \<Rightarrow> 's \<Rightarrow> (u32 \<times> 's) option" where
  "malloc int80 sz = syscall1 int80 (SYSCALL_NR Sys_malloc) sz"

definition free_user :: "'s entry \<Rightarrow> u32 \<Rightarrow> regs \<Rightarrow> 's \<Rightarrow> 's option" where
  "free_user int80 ptr r s = drop_result (syscall1 int80 (SYSCALL_NR Sys_free) ptr r s)"

definition fork :: "'s entry \<Rightarrow> regs \<Rightarrow> 's \<Rightarrow> (u16 \<times> 's) option" where
  "fork int80 r s = map_option (map_prod ucast id) (syscall0 int80 (SYSCALL_NR Sys_fork) r s)"

definition read_user :: "'s entry \<Rightarrow> u32 \<Rightarrow> u32 \<Rightarrow> u32 \<Rightarrow> regs \<Rightarrow> 's \<Rightarrow> (u32 \<times> 's) option" where
  "read_user int80 fd buf count = syscall3 int80 (SYSCALL_NR Sys_read) fd buf count"

definition putchar :: "'s entry \<Rightarrow> u8 \<Rightarrow> regs \<Rightarrow> 's \<Rightarrow> 's option" where
  "putchar int80 char_asci r s = drop_result (syscall1 int80 (SYSCALL_NR Sys_putchar) (scast char_asci) r s)"

definition clear_user :: "'s entry \<Rightarrow> regs \<Rightarrow> 's \<Rightarrow> 's option" where
  "clear_user int80 r s = drop_result (syscall0 int80 (SYSCALL_NR Sys_clear) r s)"

definition getcwd :: "'s entry \<Rightarrow> u32 \<Rightarrow> u32 \<Rightarrow> regs \<Rightarrow> 's \<Rightarrow> (u32 \<times> 's) option" where
  "getcwd int80 buf sz = syscall2 int80 (SYSCALL_NR Sys_getcwd) buf sz"

definition open_user :: "'s entry \<Rightarrow> u32 \<Rightarrow> u8 \<Rightarrow> regs \<Rightarrow> 's \<Rightarrow> (u32 \<times> 's) option" where
  "open_user int80 pathname flag = syscall2 int80 (SYSCALL_NR Sys_open) pathname (ucast flag)"

definition close_user :: "'s entry \<Rightarrow> u32 \<Rightarrow> regs \<Rightarrow> 's \<Rightarrow> (u32 \<times> 's) option" where
  "close_user int80 fd = syscall1 int80 (SYSCALL_NR Sys_close) fd"

definition lseek :: "'s entry \<Rightarrow> u32 \<Rightarrow> u32 \<Rightarrow> u8 \<Rightarrow> regs \<Rightarrow> 's \<Rightarrow> (u32 \<times> 's) option" where
  "lseek int80 fd offset whence = syscall3 int80 (SYSCALL_NR Sys_lseek) fd offset (ucast whence)"

definition unlink :: "'s entry \<Rightarrow> u32 \<Rightarrow> regs \<Rightarrow> 's \<Rightarrow> (u32 \<times> 's) option" where
  "unlink int80 pathname = syscall1 int80 (SYSCALL_NR Sys_unlink) pathname"

definition mkdir :: "'s entry \<Rightarrow> u32 \<Rightarrow> regs \<Rightarrow> 's \<Rightarrow> (u32 \<times> 's) option" where
  "mkdir int80 pathname = syscall1 int80 (SYSCALL_NR Sys_mkdir) pathname"

definition opendir :: "'s entry \<Rightarrow> u32 \<Rightarrow> regs \<Rightarrow> 's \<Rightarrow> (u32 \<times> 's) option" where
  "opendir int80 nm = syscall1 int80 (SYSCALL_NR Sys_opendir) nm"

definition closedir :: "'s entry \<Rightarrow> u32 \<Rightarrow> regs \<Rightarrow> 's \<Rightarrow> (u32 \<times> 's) option" where
  "closedir int80 d = syscall1 int80 (SYSCALL_NR Sys_closedir) d"

definition rmdir :: "'s entry \<Rightarrow> u32 \<Rightarrow> regs \<Rightarrow> 's \<Rightarrow> (u32 \<times> 's) option" where
  "rmdir int80 pathname = syscall1 int80 (SYSCALL_NR Sys_rmdir) pathname"

definition readdir :: "'s entry \<Rightarrow> u32 \<Rightarrow> regs \<Rightarrow> 's \<Rightarrow> (u32 \<times> 's) option" where
  "readdir int80 d = syscall1 int80 (SYSCALL_NR Sys_readdir) d"

definition rewinddir :: "'s entry \<Rightarrow> u32 \<Rightarrow> regs \<Rightarrow> 's \<Rightarrow> 's option" where
  "rewinddir int80 d r s = drop_result (syscall1 int80 (SYSCALL_NR Sys_rewinddir) d r s)"

definition stat_user :: "'s entry \<Rightarrow> u32 \<Rightarrow> u32 \<Rightarrow> regs \<Rightarrow> 's \<Rightarrow> (u32 \<times> 's) option" where
  "stat_user int80 path buf = syscall2 int80 (SYSCALL_NR Sys_stat) path buf"

definition chdir :: "'s entry \<Rightarrow> u32 \<Rightarrow> regs \<Rightarrow> 's \<Rightarrow> (u32 \<times> 's) option" where
  "chdir int80 path = syscall1 int80 (SYSCALL_NR Sys_chdir) path"

definition ps :: "'s entry \<Rightarrow> regs \<Rightarrow> 's \<Rightarrow> 's option" where
  "ps int80 r s = drop_result (syscall0 int80 (SYSCALL_NR Sys_ps) r s)"

subsection \<open>Every call reaches its function\<close>

text \<open>Each number has its function in the table, whatever the table held, and no entry outside the numbers is set.\<close>

lemma syscall_table_entry:
  assumes "length t = syscall_nr"
  shows "rd (syscall_init t) (SYSCALL_NR f) = Some (Some f)" and "length (syscall_init t) = syscall_nr"
    and "22 \<le> n \<Longrightarrow> syscall_init t ! n = t ! n"
  using assms by (cases f; simp add: syscall_init_def syscall_nr_def)+

lemma SYSCALL_NR_bound: "SYSCALL_NR f < syscall_nr"
  by (cases f) (simp_all add: syscall_nr_def)

lemma dispatch:
  assumes "length t = syscall_nr" and "eax r = word_of_nat (SYSCALL_NR f)"
  shows "syscall_handler (syscall_init t) run r s = do {
    (retval, s) \<leftarrow> run f [ebx r, ecx r, edx r] s;
    Some (r\<lparr>eax := retval\<rparr>, s) }"
proof -
  have "unat (eax r) = SYSCALL_NR f"
    using assms(2) SYSCALL_NR_bound [of f] by (simp add: unat_of_nat syscall_nr_def)
  then show ?thesis using syscall_table_entry(1) [OF assms(1), of f] by (simp add: syscall_handler_def)
qed

lemma syscall_run:
  assumes "length t = syscall_nr"
  shows "syscall0 (syscall_handler (syscall_init t) run) (SYSCALL_NR f) r s = run f [ebx r, ecx r, edx r] s"
    and "syscall1 (syscall_handler (syscall_init t) run) (SYSCALL_NR f) a r s = run f [a, ecx r, edx r] s"
    and "syscall2 (syscall_handler (syscall_init t) run) (SYSCALL_NR f) a b r s = run f [a, b, edx r] s"
    and "syscall3 (syscall_handler (syscall_init t) run) (SYSCALL_NR f) a b c r s = run f [a, b, c] s"
  by (simp_all add: syscall0_def syscall1_def syscall2_def syscall3_def dispatch [OF assms] split: option.split prod.split
        bind_split)

text \<open>
  C38: every function of the user library reaches its function in the kernel. After \<open>syscall_init\<close> a call through interrupt
  0x80 runs the function of the kernel with the same name, with the arguments of the call in their order (and whatever the
  other registers hold in the places of those it does not have), and returns the result of that function.
\<close>

theorem user_calls_reach_kernel:
  assumes "length t = syscall_nr" and "k = syscall_handler (syscall_init t) run"
  shows "getpid k r s = run Sys_getpid [ebx r, ecx r, edx r] s \<and>
    write_user k fd buf n r s = run Sys_write [fd, buf, n] s \<and>
    malloc k n r s = run Sys_malloc [n, ecx r, edx r] s \<and>
    free_user k p r s = map_option snd (run Sys_free [p, ecx r, edx r] s) \<and>
    fork k r s = map_option (map_prod ucast id) (run Sys_fork [ebx r, ecx r, edx r] s) \<and>
    read_user k fd buf n r s = run Sys_read [fd, buf, n] s \<and>
    putchar k c r s = map_option snd (run Sys_putchar [scast c, ecx r, edx r] s) \<and>
    clear_user k r s = map_option snd (run Sys_clear [ebx r, ecx r, edx r] s) \<and>
    getcwd k buf n r s = run Sys_getcwd [buf, n, edx r] s \<and>
    open_user k p flag r s = run Sys_open [p, ucast flag, edx r] s \<and>
    close_user k fd r s = run Sys_close [fd, ecx r, edx r] s \<and>
    lseek k fd off flag r s = run Sys_lseek [fd, off, ucast flag] s \<and>
    unlink k p r s = run Sys_unlink [p, ecx r, edx r] s \<and>
    mkdir k p r s = run Sys_mkdir [p, ecx r, edx r] s \<and>
    opendir k p r s = run Sys_opendir [p, ecx r, edx r] s \<and>
    closedir k d r s = run Sys_closedir [d, ecx r, edx r] s \<and>
    rmdir k p r s = run Sys_rmdir [p, ecx r, edx r] s \<and>
    readdir k d r s = run Sys_readdir [d, ecx r, edx r] s \<and>
    rewinddir k d r s = map_option snd (run Sys_rewinddir [d, ecx r, edx r] s) \<and>
    stat_user k p buf r s = run Sys_stat [p, buf, edx r] s \<and>
    chdir k p r s = run Sys_chdir [p, ecx r, edx r] s \<and>
    ps k r s = map_option snd (run Sys_ps [ebx r, ecx r, edx r] s)"
  unfolding assms(2) getpid_def write_user_def malloc_def free_user_def fork_def read_user_def putchar_def
    clear_user_def getcwd_def open_user_def close_user_def lseek_def unlink_def mkdir_def opendir_def closedir_def
    rmdir_def readdir_def rewinddir_def stat_user_def chdir_def ps_def drop_result_def syscall_run [OF assms(1)]
  by simp

text \<open>A kernel whose functions return the sum of their first two arguments and log the call.\<close>

theorem user_calls_reach_kernel_witness:
  "write_user (syscall_handler (syscall_init (replicate 32 None)) (\<lambda>f args l. Some (args ! 0 + args ! 1, f # l))) 1 40 5
     \<lparr>eax = 9, ebx = 8, ecx = 7, edx = 6\<rparr> [] = Some (41, [Sys_write])"
  using user_calls_reach_kernel [of "replicate 32 None" _ "\<lambda>f args l. Some (args ! 0 + args ! 1, f # l)", OF _ refl]
  by (simp add: syscall_nr_def)

end
