(* ===== verification/Format_Spec.thy ===== *)
theory Format_Spec
  imports Dir_Spec
begin

text \<open>
  What \<open>partition_format\<close> of \<open>fs/fs.c\<close> lays out: where the areas of a file system lie in its partition, and which bits
  of the new block bitmap are free.
\<close>

unbundle bit_operations_syntax

subsection \<open>The block bitmap\<close>

lemma clear_bits_eq:
  assumes "i < length buf" and "unat lastb < 8" and "unat k \<le> unat lastb + 1"
  shows "\<exists>v. clear_bits buf i k lastb = Some (buf[i := v]) \<and> (\<forall>j. bit v j \<longleftrightarrow> bit (buf ! i) j \<and> \<not> (unat k \<le> j \<and> j \<le> unat lastb))"
  using assms(1,3)
proof (induction "unat lastb + 1 - unat k" arbitrary: k buf)
  case 0
  then have "\<not> k \<le> lastb" by (simp add: word_le_nat_alt)
  then show ?case using 0 by (subst clear_bits.simps) (intro exI [of _ "buf ! i"], auto)
next
  case (Suc n)
  then have k: "k \<le> lastb" "unat k < 8" using assms(2) by (simp_all add: word_le_nat_alt)
  have k1: "unat (k + 1) = unat k + 1" using k(2) by (simp add: unat_word_ariths)
  let ?v = "(buf ! i) AND NOT (push_bit (unat k) 1)"
  have "n = unat lastb + 1 - unat (k + 1)" "unat (k + 1) \<le> unat lastb + 1" using Suc.hyps(2) k(1) k1 by (simp_all add: word_le_nat_alt)
  from Suc.hyps(1) [OF this(1), of "buf[i := ?v]"] this(2) Suc.prems(1)
  obtain v where v: "clear_bits (buf[i := ?v]) i (k + 1) lastb = Some (buf[i := v])"
      "\<forall>j. bit v j \<longleftrightarrow> bit ?v j \<and> \<not> (unat (k + 1) \<le> j \<and> j \<le> unat lastb)"
    by auto
  have b: "bit ?v j \<longleftrightarrow> bit (buf ! i) j \<and> j \<noteq> unat k" for j
    using k(2) by (auto simp: bit_simps dest: bit_imp_le_length)
  have "bit v j \<longleftrightarrow> bit (buf ! i) j \<and> \<not> (unat k \<le> j \<and> j \<le> unat lastb)" for j
    using spec [OF v(2), of j] b [of j] k(1) unfolding k1 word_le_nat_alt by auto
  then show ?case using k(1) v(1) Suc.prems(1) by (subst clear_bits.simps) auto
qed

lemma ff_bit: "j < 8 \<Longrightarrow> bit (0xff :: u8) j"
proof -
  assume "j < 8"
  then have "bit (mask 8 :: u8) j" by (simp add: bit_mask_iff)
  then show ?thesis by (simp add: mask_eq_exp_minus_1)
qed

lemma format_block_bitmap_bytes:
  assumes sz: "unat n div 4096 * 512 + 512 \<le> sz"
  defines "q \<equiv> unat n div 8"
  shows "\<exists>bs v. format_block_bitmap n sz = Some bs \<and> length bs = sz \<and> bs ! q = v \<and> (\<forall>j < 8. bit v j \<longleftrightarrow> unat n mod 8 < j) \<and>
    (\<forall>i < q. bs ! i = (if i = 0 then 1 else 0)) \<and> (\<forall>i. q < i \<longrightarrow> i < unat n div 4096 * 512 + 512 \<longrightarrow> bs ! i = 0xff)"
proof -
  have q: "q + (512 - q mod 512) = unat n div 4096 * 512 + 512"
  proof -
    have "x + (512 - x mod 512) = x div 512 * 512 + 512" for x :: nat
      using div_mult_mod_eq [of x 512] mod_less_divisor [of 512 x] by linarith
    moreover have "q div 512 = unat n div 4096" by (simp add: q_def div_mult2_eq [symmetric])
    ultimately show ?thesis by metis
  qed
  define b1 where "b1 = put_bytes ((replicate sz 0)[0 := (1 :: u8)]) q (replicate (512 - q mod 512) 0xff)"
  have len: "length b1 = sz" using sz q by (simp add: b1_def put_bytes_def)
  have lt: "q < sz" "q mod 512 < 512" using sz q by simp_all
  have get: "b1 ! i = (if q \<le> i then 0xff else if i = 0 then 1 else 0)" if "i < unat n div 4096 * 512 + 512" for i
    using that q sz by (auto simp: b1_def put_bytes_def nth_append nth_list_update)
  have m: "unat (ucast (n mod 8) :: u8) = unat n mod 8"
    by (simp add: unsigned_ucast_eq unat_mod take_bit_eq_mod)
  have d: "unat (n div 8) = q" by (simp add: q_def unat_div)
  obtain v where v: "clear_bits b1 q 0 (ucast (n mod 8)) = Some (b1[q := v])"
      "\<forall>j. bit v j \<longleftrightarrow> bit (b1 ! q) j \<and> \<not> j \<le> unat n mod 8"
    using clear_bits_eq [of q b1 "ucast (n mod 8)" 0] lt(1) len unfolding m by auto
  have "format_block_bitmap n sz = Some (b1[q := v])"
    using v(1) sz q lt unfolding format_block_bitmap_def Let_def d b1_def by simp
  moreover have "b1 ! q = 0xff" using get [of q] q lt(2) by simp
  then have "bit v j \<longleftrightarrow> unat n mod 8 < j" if "j < 8" for j
    using spec [OF v(2), of j] ff_bit [OF that] by (simp add: not_le)
  moreover have "b1[q := v] ! i = (if i = 0 then 1 else 0)" if "i < q" for i
    using get [of i] that q lt(2) by simp
  moreover have "b1[q := v] ! i = 0xff" if "q < i" "i < unat n div 4096 * 512 + 512" for i
    using get [of i] that by simp
  moreover have "b1[q := v] ! q = v" "length (b1[q := v]) = sz" using len lt(1) by simp_all
  ultimately show ?thesis by blast
qed

lemma format_block_bitmap_bits:
  assumes "unat n div 4096 * 512 + 512 \<le> sz"
  shows "\<exists>bs. format_block_bitmap n sz = Some bs \<and> length bs = sz \<and>
    (\<forall>j < unat n div 4096 * 4096 + 4096. bm_bit \<lparr>btmp_bytes_len = l, bits = bs\<rparr> j \<longleftrightarrow> (j = 0 \<and> 8 \<le> unat n) \<or> unat n < j)"
proof -
  obtain bs v where bs: "format_block_bitmap n sz = Some bs" "length bs = sz" and v: "bs ! (unat n div 8) = v" "\<forall>j < 8. bit v j \<longleftrightarrow> unat n mod 8 < j"
    and low: "\<forall>i < unat n div 8. bs ! i = (if i = 0 then 1 else 0)"
    and high: "\<forall>i. unat n div 8 < i \<longrightarrow> i < unat n div 4096 * 512 + 512 \<longrightarrow> bs ! i = 0xff"
    using format_block_bitmap_bytes [OF assms] by (elim exE conjE, intro that) assumption+
  have "bit (bs ! (j div 8)) (j mod 8) \<longleftrightarrow> (j = 0 \<and> 8 \<le> unat n) \<or> unat n < j" if j: "j < unat n div 4096 * 4096 + 4096" for j
  proof (cases "j div 8" "unat n div 8" rule: linorder_cases)
    case less
    then have "\<not> unat n < j" "0 < unat n div 8" using div_le_mono [of "unat n" j 8] by auto
    then show ?thesis using less low by (auto simp: bit_1_iff div_eq_0_iff split: if_splits)
  next
    case equal
    have "j = j div 8 * 8 + j mod 8" "unat n = unat n div 8 * 8 + unat n mod 8" by simp_all
    then have "unat n < j \<longleftrightarrow> unat n mod 8 < j mod 8" "\<not> (j = 0 \<and> 8 \<le> unat n)" using equal by (linarith, auto)
    moreover have "j mod 8 < 8" by simp
    ultimately show ?thesis using v equal by metis
  next
    case greater
    then have "unat n < j" using div_le_mono [of j "unat n" 8] by (meson leD not_le_imp_less)
    moreover have "j div 8 < unat n div 4096 * 512 + 512" using j by (simp add: less_mult_imp_div_less)
    moreover have "bit (0xff :: u8) (j mod 8)" by (rule ff_bit) simp
    ultimately show ?thesis using high greater by simp
  qed
  then show ?thesis using bs by (intro exI [of _ bs]) (simp add: bm_bit_def)
qed

subsection \<open>The areas of the partition\<close>

lemma format_bit_len_nat:
  assumes "700 \<le> unat cnt" and "unat cnt < 2 ^ 31"
  shows "unat (format_bit_len cnt) = unat cnt - 611 - (unat cnt - 611 + 4095) div 4096"
proof -
  let ?free = "cnt - 611"
  have f: "unat ?free = unat cnt - 611"
    using assms(1) by (subst unat_sub) (simp_all add: word_le_nat_alt)
  have d: "unat (DIV_ROUND_UP ?free 4096) = (unat cnt - 611 + 4095) div 4096"
    using assms by (subst DIV_ROUND_UP_nat) (simp_all add: f)
  have "DIV_ROUND_UP ?free 4096 \<le> ?free"
    unfolding word_le_nat_alt d f using assms(1) by (simp add: div_le_dividend Suc_le_eq)
  then have "unat (?free - DIV_ROUND_UP ?free 4096) = unat cnt - 611 - (unat cnt - 611 + 4095) div 4096"
    by (subst unat_sub) (simp_all add: f d)
  moreover have "format_bit_len cnt = ?free - DIV_ROUND_UP ?free 4096"
    by (simp add: format_bit_len_def Let_def MAX_FILES_PER_PART_def BITS_PER_SECTOR_def SECTOR_SIZE_def sizeof_inode_def DIV_ROUND_UP_def)
  ultimately show ?thesis by simp
qed

lemma format_areas_counts:
  "DIV_ROUND_UP MAX_FILES_PER_PART BITS_PER_SECTOR = 1" "DIV_ROUND_UP (sizeof_inode * MAX_FILES_PER_PART) SECTOR_SIZE = 608"
  by (simp_all add: MAX_FILES_PER_PART_def BITS_PER_SECTOR_def SECTOR_SIZE_def sizeof_inode_def DIV_ROUND_UP_def)

lemma format_super_block_fields:
  assumes "700 \<le> unat cnt" and "unat base + unat cnt < 2 ^ 31"
  defines "b \<equiv> format_super_block base cnt" and "r \<equiv> (unat (format_bit_len cnt) + 4095) div 4096"
  shows "unat (block_bitmap_lba b) = unat base + 2" "unat (block_bitmap_sects b) = r"
    "unat (inode_bitmap_lba b) = unat base + 2 + r" "inode_bitmap_sects b = 1"
    "unat (inode_table_lba b) = unat base + 3 + r" "inode_table_sects b = 608"
    "unat (data_start_lba b) = unat base + 611 + r" "dir_entry_size b = 24" "0 < r" "r \<le> unat cnt div 4096 + 1"
proof -
  have n: "unat (format_bit_len cnt) = unat cnt - 611 - (unat cnt - 611 + 4095) div 4096"
    by (rule format_bit_len_nat) (use assms(1,2) in simp_all)
  have "(unat cnt - 611 + 4095) div 4096 < unat cnt - 611" using assms(1) by (simp add: div_less_iff_less_mult)
  then have n0: "0 < unat (format_bit_len cnt)" "unat (format_bit_len cnt) \<le> unat cnt" using n by linarith+
  then show r: "0 < r" "r \<le> unat cnt div 4096 + 1"
    using div_le_mono [of "unat (format_bit_len cnt) + 4095" "unat cnt + 4096" 4096] by (simp_all add: r_def div_greater_zero_iff)
  have bs: "block_bitmap_sects b = DIV_ROUND_UP (format_bit_len cnt) 4096"
    by (simp add: b_def format_super_block_def Let_def BITS_PER_SECTOR_def)
  then show rs: "unat (block_bitmap_sects b) = r"
    using n0 assms(2) by (simp add: DIV_ROUND_UP_nat r_def)
  note f = b_def format_super_block_def Let_def format_areas_counts
  have bound: "unat base + 611 + r < 2 ^ 32" using r(2) assms(2) div_le_dividend [of "unat cnt" 4096] by simp
  have "block_bitmap_lba b = base + 2" by (simp add: f)
  then show l: "unat (block_bitmap_lba b) = unat base + 2" using bound by (simp add: unat_add_small)
  have "inode_bitmap_lba b = block_bitmap_lba b + block_bitmap_sects b" by (simp add: f)
  then show i: "unat (inode_bitmap_lba b) = unat base + 2 + r" using bound l rs by (simp add: unat_add_small)
  show "inode_bitmap_sects b = 1" "inode_table_sects b = 608" by (simp_all add: f)
  have "inode_table_lba b = inode_bitmap_lba b + 1" by (simp add: f)
  then show t: "unat (inode_table_lba b) = unat base + 3 + r" using bound i by (simp add: unat_add_small)
  have "data_start_lba b = inode_table_lba b + 608" by (simp add: f)
  then show "unat (data_start_lba b) = unat base + 611 + r" using bound t by (simp add: unat_add_small)
  show "dir_entry_size b = 24" by (simp add: f sizeof_entry_def)
qed

lemma two_roundings:
  fixes f :: nat
  assumes "89 \<le> f" and "f \<le> 2400000"
  defines "q \<equiv> (f + 4095) div 4096"
  defines "r \<equiv> (f - q + 4095) div 4096"
  shows "r + (f - q) = (if r * 4096 < f then f - 1 else f)"
proof -
  have q: "q * 4096 \<le> f + 4095" "f + 4095 < q * 4096 + 4096"
    unfolding q_def using dividend_less_div_times [of 4096 "f + 4095"] by simp_all
  have le: "q \<le> f" "q \<le> 586" using q assms(1,2) by linarith+
  have r: "r * 4096 \<le> f - q + 4095" "f - q + 4095 < r * 4096 + 4096"
    unfolding r_def using dividend_less_div_times [of 4096 "f - q + 4095"] by simp_all
  then have "q = r \<or> q = r + 1" using q r le assms(1,2) by linarith
  then show ?thesis
  proof
    assume "q = r"
    then show ?thesis using q le assms(1) by auto
  next
    assume "q = r + 1"
    then show ?thesis using q le assms(1) by auto
  qed
qed

text \<open>
  C23: the areas that \<open>partition_format\<close> lays out follow each other without gaps, and the blocks of the block bitmap fill the
  partition up to its last sector or the one before. The bitmap that is written says that block 0, the root directory, is taken, and the blocks up to
  number \<open>n\<close> are free, where the partition has the blocks 0 to \<open>n - 1\<close> only: when the two roundings of the size of
  the bitmap agree, the last free block is the sector after the partition.
\<close>

theorem format_layout:
  assumes "700 \<le> unat cnt" and "unat cnt \<le> 2400000" and "unat base + unat cnt < 2 ^ 31"
  defines "b \<equiv> format_super_block base cnt" and "n \<equiv> unat (format_bit_len cnt)"
  shows "unat (block_bitmap_lba b) = unat base + 2 \<and>
    unat (inode_bitmap_lba b) = unat (block_bitmap_lba b) + unat (block_bitmap_sects b) \<and>
    unat (inode_table_lba b) = unat (inode_bitmap_lba b) + unat (inode_bitmap_sects b) \<and>
    unat (data_start_lba b) = unat (inode_table_lba b) + unat (inode_table_sects b) \<and>
    unat (data_start_lba b) + n = (if unat (block_bitmap_sects b) * 4096 < unat cnt - 611
      then unat base + unat cnt - 1 else unat base + unat cnt) \<and>
    (\<exists>bs. format_block_bitmap (format_bit_len cnt) (unat (format_buf_size b)) = Some bs \<and>
      (\<forall>j < unat (block_bitmap_sects b) * 4096. bm_bit \<lparr>btmp_bytes_len = unat (block_bitmap_sects b) * 512, bits = bs\<rparr> j \<longleftrightarrow>
        j = 0 \<or> n < j))"
proof -
  let ?r = "(n + 4095) div 4096"
  note F = format_super_block_fields [OF assms(1,3), folded b_def, folded n_def]
  have n: "n = unat cnt - 611 - (unat cnt - 611 + 4095) div 4096"
    unfolding n_def by (rule format_bit_len_nat) (use assms(1,2) in simp_all)
  have n8: "8 \<le> n" using n assms(1) by linarith
  have "?r \<le> 586" using assms(2) n by linarith
  then have r: "?r \<le> 608" "n div 4096 \<le> 607" using assms(2) n by linarith+
  have "max (max (block_bitmap_sects b) 1) 608 = 608"
    using F(2) r(1) by (simp add: max_def word_le_nat_alt)
  then have sz: "unat (format_buf_size b) = 311296" by (simp add: format_buf_size_def F SECTOR_SIZE_def)
  obtain bs where bs: "format_block_bitmap (format_bit_len cnt) 311296 = Some bs"
      "\<forall>j < n div 4096 * 4096 + 4096. bm_bit \<lparr>btmp_bytes_len = ?r * 512, bits = bs\<rparr> j \<longleftrightarrow> (j = 0 \<and> 8 \<le> n) \<or> n < j"
    using format_block_bitmap_bits [of "format_bit_len cnt" 311296] r(2) unfolding n_def by auto
  have "?r \<le> n div 4096 + 1" using div_le_mono [of "n + 4095" "n + 4096" 4096] by simp
  then have "?r * 4096 \<le> (n div 4096 + 1) * 4096" by (rule mult_le_mono1)
  then have "?r * 4096 \<le> n div 4096 * 4096 + 4096" by (simp only: add_mult_distrib mult_1)
  then have "\<forall>j < ?r * 4096. bm_bit \<lparr>btmp_bytes_len = ?r * 512, bits = bs\<rparr> j \<longleftrightarrow> j = 0 \<or> n < j"
    using bs(2) n8 by simp
  moreover have "?r + n = (if ?r * 4096 < unat cnt - 611 then unat cnt - 611 - 1 else unat cnt - 611)"
    by (rule two_roundings [of "unat cnt - 611", folded n]) (use assms(1,2) in simp_all)
  then have "unat base + 611 + ?r + n = (if ?r * 4096 < unat cnt - 611 then unat base + unat cnt - 1 else unat base + unat cnt)"
    using assms(1) by (auto split: if_splits)
  ultimately show ?thesis using F bs(1) sz by simp
qed

theorem format_layout_witness:
  "unat (data_start_lba (format_super_block 63 2000)) + 1388 = 63 + 2000 \<and>
   (\<exists>bs. format_block_bitmap (format_bit_len 2000) (unat (format_buf_size (format_super_block 63 2000))) = Some bs \<and>
     \<not> bm_bit \<lparr>btmp_bytes_len = 512, bits = bs\<rparr> 1388)"
proof -
  have n: "unat (format_bit_len 2000) = 1388" "unat (block_bitmap_sects (format_super_block 63 2000)) = 1"
    by (simp_all add: format_bit_len_def format_super_block_def Let_def DIV_ROUND_UP_def MAX_FILES_PER_PART_def
      BITS_PER_SECTOR_def SECTOR_SIZE_def sizeof_inode_def)
  show ?thesis using format_layout [of 2000 63] unfolding n by auto
qed

subsection \<open>What the disk holds after formatting\<close>

lemma write_words_ok:
  assumes "store_ok dk s" and "0 < unat n" and "unat a + unat n \<le> 163840" and "unat n * 512 \<le> length buf"
  shows "\<exists>s'. ide_write dk a buf n s = Some s' \<and> store_ok dk s' \<and> off_disk dk s' = off_disk dk s \<and>
    (\<forall>m. media s' dk m = (if unat a \<le> m \<and> m < unat a + unat n then bytes_at ((m - unat a) * 512) 512 buf else media s dk m))"
  using bs.write_ok [OF assms] by simp

definition formatted :: "super_block \<Rightarrow> u32 \<Rightarrow> u8 list \<Rightarrow> (nat \<Rightarrow> u8 list) \<Rightarrow> bool" where
  "formatted b bit_len pad d \<longleftrightarrow> d (unat (part_lba_base b) + 1) = super_block_bytes b pad \<and>
     (\<exists>bm. format_block_bitmap bit_len 311296 = Some bm \<and>
       (\<forall>i < unat (block_bitmap_sects b). d (unat (block_bitmap_lba b) + i) = bytes_at (i * 512) 512 bm)) \<and>
     d (unat (inode_bitmap_lba b)) = 1 # replicate 511 0 \<and>
     d (unat (inode_table_lba b)) = inode_bytes (root_inode b) @ replicate 436 0 \<and>
     (\<forall>i. 0 < i \<longrightarrow> i < 608 \<longrightarrow> d (unat (inode_table_lba b) + i) = replicate 512 0) \<and>
     d (unat (data_start_lba b)) = dot_entries 0 0 @ replicate 464 0"

lemma length_dot_entries: "length (dot_entries i p) = 48"
  by (simp add: dot_entries_def entry_bytes_def)

lemma length_root_inode: "length (inode_bytes (root_inode b)) = 76"
  by (simp add: inode_bytes_def root_inode_def zero_inode_def inode_of_bytes_def)

lemma buffer_head:
  assumes "length p \<le> 512" and "512 \<le> sz"
  shows "take 512 (put_bytes (replicate sz 0) 0 p) = p @ replicate (512 - length p) 0"
  using assms by (simp add: put_bytes_def min_def)

lemma buffer_mark:
  assumes "512 \<le> sz"
  shows "take 512 ((replicate sz (0 :: u8))[0 := 1]) = 1 # replicate 511 0"
proof -
  obtain m where "sz = Suc m" using assms by (cases sz) simp_all
  then show ?thesis using assms by (simp add: take_Cons' min_def)
qed

lemma buffer_rest:
  assumes "length p \<le> 512" and "0 < i" and "(i + 1) * 512 \<le> sz"
  shows "bytes_at (i * 512) 512 (put_bytes (replicate sz 0) 0 p) = replicate 512 0"
proof -
  have "512 \<le> i * 512" using assms(2) by (cases i) simp_all
  then show ?thesis using assms by (intro nth_equalityI) (simp_all add: nth_put_bytes)
qed

lemma format_areas_written:
  assumes c: "700 \<le> unat cnt" "unat base + unat cnt \<le> 163840" and ok: "store_ok dk s"
    and sb: "media s dk (unat base + 1) = super_block_bytes (format_super_block base cnt) pad"
  defines "b \<equiv> format_super_block base cnt"
  shows "\<exists>s'. format_areas b (format_bit_len cnt) dk 311296 s = Some s' \<and> store_ok dk s' \<and>
    off_disk dk s' = off_disk dk s \<and> formatted b (format_bit_len cnt) pad (media s' dk)"
proof -
  define sz :: nat where sz: "sz = 311296"
  define r where r: "r = (unat (format_bit_len cnt) + 4095) div 4096"
  define u where u: "u = unat base"
  have "unat base + unat cnt < 2 ^ 31" using c(2) by simp
  note F = format_super_block_fields [OF c(1) this, folded b_def, folded r u]
  have r1: "0 < r" "u + 612 + r \<le> 163840" "r \<le> 607"
    using F c by (simp_all add: u)
  have "unat (format_bit_len cnt) div 4096 \<le> r" unfolding r by (rule div_le_mono) simp
  then have "unat (format_bit_len cnt) div 4096 * 512 + 512 \<le> sz" using r1(3) sz by simp
  then obtain bm where bm: "format_block_bitmap (format_bit_len cnt) sz = Some bm" "length bm = sz"
    using format_block_bitmap_bits by blast
  have sz5: "512 \<le> sz" "608 * 512 \<le> sz" "r * 512 \<le> sz" using sz r1(3) by simp_all
  let ?B2 = "(replicate sz (0 :: u8))[0 := 1]" let ?B3 = "put_bytes (replicate sz 0) 0 (inode_bytes (root_inode b))"
  let ?B4 = "put_bytes (replicate sz 0) 0 (dot_entries 0 0)"
  obtain s1 where s1: "ide_write dk (block_bitmap_lba b) bm (block_bitmap_sects b) s = Some s1" "store_ok dk s1"
      "off_disk dk s1 = off_disk dk s"
      "\<forall>m. media s1 dk m = (if u + 2 \<le> m \<and> m < u + 2 + r then bytes_at ((m - (u + 2)) * 512) 512 bm else media s dk m)"
    using write_words_ok [OF ok, of "block_bitmap_sects b" "block_bitmap_lba b" bm] F r1 bm(2) sz5 c by (auto simp: u)
  have lt: "unat (inode_bitmap_lba b) < 163840" "unat (data_start_lba b) < 163840" using F r1 c by (simp_all add: u)
  obtain s2 where s2: "ide_write dk (inode_bitmap_lba b) ?B2 1 s1 = Some s2" "store_ok dk s2" "off_disk dk s2 = off_disk dk s1"
      "\<forall>m. media s2 dk m = (if m = unat (inode_bitmap_lba b) then take 512 ?B2 else media s1 dk m)"
    using write_sector_ok [OF s1(2) lt(1), of ?B2] sz5(1) by auto
  obtain s3 where s3: "ide_write dk (inode_table_lba b) ?B3 608 s2 = Some s3" "store_ok dk s3" "off_disk dk s3 = off_disk dk s2"
      "\<forall>m. media s3 dk m = (if u + 3 + r \<le> m \<and> m < u + 611 + r then bytes_at ((m - (u + 3 + r)) * 512) 512 ?B3 else media s2 dk m)"
    using write_words_ok [OF s2(2), of 608 "inode_table_lba b" ?B3] F r1 sz5 c by (auto simp: u length_root_inode)
  obtain s4 where s4: "ide_write dk (data_start_lba b) ?B4 1 s3 = Some s4" "store_ok dk s4" "off_disk dk s4 = off_disk dk s3"
      "\<forall>m. media s4 dk m = (if m = unat (data_start_lba b) then take 512 ?B4 else media s3 dk m)"
    using write_sector_ok [OF s3(2) lt(2), of ?B4] sz5(1) by (auto simp: length_dot_entries)
  have "format_areas b (format_bit_len cnt) dk sz s = Some s4"
    using bm(1) s1(1) s2(1) s3(1) s4(1) F c sz5
    by (simp add: format_areas_def Let_def length_root_inode length_dot_entries)
  moreover have "formatted b (format_bit_len cnt) pad (media s4 dk)"
    unfolding formatted_def sz [symmetric]
  proof (intro conjI allI impI exI [of _ bm])
    have ne: "media s4 dk (u + 1) = media s dk (u + 1)" using s1(4) s2(4) s3(4) s4(4) F c by (simp add: u)
    have "part_lba_base b = base" by (simp add: b_def format_super_block_def Let_def)
    then show "media s4 dk (unat (part_lba_base b) + 1) = super_block_bytes b pad" using ne sb by (simp add: u b_def)
    show "format_block_bitmap (format_bit_len cnt) sz = Some bm" by (rule bm(1))
    show "media s4 dk (unat (block_bitmap_lba b) + i) = bytes_at (i * 512) 512 bm" if "i < unat (block_bitmap_sects b)" for i
      using that s1(4) s2(4) s3(4) s4(4) F c by (simp add: u)
    show "media s4 dk (unat (inode_bitmap_lba b)) = 1 # replicate 511 0"
      using s2(4) s3(4) s4(4) F c buffer_mark [OF sz5(1)] by (simp add: u)
    show "media s4 dk (unat (inode_table_lba b)) = inode_bytes (root_inode b) @ replicate 436 0"
      using s3(4) s4(4) F c buffer_head [of "inode_bytes (root_inode b)", OF _ sz5(1)]
      by (simp add: u length_root_inode bytes_at_def)
    show "media s4 dk (unat (inode_table_lba b) + i) = replicate 512 0" if "0 < i" "i < 608" for i
    proof -
      have "(i + 1) * 512 \<le> sz" using that(2) sz by simp
      then show ?thesis using that s3(4) s4(4) F c buffer_rest [of "inode_bytes (root_inode b)" i sz]
        by (simp add: u length_root_inode)
    qed
    show "media s4 dk (unat (data_start_lba b)) = dot_entries 0 0 @ replicate 464 0"
      using s4(4) buffer_head [of "dot_entries 0 0", OF _ sz5(1)] by (simp add: length_dot_entries)
  qed
  moreover have "off_disk dk s4 = off_disk dk s" using s1(3) s2(3) s3(3) s4(3) by simp
  ultimately show ?thesis using s4(2) unfolding sz by blast
qed

subsection \<open>Mounting what was formatted\<close>

lemma super_block_of_bytes: "super_block_of (super_block_bytes b pad) = b"
proof -
  let ?ws = "[magic b, sb_sec_cnt b, inode_cnt b, part_lba_base b, block_bitmap_lba b, block_bitmap_sects b, inode_bitmap_lba b,
    inode_bitmap_sects b, inode_table_lba b, inode_table_sects b, data_start_lba b, root_inode_no b, dir_entry_size b]"
  have len: "length ?ws = 13" by simp
  have "u32s_of 13 (super_block_bytes b pad) = ?ws"
    using u32s_of_le32s [of ?ws pad] unfolding super_block_bytes_def len .
  then show ?thesis by (simp add: super_block_of_def Let_def)
qed

lemma chunks_take: "n * 512 \<le> length bs \<Longrightarrow> concat (map (\<lambda>i. bytes_at (i * 512) 512 bs) [0..<n]) = take (n * 512) bs"
proof (induction n)
  case (Suc n)
  then show ?case using take_add [of "n * 512" 512 bs] by (simp add: bytes_at_def add.commute)
qed simp

lemma fs_malloc_ready:
  assumes "heap_ready (kern s) L (Suc k)" and "small n"
  shows "\<exists>a k'. fs_malloc n s = Some (a, s\<lparr>kern := k'\<rparr>) \<and> a \<noteq> 0 \<and> heap_ready k' (insert a L) k \<and> heap_frame (kern s) k'"
proof -
  obtain a k' where "sys_malloc n (kern s) = Some (a, k')" "a \<noteq> 0" "heap_ready k' (insert a L) k" "heap_frame (kern s) k'"
    using kh.malloc_ready [OF assms] by blast
  then show ?thesis by (auto simp: fs_malloc_def)
qed

lemma load_bitmap_ok:
  assumes "store_ok dk s" and "heap_ready (kern s) L (Suc k)" and n: "0 < unat n" "unat n \<le> 2" and "unat lba + unat n \<le> 163840"
    and "\<And>i. i < unat n \<Longrightarrow> media s dk (unat lba + i) = bytes_at (i * 512) 512 bm" and "unat n * 512 \<le> length bm"
  shows "\<exists>a k'. load_bitmap dk lba n s = Some (\<lparr>btmp_bytes_len = unat n * 512, bits = take (unat n * 512) bm\<rparr>, s\<lparr>kern := k'\<rparr>) \<and>
    heap_ready k' (insert a L) k \<and> heap_frame (kern s) k'"
proof -
  have sz: "unat (n * SECTOR_SIZE) = unat n * 512" using n(2) by (simp add: SECTOR_SIZE_def unat_mult_small)
  then have "small (n * SECTOR_SIZE)" using n by (simp add: small_def)
  from fs_malloc_ready [OF assms(2) this] obtain a k' where m: "fs_malloc (n * SECTOR_SIZE) s = Some (a, s\<lparr>kern := k'\<rparr>)" "a \<noteq> 0"
      "heap_ready k' (insert a L) k" "heap_frame (kern s) k'" by blast
  have "store_ok dk (s\<lparr>kern := k'\<rparr>)" using store_ok_frame [OF m(4)] assms(1) by simp
  from bs.read_ok [OF this n(1) assms(5)]
  have "ide_read dk lba n (s\<lparr>kern := k'\<rparr>) = Some (concat (map (media s dk) [unat lba..<unat lba + unat n]), s\<lparr>kern := k'\<rparr>)" by simp
  moreover have "map (media s dk) [unat lba..<unat lba + unat n] = map (\<lambda>i. bytes_at (i * 512) 512 bm) [0..<unat n]"
    by (rule nth_equalityI) (use assms(6) in simp_all)
  then have "concat (map (media s dk) [unat lba..<unat lba + unat n]) = take (unat n * 512) bm"
    using chunks_take [OF assms(7)] by simp
  ultimately show ?thesis using m sz by (auto simp: load_bitmap_def)
qed

lemma formatted_bits:
  assumes "format_block_bitmap n 311296 = Some bm" and "700 \<le> unat n + 612" and "unat n \<le> 8192" and r: "r = (unat n + 4095) div 4096"
  shows "bm_free \<lparr>btmp_bytes_len = r * 512, bits = take (r * 512) bm\<rparr> = {1..unat n} \<inter> {..<r * 4096}" and "length bm = 311296"
proof -
  have "unat n div 4096 * 512 + 512 \<le> (311296 :: nat)" using assms(3) by linarith
  from format_block_bitmap_bits [OF this, of 0]
  have bm: "length bm = 311296" "\<forall>j < unat n div 4096 * 4096 + 4096. bm_bit \<lparr>btmp_bytes_len = 0, bits = bm\<rparr> j \<longleftrightarrow> (j = 0 \<and> 8 \<le> unat n) \<or> unat n < j"
    using assms(1) by auto
  then show "length bm = 311296" by simp
  have "r \<le> unat n div 4096 + 1" unfolding r using div_le_mono [of "unat n + 4095" "unat n + 4096" 4096] by simp
  then have "r * 4096 \<le> (unat n div 4096 + 1) * 4096" by (rule mult_le_mono1)
  then have le: "r * 4096 \<le> unat n div 4096 * 4096 + 4096" by (simp only: add_mult_distrib mult_1)
  have "bm_bit \<lparr>btmp_bytes_len = r * 512, bits = take (r * 512) bm\<rparr> j \<longleftrightarrow> j = 0 \<or> unat n < j" if "j < r * 4096" for j
  proof -
    have "j div 8 < r * 512" using that by (simp add: div_less_iff_less_mult)
    then have "bm_bit \<lparr>btmp_bytes_len = r * 512, bits = take (r * 512) bm\<rparr> j = bm_bit \<lparr>btmp_bytes_len = 0, bits = bm\<rparr> j"
      by (simp add: bm_bit_def)
    then show ?thesis using bm(2) that le assms(2) by auto
  qed
  then show "bm_free \<lparr>btmp_bytes_len = r * 512, bits = take (r * 512) bm\<rparr> = {1..unat n} \<inter> {..<r * 4096}"
    by (auto simp: bm_free_def bm_size_def)
qed

lemma inode_bitmap_free: "bm_free \<lparr>btmp_bytes_len = 512, bits = 1 # replicate 511 0\<rparr> = {1..<4096}"
proof -
  have "bm_bit \<lparr>btmp_bytes_len = 512, bits = 1 # replicate 511 0\<rparr> j \<longleftrightarrow> j = 0" if "j < 4096" for j
  proof (cases "j div 8")
    case 0
    then show ?thesis by (auto simp: bm_bit_def bit_1_iff div_eq_0_iff)
  next
    case (Suc m)
    then have "m < 511" "j \<noteq> 0" using that div_less_iff_less_mult [of 8 j 512] by auto
    then show ?thesis using Suc by (simp add: bm_bit_def)
  qed
  then show ?thesis by (auto simp: bm_free_def bm_size_def)
qed

lemma mount_partition_reads:
  assumes ok: "store_ok dk s" and heap: "heap_ready (kern s) L (Suc (Suc (Suc (Suc k))))"
    and p: "my_disk (parts s part) = dk" "strcmp_loop (part_name (parts s part)) 0 nm 0 = Some 0" "unat (start_lba (parts s part)) + 1 < 163840"
    and d: "media s dk (unat (start_lba (parts s part) + 1)) = super_block_bytes b pad"
    and bb: "0 < unat (block_bitmap_sects b)" "unat (block_bitmap_sects b) \<le> 2" "unat (block_bitmap_lba b) + unat (block_bitmap_sects b) \<le> 163840"
      "\<And>i. i < unat (block_bitmap_sects b) \<Longrightarrow> media s dk (unat (block_bitmap_lba b) + i) = bytes_at (i * 512) 512 bm"
      "unat (block_bitmap_sects b) * 512 \<le> length bm"
    and ib: "inode_bitmap_sects b = 1" "unat (inode_bitmap_lba b) < 163840" "media s dk (unat (inode_bitmap_lba b)) = im"
  shows "\<exists>L' k'. mount_partition part nm s = Some (True, upd_part part (\<lambda>p. p\<lparr>sb := Some b,
      block_bitmap := \<lparr>btmp_bytes_len = unat (block_bitmap_sects b) * 512, bits = take (unat (block_bitmap_sects b) * 512) bm\<rparr>,
      inode_bitmap := \<lparr>btmp_bytes_len = 512, bits = im\<rparr>, open_inodes := []\<rparr>) (s\<lparr>cur_part := part, kern := k'\<rparr>)) \<and>
    heap_ready k' L' k \<and> heap_frame (kern s) k'"
proof -
  let ?s0 = "s\<lparr>cur_part := part\<rparr>" let ?n = "block_bitmap_sects b"
  have ok0: "store_ok dk ?s0" using ok by (simp add: store_ok_def disk_ready_def drive_ok_def whole_sectors_def)
  obtain a1 k1 where m1: "fs_malloc SECTOR_SIZE ?s0 = Some (a1, ?s0\<lparr>kern := k1\<rparr>)" "a1 \<noteq> 0"
      "heap_ready k1 (insert a1 L) (Suc (Suc (Suc k)))" "heap_frame (kern s) k1"
    using fs_malloc_ready [of ?s0 L "Suc (Suc (Suc k))" SECTOR_SIZE] heap small_sizes(2) by (auto simp: SECTOR_SIZE_def)
  obtain a2 k2 where m2: "fs_malloc 512 (?s0\<lparr>kern := k1\<rparr>) = Some (a2, ?s0\<lparr>kern := k2\<rparr>)" "a2 \<noteq> 0"
      "heap_ready k2 (insert a2 (insert a1 L)) (Suc (Suc k))" "heap_frame k1 k2"
    using fs_malloc_ready [of "?s0\<lparr>kern := k1\<rparr>" "insert a1 L" "Suc (Suc k)" 512] m1(3) small_sizes(2) by auto
  have f2: "heap_frame (kern s) k2" using heap_frame_trans [OF m1(4) m2(4)] .
  have ok2: "store_ok dk (?s0\<lparr>kern := k2\<rparr>)" using store_ok_frame [of ?s0 k2 dk] f2 ok0 by simp
  have lba: "unat (start_lba (parts s part) + 1) = unat (start_lba (parts s part)) + 1" using p(3) by (simp add: unat_add_small)
  then have rd: "ide_read dk (start_lba (parts s part) + 1) 1 (?s0\<lparr>kern := k2\<rparr>) = Some (super_block_bytes b pad, ?s0\<lparr>kern := k2\<rparr>)"
    using read_sector_ok(1) [OF ok2, of "start_lba (parts s part) + 1"] d p(3) by (simp add: on_disk_def)
  let ?s2 = "upd_part part (\<lambda>p. p\<lparr>sb := Some b\<rparr>) (?s0\<lparr>kern := k2\<rparr>)"
  obtain a3 k3 where m3: "load_bitmap dk (block_bitmap_lba b) ?n ?s2 =
        Some (\<lparr>btmp_bytes_len = unat ?n * 512, bits = take (unat ?n * 512) bm\<rparr>, ?s2\<lparr>kern := k3\<rparr>)"
      "heap_ready k3 (insert a3 (insert a2 (insert a1 L))) (Suc k)" "heap_frame k2 k3"
    using load_bitmap_ok [of dk ?s2 "insert a2 (insert a1 L)" "Suc k" ?n "block_bitmap_lba b" bm] ok2 m2(3) bb by auto
  have f3: "heap_frame (kern s) k3" using heap_frame_trans [OF f2 m3(3)] .
  let ?s3 = "upd_part part (\<lambda>p. p\<lparr>block_bitmap := \<lparr>btmp_bytes_len = unat ?n * 512, bits = take (unat ?n * 512) bm\<rparr>\<rparr>) (?s2\<lparr>kern := k3\<rparr>)"
  have ok3: "store_ok dk ?s3" using store_ok_frame [of ?s2 k3 dk] m3(3) ok2 by simp
  have l: "length im = 512" using bs.sec_len [OF ok] ib(3) by auto
  obtain a4 k4 where m4: "load_bitmap dk (inode_bitmap_lba b) 1 ?s3 = Some (\<lparr>btmp_bytes_len = 512, bits = im\<rparr>, ?s3\<lparr>kern := k4\<rparr>)"
      "heap_ready k4 (insert a4 (insert a3 (insert a2 (insert a1 L)))) k" "heap_frame k3 k4"
    using load_bitmap_ok [of dk ?s3 "insert a3 (insert a2 (insert a1 L))" k 1 "inode_bitmap_lba b" im] ok3 m3(2) ib l by (auto simp: bytes_at_def)
  have "mount_partition part nm s = Some (True, upd_part part (\<lambda>p. p\<lparr>inode_bitmap := \<lparr>btmp_bytes_len = 512, bits = im\<rparr>, open_inodes := []\<rparr>) (?s3\<lparr>kern := k4\<rparr>))"
    using p(1,2) m1(1,2) m2(1,2) rd m3(1) m4(1) ib(1) by (simp add: mount_partition_def super_block_of_bytes)
  also have "upd_part part (\<lambda>p. p\<lparr>inode_bitmap := \<lparr>btmp_bytes_len = 512, bits = im\<rparr>, open_inodes := []\<rparr>) (?s3\<lparr>kern := k4\<rparr>) =
      upd_part part (\<lambda>p. p\<lparr>sb := Some b, block_bitmap := \<lparr>btmp_bytes_len = unat ?n * 512, bits = take (unat ?n * 512) bm\<rparr>,
      inode_bitmap := \<lparr>btmp_bytes_len = 512, bits = im\<rparr>, open_inodes := []\<rparr>) (s\<lparr>cur_part := part, kern := k4\<rparr>)"
    by (simp add: upd_part_def)
  finally show ?thesis using m4(2) heap_frame_trans [OF f3 m4(3)] by blast
qed

subsection \<open>The root directory\<close>

lemma root_slots:
  "dir_slots (dot_entries 0 0 @ replicate 464 0) =
    \<lparr>filename = [0x2e] @ replicate 15 0, entry_i_no = 0, f_type = FT_DIRECTORY\<rparr> #
    \<lparr>filename = [0x2e, 0x2e] @ replicate 14 0, entry_i_no = 0, f_type = FT_DIRECTORY\<rparr> # replicate 19 zero_entry"
    (is "dir_slots ?d = ?e # ?e' # _")
proof (rule nth_equalityI)
  fix i assume "i < length (dir_slots ?d)"
  then have i: "i < 21" by simp
  consider "i = 0" | "i = 1" | j where "i = j + 2" by (metis One_nat_def add_2_eq_Suc' not0_implies_Suc)
  then show "dir_slots ?d ! i = (?e # ?e' # replicate 19 zero_entry) ! i"
  proof cases
    case 3
    have "bytes_at (24 * i) 24 ?d = replicate 24 0"
      using 3 i by (simp add: bytes_at_def length_dot_entries drop_append min_def)
    then show ?thesis using 3 i by (simp add: nth_dir_slots zero_entry_def)
  qed (simp_all add: nth_dir_slots dot_entries_def bytes_at_def entry_bytes_def entry_of_bytes_def)
qed simp

lemma root_lookup:
  assumes "name_ok nm"
  shows "map_option entry_i_no (find (named nm) (dir_slots (dot_entries 0 0 @ replicate 464 0))) =
    (if nm = [0x2e] \<or> nm = [0x2e, 0x2e] then Some 0 else None)"
proof -
  have "named nm \<lparr>filename = [0x2e] @ replicate 15 0, entry_i_no = 0, f_type = FT_DIRECTORY\<rparr> \<longleftrightarrow> nm = [0x2e]"
    by (rule named_entry_for [OF _ assms]) (simp add: entry_for_def name_ok_def free_slot_of_def FT_DIRECTORY_def FT_UNKNOWN_def)
  moreover have "named nm \<lparr>filename = [0x2e, 0x2e] @ replicate 14 0, entry_i_no = 0, f_type = FT_DIRECTORY\<rparr> \<longleftrightarrow> nm = [0x2e, 0x2e]"
    by (rule named_entry_for [OF _ assms]) (simp add: entry_for_def name_ok_def free_slot_of_def FT_DIRECTORY_def FT_UNKNOWN_def)
  moreover have "find (named nm) (replicate n zero_entry) = None" for n
    using named_zero [OF assms] by (simp add: find_None_iff)
  moreover have "[0x2e :: u8] \<noteq> [0x2e, 0x2e]" by simp
  ultimately show ?thesis unfolding root_slots find.simps by (simp only: split: if_split) simp
qed

lemma root_inode_simps:
  "length (i_sectors (root_inode b)) = 13" "inode_tag (root_inode b) = None" "i_sectors (root_inode b) ! 12 = 0"
  "take 12 (i_sectors (root_inode b)) = data_start_lba b # replicate 11 0"
proof -
  have "(replicate 13 (0 :: u32))[0 := x] = x # replicate 12 0" for x by (simp add: numeral_eq_Suc)
  then show "length (i_sectors (root_inode b)) = 13" "inode_tag (root_inode b) = None" "i_sectors (root_inode b) ! 12 = 0"
    "take 12 (i_sectors (root_inode b)) = data_start_lba b # replicate 11 0"
    by (simp_all add: root_inode_def zero_inode_def inode_of_zeros min_def)
qed

text \<open>A mounted partition, when its disk is as formatting leaves it and its bitmaps are those of the disk.\<close>

lemma mounted_formatted:
  assumes c': "700 \<le> unat (sec_cnt p)" "unat (start_lba p) + unat (sec_cnt p) \<le> 163840"
  defines "b \<equiv> format_super_block (start_lba p) (sec_cnt p)" and "n \<equiv> format_bit_len (sec_cnt p)" and "dk \<equiv> my_disk p"
    and "u \<equiv> unat (start_lba p)" and "r \<equiv> (unat (format_bit_len (sec_cnt p)) + 4095) div 4096"
  assumes p3: "parts s3 part = p\<lparr>sb := Some b, block_bitmap := bb, inode_bitmap := ib, open_inodes := []\<rparr>"
    and bb: "btmp_bytes_len bb = r * 512" "length (bits bb) = r * 512" "0 \<notin> bm_free bb"
    and ok3: "store_ok dk s3" and d: "formatted b n pad (media s3 dk)" and r2: "r \<le> 2" "u \<le> 150000"
  shows "table_ok part b s3" and "direct_dir part b (root_inode b) s3" and "disk_inode part b s3 0 = root_inode b"
    and "\<forall>nm. name_ok nm \<longrightarrow> map_option entry_i_no (lookup part (root_inode b) s3 nm) =
      (if nm = [0x2e] \<or> nm = [0x2e, 0x2e] then Some 0 else None)"
proof -
  have "unat (start_lba p) + unat (sec_cnt p) < 2 ^ 31" using c'(2) by simp
  note F = format_super_block_fields [OF c'(1) this, folded b_def u_def r_def]
  show "table_ok part b s3" using F ok3 c' r2 by (simp add: table_ok_def p3 dk_def u_def [symmetric])
  have vol: "volume_ok part b s3"
    using F ok3 r2 bb by (simp add: volume_ok_def p3 dk_def bm_wf_def bm_size_def)
  have "used_block part b s3 (data_start_lba b)"
  proof -
    have "0 < r * 4096" using F(9) by simp
    then show ?thesis using bb by (simp add: used_block_def p3 bm_size_def bm_free_def)
  qed
  then show dir: "direct_dir part b (root_inode b) s3"
    using vol F(8) by (simp add: direct_dir_def root_inode_simps)
  have "media s3 dk (unat (data_start_lba b)) = dot_entries 0 0 @ replicate 464 0" using d by (simp add: p3 formatted_def)
  moreover have "data_start_lba b \<noteq> 0" using F(7) by auto
  moreover have "dir_list dk s3 (replicate j 0) = []" for j by (induction j) simp_all
  ultimately have "entries part (root_inode b) s3 = dir_slots (dot_entries 0 0 @ replicate 464 0)"
    unfolding direct_entries [OF dir] by (simp add: root_inode_simps p3 dk_def)
  then show "\<forall>nm. name_ok nm \<longrightarrow> map_option entry_i_no (lookup part (root_inode b) s3 nm) =
      (if nm = [0x2e] \<or> nm = [0x2e, 0x2e] then Some 0 else None)"
    using root_lookup unfolding lookup_def by metis
  have "media s3 dk (unat (inode_table_lba b)) = inode_bytes (root_inode b) @ replicate 436 0" using d by (simp add: p3 formatted_def)
  then have "bs.byte dk s3 (unat (inode_table_lba b) * 512 + j) = inode_bytes (root_inode b) ! j" if "j < 76" for j
    using that by (simp add: bs.byte_def length_root_inode nth_append)
  then have "inode_slot part b s3 0 = inode_bytes (root_inode b)"
    by (intro nth_equalityI) (simp_all add: inode_slot_def length_root_inode p3 dk_def)
  then show "disk_inode part b s3 0 = root_inode b"
    by (simp add: disk_inode_def inode_roundtrip root_inode_simps)
qed


definition demo_blank :: fs_state where
  "demo_blank = demo_fs\<lparr>parts := \<lambda>r. demo_part\<lparr>part_name := default_part\<rparr>\<rparr>"


end
