(* ===== verification/Dir_Delete.thy ===== *)
theory Dir_Delete
  imports Dir_Spec
begin

text \<open>
  Removing an entry from a directory (\<open>delete_dir_entry\<close> of \<open>fs/dir.c\<close>): the entry with the number of an inode is
  cleared, or its block is given back when it holds nothing else; the name is gone, the others stay.
\<close>

subsection \<open>Scanning a sector\<close>

text \<open>The entries that are counted, and the one that is to go.\<close>

definition dot_name :: "u8 list" where "dot_name = [0x2e]"
definition dotdot_name :: "u8 list" where "dotdot_name = [0x2e, 0x2e]"

definition is_dot :: "dir_entry \<Rightarrow> bool" where
  "is_dot e \<longleftrightarrow> \<not> free_slot_of e \<and> named dot_name e"

definition counts :: "dir_entry \<Rightarrow> bool" where
  "counts e \<longleftrightarrow> \<not> free_slot_of e \<and> \<not> named dot_name e \<and> \<not> named dotdot_name e"

definition target :: "u32 \<Rightarrow> dir_entry \<Rightarrow> bool" where
  "target n e \<longleftrightarrow> counts e \<and> entry_i_no e = n"

lemma sector_slot:
  assumes "length d = 512" and "512 \<le> length io" and "i < 21"
  shows "dir_e (put_bytes io 0 d) i = Some (dir_slots d ! i)"
    and "cstr_at mem 0 nm \<Longrightarrow> length nm \<le> 15 \<Longrightarrow>
      \<exists>r. strcmp_loop (put_bytes io 0 d) (sizeof_entry * i) mem 0 = Some r \<and> (r = 0 \<longleftrightarrow> named nm (dir_slots d ! i))"
proof -
  have b: "bytes_at (24 * i) k (put_bytes io 0 d) = bytes_at (24 * i) k d" if "24 * i + k \<le> 512" for k
    using that assms(1,2) by (simp add: bytes_at_def put_bytes_def)
  show "dir_e (put_bytes io 0 d) i = Some (dir_slots d ! i)"
    using assms b [of 24] by (simp add: dir_e_def sizeof_entry_def nth_dir_slots)
  show "\<exists>r. strcmp_loop (put_bytes io 0 d) (sizeof_entry * i) mem 0 = Some r \<and> (r = 0 \<longleftrightarrow> named nm (dir_slots d ! i))"
    if "cstr_at mem 0 nm" "length nm \<le> 15"
    using strcmp_with_name [OF that(1), of "24 * i" "put_bytes io 0 d"] that(2) b [of "length nm + 1"] assms
      named_bytes [OF assms(3,1) that(2)]
    by (auto simp: sizeof_entry_def)
qed

text \<open>What the scan of a sector finds, when at most one entry of it, \<open>j\<close>, has the number.\<close>

lemma scan_sector_finds:
  assumes d: "length d = 512" "512 \<le> length io" and "i + k = 21"
    and "\<forall>m < 21. i \<le> m \<longrightarrow> target n (dir_slots d ! m) \<longrightarrow> m = j \<and> found = None"
  shows "scan_sector (put_bytes io 0 d) n i k first cnt found =
    Some (first \<or> (\<exists>e \<in> set (drop i (dir_slots d)). is_dot e),
      cnt + word_of_nat (length (filter counts (drop i (dir_slots d)))),
      if \<exists>e \<in> set (drop i (dir_slots d)). target n e then Some j else found)"
  using assms(3,4)
proof (induction k arbitrary: i first cnt found)
  case (Suc k)
  then have i: "i < 21" "i + 1 + k = 21" by simp_all
  let ?e = "dir_slots d ! i"
  have dr: "drop i (dir_slots d) = ?e # drop (i + 1) (dir_slots d)" using i by (simp add: Cons_nth_drop_Suc)
  note slot = sector_slot [OF d i(1)]
  have c: "cstr_at dot 0 dot_name" "cstr_at dotdot 0 dotdot_name" "length dot_name \<le> 15" "length dotdot_name \<le> 15"
    by (simp_all add: dot_def dotdot_def dot_name_def dotdot_name_def)
  obtain r1 where r1: "strcmp_loop (put_bytes io 0 d) (sizeof_entry * i) dot 0 = Some r1" "r1 = 0 \<longleftrightarrow> named dot_name ?e"
    using slot(2) [OF c(1,3)] by blast
  obtain r2 where r2: "strcmp_loop (put_bytes io 0 d) (sizeof_entry * i) dotdot 0 = Some r2" "r2 = 0 \<longleftrightarrow> named dotdot_name ?e"
    using slot(2) [OF c(2,4)] by blast
  have used: "f_type ?e \<noteq> FT_UNKNOWN \<longleftrightarrow> \<not> free_slot_of ?e" by (simp add: free_slot_of_def)
  have later: "\<forall>m < 21. i + 1 \<le> m \<longrightarrow> target n (dir_slots d ! m) \<longrightarrow> m = j \<and> found = None" using Suc.prems(2) by simp
  show ?case
  proof (cases "target n ?e")
    case False
    note IH = Suc.IH [OF i(2) later]
    show ?thesis
      using slot(1) r1 r2 used False IH unfolding dr
      by (cases "free_slot_of ?e"; cases "named dot_name ?e"; cases "named dotdot_name ?e")
        (auto simp: is_dot_def counts_def target_def)
  next
    case True
    then have t: "i = j" "found = None" "counts ?e" "entry_i_no ?e = n" using Suc.prems(2) i(1) by (auto simp: target_def)
    have "\<forall>m < 21. i + 1 \<le> m \<longrightarrow> target n (dir_slots d ! m) \<longrightarrow> m = j \<and> Some i = None"
      using Suc.prems(2) t(1) by force
    note IH = Suc.IH [OF i(2) this]
    show ?thesis
      using slot(1) r1 r2 used t True IH unfolding dr by (auto simp: is_dot_def counts_def)
  qed
qed simp

subsection \<open>The loop over the blocks\<close>

lemma delete_blocks_skip:
  assumes "store_ok (my_disk (parts s part)) s" and "idx \<le> j" and "512 \<le> length io_buf"
    and "\<forall>m. idx \<le> m \<longrightarrow> m < j \<longrightarrow> all_blocks ! m \<noteq> 0 \<longrightarrow> on_disk (all_blocks ! m) \<and>
      (\<forall>e \<in> set (dir_slots (media s (my_disk (parts s part)) (unat (all_blocks ! m)))). \<not> target n e)"
  shows "\<exists>io'. length io' = length io_buf \<and>
    delete_blocks part ia n 24 all_blocks idx (j - idx + k) io_buf s = delete_blocks part ia n 24 all_blocks j k io' s"
  using assms(2-4)
proof (induction "j - idx" arbitrary: idx io_buf)
  case (Suc m)
  let ?dk = "my_disk (parts s part)" let ?a = "all_blocks ! idx" let ?d = "media s ?dk (unat ?a)"
  have k: "j - idx + k = Suc (j - Suc idx + k)" "idx < j" using Suc.hyps(2) by simp_all
  have more: "\<exists>io'. length io' = length io \<and>
    delete_blocks part ia n 24 all_blocks (idx + 1) (j - (idx + 1) + k) io s = delete_blocks part ia n 24 all_blocks j k io' s"
    if "length io = length io_buf" for io
  proof (rule Suc.hyps(1))
    show "\<forall>m. idx + 1 \<le> m \<longrightarrow> m < j \<longrightarrow> all_blocks ! m \<noteq> 0 \<longrightarrow> on_disk (all_blocks ! m) \<and>
        (\<forall>e \<in> set (dir_slots (media s ?dk (unat (all_blocks ! m)))). \<not> target n e)"
      using Suc.prems(3) Suc_leD unfolding Suc_eq_plus1 [symmetric] by blast
  qed (use Suc.prems(1,2) Suc.hyps(2) that in auto)
  show ?case
  proof (cases "?a = 0")
    case True
    then show ?thesis unfolding k(1) using more [of io_buf] by simp
  next
    case False
    then have a: "on_disk ?a" "\<forall>e \<in> set (dir_slots ?d). \<not> target n e" using Suc.prems(3) k(2) by auto
    note d = read_sector_ok [OF assms(1) a(1)]
    let ?io0 = "put_bytes io_buf 0 (replicate 512 0)" let ?io = "put_bytes ?io0 0 ?d"
    have l: "length ?io0 = length io_buf" "length ?io = length io_buf" using d(2) Suc.prems(2) by simp_all
    have "scan_sector ?io n 0 21 False 0 None = Some (False \<or> (\<exists>e \<in> set (drop 0 (dir_slots ?d)). is_dot e),
        0 + word_of_nat (length (filter counts (drop 0 (dir_slots ?d)))), if \<exists>e \<in> set (drop 0 (dir_slots ?d)). target n e then Some 0 else None)"
      by (rule scan_sector_finds) (use d(2) l(1) Suc.prems(2) a(2) in auto)
    then show ?thesis unfolding k(1) using more [OF l(2)] False d l Suc.prems(2) a(2) by simp
  qed
qed auto

text \<open>The size and the inode on the disk, after the entry is gone.\<close>

definition shrink_dir :: "part_ref \<Rightarrow> u32 \<Rightarrow> u8 list \<Rightarrow> 'z fs_state_scheme \<Rightarrow> (bool \<times> 'z fs_state_scheme) option" where
  "shrink_dir part ia buf s = do {
     ino \<leftarrow> inodes s ia;
     ASSERT (i_size ino \<ge> word_of_nat 24);
     s \<leftarrow> upd_inode ia (\<lambda>ino. ino\<lparr>i_size := i_size ino - word_of_nat 24\<rparr>) s;
     buf \<leftarrow> put_buf buf 0 (replicate 1024 0);
     ino \<leftarrow> inodes s ia;
     (buf, s) \<leftarrow> inode_sync part ino buf s;
     Some (True, s) }"

lemma shrink_dir_ok:
  assumes tab: "table_ok part b s" and dk: "dk = my_disk (parts s part)" and io: "1024 \<le> length buf"
    and ino: "inodes s ia = Some ino" "24 \<le> i_size ino" "length (i_sectors ino) = 13" "i_no ino < 256"
    and ino': "ino' = ino\<lparr>i_size := i_size ino - 24\<rparr>"
  shows "\<exists>s'. shrink_dir part ia buf s = Some (True, s') \<and> table_ok part b s' \<and>
    off_disk dk s' = off_disk dk (s\<lparr>inodes := (inodes s)(ia \<mapsto> ino')\<rparr>) \<and>
    disk_inode part b s' (unat (i_no ino)) = pure_inode ino' \<and>
    (\<forall>m. m < unat (inode_table_lba b) \<or> unat (inode_table_lba b) + 608 \<le> m \<longrightarrow> media s' dk m = media s dk m)"
proof -
  let ?s = "s\<lparr>inodes := (inodes s)(ia \<mapsto> ino')\<rparr>" let ?buf = "put_bytes buf 0 (replicate 1024 0)"
  have tab': "table_ok part b ?s" using tab by (simp add: table_ok_def)
  have l: "length (i_sectors ino') = 13" "1024 \<le> length ?buf" "i_no ino' = i_no ino" using ino io ino' by simp_all
  have no: "unat (i_no ino) mod 256 = unat (i_no ino)" using ino(4) by (simp add: word_less_nat_alt)
  obtain buf' s' where s': "inode_sync part ino' ?buf ?s = Some (buf', s')" "table_ok part b s'"
      "inode_slot part b s' (unat (i_no ino)) = inode_bytes (pure_inode ino')" "only_slot part b (unat (i_no ino)) ?s s'"
    using inode_sync_slot [OF tab' l(1) sync_fits_two [OF l(2)]] unfolding l(3) no by blast
  have "inode_of_bytes (inode_bytes (pure_inode ino')) = pure_inode ino'"
    by (subst inode_roundtrip) (simp_all add: pure_inode_def l(1))
  then have "disk_inode part b s' (unat (i_no ino)) = pure_inode ino'" by (simp add: disk_inode_def s'(3))
  moreover have "shrink_dir part ia buf s = Some (True, s')"
    using ino(1,2) ino' io s'(1) by (simp add: shrink_dir_def upd_inode_def)
  ultimately show ?thesis using s'(2,4) dk by (simp add: only_slot_def)
qed

text \<open>The entry is cleared.\<close>

lemma delete_blocks_clears:
  assumes st: "store_ok dk s" and dk: "dk = my_disk (parts s part)" and a: "a = all_blocks ! idx" "a \<noteq> 0" "on_disk a"
    and D: "D = dir_slots (media s dk (unat a))" and j: "j < 21" "target n (D ! j)" "\<forall>m < 21. target n (D ! m) \<longrightarrow> m = j"
    and keep: "(\<exists>e \<in> set D. is_dot e) \<or> length (filter counts D) \<noteq> 1" and io: "512 \<le> length io_buf"
  shows "\<exists>buf s1 d. delete_blocks part ia n 24 all_blocks idx (Suc k) io_buf s = shrink_dir part ia buf s1 \<and>
    length buf = length io_buf \<and> dir_slots d = D[j := zero_entry] \<and>
    (\<forall>m. media s1 dk m = (if m = unat a then d else media s dk m)) \<and> store_ok dk s1 \<and> off_disk dk s1 = off_disk dk s"
proof -
  let ?d = "media s dk (unat a)" let ?io0 = "put_bytes io_buf 0 (replicate 512 0)" let ?io = "put_bytes ?io0 0 ?d"
  note d = read_sector_ok [OF st a(3)]
  have l: "length ?io0 = length io_buf" "length ?io = length io_buf" using d(2) io by simp_all
  have scan: "scan_sector ?io n 0 21 False 0 None = Some (False \<or> (\<exists>e \<in> set (drop 0 (dir_slots ?d)). is_dot e),
      0 + word_of_nat (length (filter counts (drop 0 (dir_slots ?d)))), if \<exists>e \<in> set (drop 0 (dir_slots ?d)). target n e then Some j else None)"
    by (rule scan_sector_finds) (use d(2) l(1) io j(3) D in auto)
  have mem: "D ! j \<in> set D" using j(1) D by simp
  have le: "length (filter counts D) \<le> 21" "0 < length (filter counts D)"
    using length_filter_le [of counts D] mem j(2) D by (auto simp: target_def length_greater_0_conv filter_empty_conv)
  have cnt: "unat (word_of_nat (length (filter counts D)) :: u8) = length (filter counts D)" using le by (simp add: unat_of_nat)
  have one: "(word_of_nat (length (filter counts D)) :: u8) = 1 \<longleftrightarrow> length (filter counts D) = 1" using cnt by (metis unat_1 word_unat_eq_iff)
  have ge: "(word_of_nat (length (filter counts D)) :: u8) \<ge> 1" using cnt le(2) by (simp add: word_le_nat_alt Suc_le_eq)
  have tg: "\<exists>e \<in> set D. target n e" using mem j(2) by blast
  let ?z = "replicate 24 0 :: u8 list" let ?buf = "put_bytes ?io (24 * j) ?z" let ?new = "put_bytes ?d (24 * j) ?z"
  have t: "take 512 ?buf = ?new" using d(2) io j(1) l by (simp add: put_bytes_def min_def)
  obtain s1 where s1: "ide_write dk a ?buf 1 s = Some s1" "store_ok dk s1" "off_disk dk s1 = off_disk dk s"
      "\<forall>m. media s1 dk m = (if m = unat a then ?new else media s dk m)"
    using write_sector_ok [OF st, of a ?buf] a(3) l j(1) io unfolding t by (auto simp: on_disk_def)
  have new: "dir_slots ?new = D[j := zero_entry]" using dir_slots_put [OF d(2) j(1), of ?z] D by (simp add: zero_entry_def)
  have "delete_blocks part ia n 24 all_blocks idx (Suc k) io_buf s = shrink_dir part ia ?buf s1"
    using a(1,2) d scan [folded D] tg one ge keep s1(1) l j(1) io unfolding shrink_dir_def
    by (auto simp: dk [symmetric] sizeof_entry_def bytes_at_def)
  moreover have "length ?buf = length io_buf" using l j(1) io by simp
  ultimately show ?thesis using s1(2-4) new by blast
qed

text \<open>A block is given back: its bit is cleared in memory, and a sector of the bitmap is written.\<close>

lemma clear_block_bit_ok:
  assumes v: "volume_ok part b s" and part: "part = cur_part s" and dk: "dk = my_disk (parts s part)" and a: "used_block part b s a"
  shows "\<exists>m s'. clear_block_bit part a s = Some s' \<and> volume_ok part b s' \<and>
    (\<forall>x. used_block part b s' x \<longleftrightarrow> used_block part b s x \<and> x \<noteq> a) \<and>
    off_disk dk s' = off_disk dk (upd_part part (\<lambda>p. p\<lparr>block_bitmap := m\<rparr>) s) \<and>
    (\<forall>n. unat (data_start_lba b) \<le> n \<longrightarrow> media s' dk n = media s dk n) \<and>
    (\<forall>n. n < unat (block_bitmap_lba b) \<or> unat (block_bitmap_lba b) + length (bits (block_bitmap (parts s part))) div 512 \<le> n \<longrightarrow>
       media s' dk n = media s dk n) \<and> length (bits m) = length (bits (block_bitmap (parts s part)))"
proof -
  let ?bm = "block_bitmap (parts s part)" let ?d = "unat (data_start_lba b)" let ?i = "unat (a - data_start_lba b)"
  have u: "?d \<le> unat a" "unat a - ?d < bm_size ?bm" "bm_bit ?bm (unat a - ?d)" using a by (simp_all add: used_block_def)
  have i: "?i = unat a - ?d" using u(1) by (simp add: unat_sub word_le_nat_alt)
  obtain n where n: "n > 0" "length (bits ?bm) = n * 512" "unat (block_bitmap_lba b) + n \<le> ?d" "sb (parts s part) = Some b" "bm_wf ?bm"
      "?d + bm_size ?bm \<le> 163840"
    using v by (auto simp: volume_ok_def)
  have r: "j div 8 < length (bits ?bm)" if "j < bm_size ?bm" for j
    using that n(5) by (auto simp: bm_size_def bm_wf_def)
  obtain bs where bs: "bitmap_set ?bm ?i 0 = Some (?bm\<lparr>bits := bs\<rparr>)" "length bs = length (bits ?bm)"
      "\<forall>j. j div 8 < length (bits ?bm) \<longrightarrow> bm_bit (?bm\<lparr>bits := bs\<rparr>) j = (if j = ?i then False else bm_bit ?bm j)"
    using bitmap_set_one [OF r, of ?i 0] u(2) i by auto
  let ?m = "?bm\<lparr>bits := bs\<rparr>" let ?s1 = "upd_part part (\<lambda>p. p\<lparr>block_bitmap := ?m\<rparr>) s"
  have sz: "bm_size ?m = bm_size ?bm" "bm_wf ?m" using n(5) bs(2) by (simp_all add: bm_size_def bm_wf_def)
  have st1: "store_ok dk ?s1" using v dk by (simp add: volume_ok_def)
  have "bm_size ?bm \<le> 4096 * n" using n(2,5) by (simp add: bm_size_def bm_wf_def)
  then have q: "?i div 4096 < n" using u(2) i by (simp add: div_less_iff_less_mult mult.commute)
  have "unat (block_bitmap_lba b) + ?i div 4096 < 163840" using q n(3,6) by linarith
  moreover have "?i div 4096 + 512 \<le> length (bits ?m)" using q bs(2) n(2) by simp
  moreover have "my_disk (parts ?s1 part) = dk" "sb (parts ?s1 part) = Some b" "block_bitmap (parts ?s1 part) = ?m"
    using dk n(4) by simp_all
  ultimately obtain s2 where s2: "bitmap_sync part (a - data_start_lba b) BLOCK_BITMAP ?s1 = Some s2" "store_ok dk s2"
      "off_disk dk s2 = off_disk dk ?s1"
      "\<forall>k. media s2 dk k = (if k = unat (block_bitmap_lba b) + ?i div 4096 then bytes_at (?i div 4096) 512 (bits ?m) else media ?s1 dk k)"
    using bitmap_sync_ok [of ?s1 part b "block_bitmap_lba b" BLOCK_BITMAP "a - data_start_lba b"] st1 by auto
  have p2: "parts s2 = parts ?s1" using off_disk_eq(2) [OF s2(3)] .
  have run: "clear_block_bit part a s = Some s2"
    using n(4) bs(1) s2(1) part by (simp add: clear_block_bit_def Let_def)
  have "volume_ok part b s2" using n bs(2) sz s2(2) p2 dk v by (auto simp: volume_ok_def)
  moreover have "used_block part b s2 x \<longleftrightarrow> used_block part b s x \<and> x \<noteq> a" for x
  proof -
    have "x = a \<longleftrightarrow> ?d \<le> unat x \<and> unat x - ?d = ?i" using u(1) i by (auto simp: word_unat_eq_iff)
    then show ?thesis using bs(3) r sz(1) by (auto simp: used_block_def p2)
  qed
  moreover have "media s2 dk k = media s dk k" if "?d \<le> k" for k using s2(4) that q n(3) by simp
  moreover have "media s2 dk k = media s dk k"
    if "k < unat (block_bitmap_lba b) \<or> unat (block_bitmap_lba b) + length (bits ?bm) div 512 \<le> k" for k
    using s2(4) that q n(2) by auto
  ultimately show ?thesis using run s2(3) bs(2) by (intro exI [of _ ?m] exI [of _ s2]) simp
qed

text \<open>The entry was the only one of its block.\<close>

lemma delete_blocks_drops:
  assumes v: "volume_ok part b s" and part: "part = cur_part s" and dk: "dk = my_disk (parts s part)"
    and a: "a = all_blocks ! idx" "used_block part b s a" "idx < 12" and ino: "inodes s ia = Some ino"
    and D: "D = dir_slots (media s dk (unat a))" and j: "j < 21" "target n (D ! j)" "\<forall>m < 21. target n (D ! m) \<longrightarrow> m = j"
    and only: "\<not> (\<exists>e \<in> set D. is_dot e)" "length (filter counts D) = 1" and io: "512 \<le> length io_buf"
  shows "\<exists>buf m s1. delete_blocks part ia n 24 all_blocks idx (Suc k) io_buf s = shrink_dir part ia buf s1 \<and>
    length buf = length io_buf \<and> volume_ok part b s1 \<and> (\<forall>x. used_block part b s1 x \<longleftrightarrow> used_block part b s x \<and> x \<noteq> a) \<and>
    off_disk dk s1 = off_disk dk ((upd_part part (\<lambda>p. p\<lparr>block_bitmap := m\<rparr>) s)\<lparr>inodes := (inodes s)(ia \<mapsto>
      ino\<lparr>i_sectors := (i_sectors ino)[idx := 0]\<rparr>)\<rparr>) \<and>
    (\<forall>n. unat (data_start_lba b) \<le> n \<longrightarrow> media s1 dk n = media s dk n)"
proof -
  let ?d = "media s dk (unat a)" let ?io0 = "put_bytes io_buf 0 (replicate 512 0)" let ?io = "put_bytes ?io0 0 ?d"
  note od = used_on_disk [OF v a(2)]
  have st: "store_ok dk s" using v dk by (simp add: volume_ok_def)
  note d = read_sector_ok [OF st od(1)]
  have l: "length ?io0 = length io_buf" "length ?io = length io_buf" using d(2) io by simp_all
  have scan: "scan_sector ?io n 0 21 False 0 None = Some (False \<or> (\<exists>e \<in> set (drop 0 (dir_slots ?d)). is_dot e),
      0 + word_of_nat (length (filter counts (drop 0 (dir_slots ?d)))), if \<exists>e \<in> set (drop 0 (dir_slots ?d)). target n e then Some j else None)"
    by (rule scan_sector_finds) (use d(2) l(1) io j(3) D in auto)
  have tg: "\<exists>e \<in> set D. target n e" using j(1,2) D by (metis nth_mem length_dir_slots)
  obtain m s2 where s2: "clear_block_bit part a s = Some s2" "volume_ok part b s2"
      "\<forall>x. used_block part b s2 x \<longleftrightarrow> used_block part b s x \<and> x \<noteq> a"
      "off_disk dk s2 = off_disk dk (upd_part part (\<lambda>p. p\<lparr>block_bitmap := m\<rparr>) s)"
      "\<forall>n. unat (data_start_lba b) \<le> n \<longrightarrow> media s2 dk n = media s dk n"
    using clear_block_bit_ok [OF v part dk a(2)] by blast
  have i2: "inodes s2 = inodes s" using off_disk_fs(2) [OF s2(4)] by (simp add: upd_part_def)
  let ?s = "s2\<lparr>inodes := (inodes s)(ia \<mapsto> ino\<lparr>i_sectors := (i_sectors ino)[idx := 0]\<rparr>)\<rparr>"
  have "drop_dir_block part ia all_blocks idx s = Some ?s"
    using s2(1) a(1,3) ino i2 by (simp add: drop_dir_block_def set_sector_def upd_inode_def)
  then have "delete_blocks part ia n 24 all_blocks idx (Suc k) io_buf s = shrink_dir part ia ?io ?s"
    using a(1) od(2) d scan [folded D] tg only l io unfolding shrink_dir_def by (simp add: dk [symmetric])
  moreover have "volume_ok part b ?s" "\<forall>x. used_block part b ?s x \<longleftrightarrow> used_block part b s x \<and> x \<noteq> a"
    using s2(2,3) by (simp_all add: volume_ok_def used_block_def)
  ultimately show ?thesis
    using l(2) s2(5) off_disk_inodes [OF s2(4)]
    by (intro exI [of _ ?io] exI [of _ m] exI [of _ ?s]) simp
qed

subsection \<open>The directory without the entry\<close>

definition dir_removed :: "dir_entry \<Rightarrow> dir_entry list \<Rightarrow> dir_entry list \<Rightarrow> bool" where
  "dir_removed e xs ys \<longleftrightarrow> (\<exists>pre post. xs = pre @ e # post \<and> ys = pre @ zero_entry # post \<or>
     (\<exists>D. xs = pre @ D @ post \<and> ys = pre @ post \<and> e \<in> set D \<and> (\<forall>y \<in> set D. free_slot_of y \<or> y = e)))"

text \<open>The entry \<open>..\<close> lies in the block of the entry \<open>.\<close>, as \<open>sys_mkdir\<close> and \<open>partition_format\<close> write them.\<close>

definition dots_together :: "part_ref \<Rightarrow> inode \<Rightarrow> 'z ide_state_scheme \<Rightarrow> bool" where
  "dots_together part ino s \<longleftrightarrow> (\<forall>a \<in> set (take 12 (i_sectors ino)). a \<noteq> 0 \<longrightarrow>
     (let D = dir_slots (media s (my_disk (parts s part)) (unat a))
      in (\<exists>y \<in> set D. \<not> free_slot_of y \<and> named dotdot_name y) \<longrightarrow> (\<exists>y \<in> set D. is_dot y)))"

lemma filter_single:
  assumes "filter P xs = [x]"
  shows "\<exists>i < length xs. xs ! i = x \<and> P x \<and> (\<forall>m < length xs. P (xs ! m) \<longrightarrow> m = i)"
proof -
  obtain us vs where u: "xs = us @ x # vs" "\<forall>u \<in> set us. \<not> P u" "P x" "filter P vs = []"
    using assms by (auto simp: filter_eq_Cons_iff)
  have "m = length us" if m: "m < length xs" "P (xs ! m)" for m
  proof (rule ccontr)
    assume ne: "m \<noteq> length us"
    show False
    proof (cases "m < length us")
      case True
      then show False using u(1,2) m(2) by (simp add: nth_append)
    next
      case False
      then have k: "xs ! m = vs ! (m - length us - 1)" "m - length us - 1 < length vs"
        using ne m(1) u(1) by (auto simp: nth_append nth_Cons')
      then show False using u(4) m(2) by (simp add: filter_empty_conv)
    qed
  qed
  then show ?thesis using u by (intro exI [of _ "length us"]) simp
qed

lemma dir_list_mem: "a \<in> set bs \<Longrightarrow> a \<noteq> 0 \<Longrightarrow> e \<in> set (dir_slots (media s dk (unat a))) \<Longrightarrow> e \<in> set (dir_list dk s bs)"
  by (auto simp: dir_list_def)

text \<open>Where the entry is.\<close>

lemma target_block:
  assumes dd: "direct_dir part b ino s" and B: "B = take 12 (i_sectors ino)" and dk: "dk = my_disk (parts s part)"
    and one: "filter (target n) (entries part ino s) = [e]"
  shows "\<exists>j i. j < 12 \<and> B ! j \<noteq> 0 \<and> i < 21 \<and> dir_slots (media s dk (unat (B ! j))) ! i = e \<and> target n e \<and>
    (\<forall>m < 21. target n (dir_slots (media s dk (unat (B ! j))) ! m) \<longrightarrow> m = i) \<and>
    filter (target n) (dir_list dk s (take j B)) = [] \<and>
    entries part ino s = dir_list dk s (take j B) @ dir_slots (media s dk (unat (B ! j))) @ dir_list dk s (drop (Suc j) B)"
proof -
  have l: "length B = 12" using dd B by (simp add: direct_dir_def)
  have E: "entries part ino s = dir_list dk s B" unfolding dk B by (rule direct_entries [OF dd])
  have "e \<in> set (filter (target n) (dir_list dk s B))" using one unfolding E by simp
  then have e: "e \<in> set (dir_list dk s B)" "target n e" by simp_all
  then obtain a where a: "a \<in> set B" "a \<noteq> 0" "e \<in> set (dir_slots (media s dk (unat a)))" by (auto simp: dir_list_def)
  then obtain j where j: "j < 12" "B ! j = a" using l by (auto simp: in_set_conv_nth)
  let ?D = "dir_slots (media s dk (unat (B ! j)))"
  have split: "B = take j B @ B ! j # drop (Suc j) B" by (rule split_at) (use j l in simp)
  have E2: "entries part ino s = dir_list dk s (take j B) @ ?D @ dir_list dk s (drop (Suc j) B)"
    unfolding E by (subst split) (use a(2) j(2) in simp)
  have eD: "filter (target n) ?D \<noteq> []" using a(3) e(2) j(2) by (auto simp: filter_empty_conv)
  have "filter (target n) (dir_list dk s (take j B)) @ filter (target n) ?D @ filter (target n) (dir_list dk s (drop (Suc j) B)) = [e]"
    using one unfolding E2 by simp
  then have f: "filter (target n) (dir_list dk s (take j B)) = []" "filter (target n) ?D = [e]"
    using eD by (auto simp: append_eq_Cons_conv Cons_eq_append_conv)
  from filter_single [OF f(2)] show ?thesis using j a(2) f(1) E2 e(2) by auto
qed

lemma delete_dir_entry_removes:
  assumes dd: "direct_dir part b ino s" and tab: "table_ok part b s" and part: "part = cur_part s" and d: "the_dir pdir s = Some v"
    and ino: "inodes s (dir_inode v) = Some ino" "24 \<le> i_size ino" "i_no ino < 256"
    and tbl: "unat (inode_table_lba b) + 608 \<le> unat (data_start_lba b)" and io: "1024 \<le> length io_buf"
    and one: "filter (target n) (entries part ino s) = [e]" and dots: "dots_together part ino s"
  shows "\<exists>s' ino'. delete_dir_entry part pdir n io_buf s = Some (True, s') \<and> inodes s' = (inodes s)(dir_inode v \<mapsto> ino') \<and>
    the_dir pdir s' = Some v \<and> i_size ino' = i_size ino - 24 \<and> direct_dir part b ino' s' \<and>
    dir_removed e (entries part ino s) (entries part ino' s') \<and> kern s' = kern s \<and>
    disk_inode part b s' (unat (i_no ino)) = pure_inode ino'"
proof -
  let ?dk = "my_disk (parts s part)" define B where B_def: "B = take 12 (i_sectors ino)" let ?all = "B @ replicate 128 0"
  have vol: "volume_ok part b s" "dir_entry_size b = 24" "length B = 12" "distinct (filter (\<lambda>a. a \<noteq> 0) B)"
      "\<forall>a \<in> set B. a \<noteq> 0 \<longrightarrow> used_block part b s a" "length (i_sectors ino) = 13" "i_sectors ino ! 12 = 0"
    using dd by (simp_all add: direct_dir_def B_def)
  have st: "store_ok ?dk s" "sb (parts s part) = Some b" using vol(1) by (simp_all add: volume_ok_def)
  obtain j i where ji: "j < 12" "B ! j \<noteq> 0" "i < 21" and De: "dir_slots (media s ?dk (unat (B ! j))) ! i = e" "target n e"
      "\<forall>m < 21. target n (dir_slots (media s ?dk (unat (B ! j))) ! m) \<longrightarrow> m = i"
      "filter (target n) (dir_list ?dk s (take j B)) = []"
    and E: "entries part ino s = dir_list ?dk s (take j B) @ dir_slots (media s ?dk (unat (B ! j))) @ dir_list ?dk s (drop (Suc j) B)"
    using target_block [OF dd B_def refl one] by (elim exE conjE, intro that) assumption+
  define a where "a = B ! j" define D where "D = dir_slots (media s ?dk (unat a))"
  note E = E [folded a_def, folded D_def] and De = De [folded a_def, folded D_def]
  have B: "B = take j B @ a # drop (Suc j) B" unfolding a_def by (rule split_at) (use ji vol(3) in simp)
  have all: "a = ?all ! j" "a \<noteq> 0" using ji vol(3) by (simp_all add: nth_append a_def)
  have used: "used_block part b s a" using vol(5) ji vol(3) unfolding a_def by (metis nth_mem)
  note od = used_on_disk [OF vol(1) used]
  have sub: "x \<in> set B" if "x \<in> set (take j B) \<union> set (drop (Suc j) B)" for x
    using that by (auto dest: in_set_takeD in_set_dropD)
  have not_a: "x \<noteq> a" if "x \<in> set (take j B) \<union> set (drop (Suc j) B)" for x
  proof -
    have "distinct (filter (\<lambda>a. a \<noteq> 0) (take j B @ a # drop (Suc j) B))" using vol(4) B by metis
    then show ?thesis using that all(2) by auto
  qed
  have before: "on_disk (?all ! m) \<and> (\<forall>y \<in> set (dir_slots (media s ?dk (unat (?all ! m)))). \<not> target n y)" if "m < j" "?all ! m \<noteq> 0" for m
  proof -
    have m: "?all ! m = B ! m" "B ! m \<in> set B" "B ! m \<in> set (take j B)"
      using that(1) ji(1) vol(3) nth_mem [of m "take j B"] by (simp_all add: nth_append)
    then have "on_disk (B ! m)" using that(2) vol(5) used_on_disk(1) [OF vol(1)] by metis
    moreover have "\<not> target n y" if y: "y \<in> set (dir_slots (media s ?dk (unat (B ! m))))" for y
      using De(4) dir_list_mem [OF m(3) _ y] \<open>?all ! m \<noteq> 0\<close> m(1) by (metis filter_empty_conv)
    ultimately show ?thesis unfolding m(1) by blast
  qed
  obtain io' where io': "length io' = length io_buf" "delete_blocks part (dir_inode v) n 24 ?all 0 140 io_buf s =
      delete_blocks part (dir_inode v) n 24 ?all j (Suc (139 - j)) io' s"
    using delete_blocks_skip [of s part 0 j io_buf ?all n "dir_inode v" "Suc (139 - j)"] st(1) io ji(1) before by auto
  have run: "delete_dir_entry part pdir n io_buf s = delete_blocks part (dir_inode v) n 24 ?all j (Suc (139 - j)) io' s"
    using d ino(1) st(2) vol(2,7) io'(2) by (simp add: delete_dir_entry_def read_blocks_def entry_size_def B_def)
  have io2: "512 \<le> length io'" using io io'(1) by simp
  have t: "target n (D ! i)" using De(1,2) by simp
  show ?thesis
  proof (cases "(\<exists>y \<in> set D. is_dot y) \<or> length (filter counts D) \<noteq> 1")
    case True
    obtain buf s1 new where S: "delete_blocks part (dir_inode v) n 24 ?all j (Suc (139 - j)) io' s = shrink_dir part (dir_inode v) buf s1"
        "length buf = length io'" "dir_slots new = D[i := zero_entry]" "\<forall>m. media s1 ?dk m = (if m = unat a then new else media s ?dk m)"
        "store_ok ?dk s1" "off_disk ?dk s1 = off_disk ?dk s"
      using delete_blocks_clears [OF st(1) refl all od(1) D_def ji(3) t De(3) True io2] by blast
    note same1 = off_disk_eq [OF S(6)] off_disk_fs [OF S(6)]
    let ?ino = "ino\<lparr>i_size := i_size ino - 24\<rparr>"
    have tab1: "table_ok part b s1" and dk1: "?dk = my_disk (parts s1 part)" using tab S(5) same1 by (simp_all add: table_ok_def)
    have io3: "1024 \<le> length buf" and ino1: "inodes s1 (dir_inode v) = Some ino" using S(2) io io'(1) ino(1) same1 by simp_all
    obtain s' where T: "shrink_dir part (dir_inode v) buf s1 = Some (True, s')" "table_ok part b s'"
        "off_disk ?dk s' = off_disk ?dk (s1\<lparr>inodes := (inodes s1)(dir_inode v \<mapsto> ?ino)\<rparr>)"
        "disk_inode part b s' (unat (i_no ino)) = pure_inode ?ino"
        "\<forall>m. m < unat (inode_table_lba b) \<or> unat (inode_table_lba b) + 608 \<le> m \<longrightarrow> media s' ?dk m = media s1 ?dk m"
      using shrink_dir_ok [OF tab1 dk1 io3 ino1 ino(2) vol(6) ino(3) refl] by blast
    note same = off_disk_eq [OF T(3)] off_disk_fs [OF T(3)]
    have p': "parts s' = parts s" using same(2) same1(2) by simp
    have dd': "direct_dir part b ?ino s'"
      using dd T(2) p' by (simp add: direct_dir_def volume_ok_def used_block_def table_ok_def)
    have data: "media s' ?dk m = (if m = unat a then new else media s ?dk m)" if "unat (data_start_lba b) \<le> m" for m
      using T(5) S(4) that tbl by simp
    have keep: "dir_list ?dk s' bs = dir_list ?dk s bs" if "set bs \<subseteq> set (take j B) \<union> set (drop (Suc j) B)" for bs
    proof (rule dir_list_cong, intro ballI impI)
      fix x assume x: "x \<in> set bs" "x \<noteq> 0"
      then have "x \<noteq> a" "used_block part b s x" using that not_a sub vol(5) by blast+
      then show "media s' ?dk (unat x) = media s ?dk (unat x)"
        using data [of "unat x"] used_on_disk(3) [OF vol(1), of x] by (simp add: word_unat_eq_iff)
    qed
    have E': "entries part ?ino s' = dir_list ?dk s (take j B) @ D[i := zero_entry] @ dir_list ?dk s (drop (Suc j) B)"
    proof -
      have "entries part ?ino s' = dir_list ?dk s' (take j B @ a # drop (Suc j) B)"
        unfolding direct_entries [OF dd'] p' B [symmetric] by (simp add: B_def)
      then show ?thesis using keep [of "take j B"] keep [of "drop (Suc j) B"] all(2) data [OF od(3)] S(3) by simp
    qed
    have "dir_removed e (entries part ino s) (entries part ?ino s')"
      unfolding E E' dir_removed_def using De(1) ji(3) id_take_nth_drop [of i D] upd_conv_take_nth_drop [of i D zero_entry]
      by (intro exI [of _ "dir_list ?dk s (take j B) @ take i D"] exI [of _ "drop (Suc i) D @ dir_list ?dk s (drop (Suc j) B)"] disjI1)
        (simp add: D_def)
    then show ?thesis
      using run S(1) T(1,4) dd' same same1 d by (intro exI [of _ s'] exI [of _ ?ino]) (simp add: the_dir_def split: dir_ref.splits)
  next
    case False
    obtain buf m s1 where S: "delete_blocks part (dir_inode v) n 24 ?all j (Suc (139 - j)) io' s = shrink_dir part (dir_inode v) buf s1"
        "length buf = length io'" "volume_ok part b s1" "\<forall>x. used_block part b s1 x \<longleftrightarrow> used_block part b s x \<and> x \<noteq> a"
        "off_disk ?dk s1 = off_disk ?dk ((upd_part part (\<lambda>p. p\<lparr>block_bitmap := m\<rparr>) s)\<lparr>inodes := (inodes s)(dir_inode v \<mapsto>
           ino\<lparr>i_sectors := (i_sectors ino)[j := 0]\<rparr>)\<rparr>)"
        "\<forall>n. unat (data_start_lba b) \<le> n \<longrightarrow> media s1 ?dk n = media s ?dk n"
      using delete_blocks_drops [OF vol(1) part refl all(1) used ji(1) ino(1) D_def ji(3) t De(3) _ _ io2] False by blast
    note same1 = off_disk_eq [OF S(5)] off_disk_fs [OF S(5)]
    let ?ino1 = "ino\<lparr>i_sectors := (i_sectors ino)[j := 0]\<rparr>" let ?ino = "?ino1\<lparr>i_size := i_size ?ino1 - 24\<rparr>"
    have st1: "store_ok ?dk s1" using S(3) same1 by (simp add: volume_ok_def)
    have tab1: "table_ok part b s1" and dk1: "?dk = my_disk (parts s1 part)" using tab st1 same1 by (simp_all add: table_ok_def)
    have io3: "1024 \<le> length buf" and ino1: "inodes s1 (dir_inode v) = Some ?ino1" using S(2) io io'(1) same1 by simp_all
    have f1: "24 \<le> i_size ?ino1" "length (i_sectors ?ino1) = 13" "i_no ?ino1 < 256" using ino(2,3) vol(6) by simp_all
    obtain s' where T: "shrink_dir part (dir_inode v) buf s1 = Some (True, s')" "table_ok part b s'"
        "off_disk ?dk s' = off_disk ?dk (s1\<lparr>inodes := (inodes s1)(dir_inode v \<mapsto> ?ino)\<rparr>)"
        "disk_inode part b s' (unat (i_no ?ino1)) = pure_inode ?ino"
        "\<forall>m. m < unat (inode_table_lba b) \<or> unat (inode_table_lba b) + 608 \<le> m \<longrightarrow> media s' ?dk m = media s1 ?dk m"
      using shrink_dir_ok [OF tab1 dk1 io3 ino1 f1 refl] by blast
    note same = off_disk_eq [OF T(3)] off_disk_fs [OF T(3)]
    have p': "parts s' = parts s1" using same(2) by simp
    have new_B: "take 12 (i_sectors ?ino) = take j B @ 0 # drop (Suc j) B"
      using upd_conv_take_nth_drop [of j B 0] ji(1) vol(3) by (simp add: take_update_swap B_def)
    have "distinct (filter (\<lambda>a. a \<noteq> 0) (take j B @ a # drop (Suc j) B))" using vol(4) B by metis
    then have dist: "distinct (filter (\<lambda>a. a \<noteq> 0) (take j B @ 0 # drop (Suc j) B))" using all(2) by simp
    have "volume_ok part b s'" using S(3) T(2) p' by (simp add: volume_ok_def table_ok_def)
    moreover have "\<forall>x \<in> set (take j B @ 0 # drop (Suc j) B). x \<noteq> 0 \<longrightarrow> used_block part b s' x"
      using S(4) vol(5) sub not_a by (auto simp: used_block_def p')
    ultimately have dd': "direct_dir part b ?ino s'"
      using vol(2,6,7) ji(1) dist unfolding direct_dir_def new_B by simp
    have keep: "dir_list ?dk s' bs = dir_list ?dk s bs" if "set bs \<subseteq> set (take j B) \<union> set (drop (Suc j) B)" for bs
    proof (rule dir_list_cong, intro ballI impI)
      fix x assume x: "x \<in> set bs" "x \<noteq> 0"
      then have "used_block part b s x" using that sub vol(5) by blast
      then show "media s' ?dk (unat x) = media s ?dk (unat x)"
        using T(5) S(6) tbl used_on_disk(3) [OF vol(1), of x] by simp
    qed
    have dk': "my_disk (parts s' part) = ?dk" using p' dk1 by simp
    have E': "entries part ?ino s' = dir_list ?dk s (take j B) @ dir_list ?dk s (drop (Suc j) B)"
      unfolding direct_entries [OF dd'] new_B dk' using keep [of "take j B"] keep [of "drop (Suc j) B"] by simp
    have eD: "e \<in> set D" using De(1) ji(3) nth_mem [of i D] by (simp add: D_def)
    have cD: "filter counts D = [e]"
    proof -
      obtain c where "filter counts D = [c]" using False by (auto simp: length_Suc_conv)
      moreover have "e \<in> set (filter counts D)" using eD De(2) by (simp add: target_def)
      ultimately show ?thesis by simp
    qed
    have "a \<in> set (take 12 (i_sectors ino))" unfolding B_def [symmetric] by (subst B) simp
    then have nodd: "\<not> (\<exists>y \<in> set D. \<not> free_slot_of y \<and> named dotdot_name y)"
      using dots all(2) False unfolding dots_together_def Let_def D_def by blast
    have "free_slot_of y \<or> y = e" if y: "y \<in> set D" for y
    proof (cases "counts y")
      case True
      then have "y \<in> set (filter counts D)" using y by simp
      then show ?thesis unfolding cD by simp
    next
      case nc: False
      then show ?thesis using y nodd False by (auto simp: counts_def is_dot_def)
    qed
    then have "dir_removed e (entries part ino s) (entries part ?ino s')"
      unfolding E E' dir_removed_def using eD by blast
    then show ?thesis
      using run S(1) T(1,4) dd' same same1 d by (intro exI [of _ s'] exI [of _ ?ino]) (simp add: the_dir_def upd_part_def split: dir_ref.splits)
  qed
qed

lemma named_unique:
  assumes "named nm e" and "named nm' e" and "name_ok nm" and "name_ok nm'"
  shows "nm' = nm"
proof -
  have "takeWhile (\<lambda>c. c \<noteq> 0) (filename e) = x" if "named x e" "name_ok x" for x
  proof -
    have eq: "x @ [0] = take (length x + 1) (filename e)" using that(1) by (simp add: named_def)
    have "filename e = x @ 0 # drop (length x + 1) (filename e)"
      using append_take_drop_id [of "length x + 1" "filename e"] unfolding eq [symmetric] by simp
    then show ?thesis using that(2) takeWhile_cstr [of x "drop (length x + 1) (filename e)"] by (simp add: name_ok_def)
  qed
  then show ?thesis using assms by metis
qed

lemma find_none: "filter P xs = [] \<longleftrightarrow> find P xs = None"
  by (auto simp: find_None_iff filter_empty_conv)

lemma dir_removed_lookup:
  assumes rem: "dir_removed e xs ys" and xs: "clean xs" and e: "filter (named nm) xs = [e]" "name_ok nm" and nm': "name_ok nm'"
  shows "find (named nm') ys = (if nm' = nm then None else find (named nm') xs)" and "clean ys"
proof -
  have "e \<in> set (filter (named nm) xs)" using e(1) by simp
  then have ne: "named nm' e \<longleftrightarrow> nm' = nm" "named nm e" using named_unique [of nm e nm'] e(2) nm' by auto
  obtain pre post where "xs = pre @ e # post \<and> ys = pre @ zero_entry # post \<or>
     (\<exists>D. xs = pre @ D @ post \<and> ys = pre @ post \<and> e \<in> set D \<and> (\<forall>y \<in> set D. free_slot_of y \<or> y = e))"
    using rem unfolding dir_removed_def by blast
  then have "find (named nm') ys = (if nm' = nm then None else find (named nm') xs) \<and> clean ys"
  proof (elim disjE exE conjE)
    assume s: "xs = pre @ e # post" "ys = pre @ zero_entry # post"
    then have "filter (named nm) pre = []" "filter (named nm) post = []"
      using e(1) ne(2) by (auto simp: append_eq_Cons_conv)
    then show ?thesis using s xs ne named_zero [OF nm'] by (auto simp: find_none find_append clean_def split: option.splits)
  next
    fix D assume s: "xs = pre @ D @ post" "ys = pre @ post" "e \<in> set D" "\<forall>y \<in> set D. free_slot_of y \<or> y = e"
    have "filter (named nm) D \<noteq> []" using s(3) ne(2) by (auto simp: filter_empty_conv)
    then have "filter (named nm) pre = []" "filter (named nm) post = []"
      using e(1) s(1) by (auto simp: append_eq_Cons_conv Cons_eq_append_conv)
    moreover have "find (named nm') D = None" if "nm' \<noteq> nm"
    proof -
      have "\<not> named nm' y" if y: "y \<in> set D" for y
      proof (cases "y = e")
        case False
        then have "y = zero_entry" using s(1,4) y xs by (auto simp: clean_def)
        then show ?thesis using named_zero [OF nm'] by simp
      qed (use ne(1) \<open>nm' \<noteq> nm\<close> in simp)
      then show ?thesis by (simp add: find_None_iff)
    qed
    ultimately show ?thesis using s(1,2) xs by (auto simp: find_none find_append clean_def split: option.splits)
  qed
  then show "find (named nm') ys = (if nm' = nm then None else find (named nm') xs)" and "clean ys" by blast+
qed

text \<open>
  C20: removing an entry updates the map from names to entries. For a directory of direct blocks in which exactly one entry
  \<open>e\<close> has the number and exactly one the name, \<open>delete_dir_entry\<close> of the number succeeds, whether it clears the
  entry or gives back the block of which it was the only one; afterwards the name is not found, every other name is looked
  up to what it was before, the size is smaller by one entry, in memory and in the inode on the disk, and the directory
  is well-formed again.
\<close>

theorem dir_delete_lookup:
  assumes "direct_dir part b ino s" and "table_ok part b s" and "part = cur_part s" and "the_dir pdir s = Some v"
    and "inodes s (dir_inode v) = Some ino" and "24 \<le> i_size ino" and "i_no ino < 256"
    and "unat (inode_table_lba b) + 608 \<le> unat (data_start_lba b)" and "1024 \<le> length io_buf"
    and "filter (target n) (entries part ino s) = [e]" and "filter (named nm) (entries part ino s) = [e]" and "name_ok nm"
    and "dots_together part ino s" and "clean (entries part ino s)"
  shows "\<exists>s' ino'. delete_dir_entry part pdir n io_buf s = Some (True, s') \<and>
    dir_inode_of pdir s' = Some ino' \<and> i_size ino' = i_size ino - 24 \<and> disk_inode part b s' (unat (i_no ino)) = pure_inode ino' \<and>
    direct_dir part b ino' s' \<and> clean (entries part ino' s') \<and> kern s' = kern s \<and>
    (\<forall>nm'. name_ok nm' \<longrightarrow> lookup part ino' s' nm' = (if nm' = nm then None else lookup part ino s nm'))"
proof -
  obtain s' ino' where S: "delete_dir_entry part pdir n io_buf s = Some (True, s')" "inodes s' = (inodes s)(dir_inode v \<mapsto> ino')"
      "the_dir pdir s' = Some v" "i_size ino' = i_size ino - 24" "direct_dir part b ino' s'"
      "dir_removed e (entries part ino s) (entries part ino' s')" "kern s' = kern s"
      "disk_inode part b s' (unat (i_no ino)) = pure_inode ino'"
    using delete_dir_entry_removes [OF assms(1-10,13)] by blast
  note D = dir_removed_lookup [OF S(6) assms(14,11,12)]
  show ?thesis
    using S D(1) D(2) [OF assms(12)]
    by (intro exI [of _ s'] exI [of _ ino']) (simp add: dir_inode_of_def lookup_def)
qed

subsection \<open>An example\<close>

text \<open>A root directory with the entries \<open>.\<close> and \<open>a\<close>, of which the second goes.\<close>

definition demo_dot :: dir_entry where
  "demo_dot = \<lparr>filename = [0x2e] @ replicate 15 0, entry_i_no = 0, f_type = FT_DIRECTORY\<rparr>"

definition demo_block :: "u8 list" where
  "demo_block = put_bytes (put_bytes (replicate 512 0) 0 (entry_bytes demo_dot)) 24 (entry_bytes demo_entry)"

definition demo_del_inode :: inode where
  "demo_del_inode = zero_inode\<lparr>i_size := 48, i_sectors := 675 # replicate 12 0\<rparr>"

definition demo_del_fs :: fs_state where
  "demo_del_fs = demo_fs\<lparr>inodes := [7 \<mapsto> demo_del_inode], root_dir := \<lparr>dir_inode = 7, dir_pos = 0, dir_buf = []\<rparr>,
     media := \<lambda>dk n. if n = 675 then demo_block else replicate 512 0\<rparr>"

lemma demo_block_slots: "dir_slots demo_block = demo_dot # demo_entry # replicate 19 zero_entry" "length demo_block = 512"
proof -
  have l: "length (entry_bytes demo_dot) = 24" "length (entry_bytes demo_entry) = 24" "length (filename demo_dot) = 16" "length (filename demo_entry) = 16"
    by (simp_all add: demo_dot_def demo_entry_def)
  then show "length demo_block = 512" by (simp add: demo_block_def)
  have "dir_slots demo_block = (demo_dot # replicate 20 zero_entry)[1 := demo_entry]"
    using dir_slots_put [of "put_bytes (replicate 512 0) 0 (entry_bytes demo_dot)" 1 "entry_bytes demo_entry"]
      dir_slots_new [OF l(1), of "replicate 512 0"] l by (simp add: demo_block_def)
  then show "dir_slots demo_block = demo_dot # demo_entry # replicate 19 zero_entry" by (simp add: eval_nat_numeral)
qed

lemma demo_del_ready:
  "direct_dir demo_root demo_sb demo_del_inode demo_del_fs" "table_ok demo_root demo_sb demo_del_fs"
  "entries demo_root demo_del_inode demo_del_fs = demo_dot # demo_entry # replicate 19 zero_entry"
proof -
  have st: "store_ok (0, 1) demo_del_fs"
    using demo_store demo_block_slots(2) by (simp add: demo_del_fs_def store_ok_def disk_ready_def drive_ok_def whole_sectors_def)
  then have "volume_ok demo_root demo_sb demo_del_fs" by (simp add: volume_ok_def demo_del_fs_def bm_wf_def bm_size_def demo_bits_def)
  moreover have "used_block demo_root demo_sb demo_del_fs 675"
    by (simp add: used_block_def demo_del_fs_def bm_size_def bm_bit_def demo_bits_def)
  ultimately show dd: "direct_dir demo_root demo_sb demo_del_inode demo_del_fs"
    by (simp add: direct_dir_def demo_del_inode_def)
  show "table_ok demo_root demo_sb demo_del_fs" using demo_table st by (simp add: table_ok_def demo_del_fs_def)
  have "dir_list dk s (replicate n 0) = []" for dk n and s :: fs_state by (induction n) simp_all
  then show "entries demo_root demo_del_inode demo_del_fs = demo_dot # demo_entry # replicate 19 zero_entry"
    unfolding direct_entries [OF dd] using demo_block_slots by (simp add: demo_del_inode_def demo_del_fs_def)
qed

theorem dir_delete_lookup_witness:
  "\<exists>s' ino'. delete_dir_entry demo_root Root_dir 3 (replicate 1024 0) demo_del_fs = Some (True, s') \<and>
    dir_inode_of Root_dir s' = Some ino' \<and> lookup demo_root ino' s' [0x61] = None \<and> lookup demo_root ino' s' [0x2e] = Some demo_dot"
proof -
  note r = demo_del_ready
  have n: "name_ok [0x61]" "name_ok [0x2e]" by (simp_all add: name_ok_def)
  have z: "\<not> named nm zero_entry" if "name_ok nm" for nm using named_zero [OF that] .
  have fz: "free_slot_of zero_entry" by (simp add: free_slot_of_def zero_entry_def entry_of_bytes_def FT_UNKNOWN_def u32_of_def)
  have e: "named [0x61] demo_entry" "\<not> named [0x61] demo_dot" "named [0x2e] demo_dot" "target 3 demo_entry" "\<not> target 3 demo_dot"
      "\<not> free_slot_of demo_dot" "\<not> free_slot_of demo_entry"
    by (simp_all add: named_def target_def counts_def free_slot_of_def demo_entry_def demo_dot_def dot_name_def dotdot_name_def
        FT_REGULAR_def FT_UNKNOWN_def FT_DIRECTORY_def)
  have "filter (target 3) (replicate 19 zero_entry) = []" "filter (named [0x61]) (replicate 19 zero_entry) = []"
    using fz z [OF n(1)] by (simp_all add: filter_empty_conv target_def counts_def)
  then have f: "filter (target 3) (entries demo_root demo_del_inode demo_del_fs) = [demo_entry]"
      "filter (named [0x61]) (entries demo_root demo_del_inode demo_del_fs) = [demo_entry]"
    unfolding r(3) using e by simp_all
  have "is_dot demo_dot" using e by (simp add: is_dot_def dot_name_def)
  then have d: "dots_together demo_root demo_del_inode demo_del_fs"
    using demo_block_slots(1) by (auto simp: dots_together_def demo_del_inode_def demo_del_fs_def)
  have c: "clean (entries demo_root demo_del_inode demo_del_fs)" unfolding r(3) using e fz by (simp add: clean_def)
  have l: "lookup demo_root demo_del_inode demo_del_fs [0x2e] = Some demo_dot" using e(3) by (simp add: lookup_def r(3))
  have s: "the_dir Root_dir demo_del_fs = Some \<lparr>dir_inode = 7, dir_pos = 0, dir_buf = []\<rparr>" "inodes demo_del_fs 7 = Some demo_del_inode"
      "cur_part demo_del_fs = demo_root" "i_size demo_del_inode = 48" "i_no demo_del_inode = 0"
    by (simp_all add: demo_del_fs_def the_dir_def demo_del_inode_def zero_inode_def inode_of_zeros u32_of_def)
  show ?thesis
    using dir_delete_lookup [OF r(1,2) _ s(1) _ _ _ _ _ f n(1) d c, of "replicate 1024 0"] s n l by auto
qed

end
