(* ===== verification/Inode_Release.thy ===== *)
theory Inode_Release
  imports Dir_Delete File_Spec
begin

text \<open>
  Deleting a file (\<open>inode_release\<close> of \<open>fs/inode.c\<close>): all the blocks of the inode, its indirect table included, and its
  number are free afterwards, its place in the inode table is cleared, and nothing else is given back.
\<close>

subsection \<open>The blocks\<close>

lemma give_block_clears:
  "sb (parts s part) = Some b \<Longrightarrow> a - data_start_lba b > 0 \<Longrightarrow> give_block part a s = clear_block_bit part a s"
  by (simp add: give_block_def clear_block_bit_def Let_def)

definition bitmap_sector :: "part_ref \<Rightarrow> super_block \<Rightarrow> 'z ide_state_scheme \<Rightarrow> nat \<Rightarrow> bool" where
  "bitmap_sector part b s n \<longleftrightarrow> unat (block_bitmap_lba b) \<le> n \<and>
     n < unat (block_bitmap_lba b) + length (bits (block_bitmap (parts s part))) div 512"

text \<open>A block that may be given back: in use, and not the first one, which holds the root directory.\<close>

definition owned :: "part_ref \<Rightarrow> super_block \<Rightarrow> 'z ide_state_scheme \<Rightarrow> u32 \<Rightarrow> bool" where
  "owned part b s a \<longleftrightarrow> used_block part b s a \<and> a \<noteq> data_start_lba b"

lemma give_file_block_ok:
  assumes v: "volume_ok part b s" and part: "part = cur_part s" and dk: "dk = my_disk (parts s part)" and a: "owned part b s a"
  shows "\<exists>m s'. give_block part a s = Some s' \<and> volume_ok part b s' \<and>
    (\<forall>x. used_block part b s' x \<longleftrightarrow> used_block part b s x \<and> x \<noteq> a) \<and>
    off_disk dk s' = off_disk dk (upd_part part (\<lambda>p. p\<lparr>block_bitmap := m\<rparr>) s) \<and>
    (\<forall>n. \<not> bitmap_sector part b s n \<longrightarrow> media s' dk n = media s dk n) \<and>
    length (bits m) = length (bits (block_bitmap (parts s part)))"
proof -
  have u: "used_block part b s a" "a \<noteq> data_start_lba b" and b: "sb (parts s part) = Some b"
    using a v by (simp_all add: owned_def volume_ok_def)
  have "a - data_start_lba b > 0" using u(2) by (simp add: word_gt_0)
  then show ?thesis
    using clear_block_bit_ok [OF v part dk u(1)] unfolding give_block_clears [OF b \<open>a - data_start_lba b > 0\<close>] bitmap_sector_def
    by (metis not_le)
qed

lemma give_blocks_ok:
  assumes "volume_ok part b s" and "part = cur_part s" and "dk = my_disk (parts s part)"
    and "\<forall>a \<in> set bs. a \<noteq> 0 \<longrightarrow> owned part b s a" and "distinct (filter (\<lambda>a. a \<noteq> 0) bs)"
  shows "\<exists>m s'. give_blocks part bs s = Some s' \<and> volume_ok part b s' \<and>
    (\<forall>x. used_block part b s' x \<longleftrightarrow> used_block part b s x \<and> x \<notin> set bs) \<and>
    off_disk dk s' = off_disk dk (upd_part part (\<lambda>p. p\<lparr>block_bitmap := m\<rparr>) s) \<and>
    (\<forall>n. \<not> bitmap_sector part b s n \<longrightarrow> media s' dk n = media s dk n) \<and>
    length (bits m) = length (bits (block_bitmap (parts s part)))"
  using assms
proof (induction bs arbitrary: s)
  case Nil
  have "upd_part part (\<lambda>p. p\<lparr>block_bitmap := block_bitmap (parts s part)\<rparr>) s = s"
    by (simp add: upd_part_def fun_upd_idem)
  then show ?case using Nil.prems(1) by (intro exI [of _ "block_bitmap (parts s part)"] exI [of _ s]) simp
next
  case (Cons a bs)
  have z: "\<not> used_block part b s 0" using used_on_disk(2) [OF Cons.prems(1), of 0] by blast
  show ?case
  proof (cases "a = 0")
    case True
    obtain m s' where s': "give_blocks part bs s = Some s'" "volume_ok part b s'"
        "\<forall>x. used_block part b s' x \<longleftrightarrow> used_block part b s x \<and> x \<notin> set bs"
        "off_disk dk s' = off_disk dk (upd_part part (\<lambda>p. p\<lparr>block_bitmap := m\<rparr>) s)"
        "\<forall>n. \<not> bitmap_sector part b s n \<longrightarrow> media s' dk n = media s dk n"
        "length (bits m) = length (bits (block_bitmap (parts s part)))"
      using Cons.IH [OF Cons.prems(1-3)] Cons.prems(4,5) True by auto
    moreover have "(used_block part b s x \<and> x \<notin> set bs) \<longleftrightarrow> (used_block part b s x \<and> x \<notin> set (a # bs))" for x
      using z True by auto
    ultimately show ?thesis using True by (intro exI [of _ m] exI [of _ s']) simp
  next
    case False
    then have a: "owned part b s a" using Cons.prems(4) by simp
    obtain m1 s1 where s1: "give_block part a s = Some s1" "volume_ok part b s1"
        "\<forall>x. used_block part b s1 x \<longleftrightarrow> used_block part b s x \<and> x \<noteq> a"
        "off_disk dk s1 = off_disk dk (upd_part part (\<lambda>p. p\<lparr>block_bitmap := m1\<rparr>) s)"
        "\<forall>n. \<not> bitmap_sector part b s n \<longrightarrow> media s1 dk n = media s dk n"
        "length (bits m1) = length (bits (block_bitmap (parts s part)))"
      using give_file_block_ok [OF Cons.prems(1-3) a] by (elim exE conjE, intro that) assumption+
    note same = off_disk_eq [OF s1(4)] off_disk_fs [OF s1(4)]
    have p1: "parts s1 = (parts s)(part := (parts s part)\<lparr>block_bitmap := m1\<rparr>)" using same(2) by simp
    have k: "part = cur_part s1" "dk = my_disk (parts s1 part)" using Cons.prems(2,3) off_disk_fs(1) [OF s1(4)] p1 by (simp_all add: upd_part_def)
    have o: "\<forall>x \<in> set bs. x \<noteq> 0 \<longrightarrow> owned part b s1 x" "distinct (filter (\<lambda>a. a \<noteq> 0) bs)"
      using Cons.prems(4,5) s1(3) False by (auto simp: owned_def)
    obtain m s' where s': "give_blocks part bs s1 = Some s'" "volume_ok part b s'"
        "\<forall>x. used_block part b s' x \<longleftrightarrow> used_block part b s1 x \<and> x \<notin> set bs"
        "off_disk dk s' = off_disk dk (upd_part part (\<lambda>p. p\<lparr>block_bitmap := m\<rparr>) s1)"
        "\<forall>n. \<not> bitmap_sector part b s1 n \<longrightarrow> media s' dk n = media s1 dk n"
        "length (bits m) = length (bits (block_bitmap (parts s1 part)))"
      using Cons.IH [OF s1(2) k o] by (elim exE conjE, intro that) assumption+
    have "bitmap_sector part b s1 n = bitmap_sector part b s n" for n using s1(6) by (simp add: bitmap_sector_def p1)
    moreover have "off_disk dk (upd_part part (\<lambda>p. p\<lparr>block_bitmap := m\<rparr>) s1) = off_disk dk (upd_part part (\<lambda>p. p\<lparr>block_bitmap := m\<rparr>) s)"
    proof -
      have u: "off_disk dk (upd_part part f x) = upd_part part f (off_disk dk x)" for f and x :: "'a fs_state_scheme"
        by (simp add: off_disk_def upd_part_def)
      show ?thesis unfolding u s1(4) by (simp add: u [symmetric] upd_part_def)
    qed
    ultimately show ?thesis
      using s1(1,3,5,6) s' False p1 by (intro exI [of _ m] exI [of _ s']) auto
  qed
qed

text \<open>The addresses an inode holds, the one of its indirect table first.\<close>

definition file_blocks :: "disk_ref \<Rightarrow> 'z ide_state_scheme \<Rightarrow> inode \<Rightarrow> u32 list" where
  "file_blocks dk s ino = i_sectors ino ! 12 # take 12 (i_sectors ino) @
     (if i_sectors ino ! 12 \<noteq> 0 then u32s_of 128 (media s dk (unat (i_sectors ino ! 12))) else [])"

subsection \<open>The inode\<close>

text \<open>The areas of the volume lie one behind the other, as \<open>partition_format\<close> lays them out.\<close>

definition areas_ok :: "part_ref \<Rightarrow> super_block \<Rightarrow> 'z ide_state_scheme \<Rightarrow> bool" where
  "areas_ok part b s \<longleftrightarrow>
     unat (block_bitmap_lba b) + length (bits (block_bitmap (parts s part))) div 512 \<le> unat (inode_bitmap_lba b) \<and>
     unat (inode_bitmap_lba b) < unat (inode_table_lba b) \<and> unat (inode_table_lba b) + 608 \<le> unat (data_start_lba b)"

lemma inode_slot_same:
  assumes "my_disk (parts s' part) = my_disk (parts s part)" and "n < 4096"
    and "\<forall>m. unat (inode_table_lba b) \<le> m \<and> m < unat (inode_table_lba b) + 608 \<longrightarrow>
      media s' (my_disk (parts s part)) m = media s (my_disk (parts s part)) m"
  shows "inode_slot part b s' n = inode_slot part b s n"
proof -
  have "inode_slot part b (s'\<lparr>parts := parts s\<rparr>) n = inode_slot part b s n"
    by (rule inode_slot_cong) (use assms in simp_all)
  then show ?thesis using assms(1) by (simp add: inode_slot_def bs.byte_def)
qed

lemma inode_close_parts:
  assumes "inode_close a s = Some s'"
  shows "\<exists>f. parts s' = (\<lambda>p. (parts s p)\<lparr>open_inodes := f p\<rparr>)" and "cur_part s' = cur_part s"
proof -
  have same: "\<exists>f. parts s = (\<lambda>p. (parts s p)\<lparr>open_inodes := f p\<rparr>)" for s :: "'a fs_state_scheme"
    by (rule exI [of _ "\<lambda>p. open_inodes (parts s p)"]) simp
  have one: "\<exists>f. (parts s)(q := (parts s q)\<lparr>open_inodes := l\<rparr>) = (\<lambda>p. (parts s p)\<lparr>open_inodes := f p\<rparr>)"
    for s :: "'a fs_state_scheme" and q l
    by (rule exI [of _ "(\<lambda>p. open_inodes (parts s p))(q := l)"]) (simp add: fun_eq_iff)
  show "\<exists>f. parts s' = (\<lambda>p. (parts s p)\<lparr>open_inodes := f p\<rparr>)" "cur_part s' = cur_part s"
    using assms same one
    by (auto simp: inode_close_def upd_inode_def in_kernel_heap_def upd_part_def Let_def split: prod.splits bind_splits if_splits)
qed

text \<open>The number of the inode is given back.\<close>

lemma free_inode_number:
  assumes v: "volume_ok part b s" and part: "part = cur_part s" and dk: "dk = my_disk (parts s part)" and areas: "areas_ok part b s"
    and n: "n < 4096" "n < bm_size (inode_bitmap (parts s part))" "bm_wf (inode_bitmap (parts s part))"
  shows "\<exists>m s'. bitmap_set (inode_bitmap (parts s part)) n 0 = Some m \<and>
    bitmap_sync part (word_of_nat n) INODE_BITMAP (upd_part part (\<lambda>p. p\<lparr>inode_bitmap := m\<rparr>) s) = Some s' \<and> store_ok dk s' \<and>
    off_disk dk s' = off_disk dk (upd_part part (\<lambda>p. p\<lparr>inode_bitmap := m\<rparr>) s) \<and>
    (\<forall>k. k \<noteq> unat (inode_bitmap_lba b) \<longrightarrow> media s' dk k = media s dk k) \<and> bm_size m = bm_size (inode_bitmap (parts s part)) \<and>
    (\<forall>j < bm_size m. bm_bit m j \<longleftrightarrow> bm_bit (inode_bitmap (parts s part)) j \<and> j \<noteq> n)"
proof -
  let ?bm = "inode_bitmap (parts s part)"
  have r: "j div 8 < length (bits ?bm)" if "j < bm_size ?bm" for j using that n(3) by (auto simp: bm_size_def bm_wf_def)
  obtain bs where bs: "bitmap_set ?bm n 0 = Some (?bm\<lparr>bits := bs\<rparr>)" "length bs = length (bits ?bm)"
      "\<forall>j. j div 8 < length (bits ?bm) \<longrightarrow> bm_bit (?bm\<lparr>bits := bs\<rparr>) j = (if j = n then False else bm_bit ?bm j)"
    using bitmap_set_one [OF r [OF n(2)], of 0] by auto
  let ?m = "?bm\<lparr>bits := bs\<rparr>" let ?s = "upd_part part (\<lambda>p. p\<lparr>inode_bitmap := ?m\<rparr>) s"
  have sz: "bm_size ?m = bm_size ?bm" by (simp add: bm_size_def)
  obtain k where k: "k > 0" "length (bits (block_bitmap (parts s part))) = k * 512" "sb (parts s part) = Some b"
      "unat (data_start_lba b) + bm_size (block_bitmap (parts s part)) \<le> 163840" "store_ok dk s"
    using v dk by (auto simp: volume_ok_def)
  have u: "unat (word_of_nat n :: u32) div 4096 = 0" using n(1) by (simp add: unat_of_nat)
  have "unat (inode_bitmap_lba b) < 163840" using areas k(4) unfolding areas_ok_def by linarith
  moreover have "512 \<le> length (bits (block_bitmap (parts ?s part)))" using k(1,2) by simp
  moreover have "store_ok (my_disk (parts ?s part)) ?s" "sb (parts ?s part) = Some b" "my_disk (parts ?s part) = dk"
    using k(3,5) dk by simp_all
  ultimately obtain s' where s': "bitmap_sync part (word_of_nat n) INODE_BITMAP ?s = Some s'" "store_ok dk s'"
      "off_disk dk s' = off_disk dk ?s"
      "\<forall>j. media s' dk j = (if j = unat (inode_bitmap_lba b) then bytes_at 0 512 (bits (block_bitmap (parts ?s part))) else media ?s dk j)"
    using bitmap_sync_ok [of ?s part b "inode_bitmap_lba b" INODE_BITMAP "word_of_nat n"] u by auto
  show ?thesis
    using bs s' sz r by (intro exI [of _ ?m] exI [of _ s']) simp
qed

text \<open>What \<open>inode_release\<close> does between opening the inode and clearing its place in the table.\<close>

definition release_disk :: "part_ref \<Rightarrow> inode \<Rightarrow> nat \<Rightarrow> 'z fs_state_scheme \<Rightarrow> 'z fs_state_scheme option" where
  "release_disk part ino n s = do {
     (all_blocks, s) \<leftarrow> (if i_sectors ino ! 12 \<noteq> 0 then do {
         (d, s) \<leftarrow> ide_read (my_disk (parts s part)) (i_sectors ino ! 12) 1 s;
         s \<leftarrow> give_block part (i_sectors ino ! 12) s;
         Some (take 12 (i_sectors ino) @ u32s_of 128 d, s) }
       else Some (take 12 (i_sectors ino), s));
     s \<leftarrow> give_blocks part all_blocks s;
     m \<leftarrow> bitmap_set (inode_bitmap (parts s (cur_part s))) n 0;
     bitmap_sync (cur_part s) (word_of_nat n) INODE_BITMAP (upd_part (cur_part s) (\<lambda>p. p\<lparr>inode_bitmap := m\<rparr>) s) }"

lemma inode_release_steps:
  assumes "n < 4096"
  shows "inode_release part (word_of_nat n) s = do {
     (a, s) \<leftarrow> inode_open part (word_of_nat n) s;
     ino \<leftarrow> inodes s a;
     ASSERT (i_no ino = word_of_nat n);
     s \<leftarrow> release_disk part ino n s;
     (io_buf, s) \<leftarrow> fs_malloc 1024 s;
     if io_buf = 0 then None
     else do {
       (buf, s) \<leftarrow> inode_delete part (word_of_nat n) (replicate 1024 0) s;
       s \<leftarrow> fs_free io_buf s;
       inode_close a s } }"
proof -
  have "unat (word_of_nat n :: u32) = n" using assms by (simp add: unat_of_nat)
  then show ?thesis
    unfolding inode_release_def release_disk_def Let_def by (simp add: Option.bind_assoc case_prod_unfold split_beta)
qed

text \<open>The blocks and the number of an inode that has just been opened.\<close>

lemma release_parts:
  assumes v: "volume_ok part b s" and part: "part = cur_part s" and dk: "dk = my_disk (parts s part)" and areas: "areas_ok part b s"
    and own: "\<forall>a \<in> set (file_blocks dk s ino). a \<noteq> 0 \<longrightarrow> owned part b s a" and dist: "distinct (filter (\<lambda>a. a \<noteq> 0) (file_blocks dk s ino))"
    and n: "n < 4096" "n < bm_size (inode_bitmap (parts s part))" "bm_wf (inode_bitmap (parts s part))"
  shows "\<exists>mb mi s'. release_disk part ino n s = Some s' \<and> volume_ok part b s' \<and> parts s' = (parts s)(part := (parts s part)\<lparr>block_bitmap := mb, inode_bitmap := mi\<rparr>) \<and>
    (\<forall>x. used_block part b s' x \<longleftrightarrow> used_block part b s x \<and> x \<notin> set (file_blocks dk s ino)) \<and>
    bm_size mi = bm_size (inode_bitmap (parts s part)) \<and> (\<forall>j < bm_size mi. bm_bit mi j \<longleftrightarrow> bm_bit (inode_bitmap (parts s part)) j \<and> j \<noteq> n) \<and>
    kern s' = kern s \<and> inodes s' = inodes s \<and> cur_part s' = cur_part s \<and>
    (\<forall>k. unat (inode_table_lba b) \<le> k \<longrightarrow> media s' dk k = media s dk k)"
proof -
  let ?t = "i_sectors ino ! 12" let ?bs = "file_blocks dk s ino"
  obtain mb s1 where s1: "give_blocks part ?bs s = Some s1" "volume_ok part b s1"
      "\<forall>x. used_block part b s1 x \<longleftrightarrow> used_block part b s x \<and> x \<notin> set ?bs"
      "off_disk dk s1 = off_disk dk (upd_part part (\<lambda>p. p\<lparr>block_bitmap := mb\<rparr>) s)"
      "\<forall>n. \<not> bitmap_sector part b s n \<longrightarrow> media s1 dk n = media s dk n" "length (bits mb) = length (bits (block_bitmap (parts s part)))"
    using give_blocks_ok [OF v part dk own dist] by (elim exE conjE, intro that) assumption+
  have blocks: "(do { (all_blocks, s) \<leftarrow> (if ?t \<noteq> 0 then do {
          (d, s) \<leftarrow> ide_read (my_disk (parts s part)) ?t 1 s;
          s \<leftarrow> give_block part ?t s;
          Some (take 12 (i_sectors ino) @ u32s_of 128 d, s) }
        else Some (take 12 (i_sectors ino), s));
      give_blocks part all_blocks s }) = Some s1"
  proof (cases "?t = 0")
    case True
    then show ?thesis using s1(1) by (simp add: file_blocks_def)
  next
    case False
    then have "owned part b s ?t" using own by (simp add: file_blocks_def)
    then have "on_disk ?t" using used_on_disk(1) [OF v] by (simp add: owned_def)
    moreover have "store_ok dk s" using v dk by (simp add: volume_ok_def)
    ultimately have "ide_read dk ?t 1 s = Some (media s dk (unat ?t), s)" using read_sector_ok(1) by blast
    then show ?thesis using s1(1) False by (simp add: file_blocks_def dk [symmetric] split: bind_splits)
  qed
  note same1 = off_disk_eq [OF s1(4)] off_disk_fs [OF s1(4)]
  have p1: "parts s1 = (parts s)(part := (parts s part)\<lparr>block_bitmap := mb\<rparr>)" "cur_part s1 = cur_part s" "inodes s1 = inodes s" "kern s1 = kern s"
    using same1 by (simp_all add: upd_part_def)
  have part1: "part = cur_part s1" and dk1: "dk = my_disk (parts s1 part)" and areas1: "areas_ok part b s1"
    and n1: "n < bm_size (inode_bitmap (parts s1 part))" "bm_wf (inode_bitmap (parts s1 part))"
    using part dk areas s1(6) n(2,3) p1 by (simp_all add: areas_ok_def)
  obtain mi s2 where s2: "bitmap_set (inode_bitmap (parts s1 part)) n 0 = Some mi"
      "bitmap_sync part (word_of_nat n) INODE_BITMAP (upd_part part (\<lambda>p. p\<lparr>inode_bitmap := mi\<rparr>) s1) = Some s2" "store_ok dk s2"
      "off_disk dk s2 = off_disk dk (upd_part part (\<lambda>p. p\<lparr>inode_bitmap := mi\<rparr>) s1)"
      "\<forall>k. k \<noteq> unat (inode_bitmap_lba b) \<longrightarrow> media s2 dk k = media s1 dk k" "bm_size mi = bm_size (inode_bitmap (parts s1 part))"
      "\<forall>j < bm_size mi. bm_bit mi j \<longleftrightarrow> bm_bit (inode_bitmap (parts s1 part)) j \<and> j \<noteq> n"
    using free_inode_number [OF s1(2) part1 dk1 areas1 n(1) n1] by (elim exE conjE, intro that) assumption+
  note same2 = off_disk_eq [OF s2(4)] off_disk_fs [OF s2(4)]
  have p2: "parts s2 = (parts s)(part := (parts s part)\<lparr>block_bitmap := mb, inode_bitmap := mi\<rparr>)" "cur_part s2 = cur_part s"
      "inodes s2 = inodes s" "kern s2 = kern s"
    using same2 p1 by (simp_all add: upd_part_def)
  have run: "release_disk part ino n s = Some s2"
    using blocks s2(1,2) unfolding release_disk_def p1(2) part [symmetric] by (auto simp: p1(2) part [symmetric] split: bind_splits prod.splits if_splits)
  have "volume_ok part b s2" using s1(2) s2(3) p2(1) p1(1) dk by (simp add: volume_ok_def)
  moreover have "used_block part b s2 x = used_block part b s1 x" for x using p2(1) p1(1) by (simp add: used_block_def)
  moreover have "media s2 dk k = media s dk k" if "unat (inode_table_lba b) \<le> k" for k
    using s2(5) s1(5) that areas unfolding bitmap_sector_def areas_ok_def by auto
  ultimately show ?thesis
    using run p2 s1(3) s2(6,7) p1(1) by (intro exI [of _ mb] exI [of _ mi] exI [of _ s2]) simp
qed

subsection \<open>The whole release\<close>

lemma open_from_disk:
  assumes ok: "fs_ok part b L (Suc (Suc k)) s" and n: "n < 4096" and no: "i_no (disk_inode part b s n) = word_of_nat n"
    and closed: "opened part s (word_of_nat n) = None"
  shows "\<exists>a k'. inode_open part (word_of_nat n) s = Some (a, (upd_part part (\<lambda>p. p\<lparr>open_inodes := a # open_inodes p\<rparr>) s)\<lparr>kern := k',
      inodes := (inodes s)(a \<mapsto> (disk_inode part b s n)\<lparr>i_open_cnts := 1, inode_tag := Some part\<rparr>)\<rparr>) \<and> heap_frame (kern s) k' \<and> a \<notin> L \<and>
    opened part ((upd_part part (\<lambda>p. p\<lparr>open_inodes := a # open_inodes p\<rparr>) s)\<lparr>kern := k',
      inodes := (inodes s)(a \<mapsto> (disk_inode part b s n)\<lparr>i_open_cnts := 1, inode_tag := Some part\<rparr>)\<rparr>) = (opened part s)(word_of_nat n \<mapsto> 1) \<and>
    fs_ok part b (insert a L) k ((upd_part part (\<lambda>p. p\<lparr>open_inodes := a # open_inodes p\<rparr>) s)\<lparr>kern := k',
      inodes := (inodes s)(a \<mapsto> (disk_inode part b s n)\<lparr>i_open_cnts := 1, inode_tag := Some part\<rparr>)\<rparr>)"
proof -
  note D = fs_okD [OF ok]
  have "find (\<lambda>a. i_no (the (inodes s a)) = word_of_nat n) (open_inodes (parts s part)) = None"
    using closed by (simp add: opened_def)
  then have fo: "find_open (word_of_nat n) (open_inodes (parts s part)) (inodes s) = Some None"
    using find_open_eq [of "open_inodes (parts s part)" "inodes s" "word_of_nat n"] opens_okD(2) [OF D(3)] by auto
  obtain a k' where l: "load_inode part (word_of_nat n) s = Some (a, (upd_part part (\<lambda>p. p\<lparr>open_inodes := a # open_inodes p\<rparr>) s)\<lparr>kern := k',
      inodes := (inodes s)(a \<mapsto> (disk_inode part b s n)\<lparr>i_open_cnts := 1, inode_tag := Some part\<rparr>)\<rparr>)" "heap_frame (kern s) k'"
    using load_inode_ok [OF D(1) n D(2)] by blast
  have io: "inode_open part (word_of_nat n) s = load_inode part (word_of_nat n) s" using fo by (simp add: inode_open_def)
  have "opened part s (word_of_nat n) \<noteq> Some (- 1)" using closed by simp
  then obtain a' s' where o: "inode_open part (word_of_nat n) s = Some (a', s')" "a' \<notin> L" "fs_ok part b (insert a' L) k s'"
      "opened part s' = (opened part s)(word_of_nat n \<mapsto> 1)"
    using inode_open_ok [OF ok n no] closed by (metis option.case(1))
  then show ?thesis using l io by (intro exI [of _ a] exI [of _ k']) auto
qed

text \<open>
  C26: deleting a file gives back exactly what it had. For a closed inode whose blocks are in use and different,
  \<open>inode_release\<close> succeeds; afterwards a block is in use if it was and is not one of the inode's, the indirect
  table's included, a number is in use if it was and is not the inode's, the place of the inode in the table is cleared and
  every other inode and every sector of the data area is as before, and so are the open inodes and the heap.
\<close>

theorem inode_release_frees:
  assumes ok: "fs_ok part b L (Suc (Suc (Suc k))) s" and v: "volume_ok part b s" and part: "part = cur_part s" and areas: "areas_ok part b s"
    and n: "n < 4096" "n < bm_size (inode_bitmap (parts s part))" "bm_wf (inode_bitmap (parts s part))"
    and closed: "opened part s (word_of_nat n) = None" and ino: "ino = disk_inode part b s n" "i_no ino = word_of_nat n"
    and dk: "dk = my_disk (parts s part)" and own: "\<forall>a \<in> set (file_blocks dk s ino). a \<noteq> 0 \<longrightarrow> owned part b s a"
    and dist: "distinct (filter (\<lambda>a. a \<noteq> 0) (file_blocks dk s ino))"
  shows "\<exists>s'. inode_release part (word_of_nat n) s = Some s' \<and>
    (\<forall>x. used_block part b s' x \<longleftrightarrow> used_block part b s x \<and> x \<notin> set (file_blocks dk s ino)) \<and>
    (\<forall>j < bm_size (inode_bitmap (parts s part)). bm_bit (inode_bitmap (parts s' part)) j \<longleftrightarrow> bm_bit (inode_bitmap (parts s part)) j \<and> j \<noteq> n) \<and>
    inode_slot part b s' n = replicate 76 0 \<and> (\<forall>m < 4096. m \<noteq> n \<longrightarrow> disk_inode part b s' m = disk_inode part b s m) \<and>
    (\<forall>m. unat (data_start_lba b) \<le> m \<longrightarrow> media s' dk m = media s dk m) \<and>
    opened part s' = opened part s \<and> fs_ok part b L k s' \<and> volume_ok part b s'"
proof -
  let ?n = "word_of_nat n :: u32" let ?i = "ino\<lparr>i_open_cnts := 1, inode_tag := Some part\<rparr>"
  obtain a k1 where op: "inode_open part ?n s = Some (a, (upd_part part (\<lambda>p. p\<lparr>open_inodes := a # open_inodes p\<rparr>) s)\<lparr>kern := k1,
        inodes := (inodes s)(a \<mapsto> ?i)\<rparr>)" "heap_frame (kern s) k1" "a \<notin> L"
      "opened part ((upd_part part (\<lambda>p. p\<lparr>open_inodes := a # open_inodes p\<rparr>) s)\<lparr>kern := k1, inodes := (inodes s)(a \<mapsto> ?i)\<rparr>) =
        (opened part s)(?n \<mapsto> 1)"
      "fs_ok part b (insert a L) (Suc k) ((upd_part part (\<lambda>p. p\<lparr>open_inodes := a # open_inodes p\<rparr>) s)\<lparr>kern := k1, inodes := (inodes s)(a \<mapsto> ?i)\<rparr>)"
    using open_from_disk [OF ok n(1) _ closed] ino by blast
  define s1 where "s1 = (upd_part part (\<lambda>p. p\<lparr>open_inodes := a # open_inodes p\<rparr>) s)\<lparr>kern := k1, inodes := (inodes s)(a \<mapsto> ?i)\<rparr>"
  note op = op [folded s1_def] and D1 = fs_okD [OF op(5) [folded s1_def]]
  have p1: "parts s1 = (parts s)(part := (parts s part)\<lparr>open_inodes := a # open_inodes (parts s part)\<rparr>)" "cur_part s1 = cur_part s"
      "media s1 = media s" "kern s1 = k1" "inodes s1 = (inodes s)(a \<mapsto> ?i)"
    by (simp_all add: s1_def upd_part_def)
  have st1: "store_ok dk s1" using D1(1) dk p1(1) by (simp add: table_ok_def)
  have v1: "volume_ok part b s1" using v st1 dk p1(1) by (simp add: volume_ok_def)
  have used1: "used_block part b s1 x = used_block part b s x" for x by (simp add: used_block_def p1(1))
  have fb: "file_blocks dk s1 ?i = file_blocks dk s ino" by (simp add: file_blocks_def p1(3))
  have part1: "part = cur_part s1" "dk = my_disk (parts s1 part)" and areas1: "areas_ok part b s1"
    and own1: "\<forall>a \<in> set (file_blocks dk s1 ?i). a \<noteq> 0 \<longrightarrow> owned part b s1 a" "distinct (filter (\<lambda>a. a \<noteq> 0) (file_blocks dk s1 ?i))"
    and n1: "n < bm_size (inode_bitmap (parts s1 part))" "bm_wf (inode_bitmap (parts s1 part))"
    using part dk areas own dist n p1(1,2) used1 unfolding fb by (simp_all add: areas_ok_def owned_def)
  obtain mb mi s2 where s2: "release_disk part ?i n s1 = Some s2" "volume_ok part b s2"
      "parts s2 = (parts s1)(part := (parts s1 part)\<lparr>block_bitmap := mb, inode_bitmap := mi\<rparr>)"
      "\<forall>x. used_block part b s2 x \<longleftrightarrow> used_block part b s1 x \<and> x \<notin> set (file_blocks dk s1 ?i)"
      "bm_size mi = bm_size (inode_bitmap (parts s1 part))"
      "\<forall>j < bm_size mi. bm_bit mi j \<longleftrightarrow> bm_bit (inode_bitmap (parts s1 part)) j \<and> j \<noteq> n"
      "kern s2 = kern s1" "inodes s2 = inodes s1" "cur_part s2 = cur_part s1" "\<forall>k. unat (inode_table_lba b) \<le> k \<longrightarrow> media s2 dk k = media s1 dk k"
    using release_parts [OF v1 part1 areas1 own1 n(1) n1] by (elim exE conjE, intro that) assumption+
  obtain c k2 k3 where m: "sys_malloc 1024 k1 = Some (c, k2)" "c \<noteq> 0" "heap_frame k1 k2" "sys_free c k2 = Some k3"
      "heap_ready k3 (insert a L) k" "heap_frame k1 k3"
    using kh.scratch_buffer [OF D1(2) [unfolded p1(4)] small_sizes(3)] by blast
  let ?s3 = "s2\<lparr>kern := k2\<rparr>"
  have p3: "parts ?s3 part = (parts s part)\<lparr>open_inodes := a # open_inodes (parts s part), block_bitmap := mb, inode_bitmap := mi\<rparr>"
    using s2(3) p1(1) by simp
  have "store_ok dk s2" using s2(2,3) p1(1) dk by (simp add: volume_ok_def)
  then have st3: "store_ok dk ?s3" using store_ok_frame [of s2 k2 dk] m(3) s2(7) p1(4) by simp
  have t3: "table_ok part b ?s3" using D1(1) st3 p3 p1(1) dk by (simp add: table_ok_def)
  obtain buf s4 where s4: "inode_delete part ?n (replicate 1024 0) ?s3 = Some (buf, s4)" "table_ok part b s4"
      "inode_slot part b s4 n = replicate 76 0" "only_slot part b n ?s3 s4"
    using inode_delete_slot [OF t3 n(1), of "replicate 1024 0"] by auto
  have dk3: "my_disk (parts ?s3 part) = dk" using p3 dk by simp
  note only = s4(4) [unfolded only_slot_def dk3]
  have o4: "off_disk dk s4 = off_disk dk ?s3" using only by blast
  note same4 = off_disk_eq [OF o4] off_disk_fs [OF o4]
  let ?s5 = "s4\<lparr>kern := k3\<rparr>"
  have p5: "parts ?s5 = parts s2" "inodes ?s5 = inodes s1" "kern ?s5 = k3" using same4 s2(8) by simp_all
  have oi: "open_inodes (parts ?s5 part) = open_inodes (parts s1 part)" using p5(1) s2(3) by simp
  have t5: "table_ok part b ?s5"
  proof -
    have "kern s4 = k2" using same4(1) by simp
    have "store_ok dk s1" "kern s1 = k1" using st1 p1(4) by simp_all
    moreover have "store_ok dk (s4\<lparr>kern := k3\<rparr>)"
    proof -
      have "store_ok dk s4" using s4(2) dk3 same4(2) by (simp add: table_ok_def)
      moreover have "heap_frame (kern s4) k3"
        using m(3,6) same4(1) by (simp add: heap_frame_def)
      ultimately show ?thesis using store_ok_frame by blast
    qed
    ultimately show ?thesis using s4(2) dk3 same4(2) by (simp add: table_ok_def)
  qed
  have "opens_ok part (insert a L) ?s5" "opened part ?s5 = opened part s1"
    using D1(3) oi p5(2) by (simp_all add: opens_ok_def opened_def fun_eq_iff)
  then have ok5: "fs_ok part b (insert a L) k ?s5" and opened5: "opened part ?s5 = opened part s1"
    using t5 m(5) by (simp_all add: fs_ok_def)
  have a5: "a \<in> set (open_inodes (parts ?s5 part))" "inodes ?s5 a = Some ?i" using oi p1(1,5) p5(2) by simp_all
  obtain s6 L' where s6: "inode_close a ?s5 = Some s6" "fs_ok part b L' k s6" "opened part s6 = (opened part ?s5)(?n := None)" "L' = insert a L - {a}"
      "media s6 = media ?s5"
    using inode_close_ok [OF ok5 a5] ino(2) by auto
  obtain f where p6: "parts s6 = (\<lambda>p. (parts ?s5 p)\<lparr>open_inodes := f p\<rparr>)" using inode_close_parts(1) [OF s6(1)] by blast
  have L': "L' = L" using s6(4) op(3) by blast
  have run: "inode_release part ?n s = Some s6"
    unfolding inode_release_steps [OF n(1)]
    using op(1) p1(4,5) ino(2) s2(1,7) m(1,2,4) s4(1) same4(1) s6(1) by (simp add: fs_malloc_def fs_free_def)
  have op6: "opened part s6 = opened part s"
  proof -
    have "opened part s6 m = opened part s m" for m using s6(3) opened5 op(4) closed by simp
    then show ?thesis by (rule ext)
  qed
  have v6: "volume_ok part b s6"
    using s2(2) fs_okD(1) [OF s6(2)] p6 p5(1) by (simp add: volume_ok_def table_ok_def)
  have used6: "used_block part b s6 x \<longleftrightarrow> used_block part b s x \<and> x \<notin> set (file_blocks dk s ino)" for x
  proof -
    have "used_block part b s6 x = used_block part b s2 x" using p6 p5(1) by (simp add: used_block_def)
    also have "\<dots> \<longleftrightarrow> used_block part b s1 x \<and> x \<notin> set (file_blocks dk s1 ?i)" using s2(4) by blast
    finally show ?thesis unfolding fb used1 .
  qed
  have bit6: "bm_bit (inode_bitmap (parts s6 part)) j \<longleftrightarrow> bm_bit (inode_bitmap (parts s part)) j \<and> j \<noteq> n" if "j < bm_size (inode_bitmap (parts s part))" for j
    using s2(3,5,6) p6 p5(1) p1(1) that by simp
  have slot6: "inode_slot part b s6 m = inode_slot part b s4 m" for m
    using s6(5) p6 same4(2) by (simp add: inode_slot_def bs.byte_def)
  have other: "disk_inode part b s6 m = disk_inode part b s m" if "m < 4096" "m \<noteq> n" for m
  proof -
    have "inode_slot part b s4 m = inode_slot part b ?s3 m" using only that(2) by blast
    also have "\<dots> = inode_slot part b s m"
      by (rule inode_slot_same) (use dk3 dk that(1) s2(10) p1(3) in auto)
    finally show ?thesis by (simp add: disk_inode_def slot6)
  qed
  have data: "media s6 dk m = media s dk m" if "unat (data_start_lba b) \<le> m" for m
  proof -
    have "unat (inode_table_lba b) + 608 \<le> m" using that areas unfolding areas_ok_def by linarith
    then show ?thesis using s6(5) only s2(10) p1(3) by simp
  qed
  show ?thesis
    using run used6 bit6 slot6 s4(3) other data op6 s6(2) L' v6 by (intro exI [of _ s6]) simp
qed

subsection \<open>An example\<close>

text \<open>A file with number 1 and the one block 676.\<close>

definition demo_rel_inode :: inode where
  "demo_rel_inode = \<lparr>i_no = 1, i_size = 100, i_open_cnts = 0, write_deny = False, i_sectors = 676 # replicate 12 0, inode_tag = None\<rparr>"

definition demo_rel_part :: partition where
  "demo_rel_part = demo_part\<lparr>block_bitmap := \<lparr>btmp_bytes_len = 512, bits = 3 # replicate 511 0\<rparr>,
     inode_bitmap := \<lparr>btmp_bytes_len = 512, bits = 3 # replicate 511 0\<rparr>\<rparr>"

definition demo_rel_fs :: fs_state where
  "demo_rel_fs = demo_fs\<lparr>parts := \<lambda>r. demo_rel_part,
     media := \<lambda>dk n. if n = 67 then replicate 76 0 @ inode_bytes demo_rel_inode @ replicate 360 0 else replicate 512 0\<rparr>"

lemma demo_rel_part_simps [simp]:
  "sb demo_rel_part = Some demo_sb" "my_disk demo_rel_part = (0, 1)" "start_lba demo_rel_part = 63" "sec_cnt demo_rel_part = 2000"
  "block_bitmap demo_rel_part = \<lparr>btmp_bytes_len = 512, bits = 3 # replicate 511 0\<rparr>"
  "inode_bitmap demo_rel_part = \<lparr>btmp_bytes_len = 512, bits = 3 # replicate 511 0\<rparr>" "open_inodes demo_rel_part = []"
  by (simp_all add: demo_rel_part_def)

lemma demo_rel_simps [simp]:
  "kern demo_rel_fs = kern demo_fs" "channels demo_rel_fs = channels demo_fs" "ide_status demo_rel_fs = ide_status demo_fs"
  "parts demo_rel_fs = (\<lambda>r. demo_rel_part)" "cur_part demo_rel_fs = demo_root" "inodes demo_rel_fs = Map.empty"
  "media demo_rel_fs = (\<lambda>dk n. if n = 67 then replicate 76 0 @ inode_bytes demo_rel_inode @ replicate 360 0 else replicate 512 0)"
  by (simp_all add: demo_rel_fs_def)

lemma demo_rel_length: "length (i_sectors demo_rel_inode) = 13" "length (inode_bytes demo_rel_inode) = 76"
  by (simp_all add: demo_rel_inode_def)

lemma demo_rel_store: "store_ok (0, 1) demo_rel_fs"
  using demo_store demo_rel_length(2) by (simp add: store_ok_def disk_ready_def drive_ok_def whole_sectors_def)

lemma demo_rel_disk: "disk_inode demo_root demo_sb demo_rel_fs 1 = demo_rel_inode"
proof -
  have "bs.byte (0, 1) demo_rel_fs (67 * 512 + 76 + j) = inode_bytes demo_rel_inode ! j" if "j < 76" for j
  proof -
    have "(76 + j + 67 * 512) div 512 = 67" "(76 + j + 67 * 512) mod 512 = 76 + j"
      using that by (simp_all only: div_mult_self3 mod_mult_self3 div_mult_self1 mod_mult_self1 div_less mod_less)
    then have "(67 * 512 + 76 + j) div 512 = 67" "(67 * 512 + 76 + j) mod 512 = 76 + j" by (simp_all only: add.commute add.assoc add.left_commute)
    then show ?thesis using that demo_rel_length(2) unfolding bs.byte_def by (simp add: nth_append)
  qed
  then have "inode_slot demo_root demo_sb demo_rel_fs 1 = inode_bytes demo_rel_inode"
    using demo_rel_length(2) by (intro nth_equalityI) (simp_all add: inode_slot_def)
  then show ?thesis unfolding disk_inode_def using demo_rel_length(1) by (simp add: inode_roundtrip demo_rel_inode_def)
qed

lemma demo_rel_ready:
  "\<exists>L. fs_ok demo_root demo_sb L 7 demo_rel_fs" "volume_ok demo_root demo_sb demo_rel_fs" "areas_ok demo_root demo_sb demo_rel_fs"
proof -
  obtain L where "fs_ok demo_root demo_sb L 7 demo_fs" using demo_fs_ok by blast
  then have "heap_ready (kern demo_rel_fs) L 7" by (simp add: fs_ok_def)
  moreover have "table_ok demo_root demo_sb demo_rel_fs" using demo_rel_store by (simp add: table_ok_def)
  ultimately show "\<exists>L. fs_ok demo_root demo_sb L 7 demo_rel_fs" by (auto simp: fs_ok_def opens_ok_def)
  show "volume_ok demo_root demo_sb demo_rel_fs" using demo_rel_store by (simp add: volume_ok_def bm_wf_def bm_size_def)
  show "areas_ok demo_root demo_sb demo_rel_fs" by (simp add: areas_ok_def)
qed

theorem inode_release_frees_witness:
  "\<exists>s'. inode_release demo_root 1 demo_rel_fs = Some s' \<and> used_block demo_root demo_sb demo_rel_fs 676 \<and>
    \<not> used_block demo_root demo_sb s' 676 \<and> used_block demo_root demo_sb s' 675 \<and>
    bm_bit (inode_bitmap (parts s' demo_root)) 0 \<and> \<not> bm_bit (inode_bitmap (parts s' demo_root)) 1"
proof -
  obtain L where L: "fs_ok demo_root demo_sb L (Suc (Suc (Suc 4))) demo_rel_fs" using demo_rel_ready(1) by (auto simp: eval_nat_numeral)
  have fb: "file_blocks (0, 1) demo_rel_fs demo_rel_inode = 0 # 676 # replicate 11 0"
    by (simp add: file_blocks_def demo_rel_inode_def eval_nat_numeral)
  have u: "used_block demo_root demo_sb demo_rel_fs 676" "used_block demo_root demo_sb demo_rel_fs 675"
    by (simp_all add: used_block_def bm_size_def bm_bit_def)
  have own: "\<forall>a \<in> set (0 # 676 # replicate 11 0). a \<noteq> 0 \<longrightarrow> owned demo_root demo_sb demo_rel_fs a"
    using u by (simp add: owned_def)
  have b: "1 < bm_size (inode_bitmap (parts demo_rel_fs demo_root))" "bm_wf (inode_bitmap (parts demo_rel_fs demo_root))"
      "bm_bit (inode_bitmap (parts demo_rel_fs demo_root)) 0"
    by (simp_all add: bm_size_def bm_wf_def bm_bit_def)
  have o: "opened demo_root demo_rel_fs (word_of_nat 1) = None" by (simp add: opened_None)
  have "demo_root = cur_part demo_rel_fs" "i_no demo_rel_inode = word_of_nat 1" "(0, 1) = my_disk (parts demo_rel_fs demo_root)"
    by (simp_all add: demo_rel_inode_def)
  from inode_release_frees [OF L demo_rel_ready(2) this(1) demo_rel_ready(3) _ b(1,2) o demo_rel_disk [symmetric] this(2,3), unfolded fb]
  obtain s' where s': "inode_release demo_root (word_of_nat 1) demo_rel_fs = Some s'"
      "\<forall>x. used_block demo_root demo_sb s' x \<longleftrightarrow> used_block demo_root demo_sb demo_rel_fs x \<and> x \<notin> set (0 # 676 # replicate 11 0)"
      "\<forall>j < bm_size (inode_bitmap (parts demo_rel_fs demo_root)). bm_bit (inode_bitmap (parts s' demo_root)) j \<longleftrightarrow>
        bm_bit (inode_bitmap (parts demo_rel_fs demo_root)) j \<and> j \<noteq> 1"
    using own by auto
  have "bm_bit (inode_bitmap (parts s' demo_root)) 0" "\<not> bm_bit (inode_bitmap (parts s' demo_root)) 1"
    using s'(3) b(1,3) by auto
  moreover have "used_block demo_root demo_sb s' 675" "\<not> used_block demo_root demo_sb s' 676" using s'(2) u by simp_all
  ultimately show ?thesis using s'(1) u(1) by auto
qed

end
