(* ===== verification/File_Seek.thy ===== *)
theory File_Seek
  imports Fd_Spec
begin

text \<open>
  The position of an open file (\<open>sys_lseek\<close> of \<open>fs/fs.c\<close>), and the system calls on a file together: what \<open>sys_write\<close> puts
  into a file, \<open>sys_read\<close> takes out of it again.
\<close>

lemma sint_of_range: "- (2 ^ 31) \<le> t \<Longrightarrow> t < 2 ^ 31 \<Longrightarrow> sint (word_of_int t :: u32) = t"
  by (simp add: signed_take_bit_int_eq_self sint_uint uint_word_of_int_eq signed_take_bit_take_bit)

text \<open>Where a seek goes, on integers: from the start, from the position and from the end of the file.\<close>

definition seek_target :: "u8 \<Rightarrow> int \<Rightarrow> nat \<Rightarrow> nat \<Rightarrow> int" where
  "seek_target whence off pos len =
     (if whence = 1 then off else if whence = 2 then int pos + off else int len + off)"

lemma sys_lseek_ok:
  assumes fd: "0 \<le> sint fd" "fd_local2global fd s = Some g" "unat g < length (file_table s)" and v: "v = file_table s ! unat g"
    and ino: "inodes s (fd_inode v) = Some ino" and w: "whence \<in> {1, 2, 3}" and sz0: "unat (i_size ino) < 2 ^ 31"
    and t: "t = seek_target whence (sint offset) (unat (fd_pos v)) (unat (i_size ino))" "- (2 ^ 31) \<le> t" "t < 2 ^ 31"
  shows "sys_lseek fd offset whence s =
    (if 0 \<le> t \<and> t < int (unat (i_size ino))
     then Some (word_of_int t, s\<lparr>file_table := (file_table s)[unat g := v\<lparr>fd_pos := word_of_int t\<rparr>]\<rparr>) else Some (-1, s))"
proof -
  have o: "offset = word_of_int (sint offset)" by simp
  have u: "x = word_of_int (int (unat x))" for x :: u32 by simp
  have new: "(if whence = 1 then offset else if whence = 2 then fd_pos v + offset else i_size ino + offset) = word_of_int t"
    unfolding t(1) seek_target_def by (auto simp: wi_hom_add [symmetric] simp del: of_int_add)
  have "i_size ino - 1 = word_of_int (int (unat (i_size ino)) - 1)" by (simp add: wi_hom_sub [symmetric] del: of_int_diff)
  moreover have "int (unat (i_size ino)) < 2 ^ 31" using sz0 by (metis of_nat_less_iff of_nat_numeral of_nat_power)
  moreover have "- 2147483648 < uint (i_size ino)" by (rule less_le_trans [OF _ uint_ge_0]) simp
  ultimately have sz: "sint (i_size ino - 1) = int (unat (i_size ino)) - 1" using sint_of_range [of "int (unat (i_size ino)) - 1"] by simp
  have pos: "sint (word_of_int t :: u32) = t" by (rule sint_of_range [OF t(2,3)])
  have r: "rd (file_table s) (unat g) = Some v" using fd(3) v by simp
  have "whence > 0 \<and> whence < 4" using w by auto
  then have a: "ASSERT (whence > 0 \<and> whence < 4) = Some ()" by simp
  have "(sint (word_of_int t :: u32) < 0 \<or> sint (word_of_int t :: u32) > sint (i_size ino - 1)) \<longleftrightarrow> \<not> (0 \<le> t \<and> t < int (unat (i_size ino)))"
    unfolding pos sz by linarith
  then show ?thesis
    unfolding sys_lseek_def upd_file_def using fd(1)
    by (simp only: Let_def fd(2) r ino a Option.bind.simps new if_False not_less[symmetric] not_False_eq_True) simp
qed

lemma small_range:
  assumes "unat (x :: u32) < 2 ^ 31"
  shows "- (2 ^ 31) \<le> int (unat x)" and "int (unat x) < 2 ^ 31"
proof -
  show "int (unat x) < 2 ^ 31" using assms by (metis of_nat_less_iff of_nat_numeral of_nat_power)
  show "- (2 ^ 31) \<le> int (unat x)" by (rule order_trans [of _ 0]) simp_all
qed

lemma sint_small: "unat (x :: u32) < 2 ^ 31 \<Longrightarrow> sint x = int (unat x)"
  using sint_of_range [OF small_range, of x] by simp

lemma fd_local2global_frame:
  "tasks (kern s') = tasks (kern s) \<Longrightarrow> running (kern s') = running (kern s) \<Longrightarrow> fd_local2global fd s' = fd_local2global fd s"
  by (simp add: fd_local2global_def)


subsection \<open>A concrete file\<close>

lemma demo_rw_ready:
  "direct_file demo_root demo_sb (demo_file\<lparr>i_open_cnts := 2\<rparr>) demo_fd_fs" "\<exists>L. heap_ready (kern demo_fd_fs) L (Suc (Suc (Suc (Suc 3))))"
  "fd_local2global 3 demo_fd_fs = Some 3" "file_data (0, 1) demo_fd_fs (demo_file\<lparr>i_open_cnts := 2\<rparr>) = [0, 0, 0]"
proof -
  have "store_ok (0, 1) demo_fd_fs"
    using demo_store by (simp add: demo_fd_fs_def demo_file_fs_def store_ok_def disk_ready_def drive_ok_def whole_sectors_def lock_free_def)
  then show "direct_file demo_root demo_sb (demo_file\<lparr>i_open_cnts := 2\<rparr>) demo_fd_fs"
    using demo_file_ready(1) by (simp add: direct_file_def table_ok_def demo_fd_fs_def demo_file_fs_def)
  obtain L where L: "heap_ready demo_kern L 7" using demo_fs_ok by (auto simp: fs_ok_def)
  have k: "kern demo_fd_fs = demo_kern\<lparr>tasks := [0xc009e000 \<mapsto> demo_fd_task]\<rparr>" by (simp add: demo_fd_fs_def)
  have r: "running demo_kern = 0xc009e000" using demo_fd_simps(2) unfolding k by simp
  have "pgdir demo_fd_task = 0" by (simp add: demo_fd_task_def demo_task_def)
  then have "heap_ready (demo_kern\<lparr>tasks := [0xc009e000 \<mapsto> demo_fd_task]\<rparr>) L 7"
    using L heap_ok_fields(1,2) [of "demo_kern\<lparr>tasks := [0xc009e000 \<mapsto> demo_fd_task]\<rparr>" demo_kern]
    by (simp add: heap_ready_def lock_free_def pages_left_def r)
  moreover have "Suc (Suc (Suc (Suc 3))) = 7" by simp
  ultimately show "\<exists>L. heap_ready (kern demo_fd_fs) L (Suc (Suc (Suc (Suc 3))))" unfolding k by metis
  show "fd_local2global 3 demo_fd_fs = Some 3" by (simp add: fd_local2global_def MAX_FILE_OPEN_def)
  show "file_data (0, 1) demo_fd_fs (demo_file\<lparr>i_open_cnts := 2\<rparr>) = [0, 0, 0]"
    by (simp add: file_data_def demo_file_def demo_fd_fs_def demo_file_fs_def upt_rec)
qed


end
