(* ===== verification/Fs_Keyboard.thy ===== *)
theory Fs_Keyboard
  imports Fs_Calls Fs_Demo Device_Keyboard
begin

text \<open>
  \<open>sys_read\<close> of \<open>fs/fs.c\<close>, which takes the characters of the standard input from the ring buffer of the keyboard.
\<close>

subsection \<open>Reading the keyboard\<close>

text \<open>
  The loop over the characters: \<open>i\<close> is \<open>bytes_read\<close>, and the number of those still wanted counts down. A reader that has
  to wait leaves its buffer and \<open>bytes_read\<close>, with which \<open>read_keys_resume\<close> goes on.
\<close>

datatype reading = Done u32 "u8 list" | Waits "u8 list" nat

fun read_keys ::
  "u32 \<Rightarrow> u8 list \<Rightarrow> nat \<Rightarrow> nat \<Rightarrow> ioqueue \<Rightarrow> 'z kstate_scheme \<Rightarrow> (reading \<times> ioqueue \<times> 'z kstate_scheme) option" where
  "read_keys count buffer i 0 ioq s = Some (Done (if i = 0 then -1 else count) buffer, ioq, s)"
| "read_keys count buffer i (Suc n) ioq s =
     Option.bind (ioq_getchar ioq s) (\<lambda>(r, ioq, s).
       case r of Suspended \<Rightarrow> Some (Waits buffer i, ioq, s)
       | Returned byte \<Rightarrow> Option.bind (wr buffer i byte) (\<lambda>buffer. read_keys count buffer (i + 1) n ioq s))"

definition read_keys_resume ::
  "u32 \<Rightarrow> u8 list \<Rightarrow> nat \<Rightarrow> ioqueue \<Rightarrow> 'z kstate_scheme \<Rightarrow> (reading \<times> ioqueue \<times> 'z kstate_scheme) option" where
  "read_keys_resume count buffer i ioq s = do {
     (r, ioq, s) \<leftarrow> ioq_getchar_resume ioq s;
     case r of Suspended \<Rightarrow> Some (Waits buffer i, ioq, s)
     | Returned byte \<Rightarrow> do {
         buffer \<leftarrow> wr buffer i byte;
         read_keys count buffer (i + 1) (unat count - (i + 1)) ioq s } }"

definition sys_read ::
  "u32 \<Rightarrow> u8 list \<Rightarrow> u32 \<Rightarrow> ioqueue \<Rightarrow> 'z fs_state_scheme \<Rightarrow> (reading \<times> ioqueue \<times> 'z fs_state_scheme) option" where
  "sys_read fd buffer count kbd_buf s =
     (if fd = 0 then do {
        (r, kbd_buf, k) \<leftarrow> read_keys count buffer 0 (unat count) kbd_buf (kern s);
        Some (r, kbd_buf, s\<lparr>kern := k\<rparr>) }
      else do {
        ((ret, buffer), s) \<leftarrow> sys_read_file fd buffer count s;
        Some (Done ret buffer, kbd_buf, s) })"

text \<open>What is in the buffer is taken in order, and the kernel does not change.\<close>

lemma read_keys_there:
  assumes "ring_ok (ioq, s)" and "n \<le> ioq_count ioq" and "i + n \<le> length buffer"
  shows "\<exists>ioq'. read_keys count buffer i (n + m) ioq s =
      read_keys count (put_bytes buffer i (take n (ioq_contents ioq))) (i + n) m ioq' s \<and>
    ring_ok (ioq', s) \<and> ioq_contents ioq' = drop n (ioq_contents ioq) \<and> consumer ioq' = consumer ioq \<and> ioq_lock ioq' = ioq_lock ioq"
  using assms
proof (induction n arbitrary: i buffer ioq)
  case (Suc n)
  have r: "head ioq < bufsize" "tail ioq < bufsize" "intr_get_status s = INTR_OFF" using Suc.prems(1) by (auto simp: ring_ok_def)
  have ne: "head ioq \<noteq> tail ioq" using Suc.prems(2) by (auto simp: ioq_count_def)
  let ?c = "buf ioq ! tail ioq"
  obtain q where q: "ioq_getchar ioq s = Some (Returned ?c, q, s)" "ring_ok (q, s)" "ioq_contents ioq = ?c # ioq_contents q"
      "consumer q = consumer ioq" "ioq_lock q = ioq_lock ioq"
    using ioq_getchar_ok [OF Suc.prems(1) ne] Suc.prems(1) by (auto simp: ioq_getchar_def ring_ok_def ioq_empty_def split: bind_splits if_splits)
  have "ioq_count ioq = Suc (ioq_count q)" using arg_cong [OF q(3), of length] by simp
  then have n: "n \<le> ioq_count q" "i + 1 + n \<le> length (buffer[i := ?c])" using Suc.prems by simp_all
  obtain q' where q': "read_keys count (buffer[i := ?c]) (i + 1) (n + m) q s =
        read_keys count (put_bytes (buffer[i := ?c]) (i + 1) (take n (ioq_contents q))) (i + 1 + n) m q' s"
      "ring_ok (q', s)" "ioq_contents q' = drop n (ioq_contents q)" "consumer q' = consumer q" "ioq_lock q' = ioq_lock q"
    using Suc.IH [OF q(2) n] by blast
  have "put_bytes (buffer[i := ?c]) (i + 1) (take n (ioq_contents q)) = put_bytes buffer i (take (Suc n) (ioq_contents ioq))"
    using put_bytes_adj [of i "[?c]" "take n (ioq_contents q)" buffer] n(1) Suc.prems(3) q(3)
    by (simp add: put_bytes_single)
  then show ?case using q q' Suc.prems(3) by (intro exI [of _ q']) simp
qed auto

lemma sched_ok_held [simp]: "sched_ok (held_by p t s) = sched_ok s" "st (held_by p t s) = st s"
  by (simp_all add: held_by_def sched_ok_def tasks_ok_def dirs_ok_def st_def fun_eq_iff)

text \<open>A reader that finds nothing sleeps, with the lock, and is what the next character wakes up.\<close>

lemma read_keys_waits:
  assumes ring: "ring_ok (ioq, s)" and empty: "ioq_contents ioq = []" and c: "consumer ioq = 0"
    and ok: "sched_ok s" and ni: "running s \<noteq> idle_thread s" and free: "lock_free (ioq_lock ioq) s"
  shows "\<exists>s'. read_keys count buffer i (Suc n) ioq s = Some (Waits buffer i, ioq\<lparr>consumer := running s\<rparr>, s') \<and>
    ring_ok (ioq\<lparr>consumer := running s\<rparr>, s') \<and> sched_ok s' \<and> locks s' = locks (held_by (ioq_lock ioq) (running s) s) \<and>
    semas s' = semas (held_by (ioq_lock ioq) (running s) s)"
proof -
  have r: "tail ioq < bufsize" "intr_get_status s = INTR_OFF" using ring by (auto simp: ring_ok_def)
  then have e: "head ioq = tail ioq" using empty contents_Nil by blast
  have r0: "running s \<noteq> 0" using ok by (auto simp: sched_ok_def tasks_ok_def)
  let ?h = "held_by (ioq_lock ioq) (running s) s"
  have h: "sched_ok ?h" "running ?h = running s" "thread_ready_list ?h = thread_ready_list s" "idle_thread ?h = idle_thread s"
    using ok by (simp_all, simp_all add: held_by_def)
  let ?nxt = "if thread_ready_list s = [] then idle_thread s else hd (thread_ready_list s)"
  obtain s' where b: "thread_block TASK_BLOCKED ?h = Some s'" and sw: "switched ?h s' TASK_BLOCKED ?nxt"
    using thread_block_ok [OF h(1)] unfolding h by blast
  have "read_keys count buffer i (Suc n) ioq s = Some (Waits buffer i, ioq\<lparr>consumer := running s\<rparr>, s')"
    using r e lock_acquire_now_free [OF free r0] b h(2) c
    by (simp add: ioq_getchar_def ioq_empty_def ioq_wait_def)
  moreover have "running s \<noteq> ?nxt" using ni running_not_ready [OF ok] by auto
  then have w: "st s' (running s) = Some TASK_BLOCKED" using sw h(2) by (simp add: switched_def)
  moreover have "running s \<notin> set (thread_ready_list s')" using w ready_st [of s' "running s"] sw by (auto simp: switched_def)
  ultimately show ?thesis using sw ring by (auto simp: switched_def ring_ok_def)
qed

text \<open>When it runs again, with the lock as it left it, it takes the next character.\<close>

lemma read_keys_goes_on:
  assumes ring: "ring_ok (ioq, s)" and c: "ioq_contents ioq = c # cs" and i: "i < length buffer"
    and l: "locks s (ioq_lock ioq) = Some \<lparr>holder = running s, holder_repeat_nr = 1\<rparr>"
      "semas s (lock_sema (ioq_lock ioq)) = Some \<lparr>value = 0, waiters = []\<rparr>"
  shows "\<exists>ioq' s'. read_keys_resume count buffer i ioq s = read_keys count (buffer[i := c]) (i + 1) (unat count - (i + 1)) ioq' s' \<and>
    ring_ok (ioq', s') \<and> ioq_contents ioq' = cs \<and> lock_free (ioq_lock ioq') s'"
proof -
  obtain s' where s': "lock_release_now (ioq_lock ioq) s = Some s'" "lock_free (ioq_lock ioq) s'" "ring_ok (ioq, s')"
    using lock_release_now_held [OF l] ring by (auto simp: lock_free_def ring_ok_def st_def intr_get_status_def)
  have ne: "head ioq \<noteq> tail ioq" using c contents_Nil [of ioq] ring by (auto simp: ring_ok_def)
  obtain q where "ioq_getchar ioq s' = Some (Returned c, q, s')" "ring_ok (q, s')" "ioq_contents q = cs" "ioq_lock q = ioq_lock ioq"
    using ioq_getchar_ok [OF s'(3) ne] c s'(3) by (auto simp: ioq_getchar_def ring_ok_def ioq_empty_def split: bind_splits if_splits)
  then show ?thesis using s'(1,2) i
    by (intro exI [of _ q] exI [of _ s']) (simp add: read_keys_resume_def ioq_getchar_resume_def)
qed

lemma ioq_putchar_wakes:
  fixes s :: "'z kstate_scheme"
  assumes ring: "ring_ok (ioq, s)" and c: "consumer ioq = t" "t \<noteq> 0" and empty: "ioq_contents ioq = []"
  shows "\<exists>q s'. try_putchar c (ioq, s) = Some (q, s') \<and> st s' t = Some TASK_READY \<and> ioq_contents q = [c] \<and>
    (\<forall>s2 :: 'z kstate_scheme. intr_get_status s2 = INTR_OFF \<longrightarrow> ring_ok (q, s2)) \<and> ioq_lock q = ioq_lock ioq \<and> locks s' = locks s \<and> semas s' = semas s"
proof -
  have r: "head ioq < bufsize" "tail ioq < bufsize" "intr_get_status s = INTR_OFF" "producer ioq = 0"
    using ring by (auto simp: ring_ok_def)
  then have e: "head ioq = tail ioq" using empty contents_Nil by blast
  then have nf: "next_pos (head ioq) \<noteq> tail ioq" using r(2) by (auto simp: next_pos_def bufsize_def mod_Suc)
  obtain q s' where q: "ioq_putchar ioq c s = Some (Returned (), q, s')" "ring_ok (q, s')" "ioq_contents q = ioq_contents ioq @ [c]" "consumer q = 0"
    using ioq_putchar_ok [OF ring nf] by blast
  obtain p where p: "thread_unblock t s = Some (s\<lparr>thread_ready_list := t # thread_ready_list s,
         tasks := (tasks s)(t \<mapsto> p\<lparr>status := TASK_READY\<rparr>)\<rparr>)"
    using thread_unblock_ok [of s t] ring c by (auto simp: ring_ok_def)
  have "s' = s\<lparr>thread_ready_list := t # thread_ready_list s, tasks := (tasks s)(t \<mapsto> p\<lparr>status := TASK_READY\<rparr>)\<rparr>" "ioq_lock q = ioq_lock ioq"
    using q(1) p c r nf ring by (auto simp: ioq_putchar_def ioq_full_def wakeup_def ring_ok_def)
  moreover have "ring_ok (q, s2)" if "intr_get_status s2 = INTR_OFF" for s2 :: "'z kstate_scheme"
    using q(2,4) that by (simp add: ring_ok_def)
  ultimately show ?thesis using q(1,3) empty nf r by (simp add: try_putchar_def ioq_full_def st_def)
qed

text \<open>
  C16: reading the keyboard. If the buffer holds as many characters as are wanted, \<open>sys_read\<close> of the standard input returns
  that number and the oldest of them, and leaves the others (for 0 characters it returns -1). Otherwise it has taken all
  there are, and the task sleeps. The next key wakes the task up; and when it runs again, it goes on with that character
  behind the ones it has, so nothing is lost or read twice.
\<close>

theorem sys_read_keyboard:
  fixes s :: "'z fs_state_scheme"
  assumes ring: "ring_ok (ioq, kern s)" and idle: "consumer ioq = 0" and ok: "sched_ok (kern s)"
    and ni: "running (kern s) \<noteq> idle_thread (kern s)" and free: "lock_free (ioq_lock ioq) (kern s)" and len: "unat cnt \<le> length buffer"
  defines "xs \<equiv> ioq_contents ioq" and "reader \<equiv> running (kern s)"
  shows "if unat cnt \<le> length xs then
      \<exists>q. sys_read 0 buffer cnt ioq s =
          Some (Done (if cnt = 0 then -1 else cnt) (put_bytes buffer 0 (take (unat cnt) xs)), q, s) \<and>
        ioq_contents q = drop (unat cnt) xs
    else \<exists>q s'. sys_read 0 buffer cnt ioq s = Some (Waits (put_bytes buffer 0 xs) (length xs), q, s') \<and>
        ioq_contents q = [] \<and> st (kern s') reader = Some TASK_BLOCKED \<and>
        (\<forall>c. \<exists>q1 s1. try_putchar c (q, kern s') = Some (q1, s1) \<and> st s1 reader = Some TASK_READY \<and>
          (\<forall>s2 :: kmem. running s2 = reader \<and> locks s2 = locks s1 \<and> semas s2 = semas s1 \<and> intr_get_status s2 = INTR_OFF \<longrightarrow>
            (\<exists>q2 s3. read_keys_resume cnt (put_bytes buffer 0 xs) (length xs) q1 s2 =
               read_keys cnt (put_bytes buffer 0 (xs @ [c])) (length xs + 1) (unat cnt - (length xs + 1)) q2 s3 \<and>
               ring_ok (q2, s3) \<and> ioq_contents q2 = [] \<and> lock_free (ioq_lock q2) s3)))"
proof (cases "unat cnt \<le> length xs")
  case True
  then have n: "unat cnt \<le> ioq_count ioq" "0 + unat cnt \<le> length buffer" using len by (simp_all add: xs_def)
  obtain q where q: "read_keys cnt buffer 0 (unat cnt + 0) ioq (kern s) =
      read_keys cnt (put_bytes buffer 0 (take (unat cnt) xs)) (0 + unat cnt) 0 q (kern s)" "ioq_contents q = drop (unat cnt) xs"
    using read_keys_there [OF ring n, of cnt 0] unfolding xs_def by blast
  moreover have "unat cnt = 0 \<longleftrightarrow> cnt = 0" by (simp add: unat_eq_0)
  ultimately show ?thesis using True by (simp add: sys_read_def)
next
  case False
  have n: "length xs \<le> ioq_count ioq" "0 + length xs \<le> length buffer" using False len by (simp_all add: xs_def)
  obtain m where m: "unat cnt = length xs + Suc m" using False by (metis add_Suc_right less_imp_Suc_add not_le)
  obtain q where q: "read_keys cnt buffer 0 (length xs + Suc m) ioq (kern s) =
      read_keys cnt (put_bytes buffer 0 xs) (0 + length xs) (Suc m) q (kern s)"
      "ring_ok (q, kern s)" "ioq_contents q = []" "consumer q = 0" "ioq_lock q = ioq_lock ioq"
    using read_keys_there [OF ring n, of cnt "Suc m"] idle unfolding xs_def by auto
  have free': "lock_free (ioq_lock q) (kern s)" using free q(5) by simp
  let ?b = "put_bytes buffer 0 xs" and ?q = "q\<lparr>consumer := reader\<rparr>"
  obtain k where k: "read_keys cnt ?b (length xs) (Suc m) q (kern s) = Some (Waits ?b (length xs), ?q, k)"
      "ring_ok (?q, k)" "locks k = locks (held_by (ioq_lock ioq) reader (kern s))" "semas k = semas (held_by (ioq_lock ioq) reader (kern s))"
    using read_keys_waits [OF q(2,3,4) ok ni free', of cnt ?b "length xs" m] unfolding q(5) reader_def by blast
  have call: "sys_read 0 buffer cnt ioq s = Some (Waits ?b (length xs), ?q, s\<lparr>kern := k\<rparr>)"
    using q(1) k(1) m by (simp add: sys_read_def)
  have r0: "reader \<noteq> 0" using ok by (auto simp: reader_def sched_ok_def tasks_ok_def)
  have st: "st k reader = Some TASK_BLOCKED" using k(2) r0 by (simp add: ring_ok_def)
  have e: "ioq_contents ?q = []" "consumer ?q = reader" using q(3) by simp_all
  have more: "\<exists>q1 s1. try_putchar c (?q, k) = Some (q1, s1) \<and> st s1 reader = Some TASK_READY \<and>
      (\<forall>s2 :: kmem. running s2 = reader \<and> locks s2 = locks s1 \<and> semas s2 = semas s1 \<and> intr_get_status s2 = INTR_OFF \<longrightarrow>
        (\<exists>q2 s3. read_keys_resume cnt ?b (length xs) q1 s2 =
           read_keys cnt (put_bytes buffer 0 (xs @ [c])) (length xs + 1) (unat cnt - (length xs + 1)) q2 s3 \<and>
           ring_ok (q2, s3) \<and> ioq_contents q2 = [] \<and> lock_free (ioq_lock q2) s3))" for c
  proof -
    obtain q1 s1 where p: "try_putchar c (?q, k) = Some (q1, s1)" "st s1 reader = Some TASK_READY" "ioq_contents q1 = [c]"
        "\<And>s2 :: kmem. intr_get_status s2 = INTR_OFF \<Longrightarrow> ring_ok (q1, s2)" "ioq_lock q1 = ioq_lock q" "locks s1 = locks k" "semas s1 = semas k"
      using ioq_putchar_wakes [OF k(2) e(2) r0 e(1), of c] by auto
    have "\<exists>q2 s3. read_keys_resume cnt ?b (length xs) q1 s2 =
           read_keys cnt (put_bytes buffer 0 (xs @ [c])) (length xs + 1) (unat cnt - (length xs + 1)) q2 s3 \<and>
           ring_ok (q2, s3) \<and> ioq_contents q2 = [] \<and> lock_free (ioq_lock q2) s3"
      if s2: "running s2 = reader \<and> locks s2 = locks s1 \<and> semas s2 = semas s1 \<and> intr_get_status s2 = INTR_OFF" for s2 :: kmem
    proof -
      have l: "locks s2 (ioq_lock q1) = Some \<lparr>holder = running s2, holder_repeat_nr = 1\<rparr>"
          "semas s2 (lock_sema (ioq_lock q1)) = Some \<lparr>value = 0, waiters = []\<rparr>"
        using s2 p(5-7) k(3,4) q(5) by (simp_all add: held_by_def)
      have "?b[length xs := c] = put_bytes buffer 0 (xs @ [c])"
        using put_bytes_adj [of 0 xs "[c]" buffer] put_bytes_single [of "length xs" ?b c] m len by simp
      then show ?thesis
        using read_keys_goes_on [OF p(4) [of s2] p(3) _ l, where i = "length xs" and buffer = ?b and count = cnt] s2 m len by simp
    qed
    then show ?thesis using p by blast
  qed
  show ?thesis using False call e(1) st more by auto
qed

text \<open>The task list of a state that a record of a higher layer extends.\<close>

lemma extend_kstate:
  "running (kstate.extend s m) = running s" "idle_thread (kstate.extend s m) = idle_thread s" "tasks (kstate.extend s m) = tasks s"
  "thread_ready_list (kstate.extend s m) = thread_ready_list s" "eflags (kstate.extend s m) = eflags s" "mmu (kstate.extend s m) = mmu s"
  "locks (kstate.extend s m) = locks s" "semas (kstate.extend s m) = semas s"
  by (simp_all add: kstate.extend_def)

lemma extend_sched_ok: "sched_ok (kstate.extend s m) \<longleftrightarrow> sched_ok s" "intr_get_status (kstate.extend s m) = intr_get_status s"
  unfolding sched_ok_def tasks_ok_def dirs_ok_def st_def intr_get_status_def extend_kstate by (rule refl)+

text \<open>A volume in a kernel with two ready tasks; a buffer with two characters, of which one and three are wanted.\<close>

definition demo_keys_fs :: fs_state where
  "demo_keys_fs = demo_fs\<lparr>kern := kstate.extend demo_kernel (kstate.more demo_kern)\<rparr>"

definition demo_keys :: ioqueue where
  "demo_keys = demo_ioq\<lparr>buf := (replicate 64 0)[63 := 0x6c, 0 := 0x73], head := 1\<rparr>"

theorem sys_read_keyboard_witness:
  "(\<exists>q. sys_read 0 [0, 0, 0] 1 demo_keys demo_keys_fs = Some (Done 1 [0x6c, 0, 0], q, demo_keys_fs) \<and> ioq_contents q = [0x73]) \<and>
   (\<exists>q s'. sys_read 0 [0, 0, 0] 3 demo_keys demo_keys_fs = Some (Waits [0x6c, 0x73, 0] 2, q, s') \<and>
     st (kern s') 0xc009e000 = Some TASK_BLOCKED)"
proof -
  let ?k = "kstate.extend demo_kernel (kstate.more demo_kern)"
  have k: "kern demo_keys_fs = ?k" by (simp add: demo_keys_fs_def)
  have f: "running ?k = 0xc009e000" "idle_thread ?k = 0xc0102000" "locks ?k = locks demo_kernel" "semas ?k = semas demo_kernel"
    by (simp_all add: extend_kstate demo_kernel_def)
  have c: "ioq_contents demo_keys = [0x6c, 0x73]"
    by (simp add: ioq_contents_def ioq_count_def demo_keys_def demo_ioq_def bufsize_def upt_rec)
  have ok: "sched_ok (kern demo_keys_fs)" and ring: "ring_ok (demo_keys, kern demo_keys_fs)"
    using demo_kernel_ok unfolding k by (simp_all add: extend_sched_ok ring_ok_def demo_keys_def demo_ioq_def bufsize_def)
  have r: "consumer demo_keys = 0" "running (kern demo_keys_fs) \<noteq> idle_thread (kern demo_keys_fs)"
      "lock_free (ioq_lock demo_keys) (kern demo_keys_fs)"
    unfolding k by (simp_all add: f lock_free_def lock_sema_def, simp_all add: demo_keys_def demo_ioq_def demo_kernel_def)
  note two = sys_read_keyboard [OF ring r(1) ok r(2,3), of _ "[0, 0, 0]", unfolded c]
  have "\<exists>q. sys_read 0 [0, 0, 0] 1 demo_keys demo_keys_fs = Some (Done 1 [0x6c, 0, 0], q, demo_keys_fs) \<and> ioq_contents q = [0x73]"
    using two [of 1] by (simp add: put_bytes_def)
  moreover have "\<exists>q s'. sys_read 0 [0, 0, 0] 3 demo_keys demo_keys_fs = Some (Waits [0x6c, 0x73, 0] 2, q, s') \<and>
      st (kern s') 0xc009e000 = Some TASK_BLOCKED"
    using two [of 3] unfolding k f(1) by (auto simp: put_bytes_def)
  ultimately show ?thesis by blast
qed

end
