(* ===== verification/Lock_Steps.thy ===== *)
theory Lock_Steps
  imports Kernel_Sync
begin

text \<open>
  What one step of the kernel does to one lock and to the place a task has reached in its operation on it: the protocol of a
  lock as an automaton over the phases of \<open>Kernel_Sync\<close>. The clients of a lock argue with it instead of with the frames.
\<close>

definition lock_next :: "task \<Rightarrow> phase \<Rightarrow> lock \<Rightarrow> phase \<Rightarrow> lock \<Rightarrow> bool" where
  "lock_next r ph l ph' l' \<longleftrightarrow> ph' = ph \<and> l' = l \<or> (case ph of
     Outside \<Rightarrow> False
   | Acquiring \<Rightarrow> (if holder l = r then ph' = Outside \<and> l' = l\<lparr>holder_repeat_nr := holder_repeat_nr l + 1\<rparr>
                   else ph' = Waiting \<and> l' = l)
   | Waiting \<Rightarrow> ph' = Granted \<and> l' = l
   | Granted \<Rightarrow> ph' = Half_held \<and> l' = l\<lparr>holder := r\<rparr>
   | Half_held \<Rightarrow> ph' = Outside \<and> l' = l\<lparr>holder_repeat_nr := 1\<rparr>
   | Releasing \<Rightarrow> (if 1 < holder_repeat_nr l then ph' = Outside \<and> l' = l\<lparr>holder_repeat_nr := holder_repeat_nr l - 1\<rparr>
                   else ph' = Leaving \<and> l' = l)
   | Leaving \<Rightarrow> ph' = Cleared \<and> l' = l\<lparr>holder := 0\<rparr>
   | Cleared \<Rightarrow> ph' = Dropped \<and> l' = l\<lparr>holder_repeat_nr := 0\<rparr>
   | Dropped \<Rightarrow> ph' = Outside \<and> l' = l)"

text \<open>A step changes the stack of the running task only.\<close>

definition stack_step :: "'z kstate_scheme \<Rightarrow> 'z kstate_scheme \<Rightarrow> bool" where
  "stack_step s s' \<longleftrightarrow> dom (tasks s') = dom (tasks s) \<and> (\<forall>t. t \<noteq> running s \<longrightarrow> kstack s' t = kstack s t)"

lemma switched_effect:
  "switched c s' stat n \<Longrightarrow> locks s' = locks c \<and> dom (tasks s') = dom (tasks c) \<and>
    kstack s' = (kstack c)(running c := Intr_restore (intr_get_status c) # kstack c (running c))"
  by (simp add: switched_def)

lemma sema_loop_effect:
  assumes "sched_ok c" and "sema_loop q o1 c = Some s'"
  shows "locks s' = locks c \<and> dom (tasks s') = dom (tasks c) \<and> (kstack s' = kstack c \<or>
    (\<exists>i. kstack s' = (kstack c)(running c := Intr_restore i # Sema_loop q o1 # kstack c (running c))))"
proof -
  obtain sem where sem: "semas c q = Some sem" using assms(2) by (auto simp: sema_loop_def split: bind_splits)
  show ?thesis
  proof (cases "value sem = 0")
    case True
    then obtain w where w: "thread_block TASK_BLOCKED (push_frame (Sema_loop q o1) (c\<lparr>semas := (semas c)(q \<mapsto> sem\<lparr>waiters := w\<rparr>)\<rparr>)) = Some s'"
      using assms(2) sem by (auto simp: sema_loop_def split: bind_splits if_splits)
    let ?c = "push_frame (Sema_loop q o1) (c\<lparr>semas := (semas c)(q \<mapsto> sem\<lparr>waiters := w\<rparr>)\<rparr>)"
    have "sched_ok ?c" using assms(1) by (simp add: push_frame_def)
    from thread_block_ok [OF this] w obtain n where "switched ?c s' TASK_BLOCKED n" by auto
    from switched_effect [OF this] show ?thesis by (auto simp: push_frame_def)
  next
    case False
    then show ?thesis using assms(2) sem by (auto simp: sema_loop_def Let_def split: bind_splits if_splits)
  qed
qed

lemma sema_up_effect:
  assumes "sema_up q c = Some s'"
  shows "locks s' = locks c \<and> dom (tasks s') = dom (tasks c) \<and> kstack s' = kstack c"
proof -
  have unblock: "locks s2 = locks s1 \<and> dom (tasks s2) = dom (tasks s1) \<and> kstack s2 = kstack s1"
    if "thread_unblock t s1 = Some s2" for t and s1 s2 :: "'a kstate_scheme"
    using that by (auto simp: thread_unblock_def upd_task_def Let_def intr_set_status_def intr_enable_def intr_disable_def sti_def cli_def
      split: bind_splits if_splits)
  show ?thesis
    using assms unblock
    by (fastforce simp: sema_up_def Let_def intr_set_status_def intr_enable_def intr_disable_def sti_def cli_def
      split: bind_splits if_splits)
qed

lemma frame_effect:
  assumes ok: "sync_ok own s" and k: "kstack s (running s) = f # fs" and p: "locks s p = Some l"
    and ex: "exec_frame f (pop_frame fs s) = Some s'"
  shows "stack_step s s' \<and> (\<exists>l'. locks s' p = Some l' \<and>
    lock_next (running s) (phase_of p (f # fs)) l (phase_of p (kstack s' (running s))) l')"
proof -
  note d = sync_ok_dest [OF ok]
  note pr = d(6) [unfolded k on_proc_def]
  show ?thesis
  proof (cases f)
    case (Lock_acquire q)
    then show ?thesis using ex pr p
      by (auto simp: lock_acquire_def upd_lock_def push_frames_def lock_next_def stack_step_def split: bind_splits if_splits)
  next
    case (Lock_release q)
    then show ?thesis using ex pr p
      by (auto simp: lock_release_def upd_lock_def push_frames_def lock_next_def stack_step_def split: bind_splits if_splits)
  next
    case (Sema_down q)
    then obtain p0 where fs: "q = lock_sema p0" "fs = [Lock_got p0, Lock_repeat p0]" using pr by auto
    obtain o1 c where dis: "intr_disable (pop_frame fs s) = (o1, c)" by fastforce
    then have c: "c = (pop_frame fs s)\<lparr>eflags := eflags c\<rparr>"
      using disable_flags [of "pop_frame fs s"] by (simp only: snd_conv)
    have cc: "sched_ok c" "locks c = locks s" "tasks c = tasks s" "kstack c = (kstack s)(running s := fs)" "running c = running s"
      by (subst c, simp add: d(1))+
    have "sema_loop q o1 c = Some s'" using ex Sema_down by (simp add: sema_down_def dis)
    from sema_loop_effect [OF cc(1) this] show ?thesis
      using cc fs Sema_down p by (auto simp: stack_step_def lock_next_def)
  next
    case (Sema_loop q o1)
    then obtain p0 where fs: "q = lock_sema p0" "fs = [Lock_got p0, Lock_repeat p0]" using pr by auto
    have "sema_loop q o1 (pop_frame fs s) = Some s'" using ex Sema_loop by simp
    from sema_loop_effect [OF _ this] show ?thesis
      using fs Sema_loop p d(1) by (auto simp: stack_step_def lock_next_def)
  next
    case (Sema_up q)
    then have "fs = []" using pr by auto
    then show ?thesis using sema_up_effect [of q "pop_frame fs s" s'] ex Sema_up p
      by (auto simp: stack_step_def lock_next_def)
  next
    case Idle
    then have "fs = []" using pr by auto
    have "sched_ok (push_frame Idle_hlt (pop_frame fs s))" using d(1) by (simp add: push_frame_def)
    from thread_block_ok [OF this] ex Idle obtain n where
      "switched (push_frame Idle_hlt (pop_frame fs s)) s' TASK_BLOCKED n" by auto
    from switched_effect [OF this] show ?thesis using Idle \<open>fs = []\<close> p
      by (auto simp: stack_step_def lock_next_def push_frame_def)
  next
    case Thread_yield
    then have "fs = []" using pr by auto
    have "sched_ok (pop_frame fs s)" using d(1) by simp
    from thread_yield_ok [OF this] ex Thread_yield obtain n where "switched (pop_frame fs s) s' TASK_READY n" by auto
    from switched_effect [OF this] show ?thesis using Thread_yield \<open>fs = []\<close> p by (auto simp: stack_step_def lock_next_def)
  next
    case Kernel_thread
    then show ?thesis using ex p pr
      by (auto simp: stack_step_def lock_next_def intr_enable_def sti_def split: if_splits)
  next
    case (Intr_restore o1)
    then show ?thesis using ex p pr
      by (auto simp: stack_step_def lock_next_def)
  next
    case (Iret e)
    then show ?thesis using ex p by (auto simp: stack_step_def lock_next_def)
  next
    case Idle_hlt
    then show ?thesis using ex p pr by (auto simp: stack_step_def lock_next_def push_frame_def sti_def)
  next
    case (Lock_got q)
    then show ?thesis using ex pr p by (auto simp: lock_got_def upd_lock_def lock_next_def stack_step_def split: bind_splits)
  next
    case (Lock_repeat q)
    then show ?thesis using ex pr p by (auto simp: lock_repeat_def upd_lock_def lock_next_def stack_step_def split: bind_splits if_splits)
  next
    case (Lock_clear q)
    then show ?thesis using ex pr p by (auto simp: upd_lock_def lock_next_def stack_step_def split: bind_splits)
  next
    case (Lock_clear_repeat q)
    then show ?thesis using ex pr p by (auto simp: upd_lock_def lock_next_def stack_step_def split: bind_splits)
  qed
qed

lemma clock_effect:
  assumes ok: "sync_ok own s" and on: "intr_get_status s = INTR_ON" and ex: "clock_interrupt s = Some s'"
  shows "stack_step s s' \<and> locks s' = locks s \<and> phase_of p (kstack s' (running s)) = phase_of p (kstack s (running s))"
proof -
  let ?c = "push_frame (Iret (eflags s)) (cli s)"
  have "sched_ok ?c" using sync_ok_dest(1) [OF ok] by (simp add: push_frame_def cli_def)
  moreover have "intr_get_status ?c = INTR_OFF" by (simp add: push_frame_def)
  ultimately have "same_sync ?c s'" using intr_timer_handler_ok [of ?c] ex by (auto simp: clock_interrupt_def)
  then show ?thesis by (auto simp: same_sync_def stack_step_def push_frame_def cli_def)
qed

end
