(* ===== verification/Device_Screen.thy ===== *)
theory Device_Screen
  imports Kernel_Stdio
begin

text \<open>
  The output routines of \<open>lib/kernel/print.S\<close>: the text screen of 25 rows of 80 cells and its cursor, \<open>put_char\<close>,
  \<open>put_str\<close>, \<open>put_int\<close> and \<open>cls_screen\<close>. A cell is the 16-bit word of a character and its attribute; the cursor
  is the number the CRT controller holds. A write behind the last cell is \<open>None\<close>. A string is the list of the bytes
  from its address on; \<open>put_str\<close> stops at the first zero.
\<close>

unbundle bit_operations_syntax

record screen =
  video :: "u16 list"
  cursor :: u16

definition blank :: u16 where
  "blank = 0x0720"

subsection \<open>Characters\<close>

definition set_cursor :: "u16 \<Rightarrow> screen \<Rightarrow> screen" where
  "set_cursor bx s = s\<lparr>cursor := bx\<rparr>"

text \<open>\<open>.roll_screen\<close>: rows 1 to 24 are copied to rows 0 to 23 and the last one is cleared.\<close>

definition roll_screen :: "screen \<Rightarrow> screen" where
  "roll_screen s = set_cursor 1920 (s\<lparr>video := bytes_at 80 1920 (video s) @ replicate 80 blank\<rparr>)"

text \<open>\<open>.is_line_feed\<close> and \<open>.is_carriage_return\<close> are one label, so both go to the start of the next row.\<close>

definition line_feed :: "u16 \<Rightarrow> screen \<Rightarrow> screen" where
  "line_feed bx s =
     (let bx = bx - bx mod 80 + 80
      in if bx <s 2000 then set_cursor bx s else roll_screen s)"

definition put_char :: "u8 \<Rightarrow> screen \<Rightarrow> screen option" where
  "put_char cl s =
     (let bx = cursor s
      in if cl = 0x0d \<or> cl = 0x0a then Some (line_feed bx s)
      else if cl = 8 then do {
        let bx = bx - 1;
        v \<leftarrow> wr (video s) (unat (drop_bit 1 (push_bit 1 bx))) blank;
        Some (set_cursor (drop_bit 1 (push_bit 1 bx)) (s\<lparr>video := v\<rparr>)) }
      else do {
        v \<leftarrow> wr (video s) (unat (drop_bit 1 (push_bit 1 bx))) (0x0700 OR ucast cl);
        let bx = drop_bit 1 (push_bit 1 bx + 2);
        let s = s\<lparr>video := v\<rparr>;
        if bx <s 2000 then Some (set_cursor bx s) else Some (line_feed bx s) })"

fun put_str :: "u8 list \<Rightarrow> screen \<Rightarrow> screen option" where
  "put_str [] s = Some s"
| "put_str (cl # str) s = (if cl = 0 then Some s else Option.bind (put_char cl s) (put_str str))"

definition cls_screen :: "screen \<Rightarrow> screen" where
  "cls_screen s = set_cursor 0 (s\<lparr>video := replicate 2000 blank\<rparr>)"

subsection \<open>Numbers\<close>

text \<open>The digits of a number from the last place of \<open>put_int_buffer\<close> to the first.\<close>

definition int_digit :: "u32 \<Rightarrow> u8" where
  "int_digit edx = (if edx > 9 then ucast (edx - 10) + 0x41 else ucast edx + 0x30)"

fun put_int_buffer :: "nat \<Rightarrow> u32 \<Rightarrow> u8 list" where
  "put_int_buffer 0 eax = []"
| "put_int_buffer (Suc ecx) eax = put_int_buffer ecx (drop_bit 4 eax) @ [int_digit (eax AND 0xf)]"

fun skip_prefix_0 :: "u8 list \<Rightarrow> u8 list" where
  "skip_prefix_0 [] = [0x30]"
| "skip_prefix_0 (cl # ds) = (if cl = 0x30 then skip_prefix_0 ds else cl # ds)"

fun put_chars :: "u8 list \<Rightarrow> screen \<Rightarrow> screen option" where
  "put_chars [] s = Some s"
| "put_chars (cl # cs) s = Option.bind (put_char cl s) (put_chars cs)"

definition int_chars :: "u32 \<Rightarrow> u8 list" where
  "int_chars num = skip_prefix_0 (put_int_buffer 8 num)"

definition put_int :: "u32 \<Rightarrow> screen \<Rightarrow> screen option" where
  "put_int num s = put_chars (int_chars num) s"

subsection \<open>The screen stays a screen\<close>

definition screen_ok :: "screen \<Rightarrow> bool" where
  "screen_ok s \<longleftrightarrow> length (video s) = 2000 \<and> unat (cursor s) < 2000"

definition row :: "screen \<Rightarrow> nat \<Rightarrow> u16 list" where
  "row s i = bytes_at (80 * i) 80 (video s)"

text \<open>The screen with the cursor at the start of row \<open>i\<close>, rolled up by one row when there is none.\<close>

definition at_row :: "nat \<Rightarrow> screen \<Rightarrow> screen" where
  "at_row i s = (if i < 25 then s\<lparr>cursor := word_of_nat (80 * i)\<rparr> else roll_screen s)"

lemma put_chars_append: "put_chars (xs @ ys) s = Option.bind (put_chars xs s) (put_chars ys)"
  by (induction xs arbitrary: s) (simp_all split: bind_splits)

lemma put_str_chars: "put_str str s = put_chars (takeWhile (\<lambda>c. c \<noteq> 0) str) s"
  by (induction str arbitrary: s) (auto split: bind_splits)

lemma small_cursor:
  assumes "unat bx < 2000"
  shows "unat (drop_bit 1 (push_bit 1 bx)) = unat (bx :: u16)" and "unat (drop_bit 1 (push_bit 1 bx + 2)) = unat bx + 1"
proof -
  have p: "unat (push_bit 1 bx) = 2 * unat bx"
    using assms by (simp add: push_bit_eq_mult unat_word_ariths)
  then have "unat (push_bit 1 bx + 2) = 2 * unat bx + 2" using assms by (simp add: unat_word_ariths)
  then show "unat (drop_bit 1 (push_bit 1 bx)) = unat bx" "unat (drop_bit 1 (push_bit 1 bx + 2)) = unat bx + 1"
    using p by (simp_all add: drop_bit_eq_div unat_div)
qed

lemma signed_below:
  assumes "unat bx < 4000"
  shows "(bx :: u16) <s 2000 \<longleftrightarrow> unat bx < 2000"
proof -
  have u: "uint bx = int (unat bx)" by simp
  have "int (unat bx) < 4000" using assms by (metis of_nat_less_iff of_nat_numeral)
  then have "uint bx < 2 ^ 15" unfolding u by (rule less_trans) simp
  moreover have "- (2 ^ 15) \<le> uint bx" by (rule order_trans [OF _ uint_ge_0]) simp
  ultimately have "sint bx = int (unat bx)"
    unfolding u [symmetric] by (subst sint_uint, intro signed_take_bit_int_eq_self) simp_all
  moreover have "sint (2000 :: u16) = int 2000" by simp
  ultimately show ?thesis unfolding word_sless_alt by (simp only: of_nat_less_iff)
qed

lemma line_feed_row:
  assumes "unat bx \<le> 2000"
  shows "line_feed bx s = at_row (unat bx div 80 + 1) s"
proof -
  have m: "unat (bx - bx mod 80) = unat bx - unat bx mod 80"
    by (subst unat_sub) (simp_all add: word_le_nat_alt unat_mod)
  then have m2: "unat (bx - bx mod 80) = 80 * (unat bx div 80)" by (simp add: minus_mod_eq_mult_div)
  have q: "unat bx div 80 \<le> 25" using assms by linarith
  have u: "unat (bx - bx mod 80 + 80) = 80 * (unat bx div 80 + 1)" using m2 q by (simp add: unat_word_ariths)
  then have "(bx - bx mod 80 + 80) <s 2000 \<longleftrightarrow> unat bx div 80 + 1 < 25" using signed_below [of "bx - bx mod 80 + 80"] q by auto
  moreover have "bx - bx mod 80 + 80 = word_of_nat (80 * (unat bx div 80 + 1))" unfolding u [symmetric] by simp
  ultimately show ?thesis unfolding line_feed_def Let_def at_row_def set_cursor_def by (simp only: split: if_split)
qed

text \<open>What \<open>put_char\<close> does in each of its branches.\<close>

lemma put_char_branches:
  assumes "screen_ok s"
  shows "put_char cl s =
    (if cl = 0x0d \<or> cl = 0x0a then Some (at_row (unat (cursor s) div 80 + 1) s)
     else if cl = 8 then if cursor s = 0 then None
       else Some (s\<lparr>video := (video s)[unat (cursor s) - 1 := blank], cursor := cursor s - 1\<rparr>)
     else let s' = s\<lparr>video := (video s)[unat (cursor s) := 0x0700 OR ucast cl]\<rparr>
       in Some (if unat (cursor s) = 1999 then roll_screen s' else s'\<lparr>cursor := cursor s + 1\<rparr>))"
proof -
  let ?bx = "cursor s"
  have ok: "length (video s) = 2000" "unat ?bx < 2000" using assms by (simp_all add: screen_ok_def)
  consider (lf) "cl = 0x0d \<or> cl = 0x0a" | (bs) "cl = 8" | (other) "cl \<noteq> 0x0d" "cl \<noteq> 0x0a" "cl \<noteq> 8" by blast
  then show ?thesis
  proof cases
    case lf
    then show ?thesis using line_feed_row [of ?bx s] ok by (auto simp: put_char_def Let_def)
  next
    case bs
    show ?thesis
    proof (cases "?bx = 0")
      case True
      then show ?thesis using bs ok by (simp add: put_char_def Let_def)
    next
      case False
      then have u: "unat (?bx - 1) = unat ?bx - 1" by (simp add: unat_minus_one)
      have "unat (?bx - 1) < 2000" using u ok by simp
      note c = small_cursor(1) [OF this]
      then have "drop_bit 1 (push_bit 1 (?bx - 1)) = ?bx - 1" by (simp add: word_unat_eq_iff)
      then show ?thesis using bs False u ok by (simp add: put_char_def Let_def set_cursor_def)
    qed
  next
    case other
    note c = small_cursor [OF ok(2)]
    have n: "drop_bit 1 (push_bit 1 ?bx + 2) = ?bx + 1"
      using c(2) ok(2) by (simp add: word_unat_eq_iff unat_word_ariths)
    have s: "(?bx + 1) <s 2000 \<longleftrightarrow> unat ?bx \<noteq> 1999"
      using signed_below [of "?bx + 1"] ok(2) c(2) unfolding n by auto
    show ?thesis
    proof (cases "unat ?bx = 1999")
      case True
      have "line_feed (?bx + 1) t = roll_screen t" for t
        using line_feed_row [of "?bx + 1" t] True c(2) unfolding n by (simp add: at_row_def)
      then show ?thesis using other s True c(1) ok n by (simp add: put_char_def Let_def)
    next
      case False
      then show ?thesis using other s c(1) ok n by (simp add: put_char_def Let_def set_cursor_def)
    qed
  qed
qed

lemma roll_screen_ok: "length (video s) = 2000 \<Longrightarrow> screen_ok (roll_screen s)"
  by (simp add: screen_ok_def roll_screen_def set_cursor_def)

lemma put_char_ok: "screen_ok s \<Longrightarrow> put_char cl s = Some s' \<Longrightarrow> screen_ok s'"
  using roll_screen_ok
  by (auto simp: put_char_branches Let_def at_row_def screen_ok_def unat_word_ariths unat_minus_one unat_of_nat split: if_splits)

subsection \<open>Text and numbers on the screen\<close>

definition cell :: "u8 \<Rightarrow> u16" where
  "cell cl = 0x0700 OR ucast cl"

definition printing :: "u8 \<Rightarrow> bool" where
  "printing cl \<longleftrightarrow> cl \<noteq> 0 \<and> cl \<noteq> 8 \<and> cl \<noteq> 0x0a \<and> cl \<noteq> 0x0d"

text \<open>Characters that fit on the screen behind the cursor are written there, one cell each, and nothing else changes.\<close>

lemma put_chars_text:
  assumes "screen_ok s" and "\<forall>cl \<in> set cs. printing cl" and "unat (cursor s) + length cs < 2000"
  shows "put_chars cs s = Some (s\<lparr>video := put_bytes (video s) (unat (cursor s)) (map cell cs),
    cursor := cursor s + word_of_nat (length cs)\<rparr>)"
  using assms
proof (induction cs arbitrary: s)
  case (Cons cl cs)
  let ?s = "s\<lparr>video := (video s)[unat (cursor s) := cell cl], cursor := cursor s + 1\<rparr>"
  have c: "unat (cursor s + 1) = unat (cursor s) + 1" using Cons.prems(3) by (simp add: unat_word_ariths)
  have 1: "put_char cl s = Some ?s"
    using put_char_branches [OF Cons.prems(1), of cl] Cons.prems(2,3) by (simp add: printing_def cell_def Let_def)
  have "screen_ok ?s" using put_char_ok [OF Cons.prems(1) 1] .
  from Cons.IH [OF this] have "put_chars cs ?s = Some (?s\<lparr>video := put_bytes (video ?s) (unat (cursor s) + 1) (map cell cs),
    cursor := cursor s + 1 + word_of_nat (length cs)\<rparr>)" using Cons.prems(2,3) c by simp
  moreover have "put_bytes ((video s)[unat (cursor s) := cell cl]) (unat (cursor s) + 1) (map cell cs) =
      put_bytes (video s) (unat (cursor s)) (map cell (cl # cs))"
    using Cons.prems(1,3)
    by (intro nth_equalityI) (auto simp: nth_put_bytes screen_ok_def nth_list_update nth_Cons' less_Suc_eq_le)
  ultimately show ?case using 1 by (simp add: add.assoc)
qed simp

fun hex_digit :: "u8 \<Rightarrow> nat" where
  "hex_digit cl = (if cl < 0x41 then unat (cl - 0x30) else unat (cl - 0x41) + 10)"

definition hex_value :: "u8 list \<Rightarrow> nat" where
  "hex_value ds = foldl (\<lambda>n d. n * 16 + hex_digit d) 0 ds"

lemma hex_int_digit: "unat x < 16 \<Longrightarrow> hex_digit (int_digit x) = unat x \<and> (int_digit x = 0x30 \<longleftrightarrow> x = 0)"
proof -
  assume "unat x < 16"
  then have "unat x \<in> {0, 1, 2, 3, 4, 5, 6, 7, 8, 9, 10, 11, 12, 13, 14, 15}" by (auto simp: numeral_eq_Suc less_Suc_eq)
  moreover have "x = word_of_nat (unat x)" by simp
  ultimately obtain n where "n \<in> {0, 1, 2, 3, 4, 5, 6, 7, 8, 9, 10, 11, 12, 13, 14, 15}" "x = word_of_nat n" by blast
  then show ?thesis by (auto simp: int_digit_def)
qed

lemma put_int_buffer_value: "unat num < 16 ^ n \<Longrightarrow> hex_value (put_int_buffer n num) = unat num"
proof (induction n arbitrary: num)
  case (Suc n)
  have d: "unat (drop_bit 4 num) = unat num div 16" by (simp add: drop_bit_eq_div unat_div)
  have m: "unat (num AND 0xf) = unat num mod 16"
    using take_bit_eq_mask [of 4 num] unsigned_take_bit_eq [of 4 num] by (simp add: mask_eq_exp_minus_1 take_bit_eq_mod)
  have "hex_value (put_int_buffer n (drop_bit 4 num)) = unat num div 16"
    using Suc.IH [of "drop_bit 4 num"] Suc.prems d by (simp add: div_less_iff_less_mult mult.commute)
  moreover have "hex_digit (int_digit (num AND 0xf)) = unat num mod 16"
    using hex_int_digit [of "num AND 0xf"] m by simp
  ultimately show ?case by (simp add: hex_value_def)
qed (simp add: hex_value_def)

lemma skip_prefix_value: "hex_value (skip_prefix_0 ds) = hex_value ds"
  by (induction ds) (simp_all add: hex_value_def)

lemma skip_prefix_head: "skip_prefix_0 ds = [0x30] \<or> hd (skip_prefix_0 ds) \<noteq> 0x30"
  by (induction ds) simp_all

text \<open>\<open>put_int\<close> prints the hexadecimal digits of the number, without leading zeros.\<close>

lemma int_chars_value: "hex_value (int_chars num) = unat num \<and> (int_chars num = [0x30] \<or> hd (int_chars num) \<noteq> 0x30)"
  using put_int_buffer_value [of num 8] unsigned_less [of num] skip_prefix_head skip_prefix_value
  by (simp add: int_chars_def)

end
