(* ===== verification/Device_Console.thy ===== *)
theory Device_Console
  imports Lock_Steps Device_Screen "HOL-Library.Multiset"
begin

text \<open>
  \<open>device/console.c\<close>, and \<open>printk\<close> of \<open>lib/kernel/stdio-kernel.c\<close>: output of several tasks on one screen, under the
  lock of the console. A function of the console is the list of what a task that calls it does, one statement at a time, so
  that the clock can switch tasks between two characters; \<open>cstep\<close> is the step relation of the kernel with such tasks.
\<close>

datatype con_op = Console_acquire | Put_char u8 | Console_release

definition console_put_str :: "u8 list \<Rightarrow> con_op list" where
  "console_put_str str = [Console_acquire] @ map Put_char (takeWhile (\<lambda>c. c \<noteq> 0) str) @ [Console_release]"

definition console_put_char :: "u8 \<Rightarrow> con_op list" where
  "console_put_char char_asci = [Console_acquire, Put_char char_asci, Console_release]"

definition console_put_int :: "u32 \<Rightarrow> con_op list" where
  "console_put_int num = [Console_acquire] @ map Put_char (int_chars num) @ [Console_release]"

text \<open>The system call of \<open>fs/fs.c\<close> for a character.\<close>

definition sys_putchar :: "u8 \<Rightarrow> con_op list" where
  "sys_putchar char_asci = console_put_char char_asci"

definition printk :: "mem \<Rightarrow> addr \<Rightarrow> addr \<Rightarrow> va_list \<Rightarrow> con_op list option" where
  "printk m buf format args = do {
     m \<leftarrow> memset_loop m buf 0 1024;
     (r, m) \<leftarrow> vsprintf m buf format args;
     Some (console_put_str (drop buf m)) }"

text \<open>
  \<open>prog\<close> is what a task has left to do of its call, \<open>called\<close> records the calls: the task and the text it prints.
\<close>

record console =
  scr :: screen
  prog :: "task \<Rightarrow> con_op list"
  called :: "(task \<times> u8 list) list"

definition console_init :: "u32 \<Rightarrow> 'z kstate_scheme \<Rightarrow> 'z kstate_scheme" where
  "console_init console_lock s = lock_init console_lock s"

definition set_prog :: "task \<Rightarrow> con_op list \<Rightarrow> console \<Rightarrow> console" where
  "set_prog t ops c = c\<lparr>prog := (prog c)(t := ops)\<rparr>"

text \<open>What a call prints.\<close>

definition text_of :: "con_op list \<Rightarrow> u8 list" where
  "text_of ops = concat (map (\<lambda>op. case op of Put_char cl \<Rightarrow> [cl] | _ \<Rightarrow> []) ops)"

definition call_ops :: "con_op list \<Rightarrow> bool" where
  "call_ops ops \<longleftrightarrow> (\<exists>str. ops = console_put_str str) \<or> (\<exists>cl. ops = console_put_char cl) \<or> (\<exists>num. ops = console_put_int num)"

text \<open>
  The running task executes the frame on its stack (a statement of the kernel's locks and scheduler); with no frame left it
  goes on with its call, starts one, or does something with another lock. The clock interrupts at any point.
\<close>

inductive cstep :: "u32 \<Rightarrow> 'z kstate_scheme \<times> console \<Rightarrow> 'z kstate_scheme \<times> console \<Rightarrow> bool" for cl where
  frame: "kstack s (running s) = f # fs \<Longrightarrow> exec_frame f (pop_frame fs s) = Some s' \<Longrightarrow> cstep cl (s, c) (s', c)"
| clock: "intr_get_status s = INTR_ON \<Longrightarrow> clock_interrupt s = Some s' \<Longrightarrow> cstep cl (s, c) (s', c)"
| call: "kstack s (running s) = [] \<Longrightarrow> prog c (running s) = [] \<Longrightarrow> call_ops ops \<Longrightarrow>
    cstep cl (s, c) (s, set_prog (running s) ops (c\<lparr>called := called c @ [(running s, text_of ops)]\<rparr>))"
| acquire: "kstack s (running s) = [] \<Longrightarrow> prog c (running s) = Console_acquire # ops \<Longrightarrow>
    cstep cl (s, c) (push_frame (Lock_acquire cl) s, set_prog (running s) ops c)"
| put: "kstack s (running s) = [] \<Longrightarrow> prog c (running s) = Put_char ch # ops \<Longrightarrow> put_char ch (scr c) = Some w \<Longrightarrow>
    cstep cl (s, c) (s, set_prog (running s) ops (c\<lparr>scr := w\<rparr>))"
| release: "kstack s (running s) = [] \<Longrightarrow> prog c (running s) = Console_release # ops \<Longrightarrow>
    cstep cl (s, c) (push_frame (Lock_release cl) s, set_prog (running s) ops c)"
| other: "kstack s (running s) = [] \<Longrightarrow> prog c (running s) = [] \<Longrightarrow>
    f = Thread_yield \<or> (\<exists>p. p \<noteq> cl \<and> (f = Lock_acquire p \<and> may_acquire p s \<or> f = Lock_release p \<and> may_release p s)) \<Longrightarrow>
    cstep cl (s, c) (push_frame f s, c)"
| flags: "kstack s (running s) = [] \<Longrightarrow> prog c (running s) = [] \<Longrightarrow> cstep cl (s, c) (snd (intr_set_status o' s), c)"

inductive creach :: "u32 \<Rightarrow> 'z kstate_scheme \<times> console \<Rightarrow> 'z kstate_scheme \<times> console \<Rightarrow> bool" for cl where
  start: "creach cl x x"
| more: "creach cl x y \<Longrightarrow> cstep cl y z \<Longrightarrow> creach cl x z"

subsection \<open>Where a task is in its call\<close>

definition rest :: "u8 list \<Rightarrow> con_op list" where
  "rest cs = map Put_char cs @ [Console_release]"

lemma rest_inj: "rest cs = rest ds \<longleftrightarrow> cs = ds"
  by (simp add: rest_def inj_map_eq_map inj_def)

lemma call_ops_shape: "call_ops ops \<Longrightarrow> ops = Console_acquire # rest (text_of ops)"
  by (auto simp: call_ops_def console_put_str_def console_put_char_def console_put_int_def rest_def text_of_def comp_def)

text \<open>A task without a call, one that waits to print \<open>cs\<close>, and one that has \<open>cs\<close> left to print.\<close>

definition idle_in :: "lock \<Rightarrow> task \<Rightarrow> phase \<Rightarrow> con_op list \<Rightarrow> bool" where
  "idle_in l t ph ops \<longleftrightarrow> ops = [] \<and> (holder l \<noteq> t \<and> ph \<in> {Outside, Cleared, Dropped} \<or>
     holder l = t \<and> holder_repeat_nr l = 1 \<and> ph \<in> {Releasing, Leaving})"

definition wants :: "lock \<Rightarrow> task \<Rightarrow> phase \<Rightarrow> con_op list \<Rightarrow> u8 list \<Rightarrow> bool" where
  "wants l t ph ops cs \<longleftrightarrow> ops = Console_acquire # rest cs \<and> ph = Outside \<and> holder l \<noteq> t \<or>
     ops = rest cs \<and> (holder l \<noteq> t \<and> ph \<in> {Acquiring, Waiting, Granted} \<or> holder l = t \<and> ph = Half_held)"

definition prints :: "lock \<Rightarrow> task \<Rightarrow> phase \<Rightarrow> con_op list \<Rightarrow> u8 list \<Rightarrow> bool" where
  "prints l t ph ops cs \<longleftrightarrow> ops = rest cs \<and> ph = Outside \<and> holder l = t \<and> holder_repeat_nr l = 1"

text \<open>
  The calls in the order in which they got the lock, \<open>ord\<close>, and those that wait for it, \<open>pend\<close>. The screen is what putting the
  texts of \<open>ord\<close> one after the other gives, the last one up to where the task that prints it has got.
\<close>

definition shown :: "screen \<Rightarrow> (task \<times> u8 list) list \<Rightarrow> screen \<Rightarrow> bool" where
  "shown w0 ord w \<longleftrightarrow> put_chars (concat (map snd ord)) w0 = Some w"

definition shown_part :: "screen \<Rightarrow> (task \<times> u8 list) list \<Rightarrow> task \<Rightarrow> u8 list \<Rightarrow> screen \<Rightarrow> bool" where
  "shown_part w0 ord t cs w \<longleftrightarrow> (\<exists>ord' pre. ord = ord' @ [(t, pre @ cs)] \<and>
     put_chars (concat (map snd ord') @ pre) w0 = Some w)"

definition con_task ::
  "screen \<Rightarrow> (task \<times> u8 list) list \<Rightarrow> (task \<times> u8 list) list \<Rightarrow> screen \<Rightarrow> lock \<Rightarrow> task \<Rightarrow> phase \<Rightarrow> con_op list \<Rightarrow> bool" where
  "con_task w0 ord pend w l t ph ops \<longleftrightarrow>
     idle_in l t ph ops \<and> t \<notin> fst ` set pend \<or>
     (\<exists>cs. wants l t ph ops cs \<and> (t, cs) \<in> set pend) \<or>
     (\<exists>cs. prints l t ph ops cs \<and> t \<notin> fst ` set pend \<and> shown_part w0 ord t cs w)"

definition con_inv ::
  "u32 \<Rightarrow> screen \<Rightarrow> (task \<times> u8 list) list \<Rightarrow> (task \<times> u8 list) list \<Rightarrow> 'z kstate_scheme \<Rightarrow> console \<Rightarrow> bool" where
  "con_inv cl w0 ord pend s c \<longleftrightarrow> mset (called c) = mset ord + mset pend \<and> distinct (map fst pend) \<and>
     fst ` set pend \<subseteq> dom (tasks s) \<and>
     (\<exists>l. locks s cl = Some l \<and>
       (\<forall>t \<in> dom (tasks s). con_task w0 ord pend (scr c) l t (phase_of cl (kstack s t)) (prog c t)) \<and>
       ((\<forall>t \<in> dom (tasks s). \<forall>cs. \<not> prints l t (phase_of cl (kstack s t)) (prog c t) cs) \<longrightarrow> shown w0 ord (scr c)))"

lemma con_task_other:
  assumes "holder l' = t \<longleftrightarrow> holder l = t" and "holder l = t \<Longrightarrow> l' = l \<and> ord' = ord \<and> w' = w"
    and "\<And>cs. (t, cs) \<in> set pend' \<longleftrightarrow> (t, cs) \<in> set pend"
  shows "con_task w0 ord' pend' w' l' t ph ops \<longleftrightarrow> con_task w0 ord pend w l t ph ops"
    and "prints l' t ph ops cs \<longleftrightarrow> prints l t ph ops cs"
proof -
  have p: "t \<in> fst ` set pend' \<longleftrightarrow> t \<in> fst ` set pend" using assms(3) by (force simp: image_iff)
  show "con_task w0 ord' pend' w' l' t ph ops \<longleftrightarrow> con_task w0 ord pend w l t ph ops" "prints l' t ph ops cs \<longleftrightarrow> prints l t ph ops cs"
    using assms(1,2) p assms(3) by (cases "holder l = t"; auto simp: con_task_def idle_in_def wants_def prints_def)+
qed

text \<open>A step of the task \<open>r\<close>, when it is or becomes or was the only one that holds the lock, or the lock does not change.\<close>

lemma con_inv_step:
  assumes inv: "con_inv cl w0 ord pend s c" and l: "locks s cl = Some l" "locks s' cl = Some l'"
    and st: "stack_step s s'" and c: "\<And>t. t \<noteq> running s \<Longrightarrow> prog c' t = prog c t" and r: "running s \<in> dom (tasks s)"
    and cal: "mset (called c') = mset ord' + mset pend'" "distinct (map fst pend')" "fst ` set pend' \<subseteq> dom (tasks s)"
    and other: "\<And>t. t \<in> dom (tasks s) \<Longrightarrow> t \<noteq> running s \<Longrightarrow> (holder l' = t \<longleftrightarrow> holder l = t) \<and>
        (holder l = t \<longrightarrow> l' = l \<and> ord' = ord \<and> scr c' = scr c)"
    and pend: "\<And>t cs. t \<noteq> running s \<Longrightarrow> (t, cs) \<in> set pend' \<longleftrightarrow> (t, cs) \<in> set pend"
    and own: "con_task w0 ord' pend' (scr c') l' (running s) (phase_of cl (kstack s' (running s))) (prog c' (running s))"
    and sh: "(\<forall>t \<in> dom (tasks s). \<forall>cs. \<not> prints l t (phase_of cl (kstack s t)) (prog c t) cs) \<or>
        (\<exists>cs. prints l (running s) (phase_of cl (kstack s (running s))) (prog c (running s)) cs) \<Longrightarrow>
      (\<forall>cs. \<not> prints l' (running s) (phase_of cl (kstack s' (running s))) (prog c' (running s)) cs) \<Longrightarrow> shown w0 ord' (scr c')"
  shows "con_inv cl w0 ord' pend' s' c'"
proof -
  let ?D = "dom (tasks s)"
  have D: "dom (tasks s') = ?D" and k: "\<And>t. t \<noteq> running s \<Longrightarrow> kstack s' t = kstack s t" using st by (auto simp: stack_step_def)
  have old: "con_task w0 ord pend (scr c) l t (phase_of cl (kstack s t)) (prog c t)" if "t \<in> ?D" for t
    using inv l(1) that by (auto simp: con_inv_def)
  have T: "con_task w0 ord' pend' (scr c') l' t (phase_of cl (kstack s' t)) (prog c' t)" if "t \<in> ?D" for t
  proof (cases "t = running s")
    case True
    then show ?thesis using own by simp
  next
    case False
    show ?thesis
      using con_task_other(1) [of l' t l ord' ord "scr c'" "scr c" pend' pend w0] other [OF that False] pend [OF False] old [OF that]
        k [OF False] c [OF False] by simp
  qed
  have P: "prints l' t (phase_of cl (kstack s' t)) (prog c' t) cs \<longleftrightarrow> prints l t (phase_of cl (kstack s t)) (prog c t) cs"
    if "t \<in> ?D" "t \<noteq> running s" for t cs
    using other [OF that] k [OF that(2)] c [OF that(2)] by (cases "holder l = t") (auto simp: prints_def)
  have "shown w0 ord' (scr c')" if no: "\<forall>t \<in> ?D. \<forall>cs. \<not> prints l' t (phase_of cl (kstack s' t)) (prog c' t) cs"
  proof (rule sh)
    have "\<forall>t \<in> ?D - {running s}. \<forall>cs. \<not> prints l t (phase_of cl (kstack s t)) (prog c t) cs" using no P by blast
    then show "(\<forall>t \<in> ?D. \<forall>cs. \<not> prints l t (phase_of cl (kstack s t)) (prog c t) cs) \<or>
        (\<exists>cs. prints l (running s) (phase_of cl (kstack s (running s))) (prog c (running s)) cs)" by blast
    show "\<forall>cs. \<not> prints l' (running s) (phase_of cl (kstack s' (running s))) (prog c' (running s)) cs" using no r by blast
  qed
  then show ?thesis using T l(2) cal unfolding con_inv_def D by blast
qed

lemma free_holder:
  assumes "sync_ok own s" and "locks s p = Some l" and "t \<in> dom (tasks s)"
  shows "0 \<notin> dom (tasks s)" and "phase_of p (kstack s t) \<in> {Granted, Cleared, Dropped} \<Longrightarrow> holder l = 0"
proof -
  obtain sem where "lock_ok (own p) l sem (\<lambda>t. phase_of p (kstack s t)) (dom (tasks s)) (blocked s)"
    using sync_ok_lock [OF assms(1), of p] assms(2) by auto
  note lk = this
  then show "0 \<notin> dom (tasks s)" by (simp add: lock_ok_def)
  assume ph: "phase_of p (kstack s t) \<in> {Granted, Cleared, Dropped}"
  then have "owner_ok l t (phase_of p (kstack s t))" using owner_by_phase [OF lk assms(3)] by auto
  then show "holder l = 0" using ph by (auto simp: owner_ok_def)
qed

lemma con_frame:
  assumes ok: "sync_ok own s" and inv: "con_inv cl w0 ord pend s c"
    and k: "kstack s (running s) = f # fs" and ex: "exec_frame f (pop_frame fs s) = Some s'"
  shows "\<exists>ord' pend'. con_inv cl w0 ord' pend' s' c"
proof -
  let ?r = "running s" let ?ph = "phase_of cl (kstack s ?r)" let ?ph' = "phase_of cl (kstack s' ?r)" let ?ops = "prog c ?r"
  have r: "?r \<in> dom (tasks s)" using sync_ok_dest(4) [OF ok] .
  obtain l where l: "locks s cl = Some l" and own: "con_task w0 ord pend (scr c) l ?r ?ph ?ops"
      and sh: "(\<forall>t \<in> dom (tasks s). \<forall>cs. \<not> prints l t (phase_of cl (kstack s t)) (prog c t) cs) \<Longrightarrow> shown w0 ord (scr c)"
      and cal: "mset (called c) = mset ord + mset pend" "distinct (map fst pend)" "fst ` set pend \<subseteq> dom (tasks s)"
    using inv r unfolding con_inv_def by blast
  obtain l' where st: "stack_step s s'" and l': "locks s' cl = Some l'" and n: "lock_next ?r ?ph l ?ph' l'"
    using frame_effect [OF ok k l ex] unfolding k by auto
  note z = free_holder [OF ok l r]
  have quiet: "con_inv cl w0 ord pend s' c"
    if "con_task w0 ord pend (scr c) l' ?r ?ph' ?ops" "\<And>t. t \<in> dom (tasks s) \<Longrightarrow> t \<noteq> ?r \<Longrightarrow> (holder l' = t \<longleftrightarrow> holder l = t) \<and> (holder l = t \<longrightarrow> l' = l)"
      "\<And>cs. prints l ?r ?ph ?ops cs \<Longrightarrow> prints l' ?r ?ph' ?ops cs"
    by (rule con_inv_step [OF inv l l' st refl r cal]) (use that sh in blast)+
  show ?thesis
  proof (cases "?ph' = ?ph \<and> l' = l")
    case True
    then have "con_inv cl w0 ord pend s' c" by (intro quiet) (use own in auto)
    then show ?thesis by blast
  next
    case moved: False
    consider (idle) "idle_in l ?r ?ph ?ops" "?r \<notin> fst ` set pend" | (wants) cs where "wants l ?r ?ph ?ops cs" "(?r, cs) \<in> set pend"
      | (prints) cs where "prints l ?r ?ph ?ops cs" using own by (auto simp: con_task_def)
    then show ?thesis
    proof cases
      case idle
      have "con_inv cl w0 ord pend s' c"
      proof (rule quiet)
        show "con_task w0 ord pend (scr c) l' ?r ?ph' ?ops"
          using idle n moved z r by (auto simp: con_task_def idle_in_def lock_next_def split: phase.splits if_splits)
        show "(holder l' = t \<longleftrightarrow> holder l = t) \<and> (holder l = t \<longrightarrow> l' = l)" if "t \<in> dom (tasks s)" "t \<noteq> ?r" for t
          using idle n moved z that by (auto simp: idle_in_def lock_next_def split: phase.splits if_splits)
        show "prints l' ?r ?ph' ?ops cs" if "prints l ?r ?ph ?ops cs" for cs
          using idle that by (simp add: idle_in_def prints_def rest_def)
      qed
      then show ?thesis by blast
    next
      case (prints cs)
      then show ?thesis using n moved by (simp add: prints_def lock_next_def)
    next
      case (wants cs)
      have np: "\<not> prints l ?r ?ph ?ops ds" for ds using wants by (auto simp: wants_def prints_def rest_def)
      show ?thesis
      proof (cases "?ph = Half_held")
        case False
        have "con_inv cl w0 ord pend s' c"
        proof (rule quiet)
          show "con_task w0 ord pend (scr c) l' ?r ?ph' ?ops"
            using wants n moved z r False by (auto simp: con_task_def wants_def lock_next_def split: phase.splits if_splits)
          show "(holder l' = t \<longleftrightarrow> holder l = t) \<and> (holder l = t \<longrightarrow> l' = l)" if "t \<in> dom (tasks s)" "t \<noteq> ?r" for t
            using wants n moved z that False by (auto simp: wants_def lock_next_def split: phase.splits if_splits)
        qed (use np in blast)
        then show ?thesis by blast
      next
        case True
        then have h: "?ops = rest cs" "holder l = ?r" "?ph' = Outside" "l' = l\<lparr>holder_repeat_nr := 1\<rparr>"
          using wants n moved by (auto simp: wants_def lock_next_def)
        have none: "\<not> prints l t (phase_of cl (kstack s t)) (prog c t) ds" if "t \<in> dom (tasks s)" for t ds
          using that np h(2) by (cases "t = ?r") (auto simp: prints_def)
        then have sw: "shown w0 ord (scr c)" using sh by blast
        have pr: "prints l' ?r ?ph' ?ops cs" using h by (simp add: prints_def)
        have "con_inv cl w0 (ord @ [(?r, cs)]) (remove1 (?r, cs) pend) s' c"
        proof (rule con_inv_step [OF inv l l' st refl r])
          show "mset (called c) = mset (ord @ [(?r, cs)]) + mset (remove1 (?r, cs) pend)"
            using cal(1) wants(2) by simp
          have d: "distinct pend" using cal(2) by (simp add: distinct_map)
          have s1: "set (remove1 (?r, cs) pend) = set pend - {(?r, cs)}" using d by (rule set_remove1_eq)
          show "distinct (map fst (remove1 (?r, cs) pend))"
            using cal(2) d s1 by (auto simp: distinct_map intro: inj_on_subset)
          show "fst ` set (remove1 (?r, cs) pend) \<subseteq> dom (tasks s)" using cal(3) s1 by auto
          show "(t, ds) \<in> set (remove1 (?r, cs) pend) \<longleftrightarrow> (t, ds) \<in> set pend" if "t \<noteq> ?r" for t ds using that s1 by auto
          have "?r \<notin> fst ` set (remove1 (?r, cs) pend)"
            using eq_key_imp_eq_value [OF cal(2) wants(2)] s1 by auto
          moreover have "shown_part w0 (ord @ [(?r, cs)]) ?r cs (scr c)"
            unfolding shown_part_def by (rule exI [of _ ord], rule exI [of _ "[]"]) (use sw in \<open>simp add: shown_def\<close>)
          ultimately show "con_task w0 (ord @ [(?r, cs)]) (remove1 (?r, cs) pend) (scr c) l' ?r ?ph' ?ops"
            using pr unfolding con_task_def by blast
        qed (use h pr in auto)
        then show ?thesis by blast
      qed
    qed
  qed
qed

text \<open>The steps of the task itself. It has no frame on its stack, so its phase is \<open>Outside\<close>.\<close>

lemma con_inv_parts:
  assumes ok: "sync_ok own s" and inv: "con_inv cl w0 ord pend s c"
  obtains l where "locks s cl = Some l" "running s \<in> dom (tasks s)"
    "con_task w0 ord pend (scr c) l (running s) (phase_of cl (kstack s (running s))) (prog c (running s))"
    "(\<forall>t \<in> dom (tasks s). \<forall>cs. \<not> prints l t (phase_of cl (kstack s t)) (prog c t) cs) \<Longrightarrow> shown w0 ord (scr c)"
    "mset (called c) = mset ord + mset pend" "distinct (map fst pend)" "fst ` set pend \<subseteq> dom (tasks s)"
  using inv sync_ok_dest(4) [OF ok] unfolding con_inv_def by blast

lemma con_call:
  assumes ok: "sync_ok own s" and inv: "con_inv cl w0 ord pend s c" and k: "kstack s (running s) = []"
    and p: "prog c (running s) = []" and ops: "call_ops ops"
  shows "con_inv cl w0 ord (pend @ [(running s, text_of ops)]) s
    (set_prog (running s) ops (c\<lparr>called := called c @ [(running s, text_of ops)]\<rparr>))"
proof -
  obtain l where l: "locks s cl = Some l" "running s \<in> dom (tasks s)"
    "con_task w0 ord pend (scr c) l (running s) (phase_of cl (kstack s (running s))) (prog c (running s))"
    and sh: "(\<forall>t \<in> dom (tasks s). \<forall>cs. \<not> prints l t (phase_of cl (kstack s t)) (prog c t) cs) \<Longrightarrow> shown w0 ord (scr c)"
    and cal: "mset (called c) = mset ord + mset pend" "distinct (map fst pend)" "fst ` set pend \<subseteq> dom (tasks s)"
    using con_inv_parts [OF ok inv] by blast
  have idle: "holder l \<noteq> running s" "running s \<notin> fst ` set pend"
    using l(3) k p by (auto simp: con_task_def idle_in_def wants_def prints_def rest_def)
  have np: "\<not> prints l (running s) (phase_of cl (kstack s (running s))) (prog c (running s)) cs" for cs
    using p by (simp add: prints_def rest_def)
  show ?thesis
  proof (rule con_inv_step [OF inv l(1,1) _ _ l(2)])
    show "con_task w0 ord (pend @ [(running s, text_of ops)])
        (scr (set_prog (running s) ops (c\<lparr>called := called c @ [(running s, text_of ops)]\<rparr>))) l (running s)
        (phase_of cl (kstack s (running s))) (prog (set_prog (running s) ops (c\<lparr>called := called c @ [(running s, text_of ops)]\<rparr>)) (running s))"
      using call_ops_shape [OF ops] idle k by (auto simp: con_task_def wants_def set_prog_def)
  qed (use cal idle l(2) sh np in \<open>auto simp: stack_step_def set_prog_def\<close>)
qed

lemma con_acquire:
  assumes ok: "sync_ok own s" and inv: "con_inv cl w0 ord pend s c" and k: "kstack s (running s) = []"
    and p: "prog c (running s) = Console_acquire # ops"
  shows "con_inv cl w0 ord pend (push_frame (Lock_acquire cl) s) (set_prog (running s) ops c)" and "may_acquire cl s"
proof -
  obtain l where l: "locks s cl = Some l" "running s \<in> dom (tasks s)"
    "con_task w0 ord pend (scr c) l (running s) (phase_of cl (kstack s (running s))) (prog c (running s))"
    and sh: "(\<forall>t \<in> dom (tasks s). \<forall>cs. \<not> prints l t (phase_of cl (kstack s t)) (prog c t) cs) \<Longrightarrow> shown w0 ord (scr c)"
    and cal: "mset (called c) = mset ord + mset pend" "distinct (map fst pend)" "fst ` set pend \<subseteq> dom (tasks s)"
    using con_inv_parts [OF ok inv] by blast
  obtain cs where w: "ops = rest cs" "holder l \<noteq> running s" "(running s, cs) \<in> set pend"
    using l(3) k p by (auto simp: con_task_def idle_in_def wants_def prints_def rest_def Cons_eq_append_conv Cons_eq_map_conv)
  then show "may_acquire cl s" using l(1) by (simp add: may_acquire_def)
  have np: "\<not> prints l (running s) (phase_of cl (kstack s (running s))) (prog c (running s)) ds" for ds
    using w(2) by (simp add: prints_def)
  show "con_inv cl w0 ord pend (push_frame (Lock_acquire cl) s) (set_prog (running s) ops c)"
  proof (rule con_inv_step [OF inv l(1) _ _ _ l(2)])
    show "con_task w0 ord pend (scr (set_prog (running s) ops c)) l (running s)
        (phase_of cl (kstack (push_frame (Lock_acquire cl) s) (running s))) (prog (set_prog (running s) ops c) (running s))"
      using w by (auto simp: con_task_def wants_def set_prog_def push_frame_def)
  qed (use cal w l sh np in \<open>auto simp: stack_step_def set_prog_def push_frame_def\<close>)
qed

lemma con_put:
  assumes ok: "sync_ok own s" and inv: "con_inv cl w0 ord pend s c" and k: "kstack s (running s) = []"
    and p: "prog c (running s) = Put_char ch # ops" and w: "put_char ch (scr c) = Some w"
  shows "con_inv cl w0 ord pend s (set_prog (running s) ops (c\<lparr>scr := w\<rparr>))"
proof -
  obtain l where l: "locks s cl = Some l" "running s \<in> dom (tasks s)"
    "con_task w0 ord pend (scr c) l (running s) (phase_of cl (kstack s (running s))) (prog c (running s))"
    and cal: "mset (called c) = mset ord + mset pend" "distinct (map fst pend)" "fst ` set pend \<subseteq> dom (tasks s)"
    using con_inv_parts [OF ok inv] by blast
  obtain cs where h: "prog c (running s) = rest cs" "holder l = running s" "holder_repeat_nr l = 1" "running s \<notin> fst ` set pend"
      "shown_part w0 ord (running s) cs (scr c)"
    using l(3) k p by (auto simp: con_task_def idle_in_def wants_def prints_def rest_def)
  then obtain ds where cs: "cs = ch # ds" "ops = rest ds" using p by (cases cs) (auto simp: rest_def)
  obtain ord' pre where o: "ord = ord' @ [(running s, pre @ ch # ds)]" "put_chars (concat (map snd ord') @ pre) w0 = Some (scr c)"
    using h(5) cs by (auto simp: shown_part_def)
  have "shown_part w0 ord (running s) ds w"
    unfolding shown_part_def
    by (rule exI [of _ ord'], rule exI [of _ "pre @ [ch]"]) (use o w put_chars_append [of "concat (map snd ord') @ pre" "[ch]" w0] in simp)
  moreover have "prints l (running s) Outside ops ds" using h cs by (simp add: prints_def)
  ultimately have own: "con_task w0 ord pend w l (running s) Outside ops" using h(4) by (auto simp: con_task_def)
  show ?thesis
    by (rule con_inv_step [OF inv l(1,1) _ _ l(2)])
      (use cal h own k \<open>prints l (running s) Outside ops ds\<close> in \<open>auto simp: stack_step_def set_prog_def\<close>)
qed

lemma con_release:
  assumes ok: "sync_ok own s" and inv: "con_inv cl w0 ord pend s c" and k: "kstack s (running s) = []"
    and p: "prog c (running s) = Console_release # ops"
  shows "con_inv cl w0 ord pend (push_frame (Lock_release cl) s) (set_prog (running s) ops c)" and "may_release cl s"
proof -
  obtain l where l: "locks s cl = Some l" "running s \<in> dom (tasks s)"
    "con_task w0 ord pend (scr c) l (running s) (phase_of cl (kstack s (running s))) (prog c (running s))"
    and cal: "mset (called c) = mset ord + mset pend" "distinct (map fst pend)" "fst ` set pend \<subseteq> dom (tasks s)"
    using con_inv_parts [OF ok inv] by blast
  obtain cs where h: "prog c (running s) = rest cs" "holder l = running s" "holder_repeat_nr l = 1" "running s \<notin> fst ` set pend"
      "shown_part w0 ord (running s) cs (scr c)"
    using l(3) k p by (auto simp: con_task_def idle_in_def wants_def prints_def rest_def)
  then have cs: "cs = []" "ops = []" using p by (cases cs; simp add: rest_def)+
  then show "may_release cl s" using l(1) h(2) by (simp add: may_release_def)
  have sw: "shown w0 ord (scr c)" using h(5) cs by (auto simp: shown_part_def shown_def)
  have own: "con_task w0 ord pend (scr c) l (running s) Releasing ops" using h cs by (simp add: con_task_def idle_in_def)
  show "con_inv cl w0 ord pend (push_frame (Lock_release cl) s) (set_prog (running s) ops c)"
    by (rule con_inv_step [OF inv l(1) _ _ _ l(2)])
      (use cal h l own k sw in \<open>auto simp: stack_step_def set_prog_def push_frame_def\<close>)
qed

lemma con_same:
  assumes ok: "sync_ok own s" and inv: "con_inv cl w0 ord pend s c" and st: "stack_step s s'" "locks s' = locks s"
    and ph: "phase_of cl (kstack s' (running s)) = phase_of cl (kstack s (running s))"
  shows "con_inv cl w0 ord pend s' c"
proof -
  obtain l where l: "locks s cl = Some l" "running s \<in> dom (tasks s)"
    "con_task w0 ord pend (scr c) l (running s) (phase_of cl (kstack s (running s))) (prog c (running s))"
    and sh: "(\<forall>t \<in> dom (tasks s). \<forall>cs. \<not> prints l t (phase_of cl (kstack s t)) (prog c t) cs) \<Longrightarrow> shown w0 ord (scr c)"
    and cal: "mset (called c) = mset ord + mset pend" "distinct (map fst pend)" "fst ` set pend \<subseteq> dom (tasks s)"
    using con_inv_parts [OF ok inv] by blast
  show ?thesis
    by (rule con_inv_step [OF inv l(1) _ st(1) refl l(2) cal]) (use l(1,3) st(2) ph sh in auto)
qed

lemma con_step:
  assumes step: "cstep cl (s, c) (s', c')" and ok: "sync_ok own s" and inv: "con_inv cl w0 ord pend s c"
  shows "\<exists>own' ord' pend'. sync_ok own' s' \<and> con_inv cl w0 ord' pend' s' c'"
  using step
proof cases
  case (frame f fs)
  then obtain own' where "sync_ok own' s'" using frame_runs [OF ok] by fastforce
  with con_frame [OF ok inv frame(2,3)] frame(1) show ?thesis by blast
next
  case clock
  then obtain own' where "sync_ok own' s'" using clock_runs [OF ok] by auto
  moreover have "con_inv cl w0 ord pend s' c" using con_same [OF ok inv] clock_effect [OF ok clock(2,3)] by blast
  ultimately show ?thesis using clock(1) by blast
next
  case (call ops)
  then show ?thesis using con_call [OF ok inv call(3-5)] ok by blast
next
  case (acquire ops)
  from con_acquire [OF ok inv acquire(3,4)] start_op [OF ok acquire(3)] show ?thesis unfolding acquire(1,2) by blast
next
  case (put ch ops w)
  then show ?thesis using con_put [OF ok inv put(3-5)] ok by blast
next
  case (release ops)
  from con_release [OF ok inv release(3,4)] start_op [OF ok release(3)] show ?thesis unfolding release(1,2) by blast
next
  case (other f)
  then obtain own' where "sync_ok own' s'" using start_op [OF ok other(3), of f] by blast
  moreover have "con_inv cl w0 ord pend s' c"
    by (rule con_same [OF ok inv]) (use other in \<open>auto simp: stack_step_def push_frame_def\<close>)
  ultimately show ?thesis using other(2) by blast
next
  case (flags o')
  have "sync_ok own s'"
    unfolding flags(1) by (rule sync_quiet [OF ok flags(3), where fs' = "[]"])
      (use sync_ok_dest [OF ok] flags in \<open>auto simp: on_proc_def\<close>)
  moreover have "con_inv cl w0 ord pend s' c"
    by (rule con_same [OF ok inv]) (use flags in \<open>auto simp: stack_step_def\<close>)
  ultimately show ?thesis using flags(2) by blast
qed

lemma con_reach:
  assumes "creach cl x y" and "sync_ok own (fst x)" and "con_inv cl w0 ord pend (fst x) (snd x)"
  shows "\<exists>own' ord' pend'. sync_ok own' (fst y) \<and> con_inv cl w0 ord' pend' (fst y) (snd y)"
  using assms
proof (induction rule: creach.induct)
  case (more x y z)
  then obtain own' ord' pend' where "sync_ok own' (fst y)" "con_inv cl w0 ord' pend' (fst y) (snd y)" by blast
  then show ?case using con_step [of cl "fst y" "snd y" "fst z" "snd z"] more.hyps(2) by simp
qed blast

text \<open>A console that nobody uses.\<close>

definition console_quiet :: "u32 \<Rightarrow> 'z kstate_scheme \<Rightarrow> console \<Rightarrow> bool" where
  "console_quiet cl s c \<longleftrightarrow> lock_free cl s \<and> called c = [] \<and>
     (\<forall>t \<in> dom (tasks s). t \<noteq> 0 \<and> prog c t = [] \<and> phase_of cl (kstack s t) = Outside)"

lemma con_start: "console_quiet cl s c \<Longrightarrow> con_inv cl (scr c) [] [] s c"
  by (auto simp: console_quiet_def con_inv_def lock_free_def con_task_def idle_in_def shown_def)

text \<open>
  C4: the output of the console is not mixed. However the calls of \<open>console_put_str\<close>, \<open>console_put_char\<close> and
  \<open>console_put_int\<close> of any number of tasks are interleaved by the clock, by waiting for the lock and by the use of other locks,
  the screen is always what putting the texts of whole calls one after the other gives, in some order \<open>ord\<close>, and then
  the beginning \<open>pre\<close> of the text of at most one more; every call is one of these or still waits, and once no task has a call left
  all of them are on the screen.
\<close>

theorem console_output_atomic:
  assumes "sync_ok own s0" and "console_quiet cl s0 c0" and "creach cl (s0, c0) (s, c)"
  shows "\<exists>ord pend pre post. mset (called c) = mset ord + mset pend + mset post \<and> length post \<le> 1 \<and>
    put_chars (concat (map snd ord) @ pre) (scr c0) = Some (scr c) \<and>
    (case post of [] \<Rightarrow> pre = [] | (t, cs) # _ \<Rightarrow> \<exists>r. cs = pre @ r \<and> prog c t = rest r) \<and>
    ((\<forall>t \<in> dom (tasks s). prog c t = []) \<longrightarrow> pend = [] \<and> post = [])"
proof -
  obtain own' ord pend where ok: "sync_ok own' s" and inv: "con_inv cl (scr c0) ord pend s c"
    using con_reach [OF assms(3), of own "scr c0" "[]" "[]"] assms(1) con_start [OF assms(2)] by auto
  obtain l where l: "locks s cl = Some l" "\<And>t. t \<in> dom (tasks s) \<Longrightarrow> con_task (scr c0) ord pend (scr c) l t (phase_of cl (kstack s t)) (prog c t)"
    and sh: "(\<forall>t \<in> dom (tasks s). \<forall>cs. \<not> prints l t (phase_of cl (kstack s t)) (prog c t) cs) \<Longrightarrow> shown (scr c0) ord (scr c)"
    and cal: "mset (called c) = mset ord + mset pend" "fst ` set pend \<subseteq> dom (tasks s)"
    using inv unfolding con_inv_def by blast
  have pend: "pend = []" if all: "\<forall>t \<in> dom (tasks s). prog c t = []"
  proof (rule ccontr)
    assume "pend \<noteq> []"
    then obtain t where "t \<in> fst ` set pend" by (cases pend) auto
    with cal(2) l(2) [of t] all show False by (auto simp: con_task_def idle_in_def wants_def prints_def rest_def)
  qed
  show ?thesis
  proof (cases "\<exists>t \<in> dom (tasks s). \<exists>cs. prints l t (phase_of cl (kstack s t)) (prog c t) cs")
    case False
    then have "shown (scr c0) ord (scr c)" using sh by blast
    then show ?thesis using cal(1) pend
      by (intro exI [of _ ord] exI [of _ pend] exI [of _ "[]"]) (auto simp: shown_def)
  next
    case True
    then obtain t cs where t: "t \<in> dom (tasks s)" "prints l t (phase_of cl (kstack s t)) (prog c t) cs" by blast
    then have p: "prog c t = rest cs" by (simp add: prints_def)
    have "shown_part (scr c0) ord t cs (scr c)"
      using l(2) [OF t(1)] t(2) unfolding con_task_def idle_in_def wants_def prints_def
      by (auto simp: rest_inj)
    then obtain ord' pre where o: "ord = ord' @ [(t, pre @ cs)]" "put_chars (concat (map snd ord') @ pre) (scr c0) = Some (scr c)"
      by (auto simp: shown_part_def)
    have "\<not> (\<forall>t \<in> dom (tasks s). prog c t = [])" using t(1) p by (auto simp: rest_def intro!: bexI [of _ t])
    then show ?thesis using o cal(1) p
      by (intro exI [of _ ord'] exI [of _ pend] exI [of _ pre] exI [of _ "[(t, pre @ cs)]"]) auto
  qed
qed

text \<open>Two tasks with a free console; the one on the processor prints a character.\<close>

lemma demo_kernel_sync: "sync_ok (\<lambda>_. None) demo_kernel"
proof -
  have ls: "lock_sema 0xc0200000 = 0xc0200004" by (simp add: lock_sema_def)
  have b: "blocked demo_kernel = {}"
    by (auto simp: blocked_def st_def demo_kernel_def demo_task_def split: if_splits)
  have stacks: "stacks_ok demo_kernel"
    unfolding stacks_ok_def b by (auto simp: demo_kernel_def on_proc_def split: if_splits)
  have "locks_ok (\<lambda>_. None) demo_kernel"
    unfolding locks_ok_def b by (auto simp: demo_kernel_def ls lock_ok_def split: if_splits)
  with demo_kernel_ok(1) stacks show ?thesis by (simp add: sync_ok_def)
qed

definition demo_console :: console where
  "demo_console = \<lparr>scr = \<lparr>video = replicate 2000 blank, cursor = 0\<rparr>, prog = \<lambda>t. [], called = []\<rparr>"

theorem console_output_atomic_witness:
  "\<exists>ord pend pre post. {#(0xc009e000, [0x41])#} = mset ord + mset pend + mset (post :: (u32 \<times> u8 list) list) \<and> length post \<le> 1 \<and>
    put_chars (concat (map snd ord) @ pre) (scr demo_console) = Some (scr demo_console)"
proof -
  let ?c = "set_prog 0xc009e000 (console_put_char 0x41) (demo_console\<lparr>called := [(0xc009e000, [0x41])]\<rparr>)"
  have q: "console_quiet 0xc0200000 demo_kernel demo_console"
    by (auto simp: console_quiet_def lock_free_def lock_sema_def demo_console_def demo_kernel_def split: if_splits)
  have "call_ops (console_put_char 0x41)" by (auto simp: call_ops_def)
  then have "cstep 0xc0200000 (demo_kernel, demo_console) (demo_kernel, ?c)"
    using cstep.call [of demo_kernel demo_console "console_put_char 0x41"]
    by (simp add: demo_kernel_def demo_console_def text_of_def console_put_char_def)
  then have "creach 0xc0200000 (demo_kernel, demo_console) (demo_kernel, ?c)" by (rule creach.more [OF creach.start])
  from console_output_atomic [OF demo_kernel_sync q this] show ?thesis by (auto simp: set_prog_def)
qed

end
