(* ===== verification/Kernel_Start.thy ===== *)
theory Kernel_Start
  imports Device_Console Device_Keyboard Device_Timer Process_Create Fs_Mount
begin

text \<open>
  \<open>panic_spin\<close> of \<open>kernel/debug.c\<close>, and the start of the kernel, \<open>init_all\<close> of \<open>kernel/init.c\<close> and \<open>main\<close> of \<open>kernel/main.c\<close>:
  the order in which the components are initialised, on the states their theories define.
\<close>

subsection \<open>Panic\<close>

definition chars :: "string \<Rightarrow> u8 list" where
  "chars str = map of_char str"

text \<open>\<open>while (1);\<close>\<close>

partial_function (option) spin :: "'s \<Rightarrow> 's option" where
  "spin s = spin s"

text \<open>What \<open>panic_spin\<close> puts on the screen.\<close>

definition panic_text :: "u8 list \<Rightarrow> u32 \<Rightarrow> u8 list \<Rightarrow> u8 list \<Rightarrow> u8 list" where
  "panic_text file line func condition =
     [0x0a, 0x0a, 0x0a] @ chars '' ---------error-------- '' @ [0x0a] @ chars ''filename:'' @ file @ [0x0a] @
     chars ''Line: '' @ int_chars line @ [0x0a] @ chars ''Func: '' @ func @ [0x0a] @
     chars ''Condition: '' @ condition @ [0x0a]"

definition panic_print ::
  "u8 list \<Rightarrow> u32 \<Rightarrow> u8 list \<Rightarrow> u8 list \<Rightarrow> 'z cpu_scheme \<times> screen \<Rightarrow> ('z cpu_scheme \<times> screen) option" where
  "panic_print file line func condition = (\<lambda>(s, w). do {
     let s = snd (intr_disable s);
     w \<leftarrow> put_str ([0x0a, 0x0a, 0x0a] @ chars '' ---------error-------- '' @ [0x0a]) w;
     w \<leftarrow> put_str (chars ''filename:'') w;
     w \<leftarrow> put_str file w;
     w \<leftarrow> put_str [0x0a] w;
     w \<leftarrow> put_str (chars ''Line: '') w;
     w \<leftarrow> put_int line w;
     w \<leftarrow> put_char 0x0a w;
     w \<leftarrow> put_str (chars ''Func: '') w;
     w \<leftarrow> put_str func w;
     w \<leftarrow> put_char 0x0a w;
     w \<leftarrow> put_str (chars ''Condition: '') w;
     w \<leftarrow> put_str condition w;
     w \<leftarrow> put_char 0x0a w;
     Some (s, w) })"

definition panic_spin ::
  "u8 list \<Rightarrow> u32 \<Rightarrow> u8 list \<Rightarrow> u8 list \<Rightarrow> 'z cpu_scheme \<times> screen \<Rightarrow> ('z cpu_scheme \<times> screen) option" where
  "panic_spin file line func condition x = Option.bind (panic_print file line func condition x) spin"

lemma spin_diverges: "spin s = None"
proof (rule ccontr)
  assume "spin s \<noteq> None"
  then obtain t where "spin s = Some t" by blast
  then show False by (rule spin.raw_induct [rotated])
qed

lemma put_str_bytes: "0 \<notin> set str \<Longrightarrow> put_str str w = put_chars str w"
proof -
  assume "0 \<notin> set str"
  then have "takeWhile (\<lambda>c. c \<noteq> 0) str = str" by (induction str) auto
  then show ?thesis by (simp only: put_str_chars)
qed

text \<open>
  A failed assertion is \<open>None\<close> in the other theories, a call that does not return. That is what \<open>panic_spin\<close>
  does: the message is on the screen, the interrupts are off, and the loop never ends.
\<close>

lemma panic_stops:
  assumes "0 \<notin> set file" and "0 \<notin> set func" and "0 \<notin> set condition"
  shows "panic_spin file line func condition (s, w) = None"
    and "panic_print file line func condition (s, w) =
      map_option (Pair (snd (intr_disable s))) (put_chars (panic_text file line func condition) w)"
    and "intr_get_status (snd (intr_disable s)) = INTR_OFF"
proof -
  show "panic_spin file line func condition (s, w) = None"
    by (cases "panic_print file line func condition (s, w)") (simp_all add: panic_spin_def spin_diverges)
  have z: "0 \<notin> set ([0x0a, 0x0a, 0x0a] @ chars '' ---------error-------- '' @ [0x0a])" "0 \<notin> set (chars ''filename:'')"
      "0 \<notin> set [0x0a :: u8]" "0 \<notin> set (chars ''Line: '')" "0 \<notin> set (chars ''Func: '')" "0 \<notin> set (chars ''Condition: '')"
    by (simp_all add: chars_def)
  have one: "put_char 0x0a v = put_chars [0x0a] v" for v by (simp split: bind_splits)
  have m: "map_option g (Option.bind x f) = Option.bind x (\<lambda>y. map_option g (f y))" for g :: "screen \<Rightarrow> 'b" and x f by (cases x) simp_all
  have p: "Option.bind x (\<lambda>y. Some (u, y)) = map_option (Pair u) x" for u :: "'a cpu_scheme" and x :: "screen option" by (cases x) simp_all
  note str = z [THEN put_str_bytes] assms [THEN put_str_bytes]
  show "panic_print file line func condition (s, w) =
      map_option (Pair (snd (intr_disable s))) (put_chars (panic_text file line func condition) w)"
    unfolding panic_print_def panic_text_def put_int_def Let_def case_prod_conv one str
    by (simp only: put_chars_append m p Option.bind_assoc)
  show "intr_get_status (snd (intr_disable s)) = INTR_OFF" by simp
qed

subsection \<open>The start of the kernel\<close>

text \<open>
  The state of the machine while the kernel starts: what its components keep. The disks hold the memory of the kernel for the
  calls of \<open>sys_malloc\<close>; it is handed over before \<open>ide_init\<close>.
\<close>

record machine =
  ints :: intr_state
  os :: proc_state
  tss_part :: tss_setup
  keys :: ioqueue
  calls :: "syscall option list"
  disk_part :: fs_state
  display :: screen

text \<open>The addresses of functions and objects, and the facts about the machine, that the linker and the BIOS give.\<close>

record linked =
  entry_table :: "u32 list"
  addr_syscall_handler :: u32
  addr_general_handler :: u32
  addr_idt :: u32
  addr_timer_handler :: u32
  addr_kbd_handler :: u32
  addr_hd_handler :: u32
  addr_tss :: u32
  addr_console_lock :: u32
  addr_kbd_lock :: u32
  code_at :: code_addrs
  total_mem :: u32
  hd_cnt :: u8
  mem_bytes :: "u8 list"
  sb_padding :: "u8 list"

text \<open>The calls of \<open>init_all\<close> up to \<open>intr_enable\<close>, which run with interrupts off.\<close>

definition init_modules :: "linked \<Rightarrow> machine \<Rightarrow> machine option" where
  "init_modules a m = do {
     w \<leftarrow> put_str (chars ''init_all'' @ [0x0a]) (display m);
     i \<leftarrow> idt_init (entry_table a) (addr_syscall_handler a) (addr_general_handler a) (addr_idt a) (ints m);
     s \<leftarrow> mem_init (total_mem a) (mem_bytes a) (os m);
     s \<leftarrow> thread_init (code_at a) s;
     i \<leftarrow> timer_init (addr_timer_handler a) i;
     let s = console_init (addr_console_lock a) s;
     (q, i, s) \<leftarrow> keyboard_init (addr_kbd_lock a) (keys m) i (addr_kbd_handler a) s;
     let t = tss_init (addr_tss a) (tss_part m);
     let c = syscall_init (calls m);
     Some (m\<lparr>ints := i, os := s, tss_part := t, keys := q, calls := c, display := w\<rparr>) }"

definition init_all :: "linked \<Rightarrow> machine \<Rightarrow> machine option" where
  "init_all a m = do {
     m \<leftarrow> init_modules a m;
     let s = snd (intr_enable (os m));
     d \<leftarrow> ide_init (hd_cnt a) (addr_hd_handler a) ((disk_part m)\<lparr>kern := kmem.truncate s\<rparr>);
     d \<leftarrow> filesys_init (sb_padding a) d;
     Some (m\<lparr>os := kmem.extend (kern d) (kmem.more s), disk_part := d\<rparr>) }"

text \<open>
  \<open>main\<close> up to its last loop; it is the only task that uses the console then, so its \<open>console_put_str\<close> is the
  printing alone.
\<close>

definition main_start :: "linked \<Rightarrow> machine \<Rightarrow> machine option" where
  "main_start a m = do {
     w \<leftarrow> put_str (chars ''I am kernel'' @ [0x0a]) (display m);
     m \<leftarrow> init_all a (m\<lparr>display := w\<rparr>);
     w \<leftarrow> put_str (text_of (console_put_str (chars ''[tianjiao@localhost /]$ ''))) (cls_screen (display m));
     Some (m\<lparr>display := w\<rparr>) }"

definition kernel_main :: "linked \<Rightarrow> machine \<Rightarrow> machine option" where
  "kernel_main a m = Option.bind (main_start a m) spin"

text \<open>The first user process: the parent of the fork waits for ever, the child runs the shell, which never returns.\<close>

definition init_process :: "('s \<Rightarrow> (u16 \<times> 's) option) \<Rightarrow> ('s \<Rightarrow> 's option) \<Rightarrow> 's \<Rightarrow> 's option" where
  "init_process do_fork shell s = do {
     (ret_pid, s) \<leftarrow> do_fork s;
     if ret_pid \<noteq> 0 then spin s
     else do { s \<leftarrow> shell s; None } }"

lemma start_never_returns: "kernel_main a m = None" "init_process do_fork shell s = None"
  by (auto simp: kernel_main_def init_process_def spin_diverges split: bind_splits)

end
